(* ===== verification/Prelude.thy ===== *)
theory Prelude
  imports Main "HOL-Library.Word"
begin

text \<open>
  Material every component shares: the word widths of the C types, the faults of the
  C semantics, sequencing of fallible steps, C strings inside fixed character arrays
  with the library calls of \<^verbatim>\<open>string.h\<close> that the sources use, index loops that stop at
  a guard, and function updates on two-dimensional arrays.
\<close>

section \<open>Machine types\<close>

type_synonym u8 = "8 word"
type_synonym u16 = "16 word"
type_synonym u32 = "32 word"
type_synonym u64 = "64 word"

section \<open>Faults and sequencing\<close>

text \<open>
  A C operation either delivers a value (\<^term>\<open>Inr\<close>) or runs into a state where the
  program is stuck (\<^term>\<open>Inl\<close>): an access outside its array, a null or uninitialised
  pointer that is followed, a loop over a linked list that never ends, or a call of the kernel's \<^verbatim>\<open>panic\<close> with its message.
\<close>

datatype fault = OutOfBounds | NullDeref | Uninit | Endless | Panic string

named_theorems fault_simps "how fallible steps compose"

definition chain :: "'e + 'a \<Rightarrow> ('a \<Rightarrow> 'e + 'b) \<Rightarrow> 'e + 'b" where
  "chain m f = (case m of Inl e \<Rightarrow> Inl e | Inr x \<Rightarrow> f x)"

lemma chain_Inl [simp, fault_simps]: "chain (Inl e) f = Inl e"
  by (simp add: chain_def)

lemma chain_Inr [simp, fault_simps]: "chain (Inr x) f = f x"
  by (simp add: chain_def)

lemma chain_assoc: "chain (chain m f) g = chain m (\<lambda>x. chain (f x) g)"
  by (cases m) simp_all

lemma chain_cong [fundef_cong]:
  "m = m' \<Longrightarrow> (\<And>x. m' = Inr x \<Longrightarrow> f x = f' x) \<Longrightarrow> chain m f = chain m' f'"
  by (cases m') simp_all

lemma chain_eq_Inr: "chain m f = Inr y \<longleftrightarrow> (\<exists>x. m = Inr x \<and> f x = Inr y)"
  by (cases m) auto

lemma chain_eq_Inl: "chain m f = Inl e \<longleftrightarrow> m = Inl e \<or> (\<exists>x. m = Inr x \<and> f x = Inl e)"
  by (cases m) auto

lemma chainE [elim]:
  assumes "chain m f = Inr y"
  obtains x where "m = Inr x" and "f x = Inr y"
  using assms by (auto simp: chain_eq_Inr)

section \<open>C strings in character arrays\<close>

abbreviation NUL :: char where
  "NUL \<equiv> CHR 0x00"

text \<open>The string a character array holds: everything before its first zero byte.\<close>

definition cstr :: "char list \<Rightarrow> string" where
  "cstr b = takeWhile (\<lambda>c. c \<noteq> NUL) b"

definition terminated :: "char list \<Rightarrow> bool" where
  "terminated b \<longleftrightarrow> NUL \<in> set b"

text \<open>\<^verbatim>\<open>strlen\<close> runs off the array when there is no zero byte in it.\<close>

definition c_strlen :: "char list \<Rightarrow> fault + nat" where
  "c_strlen b = (if terminated b then Inr (length (cstr b)) else Inl OutOfBounds)"

text \<open>\<^verbatim>\<open>strcpy\<close> into an array: the string and its terminator must fit; the bytes after
  the terminator stay what they were.\<close>

definition c_strcpy :: "char list \<Rightarrow> string \<Rightarrow> fault + char list" where
  "c_strcpy d s =
     (if length s < length d then Inr (s @ NUL # drop (Suc (length s)) d) else Inl OutOfBounds)"

text \<open>Index of the last occurrence, as \<^verbatim>\<open>strrchr (s, c) - s\<close>; None is the null result.\<close>

definition strrchr_idx :: "string \<Rightarrow> char \<Rightarrow> nat option" where
  "strrchr_idx s c =
     (if c \<in> set s then Some (length s - Suc (length (takeWhile (\<lambda>x. x \<noteq> c) (rev s)))) else None)"

text \<open>Index of the first occurrence, or None.\<close>

fun index_of :: "char \<Rightarrow> string \<Rightarrow> nat option" where
  "index_of c [] = None"
| "index_of c (x # xs) = (if x = c then Some 0 else map_option Suc (index_of c xs))"

lemma cstr_Nil [simp]: "cstr [] = []"
  by (simp add: cstr_def)

lemma cstr_Cons: "cstr (c # b) = (if c = NUL then [] else c # cstr b)"
  by (simp add: cstr_def)

lemma cstr_NUL_Cons [simp]: "cstr (NUL # b) = []"
  by (simp add: cstr_def)

lemma NUL_notin_cstr [simp]: "NUL \<notin> set (cstr b)"
  by (auto simp: cstr_def dest: set_takeWhileD)

lemma cstr_append_NUL: "NUL \<notin> set s \<Longrightarrow> cstr (s @ NUL # b) = s"
  by (induction s) (auto simp: cstr_Cons)

lemma cstr_append: "NUL \<notin> set s \<Longrightarrow> cstr (s @ b) = s @ cstr b"
  by (induction s) (auto simp: cstr_Cons)

lemma cstr_replicate_NUL [simp]: "cstr (replicate n NUL) = []"
  by (cases n) auto

lemma length_cstr_le: "length (cstr b) \<le> length b"
  by (simp add: cstr_def length_takeWhile_le)

lemma length_cstr_less: "terminated b \<Longrightarrow> length (cstr b) < length b"
  unfolding terminated_def by (induction b) (auto simp: cstr_Cons)

lemma cstr_split:
  "terminated b \<Longrightarrow> b = cstr b @ NUL # drop (Suc (length (cstr b))) b"
  unfolding terminated_def by (induction b) (auto simp: cstr_Cons)

lemma cstr_drop: "k \<le> length (cstr b) \<Longrightarrow> cstr (drop k b) = drop k (cstr b)"
proof (induction b arbitrary: k)
  case (Cons c b)
  then show ?case by (cases k) (auto simp: cstr_Cons split: if_splits)
qed simp

lemma cstr_id: "NUL \<notin> set s \<Longrightarrow> cstr s = s"
  by (induction s) (auto simp: cstr_Cons)

lemma terminated_replicate [simp]: "terminated (replicate n NUL) \<longleftrightarrow> 0 < n"
  by (auto simp: terminated_def)

lemma c_strlen_Inr: "c_strlen b = Inr n \<longleftrightarrow> terminated b \<and> n = length (cstr b)"
  by (auto simp: c_strlen_def)

lemma c_strcpy_Inr:
  "c_strcpy d s = Inr b \<longleftrightarrow> length s < length d \<and> b = s @ NUL # drop (Suc (length s)) d"
  by (auto simp: c_strcpy_def)

lemma c_strcpy_props:
  assumes "c_strcpy d s = Inr b" and "NUL \<notin> set s"
  shows "length b = length d" and "terminated b" and "cstr b = s"
  using assms by (auto simp: c_strcpy_Inr terminated_def cstr_append_NUL)

lemma index_of_None: "index_of c s = None \<longleftrightarrow> c \<notin> set s"
  by (induction s) auto

lemma index_of_Some:
  "index_of c s = Some n \<longleftrightarrow> n < length s \<and> s ! n = c \<and> c \<notin> set (take n s)"
proof (induction s arbitrary: n)
  case Nil
  then show ?case by simp
next
  case (Cons x xs)
  then show ?case by (cases n) auto
qed

lemma strrchr_idx_None: "strrchr_idx s c = None \<longleftrightarrow> c \<notin> set s"
  by (simp add: strrchr_idx_def)

text \<open>The last slash of a path \<open>d/n\<close> whose name part has none is the one after \<open>d\<close>.\<close>

lemma strrchr_idx_append:
  assumes "c \<notin> set n"
  shows "strrchr_idx (d @ c # n) c = Some (length d)"
proof -
  have "takeWhile (\<lambda>x. x \<noteq> c) (rev (d @ c # n)) = rev n"
    using assms by (auto simp: takeWhile_append)
  then show ?thesis by (simp add: strrchr_idx_def)
qed

section \<open>Index loops that stop at a guard\<close>

text \<open>
  \<^verbatim>\<open>for (i = a; i < n && guard (i); i++) if (hit (i)) return i;\<close> is
  \<open>scan guard hit [a..<n]\<close>: the first index that hits, provided every index before it
  (and the index itself) passes the guard.
\<close>

fun scan :: "(nat \<Rightarrow> bool) \<Rightarrow> (nat \<Rightarrow> bool) \<Rightarrow> nat list \<Rightarrow> nat option" where
  "scan g h [] = None"
| "scan g h (i # is) = (if \<not> g i then None else if h i then Some i else scan g h is)"

lemma scan_Some: "scan g h is = Some i \<Longrightarrow> i \<in> set is \<and> g i \<and> h i"
  by (induction "is") (auto split: if_splits)

lemma scan_None_upt:
  assumes "scan g h [a..<n] = None" and "a \<le> k" and "k < n"
    and "\<And>i. a \<le> i \<Longrightarrow> i \<le> k \<Longrightarrow> g i"
  shows "\<not> h k"
  using assms
proof (induction "n - a" arbitrary: a)
  case 0
  then show ?case by simp
next
  case (Suc m)
  then have eq: "[a..<n] = a # [Suc a..<n]" by (simp add: upt_conv_Cons)
  show ?case
  proof (cases "k = a")
    case True
    with Suc.prems(1,4) show ?thesis unfolding eq by (auto split: if_splits)
  next
    case False
    have ga: "g a" using Suc.prems(2,4) by simp
    have "scan g h [Suc a..<n] = None"
      using Suc.prems(1) ga unfolding eq by (auto split: if_splits)
    then show ?thesis
      using Suc.hyps(1)[of "Suc a"] Suc.hyps(2) Suc.prems(2-4) False by simp
  qed
qed

lemma scan_hit_upt:
  assumes "a \<le> k" and "k < n" and "h k"
    and "\<And>i. a \<le> i \<Longrightarrow> i \<le> k \<Longrightarrow> g i"
  shows "\<exists>i. scan g h [a..<n] = Some i \<and> a \<le> i \<and> i \<le> k"
  using assms
proof (induction "n - a" arbitrary: a)
  case 0
  then show ?case by simp
next
  case (Suc m)
  then have eq: "[a..<n] = a # [Suc a..<n]" by (simp add: upt_conv_Cons)
  show ?case
  proof (cases "h a")
    case True
    with Suc.prems(1,4) show ?thesis unfolding eq by auto
  next
    case False
    then have ak: "Suc a \<le> k" using Suc.prems(1,3) by (cases "k = a") auto
    have "\<exists>i. scan g h [Suc a..<n] = Some i \<and> Suc a \<le> i \<and> i \<le> k"
      using Suc.hyps(1)[of "Suc a"] Suc.hyps(2) Suc.prems(2-4) ak by simp
    with False Suc.prems(1,4) show ?thesis unfolding eq by auto
  qed
qed

lemma scan_first:
  "scan (\<lambda>_. True) h [a..<n] = Some t \<Longrightarrow>
     a \<le> t \<and> t < n \<and> h t \<and> (\<forall>k. a \<le> k \<and> k < t \<longrightarrow> \<not> h k)"
proof (induction "n - a" arbitrary: a)
  case 0
  then show ?case by simp
next
  case (Suc m)
  then have eq: "[a..<n] = a # [Suc a..<n]" by (simp add: upt_conv_Cons)
  show ?case
  proof (cases "h a")
    case True
    with Suc.prems Suc.hyps(2) show ?thesis unfolding eq by auto
  next
    case False
    with Suc.prems have "scan (\<lambda>_. True) h [Suc a..<n] = Some t" unfolding eq by simp
    with Suc.hyps(1)[of "Suc a"] Suc.hyps(2)
    have "Suc a \<le> t \<and> t < n \<and> h t \<and> (\<forall>k. Suc a \<le> k \<and> k < t \<longrightarrow> \<not> h k)" by simp
    with False show ?thesis by (metis Suc_leD le_neq_implies_less Suc_le_eq)
  qed
qed

lemma scan_none:
  "scan (\<lambda>_. True) h is = None \<longleftrightarrow> (\<forall>i\<in>set is. \<not> h i)"
  by (induction "is") auto

lemma scan_cong:
  "(\<And>i. i \<in> set is \<Longrightarrow> g i = g' i \<and> h i = h' i) \<Longrightarrow> scan g h is = scan g' h' is"
  by (induction "is") auto

section \<open>Two-dimensional arrays\<close>

definition set_cell :: "(nat \<Rightarrow> nat \<Rightarrow> 'a) \<Rightarrow> nat \<Rightarrow> nat \<Rightarrow> 'a \<Rightarrow> nat \<Rightarrow> nat \<Rightarrow> 'a" where
  "set_cell m i j x = m(i := (m i)(j := x))"

lemma set_cell_same [simp]: "set_cell m i j x i j = x"
  by (simp add: set_cell_def)

lemma set_cell_other [simp]: "k \<noteq> i \<or> l \<noteq> j \<Longrightarrow> set_cell m i j x k l = m k l"
  by (auto simp: set_cell_def)

lemma set_cell_app: "set_cell m i j x k l = (if k = i \<and> l = j then x else m k l)"
  by (auto simp: set_cell_def)

lemma row_index_eq:
  fixes t t' n :: nat
  assumes "t' < n" and "t < n"
  shows "d' * n + t' = d * n + t \<longleftrightarrow> d' = d \<and> t' = t"
proof
  assume h: "d' * n + t' = d * n + t"
  have "(d' * n + t') div n = d'" "(d * n + t) div n = d" using assms by simp_all
  with h show "d' = d \<and> t' = t" by simp
qed simp

section \<open>Runs of fallible steps\<close>

fun run_steps :: "('s \<Rightarrow> 'e \<Rightarrow> fault + 's) \<Rightarrow> 's \<Rightarrow> 'e list \<Rightarrow> fault + 's" where
  "run_steps step s [] = Inr s"
| "run_steps step s (e # es) = chain (step s e) (\<lambda>s'. run_steps step s' es)"

lemma run_steps_append:
  "run_steps step s (es @ fs) = chain (run_steps step s es) (\<lambda>s'. run_steps step s' fs)"
proof (induction es arbitrary: s)
  case (Cons e es)
  then show ?case by (cases "step s e") simp_all
qed simp

text \<open>A counting loop whose every round keeps an invariant ends with it.\<close>

lemma run_steps_upt:
  assumes "\<And>i s. i < n \<Longrightarrow> I i s \<Longrightarrow> \<exists>s'. step s i = Inr s' \<and> I (Suc i) s'" and "I 0 s"
  shows "\<exists>s'. run_steps step s [0..<n] = Inr s' \<and> I n s'"
  using assms(1)
proof (induction n)
  case (Suc n)
  then obtain t where "run_steps step s [0..<n] = Inr t" "I n t" by auto
  moreover from Suc.prems[of n t] this(2) obtain s' where "step t n = Inr s'" "I (Suc n) s'" by auto
  ultimately show ?case by (simp add: run_steps_append)
qed (use assms(2) in simp)

text \<open>
  The contract of a component that is driven by requests: every request that satisfies the
  caller's obligation \<open>ok\<close> and does not fault keeps the invariant. Its consequences for
  whole histories are proved once here; each component interprets the locale.
\<close>

locale invariant_machine =
  fixes step :: "'s \<Rightarrow> 'e \<Rightarrow> fault + 's"
    and ok :: "'e \<Rightarrow> bool"
    and inv :: "'s \<Rightarrow> bool"
  assumes step_inv: "inv s \<Longrightarrow> ok e \<Longrightarrow> step s e = Inr s' \<Longrightarrow> inv s'"
begin

lemma run_inv:
  "inv s \<Longrightarrow> \<forall>e\<in>set es. ok e \<Longrightarrow> run_steps step s es = Inr s' \<Longrightarrow> inv s'"
proof (induction es arbitrary: s)
  case Nil
  then show ?case by simp
next
  case (Cons e es)
  from Cons.prems(3) obtain t where t: "step s e = Inr t" "run_steps step t es = Inr s'"
    by (auto simp: chain_eq_Inr)
  with Cons.prems have "inv t" by (auto intro: step_inv)
  with Cons t(2) show ?case by auto
qed

lemma run_prefix_inv:
  assumes "inv s" and "\<forall>e\<in>set (es @ fs). ok e" and "run_steps step s (es @ fs) = Inr s'"
  shows "\<exists>t. run_steps step s es = Inr t \<and> inv t \<and> run_steps step t fs = Inr s'"
proof -
  from assms(3) obtain t where "run_steps step s es = Inr t" and "run_steps step t fs = Inr s'"
    by (auto simp: run_steps_append chain_eq_Inr)
  with assms(1,2) show ?thesis by (auto intro: run_inv)
qed

end

text \<open>
  The contract of a component that implements an abstract machine: every request that meets the
  abstract machine's obligation and does not fault is matched by an abstract step with the same
  reply. \<open>spec_run\<close> is a run of the abstract machine, \<open>call_run\<close> one of the component.
\<close>

fun call_run :: "('s \<Rightarrow> 'e \<Rightarrow> fault + ('s \<times> 'r)) \<Rightarrow> 's \<Rightarrow> 'e list \<Rightarrow> fault + ('s \<times> 'r list)" where
  "call_run call s [] = Inr (s, [])"
| "call_run call s (e # es) =
     chain (call s e) (\<lambda>(s1, r). chain (call_run call s1 es) (\<lambda>(s2, rs). Inr (s2, r # rs)))"

fun spec_run :: "('a \<Rightarrow> 'e \<Rightarrow> 'a \<Rightarrow> 'r \<Rightarrow> bool) \<Rightarrow> 'a \<Rightarrow> 'e list \<Rightarrow> 'r list \<Rightarrow> 'a \<Rightarrow> bool" where
  "spec_run spec a [] [] a' \<longleftrightarrow> a' = a"
| "spec_run spec a (e # es) (r # rs) a' \<longleftrightarrow> (\<exists>b. spec a e b r \<and> spec_run spec b es rs a')"
| "spec_run spec a _ _ a' \<longleftrightarrow> False"

fun ok_run :: "('s \<Rightarrow> 'e \<Rightarrow> fault + ('s \<times> 'r)) \<Rightarrow> ('s \<Rightarrow> 'e \<Rightarrow> bool) \<Rightarrow> 's \<Rightarrow> 'e list \<Rightarrow> bool" where
  "ok_run call ok s [] \<longleftrightarrow> True"
| "ok_run call ok s (e # es) \<longleftrightarrow>
     ok s e \<and> (case call s e of Inl _ \<Rightarrow> True | Inr (s1, _) \<Rightarrow> ok_run call ok s1 es)"

locale simulation =
  fixes call :: "'s \<Rightarrow> 'e \<Rightarrow> fault + ('s \<times> 'r)"
    and abs :: "'s \<Rightarrow> 'a"
    and inv :: "'s \<Rightarrow> bool"
    and ok :: "'a \<Rightarrow> 'e \<Rightarrow> bool"
    and spec :: "'a \<Rightarrow> 'e \<Rightarrow> 'a \<Rightarrow> 'r \<Rightarrow> bool"
  assumes call_sim: "inv s \<Longrightarrow> ok (abs s) e \<Longrightarrow> call s e = Inr (s', r) \<Longrightarrow>
    inv s' \<and> spec (abs s) e (abs s') r"
begin

lemma run_sim:
  "inv s \<Longrightarrow> ok_run call (\<lambda>s. ok (abs s)) s es \<Longrightarrow> call_run call s es = Inr (s', rs) \<Longrightarrow>
     inv s' \<and> spec_run spec (abs s) es rs (abs s')"
proof (induction es arbitrary: s rs)
  case Nil
  then show ?case by simp
next
  case (Cons e es)
  from Cons.prems(3) obtain s1 r rs1 where c: "call s e = Inr (s1, r)"
    and r: "call_run call s1 es = Inr (s', rs1)" "rs = r # rs1"
    by (auto simp: chain_eq_Inr)
  from Cons.prems(1,2) c call_sim[of s e s1 r] have 1: "inv s1" "spec (abs s) e (abs s1) r" by auto
  from Cons.IH[OF this(1) _ r(1)] Cons.prems(2) c r(2) 1 show ?case by auto
qed

end

section \<open>Linked free lists\<close>

text \<open>The elements a chain of links visits, from the head to the null link.\<close>

fun linked :: "(nat \<Rightarrow> nat option) \<Rightarrow> nat option \<Rightarrow> nat list \<Rightarrow> bool" where
  "linked l h [] \<longleftrightarrow> h = None"
| "linked l h (x # xs) \<longleftrightarrow> h = Some x \<and> linked l (l x) xs"

lemma linked_upd: "x \<notin> set xs \<Longrightarrow> linked (l(x := v)) h xs = linked l h xs"
  by (induction xs arbitrary: h) auto

lemma linked_unique: "linked l h xs \<Longrightarrow> linked l h ys \<Longrightarrow> xs = ys"
proof (induction xs arbitrary: h ys)
  case Nil
  then show ?case by (cases ys) auto
next
  case (Cons x xs)
  then show ?case by (cases ys) auto
qed

text \<open>
  The contract of an allocator over such a list: taking from a list that represents
  \<open>p # ps\<close> gives \<open>p\<close>, giving back puts in front. \<open>repr\<close> ties a state to the free elements in
  list order.
\<close>

locale free_list =
  fixes repr :: "'s \<Rightarrow> nat list \<Rightarrow> bool"
    and take_one :: "'s \<Rightarrow> fault + (nat option \<times> 's)"
    and put_back :: "'s \<Rightarrow> nat \<Rightarrow> fault + 's"
    and returnable :: "'s \<Rightarrow> nat \<Rightarrow> bool"
  assumes take_Nil: "repr s [] \<Longrightarrow> take_one s = Inr (None, s)"
    and take_Cons: "repr s (p # ps) \<Longrightarrow>
      \<exists>s'. take_one s = Inr (Some p, s') \<and> repr s' ps \<and> returnable s' p"
    and put: "repr s ps \<Longrightarrow> returnable s p \<Longrightarrow> p \<notin> set ps \<Longrightarrow>
      \<exists>s'. put_back s p = Inr s' \<and> repr s' (p # ps)"
    and repr_distinct: "repr s ps \<Longrightarrow> distinct ps"
begin

text \<open>Allocation never fails while an element is free, and never hands out one twice.\<close>

lemma take_many:
  "repr s (ps @ qs) \<Longrightarrow>
    \<exists>s'. run_steps (\<lambda>s p. chain (take_one s) (\<lambda>(r, s'). if r = Some p then Inr s' else Inl Uninit)) s ps
           = Inr s' \<and> repr s' qs"
proof (induction ps arbitrary: s)
  case Nil
  then show ?case by simp
next
  case (Cons p ps)
  then obtain s' where "take_one s = Inr (Some p, s')" and "repr s' (ps @ qs)"
    using take_Cons[of s p "ps @ qs"] by auto
  with Cons.IH[of s'] show ?case by simp
qed

lemma take_then_put:
  assumes "repr s (p # ps)"
  shows "\<exists>s' s''. take_one s = Inr (Some p, s') \<and> put_back s' p = Inr s'' \<and> repr s'' (p # ps)"
proof -
  from take_Cons[OF assms] obtain s' where s': "take_one s = Inr (Some p, s')" "repr s' ps" "returnable s' p"
    by blast
  moreover have "p \<notin> set ps" using repr_distinct[OF assms] by simp
  ultimately show ?thesis using put[of s' ps p] by blast
qed

lemma put_then_take:
  assumes "repr s ps" and "returnable s p" and "p \<notin> set ps"
  shows "\<exists>s' s''. put_back s p = Inr s' \<and> take_one s' = Inr (Some p, s'') \<and> repr s'' ps"
  using put[OF assms] take_Cons by blast

end

end
