(* ===== verification/Fisopfs.thy ===== *)
theory Fisopfs
  imports Prelude
begin

text \<open>
  The FUSE file system of \<^verbatim>\<open>fisopfs/fisopfs.c\<close> over the structures of \<^verbatim>\<open>structs.h\<close>: a
  20 by 20 array of cells, column 0 of a row holding a top-level file or directory, the
  other columns the files of that directory. Each FUSE callback is a function from the
  array and the callback's arguments to the new array and the callback's result; a callback
  that would leave an array, follow a null pointer or search an unterminated string is a
  fault. The identity of the caller (\<^verbatim>\<open>getuid\<close>, \<^verbatim>\<open>getgid\<close>) is an argument.
\<close>

section \<open>Structures\<close>

definition LARGO_NOMBRE :: nat where "LARGO_NOMBRE = 20"
definition LARGO_FECHA :: nat where "LARGO_FECHA = 22"
definition LADO_MAPA :: nat where "LADO_MAPA = 20"
definition LARGO_PATH :: nat where "LARGO_PATH = 2 * LARGO_NOMBRE + 2"
definition LARGO_CONTENIDO :: nat where "LARGO_CONTENIDO = 400"

lemmas fs_const_defs = LARGO_NOMBRE_def LARGO_FECHA_def LADO_MAPA_def LARGO_PATH_def
  LARGO_CONTENIDO_def

text \<open>A C enumeration is an \<^verbatim>\<open>int\<close>; a backup file can put any other value there.\<close>

datatype cell_status_t = FREE_T | TAKEN_T | DELETED_T | Other_status u32

datatype file_type_t = NOTHING_T | FILE_T | DIR_T | Other_type u32

record timespec =
  tv_sec :: u64
  tv_nsec :: u64

record file_metadata =
  nombre :: "char list"
  tipo :: "char list"
  fecha_creacion :: "char list"
  fecha_modificacion :: timespec
  fecha_acceso :: timespec
  propietario :: u32
  mode :: u32
  gid :: u32

record fcell =
  path :: "char list"
  cell_status :: cell_status_t
  ftype :: file_type_t
  metadata :: file_metadata
  contenido :: "char list"

type_synonym filesystem = "nat \<Rightarrow> nat \<Rightarrow> fcell"

type_synonym pos = "nat \<times> nat"

record creds =
  uid_of :: u32
  gid_of :: u32

text \<open>The global \<^verbatim>\<open>fs\<close> before anything is loaded: zero bytes.\<close>

definition zero_time :: timespec where
  "zero_time = \<lparr>tv_sec = 0, tv_nsec = 0\<rparr>"

definition zero_metadata :: file_metadata where
  "zero_metadata =
     \<lparr>nombre = replicate LARGO_NOMBRE NUL, tipo = replicate LARGO_NOMBRE NUL,
      fecha_creacion = replicate LARGO_FECHA NUL, fecha_modificacion = zero_time,
      fecha_acceso = zero_time, propietario = 0, mode = 0, gid = 0\<rparr>"

definition zero_file :: fcell where
  "zero_file =
     \<lparr>path = replicate LARGO_PATH NUL, cell_status = FREE_T, ftype = NOTHING_T,
      metadata = zero_metadata, contenido = replicate LARGO_CONTENIDO NUL\<rparr>"

definition zero_fs :: filesystem where
  "zero_fs = (\<lambda>_ _. zero_file)"

section \<open>Error numbers and results\<close>

definition ENOENT :: int where "ENOENT = 2"
definition ENOMEM :: int where "ENOMEM = 12"
definition EEXIST :: int where "EEXIST = 17"
definition ENOTDIR :: int where "ENOTDIR = 20"
definition EISDIR :: int where "EISDIR = 21"
definition ENOTEMPTY :: int where "ENOTEMPTY = 39"

lemmas errno_defs = ENOENT_def ENOMEM_def EEXIST_def ENOTDIR_def EISDIR_def ENOTEMPTY_def

section \<open>Searching the map\<close>

definition cell_path :: "filesystem \<Rightarrow> nat \<Rightarrow> nat \<Rightarrow> string" where
  "cell_path fs i j = cstr (path (fs i j))"

definition used :: "filesystem \<Rightarrow> nat \<Rightarrow> nat \<Rightarrow> bool" where
  "used fs i j \<longleftrightarrow> cell_status (fs i j) \<noteq> FREE_T"

definition taken :: "filesystem \<Rightarrow> nat \<Rightarrow> nat \<Rightarrow> bool" where
  "taken fs i j \<longleftrightarrow> cell_status (fs i j) = TAKEN_T"

text \<open>The body of the outer loop of \<^verbatim>\<open>find_pos\<close>: column 0, then the loop over the others.\<close>

definition find_in_row :: "filesystem \<Rightarrow> string \<Rightarrow> nat \<Rightarrow> pos option" where
  "find_in_row fs p i =
     (if cell_path fs i 0 = p then Some (i, 0)
      else map_option (Pair i) (scan (used fs i) (\<lambda>j. cell_path fs i j = p) [1..<LADO_MAPA]))"

fun find_rows :: "filesystem \<Rightarrow> string \<Rightarrow> nat list \<Rightarrow> pos option" where
  "find_rows fs p [] = None"
| "find_rows fs p (i # is) =
     (if \<not> used fs i 0 then None
      else case find_in_row fs p i of Some q \<Rightarrow> Some q | None \<Rightarrow> find_rows fs p is)"

text \<open>\<open>None\<close> is the position with both fields \<open>-1\<close>.\<close>

definition find_pos :: "filesystem \<Rightarrow> string \<Rightarrow> pos option" where
  "find_pos fs p = find_rows fs p [0..<LADO_MAPA]"

definition clear_cell :: "filesystem \<Rightarrow> nat \<Rightarrow> nat \<Rightarrow> filesystem" where
  "clear_cell fs i j =
     (let c = fs i j in
      set_cell fs i j
        (c\<lparr>cell_status := DELETED_T, ftype := NOTHING_T, path := replicate LARGO_PATH NUL,
           metadata := (metadata c)\<lparr>gid := 0, propietario := 0, mode := 0\<rparr>,
           contenido := (contenido c)[0 := NUL]\<rparr>))"

text \<open>
  \<^verbatim>\<open>get_directory\<close> writes into a caller's array of \<open>2 * LARGO_NOMBRE + 1\<close> bytes: the
  directory part and its terminator must fit. For a name directly under the root the last
  slash is the first character, so the directory is the empty string.
\<close>

definition get_directory :: "string \<Rightarrow> fault + string" where
  "get_directory p =
     (case strrchr_idx p (CHR ''/'') of
        None \<Rightarrow> Inr ''/''
      | Some n \<Rightarrow> if n < LARGO_NOMBRE + LARGO_NOMBRE + 1 then Inr (take n p) else Inl OutOfBounds)"

section \<open>Callbacks\<close>

record stat =
  st_uid :: u32
  st_mode :: u32
  st_nlink :: u64
  st_size :: u64
  st_atime :: u64
  st_mtime :: u64

definition S_IFDIR :: u32 where "S_IFDIR = 0x4000"
definition S_IFREG :: u32 where "S_IFREG = 0x8000"
definition MODE_0755 :: u32 where "MODE_0755 = 493"
definition MODE_0644 :: u32 where "MODE_0644 = 420"

definition fisopfs_getattr ::
    "filesystem \<Rightarrow> string option \<Rightarrow> stat \<Rightarrow> fault + (int \<times> stat)" where
  "fisopfs_getattr fs pth st =
     (case pth of None \<Rightarrow> Inr (- ENOENT, st)
      | Some p \<Rightarrow>
          if p = ''/'' then
            Inr (0, st\<lparr>st_uid := 1717, st_mode := or S_IFDIR MODE_0755, st_nlink := 2\<rparr>)
          else
            (case find_pos fs p of None \<Rightarrow> Inr (- ENOENT, st)
             | Some (i, j) \<Rightarrow>
                 let c = fs i j; st1 = st\<lparr>st_uid := propietario (metadata c)\<rparr> in
                 chain
                   (if ftype c = FILE_T then
                      chain (c_strlen (contenido c)) (\<lambda>n.
                        Inr (st1\<lparr>st_mode := or S_IFREG MODE_0644, st_nlink := 1,
                                 st_size := word_of_nat n\<rparr>))
                    else Inr (st1\<lparr>st_mode := or S_IFDIR MODE_0755, st_nlink := 2\<rparr>))
                   (\<lambda>st2. Inr (0, st2\<lparr>st_atime := tv_sec (fecha_acceso (metadata c)),
                                      st_mtime := tv_sec (fecha_modificacion (metadata c))\<rparr>))))"

text \<open>The names handed to \<^verbatim>\<open>filler\<close> by a listing loop, in order.\<close>

fun list_names :: "(nat \<Rightarrow> fcell) \<Rightarrow> nat \<Rightarrow> nat list \<Rightarrow> string list" where
  "list_names cells k [] = []"
| "list_names cells k (i # is) =
     (if cell_status (cells i) = FREE_T then []
      else if cell_status (cells i) = TAKEN_T
           then cstr (drop k (path (cells i))) # list_names cells k is
           else list_names cells k is)"

definition fisopfs_readdir :: "filesystem \<Rightarrow> string \<Rightarrow> fault + (int \<times> string list)" where
  "fisopfs_readdir fs p =
     (if p = ''/'' then
        Inr (0, [''.'', ''..''] @ list_names (\<lambda>i. fs i 0) 1 [0..<LADO_MAPA])
      else
        case find_pos fs p of None \<Rightarrow> Inr (-1, [''.'', ''..''])
        | Some (i, j) \<Rightarrow>
            if ftype (fs i j) = FILE_T then Inr (-1, [''.'', ''..''])
            else Inr (0, [''.'', ''..''] @ list_names (fs i) (length p + 1) [1..<LADO_MAPA]))"

text \<open>
  \<^verbatim>\<open>strncpy (dst, src + off, n)\<close> into a destination of \<open>cap\<close> bytes: the string that
  starts at \<open>off\<close>, cut or padded with zero bytes to exactly \<open>n\<close> bytes.
\<close>

definition c_strncpy_from :: "char list \<Rightarrow> nat \<Rightarrow> nat \<Rightarrow> nat \<Rightarrow> fault + char list" where
  "c_strncpy_from src off n cap =
     (if cap < n \<or> length src < off then Inl OutOfBounds
      else let s = cstr (drop off src) in
           if length s < n \<and> \<not> terminated (drop off src) then Inl OutOfBounds
           else Inr (take n s @ replicate (n - length s) NUL))"

text \<open>
  \<^verbatim>\<open>size\<close> and \<^verbatim>\<open>offset\<close> are 64 bit; comparing their sum with \<^verbatim>\<open>strlen\<close> is unsigned, and so
  is the subtraction. FUSE's buffer has the \<open>cap\<close> bytes the caller asked for.
\<close>

definition fisopfs_read ::
    "filesystem \<Rightarrow> string \<Rightarrow> nat \<Rightarrow> u64 \<Rightarrow> u64 \<Rightarrow> fault + (int \<times> char list)" where
  "fisopfs_read fs p cap sz offset =
     (case find_pos fs p of None \<Rightarrow> Inr (- ENOENT, [])
      | Some (i, j) \<Rightarrow>
          if ftype (fs i j) = DIR_T then Inr (- EISDIR, [])
          else chain (c_strlen (contenido (fs i j))) (\<lambda>len.
            let size1 = (if offset + sz > word_of_nat len then word_of_nat len - offset else sz);
                size2 = (if size1 > 0 then size1 else 0) in
            chain (c_strncpy_from (contenido (fs i j)) (unat offset) (unat size2) cap) (\<lambda>buf.
              Inr (sint (ucast size2 :: u32), buf))))"

text \<open>Filling a cell, as the three copies of this code in \<^verbatim>\<open>mknod\<close> and \<^verbatim>\<open>mkdir\<close> do.\<close>

definition store_entry ::
    "creds \<Rightarrow> file_type_t \<Rightarrow> string \<Rightarrow> u32 \<Rightarrow> filesystem \<Rightarrow> nat \<Rightarrow> nat \<Rightarrow> fault + filesystem" where
  "store_entry cr ty p md fs i j =
     (let c = fs i j in
      chain (c_strcpy (path c) p) (\<lambda>b.
        Inr (set_cell fs i j
          (c\<lparr>cell_status := TAKEN_T, ftype := ty, path := b,
             metadata := (metadata c)\<lparr>gid := gid_of cr, propietario := uid_of cr, mode := md\<rparr>\<rparr>))))"

text \<open>
  \<^verbatim>\<open>mknod\<close> looks the path up before it tests it for null. When the directory is not
  found (\<open>t = -1\<close>) the first loop shadows \<open>t\<close>; if it finds no cell, the second loop
  indexes the map with \<open>-1\<close>.
\<close>

definition fisops_mknod ::
    "creds \<Rightarrow> filesystem \<Rightarrow> string option \<Rightarrow> u32 \<Rightarrow> fault + (filesystem \<times> int)" where
  "fisops_mknod cr fs pth md =
     (case pth of
        None \<Rightarrow> if used fs 0 0 then Inl NullDeref else Inr (fs, - ENOENT)
      | Some p \<Rightarrow>
          if find_pos fs p \<noteq> None then Inr (fs, - EEXIST)
          else chain (get_directory p) (\<lambda>d.
            case scan (\<lambda>i. used fs i 0) (\<lambda>i. cell_path fs i 0 = d) [0..<LADO_MAPA] of
              None \<Rightarrow>
                (case scan (\<lambda>_. True) (\<lambda>t. \<not> taken fs t 0) [0..<LADO_MAPA] of
                   None \<Rightarrow> Inl OutOfBounds
                 | Some t \<Rightarrow> chain (store_entry cr FILE_T p md fs t 0) (\<lambda>fs'. Inr (fs', 0)))
            | Some t \<Rightarrow>
                (case scan (\<lambda>_. True) (\<lambda>i. \<not> taken fs t i \<and> ftype (fs t 0) = DIR_T)
                        [1..<LADO_MAPA] of
                   None \<Rightarrow> Inr (fs, - ENOMEM)
                 | Some i \<Rightarrow> chain (store_entry cr FILE_T p md fs t i) (\<lambda>fs'. Inr (fs', 0)))))"

definition fisopfs_utimens ::
    "filesystem \<Rightarrow> string \<Rightarrow> timespec \<Rightarrow> timespec \<Rightarrow> filesystem \<times> int" where
  "fisopfs_utimens fs p tv0 tv1 =
     (case find_pos fs p of None \<Rightarrow> (fs, - ENOENT)
      | Some (i, j) \<Rightarrow>
          (set_cell fs i j ((fs i j)\<lparr>metadata :=
             (metadata (fs i j))\<lparr>fecha_acceso := tv0, fecha_modificacion := tv1\<rparr>\<rparr>), 0))"

text \<open>Storing \<open>n\<close> bytes of the caller's buffer from an offset on, byte by byte.\<close>

definition store_bytes :: "char list \<Rightarrow> nat \<Rightarrow> char list \<Rightarrow> nat \<Rightarrow> fault + char list" where
  "store_bytes b off content n =
     (if n = 0 then Inr b
      else if off + n \<le> length b \<and> n \<le> length content
      then Inr (take off b @ take n content @ drop (off + n) b)
      else Inl OutOfBounds)"

definition fisopfs_write ::
    "filesystem \<Rightarrow> string \<Rightarrow> char list \<Rightarrow> u64 \<Rightarrow> u64 \<Rightarrow> fault + (filesystem \<times> int)" where
  "fisopfs_write fs p content sz offset =
     (case find_pos fs p of None \<Rightarrow> Inr (fs, - ENOENT)
      | Some (i, j) \<Rightarrow>
          if ftype (fs i j) = DIR_T then Inr (fs, - EISDIR)
          else chain (c_strlen (contenido (fs i j))) (\<lambda>len.
            let off = (if offset > word_of_nat len then word_of_nat len else offset);
                sz1 = (if sz + word_of_nat len > word_of_nat LARGO_CONTENIDO
                      then word_of_nat LARGO_CONTENIDO - word_of_nat len else sz) in
            chain (store_bytes (contenido (fs i j)) (unat off) content (unat sz1)) (\<lambda>b.
              Inr (set_cell fs i j ((fs i j)\<lparr>contenido := b\<rparr>), sint (ucast sz1 :: u32)))))"

definition fisopfs_open :: "filesystem \<Rightarrow> string \<Rightarrow> int" where
  "fisopfs_open fs p =
     (if p = [] then 0 else case find_pos fs p of None \<Rightarrow> - ENOENT | Some _ \<Rightarrow> 0)"

definition fisopfs_mkdir ::
    "creds \<Rightarrow> filesystem \<Rightarrow> string option \<Rightarrow> u32 \<Rightarrow> fault + (filesystem \<times> int)" where
  "fisopfs_mkdir cr fs pth md =
     (case pth of None \<Rightarrow> Inr (fs, - ENOENT)
      | Some p \<Rightarrow>
          case scan (\<lambda>_. True) (\<lambda>t. \<not> used fs t 0) [0..<LADO_MAPA] of
            None \<Rightarrow> Inr (fs, - ENOMEM)
          | Some t \<Rightarrow> chain (store_entry cr DIR_T p md fs t 0) (\<lambda>fs'. Inr (fs', 0)))"

definition fisopfs_rmdir :: "filesystem \<Rightarrow> string \<Rightarrow> filesystem \<times> int" where
  "fisopfs_rmdir fs p =
     (case find_pos fs p of None \<Rightarrow> (fs, - ENOENT)
      | Some (i, j) \<Rightarrow>
          if ftype (fs i j) = FILE_T then (fs, - ENOTDIR)
          else if scan (used fs i) (taken fs i) [1..<LADO_MAPA] \<noteq> None then (fs, - ENOTEMPTY)
          else (clear_cell fs i j, 0))"

definition fisopfs_unlink :: "filesystem \<Rightarrow> string \<Rightarrow> filesystem \<times> int" where
  "fisopfs_unlink fs p =
     (case find_pos fs p of None \<Rightarrow> (fs, - ENOENT)
      | Some (i, j) \<Rightarrow>
          if ftype (fs i j) = DIR_T then (fs, - EISDIR) else (clear_cell fs i j, 0))"

definition fisopfs_truncate :: "filesystem \<Rightarrow> string \<Rightarrow> u64 \<Rightarrow> filesystem \<times> int" where
  "fisopfs_truncate fs p sz = (fs, 0)"

section \<open>Searching: soundness and completeness\<close>

definition cell_ok :: "fcell \<Rightarrow> bool" where
  "cell_ok c \<longleftrightarrow> length (path c) = LARGO_PATH \<and> terminated (path c)
     \<and> length (contenido c) = LARGO_CONTENIDO
     \<and> cell_status c \<in> {FREE_T, TAKEN_T, DELETED_T}
     \<and> (cell_status c = DELETED_T \<longrightarrow> cstr (path c) = [] \<and> ftype c = NOTHING_T)
     \<and> (cell_status c = TAKEN_T \<longrightarrow> cstr (path c) \<noteq> [] \<and> ftype c \<in> {FILE_T, DIR_T})"

text \<open>
  The loops stop at the first free cell, so a used cell behind a free one would be lost.
\<close>

definition no_holes :: "filesystem \<Rightarrow> bool" where
  "no_holes fs \<longleftrightarrow>
     (\<forall>i k. i < k \<and> k < LADO_MAPA \<and> used fs k 0 \<longrightarrow> used fs i 0) \<and>
     (\<forall>i j l. i < LADO_MAPA \<and> 0 < j \<and> j < l \<and> l < LADO_MAPA \<and> used fs i l \<longrightarrow> used fs i j) \<and>
     (\<forall>i j. i < LADO_MAPA \<and> j < LADO_MAPA \<and> used fs i j \<longrightarrow> used fs i 0)"

definition fs_inv :: "filesystem \<Rightarrow> bool" where
  "fs_inv fs \<longleftrightarrow> (\<forall>i<LADO_MAPA. \<forall>j<LADO_MAPA. cell_ok (fs i j)) \<and> no_holes fs"

lemma find_in_row_Some:
  "find_in_row fs p i = Some (a, b) \<Longrightarrow> used fs i 0 \<Longrightarrow>
     a = i \<and> b < LADO_MAPA \<and> used fs i b \<and> cell_path fs i b = p"
  by (auto simp: find_in_row_def LADO_MAPA_def split: if_splits dest!: scan_Some)

lemma find_rows_Some:
  "find_rows fs p is = Some (a, b) \<Longrightarrow>
     a \<in> set is \<and> b < LADO_MAPA \<and> used fs a b \<and> cell_path fs a b = p"
proof (induction "is")
  case Nil
  then show ?case by simp
next
  case (Cons i "is")
  show ?case
  proof (cases "find_in_row fs p i")
    case None
    with Cons show ?thesis by (auto split: if_splits)
  next
    case (Some q)
    with Cons.prems show ?thesis
      by (cases q) (auto split: if_splits dest!: find_in_row_Some)
  qed
qed

lemma find_pos_Some:
  assumes "find_pos fs p = Some (i, j)"
  shows "i < LADO_MAPA" and "j < LADO_MAPA" and "used fs i j" and "cell_path fs i j = p"
  using find_rows_Some[OF assms[unfolded find_pos_def]] by auto

lemma find_rows_hit:
  assumes "find_in_row fs p k \<noteq> None" and "a \<le> k" and "k < n"
    and "\<And>i. a \<le> i \<Longrightarrow> i \<le> k \<Longrightarrow> used fs i 0"
  shows "find_rows fs p [a..<n] \<noteq> None"
  using assms
proof (induction "n - a" arbitrary: a)
  case 0
  then show ?case by simp
next
  case (Suc m)
  then have eq: "[a..<n] = a # [Suc a..<n]" by (simp add: upt_conv_Cons)
  have ua: "used fs a 0" using Suc.prems(2,4) by simp
  show ?case
  proof (cases "find_in_row fs p a")
    case None
    with Suc.prems(1,2) have ak: "Suc a \<le> k" by (cases "k = a") auto
    have "find_rows fs p [Suc a..<n] \<noteq> None"
      using Suc.hyps(1)[of "Suc a"] Suc.hyps(2) Suc.prems ak by simp
    with None ua show ?thesis unfolding eq by simp
  next
    case (Some q)
    with ua show ?thesis unfolding eq by simp
  qed
qed

text \<open>Under \<open>no_holes\<close> the search misses no used cell.\<close>

lemma find_pos_complete:
  assumes nh: "no_holes fs" and ij: "i < LADO_MAPA" "j < LADO_MAPA"
    and u: "used fs i j" and p: "cell_path fs i j = p"
  shows "find_pos fs p \<noteq> None"
proof -
  have u0: "used fs k 0" if "k \<le> i" for k
    using nh u ij that unfolding no_holes_def by (metis le_neq_implies_less)
  have "find_in_row fs p i \<noteq> None"
  proof (cases "j = 0")
    case True
    with p show ?thesis by (simp add: find_in_row_def)
  next
    case False
    have "used fs i l" if "1 \<le> l" "l \<le> j" for l
      using nh u ij that unfolding no_holes_def
      by (metis One_nat_def Suc_le_lessD le_neq_implies_less)
    then have "\<exists>l. scan (used fs i) (\<lambda>l. cell_path fs i l = p) [1..<LADO_MAPA] = Some l \<and> 1 \<le> l \<and> l \<le> j"
      using False ij p by (intro scan_hit_upt) auto
    then show ?thesis by (auto simp: find_in_row_def)
  qed
  then show ?thesis
    unfolding find_pos_def using ij u0 by (intro find_rows_hit) auto
qed

lemma find_pos_None_iff:
  assumes "no_holes fs"
  shows "find_pos fs p = None \<longleftrightarrow>
    (\<forall>i<LADO_MAPA. \<forall>j<LADO_MAPA. used fs i j \<longrightarrow> cell_path fs i j \<noteq> p)"
  (is "?l = ?r")
proof
  assume ?l
  with find_pos_complete[OF assms] show ?r by blast
next
  assume r: ?r
  show ?l
  proof (cases "find_pos fs p")
    case (Some q)
    then show ?thesis using r find_pos_Some[of fs p "fst q" "snd q"] by auto
  qed
qed

section \<open>The invariant, callback by callback\<close>

lemma fs_inv_zero: "fs_inv zero_fs"
  by (simp add: fs_inv_def cell_ok_def no_holes_def used_def zero_fs_def zero_file_def fs_const_defs)

lemma used_set_cell:
  "used (set_cell fs i j c) k l \<longleftrightarrow>
     (if k = i \<and> l = j then cell_status c \<noteq> FREE_T else used fs k l)"
  by (simp add: used_def set_cell_app)

lemma no_holes_set_cell:
  assumes "no_holes fs" and "cell_status c \<noteq> FREE_T"
    and "j = 0 \<Longrightarrow> \<forall>k<i. used fs k 0"
    and "0 < j \<Longrightarrow> used fs i 0 \<and> (\<forall>l. 0 < l \<and> l < j \<longrightarrow> used fs i l)"
  shows "no_holes (set_cell fs i j c)"
proof -
  note nh = assms(1)[unfolded no_holes_def]
  have a: "used (set_cell fs i j c) x 0" if "x < k" "k < LADO_MAPA" "used (set_cell fs i j c) k 0" for x k
  proof (cases "k = i \<and> j = 0")
    case True
    then show ?thesis using that(1) assms(2,3) by (simp add: used_set_cell)
  next
    case False
    then have "used fs k 0" using that(3) by (auto simp: used_set_cell split: if_splits)
    then have "used fs x 0" using nh that(1,2) by blast
    then show ?thesis using assms(2) by (simp add: used_set_cell)
  qed
  have b: "used (set_cell fs i j c) x y"
    if "x < LADO_MAPA" "0 < y" "y < l" "l < LADO_MAPA" "used (set_cell fs i j c) x l" for x y l
  proof (cases "x = i \<and> l = j")
    case True
    then show ?thesis using that assms(2,4) by (auto simp: used_set_cell)
  next
    case False
    then have "used fs x l" using that(5) by (auto simp: used_set_cell split: if_splits)
    then have "used fs x y" using nh that by blast
    then show ?thesis using assms(2) by (simp add: used_set_cell)
  qed
  have c: "used (set_cell fs i j c) x 0"
    if "x < LADO_MAPA" "y < LADO_MAPA" "used (set_cell fs i j c) x y" for x y
  proof (cases "x = i \<and> y = j")
    case True
    then show ?thesis using that assms(2,4) by (cases "j = 0") (auto simp: used_set_cell)
  next
    case False
    then have "used fs x y" using that(3) by (auto simp: used_set_cell split: if_splits)
    then have "used fs x 0" using nh that by blast
    then show ?thesis using assms(2) by (simp add: used_set_cell)
  qed
  show ?thesis unfolding no_holes_def using a b c by blast
qed

lemma fs_inv_set_cell:
  assumes "fs_inv fs" and "cell_ok c" and "cell_status c \<noteq> FREE_T"
    and "j = 0 \<Longrightarrow> \<forall>k<i. used fs k 0"
    and "0 < j \<Longrightarrow> used fs i 0 \<and> (\<forall>l. 0 < l \<and> l < j \<longrightarrow> used fs i l)"
  shows "fs_inv (set_cell fs i j c)"
  using assms no_holes_set_cell[of fs c j i] by (auto simp: fs_inv_def set_cell_app)

text \<open>Overwriting a cell that is in use already.\<close>

lemma fs_inv_set_used:
  assumes "fs_inv fs" and "cell_ok c" and "cell_status c \<noteq> FREE_T"
    and "used fs i j" and "i < LADO_MAPA" and "j < LADO_MAPA"
  shows "fs_inv (set_cell fs i j c)"
proof (rule fs_inv_set_cell[OF assms(1-3)])
  note nh = assms(1)[unfolded fs_inv_def no_holes_def, THEN conjunct2]
  show "\<forall>k<i. used fs k 0" if "j = 0" using nh assms(4,5) that by blast
  show "used fs i 0 \<and> (\<forall>l. 0 < l \<and> l < j \<longrightarrow> used fs i l)" if "0 < j"
    using nh assms(4-6) that by blast
qed

lemma fs_inv_cell: "fs_inv fs \<Longrightarrow> i < LADO_MAPA \<Longrightarrow> j < LADO_MAPA \<Longrightarrow> cell_ok (fs i j)"
  by (simp add: fs_inv_def)

lemma clear_cell_inv:
  assumes "fs_inv fs" and "find_pos fs p = Some (i, j)"
  shows "fs_inv (clear_cell fs i j)"
proof -
  note fp = find_pos_Some[OF assms(2)]
  have "cell_ok (fs i j)" using fs_inv_cell[OF assms(1)] fp by blast
  then show ?thesis unfolding clear_cell_def Let_def
    using fp by (intro fs_inv_set_used[OF assms(1)]) (auto simp: cell_ok_def fs_const_defs)
qed

lemma store_entry_Inr:
  assumes "store_entry cr ty p md fs i j = Inr fs'"
  obtains b where "c_strcpy (path (fs i j)) p = Inr b"
    and "fs' = set_cell fs i j ((fs i j)\<lparr>cell_status := TAKEN_T, ftype := ty, path := b,
      metadata := (metadata (fs i j))\<lparr>gid := gid_of cr, propietario := uid_of cr, mode := md\<rparr>\<rparr>)"
  using assms by (auto simp: store_entry_def Let_def chain_eq_Inr)

lemma store_entry_inv:
  assumes st: "store_entry cr ty p md fs i j = Inr fs'" and "fs_inv fs" and "NUL \<notin> set p"
    and "p \<noteq> []" and "ty \<in> {FILE_T, DIR_T}" and "i < LADO_MAPA" and "j < LADO_MAPA"
    and "j = 0 \<Longrightarrow> \<forall>k<i. used fs k 0"
    and "0 < j \<Longrightarrow> used fs i 0 \<and> (\<forall>l. 0 < l \<and> l < j \<longrightarrow> used fs i l)"
  shows "fs_inv fs'"
proof -
  from st obtain b where b: "c_strcpy (path (fs i j)) p = Inr b"
    and fs': "fs' = set_cell fs i j ((fs i j)\<lparr>cell_status := TAKEN_T, ftype := ty, path := b,
      metadata := (metadata (fs i j))\<lparr>gid := gid_of cr, propietario := uid_of cr, mode := md\<rparr>\<rparr>)"
    by (rule store_entry_Inr)
  have "cell_ok (fs i j)" using assms fs_inv_cell by blast
  then show ?thesis unfolding fs'
    using assms c_strcpy_props[OF b] by (intro fs_inv_set_cell) (auto simp: cell_ok_def)
qed

text \<open>The two outcomes of \<^verbatim>\<open>mknod\<close> that change the map.\<close>

lemma mknod_Inr_cases:
  assumes "fisops_mknod cr fs (Some p) md = Inr (fs', r)"
  obtains (exists) "find_pos fs p \<noteq> None" "fs' = fs" "r = - EEXIST"
  | (full) "fs' = fs" "r = - ENOMEM" "find_pos fs p = None"
  | (root) t d where "find_pos fs p = None" "r = 0" "get_directory p = Inr d"
      "scan (\<lambda>i. used fs i 0) (\<lambda>i. cell_path fs i 0 = d) [0..<LADO_MAPA] = None"
      "t < LADO_MAPA" "\<forall>k<t. taken fs k 0" "\<not> taken fs t 0" "store_entry cr FILE_T p md fs t 0 = Inr fs'"
  | (dir) t i d where "find_pos fs p = None" "r = 0" "get_directory p = Inr d"
      "t < LADO_MAPA" "used fs t 0" "cell_path fs t 0 = d" "ftype (fs t 0) = DIR_T"
      "0 < i" "i < LADO_MAPA" "\<forall>k. 0 < k \<and> k < i \<longrightarrow> taken fs t k"
      "\<not> taken fs t i" "store_entry cr FILE_T p md fs t i = Inr fs'"
proof (cases "find_pos fs p")
  case (Some q)
  with assms have "fs' = fs" "r = - EEXIST" by (simp_all add: fisops_mknod_def)
  with Some exists show ?thesis by simp
next
  case None
  with assms obtain d where d: "get_directory p = Inr d"
    by (auto simp: fisops_mknod_def chain_eq_Inr)
  let ?dir = "scan (\<lambda>i. used fs i 0) (\<lambda>i. cell_path fs i 0 = d) [0..<LADO_MAPA]"
  show ?thesis
  proof (cases ?dir)
    case nodir: None
    with assms None d obtain t where t: "scan (\<lambda>_. True) (\<lambda>t. \<not> taken fs t 0) [0..<LADO_MAPA] = Some t"
      and st: "store_entry cr FILE_T p md fs t 0 = Inr fs'" "r = 0"
      by (auto simp: fisops_mknod_def chain_eq_Inr split: option.splits)
    from root[OF None st(2) d nodir] scan_first[OF t] st(1) show ?thesis by auto
  next
    case (Some t)
    note ts = scan_Some[OF Some]
    let ?slot = "scan (\<lambda>_. True) (\<lambda>i. \<not> taken fs t i \<and> ftype (fs t 0) = DIR_T) [1..<LADO_MAPA]"
    show ?thesis
    proof (cases ?slot)
      case noslot: None
      with assms None d Some have "fs' = fs" "r = - ENOMEM"
        by (simp_all add: fisops_mknod_def)
      with full None show ?thesis by blast
    next
      case slot: (Some i)
      with assms None d Some have "store_entry cr FILE_T p md fs t i = Inr fs'" "r = 0"
        by (auto simp: fisops_mknod_def chain_eq_Inr)
      with dir[OF None _ d, of t i] scan_first[OF slot] ts show ?thesis by auto
    qed
  qed
qed

lemma taken_used: "taken fs i j \<Longrightarrow> used fs i j"
  by (simp add: taken_def used_def)

lemma mknod_inv:
  assumes "fs_inv fs" and "fisops_mknod cr fs (Some p) md = Inr (fs', r)" and "NUL \<notin> set p"
    and "p \<noteq> []"
  shows "fs_inv fs'"
  using assms(2)
proof (cases rule: mknod_Inr_cases)
  case (root t d)
  show ?thesis
    by (rule store_entry_inv[OF root(8) assms(1,3,4)])
       (use root taken_used in \<open>auto simp: LADO_MAPA_def\<close>)
next
  case (dir t i d)
  show ?thesis
    by (rule store_entry_inv[OF dir(12) assms(1,3,4)]) (use dir taken_used in auto)
qed (use assms in auto)

lemma mkdir_inv:
  assumes "fs_inv fs" and "fisopfs_mkdir cr fs (Some p) md = Inr (fs', r)" and "NUL \<notin> set p"
    and "p \<noteq> []"
  shows "fs_inv fs'"
proof (cases "scan (\<lambda>_. True) (\<lambda>t. \<not> used fs t 0) [0..<LADO_MAPA]")
  case None
  with assms show ?thesis by (simp add: fisopfs_mkdir_def)
next
  case (Some t)
  with assms(2) have "store_entry cr DIR_T p md fs t 0 = Inr fs'"
    by (auto simp: fisopfs_mkdir_def chain_eq_Inr)
  then show ?thesis
    using scan_first[OF Some] assms(1,3,4)
    by (rule_tac store_entry_inv[of cr DIR_T p md fs t 0 fs']) (auto simp: LADO_MAPA_def)
qed

lemma utimens_inv:
  assumes "fs_inv fs"
  shows "fs_inv (fst (fisopfs_utimens fs p a b))"
proof (cases "find_pos fs p")
  case None
  with assms show ?thesis by (simp add: fisopfs_utimens_def)
next
  case (Some q)
  obtain i j where q: "q = (i, j)" by (cases q)
  note fp = find_pos_Some[OF Some[unfolded q]]
  have ok: "cell_ok (fs i j)" using fs_inv_cell[OF assms] fp by blast
  show ?thesis using Some q ok fp
    by (auto simp: fisopfs_utimens_def cell_ok_def used_def intro!: fs_inv_set_used[OF assms])
qed

lemma rmdir_inv: "fs_inv fs \<Longrightarrow> fs_inv (fst (fisopfs_rmdir fs p))"
  by (auto simp: fisopfs_rmdir_def clear_cell_inv split: option.splits)

lemma unlink_inv: "fs_inv fs \<Longrightarrow> fs_inv (fst (fisopfs_unlink fs p))"
  by (auto simp: fisopfs_unlink_def clear_cell_inv split: option.splits)

lemma store_bytes_length: "store_bytes b off content n = Inr b' \<Longrightarrow> length b' = length b"
  by (auto simp: store_bytes_def split: if_splits)

lemma write_inv:
  assumes "fs_inv fs" and "fisopfs_write fs p content n off = Inr (fs', r)"
  shows "fs_inv fs'"
proof (cases "find_pos fs p")
  case None
  with assms show ?thesis by (simp add: fisopfs_write_def)
next
  case (Some q)
  obtain i j where q: "q = (i, j)" by (cases q)
  note fp = find_pos_Some[OF Some[unfolded q]]
  have ok: "cell_ok (fs i j)" using fs_inv_cell[OF assms(1)] fp by blast
  show ?thesis
  proof (cases "ftype (fs i j) = DIR_T")
    case True
    with assms Some q show ?thesis by (simp add: fisopfs_write_def)
  next
    case False
    with assms(2) Some q obtain o' n' b where
        sb: "store_bytes (contenido (fs i j)) o' content n' = Inr b"
        and fs': "fs' = set_cell fs i j ((fs i j)\<lparr>contenido := b\<rparr>)"
      by (auto simp: fisopfs_write_def chain_eq_Inr Let_def)
    show ?thesis unfolding fs'
      using ok fp store_bytes_length[OF sb]
      by (intro fs_inv_set_used[OF assms(1)]) (auto simp: cell_ok_def used_def)
  qed
qed

section \<open>Requests and histories\<close>

datatype fs_op =
    Mknod string u32
  | Mkdir string u32
  | Write string "char list" u64 u64
  | Utimens string timespec timespec
  | Rmdir string
  | Unlink string
  | Truncate string u64
  | Getattr string
  | Readdir string
  | Read string u64 u64
  | Open string

fun fs_op_path :: "fs_op \<Rightarrow> string" where
  "fs_op_path (Mknod p _) = p"
| "fs_op_path (Mkdir p _) = p"
| "fs_op_path (Write p _ _ _) = p"
| "fs_op_path (Utimens p _ _) = p"
| "fs_op_path (Rmdir p) = p"
| "fs_op_path (Unlink p) = p"
| "fs_op_path (Truncate p _) = p"
| "fs_op_path (Getattr p) = p"
| "fs_op_path (Readdir p) = p"
| "fs_op_path (Read p _ _) = p"
| "fs_op_path (Open p) = p"

text \<open>What the kernel gets: a code, with the attributes (FUSE hands in a zeroed structure), the names of a directory in
  the order in which they are filled in, or the bytes read.\<close>

datatype fs_reply = Code int | Attr int stat | Names int "string list" | Bytes int "char list"

definition zero_stat :: stat where
  "zero_stat = \<lparr>st_uid = 0, st_mode = 0, st_nlink = 0, st_size = 0, st_atime = 0, st_mtime = 0\<rparr>"

definition replied :: "('r \<Rightarrow> fs_reply) \<Rightarrow> fault + (filesystem \<times> 'r) \<Rightarrow> fault + (filesystem \<times> fs_reply)" where
  "replied f m = chain m (\<lambda>(fs, r). Inr (fs, f r))"

lemma replied_Inr: "replied f m = Inr (fs, r) \<longleftrightarrow> (\<exists>x. m = Inr (fs, x) \<and> r = f x)"
  by (cases m) (auto simp: replied_def)

text \<open>The callback a request of the table \<^verbatim>\<open>operations\<close> reaches, with its result; a step
  of a history keeps the new map. The buffer of a read has the size asked for. The callbacks that move the whole
  table between memory and disk (\<^verbatim>\<open>init\<close>, \<^verbatim>\<open>flush\<close>, \<^verbatim>\<open>destroy\<close>) are in \<^verbatim>\<open>Persistence\<close>.\<close>

fun fs_call :: "creds \<Rightarrow> filesystem \<Rightarrow> fs_op \<Rightarrow> fault + (filesystem \<times> fs_reply)" where
  "fs_call cr fs (Mknod p md) = replied Code (fisops_mknod cr fs (Some p) md)"
| "fs_call cr fs (Mkdir p md) = replied Code (fisopfs_mkdir cr fs (Some p) md)"
| "fs_call cr fs (Write p c n off) = replied Code (fisopfs_write fs p c n off)"
| "fs_call cr fs (Utimens p a b) = replied Code (Inr (fisopfs_utimens fs p a b))"
| "fs_call cr fs (Rmdir p) = replied Code (Inr (fisopfs_rmdir fs p))"
| "fs_call cr fs (Unlink p) = replied Code (Inr (fisopfs_unlink fs p))"
| "fs_call cr fs (Truncate p n) = replied Code (Inr (fisopfs_truncate fs p n))"
| "fs_call cr fs (Getattr p) = chain (fisopfs_getattr fs (Some p) zero_stat) (\<lambda>(r, st). Inr (fs, Attr r st))"
| "fs_call cr fs (Readdir p) = chain (fisopfs_readdir fs p) (\<lambda>(r, names). Inr (fs, Names r names))"
| "fs_call cr fs (Read p n off) = chain (fisopfs_read fs p (unat n) n off) (\<lambda>(r, buf). Inr (fs, Bytes r buf))"
| "fs_call cr fs (Open p) = Inr (fs, Code (fisopfs_open fs p))"

definition fs_step :: "creds \<Rightarrow> filesystem \<Rightarrow> fs_op \<Rightarrow> fault + filesystem" where
  "fs_step cr fs e = chain (fs_call cr fs e) (\<lambda>(fs', r). Inr fs')"

text \<open>FUSE hands the callbacks non-empty C strings as paths.\<close>

definition fs_op_ok :: "fs_op \<Rightarrow> bool" where
  "fs_op_ok e \<longleftrightarrow> NUL \<notin> set (fs_op_path e) \<and> fs_op_path e \<noteq> []"

lemma call_inv:
  "fs_inv fs \<Longrightarrow> fs_op_ok e \<Longrightarrow> fs_call cr fs e = Inr (fs', r) \<Longrightarrow> fs_inv fs'"
proof (cases e)
  case (Utimens p a b)
  then show "fs_inv fs \<Longrightarrow> fs_call cr fs e = Inr (fs', r) \<Longrightarrow> fs_inv fs'"
    using utimens_inv[of fs p a b] by (auto simp: replied_Inr)
next
  case (Rmdir p)
  then show "fs_inv fs \<Longrightarrow> fs_call cr fs e = Inr (fs', r) \<Longrightarrow> fs_inv fs'"
    using rmdir_inv[of fs p] by (auto simp: replied_Inr)
next
  case (Unlink p)
  then show "fs_inv fs \<Longrightarrow> fs_call cr fs e = Inr (fs', r) \<Longrightarrow> fs_inv fs'"
    using unlink_inv[of fs p] by (auto simp: replied_Inr)
qed (auto simp: fs_op_ok_def fisopfs_truncate_def replied_Inr chain_eq_Inr intro: mknod_inv mkdir_inv write_inv)

interpretation fsm: invariant_machine "fs_step cr" fs_op_ok fs_inv
proof
  fix fs e fs'
  assume "fs_inv fs" and "fs_op_ok e" and "fs_step cr fs e = Inr fs'"
  then show "fs_inv fs'"
    by (auto simp: fs_step_def chain_eq_Inr intro: call_inv)
qed

end
