(* ===== verification/FisopfsProps.thy ===== *)
theory FisopfsProps
  imports Fisopfs
begin

text \<open>
  Properties of the file system of \<^verbatim>\<open>Fisopfs\<close>: what reads and writes do within the bounds
  of a cell, what the creating and deleting callbacks do to the map, and the behaviours of
  reused cells. The demonstration map at the end is built by a history of callbacks from
  the zeroed map and serves the witnesses.
\<close>

lemma write_len:
  fixes sz :: u64
  assumes "len < LARGO_CONTENIDO" and "unat sz < 2 ^ 63"
  shows "unat (if sz + word_of_nat len > word_of_nat LARGO_CONTENIDO
               then word_of_nat LARGO_CONTENIDO - word_of_nat len else sz)
         = min (unat sz) (LARGO_CONTENIDO - len)"
proof -
  have l: "unat (word_of_nat len :: u64) = len"
    using assms(1) by (simp add: unat_of_nat LARGO_CONTENIDO_def)
  have c: "unat (word_of_nat LARGO_CONTENIDO :: u64) = LARGO_CONTENIDO"
    by (simp add: LARGO_CONTENIDO_def)
  have s: "unat (sz + word_of_nat len) = unat sz + len"
    using assms l by (simp add: unat_word_ariths LARGO_CONTENIDO_def)
  have d: "unat (word_of_nat LARGO_CONTENIDO - word_of_nat len :: u64) = LARGO_CONTENIDO - len"
    using assms(1) l c by (subst unat_sub) (auto simp: word_le_nat_alt)
  show ?thesis using s c d assms(1) by (auto simp: word_less_nat_alt)
qed

lemma write_off:
  fixes off :: u64
  assumes "len < LARGO_CONTENIDO"
  shows "unat (if off > word_of_nat len then word_of_nat len else off) = min (unat off) len"
proof -
  have l: "unat (word_of_nat len :: u64) = len"
    using assms(1) by (simp add: unat_of_nat LARGO_CONTENIDO_def)
  then show ?thesis by (auto simp: word_less_nat_alt)
qed

lemma sint_of_small:
  fixes w :: u64
  assumes "unat w \<le> 400"
  shows "sint (ucast w :: u32) = int (unat w)"
proof -
  have u: "unat (ucast w :: u32) = unat w"
    using assms by (simp add: unsigned_ucast_eq take_bit_nat_eq_self)
  have ui: "uint (ucast w :: u32) = int (unat w)"
    using u by (metis of_nat_unat)
  have "sint (ucast w :: u32) = signed_take_bit 31 (uint (ucast w :: u32))"
    by (simp add: sint_uint)
  also have "\<dots> = uint (ucast w :: u32)"
    unfolding ui by (rule signed_take_bit_int_eq_self) (use assms in \<open>simp_all del: of_nat_unat\<close>)
  finally show ?thesis using ui by (simp del: of_nat_unat)
qed

text \<open>What a write does to the contents, for every request the kernel can make.\<close>

lemma write_spec:
  fixes off :: u64
  assumes "fs_inv fs" and "find_pos fs p = Some (i, j)" and "ftype (fs i j) \<noteq> DIR_T"
    and "terminated (contenido (fs i j))" and "unat sz < 2 ^ 63" and "unat sz \<le> length content"
  defines "len \<equiv> length (cstr (contenido (fs i j)))"
  defines "n \<equiv> min (unat sz) (LARGO_CONTENIDO - len)" and "o' \<equiv> min (unat off) len"
  shows "fisopfs_write fs p content sz off =
    Inr (set_cell fs i j ((fs i j)\<lparr>contenido :=
           take o' (contenido (fs i j)) @ take n content @ drop (o' + n) (contenido (fs i j))\<rparr>), int n)"
proof -
  note fp = find_pos_Some[OF assms(2)]
  have lc: "length (contenido (fs i j)) = LARGO_CONTENIDO"
    using fs_inv_cell[OF assms(1)] fp by (simp add: cell_ok_def)
  have ll: "len < LARGO_CONTENIDO"
    unfolding len_def using length_cstr_less[OF assms(4)] lc by simp
  let ?o = "if off > word_of_nat len then word_of_nat len else off"
  let ?s = "if sz + word_of_nat len > word_of_nat LARGO_CONTENIDO
            then word_of_nat LARGO_CONTENIDO - word_of_nat len else sz"
  have s: "unat ?s = n" using write_len[OF ll assms(5)] by (simp add: n_def)
  have o: "unat ?o = o'" using write_off[OF ll] by (simp add: o'_def)
  have "unat ?s \<le> 400" unfolding s by (simp add: n_def LARGO_CONTENIDO_def)
  from sint_of_small[OF this] have r: "sint (ucast ?s :: u32) = int n" unfolding s .
  have sb: "store_bytes (contenido (fs i j)) o' content n =
      Inr (take o' (contenido (fs i j)) @ take n content @ drop (o' + n) (contenido (fs i j)))"
    using lc ll assms(6) by (auto simp: store_bytes_def n_def o'_def min_def)
  have "fisopfs_write fs p content sz off =
      chain (store_bytes (contenido (fs i j)) (unat ?o) content (unat ?s)) (\<lambda>b.
              Inr (set_cell fs i j ((fs i j)\<lparr>contenido := b\<rparr>), sint (ucast ?s :: u32)))"
    using assms(2-4) by (simp add: fisopfs_write_def c_strlen_def len_def[symmetric] Let_def)
  then show ?thesis unfolding s o r sb by simp
qed

lemma read_spec:
  assumes "fs_inv fs" and "find_pos fs p = Some (i, j)" and "ftype (fs i j) \<noteq> DIR_T"
    and t: "terminated (contenido (fs i j))" and "unat sz < 2 ^ 63"
    and "unat sz \<le> cap" and "unat off \<le> length (cstr (contenido (fs i j)))"
  defines "len \<equiv> length (cstr (contenido (fs i j)))"
  defines "n \<equiv> min (unat sz) (len - unat off)"
  shows "fisopfs_read fs p cap sz off = Inr (int n, take n (drop (unat off) (cstr (contenido (fs i j)))))"
proof -
  let ?b = "contenido (fs i j)"
  note ol = assms(7)[folded len_def]
  note fp = find_pos_Some[OF assms(2)]
  have lc: "length ?b = LARGO_CONTENIDO"
    using fs_inv_cell[OF assms(1)] fp by (simp add: cell_ok_def)
  have ll: "len < LARGO_CONTENIDO"
    unfolding len_def using length_cstr_less[OF t] lc by simp
  have l: "unat (word_of_nat len :: u64) = len"
    using ll by (simp add: unat_of_nat LARGO_CONTENIDO_def)
  let ?s1 = "if off + sz > word_of_nat len then word_of_nat len - off else sz"
  have su: "unat (off + sz) = unat off + unat sz"
    using assms(5) ol ll by (simp add: unat_word_ariths LARGO_CONTENIDO_def)
  have du: "unat (word_of_nat len - off) = len - unat off"
    using ol l by (subst unat_sub) (auto simp: word_le_nat_alt)
  have s1: "unat ?s1 = n" using su du l ol by (auto simp: n_def word_less_nat_alt)
  have z: "(if ?s1 > 0 then ?s1 else 0) = ?s1" by (simp add: word_gt_0)
  have "unat ?s1 \<le> 400" unfolding s1 using ll by (simp add: n_def LARGO_CONTENIDO_def)
  from sint_of_small[OF this] have r: "sint (ucast ?s1 :: u32) = int n" unfolding s1 .
  have dr: "cstr (drop (unat off) ?b) = drop (unat off) (cstr ?b)"
    using assms(7) by (rule cstr_drop)
  have nle: "n \<le> length (drop (unat off) (cstr ?b))" by (simp add: n_def len_def)
  have cp: "c_strncpy_from ?b (unat off) n cap = Inr (take n (drop (unat off) (cstr ?b)))"
    using assms(6) ol ll lc nle unfolding c_strncpy_from_def Let_def dr by (auto simp: n_def)
  have "fisopfs_read fs p cap sz off =
      chain (c_strncpy_from ?b (unat off) (unat ?s1) cap) (\<lambda>buf. Inr (sint (ucast ?s1 :: u32), buf))"
    using assms(2-3) t by (simp add: fisopfs_read_def c_strlen_def len_def[symmetric] Let_def z)
  then show ?thesis unfolding s1 r cp by simp
qed

lemma find_pos_None_root_gone:
  assumes "fs_inv fs" and "cell_status (fs i 0) = DELETED_T" and "i < LADO_MAPA"
  shows "\<exists>t. scan (\<lambda>i. used fs i 0) (\<lambda>i. cell_path fs i 0 = []) [0..<LADO_MAPA] = Some t
     \<and> cell_path fs t 0 = [] \<and> t \<le> i"
proof -
  have nh: "\<forall>i k. i < k \<and> k < LADO_MAPA \<and> used fs k 0 \<longrightarrow> used fs i 0"
    using assms(1) by (simp add: fs_inv_def no_holes_def)
  have u: "used fs k 0" if "k \<le> i" for k
  proof (cases "k = i")
    case True
    then show ?thesis using assms(2) by (simp add: used_def)
  next
    case False
    have "used fs i 0" using assms(2) by (simp add: used_def)
    with False that nh assms(3) show ?thesis using le_neq_implies_less by blast
  qed
  have "cell_path fs i 0 = []"
    using fs_inv_cell[OF assms(1,3), of 0] assms(2) by (simp add: cell_ok_def cell_path_def LADO_MAPA_def)
  then obtain t where t: "scan (\<lambda>i. used fs i 0) (\<lambda>i. cell_path fs i 0 = []) [0..<LADO_MAPA] = Some t" "t \<le> i"
    using scan_hit_upt[of 0 i LADO_MAPA "\<lambda>i. cell_path fs i 0 = []" "\<lambda>i. used fs i 0"] assms(3) u by auto
  with scan_Some[OF t(1)] show ?thesis by auto
qed

text \<open>The search depends on the status and the path of the cells only, and only on used rows.\<close>

lemma find_pos_cong:
  assumes "\<And>i j. used fs' i j = used fs i j" and "\<And>i j. cell_path fs' i j = cell_path fs i j"
  shows "find_pos fs' p = find_pos fs p"
proof -
  have "find_rows fs' p is = find_rows fs p is" for "is"
  proof -
    have "used fs' = used fs" by (intro ext) (rule assms)
    then show ?thesis by (induction "is") (simp_all add: find_in_row_def assms(2) split: option.split)
  qed
  then show ?thesis by (simp add: find_pos_def)
qed

lemma find_pos_content:
  "find_pos (set_cell fs i j ((fs i j)\<lparr>contenido := b\<rparr>)) p = find_pos fs p"
  by (rule find_pos_cong) (auto simp: used_def cell_path_def set_cell_app)

lemma find_pos_frame:
  assumes "find_pos fs p = Some q" and "\<And>x. used fs x 0 \<Longrightarrow> fs' x = fs x"
  shows "find_pos fs' p = Some q"
proof -
  have row: "find_in_row fs' p x = find_in_row fs p x" "used fs' x 0" if "used fs x 0" for x
    using assms(2)[OF that] that
    by (simp_all add: find_in_row_def cell_path_def used_def cong: scan_cong)
  have "find_rows fs p is = Some q \<Longrightarrow> find_rows fs' p is = Some q" for "is"
    by (induction "is") (auto simp: row split: if_splits option.splits)
  then show ?thesis using assms(1) by (simp add: find_pos_def)
qed

lemma get_directory_root: "CHR ''/'' \<notin> set n \<Longrightarrow> get_directory (CHR ''/'' # n) = Inr []"
  using strrchr_idx_append[of "CHR ''/''" n "[]"] by (simp add: get_directory_def)

lemma clear_cell_at [simp]:
  "cell_status (clear_cell fs i j i j) = DELETED_T"
  "contenido (clear_cell fs i j i j) = (contenido (fs i j))[0 := NUL]"
  "ftype (clear_cell fs i j i j) = NOTHING_T"
  by (simp_all add: clear_cell_def Let_def)

lemma mknod_blocked:
  assumes "fs_inv fs" and "cell_status (fs i 0) = DELETED_T" and "i < LADO_MAPA"
    and "find_pos fs (CHR ''/'' # n) = None" and "CHR ''/'' \<notin> set n"
  shows "fisops_mknod cr fs (Some (CHR ''/'' # n)) md = Inr (fs, - ENOMEM)"
proof -
  from find_pos_None_root_gone[OF assms(1-3)] obtain t where
      t: "scan (\<lambda>i. used fs i 0) (\<lambda>i. cell_path fs i 0 = []) [0..<LADO_MAPA] = Some t"
      and p: "cell_path fs t 0 = []" and "t \<le> i" by auto
  with scan_Some[OF t] have u: "used fs t 0" "t < LADO_MAPA" by auto
  have "cell_ok (fs t 0)" using fs_inv_cell[OF assms(1) u(2)] by (simp add: LADO_MAPA_def)
  with u p have ty: "ftype (fs t 0) \<noteq> DIR_T"
    by (auto simp: cell_ok_def cell_path_def used_def)
  then have "scan (\<lambda>_. True) (\<lambda>j. \<not> taken fs t j \<and> ftype (fs t 0) = DIR_T) [1..<LADO_MAPA] = None"
    by (simp add: scan_none)
  with t show ?thesis
    using assms(4) by (simp add: fisops_mknod_def get_directory_root[OF assms(5)])
qed

lemma store_entry_cell:
  assumes "store_entry cr ty p md fs i j = Inr fs'" and "NUL \<notin> set p"
  shows "cell_status (fs' i j) = TAKEN_T" and "ftype (fs' i j) = ty" and "cell_path fs' i j = p"
    and "contenido (fs' i j) = contenido (fs i j)"
    and "k \<noteq> i \<or> l \<noteq> j \<Longrightarrow> fs' k l = fs k l"
  using assms by (auto elim!: store_entry_Inr simp: cell_path_def c_strcpy_props)

lemma store_entry_found:
  assumes st: "store_entry cr ty p md fs i j = Inr fs'" and "NUL \<notin> set p"
    and "find_pos fs p = None" and inv: "fs_inv fs" "fs_inv fs'" and ij: "i < LADO_MAPA" "j < LADO_MAPA"
  shows "find_pos fs' p = Some (i, j)"
proof -
  note c = store_entry_cell[OF st assms(2)]
  have "find_pos fs' p \<noteq> None"
    using inv(2) ij c(1,3) by (intro find_pos_complete[of fs' i j]) (auto simp: fs_inv_def used_def)
  then obtain k l where kl: "find_pos fs' p = Some (k, l)" by auto
  note f = find_pos_Some[OF kl]
  have "k = i \<and> l = j"
  proof (rule ccontr)
    assume "\<not> (k = i \<and> l = j)"
    then have "fs' k l = fs k l" using c(5) by blast
    with f have "used fs k l" "cell_path fs k l = p" by (simp_all add: used_def cell_path_def)
    then show False
      using assms(3) inv(1) f(1,2) by (auto simp: find_pos_None_iff fs_inv_def)
  qed
  with kl show ?thesis by simp
qed

text \<open>The cell a successful \<^verbatim>\<open>mknod\<close> fills, in either branch.\<close>

lemma mknod_created:
  assumes inv: "fs_inv fs" and mk: "fisops_mknod cr fs (Some p) md = Inr (fs', 0)"
    and p: "NUL \<notin> set p" "p \<noteq> []"
  obtains i j where "find_pos fs p = None" and "find_pos fs' p = Some (i, j)" and "\<not> taken fs i j"
    and "cell_status (fs' i j) = TAKEN_T" and "ftype (fs' i j) = FILE_T"
    and "contenido (fs' i j) = contenido (fs i j)"
    and "\<forall>k l. k \<noteq> i \<or> l \<noteq> j \<longrightarrow> fs' k l = fs k l"
  using mk
proof (cases rule: mknod_Inr_cases)
  case (root t d)
  note c = store_entry_cell[OF root(8) p(1)]
  have "find_pos fs' p = Some (t, 0)"
    using root inv p mknod_inv[OF inv mk p] by (intro store_entry_found[OF root(8)]) (auto simp: LADO_MAPA_def)
  with root c show ?thesis by (intro that[of t 0]) auto
next
  case (dir t i d)
  note c = store_entry_cell[OF dir(12) p(1)]
  have "find_pos fs' p = Some (t, i)"
    using dir inv p mknod_inv[OF inv mk p] by (intro store_entry_found[OF dir(12)]) auto
  with dir c show ?thesis by (intro that[of t i]) auto
qed (auto simp: errno_defs)

text \<open>The loop of \<^verbatim>\<open>rmdir\<close> over a row misses no taken cell.\<close>

lemma row_taken_scan:
  assumes "fs_inv fs" and i: "i < LADO_MAPA"
  shows "scan (used fs i) (taken fs i) [1..<LADO_MAPA] \<noteq> None \<longleftrightarrow>
      (\<exists>k. 0 < k \<and> k < LADO_MAPA \<and> taken fs i k)" (is "?l \<longleftrightarrow> ?r")
proof
  assume ?l
  then obtain k where "scan (used fs i) (taken fs i) [1..<LADO_MAPA] = Some k" by auto
  from scan_Some[OF this] show ?r by (intro exI[of _ k]) auto
next
  assume ?r
  then obtain k where k: "0 < k" "k < LADO_MAPA" "taken fs i k" by auto
  have nh: "no_holes fs" using assms by (simp add: fs_inv_def)
  have "used fs i l" if "1 \<le> l" "l \<le> k" for l
    using nh i k that taken_used[OF k(3)] unfolding no_holes_def
    by (metis One_nat_def Suc_le_lessD le_neq_implies_less)
  with k scan_hit_upt[of 1 k LADO_MAPA "taken fs i" "used fs i"] show ?l by auto
qed

lemma LADO_MAPA_pos [simp]: "0 < LADO_MAPA"
  by (simp add: LADO_MAPA_def)

lemma found_taken:
  assumes "fs_inv fs" and "find_pos fs p = Some (i, j)" and "p \<noteq> []"
  shows "taken fs i j"
proof -
  note fp = find_pos_Some[OF assms(2)]
  have "cell_ok (fs i j)" using fs_inv_cell[OF assms(1)] fp by blast
  with fp assms(3) show ?thesis by (auto simp: cell_ok_def used_def taken_def cell_path_def)
qed

lemma taken_path_ne: "fs_inv fs \<Longrightarrow> i < LADO_MAPA \<Longrightarrow> j < LADO_MAPA \<Longrightarrow> taken fs i j \<Longrightarrow> cell_path fs i j \<noteq> []"
  using fs_inv_cell[of fs i j] by (simp add: cell_ok_def taken_def cell_path_def)

text \<open>The search for a path depends on which used cells have it.\<close>

lemma find_pos_same_hits:
  assumes "\<And>i j. used fs' i j = used fs i j" and "\<And>i j. cell_path fs' i j = p \<longleftrightarrow> cell_path fs i j = p"
  shows "find_pos fs' p = find_pos fs p"
proof -
  have "find_rows fs' p is = find_rows fs p is" for "is"
  proof -
    have "used fs' = used fs" by (intro ext) (rule assms)
    then show ?thesis by (induction "is") (simp_all add: find_in_row_def assms(2) split: option.split)
  qed
  then show ?thesis by (simp add: find_pos_def)
qed

lemma clear_cell_effect:
  assumes "find_pos fs p = Some (i, j)"
  shows "used (clear_cell fs i j) k l = used fs k l"
    and "taken (clear_cell fs i j) k l \<longleftrightarrow> taken fs k l \<and> (k, l) \<noteq> (i, j)"
    and "cell_path (clear_cell fs i j) k l = (if (k, l) = (i, j) then [] else cell_path fs k l)"
    and "(k, l) \<noteq> (i, j) \<Longrightarrow> clear_cell fs i j k l = fs k l"
  using find_pos_Some[OF assms]
  by (auto simp: clear_cell_def Let_def used_def taken_def cell_path_def set_cell_app)

definition demo_creds :: creds where
  "demo_creds = \<lparr>uid_of = 1000, gid_of = 1000\<rparr>"

definition demo_ops :: "fs_op list" where
  "demo_ops = [Mkdir ''/d'' 0, Mknod ''/d/a'' 0, Write ''/d/a'' ''hello'' 5 0, Mknod ''/r'' 0]"

definition demo_fs :: filesystem where
  "demo_fs = (case run_steps (fs_step demo_creds) zero_fs demo_ops of Inr fs \<Rightarrow> fs | Inl _ \<Rightarrow> zero_fs)"

lemma demo_run: "run_steps (fs_step demo_creds) zero_fs demo_ops = Inr demo_fs"
proof -
  have "\<not> isl (run_steps (fs_step demo_creds) zero_fs demo_ops)"
    by code_simp
  then show ?thesis by (auto simp: demo_fs_def split: sum.splits)
qed
lemma demo_pos: "find_pos demo_fs ''/d/a'' = Some (0, 1)" 
  by code_simp
lemma demo_fs_inv: "fs_inv demo_fs"
  by (rule fsm.run_inv[OF fs_inv_zero _ demo_run]) (auto simp: demo_ops_def fs_op_ok_def)
lemma demo_cont: "cstr (contenido (demo_fs 0 1)) = ''hello''"
  by code_simp
lemma demo_r: "find_pos demo_fs ''/r'' = Some (1, 0)" "find_pos (fst (fisopfs_unlink demo_fs ''/r'')) ''/s'' = None"
  by code_simp+

section \<open>Properties\<close>

text \<open>C11: Whatever sequence of callbacks FUSE issues on the zeroed map, as long as none of them
  faults, the map keeps its invariant (path and content arrays of their sizes, terminated
  paths, no hole before a used cell), and so the search for the path of an entry in use finds an entry in use
  with that path: the entry itself, when no other has its path. (Paths need not be unique: \<^verbatim>\<open>mkdir\<close> does not look
  for an existing entry, and a directory made twice is found only once, see \<open>mkdir_duplicates\<close>.)\<close>

theorem history_invariant:
  assumes "\<forall>e\<in>set es. fs_op_ok e" and "run_steps (fs_step cr) zero_fs es = Inr fs"
  shows "fs_inv fs \<and> (\<forall>i<LADO_MAPA. \<forall>j<LADO_MAPA. taken fs i j \<longrightarrow>
           (\<exists>k l. find_pos fs (cell_path fs i j) = Some (k, l) \<and> taken fs k l \<and> cell_path fs k l = cell_path fs i j
             \<and> ((\<forall>a<LADO_MAPA. \<forall>b<LADO_MAPA. taken fs a b \<and> cell_path fs a b = cell_path fs i j \<longrightarrow> a = i \<and> b = j)
                  \<longrightarrow> k = i \<and> l = j)))"
proof -
  have inv: "fs_inv fs" by (rule fsm.run_inv[OF fs_inv_zero assms])
  have "\<exists>k l. find_pos fs (cell_path fs i j) = Some (k, l) \<and> taken fs k l \<and> cell_path fs k l = cell_path fs i j
      \<and> ((\<forall>a<LADO_MAPA. \<forall>b<LADO_MAPA. taken fs a b \<and> cell_path fs a b = cell_path fs i j \<longrightarrow> a = i \<and> b = j)
           \<longrightarrow> k = i \<and> l = j)"
    if h: "i < LADO_MAPA" "j < LADO_MAPA" "taken fs i j" for i j
  proof -
    have "find_pos fs (cell_path fs i j) \<noteq> None"
      using inv h taken_used by (intro find_pos_complete) (auto simp: fs_inv_def)
    then obtain k l where q: "find_pos fs (cell_path fs i j) = Some (k, l)" by auto
    note f = find_pos_Some[OF q]
    have "taken fs k l" by (rule found_taken[OF inv q taken_path_ne[OF inv h]])
    with q f show ?thesis by blast
  qed
  with inv show ?thesis by blast
qed

theorem history_invariant_witness: "fs_inv demo_fs"
  using history_invariant[OF _ demo_run] by (auto simp: demo_ops_def fs_op_ok_def)

text \<open>A successful \<^verbatim>\<open>mknod\<close> creates a file that was not there: afterwards the search finds the
  path in a cell that was not taken, the cell is a taken regular file, and every other cell
  of the map is what it was.\<close>

theorem mknod_creates:
  assumes "fs_inv fs" and "fisops_mknod cr fs (Some p) md = Inr (fs', 0)"
    and "NUL \<notin> set p" and "p \<noteq> []"
  shows "find_pos fs p = None \<and>
    (\<exists>i j. find_pos fs' p = Some (i, j) \<and> \<not> taken fs i j \<and> taken fs' i j \<and> ftype (fs' i j) = FILE_T
       \<and> (\<forall>k l. (k, l) \<noteq> (i, j) \<longrightarrow> fs' k l = fs k l))"
  using assms by (rule mknod_created) (auto simp: taken_def)

lemma demo_mknod: "\<exists>fs'. fisops_mknod demo_creds demo_fs (Some ''/d/b'') 0 = Inr (fs', 0)"
proof -
  have "(case fisops_mknod demo_creds demo_fs (Some ''/d/b'') 0 of Inr (_, r) \<Rightarrow> r = 0 | Inl _ \<Rightarrow> False)"
    by code_simp
  then show ?thesis by (auto split: sum.splits prod.splits)
qed

theorem mknod_creates_witness: "\<exists>fs'. find_pos fs' ''/d/b'' \<noteq> None"
proof -
  obtain fs' where "fisops_mknod demo_creds demo_fs (Some ''/d/b'') 0 = Inr (fs', 0)"
    using demo_mknod by blast
  from mknod_creates[OF demo_fs_inv this] show ?thesis by auto
qed

text \<open>C34: A write to a regular file whose content is terminated never leaves the content array,
  whatever offset is asked for: it stores the first \<open>n\<close> bytes at the offset, cut back to the
  end of the string, and reports \<open>n\<close>, the part that fits.\<close>

theorem write_in_bounds:
  fixes off :: u64
  assumes "fs_inv fs" and "find_pos fs p = Some (i, j)" and "ftype (fs i j) \<noteq> DIR_T"
    and "terminated (contenido (fs i j))" and "unat n < 2 ^ 63" and "unat n \<le> length content"
  shows "\<exists>fs' k. fisopfs_write fs p content n off = Inr (fs', int k)
     \<and> k = min (unat n) (LARGO_CONTENIDO - length (cstr (contenido (fs i j))))
     \<and> contenido (fs' i j) = (let b = contenido (fs i j); o' = min (unat off) (length (cstr b))
                            in take o' b @ take k content @ drop (o' + k) b)
     \<and> (\<forall>a b. (a, b) \<noteq> (i, j) \<longrightarrow> fs' a b = fs a b)"
  using write_spec[OF assms(1-6), of off] by (auto simp: Let_def)

theorem write_in_bounds_witness:
  "\<exists>fs' k. fisopfs_write demo_fs ''/d/a'' ''abc'' 3 (900 :: u64) = Inr (fs', int k) \<and> k = 3"
proof -
  have "ftype (demo_fs 0 1) \<noteq> DIR_T" "terminated (contenido (demo_fs 0 1))"
    "LARGO_CONTENIDO - length (cstr (contenido (demo_fs 0 1))) = 395"
    by code_simp+
  with write_in_bounds[OF demo_fs_inv demo_pos, of 3 "''abc''" 900] show ?thesis by auto
qed

text \<open>C32: Reading back: after a write of a string \<open>d\<close> at offset 0 of a file whose text is empty, a
  read from offset 0 returns \<open>d\<close>, cut to the size asked for, and its length, when the byte of the content array
  behind \<open>d\<close> is zero, as it is in a cell that was never used. A reused cell can hold bytes of an earlier file behind its
  first byte (\<open>reused_cell_leaks\<close>): then the old text behind \<open>d\<close>, up to the next zero byte, is read too.\<close>

theorem write_then_read:
  fixes n :: u64
  assumes "fs_inv fs" and "find_pos fs p = Some (i, j)" and "ftype (fs i j) = FILE_T"
    and "cstr (contenido (fs i j)) = []" and "NUL \<notin> set d" and "terminated (drop (length d) (contenido (fs i j)))"
    and "unat n < 2 ^ 63" and "unat n \<le> cap"
  defines "text \<equiv> d @ cstr (drop (length d) (contenido (fs i j)))"
  shows "(\<exists>fs'. fisopfs_write fs p d (word_of_nat (length d)) 0 = Inr (fs', int (length d))
       \<and> fisopfs_read fs' p cap n 0 = Inr (int (min (unat n) (length text)), take (unat n) text))
     \<and> (contenido (fs i j) ! length d = NUL \<longrightarrow> text = d)"
proof -
  let ?c = "contenido (fs i j)"
  note fp = find_pos_Some[OF assms(2)]
  have lc: "length ?c = LARGO_CONTENIDO" using fs_inv_cell[OF assms(1)] fp by (simp add: cell_ok_def)
  have dl: "length d < LARGO_CONTENIDO" using assms(6) lc by (cases "length d < LARGO_CONTENIDO") (simp_all add: terminated_def)
  have tc: "terminated ?c" using assms(6) by (auto simp: terminated_def dest: in_set_dropD)
  let ?b = "d @ drop (length d) ?c"
  let ?fs = "set_cell fs i j ((fs i j)\<lparr>contenido := ?b\<rparr>)"
  have u: "unat (word_of_nat (length d) :: u64) = length d"
    using dl by (simp add: unat_of_nat LARGO_CONTENIDO_def)
  have w: "fisopfs_write fs p d (word_of_nat (length d)) 0 = Inr (?fs, int (length d))"
    using write_spec[OF assms(1,2) _ tc, of "word_of_nat (length d)" d 0] assms(3,4) dl u
    by (simp add: LARGO_CONTENIDO_def min_def)
  have inv: "fs_inv ?fs" by (rule write_inv[OF assms(1) w])
  have same: "find_pos ?fs p = Some (i, j)"
    using assms(2) by (simp add: find_pos_content)
  have c: "cstr ?b = text" using assms(5) by (simp add: cstr_append text_def)
  have tb: "terminated ?b" using assms(6) by (auto simp: terminated_def)
  have "fisopfs_read ?fs p cap n 0 = Inr (int (min (unat n) (length text)), take (min (unat n) (length text)) text)"
    using read_spec[OF inv same, of n cap 0] assms(3,7,8) c tb by simp
  moreover have "take (min (unat n) (length text)) text = take (unat n) text" by (simp add: min_def)
  moreover have "text = d" if "?c ! length d = NUL"
  proof -
    have "drop (length d) ?c = NUL # drop (Suc (length d)) ?c"
      using that dl lc by (metis Cons_nth_drop_Suc)
    then show ?thesis by (simp add: text_def)
  qed
  ultimately show ?thesis using w by (intro conjI exI[of _ ?fs]) simp_all
qed

theorem write_then_read_witness:
  "\<exists>fs'. fisopfs_write demo_fs ''/r'' ''xyz'' (word_of_nat 3) 0 = Inr (fs', 3)
     \<and> fisopfs_read fs' ''/r'' 4096 4096 0 = Inr (3, ''xyz'')"
proof -
  have c: "contenido (demo_fs 1 0) = replicate LARGO_CONTENIDO NUL" and ty: "ftype (demo_fs 1 0) = FILE_T"
    by code_simp+
  have "cstr (contenido (demo_fs 1 0)) = []" "terminated (drop (length ''xyz'') (contenido (demo_fs 1 0)))"
    "cstr (drop (length ''xyz'') (contenido (demo_fs 1 0))) = []"
    unfolding c by (simp_all add: terminated_def LARGO_CONTENIDO_def)
  with write_then_read[OF demo_fs_inv demo_r(1) ty, of "''xyz''" 4096 4096] show ?thesis by simp
qed

text \<open>Deleting a top-level file disables the creation of files in the root directory: the
  deleted cell keeps the empty path, which is what \<^verbatim>\<open>get_directory\<close> returns for a name under
  the root, so \<^verbatim>\<open>mknod\<close> takes the deleted cell for the directory and reports \<^verbatim>\<open>ENOMEM\<close>.\<close>

theorem unlink_blocks_root_creation:
  assumes "fs_inv fs" and "find_pos fs q = Some (i, 0)" and "ftype (fs i 0) = FILE_T"
    and "find_pos (fst (fisopfs_unlink fs q)) (CHR ''/'' # n) = None" and "CHR ''/'' \<notin> set n"
  shows "snd (fisopfs_unlink fs q) = 0 \<and>
    fisops_mknod cr (fst (fisopfs_unlink fs q)) (Some (CHR ''/'' # n)) md
      = Inr (fst (fisopfs_unlink fs q), - ENOMEM)"
proof -
  have u: "fisopfs_unlink fs q = (clear_cell fs i 0, 0)"
    using assms(2,3) by (simp add: fisopfs_unlink_def)
  show ?thesis
    using mknod_blocked[OF clear_cell_inv[OF assms(1,2)] clear_cell_at(1) find_pos_Some(1)[OF assms(2)]]
      assms(4,5) by (simp add: u)
qed

theorem unlink_blocks_root_creation_witness:
  "fisops_mknod demo_creds (fst (fisopfs_unlink demo_fs ''/r'')) (Some ''/s'') 0
     = Inr (fst (fisopfs_unlink demo_fs ''/r''), - ENOMEM)"
proof -
  have "ftype (demo_fs 1 0) = FILE_T" by code_simp
  with unlink_blocks_root_creation[OF demo_fs_inv demo_r(1) _ demo_r(2)] show ?thesis by simp
qed

text \<open>Deleting a file clears only the first byte of its content. When a later \<^verbatim>\<open>mknod\<close> reuses the
  cell and the new owner writes \<open>d\<close> (at least one byte) at offset 0, the new file's content
  continues after \<open>d\<close> with what the deleted file held at those offsets.\<close>

theorem reused_cell_leaks:
  assumes "fs_inv fs" and "find_pos fs q = Some (i, j)" and "ftype (fs i j) = FILE_T"
    and "fisops_mknod cr (fst (fisopfs_unlink fs q)) (Some p) md = Inr (fs2, 0)"
    and "find_pos fs2 p = Some (i, j)" and "NUL \<notin> set p" and "p \<noteq> []"
    and "NUL \<notin> set d" and "d \<noteq> []" and "length d < LARGO_CONTENIDO"
  shows "\<exists>fs3. fisopfs_write fs2 p d (word_of_nat (length d)) 0 = Inr (fs3, int (length d))
     \<and> cstr (contenido (fs3 i j)) = d @ cstr (drop (length d) (contenido (fs i j)))"
proof -
  have u: "fisopfs_unlink fs q = (clear_cell fs i j, 0)"
    using assms(2,3) by (simp add: fisopfs_unlink_def)
  note mk = assms(4)[unfolded u fst_conv]
  have inv1: "fs_inv (clear_cell fs i j)" by (rule clear_cell_inv[OF assms(1,2)])
  have inv2: "fs_inv fs2" by (rule mknod_inv[OF inv1 mk assms(6,7)])
  have cell: "ftype (fs2 i j) = FILE_T" "contenido (fs2 i j) = (contenido (fs i j))[0 := NUL]"
    using mknod_created[OF inv1 mk assms(6,7)] assms(5) by fastforce+
  have lc: "length (contenido (fs i j)) = LARGO_CONTENIDO"
    using fs_inv_cell[OF assms(1) find_pos_Some(1,2)[OF assms(2)]] by (simp add: cell_ok_def)
  then obtain c r where b: "contenido (fs i j) = c # r"
    by (cases "contenido (fs i j)") (auto simp: LARGO_CONTENIDO_def)
  have l: "unat (word_of_nat (length d) :: u64) = length d"
    using assms(10) by (simp add: unat_of_nat LARGO_CONTENIDO_def)
  have dr: "drop (length d) (contenido (fs2 i j)) = drop (length d) (contenido (fs i j))"
    using cell(2) b assms(9) by (cases d) auto
  have "fisopfs_write fs2 p d (word_of_nat (length d)) 0 =
      Inr (set_cell fs2 i j ((fs2 i j)\<lparr>contenido := d @ drop (length d) (contenido (fs2 i j))\<rparr>), int (length d))"
    using write_spec[OF inv2 assms(5), of "word_of_nat (length d)" d 0] cell b l assms(10)
    by (simp add: terminated_def LARGO_CONTENIDO_def min_def)
  then show ?thesis using dr assms(8) by (simp add: cstr_append)
qed

lemma demo_unlink_inv: "fs_inv (fst (fisopfs_unlink demo_fs ''/d/a''))"
  by (rule unlink_inv[OF demo_fs_inv])

theorem reused_cell_leaks_witness:
  "\<exists>fs2 fs3. fisopfs_write fs2 ''/d/n'' ''J'' (word_of_nat 1) 0 = Inr (fs3, 1)
     \<and> cstr (contenido (fs3 0 1)) = ''Jello''"
proof -
  let ?fs1 = "fst (fisopfs_unlink demo_fs ''/d/a'')"
  have "(case fisops_mknod demo_creds ?fs1 (Some ''/d/n'') 0 of
      Inr (fs2, r) \<Rightarrow> r = 0 \<and> find_pos fs2 ''/d/n'' = Some (0, 1) | Inl _ \<Rightarrow> False)"
    by code_simp
  then obtain fs2 where m: "fisops_mknod demo_creds ?fs1 (Some ''/d/n'') 0 = Inr (fs2, 0)"
    and f: "find_pos fs2 ''/d/n'' = Some (0, 1)" by (auto split: sum.splits prod.splits)
  have t: "ftype (demo_fs 0 1) = FILE_T" by code_simp
  have "cstr (drop 1 (contenido (demo_fs 0 1))) = ''ello''" by code_simp
  with reused_cell_leaks[OF demo_fs_inv demo_pos t m f, of "''J''"] show ?thesis
    by (auto simp: LARGO_CONTENIDO_def)
qed

text \<open>The entry of \<open>p\<close> at \<open>(i, j)\<close> is gone and nothing else has changed: every other path is found where it was, and the
  path itself is not found, unless a second entry has it.\<close>

definition entry_removed :: "filesystem \<Rightarrow> string \<Rightarrow> nat \<Rightarrow> nat \<Rightarrow> filesystem \<Rightarrow> bool" where
  "entry_removed fs p i j fs' \<longleftrightarrow> fs_inv fs' \<and> \<not> taken fs' i j
     \<and> (\<forall>k l. (k, l) \<noteq> (i, j) \<longrightarrow> fs' k l = fs k l)
     \<and> (\<forall>q. q \<noteq> p \<and> q \<noteq> [] \<longrightarrow> find_pos fs' q = find_pos fs q)
     \<and> ((\<forall>k<LADO_MAPA. \<forall>l<LADO_MAPA. taken fs k l \<and> cell_path fs k l = p \<longrightarrow> (k, l) = (i, j)) \<longrightarrow> find_pos fs' p = None)"

lemma clear_cell_removed:
  assumes "fs_inv fs" and "p \<noteq> []" and q: "find_pos fs p = Some (i, j)"
  shows "entry_removed fs p i j (clear_cell fs i j)"
proof -
  note fp = find_pos_Some[OF q] and eff = clear_cell_effect[OF q]
  let ?fs = "clear_cell fs i j"
  have inv: "fs_inv ?fs" by (rule clear_cell_inv[OF assms(1) q])
  have others: "find_pos ?fs x = find_pos fs x" if "x \<noteq> p" "x \<noteq> []" for x
    by (rule find_pos_same_hits) (use eff(1,3) that fp(4) in auto)
  have gone: "find_pos ?fs p = None"
    if u: "\<forall>k<LADO_MAPA. \<forall>l<LADO_MAPA. taken fs k l \<and> cell_path fs k l = p \<longrightarrow> (k, l) = (i, j)"
  proof (cases "find_pos ?fs p")
    case (Some r)
    then obtain k l where r: "find_pos ?fs p = Some (k, l)" by (cases r) auto
    note t = found_taken[OF inv r assms(2)] and f = find_pos_Some[OF r]
    have ne: "(k, l) \<noteq> (i, j)" using t eff(2) by auto
    then have "?fs k l = fs k l" by (rule eff(4))
    with t f(4) have "taken fs k l" "cell_path fs k l = p" by (simp_all add: taken_def cell_path_def)
    with u f(1,2) ne have False by blast
    then show ?thesis ..
  qed
  show ?thesis unfolding entry_removed_def
    using inv eff(2) eff(4) others gone by (intro conjI allI impI) simp_all
qed

lemma if_outcome:
  "r = (if a then x else if b then y else (f, c)) \<Longrightarrow> Q f \<Longrightarrow>
     if a then r = x else if b then r = y else \<exists>f. r = (f, c) \<and> Q f"
  by simp

text \<open>C33: \<^verbatim>\<open>rmdir\<close> of an unknown path answers \<^verbatim>\<open>ENOENT\<close> and of a regular file \<^verbatim>\<open>ENOTDIR\<close>; of an entry whose row
  has a cell in use it answers \<^verbatim>\<open>ENOTEMPTY\<close>; all three change nothing. In every other case it answers 0 and the
  entry is gone (\<open>entry_removed\<close>): the map keeps its invariant, the cell is not in use any more and every other cell is what it
  was, every other path is found where it was found before, and the path itself is not found, unless a second entry has it.
  Only files stand in the row of a directory: one that holds nothing but directories, which have rows of their own,
  counts as empty and is removed (a finding).\<close>

theorem rmdir_exact:
  assumes "fs_inv fs" and "p \<noteq> []"
  shows "case find_pos fs p of None \<Rightarrow> fisopfs_rmdir fs p = (fs, - ENOENT)
     | Some (i, j) \<Rightarrow>
         if ftype (fs i j) = FILE_T then fisopfs_rmdir fs p = (fs, - ENOTDIR)
         else if \<exists>k. 0 < k \<and> k < LADO_MAPA \<and> taken fs i k then fisopfs_rmdir fs p = (fs, - ENOTEMPTY)
         else \<exists>fs'. fisopfs_rmdir fs p = (fs', 0) \<and> entry_removed fs p i j fs'"
proof (cases "find_pos fs p")
  case None
  then show ?thesis by (simp add: fisopfs_rmdir_def)
next
  case (Some q)
  obtain i j where q: "find_pos fs p = Some (i, j)" using Some by (cases q) auto
  have "fisopfs_rmdir fs p = (if ftype (fs i j) = FILE_T then (fs, - ENOTDIR)
      else if \<exists>k. 0 < k \<and> k < LADO_MAPA \<and> taken fs i k then (fs, - ENOTEMPTY) else (clear_cell fs i j, 0))"
    using row_taken_scan[OF assms(1) find_pos_Some(1)[OF q]] by (simp add: fisopfs_rmdir_def q)
  then show ?thesis unfolding q option.case prod.case using clear_cell_removed[OF assms q] by (rule if_outcome[where Q = "entry_removed fs p i j"])
qed

text \<open>The example map with its file \<^verbatim>\<open>/d/a\<close> removed.\<close>

theorem rmdir_exact_witness:
  "\<exists>fs'. fisopfs_rmdir (fst (fisopfs_unlink demo_fs ''/d/a'')) ''/d'' = (fs', 0) \<and> find_pos fs' ''/r'' = Some (1, 0)"
proof -
  let ?fs = "fst (fisopfs_unlink demo_fs ''/d/a'')"
  have c: "find_pos ?fs ''/d'' = Some (0, 0)" "ftype (?fs 0 0) \<noteq> FILE_T" "find_pos ?fs ''/r'' = Some (1, 0)"
    by code_simp+
  have "list_all (\<lambda>k. \<not> taken ?fs 0 k) [1..<LADO_MAPA]" by code_simp
  then have e: "\<not> (\<exists>k. 0 < k \<and> k < LADO_MAPA \<and> taken ?fs 0 k)" unfolding list_all_iff by auto
  have "''/d'' \<noteq> []" by simp
  from rmdir_exact[OF demo_unlink_inv this, unfolded c(1) option.case prod.case if_not_P[OF c(2)] if_not_P[OF e]] obtain fs'
    where r: "fisopfs_rmdir ?fs ''/d'' = (fs', 0)" "entry_removed ?fs ''/d'' 0 0 fs'" by blast
  from r(2) have "find_pos fs' ''/r'' = find_pos ?fs ''/r''" by (simp add: entry_removed_def)
  with r(1) c(3) show ?thesis by simp
qed

text \<open>A directory created over an existing path is created a second time: \<^verbatim>\<open>mkdir\<close> has no check
  for an existing entry, answers 0, and the new row can never be found, since the search
  still stops at the old entry.\<close>

theorem mkdir_duplicates:
  assumes "fs_inv fs" and "find_pos fs p = Some (i, j)" and "fisopfs_mkdir cr fs (Some p) md = Inr (fs', 0)"
    and "NUL \<notin> set p"
  shows "\<exists>t. t \<noteq> i \<and> \<not> used fs t 0 \<and> taken fs' t 0 \<and> ftype (fs' t 0) = DIR_T
     \<and> cell_path fs' t 0 = p \<and> find_pos fs' p = Some (i, j)"
proof -
  note fp = find_pos_Some[OF assms(2)]
  obtain t where t: "scan (\<lambda>_. True) (\<lambda>t. \<not> used fs t 0) [0..<LADO_MAPA] = Some t"
      and st: "store_entry cr DIR_T p md fs t 0 = Inr fs'"
    using assms(3) by (auto simp: fisopfs_mkdir_def chain_eq_Inr ENOMEM_def split: option.splits)
  have nu: "\<not> used fs t 0" using scan_first[OF t] by simp
  have "used fs i 0" using assms(1) fp unfolding fs_inv_def no_holes_def by blast
  with nu have ti: "t \<noteq> i" by auto
  note c = store_entry_cell[OF st assms(4)]
  have "find_pos fs' p = Some (i, j)"
  proof (rule find_pos_frame[OF assms(2)])
    fix x assume "used fs x 0"
    with nu have "x \<noteq> t" by auto
    then show "fs' x = fs x" by (intro ext) (simp add: c(5))
  qed
  with c ti nu show ?thesis by (auto simp: taken_def)
qed

theorem mkdir_duplicates_witness:
  "\<exists>fs' t. fisopfs_mkdir demo_creds demo_fs (Some ''/d'') 0 = Inr (fs', 0)
     \<and> t \<noteq> 0 \<and> cell_path fs' t 0 = ''/d'' \<and> find_pos fs' ''/d'' = Some (0, 0)"
proof -
  have "(case fisopfs_mkdir demo_creds demo_fs (Some ''/d'') 0 of Inr (_, r) \<Rightarrow> r = 0 | Inl _ \<Rightarrow> False)"
    and f: "find_pos demo_fs ''/d'' = Some (0, 0)"
    by code_simp+
  then obtain fs' where m: "fisopfs_mkdir demo_creds demo_fs (Some ''/d'') 0 = Inr (fs', 0)"
    by (auto split: sum.splits prod.splits)
  from mkdir_duplicates[OF demo_fs_inv f m] m show ?thesis by auto
qed

end
