(* ===== verification/FisopfsSpec.thy ===== *)
theory FisopfsSpec
  imports FisopfsProps
begin

text \<open>
  What \<^verbatim>\<open>fisopfs\<close> promises, without the array of cells: a tree is a map from paths to nodes, and
  every callback between \<^verbatim>\<open>init\<close> and \<^verbatim>\<open>destroy\<close> (\<^verbatim>\<open>flush\<close> apart) is a step on it with a reply. The
  callbacks of \<^verbatim>\<open>Fisopfs\<close> are proved to implement these steps, for histories in which the kernel
  asks for no directory that exists. A file is the text before the first zero byte of its cell: the
  code measures, reads and extends a file with \<^verbatim>\<open>strlen\<close> and \<^verbatim>\<open>strncpy\<close>, so what is written behind a
  zero byte is lost, and the specification says so. It leaves open when a table full of entries
  answers \<^verbatim>\<open>ENOMEM\<close>, what stands behind the end of a file that is written beyond its end, where a
  reused cell shows old bytes, in which order a directory lists its names, and the owner and the
  times of an entry.
\<close>

section \<open>The specification\<close>

datatype node = Dir | File string

type_synonym tree = "string \<Rightarrow> node option"

definition parent_of :: "string \<Rightarrow> string \<Rightarrow> bool" where
  "parent_of d p \<longleftrightarrow> get_directory p = Inr d"

definition has_files :: "tree \<Rightarrow> string \<Rightarrow> bool" where
  "has_files m d \<longleftrightarrow> (\<exists>p c. m p = Some (File c) \<and> parent_of d p)"

text \<open>What can stand in a file after \<open>d\<close> was written at \<open>off\<close>, which is cut back to its end. A zero
  byte in \<open>d\<close> ends the file.\<close>

definition overwritten :: "string \<Rightarrow> string \<Rightarrow> nat \<Rightarrow> string \<Rightarrow> bool" where
  "overwritten c d off c' \<longleftrightarrow>
     (\<exists>rest. c' = cstr (take off c @ d @ rest) \<and>
        (min off (length c) + length d \<le> length c \<longrightarrow> rest = drop (min off (length c) + length d) c))"

text \<open>The attributes of a node; owner and times are not constrained, except for the root, which is no entry.\<close>

definition node_stat :: "node \<Rightarrow> stat \<Rightarrow> bool" where
  "node_stat n st \<longleftrightarrow>
     (case n of
        Dir \<Rightarrow> st_mode st = or S_IFDIR MODE_0755 \<and> st_nlink st = 2 \<and> st_size st = 0
      | File c \<Rightarrow> st_mode st = or S_IFREG MODE_0644 \<and> st_nlink st = 1 \<and> st_size st = word_of_nat (length c))"

text \<open>The entries a directory lists: below the root all directories, wherever their path leads, and the files that
  are not in one; below a directory the files in it.\<close>

definition listed :: "tree \<Rightarrow> string \<Rightarrow> string set" where
  "listed m d =
     (if d = ''/'' then
        {p. m p = Some Dir} \<union> {p. \<exists>c. m p = Some (File c) \<and> (\<forall>e. m e = Some Dir \<longrightarrow> \<not> parent_of e p)}
      else {p. \<exists>c. m p = Some (File c) \<and> parent_of d p})"

text \<open>Every entry once, each with the path of the directory and a slash cut off.\<close>

definition listing :: "tree \<Rightarrow> string \<Rightarrow> string list \<Rightarrow> bool" where
  "listing m d names \<longleftrightarrow>
     (\<exists>ps. distinct ps \<and> set ps = listed m d
        \<and> names = [''.'', ''..''] @ map (drop (if d = ''/'' then 1 else length d + 1)) ps)"

fun tree_step :: "tree \<Rightarrow> fs_op \<Rightarrow> tree \<Rightarrow> fs_reply \<Rightarrow> bool" where
  "tree_step m (Mknod p _) m' r \<longleftrightarrow>
     (if m p \<noteq> None then m' = m \<and> r = Code (- EEXIST)
      else (m' = m(p \<mapsto> File []) \<and> r = Code 0) \<or> (m' = m \<and> r = Code (- ENOMEM)))"
| "tree_step m (Mkdir p _) m' r \<longleftrightarrow>
     (m' = m(p \<mapsto> Dir) \<and> r = Code 0) \<or> (m' = m \<and> r = Code (- ENOMEM))"
| "tree_step m (Write p d n off) m' r \<longleftrightarrow>
     (case m p of
        None \<Rightarrow> m' = m \<and> r = Code (- ENOENT)
      | Some Dir \<Rightarrow> m' = m \<and> r = Code (- EISDIR)
      | Some (File c) \<Rightarrow>
          let k = min (unat n) (LARGO_CONTENIDO - length c) in
          r = Code (int k) \<and> (\<exists>c'. overwritten c (take k d) (unat off) c' \<and> m' = m(p \<mapsto> File c')))"
| "tree_step m (Utimens p _ _) m' r \<longleftrightarrow> m' = m \<and> r = Code (if m p = None then - ENOENT else 0)"
| "tree_step m (Rmdir p) m' r \<longleftrightarrow>
     (case m p of
        None \<Rightarrow> m' = m \<and> r = Code (- ENOENT)
      | Some (File _) \<Rightarrow> m' = m \<and> r = Code (- ENOTDIR)
      | Some Dir \<Rightarrow>
          if has_files m p then m' = m \<and> r = Code (- ENOTEMPTY) else m' = m(p := None) \<and> r = Code 0)"
| "tree_step m (Unlink p) m' r \<longleftrightarrow>
     (case m p of
        None \<Rightarrow> m' = m \<and> r = Code (- ENOENT)
      | Some Dir \<Rightarrow> m' = m \<and> r = Code (- EISDIR)
      | Some (File _) \<Rightarrow> m' = m(p := None) \<and> r = Code 0)"
| "tree_step m (Truncate p _) m' r \<longleftrightarrow> m' = m \<and> r = Code 0"
| "tree_step m (Getattr p) m' r \<longleftrightarrow> m' = m \<and>
     (if p = ''/'' then r = Attr 0 (zero_stat\<lparr>st_uid := 1717, st_mode := or S_IFDIR MODE_0755, st_nlink := 2\<rparr>)
      else case m p of None \<Rightarrow> r = Attr (- ENOENT) zero_stat
         | Some n \<Rightarrow> \<exists>st. r = Attr 0 st \<and> node_stat n st)"
| "tree_step m (Readdir p) m' r \<longleftrightarrow> m' = m \<and>
     (if p = ''/'' \<or> m p = Some Dir then \<exists>names. r = Names 0 names \<and> listing m p names
      else r = Names (-1) [''.'', ''..''])"
| "tree_step m (Read p n off) m' r \<longleftrightarrow> m' = m \<and>
     (case m p of
        None \<Rightarrow> r = Bytes (- ENOENT) []
      | Some Dir \<Rightarrow> r = Bytes (- EISDIR) []
      | Some (File c) \<Rightarrow>
          let k = min (unat n) (length c - unat off) in
          unat off \<le> length c \<and> r = Bytes (int k) (take k (drop (unat off) c)))"
| "tree_step m (Open p) m' r \<longleftrightarrow> m' = m \<and> r = Code (if m p = None then - ENOENT else 0)"

text \<open>What the kernel keeps to: no directory over an entry or above a file that is there, for writes a
  buffer of the size it names, and the sign bit of a count or an offset clear, since \<^verbatim>\<open>off_t\<close> is
  signed. The bytes written are arbitrary.\<close>

fun tree_ok :: "tree \<Rightarrow> fs_op \<Rightarrow> bool" where
  "tree_ok m (Mkdir p md) \<longleftrightarrow> fs_op_ok (Mkdir p md) \<and> m p = None \<and> \<not> has_files m p"
| "tree_ok m (Write p d n off) \<longleftrightarrow>
     fs_op_ok (Write p d n off) \<and> unat n \<le> length d \<and> unat n < 2 ^ 63"
| "tree_ok m (Read p n off) \<longleftrightarrow>
     fs_op_ok (Read p n off) \<and> unat n < 2 ^ 63 \<and> unat off < 2 ^ 63"
| "tree_ok m e \<longleftrightarrow> fs_op_ok e"

section \<open>The tree of a map\<close>

definition node_of :: "fcell \<Rightarrow> node" where
  "node_of c = (if ftype c = DIR_T then Dir else File (cstr (contenido c)))"

definition tree_of :: "filesystem \<Rightarrow> tree" where
  "tree_of fs p =
     (if p = [] then None else map_option (\<lambda>(i, j). node_of (fs i j)) (find_pos fs p))"

text \<open>The invariant behind the simulation: no path twice, cells that are not taken hold no text,
  a row has entries only below a directory and they are its files, and no file of a directory is
  anywhere else.\<close>

definition unique_paths :: "filesystem \<Rightarrow> bool" where
  "unique_paths fs \<longleftrightarrow>
     (\<forall>i<LADO_MAPA. \<forall>j<LADO_MAPA. \<forall>k<LADO_MAPA. \<forall>l<LADO_MAPA.
        taken fs i j \<and> taken fs k l \<and> cell_path fs i j = cell_path fs k l \<longrightarrow> i = k \<and> j = l)"

definition clean :: "filesystem \<Rightarrow> bool" where
  "clean fs \<longleftrightarrow>
     (\<forall>i<LADO_MAPA. \<forall>j<LADO_MAPA. \<not> taken fs i j \<longrightarrow> cstr (contenido (fs i j)) = [])"

definition rows_ok :: "filesystem \<Rightarrow> bool" where
  "rows_ok fs \<longleftrightarrow>
     (\<forall>i<LADO_MAPA. \<forall>j<LADO_MAPA. 0 < j \<and> taken fs i j \<longrightarrow>
        taken fs i 0 \<and> ftype (fs i 0) = DIR_T \<and> ftype (fs i j) = FILE_T
        \<and> parent_of (cell_path fs i 0) (cell_path fs i j))"

definition tops_ok :: "filesystem \<Rightarrow> bool" where
  "tops_ok fs \<longleftrightarrow>
     (\<forall>i<LADO_MAPA. \<forall>k<LADO_MAPA. taken fs i 0 \<and> ftype (fs i 0) = FILE_T
        \<and> taken fs k 0 \<and> ftype (fs k 0) = DIR_T \<longrightarrow> \<not> parent_of (cell_path fs k 0) (cell_path fs i 0))"

definition sim_inv :: "filesystem \<Rightarrow> bool" where
  "sim_inv fs \<longleftrightarrow> fs_inv fs \<and> unique_paths fs \<and> clean fs \<and> rows_ok fs \<and> tops_ok fs"

lemma unique_pathsD:
  "unique_paths fs \<Longrightarrow> i < LADO_MAPA \<Longrightarrow> j < LADO_MAPA \<Longrightarrow> k < LADO_MAPA \<Longrightarrow> l < LADO_MAPA \<Longrightarrow>
     taken fs i j \<Longrightarrow> taken fs k l \<Longrightarrow> cell_path fs i j = cell_path fs k l \<Longrightarrow> i = k \<and> j = l"
  unfolding unique_paths_def by blast

lemma sim_inv_zero: "sim_inv zero_fs"
  using fs_inv_zero
  by (simp add: sim_inv_def unique_paths_def clean_def rows_ok_def tops_ok_def taken_def zero_fs_def
      zero_file_def)

lemma tree_of_zero [simp]: "tree_of zero_fs = Map.empty"
  by (rule ext) (simp add: tree_of_def find_pos_def used_def zero_fs_def zero_file_def upt_rec LADO_MAPA_def)

lemma found_type:
  assumes "fs_inv fs" and "find_pos fs p = Some (i, j)" and "p \<noteq> []"
  shows "ftype (fs i j) = FILE_T \<or> ftype (fs i j) = DIR_T"
proof -
  note fp = find_pos_Some[OF assms(2)]
  have "cell_ok (fs i j)" using fs_inv_cell[OF assms(1)] fp by blast
  with found_taken[OF assms] show ?thesis by (auto simp: cell_ok_def taken_def)
qed

lemma taken_found:
  assumes "fs_inv fs" and "unique_paths fs" and "i < LADO_MAPA" and "j < LADO_MAPA" and "taken fs i j"
  shows "find_pos fs (cell_path fs i j) = Some (i, j)"
proof -
  have "find_pos fs (cell_path fs i j) \<noteq> None"
    using assms taken_used by (intro find_pos_complete) (auto simp: fs_inv_def)
  then obtain k l where kl: "find_pos fs (cell_path fs i j) = Some (k, l)" by auto
  note f = find_pos_Some[OF kl]
  have "taken fs k l" using found_taken[OF assms(1) kl] taken_path_ne assms by blast
  with f assms have "i = k \<and> j = l" unfolding unique_paths_def by metis
  with kl show ?thesis by simp
qed

lemma tree_iff:
  assumes "fs_inv fs" and "unique_paths fs"
  shows "tree_of fs p = Some n \<longleftrightarrow>
    (\<exists>i j. i < LADO_MAPA \<and> j < LADO_MAPA \<and> taken fs i j \<and> cell_path fs i j = p \<and> node_of (fs i j) = n)"
proof
  assume "tree_of fs p = Some n"
  then obtain i j where "p \<noteq> []" "find_pos fs p = Some (i, j)" "node_of (fs i j) = n"
    by (auto simp: tree_of_def split: if_splits)
  with found_taken[OF assms(1)] find_pos_Some[of fs p i j]
  show "\<exists>i j. i < LADO_MAPA \<and> j < LADO_MAPA \<and> taken fs i j \<and> cell_path fs i j = p \<and> node_of (fs i j) = n"
    by blast
next
  assume "\<exists>i j. i < LADO_MAPA \<and> j < LADO_MAPA \<and> taken fs i j \<and> cell_path fs i j = p \<and> node_of (fs i j) = n"
  then obtain i j where "i < LADO_MAPA" "j < LADO_MAPA" "taken fs i j" "cell_path fs i j = p"
    "node_of (fs i j) = n" by blast
  with taken_found[OF assms, of i j] taken_path_ne[OF assms(1)] show "tree_of fs p = Some n"
    by (auto simp: tree_of_def)
qed

section \<open>Changing one cell\<close>

lemma taken_set_cell:
  "taken (set_cell fs i j c) k l \<longleftrightarrow>
     (if k = i \<and> l = j then cell_status c = TAKEN_T else taken fs k l)"
  by (simp add: taken_def set_cell_app)

lemma cell_path_set_cell:
  "cell_path (set_cell fs i j c) k l = (if k = i \<and> l = j then cstr (path c) else cell_path fs k l)"
  by (simp add: cell_path_def set_cell_app)

lemmas cell_simps = taken_set_cell cell_path_set_cell set_cell_app

lemma unique_set_cell:
  assumes "unique_paths fs"
    and "\<And>k l. k < LADO_MAPA \<Longrightarrow> l < LADO_MAPA \<Longrightarrow> k \<noteq> i \<or> l \<noteq> j \<Longrightarrow> cell_status c = TAKEN_T \<Longrightarrow>
      taken fs k l \<Longrightarrow> cell_path fs k l \<noteq> cstr (path c)"
  shows "unique_paths (set_cell fs i j c)"
  unfolding unique_paths_def
proof (intro allI impI)
  fix a b k l
  assume b: "a < LADO_MAPA" "b < LADO_MAPA" "k < LADO_MAPA" "l < LADO_MAPA"
    and t: "taken (set_cell fs i j c) a b \<and> taken (set_cell fs i j c) k l
      \<and> cell_path (set_cell fs i j c) a b = cell_path (set_cell fs i j c) k l"
  have new: "x = i \<and> y = j" if "v < LADO_MAPA" "w < LADO_MAPA" "x < LADO_MAPA" "y < LADO_MAPA"
    "v = i" "w = j" "cell_status c = TAKEN_T" "taken (set_cell fs i j c) x y"
    "cell_path (set_cell fs i j c) x y = cstr (path c)" for v w x y
    using assms(2)[of x y] that by (cases "x = i \<and> y = j") (simp_all add: cell_simps)
  show "a = k \<and> b = l"
  proof (cases "a = i \<and> b = j")
    case True
    with t have "cell_status c = TAKEN_T" "cell_path (set_cell fs i j c) k l = cstr (path c)"
      by (simp_all add: cell_simps)
    with new[of a b k l] b t True show ?thesis by simp
  next
    case nab: False
    show ?thesis
    proof (cases "k = i \<and> l = j")
      case True
      with t have "cell_status c = TAKEN_T" "cell_path (set_cell fs i j c) a b = cstr (path c)"
        by (simp_all add: cell_simps)
      with new[of k l a b] b t True show ?thesis by simp
    next
      case False
      with nab t have "taken fs a b" "taken fs k l" "cell_path fs a b = cell_path fs k l"
        by (auto simp: cell_simps)
      with unique_pathsD[OF assms(1)] b show ?thesis by blast
    qed
  qed
qed

lemma clean_set_cell:
  "clean fs \<Longrightarrow> (cell_status c \<noteq> TAKEN_T \<Longrightarrow> cstr (contenido c) = []) \<Longrightarrow> clean (set_cell fs i j c)"
  by (auto simp: clean_def cell_simps)

text \<open>The tree after the change: the old entry of the cell goes, the new one comes.\<close>

lemma tree_set_cell:
  assumes "fs_inv fs" and "unique_paths fs"
    and "fs_inv (set_cell fs i j c)" and "unique_paths (set_cell fs i j c)"
    and "i < LADO_MAPA" and "j < LADO_MAPA"
  defines "m \<equiv> if taken fs i j then (tree_of fs)(cell_path fs i j := None) else tree_of fs"
  shows "tree_of (set_cell fs i j c) =
    (if cell_status c = TAKEN_T then m(cstr (path c) \<mapsto> node_of c) else m)" (is "?l = ?r")
proof
  fix q
  let ?fs = "set_cell fs i j c"
  have old: "m q = Some n \<longleftrightarrow>
      (\<exists>k l. k < LADO_MAPA \<and> l < LADO_MAPA \<and> (k \<noteq> i \<or> l \<noteq> j) \<and> taken fs k l \<and> cell_path fs k l = q
         \<and> node_of (fs k l) = n)" for n
  proof (cases "taken fs i j")
    case False
    then show ?thesis unfolding m_def using tree_iff[OF assms(1,2), of q n] by auto
  next
    case True
    show ?thesis
    proof (cases "q = cell_path fs i j")
      case q: True
      have "\<not> (taken fs k l \<and> cell_path fs k l = q)"
        if "k < LADO_MAPA" "l < LADO_MAPA" "k \<noteq> i \<or> l \<noteq> j" for k l
        using unique_pathsD[OF assms(2) that(1,2) assms(5,6)] True q that(3) by blast
      with True q show ?thesis unfolding m_def by auto
    next
      case False
      with True tree_iff[OF assms(1,2), of q n] show ?thesis unfolding m_def by auto
    qed
  qed
  have new: "?l q = Some n \<longleftrightarrow>
      (cell_status c = TAKEN_T \<and> cstr (path c) = q \<and> node_of c = n) \<or> m q = Some n" for n
    unfolding tree_iff[OF assms(3,4)] old using assms(5,6) by (auto simp: cell_simps)
  have none: "m q = None" if "cell_status c = TAKEN_T" "cstr (path c) = q"
  proof (rule ccontr)
    assume "m q \<noteq> None"
    then obtain n where "m q = Some n" by auto
    with old obtain k l where "k < LADO_MAPA" "l < LADO_MAPA" "k \<noteq> i \<or> l \<noteq> j" "taken fs k l"
      "cell_path fs k l = q" by blast
    then have "taken ?fs k l" "taken ?fs i j" "cell_path ?fs k l = cell_path ?fs i j"
      using that by (simp_all add: cell_simps)
    with unique_pathsD[OF assms(4)] \<open>k < LADO_MAPA\<close> \<open>l < LADO_MAPA\<close> assms(5,6) \<open>k \<noteq> i \<or> l \<noteq> j\<close>
    show False by blast
  qed
  show "?l q = ?r q"
  proof (cases "cell_status c = TAKEN_T \<and> cstr (path c) = q")
    case True
    then show ?thesis using new by auto
  next
    case False
    then have "?l q = m q"
      using new by (cases "m q"; cases "?l q") auto
    with False show ?thesis by auto
  qed
qed

section \<open>The callbacks on the tree\<close>

lemma tree_find:
  "p \<noteq> [] \<Longrightarrow> find_pos fs p = Some (i, j) \<Longrightarrow> tree_of fs p = Some (node_of (fs i j))"
  "find_pos fs p = None \<Longrightarrow> tree_of fs p = None"
  by (simp_all add: tree_of_def)

lemma fill_sim:
  assumes sim: "sim_inv fs" and st: "store_entry cr ty p md fs i j = Inr fs'" and inv': "fs_inv fs'"
    and p: "NUL \<notin> set p" "p \<noteq> []" "find_pos fs p = None"
    and ij: "i < LADO_MAPA" "j < LADO_MAPA" "\<not> taken fs i j" and ty: "ty = FILE_T \<or> ty = DIR_T"
    and row: "0 < j \<Longrightarrow> taken fs i 0 \<and> ftype (fs i 0) = DIR_T \<and> ty = FILE_T \<and> parent_of (cell_path fs i 0) p"
    and top: "j = 0 \<Longrightarrow> ty = FILE_T \<Longrightarrow>
      \<forall>k<LADO_MAPA. taken fs k 0 \<and> ftype (fs k 0) = DIR_T \<longrightarrow> \<not> parent_of (cell_path fs k 0) p"
    and dir: "ty = DIR_T \<Longrightarrow> \<not> has_files (tree_of fs) p"
  shows "sim_inv fs' \<and> tree_of fs' = (tree_of fs)(p \<mapsto> (if ty = DIR_T then Dir else File []))"
proof -
  note s = sim[unfolded sim_inv_def]
  from st obtain b where b: "c_strcpy (path (fs i j)) p = Inr b"
    and fs': "fs' = set_cell fs i j ((fs i j)\<lparr>cell_status := TAKEN_T, ftype := ty, path := b,
      metadata := (metadata (fs i j))\<lparr>gid := gid_of cr, propietario := uid_of cr, mode := md\<rparr>\<rparr>)"
    by (rule store_entry_Inr)
  note cb = c_strcpy_props(3)[OF b p(1)]
  have absent: "cell_path fs k l \<noteq> p" if "k < LADO_MAPA" "l < LADO_MAPA" "taken fs k l" for k l
    using p(3) s that taken_used by (auto simp: find_pos_None_iff fs_inv_def)
  have nofile: "\<not> parent_of p (cell_path fs k 0)"
    if "ty = DIR_T" "k < LADO_MAPA" "taken fs k 0" "ftype (fs k 0) = FILE_T" for k
  proof
    assume "parent_of p (cell_path fs k 0)"
    moreover have "tree_of fs (cell_path fs k 0) = Some (node_of (fs k 0))"
      using s that by (subst tree_iff) (blast intro: LADO_MAPA_pos)+
    ultimately show False using dir[OF that(1)] that(4) by (auto simp: has_files_def node_of_def)
  qed
  have u: "unique_paths fs'" unfolding fs' using s absent cb by (intro unique_set_cell) auto
  have c: "clean fs'" unfolding fs' using s by (intro clean_set_cell) auto
  have r: "rows_ok fs'"
    using s row ij(3) unfolding fs' rows_ok_def by (auto simp: cell_simps cb)
  have t: "tops_ok fs'"
    using s top nofile unfolding fs' tops_ok_def by (auto simp: cell_simps cb)
  have "tree_of fs' = (tree_of fs)(p \<mapsto> (if ty = DIR_T then Dir else File []))"
    using tree_set_cell[of fs i j, OF _ _ inv'[unfolded fs'] u[unfolded fs']] s ij cb ty
    by (auto simp: fs' node_of_def clean_def)
  with inv' u c r t show ?thesis by (simp add: sim_inv_def)
qed

lemma clear_sim:
  assumes sim: "sim_inv fs" and f: "find_pos fs p = Some (i, j)" and p: "p \<noteq> []"
    and row: "j = 0 \<Longrightarrow> \<forall>k. 0 < k \<and> k < LADO_MAPA \<longrightarrow> \<not> taken fs i k"
  shows "sim_inv (clear_cell fs i j) \<and> tree_of (clear_cell fs i j) = (tree_of fs)(p := None)"
proof -
  note s = sim[unfolded sim_inv_def]
  note fp = find_pos_Some[OF f]
  have tk: "taken fs i j" using found_taken[OF _ f p] s by blast
  have inv': "fs_inv (clear_cell fs i j)" using clear_cell_inv[OF _ f] s by blast
  have ne: "contenido (fs i j) \<noteq> []"
    using fs_inv_cell[of fs i j] s fp by (auto simp: cell_ok_def LARGO_CONTENIDO_def)
  have c0: "cstr ((contenido (fs i j))[0 := NUL]) = []" using ne by (cases "contenido (fs i j)") auto
  have u: "unique_paths (clear_cell fs i j)"
    unfolding clear_cell_def Let_def using s by (intro unique_set_cell) auto
  have c: "clean (clear_cell fs i j)"
    unfolding clear_cell_def Let_def using s c0 by (intro clean_set_cell) auto
  have r: "rows_ok (clear_cell fs i j)"
    using s row unfolding clear_cell_def Let_def rows_ok_def by (auto simp: cell_simps)
  have t: "tops_ok (clear_cell fs i j)"
    using s unfolding clear_cell_def Let_def tops_ok_def by (auto simp: cell_simps)
  have "tree_of (clear_cell fs i j) = (tree_of fs)(p := None)"
    using tree_set_cell[of fs i j, OF _ _ inv'[unfolded clear_cell_def Let_def]
        u[unfolded clear_cell_def Let_def]] s fp tk
    by (auto simp: clear_cell_def Let_def)
  with inv' u c r t show ?thesis by (simp add: sim_inv_def)
qed

lemma update_sim:
  assumes sim: "sim_inv fs" and f: "find_pos fs p = Some (i, j)" and p: "p \<noteq> []"
    and c: "cell_status c = cell_status (fs i j)" "path c = path (fs i j)" "ftype c = ftype (fs i j)"
    and inv': "fs_inv (set_cell fs i j c)"
  shows "sim_inv (set_cell fs i j c) \<and> tree_of (set_cell fs i j c) = (tree_of fs)(p \<mapsto> node_of c)"
proof -
  note s = sim[unfolded sim_inv_def]
  note fp = find_pos_Some[OF f]
  have tk: "taken fs i j" using found_taken[OF _ f p] s by blast
  have st: "cell_status c = TAKEN_T" using tk c by (simp add: taken_def)
  have tk': "taken (set_cell fs i j c) k l = taken fs k l" for k l
    using tk st by (simp add: taken_set_cell)
  have cp: "cell_path (set_cell fs i j c) k l = cell_path fs k l" for k l
    by (simp add: cell_path_def set_cell_app c)
  have ft: "ftype (set_cell fs i j c k l) = ftype (fs k l)" for k l by (simp add: set_cell_app c)
  have u: "unique_paths (set_cell fs i j c)" using s by (simp add: unique_paths_def tk' cp)
  have "clean (set_cell fs i j c)" using s st by (intro clean_set_cell) auto
  moreover have "rows_ok (set_cell fs i j c)" "tops_ok (set_cell fs i j c)"
    using s by (simp_all add: rows_ok_def tops_ok_def tk' cp ft)
  moreover have "tree_of (set_cell fs i j c) = (tree_of fs)(p \<mapsto> node_of c)"
    using tree_set_cell[of fs i j c] s inv' u fp tk st c(2)
    by (auto simp: cell_path_def)
  ultimately show ?thesis using inv' u by (simp add: sim_inv_def)
qed

section \<open>Every callback implements its step\<close>

lemma parent_scan:
  assumes "fs_inv fs" and "scan (\<lambda>i. used fs i 0) (\<lambda>i. cell_path fs i 0 = d) [0..<LADO_MAPA] = None"
    and "k < LADO_MAPA" and "taken fs k 0"
  shows "cell_path fs k 0 \<noteq> d"
proof
  assume "cell_path fs k 0 = d"
  moreover have "used fs i 0" if "i \<le> k" for i
    using assms(1,3) taken_used[OF assms(4)] that unfolding fs_inv_def no_holes_def
    by (metis le_neq_implies_less)
  ultimately have "\<exists>i. scan (\<lambda>i. used fs i 0) (\<lambda>i. cell_path fs i 0 = d) [0..<LADO_MAPA] = Some i
      \<and> 0 \<le> i \<and> i \<le> k"
    using assms(3) by (intro scan_hit_upt) auto
  with assms(2) show False by simp
qed

lemma mknod_sim:
  assumes sim: "sim_inv fs" and mk: "fisops_mknod cr fs (Some p) md = Inr (fs', r)"
    and p: "NUL \<notin> set p" "p \<noteq> []"
  shows "sim_inv fs' \<and> tree_step (tree_of fs) (Mknod p md) (tree_of fs') (Code r)"
proof -
  have inv: "fs_inv fs" using sim by (simp add: sim_inv_def)
  note inv' = mknod_inv[OF inv mk p]
  show ?thesis using mk
  proof (cases rule: mknod_Inr_cases)
    case exists
    then obtain i j where "find_pos fs p = Some (i, j)" by auto
    with exists sim tree_find(1)[OF p(2)] show ?thesis by auto
  next
    case full
    with sim tree_find(2) show ?thesis by auto
  next
    case (root t d)
    have "sim_inv fs' \<and> tree_of fs' = (tree_of fs)(p \<mapsto> (if FILE_T = DIR_T then Dir else File []))"
      using root parent_scan[OF inv root(4)]
      by (intro fill_sim[OF sim root(8) inv' p root(1)]) (auto simp: parent_of_def)
    with root tree_find(2) show ?thesis by auto
  next
    case (dir t i d)
    have "taken fs t 0"
      using dir fs_inv_cell[OF inv dir(4), of 0] by (auto simp: cell_ok_def used_def taken_def)
    then have "sim_inv fs' \<and> tree_of fs' = (tree_of fs)(p \<mapsto> (if FILE_T = DIR_T then Dir else File []))"
      using dir by (intro fill_sim[OF sim dir(12) inv' p dir(1)]) (auto simp: parent_of_def)
    with dir tree_find(2) show ?thesis by auto
  qed
qed

lemma mkdir_sim:
  assumes sim: "sim_inv fs" and mk: "fisopfs_mkdir cr fs (Some p) md = Inr (fs', r)"
    and p: "NUL \<notin> set p" "p \<noteq> []" and new: "tree_of fs p = None" "\<not> has_files (tree_of fs) p"
  shows "sim_inv fs' \<and> tree_step (tree_of fs) (Mkdir p md) (tree_of fs') (Code r)"
proof (cases "scan (\<lambda>_. True) (\<lambda>t. \<not> used fs t 0) [0..<LADO_MAPA]")
  case None
  with mk sim show ?thesis by (simp add: fisopfs_mkdir_def)
next
  case (Some t)
  with mk have st: "store_entry cr DIR_T p md fs t 0 = Inr fs'" and r: "r = 0"
    by (auto simp: fisopfs_mkdir_def chain_eq_Inr)
  have inv: "fs_inv fs" using sim by (simp add: sim_inv_def)
  have "find_pos fs p = None" using new(1) p(2) by (auto simp: tree_of_def)
  with scan_first[OF Some] new taken_used
  have "sim_inv fs' \<and> tree_of fs' = (tree_of fs)(p \<mapsto> (if DIR_T = DIR_T then Dir else File []))"
    by (intro fill_sim[OF sim st mkdir_inv[OF inv mk p] p]) auto
  with r show ?thesis by simp
qed

lemma cstr_append_cstr: "cstr (x @ cstr y) = cstr (x @ y)"
  by (induction x) (simp_all add: cstr_Cons cstr_id)

lemma overwritten_bytes:
  assumes "terminated b" and off: "off = min off' (length (cstr b))"
  shows "overwritten (cstr b) d off' (cstr (take off b @ d @ drop (off + length d) b))"
proof -
  let ?r = "cstr (drop (off + length d) b)"
  have t: "take off b = take off (cstr b)"
    using cstr_split[OF assms(1)] off by (metis take_append append_Nil2 diff_is_0_eq take0 min.cobounded2)
  have "take off (cstr b) = take off' (cstr b)" using off by (simp add: min_def)
  then have eq: "cstr (take off b @ d @ drop (off + length d) b) = cstr (take off' (cstr b) @ d @ ?r)"
    using cstr_append_cstr[of "take off b @ d" "drop (off + length d) b"] t by simp
  then show ?thesis unfolding overwritten_def eq
    using off cstr_drop[of "off + length d" b] by (intro exI[of _ ?r]) (auto simp: add.commute)
qed

lemma write_sim:
  fixes off :: u64
  assumes sim: "sim_inv fs" and wr: "fisopfs_write fs p d n off = Inr (fs', r)"
    and p: "p \<noteq> []" and d: "unat n \<le> length d" "unat n < 2 ^ 63"
  shows "sim_inv fs' \<and> tree_step (tree_of fs) (Write p d n off) (tree_of fs') (Code r)"
proof (cases "find_pos fs p")
  case None
  with wr sim tree_find(2)[OF None] show ?thesis by (simp add: fisopfs_write_def)
next
  case (Some q)
  obtain i j where q: "find_pos fs p = Some (i, j)" using Some by (cases q) auto
  have inv: "fs_inv fs" using sim by (simp add: sim_inv_def)
  show ?thesis
  proof (cases "ftype (fs i j) = DIR_T")
    case True
    with wr q sim tree_find(1)[OF p q] show ?thesis by (simp add: fisopfs_write_def node_of_def)
  next
    case False
    have t: "terminated (contenido (fs i j))"
      using wr q False by (auto simp: fisopfs_write_def chain_eq_Inr c_strlen_def split: if_splits)
    define b k o' where b: "b = contenido (fs i j)"
      and k: "k = min (unat n) (LARGO_CONTENIDO - length (cstr b))"
      and o': "o' = min (unat off) (length (cstr b))"
    define c where "c = (fs i j)\<lparr>contenido := take o' b @ take k d @ drop (o' + k) b\<rparr>"
    from write_spec[OF inv q False t d(2,1), of off] wr
    have fs': "fs' = set_cell fs i j c" and r: "r = int k"
      by (auto simp: c_def b k o')
    have m: "tree_of fs p = Some (File (cstr b))" using tree_find(1)[OF p q] False by (simp add: node_of_def b)
    have lk: "length (take k d) = k" using d(1) by (simp add: k)
    from overwritten_bytes[OF t[folded b] o', of "take k d"] lk
    have ow: "overwritten (cstr b) (take k d) (unat off) (cstr (contenido c))" by (simp add: c_def)
    have "sim_inv fs' \<and> tree_of fs' = (tree_of fs)(p \<mapsto> node_of c)"
      using write_inv[OF inv wr] unfolding fs' by (intro update_sim[OF sim q p]) (auto simp: c_def)
    moreover have "node_of c = File (cstr (contenido c))" using False by (simp add: node_of_def c_def)
    ultimately show ?thesis using m r ow k by (auto simp: Let_def)
  qed
qed

lemma utimens_sim:
  assumes sim: "sim_inv fs" and p: "p \<noteq> []" and ut: "fisopfs_utimens fs p a b = (fs', r)"
  shows "sim_inv fs' \<and> tree_step (tree_of fs) (Utimens p a b) (tree_of fs') (Code r)"
proof (cases "find_pos fs p")
  case None
  with ut sim tree_find(2)[OF None] show ?thesis by (auto simp: fisopfs_utimens_def)
next
  case (Some q)
  obtain i j where q: "find_pos fs p = Some (i, j)" using Some by (cases q) auto
  define c where "c = (fs i j)\<lparr>metadata := (metadata (fs i j))\<lparr>fecha_acceso := a, fecha_modificacion := b\<rparr>\<rparr>"
  have fs': "fs' = set_cell fs i j c" and r: "r = 0"
    using ut q by (auto simp: fisopfs_utimens_def c_def)
  have "fs_inv fs'" using utimens_inv[of fs p a b] sim ut by (simp add: sim_inv_def)
  then have "sim_inv fs' \<and> tree_of fs' = (tree_of fs)(p \<mapsto> node_of c)"
    unfolding fs' by (intro update_sim[OF sim q p]) (auto simp: c_def)
  moreover have "node_of c = node_of (fs i j)" by (simp add: node_of_def c_def)
  ultimately show ?thesis using tree_find(1)[OF p q] r by auto
qed

lemma parent_of_length: "parent_of p q \<Longrightarrow> p \<noteq> ''/'' \<Longrightarrow> length p + 1 \<le> length q"
  by (cases q) (auto simp: parent_of_def get_directory_def strrchr_idx_def split: if_splits)

lemma node_of_Dir: "node_of c = Dir \<longleftrightarrow> ftype c = DIR_T"
  by (simp add: node_of_def)

lemma tree_dir:
  assumes sim: "sim_inv fs"
  shows "tree_of fs e = Some Dir \<longleftrightarrow>
    (\<exists>k<LADO_MAPA. taken fs k 0 \<and> ftype (fs k 0) = DIR_T \<and> cell_path fs k 0 = e)"
proof -
  have "l = 0" if "k < LADO_MAPA" "l < LADO_MAPA" "taken fs k l" "ftype (fs k l) = DIR_T" for k l
  proof (rule ccontr)
    assume "l \<noteq> 0"
    with sim that have "ftype (fs k l) = FILE_T" unfolding sim_inv_def rows_ok_def by blast
    with that(4) show False by simp
  qed
  note z = this
  have "fs_inv fs" "unique_paths fs" using sim by (simp_all add: sim_inv_def)
  from tree_iff[OF this, of e Dir] have "tree_of fs e = Some Dir \<longleftrightarrow> (\<exists>i j. i < LADO_MAPA \<and> j < LADO_MAPA
      \<and> taken fs i j \<and> cell_path fs i j = e \<and> ftype (fs i j) = DIR_T)" by (simp only: node_of_Dir)
  with z LADO_MAPA_pos show ?thesis by blast
qed

lemma tree_file:
  assumes sim: "sim_inv fs"
  shows "(\<exists>c. tree_of fs q = Some (File c)) \<longleftrightarrow>
    (\<exists>i<LADO_MAPA. \<exists>j<LADO_MAPA. taken fs i j \<and> ftype (fs i j) = FILE_T \<and> cell_path fs i j = q)"
proof -
  have "ftype (fs i j) = FILE_T \<longleftrightarrow> ftype (fs i j) \<noteq> DIR_T"
    if "i < LADO_MAPA" "j < LADO_MAPA" "taken fs i j" for i j
    using fs_inv_cell[of fs i j] sim that by (auto simp: sim_inv_def cell_ok_def taken_def)
  note ft = this
  have "fs_inv fs" "unique_paths fs" using sim by (simp_all add: sim_inv_def)
  from tree_iff[OF this, of q] have "(\<exists>c. tree_of fs q = Some (File c)) \<longleftrightarrow> (\<exists>i j. i < LADO_MAPA \<and> j < LADO_MAPA
      \<and> taken fs i j \<and> cell_path fs i j = q \<and> ftype (fs i j) \<noteq> DIR_T)" by (auto simp: node_of_def)
  with ft show ?thesis by blast
qed

text \<open>The files of a directory in the tree are the taken cells of its row.\<close>

lemma row_files:
  assumes sim: "sim_inv fs" and q: "find_pos fs p = Some (i, j)" and p: "p \<noteq> []"
    and dir: "ftype (fs i j) = DIR_T"
  shows "j = 0" and "(\<exists>c. tree_of fs a = Some (File c)) \<and> parent_of p a \<longleftrightarrow>
    (\<exists>k. 0 < k \<and> k < LADO_MAPA \<and> taken fs i k \<and> cell_path fs i k = a)"
proof -
  have inv: "fs_inv fs" and u: "unique_paths fs" and rows: "rows_ok fs" and tops: "tops_ok fs"
    using sim by (simp_all add: sim_inv_def)
  note fp = find_pos_Some[OF q]
  have tk: "taken fs i j" by (rule found_taken[OF inv q p])
  show j: "j = 0"
  proof (rule ccontr)
    assume "j \<noteq> 0"
    with rows fp tk have "ftype (fs i j) = FILE_T" unfolding rows_ok_def by blast
    with dir show False by simp
  qed
  show "(\<exists>c. tree_of fs a = Some (File c)) \<and> parent_of p a \<longleftrightarrow>
    (\<exists>k. 0 < k \<and> k < LADO_MAPA \<and> taken fs i k \<and> cell_path fs i k = a)"
  proof
    assume a: "(\<exists>c. tree_of fs a = Some (File c)) \<and> parent_of p a"
    then obtain k l where kl: "k < LADO_MAPA" "l < LADO_MAPA" "taken fs k l" "cell_path fs k l = a"
        "ftype (fs k l) = FILE_T"
      using tree_file[OF sim, of a] by blast
    have l0: "0 < l"
    proof (rule ccontr)
      assume "\<not> 0 < l"
      with tops kl fp tk dir j a show False unfolding tops_ok_def by blast
    qed
    with rows kl have "taken fs k 0" "parent_of (cell_path fs k 0) a" unfolding rows_ok_def by blast+
    with a have "cell_path fs k 0 = cell_path fs i j" using fp by (simp add: parent_of_def)
    with unique_pathsD[OF u kl(1) LADO_MAPA_pos fp(1,2)] \<open>taken fs k 0\<close> tk have "k = i" by blast
    with kl l0 show "\<exists>k. 0 < k \<and> k < LADO_MAPA \<and> taken fs i k \<and> cell_path fs i k = a" by blast
  next
    assume "\<exists>k. 0 < k \<and> k < LADO_MAPA \<and> taken fs i k \<and> cell_path fs i k = a"
    then obtain k where k: "0 < k" "k < LADO_MAPA" "taken fs i k" "cell_path fs i k = a" by blast
    with rows fp have "ftype (fs i k) = FILE_T" "parent_of p a" unfolding rows_ok_def j by blast+
    with tree_file[OF sim, of a] k fp show "(\<exists>c. tree_of fs a = Some (File c)) \<and> parent_of p a" by blast
  qed
qed

text \<open>A directory has files in the tree just when its row has taken cells.\<close>

lemma has_files_row:
  assumes sim: "sim_inv fs" and q: "find_pos fs p = Some (i, j)" and p: "p \<noteq> []"
    and dir: "ftype (fs i j) = DIR_T"
  shows "j = 0" and "has_files (tree_of fs) p \<longleftrightarrow> (\<exists>k. 0 < k \<and> k < LADO_MAPA \<and> taken fs i k)"
  using row_files[OF assms] unfolding has_files_def by blast+

lemma rmdir_sim:
  assumes sim: "sim_inv fs" and p: "p \<noteq> []" and rm: "fisopfs_rmdir fs p = (fs', r)"
  shows "sim_inv fs' \<and> tree_step (tree_of fs) (Rmdir p) (tree_of fs') (Code r)"
proof (cases "find_pos fs p")
  case None
  with rm sim tree_find(2)[OF None] show ?thesis by (simp add: fisopfs_rmdir_def)
next
  case (Some q)
  obtain i j where q: "find_pos fs p = Some (i, j)" using Some by (cases q) auto
  have inv: "fs_inv fs" using sim by (simp add: sim_inv_def)
  note t = tree_find(1)[OF p q]
  show ?thesis
  proof (cases "ftype (fs i j) = DIR_T")
    case False
    then have "ftype (fs i j) = FILE_T" using found_type[OF inv q p] by blast
    with rm q sim t show ?thesis by (auto simp: fisopfs_rmdir_def node_of_def)
  next
    case True
    note h = has_files_row[OF sim q p True]
    have sc: "scan (used fs i) (taken fs i) [1..<LADO_MAPA] \<noteq> None \<longleftrightarrow> has_files (tree_of fs) p"
      using row_taken_scan[OF inv find_pos_Some(1)[OF q]] h(2) by simp
    show ?thesis
    proof (cases "has_files (tree_of fs) p")
      case yes: True
      with rm q sim t True sc show ?thesis by (auto simp: fisopfs_rmdir_def node_of_def)
    next
      case no: False
      with rm q True sc have "fs' = clear_cell fs i j" "r = 0" by (auto simp: fisopfs_rmdir_def)
      with clear_sim[OF sim q p] h no t True show ?thesis by (auto simp: node_of_def)
    qed
  qed
qed

lemma unlink_sim:
  assumes sim: "sim_inv fs" and p: "p \<noteq> []" and ul: "fisopfs_unlink fs p = (fs', r)"
  shows "sim_inv fs' \<and> tree_step (tree_of fs) (Unlink p) (tree_of fs') (Code r)"
proof (cases "find_pos fs p")
  case None
  with ul sim tree_find(2)[OF None] show ?thesis by (simp add: fisopfs_unlink_def)
next
  case (Some q)
  obtain i j where q: "find_pos fs p = Some (i, j)" using Some by (cases q) auto
  note t = tree_find(1)[OF p q]
  show ?thesis
  proof (cases "ftype (fs i j) = DIR_T")
    case True
    with ul q sim t show ?thesis by (auto simp: fisopfs_unlink_def node_of_def)
  next
    case False
    with ul q have "fs' = clear_cell fs i j" "r = 0" by (auto simp: fisopfs_unlink_def)
    moreover have "\<forall>k. 0 < k \<and> k < LADO_MAPA \<longrightarrow> \<not> taken fs i k" if "j = 0"
      using sim False find_pos_Some(1)[OF q] that unfolding sim_inv_def rows_ok_def by blast
    ultimately show ?thesis using clear_sim[OF sim q p] t False by (auto simp: node_of_def)
  qed
qed

lemma getattr_sim:
  assumes sim: "sim_inv fs" and p: "p \<noteq> []" and ga: "fisopfs_getattr fs (Some p) zero_stat = Inr (r, st)"
  shows "tree_step (tree_of fs) (Getattr p) (tree_of fs) (Attr r st)"
proof (cases "p = ''/'' \<or> find_pos fs p = None")
  case True
  with ga tree_find(2) show ?thesis by (auto simp: fisopfs_getattr_def split: if_splits)
next
  case False
  then obtain i j where q: "find_pos fs p = Some (i, j)" and np: "p \<noteq> ''/''" by auto
  have inv: "fs_inv fs" using sim by (simp add: sim_inv_def)
  from ga q np found_type[OF inv q p] have "r = 0 \<and> node_stat (node_of (fs i j)) st"
    by (auto simp: fisopfs_getattr_def node_stat_def node_of_def Let_def chain_eq_Inr c_strlen_Inr zero_stat_def)
  with tree_find(1)[OF p q] np show ?thesis by auto
qed

lemma open_sim:
  assumes "p \<noteq> []"
  shows "tree_step (tree_of fs) (Open p) (tree_of fs) (Code (fisopfs_open fs p))"
  using assms by (auto simp: fisopfs_open_def tree_of_def split: option.split)

text \<open>A listing loop stops at the first free cell, so it names the taken cells when there are no holes.\<close>

lemma list_names_takeWhile:
  "list_names cells k is = map (\<lambda>i. cstr (drop k (path (cells i))))
     (filter (\<lambda>i. cell_status (cells i) = TAKEN_T) (takeWhile (\<lambda>i. cell_status (cells i) \<noteq> FREE_T) is))"
  by (induction "is") auto

lemma filter_takeWhile_upt:
  assumes "\<And>i j. a \<le> i \<Longrightarrow> i < j \<Longrightarrow> j < b \<Longrightarrow> Q j \<Longrightarrow> P i" and "\<And>i. Q i \<Longrightarrow> P i"
  shows "filter Q (takeWhile P [a..<b]) = filter Q [a..<b]"
  using assms(1)
proof (induction b)
  case (Suc b)
  show ?case
  proof (cases "a \<le> b \<and> Q b")
    case True
    then have "\<forall>i\<in>set [a..<b]. P i" using Suc.prems by auto
    then have "takeWhile P [a..<Suc b] = [a..<Suc b]"
      unfolding takeWhile_eq_all_conv using True assms(2) by (auto simp: less_Suc_eq)
    then show ?thesis by (rule arg_cong)
  next
    case False
    have "filter Q (takeWhile P [a..<b]) = filter Q [a..<b]" using Suc.prems by (intro Suc.IH) auto
    with False show ?thesis by (cases "a \<le> b"; cases "\<forall>i\<in>set [a..<b]. P i") (auto simp: takeWhile_append)
  qed
qed simp

lemma used_before:
  "fs_inv fs \<Longrightarrow> i < k \<Longrightarrow> k < LADO_MAPA \<Longrightarrow> used fs k 0 \<Longrightarrow> used fs i 0"
  "fs_inv fs \<Longrightarrow> i < LADO_MAPA \<Longrightarrow> 0 < j \<Longrightarrow> j < l \<Longrightarrow> l < LADO_MAPA \<Longrightarrow> used fs i l \<Longrightarrow> used fs i j"
  unfolding fs_inv_def no_holes_def by blast+

lemma list_names_taken:
  assumes "\<And>i j. a \<le> i \<Longrightarrow> i < j \<Longrightarrow> j < b \<Longrightarrow> cell_status (cells j) \<noteq> FREE_T \<Longrightarrow> cell_status (cells i) \<noteq> FREE_T"
    and "\<And>i. a \<le> i \<Longrightarrow> i < b \<Longrightarrow> cell_status (cells i) = TAKEN_T \<Longrightarrow> k \<le> length (cstr (path (cells i)))"
  shows "list_names cells k [a..<b] = map (drop k)
    (map (\<lambda>i. cstr (path (cells i))) (filter (\<lambda>i. cell_status (cells i) = TAKEN_T) [a..<b]))"
proof -
  have "filter (\<lambda>i. cell_status (cells i) = TAKEN_T) (takeWhile (\<lambda>i. cell_status (cells i) \<noteq> FREE_T) [a..<b])
      = filter (\<lambda>i. cell_status (cells i) = TAKEN_T) [a..<b]"
    by (rule filter_takeWhile_upt) (use assms(1) in auto)
  then show ?thesis unfolding list_names_takeWhile using assms(2) by (auto simp: cstr_drop)
qed

text \<open>The taken cells of a column or of a row, as paths.\<close>

lemma top_entries:
  assumes sim: "sim_inv fs"
  shows "q \<in> listed (tree_of fs) ''/'' \<longleftrightarrow> (\<exists>i<LADO_MAPA. taken fs i 0 \<and> cell_path fs i 0 = q)" (is "?l \<longleftrightarrow> ?r")
proof
  note s = sim[unfolded sim_inv_def]
  note d = tree_dir[OF sim] and f = tree_file[OF sim]
  assume ?r
  then obtain i where i: "i < LADO_MAPA" "taken fs i 0" "cell_path fs i 0 = q" by blast
  have "ftype (fs i 0) = DIR_T \<or> ftype (fs i 0) = FILE_T"
    using fs_inv_cell[of fs i 0] s i LADO_MAPA_pos by (auto simp: cell_ok_def taken_def)
  then show ?l
  proof
    assume "ftype (fs i 0) = DIR_T"
    with i d show ?l by (auto simp: listed_def)
  next
    assume t: "ftype (fs i 0) = FILE_T"
    then have "\<exists>c. tree_of fs q = Some (File c)" using f i LADO_MAPA_pos by blast
    moreover have "\<not> parent_of e q" if "tree_of fs e = Some Dir" for e
      using that s t i unfolding d tops_ok_def by blast
    ultimately show ?l by (auto simp: listed_def)
  qed
next
  note s = sim[unfolded sim_inv_def]
  note d = tree_dir[OF sim] and f = tree_file[OF sim]
  assume ?l
  then consider "tree_of fs q = Some Dir"
    | "\<exists>c. tree_of fs q = Some (File c)" "\<forall>e. tree_of fs e = Some Dir \<longrightarrow> \<not> parent_of e q"
    by (auto simp: listed_def)
  then show ?r
  proof cases
    case 1
    with d show ?r by blast
  next
    case 2
    with f obtain i j where ij: "i < LADO_MAPA" "j < LADO_MAPA" "taken fs i j" "cell_path fs i j = q" by blast
    have "j = 0"
    proof (rule ccontr)
      assume "j \<noteq> 0"
      with s ij have "taken fs i 0" "ftype (fs i 0) = DIR_T" "parent_of (cell_path fs i 0) q"
        unfolding rows_ok_def by blast+
      with d ij(1) 2(2) show False by blast
    qed
    with ij show ?r by blast
  qed
qed

lemma listing_top:
  assumes sim: "sim_inv fs"
  shows "listing (tree_of fs) ''/'' ([''.'', ''..''] @ list_names (\<lambda>i. fs i 0) 1 [0..<LADO_MAPA])"
proof -
  note s = sim[unfolded sim_inv_def]
  let ?ps = "map (\<lambda>i. cell_path fs i 0) (filter (\<lambda>i. taken fs i 0) [0..<LADO_MAPA])"
  have "distinct ?ps"
    using s by (auto simp: distinct_map inj_on_def intro: unique_pathsD[THEN conjunct1] LADO_MAPA_pos)
  moreover have "set ?ps = listed (tree_of fs) ''/''" using top_entries[OF sim] by auto
  moreover have "list_names (\<lambda>i. fs i 0) 1 [0..<LADO_MAPA] = map (drop 1) ?ps"
  proof -
    have "cell_path fs i 0 \<noteq> []" if "i < LADO_MAPA" "taken fs i 0" for i
      using taken_path_ne s that LADO_MAPA_pos by blast
    then show ?thesis
      using s used_before(1)[of fs] unfolding taken_def cell_path_def used_def
      by (intro list_names_taken) (auto simp: Suc_le_eq)
  qed
  ultimately show ?thesis unfolding listing_def by (intro exI[of _ ?ps]) simp
qed

lemma listing_row:
  assumes sim: "sim_inv fs" and q: "find_pos fs p = Some (i, j)" and p: "p \<noteq> []" "p \<noteq> ''/''"
    and dir: "ftype (fs i j) = DIR_T"
  shows "listing (tree_of fs) p ([''.'', ''..''] @ list_names (fs i) (length p + 1) [1..<LADO_MAPA])"
proof -
  note s = sim[unfolded sim_inv_def] and i = find_pos_Some(1)[OF q]
  note row = row_files(2)[OF sim q p(1) dir]
  let ?ps = "map (cell_path fs i) (filter (taken fs i) [1..<LADO_MAPA])"
  have "distinct ?ps"
    using s i by (auto simp: distinct_map inj_on_def intro: unique_pathsD[THEN conjunct2])
  moreover have "set ?ps = listed (tree_of fs) p" using row p(2) by (auto simp: listed_def Suc_le_eq)
  moreover have "list_names (fs i) (length p + 1) [1..<LADO_MAPA] = map (drop (length p + 1)) ?ps"
  proof -
    have "length p + 1 \<le> length (cell_path fs i k)" if "1 \<le> k" "k < LADO_MAPA" "taken fs i k" for k
      using row[of "cell_path fs i k"] that p(2) by (intro parent_of_length) auto
    then show ?thesis
      using s i used_before(2)[of fs i] unfolding taken_def cell_path_def used_def
      by (intro list_names_taken) auto
  qed
  ultimately show ?thesis unfolding listing_def using p(2) by (intro exI[of _ ?ps]) simp
qed

lemma readdir_sim:
  assumes sim: "sim_inv fs" and p: "p \<noteq> []" and rd: "fisopfs_readdir fs p = Inr (r, names)"
  shows "tree_step (tree_of fs) (Readdir p) (tree_of fs) (Names r names)"
proof (cases "p = ''/''")
  case True
  with rd listing_top[OF sim] show ?thesis by (simp add: fisopfs_readdir_def)
next
  case np: False
  show ?thesis
  proof (cases "find_pos fs p")
    case None
    with rd np tree_find(2)[OF None] show ?thesis by (simp add: fisopfs_readdir_def)
  next
    case (Some x)
    obtain i j where q: "find_pos fs p = Some (i, j)" using Some by (cases x) auto
    have inv: "fs_inv fs" using sim by (simp add: sim_inv_def)
    note t = tree_find(1)[OF p q]
    from found_type[OF inv q p] show ?thesis
    proof
      assume "ftype (fs i j) = FILE_T"
      with rd np q t show ?thesis by (simp add: fisopfs_readdir_def node_of_def)
    next
      assume d: "ftype (fs i j) = DIR_T"
      with rd np q have "r = 0" "names = [''.'', ''..''] @ list_names (fs i) (length p + 1) [1..<LADO_MAPA]"
        by (simp_all add: fisopfs_readdir_def)
      with listing_row[OF sim q p np d] t d np show ?thesis by (simp add: node_of_def)
    qed
  qed
qed

text \<open>An offset behind the end makes the count wrap around: \<^verbatim>\<open>strncpy\<close> then leaves the buffer.\<close>

lemma read_behind_end:
  fixes n off :: u64
  assumes "len < LARGO_CONTENIDO" and "unat n < 2 ^ 63" and "unat off < 2 ^ 63" and "len < unat off"
  shows "unat n < unat (if off + n > word_of_nat len then word_of_nat len - off else n)"
proof -
  have l: "unat (word_of_nat len :: u64) = len" using assms(1) by (simp add: unat_of_nat LARGO_CONTENIDO_def)
  have "unat (off + n) = unat off + unat n" using assms(2,3) by (simp add: unat_add_lem[symmetric])
  with l assms(4) have "word_of_nat len < off + n" by (simp add: word_less_nat_alt)
  moreover have "unat (word_of_nat len - off) = 2 ^ 64 + len - unat off"
    using l assms(4) by (simp add: unat_sub_if')
  ultimately show ?thesis using assms(2-4) by simp
qed

lemma read_sim:
  assumes sim: "sim_inv fs" and p: "p \<noteq> []" and n: "unat n < 2 ^ 63" "unat off < 2 ^ 63"
    and rd: "fisopfs_read fs p (unat n) n off = Inr (r, buf)"
  shows "tree_step (tree_of fs) (Read p n off) (tree_of fs) (Bytes r buf)"
proof (cases "find_pos fs p")
  case None
  with rd tree_find(2)[OF None] show ?thesis by (simp add: fisopfs_read_def)
next
  case (Some x)
  obtain i j where q: "find_pos fs p = Some (i, j)" using Some by (cases x) auto
  have inv: "fs_inv fs" using sim by (simp add: sim_inv_def)
  note t = tree_find(1)[OF p q]
  show ?thesis
  proof (cases "ftype (fs i j) = DIR_T")
    case True
    with rd q t show ?thesis by (simp add: fisopfs_read_def node_of_def)
  next
    case False
    let ?b = "contenido (fs i j)"
    let ?s = "if off + n > word_of_nat (length (cstr ?b)) then word_of_nat (length (cstr ?b)) - off else n"
    from rd q False obtain c where te: "terminated ?b"
      and c: "c_strncpy_from ?b (unat off) (unat (if ?s > 0 then ?s else 0)) (unat n) = Inr c"
      by (auto simp: fisopfs_read_def chain_eq_Inr c_strlen_Inr Let_def)
    have "unat (if ?s > 0 then ?s else 0) = unat ?s" by (simp add: word_gt_0)
    with c have "unat ?s \<le> unat n" by (auto simp: c_strncpy_from_def split: if_splits)
    moreover have "length (cstr ?b) < LARGO_CONTENIDO"
      using length_cstr_less[OF te] fs_inv_cell[OF inv find_pos_Some(1,2)[OF q]] by (simp add: cell_ok_def)
    ultimately have o: "unat off \<le> length (cstr ?b)" using read_behind_end[OF _ n] by fastforce
    from read_spec[OF inv q False te n(1) _ o, of "unat n"] rd
    have "r = int (min (unat n) (length (cstr ?b) - unat off))"
      "buf = take (min (unat n) (length (cstr ?b) - unat off)) (drop (unat off) (cstr ?b))" by auto
    with t False o show ?thesis by (simp add: node_of_def Let_def)
  qed
qed

lemma call_tree_sim:
  assumes "sim_inv fs" and "tree_ok (tree_of fs) e" and "fs_call cr fs e = Inr (fs', r)"
  shows "sim_inv fs' \<and> tree_step (tree_of fs) e (tree_of fs') r"
proof (cases e)
  case (Mknod p md)
  with assms mknod_sim[OF assms(1), of cr p md fs'] show ?thesis by (auto simp: fs_op_ok_def replied_Inr simp del: tree_step.simps)
next
  case (Mkdir p md)
  with assms mkdir_sim[OF assms(1), of cr p md fs'] show ?thesis by (auto simp: fs_op_ok_def replied_Inr simp del: tree_step.simps)
next
  case (Write p d n off)
  with assms write_sim[OF assms(1), of p d n off fs'] show ?thesis by (auto simp: fs_op_ok_def replied_Inr simp del: tree_step.simps)
next
  case (Utimens p a b)
  with assms utimens_sim[OF assms(1), of p a b fs'] show ?thesis by (auto simp: fs_op_ok_def replied_Inr simp del: tree_step.simps)
next
  case (Rmdir p)
  with assms rmdir_sim[OF assms(1), of p fs'] show ?thesis by (auto simp: fs_op_ok_def replied_Inr simp del: tree_step.simps)
next
  case (Unlink p)
  with assms unlink_sim[OF assms(1), of p fs'] show ?thesis by (auto simp: fs_op_ok_def replied_Inr simp del: tree_step.simps)
next
  case (Truncate p n)
  with assms show ?thesis by (auto simp: fisopfs_truncate_def replied_Inr)
next
  case (Getattr p)
  with assms getattr_sim[OF assms(1), of p] show ?thesis by (auto simp: fs_op_ok_def chain_eq_Inr simp del: tree_step.simps)
next
  case (Readdir p)
  with assms readdir_sim[OF assms(1), of p] show ?thesis by (auto simp: fs_op_ok_def chain_eq_Inr simp del: tree_step.simps)
next
  case (Read p n off)
  with assms read_sim[OF assms(1), of p n off] show ?thesis by (auto simp: fs_op_ok_def chain_eq_Inr simp del: tree_step.simps)
next
  case (Open p)
  with assms open_sim[of p fs] show ?thesis by (auto simp: fs_op_ok_def simp del: tree_step.simps)
qed

interpretation fstree: simulation "fs_call cr" tree_of sim_inv tree_ok tree_step
  by unfold_locales (rule call_tree_sim)

section \<open>Properties\<close>

text \<open>C1: The file system implements the tree: for every history of the callbacks between \<^verbatim>\<open>init\<close> and
  \<^verbatim>\<open>destroy\<close> (all of the table except \<^verbatim>\<open>flush\<close>, which only saves) on the empty table, the replies - codes, attributes, names
  and bytes read - and the entries at its end are those of a run of the specification, as long as no
  callback faults and the kernel keeps its obligations: paths are non-empty strings, \<^verbatim>\<open>mkdir\<close> is asked only where nothing is and
  above no file that is there, a write brings the bytes it names, and counts and offsets of \<^verbatim>\<open>read\<close> (the count of \<^verbatim>\<open>write\<close>) are
  below \<open>2 ^ 63\<close>. The bytes written are arbitrary: what the tree holds is the text before the first zero byte, since the code
  finds a file's end with \<^verbatim>\<open>strlen\<close>, so bytes written behind a zero byte are not read back (a finding), and \<^verbatim>\<open>truncate\<close> changes
  nothing. Left open are when a full table answers \<^verbatim>\<open>ENOMEM\<close>, the text behind the end of a file that is
  written beyond its end, the order of a listing, and owner and times.\<close>

theorem fisopfs_refines_tree:
  assumes "ok_run (fs_call cr) (\<lambda>fs. tree_ok (tree_of fs)) zero_fs es"
    and "call_run (fs_call cr) zero_fs es = Inr (fs, rs)"
  shows "spec_run tree_step Map.empty es rs (tree_of fs)"
proof -
  from fstree.run_sim[OF sim_inv_zero assms] show ?thesis by simp
qed

text \<open>A history with a zero byte in what is written.\<close>

definition tree_history :: "fs_op list" where
  "tree_history = [Mkdir ''/d'' 0, Mknod ''/d/a'' 0, Write ''/d/a'' (''he'' @ [NUL] @ ''lo'') 5 0, Getattr ''/d/a'',
     Read ''/d/a'' 4096 0, Readdir ''/d'', Rmdir ''/d'', Open ''/d/a'', Unlink ''/d/a'', Rmdir ''/d'']"

definition file_stat :: stat where
  "file_stat = \<lparr>st_uid = 1000, st_mode = or S_IFREG MODE_0644, st_nlink = 1, st_size = 2, st_atime = 0, st_mtime = 0\<rparr>"

definition tree_replies :: "fs_reply list" where
  "tree_replies = [Code 0, Code 0, Code 5, Attr 0 file_stat, Bytes 2 ''he'', Names 0 [''.'', ''..'', ''a''],
     Code (- ENOTEMPTY), Code 0, Code 0, Code 0]"

lemma tree_history_ok:
  "ok_run (fs_call demo_creds) (\<lambda>fs. tree_ok (tree_of fs)) zero_fs tree_history"
proof -
  show ?thesis
    by (auto simp: tree_history_def fs_op_ok_def has_files_def split: sum.split)
qed

lemma fisopfs_refines_tree_witness:
  "\<exists>fs. spec_run tree_step Map.empty tree_history tree_replies (tree_of fs)"
proof -
  have "(case call_run (fs_call demo_creds) zero_fs tree_history of
           Inr (fs, rs) \<Rightarrow> rs = tree_replies | Inl _ \<Rightarrow> False)"
    by code_simp
  then obtain fs where "call_run (fs_call demo_creds) zero_fs tree_history = Inr (fs, tree_replies)"
    by (auto split: sum.splits)
  from fisopfs_refines_tree[OF tree_history_ok this] show ?thesis by blast
qed

end
