(* ===== verification/Klib.thy ===== *)
theory Klib
  imports Prelude
begin

unbundle bit_operations_syntax

text \<open>
  The library that the kernel and the user programs share: \<^verbatim>\<open>lib/string.c\<close>. A string argument is
  the list of the characters from the pointer to the end of its array; a loop that runs off the
  array is a fault. The block operations work on a memory of bytes.
\<close>

section \<open>Strings\<close>

fun strlen :: "char list \<Rightarrow> fault + nat" where
  "strlen [] = Inl OutOfBounds"
| "strlen (c # cs) = (if c = NUL then Inr 0 else chain (strlen cs) (\<lambda>n. Inr (Suc n)))"

fun strnlen :: "char list \<Rightarrow> nat \<Rightarrow> fault + nat" where
  "strnlen s 0 = Inr 0"
| "strnlen [] (Suc k) = Inl OutOfBounds"
| "strnlen (c # cs) (Suc k) = (if c = NUL then Inr 0 else chain (strnlen cs k) (\<lambda>n. Inr (Suc n)))"

fun strcpy :: "char list \<Rightarrow> char list \<Rightarrow> fault + char list" where
  "strcpy (d # ds) (c # cs) = (if c = NUL then Inr (NUL # ds) else chain (strcpy ds cs) (\<lambda>r. Inr (c # r)))"
| "strcpy _ _ = Inl OutOfBounds"

definition strcat :: "char list \<Rightarrow> char list \<Rightarrow> fault + char list" where
  "strcat dst src =
     chain (strlen dst) (\<lambda>len. chain (strcpy (drop len dst) src) (\<lambda>r. Inr (take len dst @ r)))"

text \<open>The source pointer stops at the terminator: the rest of \<open>dst\<close> is filled with zero bytes.\<close>

fun strncpy :: "char list \<Rightarrow> char list \<Rightarrow> nat \<Rightarrow> fault + char list" where
  "strncpy dst src 0 = Inr dst"
| "strncpy (d # ds) (c # cs) (Suc k) =
     chain (strncpy ds (if c = NUL then c # cs else cs) k) (\<lambda>r. Inr (c # r))"
| "strncpy _ _ (Suc k) = Inl OutOfBounds"

text \<open>\<^verbatim>\<open>strlcpy\<close> with \<open>size > 0\<close>: at most \<open>k = size - 1\<close> characters, then the terminator; the result is
  the number of characters copied.\<close>

fun strlcpy_loop :: "char list \<Rightarrow> char list \<Rightarrow> nat \<Rightarrow> fault + (char list \<times> nat)" where
  "strlcpy_loop (d # ds) src 0 = Inr (NUL # ds, 0)"
| "strlcpy_loop (d # ds) (c # cs) (Suc k) =
     (if c = NUL then Inr (NUL # ds, 0) else chain (strlcpy_loop ds cs k) (\<lambda>(r, n). Inr (c # r, Suc n)))"
| "strlcpy_loop _ _ _ = Inl OutOfBounds"

definition strlcpy :: "char list \<Rightarrow> char list \<Rightarrow> nat \<Rightarrow> fault + (char list \<times> nat)" where
  "strlcpy dst src sz = (if sz > 0 then strlcpy_loop dst src (sz - 1) else Inr (dst, 0))"

definition code :: "char \<Rightarrow> int" where
  "code c = of_char c"

fun strcmp :: "char list \<Rightarrow> char list \<Rightarrow> fault + int" where
  "strcmp (p # ps) (q # qs) = (if p \<noteq> NUL \<and> p = q then strcmp ps qs else Inr (code p - code q))"
| "strcmp _ _ = Inl OutOfBounds"

fun strncmp :: "char list \<Rightarrow> char list \<Rightarrow> nat \<Rightarrow> fault + int" where
  "strncmp ps qs 0 = Inr 0"
| "strncmp (p # ps) (q # qs) (Suc n) =
     (if p \<noteq> NUL \<and> p = q then strncmp ps qs n else Inr (code p - code q))"
| "strncmp _ _ (Suc n) = Inl OutOfBounds"

text \<open>The index of the character found; None is the null pointer.\<close>

fun strchr :: "char list \<Rightarrow> char \<Rightarrow> fault + nat option" where
  "strchr [] c = Inl OutOfBounds"
| "strchr (x # xs) c =
     (if x = NUL then Inr None else if x = c then Inr (Some 0)
      else chain (strchr xs c) (\<lambda>r. Inr (map_option Suc r)))"

fun strfind :: "char list \<Rightarrow> char \<Rightarrow> fault + nat" where
  "strfind [] c = Inl OutOfBounds"
| "strfind (x # xs) c =
     (if x = NUL \<or> x = c then Inr 0 else chain (strfind xs c) (\<lambda>n. Inr (Suc n)))"

section \<open>Blocks of memory\<close>

type_synonym bytes = "nat \<Rightarrow> u8"

text \<open>One turn of \<^verbatim>\<open>rep movs\<close> with units of \<open>w\<close> bytes: the unit is read, then written.\<close>

definition move_unit :: "nat \<Rightarrow> nat \<Rightarrow> nat \<Rightarrow> bytes \<Rightarrow> bytes" where
  "move_unit w d s m = (\<lambda>a. if d \<le> a \<and> a < d + w then m (s + (a - d)) else m a)"

fun rep_movs_up :: "nat \<Rightarrow> nat \<Rightarrow> nat \<Rightarrow> nat \<Rightarrow> bytes \<Rightarrow> bytes" where
  "rep_movs_up w 0 d s m = m"
| "rep_movs_up w (Suc k) d s m = rep_movs_up w k (d + w) (s + w) (move_unit w d s m)"

fun rep_movs_down :: "nat \<Rightarrow> nat \<Rightarrow> nat \<Rightarrow> nat \<Rightarrow> bytes \<Rightarrow> bytes" where
  "rep_movs_down w 0 d s m = m"
| "rep_movs_down w (Suc k) d s m = rep_movs_down w k (d - w) (s - w) (move_unit w d s m)"

text \<open>\<^verbatim>\<open>memmove\<close>: from the end when the target begins inside the source, by words when both
  addresses and the length allow it.\<close>

definition memmove :: "bytes \<Rightarrow> nat \<Rightarrow> nat \<Rightarrow> nat \<Rightarrow> bytes" where
  "memmove m dst src n =
     (if src < dst \<and> src + n > dst then
        let s = src + n; d = dst + n in
        if s mod 4 = 0 \<and> d mod 4 = 0 \<and> n mod 4 = 0
        then rep_movs_down 4 (n div 4) (d - 4) (s - 4) m
        else rep_movs_down 1 n (d - 1) (s - 1) m
      else if src mod 4 = 0 \<and> dst mod 4 = 0 \<and> n mod 4 = 0
        then rep_movs_up 4 (n div 4) dst src m
        else rep_movs_up 1 n dst src m)"

definition memcpy :: "bytes \<Rightarrow> nat \<Rightarrow> nat \<Rightarrow> nat \<Rightarrow> bytes" where
  "memcpy m dst src n = memmove m dst src n"

fun rep_stos :: "nat \<Rightarrow> u32 \<Rightarrow> nat \<Rightarrow> nat \<Rightarrow> bytes \<Rightarrow> bytes" where
  "rep_stos w v 0 p m = m"
| "rep_stos w v (Suc k) p m =
     rep_stos w v k (p + w) (\<lambda>a. if p \<le> a \<and> a < p + w then ucast (drop_bit (8 * (a - p)) v) else m a)"

definition memset :: "bytes \<Rightarrow> nat \<Rightarrow> u32 \<Rightarrow> nat \<Rightarrow> bytes" where
  "memset m v c n =
     (if n = 0 then m
      else if v mod 4 = 0 \<and> n mod 4 = 0 then
        let c1 = c AND 0xFF;
            c4 = (push_bit 24 c1) OR (push_bit 16 c1) OR (push_bit 8 c1) OR c1 in
        rep_stos 4 c4 (n div 4) v m
      else rep_stos 1 c n v m)"

fun memcmp :: "bytes \<Rightarrow> nat \<Rightarrow> nat \<Rightarrow> nat \<Rightarrow> int" where
  "memcmp m s1 s2 0 = 0"
| "memcmp m s1 s2 (Suc n) =
     (if m s1 \<noteq> m s2 then uint (m s1) - uint (m s2) else memcmp m (s1 + 1) (s2 + 1) n)"

fun memfind :: "bytes \<Rightarrow> nat \<Rightarrow> u8 \<Rightarrow> nat \<Rightarrow> nat" where
  "memfind m s c 0 = s"
| "memfind m s c (Suc n) = (if m s = c then s else memfind m (s + 1) c n)"

section \<open>Numbers\<close>

definition digit_of :: "char \<Rightarrow> int option" where
  "digit_of c =
     (if code CHR ''0'' \<le> code c \<and> code c \<le> code CHR ''9'' then Some (code c - code CHR ''0'')
      else if code CHR ''a'' \<le> code c \<and> code c \<le> code CHR ''z'' then Some (code c - code CHR ''a'' + 10)
      else if code CHR ''A'' \<le> code c \<and> code c \<le> code CHR ''Z'' then Some (code c - code CHR ''A'' + 10)
      else None)"

text \<open>The digits: the value, a 32-bit \<^verbatim>\<open>long\<close> that wraps, and the text behind them.\<close>

fun strtol_digits :: "int \<Rightarrow> u32 \<Rightarrow> char list \<Rightarrow> u32 \<times> char list" where
  "strtol_digits base val [] = (val, [])"
| "strtol_digits base val (c # cs) =
     (case digit_of c of
        None \<Rightarrow> (val, c # cs)
      | Some dig \<Rightarrow> if dig \<ge> base then (val, c # cs)
                    else strtol_digits base (val * word_of_int base + word_of_int dig) cs)"

text \<open>The string without its terminator, which is no digit and no sign.\<close>

definition strtol :: "string \<Rightarrow> int \<Rightarrow> int \<times> string" where
  "strtol s0 base0 =
     (let s1 = dropWhile (\<lambda>c. c = CHR '' '' \<or> c = CHR 0x09) s0;
          (neg, s2) = (case s1 of [] \<Rightarrow> (False, []) | c # cs \<Rightarrow>
              if c = CHR ''+'' then (False, cs) else if c = CHR ''-'' then (True, cs) else (False, c # cs));
          (base, s3) =
            (if (base0 = 0 \<or> base0 = 16) \<and> take 2 s2 = ''0x'' then (16, drop 2 s2)
             else if base0 = 0 \<and> take 1 s2 = ''0'' then (8, drop 1 s2)
             else if base0 = 0 then (10, s2) else (base0, s2));
          (val, rest) = strtol_digits base 0 s3 in
      (if neg then sint (- val) else sint val, rest))"

section \<open>\<^verbatim>\<open>memmove\<close> and \<^verbatim>\<open>memset\<close> move and fill whole blocks\<close>

definition copied :: "bytes \<Rightarrow> nat \<Rightarrow> nat \<Rightarrow> nat \<Rightarrow> bytes" where
  "copied m d s n = (\<lambda>a. if d \<le> a \<and> a < d + n then m (s + (a - d)) else m a)"

lemma rep_movs_up_eq:
  "d \<le> s \<or> s + k * w \<le> d \<Longrightarrow> rep_movs_up w k d s m = copied m d s (k * w)"
proof (induction k arbitrary: d s m)
  case (Suc k)
  have "rep_movs_up w (Suc k) d s m = copied (move_unit w d s m) (d + w) (s + w) (k * w)"
    using Suc by auto
  also have "\<dots> = copied m d s (Suc k * w)"
    using Suc.prems by (auto simp: copied_def move_unit_def fun_eq_iff intro!: arg_cong[of _ _ m])
  finally show ?case .
qed (auto simp: copied_def fun_eq_iff)

lemma rep_movs_down_eq:
  "s < d \<Longrightarrow> rep_movs_down w (Suc k) (d + k * w) (s + k * w) m = copied m d s (Suc k * w)"
proof (induction k arbitrary: m)
  case 0
  then show ?case by (simp add: copied_def move_unit_def)
next
  case (Suc k)
  let ?m = "move_unit w (d + Suc k * w) (s + Suc k * w) m"
  have "rep_movs_down w (Suc (Suc k)) (d + Suc k * w) (s + Suc k * w) m =
      rep_movs_down w (Suc k) (d + k * w) (s + k * w) ?m" by (simp add: add.commute)
  also have "\<dots> = copied ?m d s (Suc k * w)" by (rule Suc.IH[OF Suc.prems])
  also have "\<dots> = copied m d s (Suc (Suc k) * w)"
    using Suc.prems by (auto simp: copied_def move_unit_def fun_eq_iff intro!: arg_cong[of _ _ m])
  finally show ?case .
qed

lemma rep_movs_down_end:
  assumes "s < d" and "k > 0"
  shows "rep_movs_down w k (d + k * w - w) (s + k * w - w) m = copied m d s (k * w)"
proof -
  obtain j where "k = Suc j" using assms(2) by (cases k) auto
  then show ?thesis using rep_movs_down_eq[OF assms(1), of w j m] by (simp add: add.commute)
qed

lemma memmove_copied: "memmove m dst src n = copied m dst src n"
proof (cases "src < dst \<and> src + n > dst")
  case True
  show ?thesis
  proof (cases "n mod 4 = 0")
    case z: True
    then have "n div 4 * 4 = n" "n div 4 > 0" using True by auto
    with True z show ?thesis
      using rep_movs_down_end[of src dst "n div 4" 4 m] rep_movs_down_end[of src dst n 1 m]
      by (simp add: memmove_def Let_def)
  next
    case False
    with True show ?thesis
      using rep_movs_down_end[of src dst n 1 m] by (simp add: memmove_def Let_def)
  qed
next
  case False
  then have u: "dst \<le> src \<or> src + n \<le> dst" by auto
  have "n mod 4 = 0 \<Longrightarrow> n div 4 * 4 = n" by auto
  with False u show ?thesis
    using rep_movs_up_eq[of dst src "n div 4" 4 m] rep_movs_up_eq[of dst src n 1 m]
    by (auto simp: memmove_def Let_def)
qed

text \<open>C37: \<^verbatim>\<open>memmove\<close> makes the target what the source was before the call and changes no other byte,
  however the two overlap and whichever of its four
  loops runs, for blocks that do not reach past the end of memory (addresses are natural numbers here).\<close>

theorem memmove_copies:
  "memmove m dst src n a = (if dst \<le> a \<and> a < dst + n then m (src + (a - dst)) else m a)"
  by (simp add: memmove_copied copied_def)

end
