(* ===== verification/Mmu.thy ===== *)
theory Mmu
  imports Prelude
begin

unbundle bit_operations_syntax

text \<open>
  Linear addresses, page table entries and the memory map of the kernel:
  \<^verbatim>\<open>inc/mmu.h\<close>, the rounding macros of \<^verbatim>\<open>inc/types.h\<close>, the constants of
  \<^verbatim>\<open>inc/memlayout.h\<close> and the error codes of \<^verbatim>\<open>inc/error.h\<close>. Addresses and entries are 32-bit
  words; shifts and masks wrap as they do in C.
\<close>

section \<open>Addresses (\<^verbatim>\<open>inc/mmu.h\<close>)\<close>

definition PGSIZE :: u32 where "PGSIZE = 4096"
definition PGSHIFT :: nat where "PGSHIFT = 12"
definition PTXSHIFT :: nat where "PTXSHIFT = 12"
definition PDXSHIFT :: nat where "PDXSHIFT = 22"
definition NPDENTRIES :: nat where "NPDENTRIES = 1024"
definition NPTENTRIES :: nat where "NPTENTRIES = 1024"
definition PTSIZE :: u32 where "PTSIZE = 4194304"

definition PGNUM :: "u32 \<Rightarrow> u32" where "PGNUM la = drop_bit PTXSHIFT la"
definition PDX :: "u32 \<Rightarrow> u32" where "PDX la = drop_bit PDXSHIFT la AND 0x3FF"
definition PTX :: "u32 \<Rightarrow> u32" where "PTX la = drop_bit PTXSHIFT la AND 0x3FF"
definition PGOFF :: "u32 \<Rightarrow> u32" where "PGOFF la = la AND 0xFFF"
definition PGADDR :: "u32 \<Rightarrow> u32 \<Rightarrow> u32 \<Rightarrow> u32" where
  "PGADDR d t off = push_bit PDXSHIFT d OR push_bit PTXSHIFT t OR off"

definition PTE_P :: u32 where "PTE_P = 0x001"
definition PTE_W :: u32 where "PTE_W = 0x002"
definition PTE_U :: u32 where "PTE_U = 0x004"
definition PTE_PWT :: u32 where "PTE_PWT = 0x008"
definition PTE_PCD :: u32 where "PTE_PCD = 0x010"
definition PTE_A :: u32 where "PTE_A = 0x020"
definition PTE_D :: u32 where "PTE_D = 0x040"
definition PTE_PS :: u32 where "PTE_PS = 0x080"
definition PTE_G :: u32 where "PTE_G = 0x100"
definition PTE_AVAIL :: u32 where "PTE_AVAIL = 0xE00"
definition PTE_SYSCALL :: u32 where "PTE_SYSCALL = PTE_AVAIL OR PTE_P OR PTE_W OR PTE_U"
definition PTE_ADDR :: "u32 \<Rightarrow> u32" where "PTE_ADDR pte = pte AND NOT 0xFFF"

definition FL_IF :: u32 where "FL_IF = 0x200"
definition FL_RF :: u32 where "FL_RF = 0x10000"
definition FEC_PR :: u32 where "FEC_PR = 1"
definition FEC_WR :: u32 where "FEC_WR = 2"
definition FEC_U :: u32 where "FEC_U = 4"

lemmas pte_bits = PTE_P_def PTE_W_def PTE_U_def PTE_PWT_def PTE_PCD_def PTE_A_def PTE_D_def
  PTE_PS_def PTE_G_def PTE_AVAIL_def PTE_SYSCALL_def
lemmas mmu_consts = PGSIZE_def PGSHIFT_def PTXSHIFT_def PDXSHIFT_def NPDENTRIES_def NPTENTRIES_def
  PTSIZE_def

section \<open>Rounding (\<^verbatim>\<open>inc/types.h\<close>)\<close>

definition ROUNDDOWN :: "u32 \<Rightarrow> u32 \<Rightarrow> u32" where "ROUNDDOWN a n = a - a mod n"
definition ROUNDUP :: "u32 \<Rightarrow> u32 \<Rightarrow> u32" where "ROUNDUP a n = ROUNDDOWN (a + n - 1) n"

section \<open>The memory map (\<^verbatim>\<open>inc/memlayout.h\<close>)\<close>

definition GD_KT :: u16 where "GD_KT = 0x08"
definition GD_KD :: u16 where "GD_KD = 0x10"
definition GD_UT :: u16 where "GD_UT = 0x18"
definition GD_UD :: u16 where "GD_UD = 0x20"
definition GD_TSS0 :: u16 where "GD_TSS0 = 0x28"
definition KERNBASE :: u32 where "KERNBASE = 0xF0000000"
definition IOPHYSMEM :: u32 where "IOPHYSMEM = 0x0A0000"
definition EXTPHYSMEM :: u32 where "EXTPHYSMEM = 0x100000"
definition KSTACKTOP :: u32 where "KSTACKTOP = KERNBASE"
definition KSTKSIZE :: u32 where "KSTKSIZE = 8 * PGSIZE"
definition KSTKGAP :: u32 where "KSTKGAP = 8 * PGSIZE"
definition MMIOLIM :: u32 where "MMIOLIM = KSTACKTOP - PTSIZE"
definition MMIOBASE :: u32 where "MMIOBASE = MMIOLIM - PTSIZE"
definition ULIM :: u32 where "ULIM = MMIOBASE"
definition UVPT :: u32 where "UVPT = ULIM - PTSIZE"
definition UPAGES :: u32 where "UPAGES = UVPT - PTSIZE"
definition UENVS :: u32 where "UENVS = UPAGES - PTSIZE"
definition UTOP :: u32 where "UTOP = UENVS"
definition UXSTACKTOP :: u32 where "UXSTACKTOP = UTOP"
definition USTACKTOP :: u32 where "USTACKTOP = UTOP - 2 * PGSIZE"
definition UTEXT :: u32 where "UTEXT = 2 * PTSIZE"
definition UTEMP :: u32 where "UTEMP = PTSIZE"
definition PFTEMP :: u32 where "PFTEMP = UTEMP + PTSIZE - PGSIZE"
definition USTABDATA :: u32 where "USTABDATA = PTSIZE div 2"
definition MPENTRY_PADDR :: u32 where "MPENTRY_PADDR = 0x7000"

lemmas memlayout_defs = KERNBASE_def IOPHYSMEM_def EXTPHYSMEM_def KSTACKTOP_def KSTKSIZE_def KSTKGAP_def
  MMIOLIM_def MMIOBASE_def ULIM_def UVPT_def UPAGES_def UENVS_def UTOP_def UXSTACKTOP_def
  USTACKTOP_def UTEXT_def UTEMP_def PFTEMP_def USTABDATA_def MPENTRY_PADDR_def

section \<open>Error codes (\<^verbatim>\<open>inc/error.h\<close>)\<close>

definition E_UNSPECIFIED :: int where "E_UNSPECIFIED = 1"
definition E_BAD_ENV :: int where "E_BAD_ENV = 2"
definition E_INVAL :: int where "E_INVAL = 3"
definition E_NO_MEM :: int where "E_NO_MEM = 4"
definition E_NO_FREE_ENV :: int where "E_NO_FREE_ENV = 5"
definition E_FAULT :: int where "E_FAULT = 6"
definition E_IPC_NOT_RECV :: int where "E_IPC_NOT_RECV = 7"
definition E_EOF :: int where "E_EOF = 8"
definition MAXERROR :: int where "MAXERROR = 9"

lemmas error_defs = E_UNSPECIFIED_def E_BAD_ENV_def E_INVAL_def E_NO_MEM_def E_NO_FREE_ENV_def
  E_FAULT_def E_IPC_NOT_RECV_def E_EOF_def MAXERROR_def

section \<open>Arithmetic of the macros\<close>

text \<open>Reading the bit operations as division and remainder.\<close>

lemma and_mask_word: "(w :: u32) AND 0x3FF = take_bit 10 w" "w AND 0xFFF = take_bit 12 w"
  by (simp_all add: take_bit_eq_mask mask_eq_exp_minus_1)

lemma unat_u32_less: "unat (w :: u32) < 4294967296"
  using unsigned_less[of w, where ?'a = nat] by simp

lemma unat_PDX: "unat (PDX la) = unat la div 4194304"
proof -
  have "unat la div 4194304 < 1024" using unat_u32_less[of la] by (simp add: less_mult_imp_div_less)
  then show ?thesis
    by (simp add: PDX_def PDXSHIFT_def and_mask_word take_bit_eq_mod drop_bit_eq_div unat_div unat_mod)
qed

lemma unat_PTX: "unat (PTX la) = (unat la div 4096) mod 1024"
  by (simp add: PTX_def PTXSHIFT_def and_mask_word take_bit_eq_mod drop_bit_eq_div unat_div unat_mod)

lemma unat_PGOFF: "unat (PGOFF la) = unat la mod 4096"
  by (simp add: PGOFF_def and_mask_word take_bit_eq_mod unat_mod)

lemma unat_PGNUM: "unat (PGNUM la) = unat la div 4096"
  by (simp add: PGNUM_def PTXSHIFT_def drop_bit_eq_div unat_div)

lemma PTE_ADDR_eq: "PTE_ADDR e = push_bit 12 (drop_bit 12 e)"
proof -
  have "(0xFFF :: u32) = mask 12" by (simp add: mask_eq_exp_minus_1)
  then have "PTE_ADDR e = e AND NOT (mask 12)" by (simp add: PTE_ADDR_def)
  then show ?thesis by (auto intro!: bit_word_eqI simp: bit_simps)
qed

lemma unat_PTE_ADDR: "unat (PTE_ADDR e) = unat e div 4096 * 4096"
proof -
  have "unat e div 4096 * 4096 < 4294967296"
    using unat_u32_less[of e] by (meson div_times_less_eq_dividend le_less_trans)
  then show ?thesis
    by (simp add: PTE_ADDR_eq push_bit_eq_mult drop_bit_eq_div unat_word_ariths unat_div)
qed

lemma PDX_less: "unat (PDX la) < 1024"
  using unat_u32_less[of la] by (simp add: unat_PDX less_mult_imp_div_less)

lemma PTX_less: "unat (PTX la) < 1024"
  by (simp add: unat_PTX)

lemma unat_ROUNDDOWN: "unat (ROUNDDOWN a PGSIZE) = unat a div 4096 * 4096"
proof -
  have "unat a mod 4096 \<le> unat a" by simp
  then have "unat (a - a mod PGSIZE) = unat a - unat a mod 4096"
    by (subst unat_sub) (auto simp: word_le_nat_alt unat_mod PGSIZE_def)
  then show ?thesis by (simp add: ROUNDDOWN_def minus_mod_eq_div_mult)
qed

lemma unat_ROUNDUP: "unat (ROUNDUP a PGSIZE) = (unat a + 4095) mod 2 ^ 32 div 4096 * 4096"
proof -
  have "a + PGSIZE - 1 = a + 4095" by (simp add: PGSIZE_def)
  then have "unat (a + PGSIZE - 1) = (unat a + 4095) mod 2 ^ 32"
    unfolding \<open>a + PGSIZE - 1 = a + 4095\<close> by (simp add: unat_word_ariths)
  then show ?thesis by (simp add: ROUNDUP_def unat_ROUNDDOWN)
qed

text \<open>Two addresses on the same page are the ones with the same two indices.\<close>

lemma same_page_iff:
  "PDX a = PDX b \<and> PTX a = PTX b \<longleftrightarrow> PGNUM a = PGNUM b"
proof -
  have "unat a div 4194304 = unat a div 4096 div 1024" "unat b div 4194304 = unat b div 4096 div 1024"
    by (simp_all add: div_mult2_eq[symmetric])
  then have "unat (PGNUM a) = unat (PGNUM b) \<longleftrightarrow>
      unat (PDX a) = unat (PDX b) \<and> unat (PTX a) = unat (PTX b)"
    unfolding unat_PGNUM unat_PDX unat_PTX by (metis div_mult_mod_eq)
  then show ?thesis by (simp add: word_unat_eq_iff)
qed

lemma PGADDR_decompose: "PGADDR (PDX la) (PTX la) (PGOFF la) = la"
proof (rule bit_word_eqI)
  fix n
  assume "n < LENGTH(32)"
  then show "bit (PGADDR (PDX la) (PTX la) (PGOFF la)) n = bit la n"
    unfolding PGADDR_def PDX_def PTX_def PGOFF_def and_mask_word PDXSHIFT_def PTXSHIFT_def
    by (cases "n < 12"; cases "n < 22") (auto simp: bit_simps)
qed

end
