(* ===== verification/Pmap.thy ===== *)
theory Pmap
  imports Mmu
begin

unbundle bit_operations_syntax

text \<open>
  Physical pages and page tables: \<^verbatim>\<open>kern/pmap.c\<close> and the inline functions of
  \<^verbatim>\<open>kern/pmap.h\<close>. The state holds the \<^verbatim>\<open>pages\<close> array (links of the free list and reference
  counts, indexed by page number), the free list head, the contents of physical memory as
  1024 words per page frame, the static variables of the file, and the addresses handed to
  the \<^verbatim>\<open>invlpg\<close> instruction. A pointer to a page directory is the number of the frame that
  holds it, a pointer to a page table entry a frame and an index: the kernel reaches both
  through the mapping of physical memory at \<^verbatim>\<open>KERNBASE\<close>. A function that flushes the TLB
  takes the current environment (None when there is none) as its page directory.
\<close>

section \<open>State\<close>

record kmem =
  npages :: nat
  pp_link :: "nat \<Rightarrow> nat option"
  pp_ref :: "nat \<Rightarrow> u16"
  page_free_list :: "nat option"
  phys :: "nat \<Rightarrow> nat \<Rightarrow> u32"
  boot_nextfree :: u32
  mmio_base :: u32
  user_mem_check_addr :: u32
  invlpgs :: "u32 list"

type_synonym pte_ptr = "nat \<times> nat"

definition read_pte :: "kmem \<Rightarrow> pte_ptr \<Rightarrow> u32" where
  "read_pte s q = phys s (fst q) (snd q)"

definition write_pte :: "kmem \<Rightarrow> pte_ptr \<Rightarrow> u32 \<Rightarrow> kmem" where
  "write_pte s q v = s\<lparr>phys := set_cell (phys s) (fst q) (snd q) v\<rparr>"

section \<open>Address conversions (\<^verbatim>\<open>kern/pmap.h\<close>)\<close>

definition PADDR :: "u32 \<Rightarrow> fault + u32" where
  "PADDR kva = (if kva < KERNBASE then Inl (Panic ''PADDR called with invalid kva'')
                else Inr (kva - KERNBASE))"

definition KADDR :: "kmem \<Rightarrow> u32 \<Rightarrow> fault + u32" where
  "KADDR s pa = (if unat (PGNUM pa) \<ge> npages s then Inl (Panic ''KADDR called with invalid pa'')
                 else Inr (pa + KERNBASE))"

definition page2pa :: "nat \<Rightarrow> u32" where
  "page2pa pp = push_bit PGSHIFT (word_of_nat pp)"

definition pa2page :: "kmem \<Rightarrow> u32 \<Rightarrow> fault + nat" where
  "pa2page s pa = (if unat (PGNUM pa) \<ge> npages s then Inl (Panic ''pa2page called with invalid pa'')
                   else Inr (unat (PGNUM pa)))"

text \<open>The frame behind the kernel address of a physical page: \<^verbatim>\<open>KADDR (pa)\<close> as a pointer.\<close>

definition kframe :: "kmem \<Rightarrow> u32 \<Rightarrow> fault + nat" where
  "kframe s pa = chain (KADDR s pa) (\<lambda>kva. Inr (unat (PGNUM (kva - KERNBASE))))"

section \<open>The page allocator\<close>

definition zero_page :: "kmem \<Rightarrow> nat \<Rightarrow> kmem" where
  "zero_page s pp = s\<lparr>phys := (phys s)(pp := (\<lambda>_. 0))\<rparr>"

definition page_alloc :: "kmem \<Rightarrow> bool \<Rightarrow> fault + (nat option \<times> kmem)" where
  "page_alloc s alloc_zero =
     (case page_free_list s of
        None \<Rightarrow> Inr (None, s)
      | Some pp \<Rightarrow>
          let s1 = s\<lparr>page_free_list := pp_link s pp, pp_link := (pp_link s)(pp := None)\<rparr> in
          if alloc_zero
          then chain (kframe s1 (page2pa pp)) (\<lambda>f. Inr (Some pp, zero_page s1 f))
          else Inr (Some pp, s1))"

definition page_free :: "kmem \<Rightarrow> nat \<Rightarrow> fault + kmem" where
  "page_free s pp =
     (if pp_ref s pp \<noteq> 0 then Inl (Panic ''page_free: pp_ref is nonzero'')
      else if pp_link s pp \<noteq> None then Inl (Panic ''page_free: pp_link is not NULL'')
      else Inr (s\<lparr>pp_link := (pp_link s)(pp := page_free_list s), page_free_list := Some pp\<rparr>))"

definition page_decref :: "kmem \<Rightarrow> nat \<Rightarrow> fault + kmem" where
  "page_decref s pp =
     (let s1 = s\<lparr>pp_ref := (pp_ref s)(pp := pp_ref s pp - 1)\<rparr> in
      if pp_ref s1 pp = 0 then page_free s1 pp else Inr s1)"

definition incref :: "kmem \<Rightarrow> nat \<Rightarrow> kmem" where
  "incref s pp = s\<lparr>pp_ref := (pp_ref s)(pp := pp_ref s pp + 1)\<rparr>"

section \<open>Page tables\<close>

definition pgdir_walk :: "kmem \<Rightarrow> nat \<Rightarrow> u32 \<Rightarrow> bool \<Rightarrow> fault + (kmem \<times> pte_ptr option)" where
  "pgdir_walk s pgdir va create =
     (let pde = (pgdir, unat (PDX va)) in
      chain
        (if read_pte s pde = 0 \<and> create then
           chain (page_alloc s True) (\<lambda>(page, s1).
             case page of
               None \<Rightarrow> Inr s1
             | Some pp \<Rightarrow>
                 Inr (write_pte (incref s1 pp) pde (page2pa pp OR PTE_P OR PTE_W OR PTE_U)))
         else Inr s)
        (\<lambda>s2.
          if read_pte s2 pde \<noteq> 0
          then chain (kframe s2 (PTE_ADDR (read_pte s2 pde))) (\<lambda>f.
                 Inr (s2, Some (f, unat (PTX va))))
          else Inr (s2, None)))"

text \<open>The test of the source, \<^verbatim>\<open>*pte && PTE_P\<close>, holds for every entry that is not zero.\<close>

definition page_lookup :: "kmem \<Rightarrow> nat \<Rightarrow> u32 \<Rightarrow> fault + (nat \<times> pte_ptr) option" where
  "page_lookup s pgdir va =
     chain (pgdir_walk s pgdir va False) (\<lambda>(_, pte).
       case pte of
         None \<Rightarrow> Inr None
       | Some q \<Rightarrow>
           if \<not> (read_pte s q \<noteq> 0 \<and> PTE_P \<noteq> 0) then Inr None
           else chain (pa2page s (PTE_ADDR (read_pte s q))) (\<lambda>pp. Inr (Some (pp, q))))"

definition tlb_invalidate :: "nat option option \<Rightarrow> kmem \<Rightarrow> nat \<Rightarrow> u32 \<Rightarrow> kmem" where
  "tlb_invalidate cur s pgdir va =
     (if cur = None \<or> cur = Some (Some pgdir) then s\<lparr>invlpgs := invlpgs s @ [va]\<rparr> else s)"

definition page_remove :: "nat option option \<Rightarrow> kmem \<Rightarrow> nat \<Rightarrow> u32 \<Rightarrow> fault + kmem" where
  "page_remove cur s pgdir va =
     chain (pgdir_walk s pgdir va False) (\<lambda>(_, pte).
     chain (page_lookup s pgdir va) (\<lambda>found.
       let pte' = (case found of Some (_, q) \<Rightarrow> Some q | None \<Rightarrow> pte) in
       case pte' of
         None \<Rightarrow> Inr s
       | Some q \<Rightarrow>
           if \<not> (read_pte s q \<noteq> 0 \<and> PTE_P \<noteq> 0) then Inr s
           else case found of
             None \<Rightarrow> Inl NullDeref
           | Some (pp, _) \<Rightarrow>
               chain (page_decref s pp) (\<lambda>s1.
                 Inr (tlb_invalidate cur (write_pte s1 q 0) pgdir va))))"

definition page_insert ::
    "nat option option \<Rightarrow> kmem \<Rightarrow> nat \<Rightarrow> nat \<Rightarrow> u32 \<Rightarrow> u32 \<Rightarrow> fault + (kmem \<times> int)" where
  "page_insert cur s pgdir pp va perm =
     chain (pgdir_walk s pgdir va True) (\<lambda>(s1, pte).
       case pte of
         None \<Rightarrow> Inr (s1, - E_NO_MEM)
       | Some q \<Rightarrow>
           chain (page_remove cur (incref s1 pp) pgdir va) (\<lambda>s2.
             Inr (write_pte s2 q (page2pa pp OR perm OR PTE_P), 0)))"

text \<open>The kernel's own reading of a page table, used by its self-tests.\<close>

definition check_va2pa :: "kmem \<Rightarrow> nat \<Rightarrow> u32 \<Rightarrow> fault + u32" where
  "check_va2pa s pgdir va =
     (let pde = read_pte s (pgdir, unat (PDX va)) in
      if pde AND PTE_P = 0 then Inr (NOT 0)
      else if pde AND PTE_PS \<noteq> 0 then Inr (PGADDR (PDX pde) (PTX va) (PGOFF va))
      else chain (kframe s (PTE_ADDR pde)) (\<lambda>f.
             let pte = read_pte s (f, unat (PTX va)) in
             if pte AND PTE_P = 0 then Inr (NOT 0) else Inr (PTE_ADDR pte)))"

section \<open>Loops over pages\<close>

text \<open>\<^verbatim>\<open>for (a = lo; a < hi; a += PGSIZE)\<close>: the values of \<open>a\<close> in order.\<close>

definition page_steps :: "u32 \<Rightarrow> u32 \<Rightarrow> u32 list" where
  "page_steps lo hi =
     map (\<lambda>k. lo + word_of_nat k * PGSIZE) [0..<(unat hi - unat lo + 4095) div 4096]"

section \<open>Boot-time allocation and static mappings\<close>

text \<open>\<open>kend\<close> is the linker's symbol \<^verbatim>\<open>end\<close>; \<open>boot_nextfree\<close> is 0 before the first call.\<close>

definition boot_alloc :: "u32 \<Rightarrow> kmem \<Rightarrow> u32 \<Rightarrow> fault + (u32 \<times> kmem)" where
  "boot_alloc kend s n =
     (let next = (if boot_nextfree s = 0 then ROUNDUP kend PGSIZE else boot_nextfree s) in
      chain (PADDR (next + n)) (\<lambda>last.
        if last \<ge> PGSIZE * word_of_nat (npages s)
        then Inl (Panic ''boot_alloc: Not enough memory'')
        else chain (KADDR s last) (\<lambda>kva.
               Inr (next, s\<lparr>boot_nextfree := ROUNDUP kva PGSIZE\<rparr>))))"

text \<open>One round of the loop of \<^verbatim>\<open>page_init\<close>.\<close>

definition page_init_step :: "u32 \<Rightarrow> kmem \<Rightarrow> nat \<Rightarrow> fault + kmem" where
  "page_init_step kend s i =
     (let s0 = s\<lparr>pp_link := (pp_link s)(i := None)\<rparr> in
      if i = 0 then Inr s0
      else if unat (PGNUM MPENTRY_PADDR) = i then Inr s0
      else if i \<ge> unat (PGNUM IOPHYSMEM) \<and> i < unat (PGNUM EXTPHYSMEM) then Inr s0
      else chain
        (if i \<ge> unat (PGNUM EXTPHYSMEM)
         then chain (boot_alloc kend s0 0) (\<lambda>(kva, s1).
              chain (PADDR kva) (\<lambda>pa. Inr (i < unat (PGNUM pa), s1)))
         else Inr (False, s0))
        (\<lambda>(kernel_page, s1).
          if kernel_page then Inr s1
          else Inr (s1\<lparr>pp_link := (pp_link s1)(i := page_free_list s1),
                       pp_ref := (pp_ref s1)(i := 0), page_free_list := Some i\<rparr>)))"

definition page_init :: "u32 \<Rightarrow> kmem \<Rightarrow> fault + kmem" where
  "page_init kend s = run_steps (page_init_step kend) s [0..<npages s]"

text \<open>The build does not define \<^verbatim>\<open>TP1_PSE\<close>: every page gets a small mapping.\<close>

definition boot_map_step ::
    "nat option option \<Rightarrow> nat \<Rightarrow> u32 \<Rightarrow> u32 \<Rightarrow> u32 \<Rightarrow> kmem \<Rightarrow> u32 \<Rightarrow> fault + kmem" where
  "boot_map_step cur pgdir va pa perm s i =
     chain (pgdir_walk s pgdir (va + i) True) (\<lambda>(s1, pte).
     chain (page_remove cur s1 pgdir (va + i)) (\<lambda>s2.
       case pte of
         None \<Rightarrow> Inl NullDeref
       | Some q \<Rightarrow> Inr (write_pte s2 q ((pa + i) OR perm OR PTE_P))))"

definition boot_map_region ::
    "nat option option \<Rightarrow> kmem \<Rightarrow> nat \<Rightarrow> u32 \<Rightarrow> u32 \<Rightarrow> u32 \<Rightarrow> u32 \<Rightarrow> fault + kmem" where
  "boot_map_region cur s pgdir va sz pa perm =
     run_steps (boot_map_step cur pgdir va pa perm) s (page_steps 0 sz)"

definition mmio_map_region ::
    "nat option option \<Rightarrow> nat \<Rightarrow> kmem \<Rightarrow> u32 \<Rightarrow> u32 \<Rightarrow> fault + (u32 \<times> kmem)" where
  "mmio_map_region cur kern_pgdir s pa0 sz0 =
     (let pa = ROUNDDOWN pa0 PGSIZE;
          sz = ROUNDUP sz0 PGSIZE;
          perm = PTE_W OR PTE_P OR PTE_PCD OR PTE_PWT;
          base = mmio_base s in
      if base + sz \<ge> MMIOLIM then Inl (Panic ''mmio_map_region: MMIOLIMIT overflow'')
      else chain (boot_map_region cur s kern_pgdir base sz pa perm) (\<lambda>s1.
             Inr (base + sz - sz, s1\<lparr>mmio_base := base + sz\<rparr>)))"

text \<open>
  \<^verbatim>\<open>i386_detect_memory\<close>: the three sizes read from the CMOS in kilobytes, each as a low
  and a high byte; the two page counts.
\<close>

definition nvram_read :: "(nat \<Rightarrow> u32) \<Rightarrow> nat \<Rightarrow> u32" where
  "nvram_read mc r = mc r OR push_bit 8 (mc (r + 1))"

definition NVRAM_BASELO :: nat where "NVRAM_BASELO = 0x15"
definition NVRAM_EXTLO :: nat where "NVRAM_EXTLO = 0x17"
definition NVRAM_EXT16LO :: nat where "NVRAM_EXT16LO = 0x34"

definition i386_detect_memory :: "(nat \<Rightarrow> u32) \<Rightarrow> u32 \<times> u32" where
  "i386_detect_memory mc =
     (let basemem = nvram_read mc NVRAM_BASELO;
          extmem = nvram_read mc NVRAM_EXTLO;
          ext16mem = nvram_read mc NVRAM_EXT16LO * 64;
          totalmem = (if ext16mem \<noteq> 0 then 16 * 1024 + ext16mem
                      else if extmem \<noteq> 0 then 1 * 1024 + extmem else basemem) in
      (totalmem div (PGSIZE div 1024), basemem div (PGSIZE div 1024)))"

definition NCPU :: nat where "NCPU = 8"
definition NENV :: nat where "NENV = 1024"

definition sizeof_PageInfo :: u32 where "sizeof_PageInfo = 8"

section \<open>Checking user memory\<close>

fun user_mem_loop :: "kmem \<Rightarrow> nat \<Rightarrow> u32 \<Rightarrow> u32 \<Rightarrow> u32 list \<Rightarrow> fault + (kmem \<times> int)" where
  "user_mem_loop s pgdir va_lo perm [] = Inr (s, 0)"
| "user_mem_loop s pgdir va_lo perm (a # as) =
     chain (pgdir_walk s pgdir a False) (\<lambda>(_, pte).
       if (case pte of None \<Rightarrow> True
           | Some q \<Rightarrow> read_pte s q AND (perm OR PTE_P) \<noteq> perm OR PTE_P)
       then Inr (s\<lparr>user_mem_check_addr := (if a > va_lo then a else va_lo)\<rparr>, - E_FAULT)
       else user_mem_loop s pgdir va_lo perm as)"

definition user_mem_check :: "kmem \<Rightarrow> nat \<Rightarrow> u32 \<Rightarrow> u32 \<Rightarrow> u32 \<Rightarrow> fault + (kmem \<times> int)" where
  "user_mem_check s pgdir va len perm =
     (let va_lo = va; va_hi = ROUNDUP (va + len) PGSIZE in
      if va_hi > UTOP then Inr (s\<lparr>user_mem_check_addr := va_lo\<rparr>, - E_FAULT)
      else user_mem_loop s pgdir va_lo perm (page_steps (ROUNDDOWN va_lo PGSIZE) va_hi))"

end
