(* ===== verification/Kdebug.thy ===== *)
theory Kdebug
  imports Klib Pmap "HOL-Library.Signed_Division"
begin

text \<open>
  The kernel's symbol lookup, \<^verbatim>\<open>kern/kdebug.c\<close>: a binary search over the table of STABS entries and
  the description of an instruction address built from four such searches. An index outside the
  table is a fault; indices are C integers, which a table never makes overflow.
\<close>

section \<open>Tables (\<^verbatim>\<open>inc/stab.h\<close>)\<close>

record stab =
  n_strx :: u32
  n_type :: u8
  n_other :: u8
  n_desc :: u16
  n_value :: u32

definition N_FUN :: u8 where "N_FUN = 0x24"
definition N_SLINE :: u8 where "N_SLINE = 0x44"
definition N_SO :: u8 where "N_SO = 0x64"
definition N_SOL :: u8 where "N_SOL = 0x84"
definition N_PSYM :: u8 where "N_PSYM = 0xa0"

definition stab_at :: "stab list \<Rightarrow> int \<Rightarrow> fault + stab" where
  "stab_at stabs i =
     (if 0 \<le> i \<and> i < int (length stabs) then Inr (stabs ! nat i) else Inl OutOfBounds)"

lemma stab_at_in [simp]:
  "0 \<le> i \<Longrightarrow> i < int (length stabs) \<Longrightarrow> stab_at stabs i = Inr (stabs ! nat i)"
  by (simp add: stab_at_def)

section \<open>The binary search\<close>

text \<open>The loops that walk down to the nearest entry of a type: the first stops below \<open>l\<close>, the
  second at \<open>l\<close>.\<close>

function walk_down :: "stab list \<Rightarrow> u8 \<Rightarrow> int \<Rightarrow> int \<Rightarrow> fault + int" where
  "walk_down stabs type l m =
     (if m < l then Inr m
      else chain (stab_at stabs m) (\<lambda>s. if n_type s = type then Inr m else walk_down stabs type l (m - 1)))"
  by pat_completeness auto
termination by (relation "measure (\<lambda>(_, _, l, m). nat (m - l + 1))") auto

lemma walk_down_le: "walk_down stabs type l m0 = Inr m \<Longrightarrow> m \<le> m0"
proof (induction stabs type l m0 rule: walk_down.induct)
  case (1 stabs type l m0)
  show ?case
  proof (cases "m0 < l")
    case True
    with 1(2) show ?thesis by simp
  next
    case False
    from 1(2) obtain s where s: "stab_at stabs m0 = Inr s"
      "(if n_type s = type then Inr m0 else walk_down stabs type l (m0 - 1)) = (Inr m :: fault + int)"
      unfolding walk_down.simps[of stabs type l m0] using False by (auto simp: chain_eq_Inr)
    with 1(1)[OF False s(1)] show ?thesis by (cases "n_type s = type") auto
  qed
qed

declare walk_down.simps [simp del]

lemma halfway:
  fixes l r :: int
  assumes "l \<le> r"
  shows "l \<le> (l + r) sdiv 2 \<and> (l + r) sdiv 2 \<le> r"
  using assms by (auto simp: signed_divide_int_eq_divide_int of_bool_def sgn_if split: if_splits) presburger+

text \<open>The main loop. An exact match of the entry at \<open>l\<close> leaves the range as it is, but moves the
  address: it cannot match there again.\<close>

record search =
  any_matches :: bool
  region_left :: int
  region_right :: int

definition at_addr :: "stab list \<Rightarrow> int \<Rightarrow> u32 \<Rightarrow> bool" where
  "at_addr stabs l addr \<longleftrightarrow> (\<exists>s. stab_at stabs l = Inr s \<and> n_value s = addr)"

lemma search_exact_step:
  assumes "stab_at stabs m = Inr st" and "n_value st = addr" and "l \<le> m" and "m \<le> r"
  shows "nat (r - m + 1) < nat (r - l + 1) \<or>
    nat (r - m + 1) = nat (r - l + 1) \<and> \<not> at_addr stabs m (addr + 1) \<and> at_addr stabs l addr"
  using assms by (cases "m = l") (auto simp: at_addr_def)

function search_loop ::
    "stab list \<Rightarrow> u8 \<Rightarrow> int \<Rightarrow> int \<Rightarrow> u32 \<Rightarrow> search \<Rightarrow> fault + search" where
  "search_loop stabs type l r addr s =
     (if l > r then Inr s
      else let true_m = (l + r) sdiv 2 in
        chain (walk_down stabs type l true_m) (\<lambda>m.
          if m < l then search_loop stabs type (true_m + 1) r addr s
          else chain (stab_at stabs m) (\<lambda>st.
            if n_value st < addr then
              search_loop stabs type (true_m + 1) r addr (s\<lparr>any_matches := True, region_left := m\<rparr>)
            else if n_value st > addr then
              search_loop stabs type l (m - 1) addr (s\<lparr>any_matches := True, region_right := m - 1\<rparr>)
            else
              search_loop stabs type m r (addr + 1) (s\<lparr>any_matches := True, region_left := m\<rparr>))))"
  by pat_completeness auto

termination
proof (relation "inv_image (less_than <*lex*> less_than)
    (\<lambda>(stabs, type, l, r, addr, s). (nat (r - l + 1), if at_addr stabs l addr then (1::nat) else 0))")
  fix stabs type l r addr and s :: search and x m st
  assume g: "\<not> r < l" "x = (l + r) sdiv 2" "walk_down stabs type l x = Inr m"
  from g(1) halfway[of l r] have x: "l \<le> x" "x \<le> r" unfolding g(2) by auto
  have m: "m \<le> x" by (rule walk_down_le[OF g(3)])
  let ?R = "inv_image (less_than <*lex*> less_than)
    (\<lambda>(stabs, type, l, r, addr, s :: search). (nat (r - l + 1), if at_addr stabs l addr then (1::nat) else 0))"
  show "((stabs, type, x + 1, r, addr, s), stabs, type, l, r, addr, s) \<in> ?R"
    "((stabs, type, x + 1, r, addr, s\<lparr>any_matches := True, region_left := m\<rparr>), stabs, type, l, r, addr, s) \<in> ?R"
    using x by auto
  assume ml: "\<not> m < l" and st: "stab_at stabs m = Inr st"
  show "((stabs, type, l, m - 1, addr, s\<lparr>any_matches := True, region_right := m - 1\<rparr>), stabs, type, l, r, addr, s) \<in> ?R"
    using x m ml by auto
  assume "\<not> n_value st < addr" "\<not> addr < n_value st"
  then have "n_value st = addr" by simp
  from search_exact_step[OF st this, of l r] ml m x
  show "((stabs, type, m, r, addr + 1, s\<lparr>any_matches := True, region_left := m\<rparr>), stabs, type, l, r, addr, s) \<in> ?R"
    by auto
qed (simp add: wf_lex_prod)

declare search_loop.simps [simp del]

text \<open>The values that \<^verbatim>\<open>*region_left\<close> and \<^verbatim>\<open>*region_right\<close> get.\<close>

definition stab_binsearch :: "stab list \<Rightarrow> int \<Rightarrow> int \<Rightarrow> u8 \<Rightarrow> u32 \<Rightarrow> fault + (int \<times> int)" where
  "stab_binsearch stabs left right type addr =
     chain (search_loop stabs type left right addr
              \<lparr>any_matches = False, region_left = left, region_right = right\<rparr>) (\<lambda>s.
       if \<not> any_matches s then Inr (region_left s, region_left s - 1)
       else chain (walk_down stabs type (region_left s + 1) (region_right s)) (\<lambda>l.
         Inr (l, region_right s)))"

section \<open>Describing an address\<close>

text \<open>A pointer into a string table is the list of the characters from there on. The addresses of
  the tables matter for the check of user memory only.\<close>

record symtab =
  stabs_addr :: u32
  stabs_of :: "stab list"
  stabstr_addr :: u32
  stabstr_of :: "char list"

record eipinfo =
  eip_file :: "char list"
  eip_line :: int
  eip_fn_name :: "char list"
  eip_fn_namelen :: int
  eip_fn_addr :: u32
  eip_fn_narg :: int

definition no_info :: "u32 \<Rightarrow> eipinfo" where
  "no_info addr =
     \<lparr>eip_file = ''<unknown>'' @ [NUL], eip_line = 0, eip_fn_name = ''<unknown>'' @ [NUL],
      eip_fn_namelen = 9, eip_fn_addr = addr, eip_fn_narg = 0\<rparr>"

text \<open>The string an entry names, unless the offset is outside the table.\<close>

definition stab_name :: "symtab \<Rightarrow> stab \<Rightarrow> char list \<Rightarrow> char list" where
  "stab_name t s old =
     (if unat (n_strx s) < length (stabstr_of t) then drop (unat (n_strx s)) (stabstr_of t) else old)"

function walk_file :: "stab list \<Rightarrow> int \<Rightarrow> int \<Rightarrow> fault + int" where
  "walk_file stabs lfile lline =
     (if lline < lfile then Inr lline
      else chain (stab_at stabs lline) (\<lambda>s.
        if n_type s \<noteq> N_SOL \<and> (n_type s \<noteq> N_SO \<or> n_value s = 0)
        then walk_file stabs lfile (lline - 1) else Inr lline))"
  by pat_completeness auto
termination by (relation "measure (\<lambda>(_, lfile, lline). nat (lline - lfile + 1))") auto

function count_params :: "stab list \<Rightarrow> int \<Rightarrow> int \<Rightarrow> fault + int" where
  "count_params stabs rfun lline =
     (if lline < rfun then
        chain (stab_at stabs lline) (\<lambda>s.
          if n_type s = N_PSYM then chain (count_params stabs rfun (lline + 1)) (\<lambda>n. Inr (n + 1))
          else Inr 0)
      else Inr 0)"
  by pat_completeness auto
termination by (relation "measure (\<lambda>(_, rfun, lline). nat (rfun - lline))") auto

declare walk_file.simps [simp del] count_params.simps [simp del]

text \<open>The function around the address: its name and start, the address within it, and the range of
  entries in which the line is searched.\<close>

definition find_function ::
    "symtab \<Rightarrow> int \<Rightarrow> int \<Rightarrow> int \<Rightarrow> int \<Rightarrow> u32 \<Rightarrow> eipinfo \<Rightarrow> fault + (eipinfo \<times> u32 \<times> int \<times> int)" where
  "find_function t lfile rfile lfun rfun addr info =
     (if lfun \<le> rfun then
        chain (stab_at (stabs_of t) lfun) (\<lambda>s.
          Inr (info\<lparr>eip_fn_name := stab_name t s (eip_fn_name info), eip_fn_addr := n_value s\<rparr>,
               addr - n_value s, lfun, rfun))
      else Inr (info\<lparr>eip_fn_addr := addr\<rparr>, addr, lfile, rfile))"

definition find_line :: "symtab \<Rightarrow> int \<Rightarrow> int \<Rightarrow> u32 \<Rightarrow> eipinfo \<Rightarrow> fault + (eipinfo \<times> int)" where
  "find_line t lline0 rline0 addr info =
     chain (stab_binsearch (stabs_of t) lline0 rline0 N_SLINE addr) (\<lambda>(lline, rline).
       if lline \<le> rline then
         chain (stab_at (stabs_of t) lline) (\<lambda>s. Inr (info\<lparr>eip_line := uint (n_desc s)\<rparr>, lline))
       else Inr (info, lline))"

definition find_file :: "symtab \<Rightarrow> int \<Rightarrow> int \<Rightarrow> eipinfo \<Rightarrow> fault + eipinfo" where
  "find_file t lfile lline0 info =
     chain (walk_file (stabs_of t) lfile lline0) (\<lambda>lline.
       if lline \<ge> lfile then
         chain (stab_at (stabs_of t) lline) (\<lambda>s. Inr (info\<lparr>eip_file := stab_name t s (eip_file info)\<rparr>))
       else Inr info)"

definition lookup_eip :: "symtab \<Rightarrow> u32 \<Rightarrow> eipinfo \<Rightarrow> fault + (int \<times> eipinfo)" where
  "lookup_eip t addr info =
     (let stabs = stabs_of t in
      if stabstr_of t = [] \<or> last (stabstr_of t) \<noteq> NUL then Inr (-1, info)
      else chain (stab_binsearch stabs 0 (int (length stabs) - 1) N_SO addr) (\<lambda>(lfile, rfile).
        if lfile = 0 then Inr (-1, info)
        else chain (stab_binsearch stabs lfile rfile N_FUN addr) (\<lambda>(lfun, rfun).
        chain (find_function t lfile rfile lfun rfun addr info) (\<lambda>(info1, addr1, lline0, rline0).
        chain (strfind (eip_fn_name info1) (CHR '':'')) (\<lambda>n.
        chain (find_line t lline0 rline0 addr1 (info1\<lparr>eip_fn_namelen := int n\<rparr>)) (\<lambda>(info2, lline).
        chain (find_file t lfile lline info2) (\<lambda>info3.
          if lfun < rfun then
            chain (count_params stabs rfun (lfun + 1)) (\<lambda>narg. Inr (0, info3\<lparr>eip_fn_narg := narg\<rparr>))
          else Inr (0, info3))))))))"

text \<open>The kernel's tables come from the linker, the user's from the pointers at \<^verbatim>\<open>USTABDATA\<close>. The size
  that is checked for the table is the number of its entries, a difference of pointers.\<close>

definition debuginfo_eip ::
    "kmem \<Rightarrow> nat \<Rightarrow> symtab \<Rightarrow> symtab \<Rightarrow> u32 \<Rightarrow> fault + (kmem \<times> int \<times> eipinfo)" where
  "debuginfo_eip m pgdir kern user addr =
     (let info = no_info addr in
      if addr \<ge> ULIM then chain (lookup_eip kern addr info) (\<lambda>(r, i). Inr (m, r, i))
      else chain (user_mem_check m pgdir USTABDATA 16 0) (\<lambda>(m1, r1).
        if r1 \<noteq> 0 then Inr (m1, -1, info)
        else chain (user_mem_check m1 pgdir (stabs_addr user) (word_of_nat (length (stabs_of user))) 0) (\<lambda>(m2, r2).
        if r2 \<noteq> 0 then Inr (m2, -1, info)
        else chain (user_mem_check m2 pgdir (stabstr_addr user) (word_of_nat (length (stabstr_of user))) 0) (\<lambda>(m3, r3).
        if r3 \<noteq> 0 then Inr (m3, -1, info)
        else chain (lookup_eip user addr info) (\<lambda>(r, i). Inr (m3, r, i))))))"

section \<open>The search against a linear scan\<close>

text \<open>The indices of the entries of a type, and the region a scan of them gives: from the last one
  that is not above the address up to the next one.\<close>

definition of_type :: "stab list \<Rightarrow> u8 \<Rightarrow> int \<Rightarrow> bool" where
  "of_type stabs type i \<longleftrightarrow> n_type (stabs ! nat i) = type"

abbreviation addr_of :: "stab list \<Rightarrow> int \<Rightarrow> u32" where
  "addr_of stabs i \<equiv> n_value (stabs ! nat i)"

definition stab_scan :: "stab list \<Rightarrow> int \<Rightarrow> int \<Rightarrow> u8 \<Rightarrow> u32 \<Rightarrow> int \<times> int" where
  "stab_scan stabs left right type addr =
     (let es = filter (of_type stabs type) [left..right];
          lo = filter (\<lambda>i. addr_of stabs i \<le> addr) es; hi = filter (\<lambda>i. addr < addr_of stabs i) es;
          stop = (if hi = [] then right else hd hi - 1) in
      if es = [] then (left, left - 1) else (if lo = [] then min left stop else last lo, stop))"

lemma upto_append: "l \<le> m + 1 \<Longrightarrow> m \<le> r \<Longrightarrow> [l..r] = [l..m] @ [m + 1..r]" for l m r :: int
proof (cases "l \<le> m")
  case True
  then show "m \<le> r \<Longrightarrow> [l..r] = [l..m] @ [m + 1..r]" by (rule upto_split2)
next
  case False
  then have "l = m + 1" if "l \<le> m + 1" using that by simp
  then show "l \<le> m + 1 \<Longrightarrow> [l..r] = [l..m] @ [m + 1..r]" by simp
qed

lemma walk_down_last:
  assumes "0 \<le> l" and "m < int (length stabs)"
  shows "walk_down stabs type l m =
    Inr (if filter (of_type stabs type) [l..m] = [] then min m (l - 1) else last (filter (of_type stabs type) [l..m]))"
  using assms
proof (induction "nat (m - l + 1)" arbitrary: m)
  case 0
  then have "m < l" by simp
  then show ?case by (subst walk_down.simps) simp
next
  case (Suc n)
  then have lm: "l \<le> m" "0 \<le> m" by simp_all
  have up: "[l..m] = [l..m - 1] @ [m]" using lm by (simp add: upto_rec2)
  have wd: "walk_down stabs type l m =
      (if of_type stabs type m then Inr m else walk_down stabs type l (m - 1))"
    using lm Suc.prems by (subst walk_down.simps) (simp add: of_type_def)
  show ?case
  proof (cases "of_type stabs type m")
    case True
    then show ?thesis by (simp add: wd up)
  next
    case False
    have "walk_down stabs type l (m - 1) = Inr (if filter (of_type stabs type) [l..m - 1] = []
        then min (m - 1) (l - 1) else last (filter (of_type stabs type) [l..m - 1]))"
      by (rule Suc.hyps(1)) (use Suc.hyps(2) Suc.prems in auto)
    with False lm show ?thesis by (auto simp: wd up)
  qed
qed

text \<open>The table is ordered within a type, and the address above the one asked for does not occur:
  after an exact match the search goes on for it.\<close>

definition ordered_type :: "stab list \<Rightarrow> u8 \<Rightarrow> int \<Rightarrow> int \<Rightarrow> bool" where
  "ordered_type stabs type left right \<longleftrightarrow>
     (\<forall>i\<in>{left..right}. \<forall>j\<in>{left..right}. i < j \<and> of_type stabs type i \<and> of_type stabs type j \<longrightarrow>
        addr_of stabs i \<le> addr_of stabs j)"

definition absent :: "stab list \<Rightarrow> u8 \<Rightarrow> int \<Rightarrow> int \<Rightarrow> u32 \<Rightarrow> bool" where
  "absent stabs type left right a \<longleftrightarrow>
     (\<forall>i\<in>{left..right}. of_type stabs type i \<longrightarrow> addr_of stabs i \<noteq> a)"

definition search_inv ::
    "stab list \<Rightarrow> u8 \<Rightarrow> int \<Rightarrow> int \<Rightarrow> u32 \<Rightarrow> int \<Rightarrow> int \<Rightarrow> u32 \<Rightarrow> search \<Rightarrow> bool" where
  "search_inv stabs type left right a l r addr s \<longleftrightarrow>
     left \<le> l \<and> l \<le> r + 1 \<and> r \<le> right \<and> region_right s = r \<and> (addr = a \<or> addr = a + 1)
     \<and> (\<forall>i. left \<le> i \<and> i < l \<and> of_type stabs type i \<longrightarrow> addr_of stabs i \<le> a)
     \<and> (\<forall>i. r < i \<and> i \<le> right \<and> of_type stabs type i \<longrightarrow> a < addr_of stabs i)
     \<and> (r = right \<or> of_type stabs type (r + 1))
     \<and> (region_left s = left \<or> left \<le> region_left s \<and> region_left s \<le> right
          \<and> of_type stabs type (region_left s) \<and> addr_of stabs (region_left s) \<le> a)
     \<and> (if any_matches s then \<exists>i. left \<le> i \<and> i \<le> right \<and> of_type stabs type i
        else region_left s = left \<and> r = right \<and> (\<forall>i. left \<le> i \<and> i < l \<longrightarrow> \<not> of_type stabs type i))"

lemma below_next:
  fixes a x :: u32
  assumes "a < a + 1"
  shows "x < a + 1 \<longleftrightarrow> x \<le> a"
proof -
  have "unat (a + 1) = Suc (unat a)"
    using assms by (auto simp: word_less_nat_alt unat_word_ariths mod_Suc split: if_splits)
  then show ?thesis by (simp add: word_less_nat_alt word_le_nat_alt less_Suc_eq_le)
qed

lemma ordered_typeD:
  "ordered_type stabs type left right \<Longrightarrow> left \<le> i \<Longrightarrow> i \<le> j \<Longrightarrow> j \<le> right \<Longrightarrow>
     of_type stabs type i \<Longrightarrow> of_type stabs type j \<Longrightarrow> addr_of stabs i \<le> addr_of stabs j"
  unfolding ordered_type_def by (cases "i = j") auto

lemma walk_down_found:
  assumes "walk_down stabs type l x = Inr m" and "0 \<le> l" and "x < int (length stabs)" and "l \<le> x"
  shows "m \<le> x" and "l \<le> m \<Longrightarrow> of_type stabs type m"
    and "\<And>i. m < i \<Longrightarrow> l \<le> i \<Longrightarrow> i \<le> x \<Longrightarrow> \<not> of_type stabs type i"
proof -
  let ?f = "filter (of_type stabs type) [l..x]"
  have m: "m = (if ?f = [] then min x (l - 1) else last ?f)"
    using assms walk_down_last[OF assms(2,3), of type] by simp
  show "m \<le> x" by (rule walk_down_le[OF assms(1)])
  show "of_type stabs type m" if "l \<le> m"
  proof -
    from that m assms(4) have "?f \<noteq> []" by (auto split: if_splits)
    then have "last ?f \<in> set ?f" by (rule last_in_set)
    with m \<open>?f \<noteq> []\<close> show ?thesis by simp
  qed
  show "\<not> of_type stabs type i" if i: "m < i" "l \<le> i" "i \<le> x" for i
  proof
    assume t: "of_type stabs type i"
    have "[l..x] = [l..i - 1] @ i # [i + 1..x]" using i by (simp add: upto_split3)
    with t have f: "?f = filter (of_type stabs type) [l..i - 1] @ i # filter (of_type stabs type) [i + 1..x]"
      by simp
    then have "last ?f = last (i # filter (of_type stabs type) [i + 1..x])" by simp
    also have "\<dots> \<in> set (i # filter (of_type stabs type) [i + 1..x])" by (rule last_in_set) simp
    finally have "i \<le> last ?f" by auto
    with f m have "i \<le> m" by simp
    with i show False by simp
  qed
qed

text \<open>One turn of the loop keeps the invariant, on each of its four branches.\<close>

lemma inv_skip:
  assumes inv: "search_inv stabs type left right a l r addr s" and x: "l \<le> x" "x \<le> r"
    and none: "\<And>i. l \<le> i \<Longrightarrow> i \<le> x \<Longrightarrow> \<not> of_type stabs type i"
  shows "search_inv stabs type left right a (x + 1) r addr s"
proof -
  have "i < l" if "i < x + 1" "of_type stabs type i" for i
    using none[of i] that by (cases "i < l") auto
  then show ?thesis using inv x unfolding search_inv_def
    by (smt (verit, best))
qed

lemma search_invD:
  assumes "search_inv stabs type left right a l r addr s"
  shows "left \<le> l" "l \<le> r + 1" "r \<le> right" "region_right s = r" "addr = a \<or> addr = a + 1"
    "\<forall>i. left \<le> i \<and> i < l \<and> of_type stabs type i \<longrightarrow> addr_of stabs i \<le> a"
    "\<forall>i. r < i \<and> i \<le> right \<and> of_type stabs type i \<longrightarrow> a < addr_of stabs i"
    "r = right \<or> of_type stabs type (r + 1)"
    "region_left s = left \<or> left \<le> region_left s \<and> region_left s \<le> right
       \<and> of_type stabs type (region_left s) \<and> addr_of stabs (region_left s) \<le> a"
  using assms unfolding search_inv_def by blast+

lemma inv_low:
  assumes inv: "search_inv stabs type left right a l r addr s" and x: "l \<le> m" "m \<le> x" "x \<le> r"
    and none: "\<And>i. m < i \<Longrightarrow> i \<le> x \<Longrightarrow> \<not> of_type stabs type i"
    and m: "of_type stabs type m" "addr_of stabs m \<le> a" and ord: "ordered_type stabs type left right"
  shows "search_inv stabs type left right a (x + 1) r addr (s\<lparr>any_matches := True, region_left := m\<rparr>)"
proof -
  have b: "left \<le> m" "m \<le> right" using inv x unfolding search_inv_def by auto
  then have ex: "\<exists>i. left \<le> i \<and> i \<le> right \<and> of_type stabs type i" using m by blast
  have "addr_of stabs i \<le> a" if "left \<le> i" "i < x + 1" "of_type stabs type i" for i
  proof -
    have "i \<le> m" using none[of i] that by (cases "i \<le> m") auto
    from ordered_typeD[OF ord that(1) this b(2) that(3) m(1)] m(2) show ?thesis by simp
  qed
  then show ?thesis using search_invD[OF inv] x m b ex by (simp add: search_inv_def)
qed

lemma inv_high:
  assumes inv: "search_inv stabs type left right a l r addr s" and x: "l \<le> m" "m \<le> r"
    and m: "of_type stabs type m" "a < addr_of stabs m" and ord: "ordered_type stabs type left right"
  shows "search_inv stabs type left right a l (m - 1) addr (s\<lparr>any_matches := True, region_right := m - 1\<rparr>)"
proof -
  have b: "left \<le> m" "m \<le> right" using inv x unfolding search_inv_def by auto
  then have ex: "\<exists>i. left \<le> i \<and> i \<le> right \<and> of_type stabs type i" using m by blast
  have "a < addr_of stabs i" if "m - 1 < i" "i \<le> right" "of_type stabs type i" for i
    using ordered_typeD[OF ord b(1) _ that(2) m(1) that(3)] m(2) that(1) by force
  then show ?thesis using search_invD[OF inv] x m b ex by (simp add: search_inv_def)
qed

lemma inv_exact:
  assumes inv: "search_inv stabs type left right a l r addr s" and x: "l \<le> m" "m \<le> r"
    and m: "of_type stabs type m" "addr_of stabs m \<le> a" and ord: "ordered_type stabs type left right"
  shows "search_inv stabs type left right a m r (a + 1) (s\<lparr>any_matches := True, region_left := m\<rparr>)"
proof -
  have b: "left \<le> m" "m \<le> right" using inv x unfolding search_inv_def by auto
  then have ex: "\<exists>i. left \<le> i \<and> i \<le> right \<and> of_type stabs type i" using m by blast
  have "addr_of stabs i \<le> a" if "left \<le> i" "i < m" "of_type stabs type i" for i
    using ordered_typeD[OF ord that(1) _ b(2) that(3) m(1)] m(2) that(2) by force
  then show ?thesis using search_invD[OF inv] x m b ex by (simp add: search_inv_def)
qed

lemma search_loop_inv:
  assumes "0 \<le> left" and "right < int (length stabs)"
    and ord: "ordered_type stabs type left right" and "a < a + 1" and "absent stabs type left right (a + 1)"
    and "search_inv stabs type left right a l r addr s"
  shows "\<exists>s' addr'. search_loop stabs type l r addr s = Inr s'
    \<and> search_inv stabs type left right a (region_right s' + 1) (region_right s') addr' s'"
  using assms
proof (induction stabs type l r addr s rule: search_loop.induct)
  case (1 stabs type l r addr s)
  note inv = 1(10)
  show ?case
  proof (cases "r < l")
    case True
    with inv have "l = region_right s + 1" "region_right s = r" by (auto simp: search_inv_def)
    with True inv show ?thesis
      by (subst search_loop.simps) auto
  next
    case False
    define x where "x = (l + r) sdiv 2"
    from False halfway[of l r] have x: "l \<le> x" "x \<le> r" unfolding x_def by auto
    have lx: "0 \<le> l" "x < int (length stabs)" "r \<le> right" "left \<le> l" "addr = a \<or> addr = a + 1"
      using inv 1(5,6) x unfolding search_inv_def by auto
    obtain m where wd: "walk_down stabs type l x = Inr m" using walk_down_last[OF lx(1,2)] by blast
    note w = walk_down_found[OF wd lx(1,2) x(1)]
    note step = search_loop.simps[of stabs type l r addr s, folded x_def, unfolded wd chain_Inr Let_def]
    show ?thesis
    proof (cases "m < l")
      case True
      with False have eq: "search_loop stabs type l r addr s = search_loop stabs type (x + 1) r addr s"
        by (simp add: step)
      have "search_inv stabs type left right a (x + 1) r addr s"
        by (rule inv_skip[OF inv x]) (use w(3) True in auto)
      from 1(1)[OF False x_def wd True 1(5-9) this] show ?thesis by (simp only: eq)
    next
      case ml: False
      have mb: "0 \<le> m" "m < int (length stabs)" "m \<le> right" "left \<le> m" "l \<le> m" "m \<le> r"
        using ml lx w(1) x by auto
      have st: "stab_at stabs m = Inr (stabs ! nat m)" using mb by simp
      have tm: "of_type stabs type m" using w(2) ml by simp
      have na: "addr_of stabs m \<noteq> a + 1" using 1(9) mb tm by (auto simp: absent_def)
      note step = step[unfolded st chain_Inr]
      consider "addr_of stabs m < addr" | "\<not> addr_of stabs m < addr" "addr < addr_of stabs m"
        | "\<not> addr_of stabs m < addr" "\<not> addr < addr_of stabs m" by blast
      then show ?thesis
      proof cases
        case lo: 1
        with lx(5) have "addr_of stabs m \<le> a"
          by (metis below_next[OF 1(8)] order_less_imp_le)
        then have "search_inv stabs type left right a (x + 1) r addr (s\<lparr>any_matches := True, region_left := m\<rparr>)"
          using w ml tm x by (intro inv_low[OF inv] 1(7)) auto
        from 1(2)[OF False x_def wd ml st lo 1(5-9) this] lo ml False show ?thesis
          by (simp only: step if_False if_True)
      next
        case hi: 2
        with lx(5) 1(8) have "a < addr_of stabs m" by (metis order_less_trans)
        then have "search_inv stabs type left right a l (m - 1) addr (s\<lparr>any_matches := True, region_right := m - 1\<rparr>)"
          using mb tm by (intro inv_high[OF inv] 1(7)) auto
        from 1(3)[OF False x_def wd ml st hi 1(5-9) this] hi ml False show ?thesis
          by (simp only: step if_False if_True)
      next
        case ex: 3
        then have "addr_of stabs m = addr" by simp
        with na lx(5) have aa: "addr = a" "addr_of stabs m \<le> a" by auto
        then have "search_inv stabs type left right a m r (addr + 1) (s\<lparr>any_matches := True, region_left := m\<rparr>)"
          unfolding aa(1) using mb tm by (intro inv_exact[OF inv] 1(7)) auto
        from 1(4)[OF False x_def wd ml st ex 1(5-9) this] ex ml False show ?thesis
          by (simp only: step if_False)
      qed
    qed
  qed
qed

lemma filter_split:
  assumes "\<And>i. i \<in> set is \<Longrightarrow> P i \<Longrightarrow> Q i" and "\<And>i. i \<in> set js \<Longrightarrow> P i \<Longrightarrow> \<not> Q i"
  shows "filter Q (filter P (is @ js)) = filter P is"
    and "filter (\<lambda>i. \<not> Q i) (filter P (is @ js)) = filter P js"
proof -
  have "filter Q (filter P is) = filter P is" "filter (\<lambda>i. \<not> Q i) (filter P js) = filter P js"
    unfolding filter_id_conv using assms by simp_all
  moreover have "filter Q (filter P js) = []" "filter (\<lambda>i. \<not> Q i) (filter P is) = []"
    unfolding filter_empty_conv using assms by simp_all
  ultimately show "filter Q (filter P (is @ js)) = filter P is"
    "filter (\<lambda>i. \<not> Q i) (filter P (is @ js)) = filter P js" by simp_all
qed

text \<open>What the scan gives, when the entries up to \<open>r\<close> are those not above the address.\<close>

lemma scan_region:
  assumes inv: "search_inv stabs type left right a (r + 1) r addr s"
    and any: "\<exists>i. left \<le> i \<and> i \<le> right \<and> of_type stabs type i"
  defines "lo \<equiv> filter (of_type stabs type) [left..r]"
  shows "stab_scan stabs left right type a = (if lo = [] then min left r else last lo, r)"
proof -
  note d = search_invD[OF inv]
  let ?P = "of_type stabs type"
  have up: "[left..right] = [left..r] @ [r + 1..right]" using d by (intro upto_append) auto
  have es: "filter ?P [left..right] \<noteq> []" using any by (auto simp: filter_empty_conv)
  have l: "filter (\<lambda>i. addr_of stabs i \<le> a) (filter ?P [left..right]) = lo"
    and h: "filter (\<lambda>i. a < addr_of stabs i) (filter ?P [left..right]) = filter ?P [r + 1..right]"
    unfolding up lo_def not_le[symmetric]
    by (intro filter_split; use d(6,7) in force)+
  have stop: "(if filter ?P [r + 1..right] = [] then right else hd (filter ?P [r + 1..right]) - 1) = r"
  proof (cases "r = right")
    case False
    with d(3,8) have "?P (r + 1)" "r + 1 \<le> right" by auto
    with upto_rec1[OF this(2)] have "[r + 1..right] = (r + 1) # [r + 1 + 1..right]" "?P (r + 1)" by blast+
    then show ?thesis by simp
  qed simp
  show ?thesis unfolding stab_scan_def Let_def l h stop using es by simp
qed

text \<open>C15: On a table whose entries of the type are in the order of their addresses, the binary search
  returns and finds the region that a scan of all entries finds: from the last entry of the type
  that is not above the address to the one before the next; without an entry of the type the right
  end is in front of the left one. The condition is that no entry stands one byte above the
  address.\<close>

theorem stab_binsearch_scan:
  assumes "0 \<le> left" and "left \<le> right + 1" and "right < int (length stabs)"
    and "ordered_type stabs type left right" and "a < a + 1" and "absent stabs type left right (a + 1)"
  shows "stab_binsearch stabs left right type a = Inr (stab_scan stabs left right type a)"
proof -
  let ?s = "\<lparr>any_matches = False, region_left = left, region_right = right\<rparr>"
  have "search_inv stabs type left right a left right a ?s"
    unfolding search_inv_def using assms(2) by force
  from search_loop_inv[OF assms(1,3-6) this] obtain s addr where
      run: "search_loop stabs type left right a ?s = Inr s"
      and inv: "search_inv stabs type left right a (region_right s + 1) (region_right s) addr s" by blast
  let ?r = "region_right s" and ?P = "of_type stabs type"
  note d = search_invD[OF inv]
  show ?thesis
  proof (cases "any_matches s")
    case False
    with inv have "region_left s = left" "?r = right" "\<forall>i. left \<le> i \<and> i < ?r + 1 \<longrightarrow> \<not> ?P i"
      unfolding search_inv_def by auto
    then have "filter ?P [left..right] = []" by (auto simp: filter_empty_conv)
    with False \<open>region_left s = left\<close> show ?thesis by (simp add: stab_binsearch_def run stab_scan_def)
  next
    case True
    with inv have any: "\<exists>i. left \<le> i \<and> i \<le> right \<and> ?P i" unfolding search_inv_def by auto
    have b: "0 \<le> region_left s + 1" "?r < int (length stabs)" using d assms by auto
    have eq: "(if filter ?P [region_left s + 1..?r] = [] then min ?r (region_left s)
        else last (filter ?P [region_left s + 1..?r]))
      = (if filter ?P [left..?r] = [] then min left ?r else last (filter ?P [left..?r]))"
    proof (cases "?P (region_left s) \<and> left \<le> region_left s \<and> region_left s \<le> ?r")
      case t: True
      then have "[left..?r] = [left..region_left s - 1] @ region_left s # [region_left s + 1..?r]"
        by (intro upto_split3) auto
      with t show ?thesis by simp
    next
      case nt: False
      with d(4,7,9) have "region_left s = left" by force
      with nt show ?thesis by (cases "left \<le> ?r") (auto simp: upto_rec1)
    qed
    have "walk_down stabs type (region_left s + 1) ?r =
        Inr (if filter ?P [region_left s + 1..?r] = [] then min ?r (region_left s)
             else last (filter ?P [region_left s + 1..?r]))"
      using walk_down_last[OF b, of type] by simp
    with True show ?thesis
      unfolding eq scan_region[OF inv any] by (simp add: stab_binsearch_def run)
  qed
qed

definition demo_stabs :: "stab list" where
  "demo_stabs = map (\<lambda>(t, v). \<lparr>n_strx = 0, n_type = t, n_other = 0, n_desc = 0, n_value = v\<rparr>)
     [(N_SO, 0x100), (N_FUN, 0x100), (N_SLINE, 0), (N_FUN, 0x140), (N_SO, 0x200)]"

lemma demo_stabs_type: "of_type demo_stabs N_FUN i \<Longrightarrow> 0 \<le> i \<Longrightarrow> i \<le> 4 \<Longrightarrow> i = 1 \<or> i = 3"
proof -
  assume t: "of_type demo_stabs N_FUN i" and "0 \<le> i" "i \<le> 4"
  then consider "i = 0" | "i = 1" | "i = 2" | "i = 3" | "i = 4" by linarith
  then show "i = 1 \<or> i = 3" using t
    by cases (auto simp: of_type_def demo_stabs_def N_FUN_def N_SO_def N_SLINE_def)
qed

lemma stab_binsearch_scan_witness:
  "stab_binsearch demo_stabs 0 4 N_FUN 0x13E = Inr (1, 2)"
proof -
  have n: "4 < int (length demo_stabs)" by (simp add: demo_stabs_def)
  have o: "ordered_type demo_stabs N_FUN 0 4"
    unfolding ordered_type_def
  proof (intro ballI impI)
    fix i j :: int
    assume b: "i \<in> {0..4}" "j \<in> {0..4}"
      and t: "i < j \<and> of_type demo_stabs N_FUN i \<and> of_type demo_stabs N_FUN j"
    with demo_stabs_type[of i] demo_stabs_type[of j] have "i = 1" "j = 3" by auto
    then show "addr_of demo_stabs i \<le> addr_of demo_stabs j" by (simp add: demo_stabs_def)
  qed
  have a: "absent demo_stabs N_FUN 0 4 (0x13E + 1)"
    unfolding absent_def
  proof (intro ballI impI)
    fix i :: int
    assume "i \<in> {0..4}" "of_type demo_stabs N_FUN i"
    with demo_stabs_type[of i] have "i = 1 \<or> i = 3" by auto
    then show "addr_of demo_stabs i \<noteq> 0x13E + 1" by (auto simp: demo_stabs_def)
  qed
  have "stab_scan demo_stabs 0 4 N_FUN 0x13E = (1, 2)"
    by (simp add: stab_scan_def of_type_def demo_stabs_def upto_rec1 N_FUN_def N_SO_def N_SLINE_def)
  with stab_binsearch_scan[of 0 4 demo_stabs N_FUN "0x13E", OF _ _ n o _ a] show ?thesis by simp
qed

text \<open>The condition matters: with a function of one byte, a search for its address answers the
  function behind it.\<close>

lemma stab_binsearch_one_byte:
  "stab_binsearch (map (\<lambda>v. \<lparr>n_strx = 0, n_type = N_FUN, n_other = 0, n_desc = 0, n_value = v\<rparr>) [0x100, 0x101])
     0 1 N_FUN 0x100 = Inr (1, 1)"
  by (simp add: stab_binsearch_def search_loop.simps walk_down.simps stab_at_def Let_def signed_divide_int_def N_FUN_def)

text \<open>And an address in front of the first entry, which stands at the left end, gives the index in
  front of the range, not a right end below the left one as the comment says.\<close>

lemma stab_binsearch_before_first:
  "stab_binsearch (map (\<lambda>v. \<lparr>n_strx = 0, n_type = N_SO, n_other = 0, n_desc = 0, n_value = v\<rparr>) [0x100, 0x200])
     0 1 N_SO 0x50 = Inr (-1, -1)"
  by (simp add: stab_binsearch_def search_loop.simps walk_down.simps stab_at_def Let_def signed_divide_int_def N_SO_def)

end
