(* ===== verification/Mpconfig.thy ===== *)
theory Mpconfig
  imports Pmap
begin

unbundle bit_operations_syntax

text \<open>
  The search for the processors, \<^verbatim>\<open>kern/mpconfig.c\<close>. The tables that the firmware leaves are read from
  physical memory, a byte for every address; \<^verbatim>\<open>KADDR\<close> of an address beyond it panics. The packed
  structures are read at their offsets. What is printed on the console is left out.
\<close>

section \<open>Reading the tables\<close>

type_synonym pmem = "u32 \<Rightarrow> u8"

definition rd16 :: "pmem \<Rightarrow> u32 \<Rightarrow> u16" where
  "rd16 pm a = ucast (pm a) OR push_bit 8 (ucast (pm (a + 1)))"

definition rd32 :: "pmem \<Rightarrow> u32 \<Rightarrow> u32" where
  "rd32 pm a = ucast (rd16 pm a) OR push_bit 16 (ucast (rd16 pm (a + 2)))"

definition signature_at :: "pmem \<Rightarrow> u32 \<Rightarrow> string \<Rightarrow> bool" where
  "signature_at pm a s \<longleftrightarrow> map (\<lambda>i. pm (a + word_of_nat i)) [0..<length s] = map of_char s"

text \<open>\<^verbatim>\<open>sum\<close> adds in an \<^verbatim>\<open>int\<close> and returns its low byte.\<close>

definition sum_bytes :: "pmem \<Rightarrow> u32 \<Rightarrow> nat \<Rightarrow> u8" where
  "sum_bytes pm a len = word_of_int (fold (\<lambda>i s. s + uint (pm (a + word_of_nat i))) [0..<len] 0)"

section \<open>Finding the floating pointer structure\<close>

fun mp_scan :: "pmem \<Rightarrow> u32 \<Rightarrow> nat \<Rightarrow> u32 option" where
  "mp_scan pm a 0 = None"
| "mp_scan pm a (Suc n) =
     (if signature_at pm a ''_MP_'' \<and> sum_bytes pm a 16 = 0 then Some a else mp_scan pm (a + 16) n)"

definition mpsearch1 :: "kmem \<Rightarrow> pmem \<Rightarrow> u32 \<Rightarrow> nat \<Rightarrow> fault + u32 option" where
  "mpsearch1 s pm a len =
     chain (KADDR s a) (\<lambda>_. chain (KADDR s (a + word_of_nat len)) (\<lambda>_.
       Inr (mp_scan pm a ((len + 15) div 16))))"

definition mpsearch :: "kmem \<Rightarrow> pmem \<Rightarrow> fault + u32 option" where
  "mpsearch s pm =
     chain (KADDR s 0x400) (\<lambda>_.
       let ebda = rd16 pm (0x400 + 0x0E) in
       chain (if ebda \<noteq> 0 then mpsearch1 s pm (push_bit 4 (ucast ebda)) 1024
              else mpsearch1 s pm (ucast (rd16 pm (0x400 + 0x13)) * 1024 - 1024) 1024) (\<lambda>r.
         case r of Some mp \<Rightarrow> Inr (Some mp) | None \<Rightarrow> mpsearch1 s pm 0xF0000 0x10000))"

text \<open>The structure and the table it points to, when both are sound.\<close>

definition mpconfig :: "kmem \<Rightarrow> pmem \<Rightarrow> fault + (u32 \<times> u32) option" where
  "mpconfig s pm =
     chain (mpsearch s pm) (\<lambda>r.
       case r of None \<Rightarrow> Inr None
       | Some mp \<Rightarrow>
           let physaddr = rd32 pm (mp + 4); type = pm (mp + 11) in
           if physaddr = 0 \<or> type \<noteq> 0 then Inr None
           else chain (KADDR s physaddr) (\<lambda>_.
             let conf = physaddr; len = rd16 pm (conf + 4); version = pm (conf + 6);
                 xlength = rd16 pm (conf + 40); xchecksum = pm (conf + 42) in
             if \<not> signature_at pm conf ''PCMP'' then Inr None
             else if sum_bytes pm conf (unat len) \<noteq> 0 then Inr None
             else if version \<noteq> 1 \<and> version \<noteq> 4 then Inr None
             else if sum_bytes pm (conf + ucast len) (unat xlength) + xchecksum \<noteq> 0 then Inr None
             else Inr (Some (mp, conf))))"

section \<open>The processors\<close>

text \<open>\<^verbatim>\<open>bootcpu\<close> is an index into \<^verbatim>\<open>cpus\<close>; a new entry makes it \<^verbatim>\<open>ncpu\<close> even when the array is full.\<close>

record mpstate =
  bootcpu :: nat
  ismp :: bool
  ncpu :: nat
  lapicaddr :: u32
  cpu_id :: "nat \<Rightarrow> u8"
  started :: "nat \<Rightarrow> bool"
  mp_ports :: "(u16 \<times> u8) list"

definition zero_mp :: mpstate where
  "zero_mp = \<lparr>bootcpu = 0, ismp = False, ncpu = 0, lapicaddr = 0, cpu_id = (\<lambda>_. 0),
     started = (\<lambda>_. False), mp_ports = []\<rparr>"

definition MPPROC_BOOT :: u8 where "MPPROC_BOOT = 0x02"
definition MPPROC :: u8 where "MPPROC = 0x00"
definition MPBUS :: u8 where "MPBUS = 0x01"
definition MPIOAPIC :: u8 where "MPIOAPIC = 0x02"
definition MPIOINTR :: u8 where "MPIOINTR = 0x03"
definition MPLINTR :: u8 where "MPLINTR = 0x04"

definition mp_proc :: "u8 \<Rightarrow> mpstate \<Rightarrow> mpstate" where
  "mp_proc flags st =
     (let st1 = (if flags AND MPPROC_BOOT \<noteq> 0 then st\<lparr>bootcpu := ncpu st\<rparr> else st) in
      if ncpu st1 < NCPU
      then st1\<lparr>cpu_id := (cpu_id st1)(ncpu st1 := word_of_nat (ncpu st1)), ncpu := ncpu st1 + 1\<rparr>
      else st1)"

text \<open>The loop over the entries of the table; an unknown type ends it and switches the second
  processor support off.\<close>

fun mp_entries :: "pmem \<Rightarrow> u32 \<Rightarrow> nat \<Rightarrow> mpstate \<Rightarrow> mpstate" where
  "mp_entries pm p 0 st = st"
| "mp_entries pm p (Suc n) st =
     (if pm p = MPPROC then mp_entries pm (p + 20) n (mp_proc (pm (p + 3)) st)
      else if pm p \<in> {MPBUS, MPIOAPIC, MPIOINTR, MPLINTR} then mp_entries pm (p + 8) n st
      else st\<lparr>ismp := False\<rparr>)"

text \<open>\<open>imcr\<close> is what port \<open>0x23\<close> reads back.\<close>

definition mp_init :: "kmem \<Rightarrow> pmem \<Rightarrow> u8 \<Rightarrow> mpstate \<Rightarrow> fault + mpstate" where
  "mp_init s pm imcr st0 =
     (let st = st0\<lparr>bootcpu := 0\<rparr> in
      chain (mpconfig s pm) (\<lambda>r.
        case r of None \<Rightarrow> Inr st
        | Some (mp, conf) \<Rightarrow>
            let st1 = mp_entries pm (conf + 44) (unat (rd16 pm (conf + 34)))
                        (st\<lparr>ismp := True, lapicaddr := rd32 pm (conf + 36)\<rparr>) in
            if bootcpu st1 \<ge> NCPU then Inl OutOfBounds
            else let st2 = st1\<lparr>started := (started st1)(bootcpu st1 := True)\<rparr> in
              if \<not> ismp st2 then Inr (st2\<lparr>ncpu := 1, lapicaddr := 0\<rparr>)
              else if pm (mp + 12) \<noteq> 0 then
                Inr (st2\<lparr>mp_ports := mp_ports st2 @ [(0x22, 0x70), (0x23, imcr OR 1)]\<rparr>)
              else Inr st2))"

section \<open>A table entry by entry\<close>

text \<open>What the table describes: processors with their flags, and the other entries.\<close>

datatype mpentry = Processor u8 | OtherEntry u8

fun entry_size :: "mpentry \<Rightarrow> u32" where
  "entry_size (Processor _) = 20"
| "entry_size (OtherEntry _) = 8"

fun entry_at :: "pmem \<Rightarrow> u32 \<Rightarrow> mpentry \<Rightarrow> bool" where
  "entry_at pm p (Processor flags) \<longleftrightarrow> pm p = MPPROC \<and> pm (p + 3) = flags"
| "entry_at pm p (OtherEntry t) \<longleftrightarrow> pm p = t \<and> t \<in> {MPBUS, MPIOAPIC, MPIOINTR, MPLINTR}"

fun entries_at :: "pmem \<Rightarrow> u32 \<Rightarrow> mpentry list \<Rightarrow> bool" where
  "entries_at pm p [] \<longleftrightarrow> True"
| "entries_at pm p (e # es) \<longleftrightarrow> entry_at pm p e \<and> entries_at pm (p + entry_size e) es"

definition processors :: "mpentry list \<Rightarrow> u8 list" where
  "processors es = concat (map (\<lambda>e. case e of Processor f \<Rightarrow> [f] | OtherEntry _ \<Rightarrow> []) es)"

definition boots :: "u8 \<Rightarrow> bool" where
  "boots flags \<longleftrightarrow> flags AND MPPROC_BOOT \<noteq> 0"

lemma entry_types [simp]:
  "MPBUS \<noteq> MPPROC" "MPIOAPIC \<noteq> MPPROC" "MPIOINTR \<noteq> MPPROC" "MPLINTR \<noteq> MPPROC"
  by (simp_all add: MPPROC_def MPBUS_def MPIOAPIC_def MPIOINTR_def MPLINTR_def)

lemma mp_entries_fold:
  "entries_at pm p es \<Longrightarrow> mp_entries pm p (length es) st = fold mp_proc (processors es) st"
proof (induction es arbitrary: p st)
  case Nil
  then show ?case by (simp add: processors_def)
next
  case (Cons e es)
  then show ?case by (cases e) (auto simp: processors_def)
qed

text \<open>The last processor flagged for booting, kept inside the array or at its end.\<close>

definition boot_indices :: "u8 list \<Rightarrow> nat list" where
  "boot_indices fs = filter (\<lambda>i. boots (fs ! i)) [0..<length fs]"

definition boot_of :: "u8 list \<Rightarrow> nat" where
  "boot_of fs = (if boot_indices fs = [] then 0 else min (last (boot_indices fs)) NCPU)"

lemma boot_of_snoc: "boot_of (fs @ [f]) = (if boots f then min (length fs) NCPU else boot_of fs)"
proof -
  have "filter (\<lambda>i. boots ((fs @ [f]) ! i)) [0..<length fs] = boot_indices fs"
    unfolding boot_indices_def by (rule filter_cong) (auto simp: nth_append)
  then have "boot_indices (fs @ [f]) = boot_indices fs @ (if boots f then [length fs] else [])"
    by (simp add: boot_indices_def)
  then show ?thesis by (simp add: boot_of_def)
qed

lemma mp_proc_fields:
  "ncpu (mp_proc f st) = (if ncpu st < NCPU then ncpu st + 1 else ncpu st)"
  "cpu_id (mp_proc f st) = (if ncpu st < NCPU then (cpu_id st)(ncpu st := word_of_nat (ncpu st)) else cpu_id st)"
  "bootcpu (mp_proc f st) = (if boots f then ncpu st else bootcpu st)"
  "ismp (mp_proc f st) = ismp st" "lapicaddr (mp_proc f st) = lapicaddr st"
  by (simp_all add: mp_proc_def boots_def Let_def)

lemma fold_mp_proc:
  assumes "ncpu st = 0" and "bootcpu st = 0"
  shows "ncpu (fold mp_proc fs st) = min (length fs) NCPU
    \<and> (\<forall>i<min (length fs) NCPU. cpu_id (fold mp_proc fs st) i = word_of_nat i)
    \<and> bootcpu (fold mp_proc fs st) = boot_of fs
    \<and> ismp (fold mp_proc fs st) = ismp st \<and> lapicaddr (fold mp_proc fs st) = lapicaddr st"
proof (induction fs rule: rev_induct)
  case Nil
  with assms show ?case by (simp add: boot_of_def boot_indices_def)
next
  case (snoc f fs)
  then show ?case by (auto simp: mp_proc_fields boot_of_snoc less_Suc_eq min_def)
qed

section \<open>Properties\<close>

text \<open>C25: From a sound table \<^verbatim>\<open>mp_init\<close> takes as many processors as it lists, at most \<^verbatim>\<open>NCPU\<close>, numbers
  them in order, and starts with the one flagged last for booting, provided it has a place in the
  array; the address of the local APIC is the table's.\<close>

theorem mp_init_finds_cpus:
  assumes "mpconfig s pm = Inr (Some (mp, conf))" and "entries_at pm (conf + 44) es"
    and "length es = unat (rd16 pm (conf + 34))" and "ncpu st0 = 0" and "boot_of (processors es) < NCPU"
  shows "\<exists>st. mp_init s pm imcr st0 = Inr st \<and> ismp st \<and> ncpu st = min (length (processors es)) NCPU
    \<and> (\<forall>i<ncpu st. cpu_id st i = word_of_nat i) \<and> bootcpu st = boot_of (processors es)
    \<and> started st (bootcpu st) \<and> lapicaddr st = rd32 pm (conf + 36)"
proof -
  let ?st = "st0\<lparr>bootcpu := 0, ismp := True, lapicaddr := rd32 pm (conf + 36)\<rparr>"
  define st1 where "st1 = mp_entries pm (conf + 44) (length es) ?st"
  have "st1 = fold mp_proc (processors es) ?st"
    unfolding st1_def by (rule mp_entries_fold[OF assms(2)])
  with fold_mp_proc[of ?st "processors es"] assms(4)
  have f: "ncpu st1 = min (length (processors es)) NCPU" "\<forall>i<ncpu st1. cpu_id st1 i = word_of_nat i"
    "bootcpu st1 = boot_of (processors es)" "ismp st1" "lapicaddr st1 = rd32 pm (conf + 36)"
    by simp_all
  show ?thesis
    using f assms(1,5) unfolding mp_init_def Let_def
    by (simp add: assms(3)[symmetric] st1_def[symmetric])
qed

text \<open>The example: an extended BIOS data area with the structure at its start, and two processors.\<close>

definition demo_pmem :: pmem where
  "demo_pmem a = (case map_of
     [(0x40E, 0xC0), (0x40F, 0x9F),
      (0x9FC00, of_char CHR ''_''), (0x9FC01, of_char CHR ''M''), (0x9FC02, of_char CHR ''P''),
      (0x9FC03, of_char CHR ''_''), (0x9FC05, 0xFD), (0x9FC06, 9), (0x9FC08, 1), (0x9FC09, 4),
      (0x9FC0A, 0x9A),
      (0x9FD00, of_char CHR ''P''), (0x9FD01, of_char CHR ''C''), (0x9FD02, of_char CHR ''M''),
      (0x9FD03, of_char CHR ''P''), (0x9FD04, 84), (0x9FD06, 4), (0x9FD07, 0x94), (0x9FD22, 2),
      (0x9FD26, 0xE0), (0x9FD27, 0xFE),
      (0x9FD2F, 3), (0x9FD43, 1)] a of None \<Rightarrow> 0 | Some b \<Rightarrow> b)"

definition demo_low_mem :: kmem where
  "demo_low_mem = \<lparr>npages = 256, pp_link = (\<lambda>_. None), pp_ref = (\<lambda>_. 0), page_free_list = None,
     phys = (\<lambda>_ _. 0), boot_nextfree = 0, mmio_base = 0, user_mem_check_addr = 0, invlpgs = []\<rparr>"

lemma demo_mp_scan: "mp_scan demo_pmem 0x9FC00 64 = Some 0x9FC00"
proof -
  have "signature_at demo_pmem 0x9FC00 ''_MP_''"
    by (simp add: signature_at_def demo_pmem_def upt_rec)
  moreover have "sum_bytes demo_pmem 0x9FC00 16 = 0"
    by (simp add: sum_bytes_def demo_pmem_def upt_rec)
  ultimately show ?thesis using mp_scan.simps(2)[of demo_pmem "0x9FC00" 63] by simp
qed

lemma demo_conf: "signature_at demo_pmem 0x9FD00 ''PCMP''" "sum_bytes demo_pmem 0x9FD00 84 = 0"
  by (simp_all add: signature_at_def sum_bytes_def demo_pmem_def upt_rec)

lemma demo_fields:
  "rd16 demo_pmem (0x400 + 0x0E) = 0x9FC0" "rd32 demo_pmem (0x9FC00 + 4) = 0x9FD00"
  "demo_pmem (0x9FC00 + 11) = 0" "rd16 demo_pmem (0x9FD00 + 4) = 84" "demo_pmem (0x9FD00 + 6) = 4"
  "rd16 demo_pmem (0x9FD00 + 40) = 0" "demo_pmem (0x9FD00 + 42) = 0" "rd16 demo_pmem (0x9FD00 + 34) = 2"
  by (simp_all add: rd16_def rd32_def demo_pmem_def)

lemma demo_mpconfig: "mpconfig demo_low_mem demo_pmem = Inr (Some (0x9FC00, 0x9FD00))"
proof -
  have k: "KADDR demo_low_mem 0x400 = Inr (0x400 + KERNBASE)"
    "KADDR demo_low_mem 0x9FC00 = Inr (0x9FC00 + KERNBASE)"
    "KADDR demo_low_mem (0x9FC00 + word_of_nat 1024) = Inr (0xA0000 + KERNBASE)"
    "KADDR demo_low_mem 0x9FD00 = Inr (0x9FD00 + KERNBASE)"
    by (simp_all add: KADDR_def demo_low_mem_def PGNUM_def PTXSHIFT_def)
  have "mpsearch1 demo_low_mem demo_pmem (push_bit 4 (ucast (0x9FC0 :: u16))) 1024 = Inr (Some 0x9FC00)"
    using k demo_mp_scan by (simp add: mpsearch1_def)
  then have "mpsearch demo_low_mem demo_pmem = Inr (Some 0x9FC00)"
    unfolding mpsearch_def demo_fields using k by (simp add: Let_def)
  then show ?thesis
    unfolding mpconfig_def using k demo_conf demo_fields
    by (simp add: Let_def sum_bytes_def[of _ _ 0])
qed

lemma mp_init_finds_cpus_witness:
  "\<exists>st. mp_init demo_low_mem demo_pmem 0 zero_mp = Inr st \<and> ncpu st = 2 \<and> bootcpu st = 0"
proof -
  have "entries_at demo_pmem (0x9FD00 + 44) [Processor 3, Processor 1]"
    by (simp add: demo_pmem_def MPPROC_def)
  moreover have "length [Processor 3, Processor 1] = unat (rd16 demo_pmem (0x9FD00 + 34))"
    unfolding demo_fields by simp
  moreover have "processors [Processor 3, Processor 1] = [3, 1]" "boot_of [3, 1] = 0"
    by (simp_all add: processors_def boot_of_def boot_indices_def boots_def MPPROC_BOOT_def upt_rec)
  ultimately show ?thesis
    using mp_init_finds_cpus[OF demo_mpconfig, of "[Processor 3, Processor 1]" zero_mp 0]
    by (force simp: zero_mp_def NCPU_def)
qed

end
