(* ===== verification/Spinlock.thy ===== *)
theory Spinlock
  imports Mmu
begin

text \<open>
  The big kernel lock: \<^verbatim>\<open>kern/spinlock.c\<close> and \<^verbatim>\<open>kern/spinlock.h\<close>, built with
  \<^verbatim>\<open>DEBUG_SPINLOCK\<close>. First the operations as functions of the lock; then the interleaving of
  several CPUs, one step per access to the lock, as a step relation with its invariant.
\<close>

section \<open>Operations\<close>

record spinlock =
  locked :: u32
  lk_name :: string
  lk_cpu :: "nat option"
  lk_pcs :: "u32 list"

text \<open>The return addresses found by following the frame pointers, at most ten; a frame
  pointer below \<^verbatim>\<open>ULIM\<close> ends the chain and the rest is zero. \<open>mem\<close> reads a word of memory.\<close>

fun follow_ebp :: "(u32 \<Rightarrow> u32) \<Rightarrow> u32 \<Rightarrow> nat \<Rightarrow> u32 list" where
  "follow_ebp mem ebp 0 = []"
| "follow_ebp mem ebp (Suc n) =
     (if ebp = 0 \<or> ebp < ULIM then replicate (Suc n) 0
      else mem (ebp + 4) # follow_ebp mem (mem ebp) n)"

definition get_caller_pcs :: "(u32 \<Rightarrow> u32) \<Rightarrow> u32 \<Rightarrow> u32 list" where
  "get_caller_pcs mem ebp = follow_ebp mem ebp 10"

definition holding :: "spinlock \<Rightarrow> nat \<Rightarrow> bool" where
  "holding lk c \<longleftrightarrow> locked lk \<noteq> 0 \<and> lk_cpu lk = Some c"

definition spin_initlock :: "spinlock \<Rightarrow> string \<Rightarrow> spinlock" where
  "spin_initlock lk name = lk\<lparr>locked := 0, lk_name := name, lk_cpu := None\<rparr>"

text \<open>The atomic exchange: the new lock with the old value of \<^verbatim>\<open>locked\<close>.\<close>

definition xchg_locked :: "spinlock \<Rightarrow> u32 \<Rightarrow> u32 \<times> spinlock" where
  "xchg_locked lk v = (locked lk, lk\<lparr>locked := v\<rparr>)"

text \<open>
  One attempt of \<^verbatim>\<open>spin_lock\<close> on CPU \<open>c\<close>: None when the exchange found the lock taken and
  the CPU goes on spinning. \<open>pcs\<close> is the call chain recorded on success.
\<close>

definition spin_lock :: "u32 list \<Rightarrow> spinlock \<Rightarrow> nat \<Rightarrow> fault + spinlock option" where
  "spin_lock pcs lk c =
     (if holding lk c then Inl (Panic ''CPU cannot acquire: already holding'')
      else let (old, lk1) = xchg_locked lk 1 in
           if old \<noteq> 0 then Inr None
           else Inr (Some (lk1\<lparr>lk_cpu := Some c, lk_pcs := pcs\<rparr>)))"

definition spin_unlock :: "spinlock \<Rightarrow> nat \<Rightarrow> fault + spinlock" where
  "spin_unlock lk c =
     (if \<not> holding lk c then Inl (Panic ''spin_unlock'')
      else Inr (snd (xchg_locked (lk\<lparr>lk_pcs := 0 # tl (lk_pcs lk), lk_cpu := None\<rparr>) 0)))"

lemma spin_lock_unlock:
  assumes "locked lk = 0"
  shows "\<exists>lk1 lk2. spin_lock pcs lk c = Inr (Some lk1) \<and> holding lk1 c
     \<and> spin_unlock lk1 c = Inr lk2 \<and> locked lk2 = 0 \<and> (\<forall>d. \<not> holding lk2 d)"
  using assms by (simp add: spin_lock_def spin_unlock_def holding_def xchg_locked_def)

section \<open>Interleaving\<close>

text \<open>
  Where a CPU stands: outside, spinning on the exchange, past the exchange but with the owner
  not yet recorded, in the critical section, or after clearing the owner and before the
  releasing exchange. \<open>Panicked\<close> is the outcome of a failed check.
\<close>

datatype lock_pc = Outside | Spinning | Acquired | Inside | Releasing | Panicked

type_synonym lock_sys = "spinlock \<times> (nat \<Rightarrow> lock_pc)"

inductive lock_step :: "lock_sys \<Rightarrow> lock_sys \<Rightarrow> bool" where
  enter: "pc c = Outside \<Longrightarrow> \<not> holding lk c \<Longrightarrow> lock_step (lk, pc) (lk, pc(c := Spinning))"
| enter_panic: "pc c = Outside \<Longrightarrow> holding lk c \<Longrightarrow> lock_step (lk, pc) (lk, pc(c := Panicked))"
| spin: "pc c = Spinning \<Longrightarrow> xchg_locked lk 1 = (old, lk') \<Longrightarrow> old \<noteq> 0 \<Longrightarrow>
    lock_step (lk, pc) (lk', pc)"
| acquire: "pc c = Spinning \<Longrightarrow> xchg_locked lk 1 = (0, lk') \<Longrightarrow>
    lock_step (lk, pc) (lk', pc(c := Acquired))"
| record_owner: "pc c = Acquired \<Longrightarrow>
    lock_step (lk, pc) (lk\<lparr>lk_cpu := Some c, lk_pcs := pcs\<rparr>, pc(c := Inside))"
| release_panic: "pc c = Inside \<Longrightarrow> \<not> holding lk c \<Longrightarrow> lock_step (lk, pc) (lk, pc(c := Panicked))"
| clear_owner: "pc c = Inside \<Longrightarrow> holding lk c \<Longrightarrow>
    lock_step (lk, pc) (lk\<lparr>lk_pcs := 0 # tl (lk_pcs lk), lk_cpu := None\<rparr>, pc(c := Releasing))"
| release: "pc c = Releasing \<Longrightarrow> xchg_locked lk 0 = (old, lk') \<Longrightarrow>
    lock_step (lk, pc) (lk', pc(c := Outside))"

inductive lock_reach :: "lock_sys \<Rightarrow> bool" where
  start: "lock_reach (spin_initlock lk name, \<lambda>_. Outside)"
| step: "lock_reach s \<Longrightarrow> lock_step s t \<Longrightarrow> lock_reach t"

definition owns :: "lock_pc \<Rightarrow> bool" where
  "owns p \<longleftrightarrow> p \<in> {Acquired, Inside, Releasing}"

lemma owns_simps [simp]:
  "\<not> owns Outside" "\<not> owns Spinning" "owns Acquired" "owns Inside" "owns Releasing" "\<not> owns Panicked"
  by (simp_all add: owns_def)

definition owner_inv :: "nat option \<Rightarrow> lock_sys \<Rightarrow> bool" where
  "owner_inv ow s \<longleftrightarrow>
     (\<forall>c. owns (snd s c) \<longleftrightarrow> ow = Some c) \<and> (locked (fst s) \<noteq> 0 \<longleftrightarrow> ow \<noteq> None)
     \<and> (\<forall>c. lk_cpu (fst s) = Some c \<longleftrightarrow> snd s c = Inside) \<and> (\<forall>c. snd s c \<noteq> Panicked)"

definition lock_inv :: "lock_sys \<Rightarrow> bool" where
  "lock_inv s \<longleftrightarrow> (\<exists>ow. owner_inv ow s)"

lemma owner_invD:
  assumes "owner_inv ow (lk, pc)"
  shows "owns (pc c) \<longleftrightarrow> ow = Some c" and "locked lk \<noteq> 0 \<longleftrightarrow> ow \<noteq> None"
    and "lk_cpu lk = Some c \<longleftrightarrow> pc c = Inside" and "pc c \<noteq> Panicked"
    and "holding lk c \<longleftrightarrow> pc c = Inside"
proof -
  show "owns (pc c) \<longleftrightarrow> ow = Some c" "locked lk \<noteq> 0 \<longleftrightarrow> ow \<noteq> None"
    "lk_cpu lk = Some c \<longleftrightarrow> pc c = Inside" "pc c \<noteq> Panicked"
    using assms by (simp_all add: owner_inv_def)
  then show "holding lk c \<longleftrightarrow> pc c = Inside" by (auto simp: holding_def)
qed

lemma inside_owner: "owner_inv ow (lk, pc) \<Longrightarrow> pc c = Inside \<Longrightarrow> ow = Some c"
  using owner_invD(1)[of ow lk pc c] by simp

lemma owner_step:
  assumes st: "lock_step (lk, pc) t" and inv: "owner_inv ow (lk, pc)"
  shows "\<exists>ow'. owner_inv ow' t"
  using st
proof cases
  case (enter c)
  then have "ow \<noteq> Some c" using owner_invD(1)[OF inv, of c] by simp
  with enter inv have "owner_inv ow t" by (auto simp: owner_inv_def)
  then show ?thesis ..
next
  case (enter_panic c)
  with owner_invD(5)[OF inv, of c] show ?thesis by simp
next
  case (spin c old lk')
  with inv have "owner_inv ow t" by (auto simp: owner_inv_def xchg_locked_def)
  then show ?thesis ..
next
  case (acquire c lk')
  then have "ow = None" "lk' = lk\<lparr>locked := 1\<rparr>"
    using owner_invD(2)[OF inv] by (auto simp: xchg_locked_def)
  moreover have "lk_cpu lk = None"
    using \<open>ow = None\<close> inside_owner[OF inv] owner_invD(3)[OF inv] by (cases "lk_cpu lk") auto
  ultimately have "owner_inv (Some c) t"
    using acquire inv by (auto simp: owner_inv_def)
  then show ?thesis ..
next
  case (record_owner c pcs)
  then have ow: "ow = Some c" using owner_invD(1)[OF inv, of c] by simp
  then have "pc d \<noteq> Inside" for d using inside_owner[OF inv, of d] record_owner by auto
  then have "owner_inv (Some c) t"
    using record_owner inv ow by (auto simp: owner_inv_def)
  then show ?thesis ..
next
  case (release_panic c)
  with owner_invD(5)[OF inv, of c] show ?thesis by simp
next
  case (clear_owner c)
  then have ow: "ow = Some c" using owner_invD(1)[OF inv, of c] by simp
  then have "pc d \<noteq> Inside" if "d \<noteq> c" for d using inside_owner[OF inv, of d] that by auto
  then have "owner_inv (Some c) t"
    using clear_owner inv ow by (auto simp: owner_inv_def)
  then show ?thesis ..
next
  case (release c old lk')
  then have ow: "ow = Some c" using owner_invD(1)[OF inv, of c] by simp
  have n: "pc d \<noteq> Inside" for d using inside_owner[OF inv, of d] ow release by auto
  then have "lk_cpu lk = None" using owner_invD(3)[OF inv] by (cases "lk_cpu lk") auto
  then have "owner_inv None t"
    using release inv ow n by (auto simp: owner_inv_def xchg_locked_def)
  then show ?thesis ..
qed

lemma lock_inv_step: "lock_step s t \<Longrightarrow> lock_inv s \<Longrightarrow> lock_inv t"
  by (cases s) (auto simp: lock_inv_def intro: owner_step)

lemma lock_reach_inv: "lock_reach s \<Longrightarrow> lock_inv s"
proof (induction rule: lock_reach.induct)
  case (start lk name)
  have "owner_inv None (spin_initlock lk name, \<lambda>_. Outside)" by (simp add: owner_inv_def spin_initlock_def)
  then show ?case by (auto simp: lock_inv_def)
next
  case (step s t)
  then show ?case by (blast intro: lock_inv_step)
qed

text \<open>C8: In every interleaving of CPUs that follow the protocol, at most one CPU is inside the
  critical section, the test \<^verbatim>\<open>holding\<close> is exact for every CPU (also while another CPU has the
  lock but has not recorded itself yet), and neither panic of the debugging checks is reached.\<close>

theorem kernel_lock_exclusive:
  assumes "lock_reach (lk, pc)"
  shows "(pc c = Inside \<and> pc d = Inside \<longrightarrow> c = d) \<and> (holding lk c \<longleftrightarrow> pc c = Inside)
     \<and> pc c \<noteq> Panicked"
proof -
  from lock_reach_inv[OF assms] obtain ow where "owner_inv ow (lk, pc)" by (auto simp: lock_inv_def)
  from owner_invD(4,5)[OF this, of c] inside_owner[OF this] show ?thesis by auto
qed

lemma kernel_lock_exclusive_witness:
  "\<exists>lk pc. lock_reach (lk, pc) \<and> pc (1::nat) = Inside \<and> pc 2 = Spinning \<and> holding lk 1 \<and> \<not> holding lk 2"
proof -
  define lk0 where "lk0 = spin_initlock \<lparr>locked = 5, lk_name = [], lk_cpu = Some 3, lk_pcs = []\<rparr> ''kernel_lock''"
  have "lock_reach (lk0, \<lambda>_. Outside)" unfolding lk0_def by (rule lock_reach.start)
  then have "lock_reach (lk0, (\<lambda>_. Outside)(1 := Spinning))"
    by (rule lock_reach.step) (rule enter, simp_all add: lk0_def spin_initlock_def holding_def)
  then have "lock_reach (lk0\<lparr>locked := 1\<rparr>, ((\<lambda>_. Outside)(1 := Spinning))(1 := Acquired))"
    by (rule lock_reach.step) (rule acquire, simp_all add: lk0_def spin_initlock_def xchg_locked_def)
  then have "lock_reach (lk0\<lparr>locked := 1\<rparr>, ((\<lambda>_. Outside)(1 := Acquired))(2 := Spinning))"
    by (intro lock_reach.step[OF _ enter]) (simp_all add: lk0_def spin_initlock_def holding_def)
  then have r: "lock_reach (lk0\<lparr>locked := 1, lk_cpu := Some 1, lk_pcs := []\<rparr>,
      (((\<lambda>_. Outside)(1 := Acquired))(2 := Spinning))(1 := Inside))"
    by (rule lock_reach.step) (use record_owner[of "((\<lambda>_. Outside)(1 := Acquired))(2 := Spinning)" 1 "lk0\<lparr>locked := 1\<rparr>" "[]"] in simp)
  show ?thesis using kernel_lock_exclusive[OF r, of 1 2] kernel_lock_exclusive[OF r, of 2 1] r
    by (intro exI[of _ "lk0\<lparr>locked := 1, lk_cpu := Some 1, lk_pcs := []\<rparr>"]
        exI[of _ "(((\<lambda>_. Outside)(1 := Acquired))(2 := Spinning))(1 := Inside)"]) simp
qed

end
