(* ===== verification/Env.thy ===== *)
theory Env
  imports Pmap Spinlock
begin

unbundle bit_operations_syntax

text \<open>
  Environments: \<^verbatim>\<open>inc/env.h\<close>, \<^verbatim>\<open>inc/trap.h\<close>, \<^verbatim>\<open>kern/cpu.h\<close> and \<^verbatim>\<open>kern/env.c\<close>. The kernel state
  holds the memory of \<^verbatim>\<open>Pmap\<close>, the array \<^verbatim>\<open>envs\<close> with its free list, the per-CPU fields, the big
  lock, and the static variables of the scheduler. An environment is named by its index in
  \<^verbatim>\<open>envs\<close>, its page directory by the frame that holds it. Messages printed with \<^verbatim>\<open>cprintf\<close> are
  not part of the state.
\<close>

section \<open>Saved registers (\<^verbatim>\<open>inc/trap.h\<close>)\<close>

record pushregs =
  reg_edi :: u32
  reg_esi :: u32
  reg_ebp :: u32
  reg_oesp :: u32
  reg_ebx :: u32
  reg_edx :: u32
  reg_ecx :: u32
  reg_eax :: u32

record trapframe =
  tf_regs :: pushregs
  tf_es :: u16
  tf_padding1 :: u16
  tf_ds :: u16
  tf_padding2 :: u16
  tf_trapno :: u32
  tf_err :: u32
  tf_eip :: u32
  tf_cs :: u16
  tf_padding3 :: u16
  tf_eflags :: u32
  tf_esp :: u32
  tf_ss :: u16
  tf_padding4 :: u16

record utrapframe =
  utf_fault_va :: u32
  utf_err :: u32
  utf_regs :: pushregs
  utf_eip :: u32
  utf_eflags :: u32
  utf_esp :: u32

definition zero_regs :: pushregs where
  "zero_regs = \<lparr>reg_edi = 0, reg_esi = 0, reg_ebp = 0, reg_oesp = 0, reg_ebx = 0, reg_edx = 0,
     reg_ecx = 0, reg_eax = 0\<rparr>"

definition zero_tf :: trapframe where
  "zero_tf = \<lparr>tf_regs = zero_regs, tf_es = 0, tf_padding1 = 0, tf_ds = 0, tf_padding2 = 0,
     tf_trapno = 0, tf_err = 0, tf_eip = 0, tf_cs = 0, tf_padding3 = 0, tf_eflags = 0, tf_esp = 0,
     tf_ss = 0, tf_padding4 = 0\<rparr>"

section \<open>Environments (\<^verbatim>\<open>inc/env.h\<close>)\<close>

definition LOG2NENV :: nat where "LOG2NENV = 10"
definition ENVX :: "u32 \<Rightarrow> nat" where "ENVX envid = unat (envid AND (word_of_nat NENV - 1))"
definition ENVGENSHIFT :: nat where "ENVGENSHIFT = 12"
definition TICKET_STEP :: int where "TICKET_STEP = 50"
definition ENV_TYPE_USER :: u32 where "ENV_TYPE_USER = 0"

datatype env_status_t = ENV_FREE | ENV_DYING | ENV_RUNNABLE | ENV_RUNNING | ENV_NOT_RUNNABLE

fun status_code :: "env_status_t \<Rightarrow> int" where
  "status_code ENV_FREE = 0"
| "status_code ENV_DYING = 1"
| "status_code ENV_RUNNABLE = 2"
| "status_code ENV_RUNNING = 3"
| "status_code ENV_NOT_RUNNABLE = 4"

record env =
  env_tf :: trapframe
  env_link :: "nat option"
  env_id :: u32
  env_parent_id :: u32
  env_type :: u32
  env_status :: env_status_t
  env_runs :: u32
  env_cpunum :: nat
  env_tickets :: int
  env_pgdir :: "nat option"
  env_pgfault_upcall :: u32
  env_ipc_recving :: bool
  env_ipc_dstva :: u32
  env_ipc_value :: u32
  env_ipc_from :: u32
  env_ipc_perm :: u32

definition zero_env :: env where
  "zero_env = \<lparr>env_tf = zero_tf, env_link = None, env_id = 0, env_parent_id = 0, env_type = 0,
     env_status = ENV_FREE, env_runs = 0, env_cpunum = 0, env_tickets = 0, env_pgdir = None,
     env_pgfault_upcall = 0, env_ipc_recving = False, env_ipc_dstva = 0, env_ipc_value = 0,
     env_ipc_from = 0, env_ipc_perm = 0\<rparr>"

section \<open>The kernel state\<close>

datatype cpu_status_t = CPU_UNUSED | CPU_STARTED | CPU_HALTED

record hist_entry =
  hist_env_id :: u32
  hist_env_tickets :: int
  hist_env_runs :: u32

record kst =
  mem :: kmem
  envs :: "nat \<Rightarrow> env"
  env_free_list :: "nat option"
  kern_pgdir :: nat
  this_cpu :: nat
  cpu_env :: "nat \<Rightarrow> nat option"
  cpu_status :: "nat \<Rightarrow> cpu_status_t"
  cr3 :: nat
  kernel_lock :: spinlock
  random_seed :: u32
  historial :: "nat \<Rightarrow> hist_entry"
  ultima_posicion :: nat
  max_historial_indx :: nat

definition curenv :: "kst \<Rightarrow> nat option" where
  "curenv k = cpu_env k (this_cpu k)"

definition set_curenv :: "kst \<Rightarrow> nat option \<Rightarrow> kst" where
  "set_curenv k e = k\<lparr>cpu_env := (cpu_env k)(this_cpu k := e)\<rparr>"

definition upd_env :: "kst \<Rightarrow> nat \<Rightarrow> (env \<Rightarrow> env) \<Rightarrow> kst" where
  "upd_env k e f = k\<lparr>envs := (envs k)(e := f (envs k e))\<rparr>"

text \<open>The current environment as \<^verbatim>\<open>tlb_invalidate\<close> sees it.\<close>

definition cur_pgdir :: "kst \<Rightarrow> nat option option" where
  "cur_pgdir k = map_option (\<lambda>e. env_pgdir (envs k e)) (curenv k)"

definition deref :: "'a option \<Rightarrow> fault + 'a" where
  "deref x = (case x of None \<Rightarrow> Inl NullDeref | Some y \<Rightarrow> Inr y)"

lemma deref_simps [simp]: "deref None = Inl NullDeref" "deref (Some y) = Inr y"
  by (simp_all add: deref_def)

lemma deref_Inr: "deref x = Inr y \<longleftrightarrow> x = Some y"
  by (cases x) simp_all

text \<open>
  What a kernel function does with the CPU: it returns a value, or it enters an environment,
  halts, stays in the monitor or spins on the lock, and never returns to its caller.
\<close>

datatype 'a ctl = Return 'a | RunEnv nat | HaltCpu | MonitorLoop | SpinWait

definition bindc ::
    "fault + ('a ctl \<times> kst) \<Rightarrow> ('a \<Rightarrow> kst \<Rightarrow> fault + ('b ctl \<times> kst)) \<Rightarrow> fault + ('b ctl \<times> kst)" where
  "bindc m f = chain m (\<lambda>(r, k). case r of
       Return x \<Rightarrow> f x k
     | RunEnv e \<Rightarrow> Inr (RunEnv e, k)
     | HaltCpu \<Rightarrow> Inr (HaltCpu, k)
     | MonitorLoop \<Rightarrow> Inr (MonitorLoop, k)
     | SpinWait \<Rightarrow> Inr (SpinWait, k))"

lemma bindc_simps [simp]:
  "bindc (Inl e) f = Inl e"
  "bindc (Inr (Return x, k)) f = f x k"
  "bindc (Inr (RunEnv i, k)) f = Inr (RunEnv i, k)"
  "bindc (Inr (HaltCpu, k)) f = Inr (HaltCpu, k)"
  "bindc (Inr (MonitorLoop, k)) f = Inr (MonitorLoop, k)"
  "bindc (Inr (SpinWait, k)) f = Inr (SpinWait, k)"
  by (simp_all add: bindc_def)

section \<open>Memory through a page directory\<close>

text \<open>
  The translation of the processor for kernel accesses, for 4 KB and 4 MB pages, and loads and
  stores of bytes; an access to a page that is not present is a page fault in kernel mode.
\<close>

definition translate :: "kmem \<Rightarrow> nat \<Rightarrow> u32 \<Rightarrow> u32 option" where
  "translate s pgdir va =
     (let pde = phys s pgdir (unat (PDX va)) in
      if pde AND PTE_P = 0 then None
      else if pde AND PTE_PS \<noteq> 0 then Some ((pde AND 0xFFC00000) OR (va AND 0x3FFFFF))
      else let pte = phys s (unat (PGNUM pde)) (unat (PTX va)) in
           if pte AND PTE_P = 0 then None else Some (PTE_ADDR pte OR PGOFF va))"

definition load_byte :: "kmem \<Rightarrow> nat \<Rightarrow> u32 \<Rightarrow> fault + u8" where
  "load_byte s pgdir va =
     (case translate s pgdir va of
        None \<Rightarrow> Inl (Panic ''page fault in kernel mode'')
      | Some pa \<Rightarrow> Inr (ucast (drop_bit (8 * (unat pa mod 4))
                     (phys s (unat (PGNUM pa)) (unat (PGOFF pa) div 4)))))"

definition set_byte :: "u32 \<Rightarrow> nat \<Rightarrow> u8 \<Rightarrow> u32" where
  "set_byte w i b = (w AND NOT (push_bit (8 * i) 0xFF)) OR push_bit (8 * i) (ucast b)"

definition store_byte :: "kmem \<Rightarrow> nat \<Rightarrow> u32 \<Rightarrow> u8 \<Rightarrow> fault + kmem" where
  "store_byte s pgdir va b =
     (case translate s pgdir va of
        None \<Rightarrow> Inl (Panic ''page fault in kernel mode'')
      | Some pa \<Rightarrow>
          let f = unat (PGNUM pa); i = unat (PGOFF pa) div 4 in
          Inr (s\<lparr>phys := set_cell (phys s) f i (set_byte (phys s f i) (unat pa mod 4) b)\<rparr>))"

fun store_bytes_at :: "kmem \<Rightarrow> nat \<Rightarrow> u32 \<Rightarrow> u8 list \<Rightarrow> fault + kmem" where
  "store_bytes_at s pgdir va [] = Inr s"
| "store_bytes_at s pgdir va (b # bs) =
     chain (store_byte s pgdir va b) (\<lambda>s1. store_bytes_at s1 pgdir (va + 1) bs)"

definition le_bytes :: "u32 \<Rightarrow> u8 list" where
  "le_bytes w = map (\<lambda>i. ucast (drop_bit (8 * i) w)) [0..<4]"

section \<open>Environment identifiers\<close>

text \<open>The result is the error code with the environment stored (None for the null pointer).\<close>

definition envid2env :: "kst \<Rightarrow> u32 \<Rightarrow> bool \<Rightarrow> fault + (int \<times> nat option)" where
  "envid2env k envid checkperm =
     (if envid = 0 then Inr (0, curenv k)
      else let e = ENVX envid in
        if env_status (envs k e) = ENV_FREE \<or> env_id (envs k e) \<noteq> envid
        then Inr (- E_BAD_ENV, None)
        else if checkperm \<and> Some e \<noteq> curenv k then
          chain (deref (curenv k)) (\<lambda>c.
            if env_parent_id (envs k e) \<noteq> env_id (envs k c)
            then Inr (- E_BAD_ENV, None) else Inr (0, Some e))
        else Inr (0, Some e))"

definition env_init :: "kst \<Rightarrow> kst" where
  "env_init k = k\<lparr>envs := (\<lambda>i. if i < NENV then (envs k i)\<lparr>env_id := 0, env_status := ENV_FREE,
         env_link := (if i = NENV - 1 then None else Some (i + 1))\<rparr> else envs k i),
       env_free_list := Some 0\<rparr>"

section \<open>Creating environments\<close>

definition env_setup_vm :: "kst \<Rightarrow> nat \<Rightarrow> fault + (int \<times> kst)" where
  "env_setup_vm k e =
     chain (page_alloc (mem k) True) (\<lambda>(p, m).
       case p of
         None \<Rightarrow> Inr (- E_NO_MEM, k\<lparr>mem := m\<rparr>)
       | Some pp \<Rightarrow>
           chain (kframe m (page2pa pp)) (\<lambda>f.
           let m1 = m\<lparr>phys := (phys m)(f := phys m (kern_pgdir k))\<rparr>;
               m2 = incref m1 pp;
               m3 = write_pte m2 (f, unat (PDX UVPT)) (page2pa f OR PTE_P OR PTE_U) in
           Inr (0, upd_env (k\<lparr>mem := m3\<rparr>) e (\<lambda>v. v\<lparr>env_pgdir := Some f\<rparr>))))"

definition next_env_id :: "u32 \<Rightarrow> nat \<Rightarrow> u32" where
  "next_env_id old idx =
     (let g0 = (old + push_bit ENVGENSHIFT 1) AND NOT (word_of_nat NENV - 1);
          generation = (if sint g0 \<le> 0 then push_bit ENVGENSHIFT 1 else g0) in
      generation OR word_of_nat idx)"

definition fresh_env :: "u32 \<Rightarrow> nat \<Rightarrow> env \<Rightarrow> env" where
  "fresh_env parent idx v =
     v\<lparr>env_id := next_env_id (env_id v) idx, env_parent_id := parent, env_type := ENV_TYPE_USER,
       env_status := ENV_RUNNABLE, env_runs := 0, env_tickets := TICKET_STEP,
       env_tf := zero_tf\<lparr>tf_ds := GD_UD OR 3, tf_es := GD_UD OR 3, tf_ss := GD_UD OR 3,
         tf_esp := USTACKTOP, tf_cs := GD_UT OR 3, tf_eflags := 0 OR FL_IF\<rparr>,
       env_pgfault_upcall := 0, env_ipc_recving := False\<rparr>"

definition env_alloc :: "kst \<Rightarrow> u32 \<Rightarrow> fault + (int \<times> nat option \<times> kst)" where
  "env_alloc k parent_id =
     (case env_free_list k of
        None \<Rightarrow> Inr (- E_NO_FREE_ENV, None, k)
      | Some e \<Rightarrow>
          chain (env_setup_vm k e) (\<lambda>(r, k1).
            if r < 0 then Inr (r, None, k1)
            else let k2 = upd_env k1 e (fresh_env parent_id e) in
                 Inr (0, Some e, k2\<lparr>env_free_list := env_link (envs k2 e)\<rparr>)))"

definition region_alloc :: "kst \<Rightarrow> nat \<Rightarrow> u32 \<Rightarrow> u32 \<Rightarrow> fault + kst" where
  "region_alloc k e va len =
     (let va_lo = ROUNDDOWN va PGSIZE;
          va_hi = ROUNDUP (va + len) PGSIZE in
      if va_hi > UTOP then Inl (Panic ''region_alloc: cannot map in high va'')
      else chain
        (run_steps (\<lambda>m va_act.
           chain (page_alloc m False) (\<lambda>(p, m1).
             case p of
               None \<Rightarrow> Inl (Panic ''region_alloc: could not alloc page'')
             | Some pp \<Rightarrow>
                 chain (deref (env_pgdir (envs k e))) (\<lambda>d.
                 chain (page_insert (cur_pgdir k) m1 d pp va_act (PTE_U OR PTE_W)) (\<lambda>(m2, r).
                   if r \<noteq> 0 then Inl (Panic ''region_alloc: page_insert falied'') else Inr m2))))
           (mem k) (page_steps va_lo va_hi))
        (\<lambda>m. Inr (k\<lparr>mem := m\<rparr>)))"

section \<open>Loading a program (\<^verbatim>\<open>inc/elf.h\<close>, \<^verbatim>\<open>load_icode\<close>)\<close>

text \<open>The image is the list of its bytes; a field read beyond its end is out of bounds.\<close>

definition ELF_MAGIC :: u32 where "ELF_MAGIC = 0x464C457F"
definition ELF_PROG_LOAD :: u32 where "ELF_PROG_LOAD = 1"

definition byte_at :: "u8 list \<Rightarrow> nat \<Rightarrow> fault + u8" where
  "byte_at bs i = (if i < length bs then Inr (bs ! i) else Inl OutOfBounds)"

definition u16_at :: "u8 list \<Rightarrow> nat \<Rightarrow> fault + u32" where
  "u16_at bs i = chain (byte_at bs i) (\<lambda>b0. chain (byte_at bs (i + 1)) (\<lambda>b1.
     Inr (ucast b0 OR push_bit 8 (ucast b1))))"

definition u32_at :: "u8 list \<Rightarrow> nat \<Rightarrow> fault + u32" where
  "u32_at bs i = chain (u16_at bs i) (\<lambda>w0. chain (u16_at bs (i + 2)) (\<lambda>w1.
     Inr (w0 OR push_bit 16 w1)))"

record elf_hdr =
  e_magic :: u32
  e_entry :: u32
  e_phoff :: u32
  e_phnum :: u32

record proghdr =
  p_type :: u32
  p_offset :: u32
  p_va :: u32
  p_filesz :: u32
  p_memsz :: u32

definition elf_at :: "u8 list \<Rightarrow> fault + elf_hdr" where
  "elf_at bs =
     chain (u32_at bs 0) (\<lambda>magic. chain (u32_at bs 24) (\<lambda>entry.
     chain (u32_at bs 28) (\<lambda>phoff. chain (u16_at bs 44) (\<lambda>phnum.
       Inr \<lparr>e_magic = magic, e_entry = entry, e_phoff = phoff, e_phnum = phnum\<rparr>))))"

definition proghdr_at :: "u8 list \<Rightarrow> nat \<Rightarrow> fault + proghdr" where
  "proghdr_at bs i =
     chain (u32_at bs i) (\<lambda>t. chain (u32_at bs (i + 4)) (\<lambda>off. chain (u32_at bs (i + 8)) (\<lambda>va.
     chain (u32_at bs (i + 16)) (\<lambda>fs. chain (u32_at bs (i + 20)) (\<lambda>ms.
       Inr \<lparr>p_type = t, p_offset = off, p_va = va, p_filesz = fs, p_memsz = ms\<rparr>)))))"

fun copy_image :: "u8 list \<Rightarrow> nat \<Rightarrow> nat \<Rightarrow> kmem \<Rightarrow> nat \<Rightarrow> u32 \<Rightarrow> fault + kmem" where
  "copy_image bs off 0 m pgdir va = Inr m"
| "copy_image bs off (Suc n) m pgdir va =
     chain (byte_at bs off) (\<lambda>b.
     chain (store_byte m pgdir va b) (\<lambda>m1. copy_image bs (Suc off) n m1 pgdir (va + 1)))"

definition load_segment :: "u8 list \<Rightarrow> nat \<Rightarrow> nat \<Rightarrow> kst \<Rightarrow> nat \<Rightarrow> fault + kst" where
  "load_segment binary e phoff k i =
     chain (proghdr_at binary (phoff + 32 * i)) (\<lambda>ph.
       if p_type ph \<noteq> ELF_PROG_LOAD then Inr k
       else chain (region_alloc k e (p_va ph) (p_memsz ph)) (\<lambda>k1.
            chain (store_bytes_at (mem k1) (cr3 k1) (p_va ph) (replicate (unat (p_memsz ph)) 0)) (\<lambda>m2.
            chain (copy_image binary (unat (p_offset ph)) (unat (p_filesz ph)) m2 (cr3 k1) (p_va ph)) (\<lambda>m3.
              Inr (k1\<lparr>mem := m3\<rparr>)))))"

definition load_icode :: "kst \<Rightarrow> nat \<Rightarrow> u8 list \<Rightarrow> fault + kst" where
  "load_icode k e binary =
     chain (elf_at binary) (\<lambda>elf.
       if e_magic elf \<noteq> ELF_MAGIC then Inl (Panic ''load_icode: not an elf file'')
       else chain (deref (env_pgdir (envs k e))) (\<lambda>d.
         chain (run_steps (load_segment binary e (unat (e_phoff elf))) (k\<lparr>cr3 := d\<rparr>)
                  [0..<unat (e_phnum elf)]) (\<lambda>k1.
         chain (region_alloc k1 e (USTACKTOP - PGSIZE) PGSIZE) (\<lambda>k2.
           Inr ((upd_env k2 e (\<lambda>v. v\<lparr>env_tf := (env_tf v)\<lparr>tf_eip := e_entry elf\<rparr>\<rparr>))\<lparr>cr3 := kern_pgdir k2\<rparr>)))))"

definition env_create :: "kst \<Rightarrow> u8 list \<Rightarrow> u32 \<Rightarrow> fault + kst" where
  "env_create k binary ty =
     chain (env_alloc k 0) (\<lambda>(err, e, k1).
       if err < 0 then Inl (Panic ''env_create'')
       else chain (deref e) (\<lambda>i.
            chain (load_icode k1 i binary) (\<lambda>k2. Inr (upd_env k2 i (\<lambda>v. v\<lparr>env_type := ty\<rparr>)))))"

section \<open>Freeing environments\<close>

text \<open>One page table of the environment: unmap its pages, drop it from the directory.\<close>

definition free_table :: "nat option option \<Rightarrow> nat \<Rightarrow> kmem \<Rightarrow> nat \<Rightarrow> fault + kmem" where
  "free_table cur pgdir m pdeno =
     (let pde = phys m pgdir pdeno in
      if pde AND PTE_P = 0 then Inr m
      else chain (kframe m (PTE_ADDR pde)) (\<lambda>pt.
        chain (run_steps (\<lambda>m pteno.
                 if phys m pt pteno AND PTE_P \<noteq> 0
                 then page_remove cur m pgdir (PGADDR (word_of_nat pdeno) (word_of_nat pteno) 0)
                 else Inr m) m [0..<unat (PTX (NOT 0)) + 1]) (\<lambda>m1.
        let m2 = write_pte m1 (pgdir, pdeno) 0 in
        chain (pa2page m2 (PTE_ADDR pde)) (\<lambda>pp. page_decref m2 pp))))"

definition env_free :: "kst \<Rightarrow> nat \<Rightarrow> fault + kst" where
  "env_free k e =
     (let k1 = (if Some e = curenv k then k\<lparr>cr3 := kern_pgdir k\<rparr> else k) in
      chain (deref (env_pgdir (envs k1 e))) (\<lambda>d.
      chain (run_steps (free_table (cur_pgdir k1) d) (mem k1) [0..<unat (PDX UTOP)]) (\<lambda>m1.
      let k2 = upd_env (k1\<lparr>mem := m1\<rparr>) e (\<lambda>v. v\<lparr>env_pgdir := None\<rparr>) in
      chain (pa2page (mem k2) (page2pa d)) (\<lambda>pp.
      chain (page_decref (mem k2) pp) (\<lambda>m2.
        Inr ((upd_env (k2\<lparr>mem := m2\<rparr>) e
               (\<lambda>v. v\<lparr>env_status := ENV_FREE, env_link := env_free_list k2\<rparr>))\<lparr>env_free_list := Some e\<rparr>)))))) "

section \<open>Running environments\<close>

definition lock_kernel :: "kst \<Rightarrow> fault + (unit ctl \<times> kst)" where
  "lock_kernel k =
     chain (spin_lock [] (kernel_lock k) (this_cpu k)) (\<lambda>r.
       case r of
         None \<Rightarrow> Inr (SpinWait, k)
       | Some lk \<Rightarrow> Inr (Return (), k\<lparr>kernel_lock := lk\<rparr>))"

definition unlock_kernel :: "kst \<Rightarrow> fault + kst" where
  "unlock_kernel k =
     chain (spin_unlock (kernel_lock k) (this_cpu k)) (\<lambda>lk. Inr (k\<lparr>kernel_lock := lk\<rparr>))"

definition env_load_pgdir :: "kst \<Rightarrow> nat \<Rightarrow> fault + kst" where
  "env_load_pgdir k e = chain (deref (env_pgdir (envs k e))) (\<lambda>d. Inr (k\<lparr>cr3 := d\<rparr>))"

definition env_run :: "kst \<Rightarrow> nat \<Rightarrow> fault + ('a ctl \<times> kst)" where
  "env_run k e =
     (let k1 = (case curenv k of
                  Some c \<Rightarrow> if env_status (envs k c) = ENV_RUNNING
                            then upd_env k c (\<lambda>v. v\<lparr>env_status := ENV_RUNNABLE\<rparr>) else k
                | None \<Rightarrow> k);
          k2 = upd_env (set_curenv k1 (Some e)) e
                 (\<lambda>v. v\<lparr>env_status := ENV_RUNNING, env_runs := env_runs v + 1\<rparr>) in
      chain (env_load_pgdir k2 e) (\<lambda>k3.
      chain (unlock_kernel k3) (\<lambda>k4.
        Inr (RunEnv e, upd_env k4 e (\<lambda>v. v\<lparr>env_cpunum := this_cpu k4\<rparr>)))))"

end
