(* ===== verification/Sched.thy ===== *)
theory Sched
  imports Env
begin

unbundle bit_operations_syntax

text \<open>
  The scheduler: \<^verbatim>\<open>kern/sched.c\<close>, with \<^verbatim>\<open>env_destroy\<close> of \<^verbatim>\<open>kern/env.c\<close>, which ends in it.
  \<^verbatim>\<open>env_run\<close> does not return, so the loops that search for an environment stop at the first
  one they run.
\<close>

section \<open>Random numbers\<close>

definition lcg_N :: u32 where "lcg_N = 0x7fffffff"
definition lcg_G :: u32 where "lcg_G = 48271"

definition lcg_parkmiller :: "u32 \<Rightarrow> u32" where
  "lcg_parkmiller state =
     (let d = state div (lcg_N div lcg_G);
          r = state mod (lcg_N div lcg_G);
          a = r * lcg_G;
          b = d * (lcg_N mod lcg_G) in
      if a > b then a - b else a + (lcg_N - b))"

definition next_random :: "kst \<Rightarrow> u32 \<times> kst" where
  "next_random k = (let v = lcg_parkmiller (random_seed k) in (v, k\<lparr>random_seed := v\<rparr>))"

section \<open>The record of executions\<close>

definition HIST_MAX_SIZE :: nat where "HIST_MAX_SIZE = 10000"

definition add_to_historial :: "kst \<Rightarrow> nat \<Rightarrow> kst" where
  "add_to_historial k e =
     (let p = ultima_posicion k; v = envs k e;
          k1 = k\<lparr>historial := (historial k)(p := \<lparr>hist_env_id = env_id v,
                   hist_env_tickets = env_tickets v, hist_env_runs = env_runs v\<rparr>),
                 ultima_posicion := p + 1\<rparr>;
          k2 = (if ultima_posicion k1 > max_historial_indx k1
                then k1\<lparr>max_historial_indx := ultima_posicion k1\<rparr> else k1) in
      if ultima_posicion k2 = HIST_MAX_SIZE then k2\<lparr>ultima_posicion := 0\<rparr> else k2)"

section \<open>Choosing an environment\<close>

definition contends :: "env \<Rightarrow> bool" where
  "contends v \<longleftrightarrow> env_status v = ENV_RUNNING \<or> env_status v = ENV_RUNNABLE"

definition ticket_pool :: "(nat \<Rightarrow> env) \<Rightarrow> nat \<Rightarrow> int" where
  "ticket_pool es n = sum_list (map (\<lambda>i. env_tickets (es i)) (filter (\<lambda>i. contends (es i)) [0..<n]))"

text \<open>The second loop of \<^verbatim>\<open>lottery\<close>: the environment at which the running sum reaches \<open>winner\<close>.\<close>

fun draw :: "(nat \<Rightarrow> env) \<Rightarrow> int \<Rightarrow> int \<Rightarrow> nat list \<Rightarrow> nat option" where
  "draw es winner j [] = None"
| "draw es winner j (i # is) =
     (if \<not> contends (es i) then draw es winner j is
      else let j' = j + env_tickets (es i) in
           if j' \<ge> winner then Some i else draw es winner j' is)"

definition lottery_winner :: "u32 \<Rightarrow> int \<Rightarrow> int" where
  "lottery_winner r pool = sint (r mod word_of_int (pool + 1))"

definition lottery :: "kst \<Rightarrow> fault + (unit ctl \<times> kst)" where
  "lottery k =
     (let pool = ticket_pool (envs k) NENV;
          (r, k1) = next_random k;
          winner = lottery_winner r pool in
      case draw (envs k1) winner 0 [0..<NENV] of
        Some i \<Rightarrow> env_run (add_to_historial k1 i) i
      | None \<Rightarrow> Inr (Return (), k1))"

definition round_robin :: "kst \<Rightarrow> fault + (unit ctl \<times> kst)" where
  "round_robin k =
     (let n = (case curenv k of Some c \<Rightarrow> ENVX (env_id (envs k c)) + 1 | None \<Rightarrow> 0) in
      case scan (\<lambda>_. True) (\<lambda>i. env_status (envs k ((n + i) mod NENV)) = ENV_RUNNABLE) [0..<NENV] of
        Some i \<Rightarrow> env_run k ((n + i) mod NENV)
      | None \<Rightarrow>
          (case curenv k of
             Some c \<Rightarrow> if env_status (envs k c) = ENV_RUNNING
                       then env_run k (ENVX (env_id (envs k c))) else Inr (Return (), k)
           | None \<Rightarrow> Inr (Return (), k)))"

section \<open>Halting and yielding\<close>

definition sched_halt :: "kst \<Rightarrow> fault + ('a ctl \<times> kst)" where
  "sched_halt k =
     (case scan (\<lambda>_. True) (\<lambda>i. env_status (envs k i) \<in> {ENV_RUNNABLE, ENV_RUNNING, ENV_DYING}) [0..<NENV] of
        None \<Rightarrow> Inr (MonitorLoop, k)
      | Some _ \<Rightarrow>
          let k1 = (set_curenv k None)\<lparr>cr3 := kern_pgdir k\<rparr>;
              k2 = k1\<lparr>cpu_status := (cpu_status k1)(this_cpu k1 := CPU_HALTED)\<rparr> in
          chain (unlock_kernel k2) (\<lambda>k3. Inr (HaltCpu, k3)))"

definition sched_yield :: "kst \<Rightarrow> fault + ('a ctl \<times> kst)" where
  "sched_yield k = bindc (lottery k) (\<lambda>_ k1. sched_halt k1)"

section \<open>Destroying an environment\<close>

definition env_destroy :: "kst \<Rightarrow> nat \<Rightarrow> fault + (unit ctl \<times> kst)" where
  "env_destroy k e =
     (if env_status (envs k e) = ENV_RUNNING \<and> curenv k \<noteq> Some e
      then Inr (Return (), upd_env k e (\<lambda>v. v\<lparr>env_status := ENV_DYING\<rparr>))
      else chain (env_free k e) (\<lambda>k1.
        if curenv k1 = Some e then sched_yield (set_curenv k1 None)
        else Inr (Return (), k1)))"

definition user_mem_assert :: "kst \<Rightarrow> nat \<Rightarrow> u32 \<Rightarrow> u32 \<Rightarrow> u32 \<Rightarrow> fault + (unit ctl \<times> kst)" where
  "user_mem_assert k e va len perm =
     chain (deref (env_pgdir (envs k e))) (\<lambda>d.
     chain (user_mem_check (mem k) d va len (perm OR PTE_U)) (\<lambda>(m, r).
       if r < 0 then env_destroy (k\<lparr>mem := m\<rparr>) e
       else Inr (Return (), k\<lparr>mem := m\<rparr>)))"

end
