(* ===== verification/Syscall.thy ===== *)
theory Syscall
  imports Sched
begin

unbundle bit_operations_syntax

text \<open>
  System calls: \<^verbatim>\<open>kern/syscall.c\<close> with the numbers of \<^verbatim>\<open>inc/syscall.h\<close>. Every call returns its
  \<^verbatim>\<open>int\<close> with the new state, or does not return to its caller at all (\<^typ>\<open>'a ctl\<close>). The
  console is outside the kernel state: \<open>getc\<close> is what \<^verbatim>\<open>cons_getc\<close> answers.
\<close>

type_synonym sysret = "fault + (int ctl \<times> kst)"

abbreviation ret :: "int \<Rightarrow> kst \<Rightarrow> sysret" where
  "ret r k \<equiv> Inr (Return r, k)"

section \<open>Numbers\<close>

definition SYS_cputs :: u32 where "SYS_cputs = 0"
definition SYS_cgetc :: u32 where "SYS_cgetc = 1"
definition SYS_getenvid :: u32 where "SYS_getenvid = 2"
definition SYS_env_destroy :: u32 where "SYS_env_destroy = 3"
definition SYS_page_alloc :: u32 where "SYS_page_alloc = 4"
definition SYS_page_map :: u32 where "SYS_page_map = 5"
definition SYS_page_unmap :: u32 where "SYS_page_unmap = 6"
definition SYS_exofork :: u32 where "SYS_exofork = 7"
definition SYS_env_set_status :: u32 where "SYS_env_set_status = 8"
definition SYS_env_set_pgfault_upcall :: u32 where "SYS_env_set_pgfault_upcall = 9"
definition SYS_yield :: u32 where "SYS_yield = 10"
definition SYS_ipc_try_send :: u32 where "SYS_ipc_try_send = 11"
definition SYS_ipc_recv :: u32 where "SYS_ipc_recv = 12"

definition NSYSCALLS :: u32 where "NSYSCALLS = 13"
definition SYS_env_set_priority :: u32 where "SYS_env_set_priority = 14"
definition SYS_env_get_priority :: u32 where "SYS_env_get_priority = 15"

lemmas sys_numbers = SYS_cputs_def SYS_cgetc_def SYS_getenvid_def SYS_env_destroy_def SYS_page_alloc_def
  SYS_page_map_def SYS_page_unmap_def SYS_exofork_def SYS_env_set_status_def
  SYS_env_set_pgfault_upcall_def SYS_yield_def SYS_ipc_try_send_def SYS_ipc_recv_def NSYSCALLS_def
  SYS_env_set_priority_def SYS_env_get_priority_def

section \<open>Pages of an environment\<close>

definition check_perm :: "u32 \<Rightarrow> u32 option \<Rightarrow> int" where
  "check_perm perm pte =
     (if perm AND NOT PTE_SYSCALL \<noteq> 0 then - E_INVAL
      else if perm AND PTE_P = 0 \<or> perm AND PTE_U = 0 then - E_INVAL
      else case pte of
        None \<Rightarrow> 0
      | Some e \<Rightarrow>
          if e \<noteq> 0 \<and> e AND PTE_P = 0 then - E_INVAL
          else if perm AND PTE_W \<noteq> 0 \<and> e AND PTE_W = 0 then - E_INVAL
          else 0)"

definition insert_page :: "kst \<Rightarrow> kmem \<Rightarrow> nat \<Rightarrow> nat \<Rightarrow> u32 \<Rightarrow> u32 \<Rightarrow> fault + (int \<times> kst)" where
  "insert_page k m e pp va perm =
     chain (deref (env_pgdir (envs k e))) (\<lambda>d.
     chain (page_insert (cur_pgdir k) m d pp va perm) (\<lambda>(m1, r). Inr (r, k\<lparr>mem := m1\<rparr>)))"

definition env_page_alloc :: "kst \<Rightarrow> nat \<Rightarrow> u32 \<Rightarrow> u32 \<Rightarrow> fault + (int \<times> kst)" where
  "env_page_alloc k e va perm =
     (let err = check_perm perm None in
      if err < 0 then Inr (err, k)
      else chain (page_alloc (mem k) True) (\<lambda>(p, m).
        case p of
          None \<Rightarrow> Inr (- E_NO_MEM, k\<lparr>mem := m\<rparr>)
        | Some pp \<Rightarrow> insert_page k m e pp va perm))"

definition env_page_map :: "kst \<Rightarrow> nat \<Rightarrow> u32 \<Rightarrow> nat \<Rightarrow> u32 \<Rightarrow> u32 \<Rightarrow> fault + (int \<times> kst)" where
  "env_page_map k srcenv srcva dstenv dstva perm =
     chain (deref (env_pgdir (envs k srcenv))) (\<lambda>sd.
     chain (page_lookup (mem k) sd srcva) (\<lambda>found.
       case found of
         None \<Rightarrow> Inr (- E_INVAL, k)
       | Some (pp, q) \<Rightarrow>
           if (perm AND PTE_W) AND NOT (PTE_W AND read_pte (mem k) q) \<noteq> 0 then Inr (- E_INVAL, k)
           else insert_page k (mem k) dstenv pp dstva perm))"

section \<open>Console\<close>

text \<open>The characters \<^verbatim>\<open>cprintf("%.*s", len, s)\<close> prints: up to \<open>len\<close> bytes, none from a zero byte on.\<close>

fun printed :: "kmem \<Rightarrow> nat \<Rightarrow> u32 \<Rightarrow> nat \<Rightarrow> fault + u8 list" where
  "printed m d va 0 = Inr []"
| "printed m d va (Suc n) =
     chain (load_byte m d va) (\<lambda>b.
       if b = 0 then Inr []
       else chain (printed m d (va + 1) n) (\<lambda>bs. Inr (b # bs)))"

definition sys_cputs :: "kst \<Rightarrow> u32 \<Rightarrow> u32 \<Rightarrow> fault + (u8 list ctl \<times> kst)" where
  "sys_cputs k s len =
     chain (deref (curenv k)) (\<lambda>c.
     bindc (user_mem_assert k c s len (PTE_P OR PTE_W OR PTE_U)) (\<lambda>_ k1.
       chain (printed (mem k1) (cr3 k1) s (unat len)) (\<lambda>bs. Inr (Return bs, k1))))"

definition sys_cgetc :: "int \<Rightarrow> kst \<Rightarrow> sysret" where
  "sys_cgetc getc k = ret getc k"

section \<open>Environments\<close>

definition sys_getenvid :: "kst \<Rightarrow> sysret" where
  "sys_getenvid k = chain (deref (curenv k)) (\<lambda>c. ret (sint (env_id (envs k c))) k)"

definition sys_env_destroy :: "kst \<Rightarrow> u32 \<Rightarrow> sysret" where
  "sys_env_destroy k envid =
     chain (envid2env k envid True) (\<lambda>(r, e).
       if r < 0 then ret r k
       else chain (deref e) (\<lambda>i. bindc (env_destroy k i) (\<lambda>_ k1. ret 0 k1)))"

definition sys_yield :: "kst \<Rightarrow> fault + (unit ctl \<times> kst)" where
  "sys_yield k = sched_yield k"

definition sys_exofork :: "kst \<Rightarrow> sysret" where
  "sys_exofork k =
     chain (deref (curenv k)) (\<lambda>c.
     chain (env_alloc k (env_id (envs k c))) (\<lambda>(r, newenv, k1).
       if r \<noteq> 0 then ret r k1
       else chain (deref newenv) (\<lambda>i.
         let tf = env_tf (envs k1 c);
             k2 = upd_env k1 i (\<lambda>v. v\<lparr>env_status := ENV_NOT_RUNNABLE,
                    env_tf := tf\<lparr>tf_regs := (tf_regs tf)\<lparr>reg_eax := 0\<rparr>\<rparr>,
                    env_tickets := env_tickets (envs k1 c)\<rparr>) in
         ret (sint (env_id (envs k2 i))) k2)))"

definition status_of :: "int \<Rightarrow> env_status_t" where
  "status_of i = (if i = status_code ENV_RUNNABLE then ENV_RUNNABLE else ENV_NOT_RUNNABLE)"

definition sys_env_set_status :: "kst \<Rightarrow> u32 \<Rightarrow> int \<Rightarrow> sysret" where
  "sys_env_set_status k envid status =
     (if status \<noteq> status_code ENV_RUNNABLE \<and> status \<noteq> status_code ENV_NOT_RUNNABLE then ret (- E_INVAL) k
      else chain (envid2env k envid True) (\<lambda>(r, e).
        if r \<noteq> 0 then ret r k
        else chain (deref e) (\<lambda>i. ret 0 (upd_env k i (\<lambda>v. v\<lparr>env_status := status_of status\<rparr>)))))"

definition sys_env_set_pgfault_upcall :: "kst \<Rightarrow> u32 \<Rightarrow> u32 \<Rightarrow> sysret" where
  "sys_env_set_pgfault_upcall k envid func =
     chain (envid2env k envid True) (\<lambda>(r, e).
       if r \<noteq> 0 then ret r k
       else chain (deref e) (\<lambda>i.
         bindc (user_mem_assert k i func PGSIZE (PTE_P OR PTE_U)) (\<lambda>_ k1.
           ret 0 (upd_env k1 i (\<lambda>v. v\<lparr>env_pgfault_upcall := func\<rparr>)))))"

section \<open>Memory\<close>

definition bad_va :: "u32 \<Rightarrow> bool" where
  "bad_va va \<longleftrightarrow> va \<ge> UTOP \<or> va mod PGSIZE \<noteq> 0"

definition sys_page_alloc :: "kst \<Rightarrow> u32 \<Rightarrow> u32 \<Rightarrow> u32 \<Rightarrow> sysret" where
  "sys_page_alloc k envid va perm =
     (if bad_va va then ret (- E_INVAL) k
      else chain (envid2env k envid True) (\<lambda>(r, e).
        if r \<noteq> 0 then ret r k
        else chain (deref e) (\<lambda>i.
          chain (env_page_alloc k i va (perm OR PTE_U OR PTE_P)) (\<lambda>(r1, k1). ret r1 k1))))"

definition sys_page_map :: "kst \<Rightarrow> u32 \<Rightarrow> u32 \<Rightarrow> u32 \<Rightarrow> u32 \<Rightarrow> u32 \<Rightarrow> sysret" where
  "sys_page_map k srcenvid srcva dstenvid dstva perm =
     (if bad_va srcva then ret (- E_INVAL) k
      else if bad_va dstva then ret (- E_INVAL) k
      else chain (envid2env k srcenvid True) (\<lambda>(r, srcenv).
        if r \<noteq> 0 then ret r k
        else chain (envid2env k dstenvid True) (\<lambda>(r2, dstenv).
          if r2 \<noteq> 0 then ret r2 k
          else chain (deref srcenv) (\<lambda>s. chain (deref dstenv) (\<lambda>d.
            chain (env_page_map k s srcva d dstva (PTE_P OR PTE_U OR perm)) (\<lambda>(r3, k1). ret r3 k1))))))"

definition sys_page_unmap :: "kst \<Rightarrow> u32 \<Rightarrow> u32 \<Rightarrow> sysret" where
  "sys_page_unmap k envid va =
     (if bad_va va then ret (- E_INVAL) k
      else chain (envid2env k envid True) (\<lambda>(r, e).
        if r \<noteq> 0 then ret r k
        else chain (deref e) (\<lambda>i.
          chain (deref (env_pgdir (envs k i))) (\<lambda>d.
          chain (page_remove (cur_pgdir k) (mem k) d va) (\<lambda>m. ret 0 (k\<lparr>mem := m\<rparr>))))))"

section \<open>Messages\<close>

text \<open>The end of a successful send, at the label \<^verbatim>\<open>bail\<close>.\<close>

definition ipc_deliver :: "kst \<Rightarrow> nat \<Rightarrow> u32 \<Rightarrow> sysret" where
  "ipc_deliver k dst value =
     chain (deref (curenv k)) (\<lambda>c.
       ret 0 (upd_env k dst (\<lambda>v. v\<lparr>env_ipc_from := env_id (envs k c), env_ipc_recving := False,
         env_ipc_value := value,
         env_tf := (env_tf v)\<lparr>tf_regs := (tf_regs (env_tf v))\<lparr>reg_eax := 0\<rparr>\<rparr>,
         env_status := ENV_RUNNABLE\<rparr>)))"

text \<open>The pointer \<^verbatim>\<open>srcpte\<close> is only set when \<^verbatim>\<open>page_lookup\<close> finds a page; the code follows it
  in any case.\<close>

definition sys_ipc_try_send :: "kst \<Rightarrow> u32 \<Rightarrow> u32 \<Rightarrow> u32 \<Rightarrow> u32 \<Rightarrow> sysret" where
  "sys_ipc_try_send k envid value srcva perm =
     chain (envid2env k envid False) (\<lambda>(r, e).
       if r \<noteq> 0 then ret r k
       else chain (deref e) (\<lambda>dst.
         if \<not> env_ipc_recving (envs k dst) then ret (- E_IPC_NOT_RECV) k
         else if srcva \<ge> UTOP then ipc_deliver (upd_env k dst (\<lambda>v. v\<lparr>env_ipc_perm := 0\<rparr>)) dst value
         else if srcva mod PGSIZE \<noteq> 0 then ret (- E_INVAL) k
         else
           chain (deref (curenv k)) (\<lambda>c.
           chain (deref (env_pgdir (envs k c))) (\<lambda>d.
           chain (page_lookup (mem k) d srcva) (\<lambda>found.
             case found of
               None \<Rightarrow> Inl Uninit
             | Some (_, q) \<Rightarrow>
                 let srcpte = read_pte (mem k) q in
                 if srcpte \<noteq> 0 \<and> srcpte AND PTE_P = 0 then ret (- E_INVAL) k
                 else if perm AND PTE_W \<noteq> 0 \<and> srcpte AND PTE_W = 0 then ret (- E_INVAL) k
                 else let perm' = perm OR PTE_U OR PTE_P;
                          dstva = env_ipc_dstva (envs k dst) in
                   if dstva = 0 then ipc_deliver k dst value
                   else chain (env_page_alloc k dst dstva perm') (\<lambda>(r1, k1).
                     if r1 < 0 then ret r1 k1
                     else chain (env_page_map k1 c srcva dst dstva perm') (\<lambda>(r2, k2).
                       if r2 < 0 then ret r2 k2
                       else ipc_deliver (upd_env k2 dst (\<lambda>v. v\<lparr>env_ipc_perm := perm'\<rparr>)) dst value)))))))"

definition sys_ipc_recv :: "kst \<Rightarrow> u32 \<Rightarrow> sysret" where
  "sys_ipc_recv k dstva =
     chain (deref (curenv k)) (\<lambda>c.
     let k1 = upd_env k c (\<lambda>v. v\<lparr>env_ipc_recving := True\<rparr>) in
     if dstva \<ge> UTOP \<or> dstva mod PGSIZE \<noteq> 0 then ret (- E_INVAL) k1
     else bindc (sys_yield (upd_env k1 c (\<lambda>v. v\<lparr>env_ipc_dstva := dstva, env_status := ENV_NOT_RUNNABLE\<rparr>)))
            (\<lambda>_ k2. Inl (Panic ''sys_ipc_recv should not return!'')))"

section \<open>Tickets\<close>

definition drop_ticket :: "env \<Rightarrow> env" where
  "drop_ticket v = (if env_tickets v > 2 then v\<lparr>env_tickets := env_tickets v - 1\<rparr> else v)"

definition sys_env_set_priority :: "kst \<Rightarrow> kst" where
  "sys_env_set_priority k =
     (case curenv k of None \<Rightarrow> k | Some c \<Rightarrow> upd_env k c drop_ticket)"

definition sys_env_get_priority :: "kst \<Rightarrow> sysret" where
  "sys_env_get_priority k = chain (deref (curenv k)) (\<lambda>c. ret (env_tickets (envs k c)) k)"

section \<open>Dispatch\<close>

text \<open>The labels without a \<^verbatim>\<open>return\<close> fall through to the next one, as in the source.\<close>

definition syscall ::
    "int \<Rightarrow> kst \<Rightarrow> u32 \<Rightarrow> u32 \<Rightarrow> u32 \<Rightarrow> u32 \<Rightarrow> u32 \<Rightarrow> u32 \<Rightarrow> sysret" where
  "syscall getc k syscallno a1 a2 a3 a4 a5 =
     (let get_priority = sys_env_get_priority;
          set_priority = (\<lambda>k. get_priority (sys_env_set_priority k)) in
      if syscallno = SYS_cputs then bindc (sys_cputs k a1 a2) (\<lambda>_ k1. ret 0 k1)
      else if syscallno = SYS_getenvid then sys_getenvid k
      else if syscallno = SYS_env_destroy then sys_env_destroy k a1
      else if syscallno = SYS_cgetc then sys_cgetc getc k
      else if syscallno = SYS_exofork then sys_exofork k
      else if syscallno = SYS_env_set_status then sys_env_set_status k a1 (sint a2)
      else if syscallno = SYS_page_alloc then sys_page_alloc k a1 a2 a3
      else if syscallno = SYS_page_map then sys_page_map k a1 a2 a3 a4 a5
      else if syscallno = SYS_page_unmap then sys_page_unmap k a1 a2
      else if syscallno = SYS_ipc_recv then sys_ipc_recv k a1
      else if syscallno = SYS_ipc_try_send then sys_ipc_try_send k a1 a2 a3 a4
      else if syscallno = SYS_env_set_pgfault_upcall then sys_env_set_pgfault_upcall k a1 a2
      else if syscallno = SYS_yield then bindc (sys_yield k) (\<lambda>_ k1. set_priority k1)
      else if syscallno = SYS_env_set_priority then set_priority k
      else if syscallno = SYS_env_get_priority then get_priority k
      else ret (- E_INVAL) k)"

end
