(* ===== verification/Trap.thy ===== *)
theory Trap
  imports Syscall
begin

unbundle bit_operations_syntax

text \<open>
  Traps: \<^verbatim>\<open>kern/trap.c\<close> with the numbers of \<^verbatim>\<open>inc/trap.h\<close>. The two sources of a trap frame are
  kept apart: from user mode the frame is copied into the environment and handlers work on that
  copy; from kernel mode it is the frame on the stack. \<open>cr2\<close> is the faulting address the
  processor reports. The monitor that a breakpoint enters has no command that leaves it.
\<close>

definition T_DIVIDE :: u32 where "T_DIVIDE = 0"
definition T_DEBUG :: u32 where "T_DEBUG = 1"
definition T_NMI :: u32 where "T_NMI = 2"
definition T_BRKPT :: u32 where "T_BRKPT = 3"
definition T_OFLOW :: u32 where "T_OFLOW = 4"
definition T_BOUND :: u32 where "T_BOUND = 5"
definition T_ILLOP :: u32 where "T_ILLOP = 6"
definition T_DEVICE :: u32 where "T_DEVICE = 7"
definition T_DBLFLT :: u32 where "T_DBLFLT = 8"
definition T_TSS :: u32 where "T_TSS = 10"
definition T_SEGNP :: u32 where "T_SEGNP = 11"
definition T_STACK :: u32 where "T_STACK = 12"
definition T_GPFLT :: u32 where "T_GPFLT = 13"
definition T_PGFLT :: u32 where "T_PGFLT = 14"
definition T_FPERR :: u32 where "T_FPERR = 16"
definition T_ALIGN :: u32 where "T_ALIGN = 17"
definition T_MCHK :: u32 where "T_MCHK = 18"
definition T_SIMDERR :: u32 where "T_SIMDERR = 19"
definition T_SYSCALL :: u32 where "T_SYSCALL = 48"
definition T_DEFAULT :: u32 where "T_DEFAULT = 500"
definition IRQ_OFFSET :: u32 where "IRQ_OFFSET = 32"
definition IRQ_TIMER :: u32 where "IRQ_TIMER = 0"
definition IRQ_KBD :: u32 where "IRQ_KBD = 1"
definition IRQ_SERIAL :: u32 where "IRQ_SERIAL = 4"
definition IRQ_SPURIOUS :: u32 where "IRQ_SPURIOUS = 7"
definition IRQ_IDE :: u32 where "IRQ_IDE = 14"
definition IRQ_ERROR :: u32 where "IRQ_ERROR = 19"

lemmas trap_numbers = T_DIVIDE_def T_DEBUG_def T_NMI_def T_BRKPT_def T_OFLOW_def T_BOUND_def T_ILLOP_def
  T_DEVICE_def T_DBLFLT_def T_TSS_def T_SEGNP_def T_STACK_def T_GPFLT_def T_PGFLT_def T_FPERR_def
  T_ALIGN_def T_MCHK_def T_SIMDERR_def T_SYSCALL_def T_DEFAULT_def IRQ_OFFSET_def IRQ_TIMER_def
  IRQ_KBD_def IRQ_SERIAL_def IRQ_SPURIOUS_def IRQ_IDE_def IRQ_ERROR_def

section \<open>Names and gates\<close>

definition excnames :: "string list" where
  "excnames = [''Divide error'', ''Debug'', ''Non-Maskable Interrupt'', ''Breakpoint'', ''Overflow'',
     ''BOUND Range Exceeded'', ''Invalid Opcode'', ''Device Not Available'', ''Double Fault'',
     ''Coprocessor Segment Overrun'', ''Invalid TSS'', ''Segment Not Present'', ''Stack Fault'',
     ''General Protection'', ''Page Fault'', ''(unknown trap)'', ''x87 FPU Floating-Point Error'',
     ''Alignment Check'', ''Machine-Check'', ''SIMD Floating-Point Exception'']"

text \<open>The comparison with \<^verbatim>\<open>ARRAY_SIZE\<close> is unsigned, so a negative number is not an index.\<close>

definition trapname :: "u32 \<Rightarrow> string" where
  "trapname trapno =
     (if trapno < word_of_nat (length excnames) then excnames ! unat trapno
      else if trapno = T_SYSCALL then ''System call''
      else if sint trapno \<ge> sint IRQ_OFFSET \<and> sint trapno < sint (IRQ_OFFSET + 16) then ''Hardware Interrupt''
      else ''(unknown trap)'')"

text \<open>The descriptor of a gate, a field per bit field.\<close>

record gate =
  gd_off_15_0 :: u16
  gd_sel :: u16
  gd_args :: nat
  gd_rsv1 :: nat
  gd_type :: nat
  gd_s :: nat
  gd_dpl :: nat
  gd_p :: nat
  gd_off_31_16 :: u16

definition STS_IG32 :: nat where "STS_IG32 = 0xE"
definition STS_TG32 :: nat where "STS_TG32 = 0xF"

definition SETGATE :: "(u32 \<Rightarrow> gate option) \<Rightarrow> u32 \<Rightarrow> bool \<Rightarrow> u16 \<Rightarrow> u32 \<Rightarrow> nat \<Rightarrow> u32 \<Rightarrow> gate option" where
  "SETGATE idt n istrap sel off dpl =
     idt(n \<mapsto> \<lparr>gd_off_15_0 = ucast (off AND 0xffff), gd_sel = sel, gd_args = 0, gd_rsv1 = 0,
       gd_type = (if istrap then STS_TG32 else STS_IG32), gd_s = 0, gd_dpl = dpl, gd_p = 1,
       gd_off_31_16 = ucast (drop_bit 16 off)\<rparr>)"

text \<open>\<open>entry n\<close> is the address of the assembly entry point \<^verbatim>\<open>trap\<close>\<open>n\<close>.\<close>

definition trap_init :: "(nat \<Rightarrow> u32) \<Rightarrow> (u32 \<Rightarrow> gate option) \<Rightarrow> u32 \<Rightarrow> gate option" where
  "trap_init entry idt =
     fold (\<lambda>(n, i, dpl) t. SETGATE t n False GD_KT (entry i) dpl)
       [(T_DIVIDE, 0, 0), (T_DEBUG, 1, 0), (T_NMI, 2, 0), (T_BRKPT, 3, 3), (T_OFLOW, 4, 0),
        (T_BOUND, 5, 0), (T_ILLOP, 6, 0), (T_DEVICE, 7, 0), (T_DBLFLT, 8, 0), (T_TSS, 10, 0),
        (T_SEGNP, 11, 0), (T_STACK, 12, 0), (T_GPFLT, 13, 0), (T_PGFLT, 14, 0), (T_FPERR, 16, 0),
        (T_ALIGN, 17, 0), (T_MCHK, 18, 0), (T_SIMDERR, 19, 0), (T_SYSCALL, 48, 3),
        (IRQ_OFFSET + IRQ_TIMER, 32, 0)] idt"

section \<open>Page faults\<close>

definition sizeof_UTrapframe :: u32 where "sizeof_UTrapframe = 52"

definition regs_bytes :: "pushregs \<Rightarrow> u8 list" where
  "regs_bytes r = concat (map le_bytes [reg_edi r, reg_esi r, reg_ebp r, reg_oesp r, reg_ebx r, reg_edx r,
     reg_ecx r, reg_eax r])"

definition utf_bytes :: "utrapframe \<Rightarrow> u8 list" where
  "utf_bytes u = le_bytes (utf_fault_va u) @ le_bytes (utf_err u) @ regs_bytes (utf_regs u)
     @ le_bytes (utf_eip u) @ le_bytes (utf_eflags u) @ le_bytes (utf_esp u)"

text \<open>Where the frame goes: below the top of the exception stack for the first fault, below the
  interrupted handler's stack (with a scratch word between) for a nested one.\<close>

definition exstk_frame :: "u32 \<Rightarrow> u32 \<times> bool" where
  "exstk_frame esp =
     (let exstk = UXSTACKTOP - PGSIZE; exstk_top = UXSTACKTOP - 1 in
      if esp < exstk \<or> esp > exstk_top then (exstk_top - sizeof_UTrapframe, False)
      else (esp - 4 - sizeof_UTrapframe, True))"

definition set_env_tf :: "kst \<Rightarrow> nat \<Rightarrow> (trapframe \<Rightarrow> trapframe) \<Rightarrow> kst" where
  "set_env_tf k e f = upd_env k e (\<lambda>v. v\<lparr>env_tf := f (env_tf v)\<rparr>)"

definition page_fault_handler :: "u32 \<Rightarrow> trapframe \<Rightarrow> kst \<Rightarrow> fault + (unit ctl \<times> kst)" where
  "page_fault_handler cr2 tf k =
     (if tf_cs tf AND 3 = 0 then Inl (Panic ''page fault in kernel mode'')
      else chain (deref (curenv k)) (\<lambda>c.
        if env_pgfault_upcall (envs k c) \<noteq> 0 then
          let exstk = UXSTACKTOP - PGSIZE; exstk_top = UXSTACKTOP - 1 in
          bindc (user_mem_assert k c exstk PGSIZE (PTE_U OR PTE_W)) (\<lambda>_ k1.
            let utf = \<lparr>utf_fault_va = cr2, utf_err = tf_err tf, utf_regs = tf_regs tf,
                       utf_eip = tf_eip tf, utf_eflags = tf_eflags tf, utf_esp = tf_esp tf\<rparr>;
                (tmp, nested) = exstk_frame (tf_esp tf) in
            chain (if nested then store_bytes_at (mem k1) (cr3 k1) (tf_esp tf - 4) (le_bytes 0)
                   else Inr (mem k1)) (\<lambda>m1.
            chain (store_bytes_at m1 (cr3 k1) tmp (utf_bytes utf)) (\<lambda>m2.
              if tmp < exstk \<or> tmp > exstk_top
              then Inl (Panic ''page_fault_handler: exception stack overflow'')
              else
                let k2 = set_env_tf (k1\<lparr>mem := m2\<rparr>) c
                           (\<lambda>t. t\<lparr>tf_esp := tmp, tf_eip := env_pgfault_upcall (envs k1 c)\<rparr>) in
                env_run k2 c)))
        else env_destroy k c))"

section \<open>Dispatch\<close>

text \<open>The clock interrupt takes a ticket from the current environment.\<close>

definition timer_tick :: "kst \<Rightarrow> kst" where
  "timer_tick k =
     (case curenv k of
        None \<Rightarrow> k
      | Some c \<Rightarrow> if env_tickets (envs k c) > 2
                  then upd_env k c (\<lambda>v. v\<lparr>env_tickets := env_tickets v - 1\<rparr>) else k)"

text \<open>The result of a system call goes to the frame in use: the copy in the environment for a
  trap from user mode, the frame on the stack otherwise.\<close>

definition trap_dispatch :: "u32 \<Rightarrow> int \<Rightarrow> trapframe \<Rightarrow> kst \<Rightarrow> fault + (unit ctl \<times> kst)" where
  "trap_dispatch cr2 getc tf k =
     (if tf_trapno tf = T_BRKPT then Inr (MonitorLoop, k)
      else if tf_trapno tf = T_PGFLT then page_fault_handler cr2 tf k
      else if tf_trapno tf = T_SYSCALL then
        let r = tf_regs tf in
        bindc (syscall getc k (reg_eax r) (reg_edx r) (reg_ecx r) (reg_ebx r) (reg_edi r) (reg_esi r))
          (\<lambda>v k1. if tf_cs tf AND 3 = 3
             then chain (deref (curenv k)) (\<lambda>c. Inr (Return (), set_env_tf k1 c
               (\<lambda>t. t\<lparr>tf_regs := (tf_regs t)\<lparr>reg_eax := word_of_int v\<rparr>\<rparr>)))
             else Inr (Return (), k1))
      else if tf_trapno tf = IRQ_OFFSET + IRQ_SPURIOUS then Inr (Return (), k)
      else if tf_trapno tf - IRQ_OFFSET = IRQ_TIMER then
        sched_yield (timer_tick k)
      else if tf_cs tf = GD_KT then Inl (Panic ''unhandled trap in kernel'')
      else chain (deref (curenv k)) (\<lambda>c. env_destroy k c))"

text \<open>\<^verbatim>\<open>trap\<close> for a frame that arrives with interrupts disabled and no earlier panic.\<close>

definition trap :: "u32 \<Rightarrow> int \<Rightarrow> trapframe \<Rightarrow> kst \<Rightarrow> fault + (unit ctl \<times> kst)" where
  "trap cr2 getc tf k =
     (let old = cpu_status k (this_cpu k);
          k0 = k\<lparr>cpu_status := (cpu_status k)(this_cpu k := CPU_STARTED)\<rparr> in
      bindc (if old = CPU_HALTED then lock_kernel k0 else Inr (Return (), k0)) (\<lambda>_ k1.
      bindc
        (if tf_cs tf AND 3 = 3 then
           bindc (lock_kernel k1) (\<lambda>_ k2.
             case curenv k2 of
               None \<Rightarrow> Inl (Panic ''assertion failed: curenv'')
             | Some c \<Rightarrow>
                 bindc (if env_status (envs k2 c) = ENV_DYING
                        then chain (env_free k2 c) (\<lambda>k3. sched_yield (set_curenv k3 None))
                        else Inr (Return (), k2))
                   (\<lambda>_ k3. Inr (Return (), set_env_tf k3 c (\<lambda>_. tf))))
         else Inr (Return (), k1)) (\<lambda>_ k4.
      bindc (trap_dispatch cr2 getc tf k4) (\<lambda>_ k5.
        case curenv k5 of
          Some c \<Rightarrow> if env_status (envs k5 c) = ENV_RUNNING then env_run k5 c else sched_yield k5
        | None \<Rightarrow> sched_yield k5))))"

end
