(* ===== verification/Devices.thy ===== *)
theory Devices
  imports Mpconfig Trap
begin

unbundle bit_operations_syntax

text \<open>
  The interrupt hardware: the two 8259A controllers (\<^verbatim>\<open>kern/picirq.c\<close>), the clock's memory
  (\<^verbatim>\<open>kern/kclock.c\<close>) and the local APIC of a processor (\<^verbatim>\<open>kern/lapic.c\<close>). What the kernel writes to a
  device is recorded in order; what it reads from one is an argument. Console output is left out.
\<close>

section \<open>Writes to the devices\<close>

text \<open>\<open>Delivered\<close> is a loop that reads the command register until the last command is delivered.\<close>

datatype dev_write =
    Port u16 u8
  | Apic nat u32
  | Delivered
  | Vector u16 u16

record devices =
  dev_log :: "dev_write list"
  irq_mask_8259A :: u16
  didinit :: bool
  lapic :: "u32 option"

definition IRQ_SLAVE :: nat where "IRQ_SLAVE = 2"
definition IO_PIC1 :: u16 where "IO_PIC1 = 0x20"
definition IO_PIC2 :: u16 where "IO_PIC2 = 0xA0"
definition IO_RTC :: u16 where "IO_RTC = 0x70"

definition init_devices :: devices where
  "init_devices = \<lparr>dev_log = [], irq_mask_8259A = 0xFFFF AND NOT (push_bit IRQ_SLAVE 1),
     didinit = False, lapic = None\<rparr>"

definition out_port :: "u16 \<Rightarrow> u8 \<Rightarrow> devices \<Rightarrow> devices" where
  "out_port p b d = d\<lparr>dev_log := dev_log d @ [Port p b]\<rparr>"

section \<open>Interrupt controllers\<close>

definition irq_setmask_8259A :: "u16 \<Rightarrow> devices \<Rightarrow> devices" where
  "irq_setmask_8259A m d =
     (let d1 = d\<lparr>irq_mask_8259A := m\<rparr> in
      if \<not> didinit d1 then d1
      else out_port (IO_PIC2 + 1) (ucast (drop_bit 8 m)) (out_port (IO_PIC1 + 1) (ucast m) d1))"

definition pic_words :: "(u16 \<times> u8) list" where
  "pic_words =
     [(IO_PIC1 + 1, 0xFF), (IO_PIC2 + 1, 0xFF),
      (IO_PIC1, 0x11), (IO_PIC1 + 1, 32), (IO_PIC1 + 1, push_bit IRQ_SLAVE 1), (IO_PIC1 + 1, 0x3),
      (IO_PIC2, 0x11), (IO_PIC2 + 1, 32 + 8), (IO_PIC2 + 1, word_of_nat IRQ_SLAVE), (IO_PIC2 + 1, 0x01),
      (IO_PIC1, 0x68), (IO_PIC1, 0x0a), (IO_PIC2, 0x68), (IO_PIC2, 0x0a)]"

definition pic_init :: "devices \<Rightarrow> devices" where
  "pic_init d =
     (let d1 = fold (\<lambda>(p, b). out_port p b) pic_words (d\<lparr>didinit := True\<rparr>) in
      if irq_mask_8259A d1 \<noteq> 0xFFFF then irq_setmask_8259A (irq_mask_8259A d1) d1 else d1)"

text \<open>The console enables its interrupt before the controllers are set up.\<close>

definition kbd_irq_init :: "devices \<Rightarrow> devices" where
  "kbd_irq_init d = irq_setmask_8259A (irq_mask_8259A d AND NOT (push_bit (unat IRQ_KBD) 1)) d"

section \<open>The clock's memory\<close>

definition mc146818_read :: "u8 \<Rightarrow> u8 \<Rightarrow> devices \<Rightarrow> u8 \<times> devices" where
  "mc146818_read answer reg d = (answer, out_port IO_RTC reg d)"

definition mc146818_write :: "u8 \<Rightarrow> u8 \<Rightarrow> devices \<Rightarrow> devices" where
  "mc146818_write reg datum d = out_port (IO_RTC + 1) datum (out_port IO_RTC reg d)"

section \<open>The local APIC\<close>

definition ID :: nat where "ID = 0x20 div 4"
definition VER :: nat where "VER = 0x30 div 4"
definition TPR :: nat where "TPR = 0x80 div 4"
definition EOI :: nat where "EOI = 0xB0 div 4"
definition SVR :: nat where "SVR = 0xF0 div 4"
definition ESR :: nat where "ESR = 0x280 div 4"
definition ICRLO :: nat where "ICRLO = 0x300 div 4"
definition ICRHI :: nat where "ICRHI = 0x310 div 4"
definition TIMER :: nat where "TIMER = 0x320 div 4"
definition PCINT :: nat where "PCINT = 0x340 div 4"
definition LINT0 :: nat where "LINT0 = 0x350 div 4"
definition LINT1 :: nat where "LINT1 = 0x360 div 4"
definition ERROR :: nat where "ERROR = 0x370 div 4"
definition TICR :: nat where "TICR = 0x380 div 4"
definition TDCR :: nat where "TDCR = 0x3E0 div 4"

definition ENABLE :: u32 where "ENABLE = 0x100"
definition INIT :: u32 where "INIT = 0x500"
definition STARTUP :: u32 where "STARTUP = 0x600"
definition ASSERT :: u32 where "ASSERT = 0x4000"
definition LEVEL :: u32 where "LEVEL = 0x8000"
definition BCAST :: u32 where "BCAST = 0x80000"
definition OTHERS :: u32 where "OTHERS = 0xC0000"
definition FIXED :: u32 where "FIXED = 0"
definition X1 :: u32 where "X1 = 0xB"
definition PERIODIC :: u32 where "PERIODIC = 0x20000"
definition MASKED :: u32 where "MASKED = 0x10000"

text \<open>A write, which needs the registers to be mapped.\<close>

definition lapicw :: "nat \<Rightarrow> u32 \<Rightarrow> devices \<Rightarrow> fault + devices" where
  "lapicw i v d =
     (case lapic d of None \<Rightarrow> Inl NullDeref | Some _ \<Rightarrow> Inr (d\<lparr>dev_log := dev_log d @ [Apic i v]\<rparr>))"

fun lapic_writes :: "(nat \<times> u32) list \<Rightarrow> devices \<Rightarrow> fault + devices" where
  "lapic_writes [] d = Inr d"
| "lapic_writes ((i, v) # ws) d = chain (lapicw i v d) (lapic_writes ws)"

definition wait_delivered :: "devices \<Rightarrow> devices" where
  "wait_delivered d = d\<lparr>dev_log := dev_log d @ [Delivered]\<rparr>"

text \<open>\<open>ver\<close> is the version register; \<open>boot\<close> tells whether this is the boot processor.\<close>

definition lapic_init ::
    "nat option option \<Rightarrow> nat \<Rightarrow> kmem \<Rightarrow> u32 \<Rightarrow> bool \<Rightarrow> u32 \<Rightarrow> devices \<Rightarrow> fault + (kmem \<times> devices)" where
  "lapic_init cur kpd s pa boot ver d =
     (if pa = 0 then Inr (s, d)
      else chain (mmio_map_region cur kpd s pa 4096) (\<lambda>(va, s1).
        chain (lapic_writes
           ([(SVR, ENABLE OR (IRQ_OFFSET + IRQ_SPURIOUS)), (TDCR, X1),
             (TIMER, PERIODIC OR (IRQ_OFFSET + IRQ_TIMER)), (TICR, 10000000)]
            @ (if boot then [] else [(LINT0, MASKED)]) @ [(LINT1, MASKED)]
            @ (if drop_bit 16 ver AND 0xFF \<ge> 4 then [(PCINT, MASKED)] else [])
            @ [(ERROR, IRQ_OFFSET + IRQ_ERROR), (ESR, 0), (ESR, 0), (EOI, 0), (ICRHI, 0),
               (ICRLO, BCAST OR INIT OR LEVEL)])
           (d\<lparr>lapic := Some va\<rparr>)) (\<lambda>d1.
        chain (lapicw TPR 0 (wait_delivered d1)) (\<lambda>d2. Inr (s1, d2)))))"

definition cpunum :: "u32 \<Rightarrow> devices \<Rightarrow> u32" where
  "cpunum id_reg d = (if lapic d \<noteq> None then drop_bit 24 id_reg else 0)"

definition lapic_eoi :: "devices \<Rightarrow> fault + devices" where
  "lapic_eoi d = (if lapic d \<noteq> None then lapicw EOI 0 d else Inr d)"

definition lapic_startap :: "kmem \<Rightarrow> u8 \<Rightarrow> u32 \<Rightarrow> devices \<Rightarrow> fault + devices" where
  "lapic_startap s apicid addr d =
     (let d1 = out_port (IO_RTC + 1) 0x0A (out_port IO_RTC 0xF d) in
      chain (KADDR s (push_bit 4 0x40 OR 0x67)) (\<lambda>_.
        let d2 = d1\<lparr>dev_log := dev_log d1 @ [Vector 0 (ucast (drop_bit 4 addr))]\<rparr>;
            target = push_bit 24 (ucast apicid); go = (ICRLO, STARTUP OR drop_bit 12 addr) in
        lapic_writes
          [(ICRHI, target), (ICRLO, INIT OR LEVEL OR ASSERT), (ICRLO, INIT OR LEVEL),
           (ICRHI, target), go, (ICRHI, target), go] d2))"

definition lapic_ipi :: "u32 \<Rightarrow> devices \<Rightarrow> fault + devices" where
  "lapic_ipi vector d =
     chain (lapicw ICRLO (OTHERS OR FIXED OR vector) d) (\<lambda>d1. Inr (wait_delivered d1))"

section \<open>What the controllers are left with\<close>

text \<open>The last byte written to a port.\<close>

definition last_byte :: "u16 \<Rightarrow> devices \<Rightarrow> u8 option" where
  "last_byte p d =
     fold (\<lambda>w r. case w of Port q b \<Rightarrow> if q = p then Some b else r | _ \<Rightarrow> r) (dev_log d) None"

lemma last_byte_out: "last_byte p (out_port q b d) = (if q = p then Some b else last_byte p d)"
  by (simp add: last_byte_def out_port_def)

lemma irq_setmask_effect:
  "didinit d \<Longrightarrow> last_byte (IO_PIC1 + 1) (irq_setmask_8259A m d) = Some (ucast m)
     \<and> last_byte (IO_PIC2 + 1) (irq_setmask_8259A m d) = Some (ucast (drop_bit 8 m))"
  by (simp add: irq_setmask_8259A_def last_byte_out last_byte_def[of _ "_\<lparr>irq_mask_8259A := _\<rparr>"] IO_PIC1_def IO_PIC2_def)

text \<open>After the console and the controllers have been set up, exactly the keyboard's interrupt and
  that of the second controller are enabled, and the vectors start at \<^verbatim>\<open>IRQ_OFFSET\<close>.\<close>

lemma boot_mask:
  "last_byte (IO_PIC1 + 1) (pic_init (kbd_irq_init init_devices)) = Some 0xF9"
  "last_byte (IO_PIC2 + 1) (pic_init (kbd_irq_init init_devices)) = Some 0xFF"
  by (simp_all add: pic_init_def kbd_irq_init_def init_devices_def pic_words_def out_port_def
      irq_setmask_8259A_def last_byte_def IO_PIC1_def IO_PIC2_def IRQ_SLAVE_def IRQ_KBD_def Let_def)

end
