(* ===== verification/SchedProps.thy ===== *)
theory SchedProps
  imports Sched
begin

unbundle bit_operations_syntax

text \<open>
  Properties of the scheduler: the generator computes its recurrence without overflow, the
  lottery always draws an environment when one contends and gives each as many winning draws
  as it has tickets, round robin takes the nearest runnable environment, and the record of
  executions stays inside its array.
\<close>

section \<open>The generator\<close>

lemma u32_of_nat: "n < 2 ^ 32 \<Longrightarrow> unat (word_of_nat n :: u32) = n"
  by (simp add: unat_of_nat)

text \<open>C35: From a state between 1 and \<open>2^31 - 2\<close>, \<^verbatim>\<open>lcg_parkmiller\<close> computes the Park-Miller
  step \<open>state * 48271 mod (2^31 - 1)\<close> exactly: Schrage's decomposition never wraps, and the new
  state is in the same range, so the generator never gets stuck at 0.\<close>

theorem lcg_parkmiller_correct:
  assumes "0 < unat s" and "unat s < 2147483647"
  shows "unat (lcg_parkmiller s) = unat s * 48271 mod 2147483647
     \<and> 0 < unat (lcg_parkmiller s) \<and> unat (lcg_parkmiller s) < 2147483647"
proof -
  define d where "d = unat s div 44488"
  define r where "r = unat s mod 44488"
  have s: "unat s = d * 44488 + r" by (simp add: d_def r_def)
  have r: "r < 44488" by (simp add: r_def)
  have d: "d \<le> 48271" using assms(2) by (simp add: d_def)
  define a where "a = r * 48271"
  define b where "b = d * 3399"
  have a: "a < 2147483647" and b: "b < 2147483647" using r d by (simp_all add: a_def b_def)
  have q: "lcg_N div lcg_G = 44488" "lcg_N mod lcg_G = 3399" "unat lcg_N = 2147483647"
    by (simp_all add: lcg_N_def lcg_G_def)
  have wa: "unat ((s mod 44488) * lcg_G) = a" 
    using a by (simp add: unat_word_ariths unat_mod lcg_G_def a_def r_def)
  have wb: "unat ((s div 44488) * 3399) = b"
    using b by (simp add: unat_word_ariths unat_div b_def d_def)
  have lcg: "unat (lcg_parkmiller s) = (if b < a then a - b else a + (2147483647 - b))"
  proof (cases "b < a")
    case True
    then have "(s div 44488) * 3399 < (s mod 44488) * lcg_G" by (simp add: word_less_nat_alt wa wb)
    then show ?thesis using True
      by (simp add: lcg_parkmiller_def q Let_def unat_sub word_le_nat_alt less_imp_le wa wb word_less_nat_alt)
  next
    case False
    have "unat (lcg_N - (s div 44488) * 3399) = 2147483647 - b"
      using b by (simp add: unat_sub word_le_nat_alt q wb)
    then have "unat ((s mod 44488) * lcg_G + (lcg_N - (s div 44488) * 3399)) = a + (2147483647 - b)"
      using a False by (subst unat_word_ariths) (simp add: wa)
    then show ?thesis using False
      by (simp add: lcg_parkmiller_def q Let_def word_less_nat_alt wa wb)
  qed
  have ne: "a \<noteq> b"
  proof
    assume "a = b"
    then have e: "r * 48271 = d * 3399" by (simp add: a_def b_def)
    have "coprime (48271::nat) 3399" by (simp add: coprime_iff_gcd_eq_1 gcd_non_0_nat)
    moreover have "48271 dvd d * 3399" unfolding e[symmetric] by simp
    ultimately have "48271 dvd d" by (simp add: coprime_dvd_mult_left_iff)
    then obtain m where "d = 48271 * m" by auto
    with d have "d = 0 \<or> d = 48271" by (cases m) auto
    with e assms s show False by auto
  qed
  define v where "v = unat (lcg_parkmiller s)"
  have range: "0 < v" "v < 2147483647" using lcg ne a b by (auto simp: v_def split: if_splits)
  have "v + b = a \<or> v + b = a + 2147483647" using lcg b by (auto simp: v_def split: if_splits)
  then have "(v + b) mod 2147483647 = a mod 2147483647" by auto
  moreover have "(unat s * 48271 + b) mod 2147483647 = a mod 2147483647"
  proof -
    have "unat s * 48271 + b = a + d * 2147483647" by (simp add: s a_def b_def algebra_simps)
    then show ?thesis by simp
  qed
  ultimately have "(v + b) mod 2147483647 = (unat s * 48271 + b) mod 2147483647" by simp
  then have "v mod 2147483647 = unat s * 48271 mod 2147483647"
    by (auto simp: nat_mod_eq_iff algebra_simps)
  then show ?thesis using range by (simp add: v_def)
qed

lemma lcg_parkmiller_correct_witness:
  "unat (lcg_parkmiller 2147483646) = 2147483646 * 48271 mod 2147483647"
  using lcg_parkmiller_correct[of 2147483646] by simp

section \<open>The lottery\<close>

text \<open>The tickets of the environments before index \<open>i\<close> that contend.\<close>

lemma ticket_pool_Suc:
  "ticket_pool es (Suc n) = ticket_pool es n + (if contends (es n) then env_tickets (es n) else 0)"
  by (simp add: ticket_pool_def)

lemma ticket_pool_0 [simp]: "ticket_pool es 0 = 0"
  by (simp add: ticket_pool_def)

lemma ticket_pool_mono:
  assumes "\<And>i. i < n \<Longrightarrow> contends (es i) \<Longrightarrow> 0 \<le> env_tickets (es i)" and "m \<le> n"
  shows "ticket_pool es m \<le> ticket_pool es n"
  using assms(2,1)
proof (induction rule: dec_induct)
  case (step k)
  then show ?case using step.prems[of k] by (force simp: ticket_pool_Suc)
qed simp

text \<open>The draw stops at the first environment whose running sum reaches the winner.\<close>

lemma draw_upt:
  assumes "m \<le> n"
  shows "draw es w (ticket_pool es m) [m..<n] = Some i \<longleftrightarrow>
     m \<le> i \<and> i < n \<and> contends (es i) \<and> w \<le> ticket_pool es (Suc i)
     \<and> (\<forall>k. m \<le> k \<and> k < i \<and> contends (es k) \<longrightarrow> ticket_pool es (Suc k) < w)"
  using assms
proof (induction "n - m" arbitrary: m)
  case 0
  then show ?case by simp
next
  case (Suc d)
  then have eq: "[m..<n] = m # [Suc m..<n]" by (simp add: upt_conv_Cons)
  have IH: "draw es w (ticket_pool es (Suc m)) [Suc m..<n] = Some i \<longleftrightarrow>
     Suc m \<le> i \<and> i < n \<and> contends (es i) \<and> w \<le> ticket_pool es (Suc i)
     \<and> (\<forall>k. Suc m \<le> k \<and> k < i \<and> contends (es k) \<longrightarrow> ticket_pool es (Suc k) < w)"
    using Suc.hyps(1)[of "Suc m"] Suc.hyps(2) by simp
  show ?case
  proof (cases "contends (es m) \<and> w \<le> ticket_pool es (Suc m)")
    case True
    then have "draw es w (ticket_pool es m) [m..<n] = Some m"
      unfolding eq using True by (simp add: ticket_pool_Suc Let_def)
    then show ?thesis using True Suc.hyps(2)
      by (auto simp: not_less le_less dest: leD)
  next
    case False
    then have d: "draw es w (ticket_pool es m) [m..<n] = draw es w (ticket_pool es (Suc m)) [Suc m..<n]"
      unfolding eq by (auto simp: ticket_pool_Suc Let_def)
    have "(m \<le> i \<and> i < n \<and> contends (es i) \<and> w \<le> ticket_pool es (Suc i)
     \<and> (\<forall>k. m \<le> k \<and> k < i \<and> contends (es k) \<longrightarrow> ticket_pool es (Suc k) < w)) \<longleftrightarrow>
     (Suc m \<le> i \<and> i < n \<and> contends (es i) \<and> w \<le> ticket_pool es (Suc i)
     \<and> (\<forall>k. Suc m \<le> k \<and> k < i \<and> contends (es k) \<longrightarrow> ticket_pool es (Suc k) < w))" (is "?L = ?R")
    proof
      assume L: ?L
      with False have "m \<noteq> i" by auto
      with L show ?R by auto
    next
      assume R: ?R
      have "ticket_pool es (Suc j) < w" if "m \<le> j" "j < i" "contends (es j)" for j
        using that R False by (cases "j = m") auto
      with R show ?L by auto
    qed
    then show ?thesis unfolding d IH by simp
  qed
qed

text \<open>With tickets at least 1, an environment wins on the numbers of its own segment.\<close>

lemma draw_segment:
  assumes t: "\<And>i. i < n \<Longrightarrow> contends (es i) \<Longrightarrow> 1 \<le> env_tickets (es i)"
    and i: "i < n" "contends (es i)" and prev: "\<exists>k<i. contends (es k)"
  shows "draw es w 0 [0..<n] = Some i \<longleftrightarrow>
     ticket_pool es i < w \<and> w \<le> ticket_pool es i + env_tickets (es i)"
proof -
  define p where "p = Max {k. k < i \<and> contends (es k)}"
  have fin: "finite {k. k < i \<and> contends (es k)}" by simp
  have p: "p < i" "contends (es p)" using Max_in[OF fin] prev by (auto simp: p_def)
  have last: "k \<le> p" if "k < i" "contends (es k)" for k using Max_ge[OF fin] that by (simp add: p_def)
  have same: "ticket_pool es m = ticket_pool es (Suc p)" if "Suc p \<le> m" "m \<le> i" for m
    using that
  proof (induction rule: dec_induct)
    case (step q)
    then have "\<not> contends (es q)" using last[of q] by auto
    with step show ?case by (simp add: ticket_pool_Suc[of es q])
  qed simp
  have pi: "ticket_pool es (Suc p) = ticket_pool es i" using same[of i] p(1) by simp
  have le: "ticket_pool es (Suc k) \<le> ticket_pool es i" if "k < i" for k
    by (rule ticket_pool_mono) (use t i that in \<open>force intro: order_trans[of 0 1]\<close>)+
  have "(\<forall>k. 0 \<le> k \<and> k < i \<and> contends (es k) \<longrightarrow> ticket_pool es (Suc k) < w) \<longleftrightarrow> ticket_pool es i < w"
    using p pi le by (metis le_less_trans le0)
  then show ?thesis
    using draw_upt[of 0 n es w i] i by (auto simp: ticket_pool_Suc)
qed

lemma draw_first:
  assumes i: "i < n" "contends (es i)" and first: "\<forall>k<i. \<not> contends (es k)"
  shows "draw es w 0 [0..<n] = Some i \<longleftrightarrow> w \<le> env_tickets (es i)"
proof -
  have "ticket_pool es m = 0" if "m \<le> i" for m using that first
    by (induction m) (auto simp: ticket_pool_Suc)
  then show ?thesis using draw_upt[of 0 n es w i] i first by (auto simp: ticket_pool_Suc)
qed

text \<open>C22: The lottery is proportional. With every contending environment holding at least one
  ticket, the numbers between 0 and the pool at which an environment wins are exactly as many
  as its tickets, with one more for the first environment in the array, which also gets 0.\<close>

theorem lottery_proportional:
  assumes "\<And>i. i < NENV \<Longrightarrow> contends (es i) \<Longrightarrow> 1 \<le> env_tickets (es i)"
    and "i < NENV" and "contends (es i)"
  shows "card {w \<in> {0..ticket_pool es NENV}. draw es w 0 [0..<NENV] = Some i}
     = nat (env_tickets (es i)) + (if \<exists>k<i. contends (es k) then 0 else 1)"
proof -
  have mono: "ticket_pool es m \<le> ticket_pool es NENV" if "m \<le> NENV" for m
    by (rule ticket_pool_mono) (use assms(1) that in \<open>force intro: order_trans[of 0 1]\<close>)+
  have nonneg: "0 \<le> ticket_pool es i"
    using ticket_pool_mono[of i es 0] assms(1,2) by (force intro: order_trans[of 0 1])
  have up: "ticket_pool es i + env_tickets (es i) \<le> ticket_pool es NENV"
    using mono[of "Suc i"] assms(2,3) by (simp add: ticket_pool_Suc)
  show ?thesis
  proof (cases "\<exists>k<i. contends (es k)")
    case True
    have "{w \<in> {0..ticket_pool es NENV}. draw es w 0 [0..<NENV] = Some i}
        = {ticket_pool es i <.. ticket_pool es i + env_tickets (es i)}"
      by (rule set_eqI, simp only: mem_Collect_eq draw_segment[OF assms True]) (use nonneg up in auto)
    then show ?thesis using True by simp
  next
    case False
    then have first: "\<forall>k<i. \<not> contends (es k)" by blast
    have "{w \<in> {0..ticket_pool es NENV}. draw es w 0 [0..<NENV] = Some i} = {0..env_tickets (es i)}"
      by (rule set_eqI, simp only: mem_Collect_eq draw_first[OF assms(2,3) first]) (use nonneg up in auto)
    then have "card {w \<in> {0..ticket_pool es NENV}. draw es w 0 [0..<NENV] = Some i} = nat (env_tickets (es i) + 1)"
      by (simp only: card_atLeastAtMost_int)
    also have "\<dots> = nat (env_tickets (es i)) + 1" using assms(1)[OF assms(2,3)] by simp
    finally show ?thesis using False by (simp only: if_False)
  qed
qed

text \<open>Three environments of the example: 0 and 2 contend, with 5 and 3 tickets.\<close>

definition demo_envs :: "nat \<Rightarrow> env" where
  "demo_envs i = (if i = 0 then zero_env\<lparr>env_id := 4096, env_status := ENV_RUNNABLE, env_tickets := 5, env_pgdir := Some 1\<rparr>
     else if i = 2 then zero_env\<lparr>env_id := 4098, env_status := ENV_RUNNING, env_tickets := 3, env_pgdir := Some 2\<rparr>
     else zero_env)"

lemma demo_contends: "contends (demo_envs i) \<longleftrightarrow> i = 0 \<or> i = 2"
  by (simp add: contends_def demo_envs_def zero_env_def)

lemma lottery_proportional_witness:
  "card {w \<in> {0..ticket_pool demo_envs NENV}. draw demo_envs w 0 [0..<NENV] = Some 2} = 3"
proof -
  have "card {w \<in> {0..ticket_pool demo_envs NENV}. draw demo_envs w 0 [0..<NENV] = Some 2}
     = nat (env_tickets (demo_envs 2)) + (if \<exists>k<2. contends (demo_envs k) then 0 else 1)"
    by (rule lottery_proportional) (auto simp: demo_contends NENV_def, simp_all add: demo_envs_def)
  moreover have "\<exists>k<2. contends (demo_envs k)" by (rule exI[of _ 0]) (simp add: demo_contends)
  moreover have "env_tickets (demo_envs 2) = 3" by (simp add: demo_envs_def)
  ultimately show ?thesis by simp
qed

lemma lottery_winner_range:
  assumes "0 \<le> pool" and "pool < 2 ^ 30"
  shows "0 \<le> lottery_winner r pool \<and> lottery_winner r pool \<le> pool"
proof -
  let ?w = "word_of_int (pool + 1) :: u32"
  have w: "uint ?w = pool + 1" using assms by (subst uint_word_of_int) simp
  have m: "uint (r mod ?w) = uint r mod (pool + 1)" by (simp only: uint_mod_distrib w)
  have lt: "uint r mod (pool + 1) < pool + 1" "0 \<le> uint r mod (pool + 1)"
    using assms(1) by (simp_all only: pos_mod_bound pos_mod_sign zero_less_one add_nonneg_pos)
  have "sint (r mod ?w) = uint (r mod ?w)"
    using lt assms(2) unfolding sint_uint m by (intro signed_take_bit_int_eq_self) simp_all
  then have "lottery_winner r pool = uint r mod (pool + 1)" by (simp only: lottery_winner_def m)
  with lt show ?thesis by linarith
qed

section \<open>Yielding\<close>

lemma draw_none:
  assumes t: "\<And>i. i < n \<Longrightarrow> contends (es i) \<Longrightarrow> 0 \<le> env_tickets (es i)"
    and w: "w \<le> ticket_pool es n" and ex: "\<exists>i<n. contends (es i)"
  shows "\<exists>i. draw es w 0 [0..<n] = Some i"
proof -
  define P where "P i = (i < n \<and> contends (es i) \<and> w \<le> ticket_pool es (Suc i))" for i
  define l where "l = Max {i. i < n \<and> contends (es i)}"
  have fin: "finite {i. i < n \<and> contends (es i)}" by simp
  have l: "l < n" "contends (es l)" using Max_in[OF fin] ex by (auto simp: l_def)
  have last: "k \<le> l" if "k < n" "contends (es k)" for k using Max_ge[OF fin] that by (simp add: l_def)
  have same: "ticket_pool es m = ticket_pool es (Suc l)" if "Suc l \<le> m" "m \<le> n" for m
    using that
  proof (induction rule: dec_induct)
    case (step q)
    then have "\<not> contends (es q)" using last[of q] by auto
    with step show ?case by (simp add: ticket_pool_Suc[of es q])
  qed simp
  have "ticket_pool es n = ticket_pool es (Suc l)" by (rule same) (use l(1) in simp_all)
  then have "P l" using l w by (simp add: P_def)
  define i where "i = (LEAST i. P i)"
  have "P i" unfolding i_def by (rule LeastI) fact
  have before: "ticket_pool es (Suc k) < w" if "k < i" "contends (es k)" for k
  proof -
    have "\<not> P k" using that(1) unfolding i_def by (rule not_less_Least)
    moreover have "k < n" using that(1) \<open>P i\<close> by (simp add: P_def)
    ultimately show ?thesis using that(2) by (simp add: P_def)
  qed
  have "draw es w (ticket_pool es 0) [0..<n] = Some i"
    by (rule iffD2[OF draw_upt[OF le0]]) (use \<open>P i\<close> before in \<open>auto simp only: P_def\<close>)
  then show ?thesis by auto
qed

lemma draw_SomeD:
  "draw es w j is = Some i \<Longrightarrow> i \<in> set is \<and> contends (es i)"
  by (induction "is" arbitrary: j) (auto simp: Let_def split: if_splits)

lemma env_run_bindc [simp]: "bindc (env_run k e :: fault + ('a ctl \<times> kst)) f = env_run k e"
  unfolding env_run_def Let_def
  by (cases "env_load_pgdir (upd_env (set_curenv (case curenv k of None \<Rightarrow> k | Some c \<Rightarrow>
        if env_status (envs k c) = ENV_RUNNING then upd_env k c (\<lambda>v. v\<lparr>env_status := ENV_RUNNABLE\<rparr>) else k)
        (Some e)) e (\<lambda>v. v\<lparr>env_status := ENV_RUNNING, env_runs := env_runs v + 1\<rparr>)) e")
     (simp_all add: chain_def split: sum.splits)

text \<open>Tickets stay between 2 and \<^verbatim>\<open>TICKET_STEP\<close>.\<close>

definition tickets_ok :: "(nat \<Rightarrow> env) \<Rightarrow> bool" where
  "tickets_ok es \<longleftrightarrow> (\<forall>i<NENV. contends (es i) \<longrightarrow> 2 \<le> env_tickets (es i) \<and> env_tickets (es i) \<le> TICKET_STEP)"

lemma ticket_pool_bound:
  assumes "\<And>i. i < n \<Longrightarrow> contends (es i) \<Longrightarrow> 0 \<le> env_tickets (es i) \<and> env_tickets (es i) \<le> 50"
  shows "0 \<le> ticket_pool es n \<and> ticket_pool es n \<le> 50 * int n"
  using assms
proof (induction n)
  case (Suc n)
  then show ?case using Suc.prems[of n] by (force simp: ticket_pool_Suc)
qed simp

text \<open>While the tickets are in their range, \<^verbatim>\<open>sched_yield\<close> with at least one runnable or running
  environment runs the one that the lottery draws.\<close>

lemma sched_pick:
  assumes "tickets_ok (envs k)" and "i < NENV" and "contends (envs k i)"
  shows "\<exists>e<NENV. contends (envs k e)
     \<and> draw (envs k) (lottery_winner (lcg_parkmiller (random_seed k)) (ticket_pool (envs k) NENV)) 0 [0..<NENV] = Some e
     \<and> (sched_yield k :: fault + (unit ctl \<times> kst)) =
        env_run (add_to_historial (k\<lparr>random_seed := lcg_parkmiller (random_seed k)\<rparr>) e) e"
proof -
  let ?w = "lottery_winner (lcg_parkmiller (random_seed k)) (ticket_pool (envs k) NENV)"
  have t: "0 \<le> env_tickets (envs k j) \<and> env_tickets (envs k j) \<le> 50" if "j < NENV" "contends (envs k j)" for j
    using assms(1) that by (force simp: tickets_ok_def TICKET_STEP_def)
  have "0 \<le> ticket_pool (envs k) NENV" "ticket_pool (envs k) NENV < 2 ^ 30"
    using ticket_pool_bound[of NENV "envs k"] t by (auto simp: NENV_def)
  from lottery_winner_range[OF this] have w: "?w \<le> ticket_pool (envs k) NENV" by simp
  obtain e where e: "draw (envs k) ?w 0 [0..<NENV] = Some e"
    using draw_none[OF _ w] t assms(2,3) by blast
  then have "e < NENV \<and> contends (envs k e)" using draw_SomeD[OF e] by simp
  moreover have "(sched_yield k :: fault + (unit ctl \<times> kst)) =
        env_run (add_to_historial (k\<lparr>random_seed := lcg_parkmiller (random_seed k)\<rparr>) e) e"
    using e by (simp add: sched_yield_def lottery_def next_random_def Let_def)
  ultimately show ?thesis using e by blast
qed

text \<open>A kernel with one CPU in it that holds the lock.\<close>

definition demo_kst :: kst where
  "demo_kst = \<lparr>mem = \<lparr>npages = 8, pp_link = (\<lambda>p. if p = 4 then Some 5 else None), pp_ref = (\<lambda>p. if p = 1 \<or> p = 2 then 1 else 0),
       page_free_list = Some 4, phys = (\<lambda>_ _. 0), boot_nextfree = 0, mmio_base = MMIOBASE,
       user_mem_check_addr = 0, invlpgs = []\<rparr>,
     envs = demo_envs, env_free_list = Some 1, kern_pgdir = 3, this_cpu = 0, cpu_env = (\<lambda>c. if c = 1 then Some 2 else None),
     cpu_status = (\<lambda>_. CPU_STARTED), cr3 = 3,
     kernel_lock = \<lparr>locked = 1, lk_name = ''kernel_lock'', lk_cpu = Some 0, lk_pcs = replicate 10 0\<rparr>,
     random_seed = 1, historial = (\<lambda>_. \<lparr>hist_env_id = 0, hist_env_tickets = 0, hist_env_runs = 0\<rparr>),
     ultima_posicion = 0, max_historial_indx = 0\<rparr>"

lemma demo_kst_tickets: "tickets_ok (envs demo_kst)"
  by (auto simp: tickets_ok_def demo_kst_def demo_contends) (simp_all add: demo_envs_def TICKET_STEP_def)

section \<open>Entering an environment\<close>

lemma env_run_eff:
  assumes "env_pgdir (envs k e) = Some d" and "holding (kernel_lock k) (this_cpu k)"
  shows "\<exists>k'. (env_run k e :: fault + ('a ctl \<times> kst)) = Inr (RunEnv e, k') \<and> curenv k' = Some e \<and> cr3 k' = d
     \<and> env_status (envs k' e) = ENV_RUNNING \<and> env_runs (envs k' e) = env_runs (envs k e) + 1
     \<and> env_cpunum (envs k' e) = this_cpu k \<and> locked (kernel_lock k') = 0
     \<and> env_tickets (envs k' e) = env_tickets (envs k e)
     \<and> (\<forall>c. c \<noteq> this_cpu k \<longrightarrow> cpu_env k' c = cpu_env k c)
     \<and> (\<forall>f. f \<noteq> e \<longrightarrow> curenv k \<noteq> Some f \<longrightarrow> envs k' f = envs k f) \<and> mem k' = mem k
     \<and> this_cpu k' = this_cpu k"
  using assms
  by (auto simp: env_run_def env_load_pgdir_def unlock_kernel_def spin_unlock_def xchg_locked_def
      upd_env_def set_curenv_def curenv_def holding_def Let_def split: option.splits)

text \<open>The comment of \<^verbatim>\<open>sched_yield\<close> forbids choosing an environment that is running on
  another CPU, but the lottery counts every running environment. When the only environment that
  contends is running on CPU \<open>d\<close>, another CPU that yields runs it too, and both CPUs then have it
  as their current environment.\<close>

theorem lottery_runs_env_of_other_cpu:
  assumes "tickets_ok (envs k)" and "e < NENV" and "env_status (envs k e) = ENV_RUNNING"
    and "\<forall>i<NENV. contends (envs k i) \<longrightarrow> i = e"
    and "cpu_env k d = Some e" and "d \<noteq> this_cpu k"
    and "env_pgdir (envs k e) = Some pd" and "holding (kernel_lock k) (this_cpu k)"
  shows "\<exists>k'. (sched_yield k :: fault + (unit ctl \<times> kst)) = Inr (RunEnv e, k')
     \<and> cpu_env k' d = Some e \<and> cpu_env k' (this_cpu k) = Some e \<and> locked (kernel_lock k') = 0"
proof -
  have "contends (envs k e)" using assms(3) by (simp add: contends_def)
  from sched_pick[OF assms(1,2) this] assms(4) obtain k1 where
    k1: "(sched_yield k :: fault + (unit ctl \<times> kst)) = env_run (add_to_historial k1 e) e"
      "k1 = k\<lparr>random_seed := lcg_parkmiller (random_seed k)\<rparr>" by blast
  let ?k = "add_to_historial k1 e"
  have sel: "envs ?k = envs k" "cpu_env ?k = cpu_env k" "this_cpu ?k = this_cpu k" "kernel_lock ?k = kernel_lock k"
    by (simp_all add: add_to_historial_def k1(2) Let_def)
  obtain k' where "(env_run ?k e :: fault + (unit ctl \<times> kst)) = Inr (RunEnv e, k')" "curenv k' = Some e"
    "locked (kernel_lock k') = 0" "\<forall>c. c \<noteq> this_cpu k \<longrightarrow> cpu_env k' c = cpu_env k c" "this_cpu k' = this_cpu k"
    using env_run_eff[of ?k e pd] assms(7,8) by (auto simp: sel)
  with k1(1) assms(5,6) show ?thesis by (auto simp: curenv_def)
qed

lemma lottery_runs_env_of_other_cpu_witness:
  "\<exists>k k'. (sched_yield k :: fault + (unit ctl \<times> kst)) = Inr (RunEnv 2, k')
     \<and> cpu_env k' 1 = Some 2 \<and> cpu_env k' 0 = Some 2"
proof -
  let ?k = "demo_kst\<lparr>envs := demo_envs(0 := zero_env)\<rparr>"
  have c: "contends (envs ?k i) \<longleftrightarrow> i = 2" for i
    using demo_contends[of i] by (auto simp: contends_def zero_env_def)
  have t: "tickets_ok (envs ?k)"
    by (auto simp only: tickets_ok_def c) (simp_all add: demo_envs_def TICKET_STEP_def)
  have "\<exists>k'. (sched_yield ?k :: fault + (unit ctl \<times> kst)) = Inr (RunEnv 2, k')
     \<and> cpu_env k' 1 = Some 2 \<and> cpu_env k' (this_cpu ?k) = Some 2 \<and> locked (kernel_lock k') = 0"
    by (rule lottery_runs_env_of_other_cpu[OF t, where pd = 2]) (use c in \<open>auto simp: NENV_def demo_kst_def demo_envs_def holding_def\<close>)
  then show ?thesis by (auto simp: demo_kst_def)
qed

section \<open>Round robin\<close>

text \<open>C36: \<^verbatim>\<open>round_robin\<close> is fair: it runs the runnable environment nearest after the current
  one in circular order, so every runnable environment that is \<open>d\<close> places further on runs before
  the search passes it.\<close>

theorem round_robin_nearest:
  assumes "d < NENV"
    and "n = (case curenv k of Some c \<Rightarrow> ENVX (env_id (envs k c)) + 1 | None \<Rightarrow> 0)"
    and "env_status (envs k ((n + d) mod NENV)) = ENV_RUNNABLE"
  shows "\<exists>i\<le>d. env_status (envs k ((n + i) mod NENV)) = ENV_RUNNABLE
     \<and> (\<forall>j<i. env_status (envs k ((n + j) mod NENV)) \<noteq> ENV_RUNNABLE)
     \<and> round_robin k = env_run k ((n + i) mod NENV)"
proof -
  let ?h = "\<lambda>i. env_status (envs k ((n + i) mod NENV)) = ENV_RUNNABLE"
  from scan_hit_upt[of 0 d NENV ?h "\<lambda>_. True"] assms(1,3) obtain i where
    i: "scan (\<lambda>_. True) ?h [0..<NENV] = Some i" "i \<le> d" by auto
  from scan_first[OF i(1)] have "?h i" "\<forall>j<i. \<not> ?h j" by auto
  with i assms(2) show ?thesis by (intro exI[of _ i]) (simp add: round_robin_def Let_def)
qed

lemma round_robin_nearest_witness:
  "\<exists>i\<le>(1::nat). round_robin (demo_kst\<lparr>cpu_env := (\<lambda>_. Some 2), envs := demo_envs(4 := demo_envs 0)\<rparr>) =
     env_run (demo_kst\<lparr>cpu_env := (\<lambda>_. Some 2), envs := demo_envs(4 := demo_envs 0)\<rparr>) ((3 + i) mod NENV)"
proof -
  let ?k = "demo_kst\<lparr>cpu_env := (\<lambda>_. Some 2), envs := demo_envs(4 := demo_envs 0)\<rparr>"
  have n: "3 = (case curenv ?k of Some c \<Rightarrow> ENVX (env_id (envs ?k c)) + 1 | None \<Rightarrow> 0)"
    by (simp add: curenv_def demo_envs_def ENVX_def NENV_def)
  have "env_status (envs ?k ((3 + 1) mod NENV)) = ENV_RUNNABLE"
    by (simp add: NENV_def demo_envs_def)
  from round_robin_nearest[OF _ n this] show ?thesis by (auto simp: NENV_def)
qed

section \<open>The record of executions\<close>

definition hist_ok :: "kst \<Rightarrow> bool" where
  "hist_ok k \<longleftrightarrow> ultima_posicion k < HIST_MAX_SIZE \<and> max_historial_indx k \<le> HIST_MAX_SIZE"

text \<open>Every append writes inside the array and keeps the printed prefix inside it.\<close>

lemma add_to_historial_ok: "hist_ok k \<Longrightarrow> hist_ok (add_to_historial k e)"
  by (auto simp: hist_ok_def add_to_historial_def Let_def HIST_MAX_SIZE_def)

end
