(* ===== verification/KernelInv.thy ===== *)
theory KernelInv
  imports Trap SchedProps
begin

unbundle bit_operations_syntax

text \<open>
  An invariant of the whole kernel, kept by every trap on every CPU: the tickets of every
  environment that is not free lie between 2 and \<^verbatim>\<open>TICKET_STEP\<close>. It is the range in which the
  lottery is proportional and never fails to pick. Each operation of \<^verbatim>\<open>env.c\<close>, \<^verbatim>\<open>sched.c\<close>,
  \<^verbatim>\<open>syscall.c\<close> and \<^verbatim>\<open>trap.c\<close> has its preservation lemma, collected in \<open>kinv_intro\<close>.
\<close>

named_theorems kinv_intro "operations that keep the kernel invariant"

definition ticket_range :: "int \<Rightarrow> bool" where
  "ticket_range t \<longleftrightarrow> 2 \<le> t \<and> t \<le> TICKET_STEP"

definition kinv :: "kst \<Rightarrow> bool" where
  "kinv k \<longleftrightarrow>
     (\<forall>i. env_tickets (envs k i) = 0 \<or> ticket_range (env_tickets (envs k i)))
     \<and> (\<forall>i. env_status (envs k i) \<noteq> ENV_FREE \<longrightarrow> ticket_range (env_tickets (envs k i)))
     \<and> (\<forall>d c. cpu_env k d = Some c \<longrightarrow> ticket_range (env_tickets (envs k c)))"

lemma kinv_tickets_ok: "kinv k \<Longrightarrow> tickets_ok (envs k)"
  by (auto simp: kinv_def tickets_ok_def contends_def ticket_range_def)

lemma kinv_curenv: "kinv k \<Longrightarrow> curenv k = Some c \<Longrightarrow> ticket_range (env_tickets (envs k c))"
  by (auto simp: kinv_def curenv_def)

lemma kinv_live: "kinv k \<Longrightarrow> env_status (envs k i) \<noteq> ENV_FREE \<Longrightarrow> ticket_range (env_tickets (envs k i))"
  by (auto simp: kinv_def)

text \<open>Fields that do not matter.\<close>

lemma kinv_upd [simp]:
  "kinv (k\<lparr>mem := m\<rparr>) = kinv k" "kinv (k\<lparr>cr3 := c\<rparr>) = kinv k" "kinv (k\<lparr>kernel_lock := l\<rparr>) = kinv k"
  "kinv (k\<lparr>cpu_status := st\<rparr>) = kinv k" "kinv (k\<lparr>env_free_list := fl\<rparr>) = kinv k"
  "kinv (k\<lparr>random_seed := r\<rparr>) = kinv k" "kinv (k\<lparr>this_cpu := d\<rparr>) = kinv k"
  by (simp_all add: kinv_def)

lemma kinv_historial [kinv_intro]: "kinv k \<Longrightarrow> kinv (add_to_historial k e)"
  by (simp add: kinv_def add_to_historial_def Let_def)

text \<open>Changing one environment: its tickets stay, or are set within the range.\<close>

lemma kinv_upd_env:
  assumes "kinv k" and "env_tickets (f (envs k e)) = env_tickets (envs k e)"
    and "env_status (f (envs k e)) = env_status (envs k e) \<or> env_status (f (envs k e)) = ENV_FREE
      \<or> ticket_range (env_tickets (envs k e))"
  shows "kinv (upd_env k e f)"
  using assms by (auto simp: kinv_def upd_env_def)

lemma kinv_set_tickets:
  assumes "kinv k" and "ticket_range (env_tickets (f (envs k e)))"
  shows "kinv (upd_env k e f)"
  using assms by (auto simp: kinv_def upd_env_def)

lemma kinv_set_curenv:
  "kinv k \<Longrightarrow> (\<And>c. e = Some c \<Longrightarrow> ticket_range (env_tickets (envs k c))) \<Longrightarrow> kinv (set_curenv k e)"
  by (auto simp: kinv_def set_curenv_def)

lemma kinv_set_curenv_None [kinv_intro]: "kinv k \<Longrightarrow> kinv (set_curenv k None)"
  by (rule kinv_set_curenv) simp_all

section \<open>Composition\<close>

text \<open>A step is good when every result it delivers satisfies the invariant.\<close>

definition good :: "fault + ('a ctl \<times> kst) \<Rightarrow> bool" where
  "good r \<longleftrightarrow> (\<forall>c k. r = Inr (c, k) \<longrightarrow> kinv k)"

lemma good_Inl [simp, kinv_intro]: "good (Inl e)"
  by (simp add: good_def)

lemma good_Inr [simp]: "good (Inr (c, k)) \<longleftrightarrow> kinv k"
  by (auto simp: good_def)

lemma good_bindc [kinv_intro]:
  assumes "good m" and "\<And>x k. m = Inr (Return x, k) \<Longrightarrow> kinv k \<Longrightarrow> good (f x k)"
  shows "good (bindc m f)"
proof (cases m)
  case (Inr p)
  obtain c k where p: "p = (c, k)" by (cases p)
  with assms Inr show ?thesis by (cases c) auto
qed simp

lemma good_chain [kinv_intro]:
  assumes "\<And>x. m = Inr x \<Longrightarrow> good (f x)"
  shows "good (chain m f)"
  using assms by (cases m) auto

section \<open>Environments and the scheduler\<close>

lemma kinv_unlock: "kinv k \<Longrightarrow> unlock_kernel k = Inr k' \<Longrightarrow> kinv k'"
  by (auto simp: unlock_kernel_def chain_eq_Inr)

lemma good_lock [kinv_intro]: "kinv k \<Longrightarrow> good (lock_kernel k)"
  by (auto simp: lock_kernel_def intro!: good_chain split: option.splits)

lemma kinv_load_pgdir: "kinv k \<Longrightarrow> env_load_pgdir k e = Inr k' \<Longrightarrow> kinv k'"
  by (auto simp: env_load_pgdir_def chain_eq_Inr)

lemma good_env_run [kinv_intro]:
  assumes k: "kinv k" and e: "ticket_range (env_tickets (envs k e))"
  shows "good (env_run k e :: fault + ('a ctl \<times> kst))"
proof -
  define k1 where "k1 = (case curenv k of
                  Some c \<Rightarrow> if env_status (envs k c) = ENV_RUNNING
                            then upd_env k c (\<lambda>v. v\<lparr>env_status := ENV_RUNNABLE\<rparr>) else k
                | None \<Rightarrow> k)"
  define k2 where "k2 = upd_env (set_curenv k1 (Some e)) e
                 (\<lambda>v. v\<lparr>env_status := ENV_RUNNING, env_runs := env_runs v + 1\<rparr>)"
  have k1: "kinv k1" "env_tickets (envs k1 e) = env_tickets (envs k e)"
    using k kinv_curenv[OF k] by (auto simp: k1_def kinv_upd_env split: option.splits) (auto simp: upd_env_def)
  have "kinv (set_curenv k1 (Some e))" by (rule kinv_set_curenv) (use k1 e in auto)
  then have k2: "kinv k2" unfolding k2_def
    by (rule kinv_upd_env) (use k1 e in \<open>auto simp: set_curenv_def\<close>)
  have "env_run k e = chain (env_load_pgdir k2 e) (\<lambda>k3. chain (unlock_kernel k3) (\<lambda>k4.
        Inr (RunEnv e, upd_env k4 e (\<lambda>v. v\<lparr>env_cpunum := this_cpu k4\<rparr>))) :: fault + ('a ctl \<times> kst))"
    by (simp add: env_run_def k1_def k2_def Let_def)
  moreover have "good (chain (env_load_pgdir k2 e) (\<lambda>k3. chain (unlock_kernel k3) (\<lambda>k4.
        Inr (RunEnv e, upd_env k4 e (\<lambda>v. v\<lparr>env_cpunum := this_cpu k4\<rparr>))) :: fault + ('a ctl \<times> kst)))"
  proof (intro good_chain)
    fix k3 k4
    assume "env_load_pgdir k2 e = Inr k3" and "unlock_kernel k3 = Inr k4"
    then have "kinv k4" using kinv_unlock kinv_load_pgdir[OF k2] by blast
    then show "good (Inr (RunEnv e, upd_env k4 e (\<lambda>v. v\<lparr>env_cpunum := this_cpu k4\<rparr>)) :: fault + ('a ctl \<times> kst))"
      by (simp add: kinv_upd_env)
  qed
  ultimately show ?thesis by simp
qed

lemma good_lottery [kinv_intro]:
  assumes k: "kinv k"
  shows "good (lottery k)"
proof -
  let ?k1 = "k\<lparr>random_seed := lcg_parkmiller (random_seed k)\<rparr>"
  have "good (env_run (add_to_historial ?k1 e) e :: fault + (unit ctl \<times> kst))"
    if "draw (envs k) w 0 [0..<NENV] = Some e" for w e
  proof (rule good_env_run)
    show "kinv (add_to_historial ?k1 e)" using k by (simp add: kinv_historial)
    have "contends (envs k e)" using draw_SomeD[OF that] by simp
    then have "ticket_range (env_tickets (envs k e))" using kinv_live[OF k] by (auto simp: contends_def)
    then show "ticket_range (env_tickets (envs (add_to_historial ?k1 e) e))"
      by (simp add: add_to_historial_def Let_def)
  qed
  then show ?thesis using k by (auto simp: lottery_def next_random_def Let_def split: option.splits)
qed

lemma good_halt [kinv_intro]:
  assumes "kinv k"
  shows "good (sched_halt k :: fault + ('a ctl \<times> kst))"
proof -
  have "kinv k'" if "unlock_kernel (set_curenv k None\<lparr>cr3 := c, cpu_status := st\<rparr>) = Inr k'" for k' c st
    by (rule kinv_unlock[OF _ that]) (simp add: assms kinv_set_curenv_None)
  then show ?thesis using assms
    by (auto simp: sched_halt_def Let_def intro!: good_chain split: option.splits)
qed

lemma good_yield [kinv_intro]: "kinv k \<Longrightarrow> good (sched_yield k :: fault + ('a ctl \<times> kst))"
  by (auto simp: sched_yield_def intro: kinv_intro)

lemma kinv_env_free: "kinv k \<Longrightarrow> env_free k e = Inr k' \<Longrightarrow> kinv k'"
  unfolding env_free_def Let_def
  by (elim chainE) (auto simp: kinv_upd_env split: if_splits)

lemma good_env_destroy [kinv_intro]:
  assumes "kinv k"
  shows "good (env_destroy k e)"
proof -
  have "kinv (upd_env k e (\<lambda>v. v\<lparr>env_status := ENV_DYING\<rparr>))" if "env_status (envs k e) = ENV_RUNNING"
    by (rule kinv_upd_env) (use assms that kinv_live[OF assms] in auto)
  then show ?thesis using kinv_env_free[OF assms]
    by (auto simp: env_destroy_def intro!: good_chain good_yield kinv_set_curenv_None)
qed

lemma good_user_mem_assert [kinv_intro]: "kinv k \<Longrightarrow> good (user_mem_assert k e va len perm)"
  by (auto simp: user_mem_assert_def intro!: good_chain good_env_destroy)

lemma kinv_env_setup_vm: "kinv k \<Longrightarrow> env_setup_vm k e = Inr (r, k') \<Longrightarrow> kinv k'"
  by (auto simp: env_setup_vm_def chain_eq_Inr kinv_upd_env Let_def split: option.splits)

lemma kinv_env_alloc: "kinv k \<Longrightarrow> env_alloc k p = Inr (r, e, k') \<Longrightarrow> kinv k'"
  by (auto simp: env_alloc_def chain_eq_Inr Let_def fresh_env_def ticket_range_def TICKET_STEP_def
      intro!: kinv_set_tickets dest: kinv_env_setup_vm split: option.splits if_splits)

section \<open>System calls\<close>

text \<open>Mapping pages changes nothing but the memory.\<close>

definition mem_only :: "kst \<Rightarrow> fault + (int \<times> kst) \<Rightarrow> bool" where
  "mem_only k r \<longleftrightarrow> (\<forall>x k'. r = Inr (x, k') \<longrightarrow> (\<exists>m. k' = k\<lparr>mem := m\<rparr>))"

lemma mem_only_simps [simp]: "mem_only k (Inl e)" "mem_only k (Inr (r, k))" "mem_only k (Inr (r, k\<lparr>mem := m\<rparr>))"
proof -
  have "k = k\<lparr>mem := mem k\<rparr>" by (cases k) simp
  then show "mem_only k (Inr (r, k))" unfolding mem_only_def by blast
qed (auto simp: mem_only_def)

lemma mem_only_chain: "(\<And>x. m = Inr x \<Longrightarrow> mem_only k (f x)) \<Longrightarrow> mem_only k (chain m f)"
  by (cases m) auto

lemma mem_only_ops [simp]:
  "mem_only k (insert_page k m e pp va perm)"
  "mem_only k (env_page_alloc k e va perm)"
  "mem_only k (env_page_map k s sva d dva perm)"
  by (auto simp: insert_page_def env_page_alloc_def env_page_map_def Let_def
      intro!: mem_only_chain split: option.splits)

lemma env_page_alloc_mem: "env_page_alloc k e va perm = Inr (r, k') \<Longrightarrow> \<exists>m'. k' = k\<lparr>mem := m'\<rparr>"
  using mem_only_ops(2)[of k e va perm] by (auto simp: mem_only_def)

lemma env_page_map_mem: "env_page_map k s sva d dva perm = Inr (r, k') \<Longrightarrow> \<exists>m'. k' = k\<lparr>mem := m'\<rparr>"
  using mem_only_ops(3)[of k s sva d dva perm] by (auto simp: mem_only_def)

lemma good_cputs [kinv_intro]: "kinv k \<Longrightarrow> good (sys_cputs k s len)"
  by (auto simp: sys_cputs_def intro!: kinv_intro)

lemma good_getenvid [kinv_intro]: "kinv k \<Longrightarrow> good (sys_getenvid k)"
  by (auto simp: sys_getenvid_def intro!: good_chain)

lemma good_sys_env_destroy [kinv_intro]: "kinv k \<Longrightarrow> good (sys_env_destroy k envid)"
  by (auto simp: sys_env_destroy_def intro!: kinv_intro)

lemma good_exofork [kinv_intro]:
  assumes "kinv k"
  shows "good (sys_exofork k)"
proof -
  have "kinv (upd_env k1 i (\<lambda>v. v\<lparr>env_status := ENV_NOT_RUNNABLE, env_tf := t, env_tickets := env_tickets (envs k1 c)\<rparr>))"
    if "curenv k = Some c" "env_alloc k (env_id (envs k c)) = Inr (r, e, k1)" for k1 i t c r e
  proof -
    have "curenv k1 = curenv k" using that(2)
      by (auto simp: env_alloc_def env_setup_vm_def chain_eq_Inr Let_def upd_env_def curenv_def
          split: option.splits if_splits)
    with that(1) have "ticket_range (env_tickets (envs k1 c))"
      using kinv_curenv kinv_env_alloc[OF assms that(2)] by simp
    then show ?thesis by (intro kinv_set_tickets kinv_env_alloc[OF assms that(2)]) simp
  qed
  then show ?thesis using kinv_env_alloc[OF assms]
    by (auto simp: sys_exofork_def Let_def deref_Inr intro!: good_chain)
qed

lemma good_set_status [kinv_intro]:
  assumes "kinv k"
  shows "good (sys_env_set_status k envid st)"
proof -
  have "kinv (upd_env k i (\<lambda>v. v\<lparr>env_status := s\<rparr>))"
    if "envid2env k envid True = Inr (r, Some i)" for i s r
  proof -
    have "ticket_range (env_tickets (envs k i))"
      using that kinv_curenv[OF assms] kinv_live[OF assms]
      by (auto simp: envid2env_def Let_def chain_eq_Inr deref_Inr split: if_splits)
    then show ?thesis by (intro kinv_upd_env assms) simp_all
  qed
  then show ?thesis using assms by (auto simp: sys_env_set_status_def deref_Inr intro!: good_chain)
qed

lemma good_set_upcall [kinv_intro]: "kinv k \<Longrightarrow> good (sys_env_set_pgfault_upcall k envid f)"
  by (auto simp: sys_env_set_pgfault_upcall_def intro!: kinv_intro kinv_upd_env)

lemma good_page_calls [kinv_intro]:
  "kinv k \<Longrightarrow> good (sys_page_alloc k envid va perm)"
  "kinv k \<Longrightarrow> good (sys_page_map k s sva d dva perm)"
  "kinv k \<Longrightarrow> good (sys_page_unmap k envid va)"
  by (auto simp: sys_page_alloc_def sys_page_map_def sys_page_unmap_def intro!: good_chain
      dest!: env_page_alloc_mem env_page_map_mem)

lemma good_deliver [kinv_intro]: "kinv k \<Longrightarrow> ticket_range (env_tickets (envs k d)) \<Longrightarrow> good (ipc_deliver k d v)"
  by (auto simp: ipc_deliver_def intro!: good_chain kinv_upd_env)

lemma envid2env_live:
  assumes "kinv k" and "envid2env k envid cp = Inr (r, Some i)"
  shows "ticket_range (env_tickets (envs k i))"
  using assms(2) kinv_curenv[OF assms(1)] kinv_live[OF assms(1)]
  by (auto simp: envid2env_def Let_def chain_eq_Inr deref_Inr split: if_splits)

lemma good_try_send [kinv_intro]:
  assumes k: "kinv k"
  shows "good (sys_ipc_try_send k envid value srcva perm)"
proof -
  have deliver: "good (ipc_deliver k' i value)"
    if "envid2env k envid False = Inr (0, Some i)" "kinv k'" "envs k' = envs k" for k' i
    using good_deliver[OF that(2)] envid2env_live[OF k that(1)] that(3) by simp
  have deliver2: "good (ipc_deliver (upd_env k' i (\<lambda>v. v\<lparr>env_ipc_perm := p\<rparr>)) i value)"
    if "envid2env k envid False = Inr (0, Some i)" "kinv k'" "envs k' = envs k" for k' i p
    using envid2env_live[OF k that(1)] that
    by (intro good_deliver kinv_upd_env) (simp_all add: upd_env_def)
  show ?thesis
    unfolding sys_ipc_try_send_def
    by (auto simp: Let_def deref_Inr k intro!: good_chain deliver deliver2
        dest!: env_page_alloc_mem env_page_map_mem split: option.splits)
qed

lemma good_recv [kinv_intro]:
  assumes k: "kinv k"
  shows "good (sys_ipc_recv k dstva)"
proof -
  have "kinv (upd_env k c (\<lambda>v. v\<lparr>env_ipc_recving := True\<rparr>))" for c
    using k by (intro kinv_upd_env) simp_all
  moreover have "kinv (upd_env (upd_env k c (\<lambda>v. v\<lparr>env_ipc_recving := True\<rparr>)) c
      (\<lambda>v. v\<lparr>env_ipc_dstva := dstva, env_status := ENV_NOT_RUNNABLE\<rparr>))" if "curenv k = Some c" for c
  proof (rule kinv_upd_env)
    show "kinv (upd_env k c (\<lambda>v. v\<lparr>env_ipc_recving := True\<rparr>))" by fact
  qed (use kinv_curenv[OF k that] in \<open>simp_all add: upd_env_def\<close>)
  ultimately show ?thesis
    by (auto simp: sys_ipc_recv_def Let_def deref_Inr sys_yield_def intro!: good_chain good_bindc good_yield)
qed

lemma kinv_drop_ticket:
  "kinv k \<Longrightarrow> curenv k = Some c \<Longrightarrow> kinv (upd_env k c drop_ticket)"
  using kinv_curenv[of k c] by (intro kinv_set_tickets) (auto simp: drop_ticket_def ticket_range_def)

lemma kinv_set_priority [kinv_intro]: "kinv k \<Longrightarrow> kinv (sys_env_set_priority k)"
  by (auto simp: sys_env_set_priority_def kinv_drop_ticket split: option.splits)

lemma good_get_priority [kinv_intro]: "kinv k \<Longrightarrow> good (sys_env_get_priority k)"
  by (auto simp: sys_env_get_priority_def intro!: good_chain)

lemma good_cgetc [kinv_intro]: "kinv k \<Longrightarrow> good (sys_cgetc getc k)"
  by (simp add: sys_cgetc_def)

lemma good_sys_yield [kinv_intro]: "kinv k \<Longrightarrow> good (sys_yield k)"
  by (simp add: sys_yield_def good_yield)

lemma good_if: "(P \<Longrightarrow> good a) \<Longrightarrow> (\<not> P \<Longrightarrow> good b) \<Longrightarrow> good (if P then a else b)"
  by simp

lemma good_syscall [kinv_intro]: "kinv k \<Longrightarrow> good (syscall getc k n a1 a2 a3 a4 a5)"
  unfolding syscall_def Let_def
  by (intro good_if good_bindc good_cputs good_getenvid good_sys_env_destroy good_cgetc good_exofork good_set_status
      good_page_calls good_recv good_try_send good_set_upcall good_sys_yield good_get_priority kinv_set_priority)
     simp_all

section \<open>Traps\<close>

lemma kinv_timer_tick: "kinv k \<Longrightarrow> kinv (timer_tick k)"
  using kinv_curenv[of k]
  by (auto simp: timer_tick_def ticket_range_def intro!: kinv_set_tickets split: option.splits)

lemma kinv_set_env_tf [simp]: "kinv (set_env_tf k e f) = kinv k"
  by (auto simp: kinv_def set_env_tf_def upd_env_def)

text \<open>The scheduler never returns to its caller.\<close>

lemma env_run_no_return: "(env_run k e :: fault + ('a ctl \<times> kst)) \<noteq> Inr (Return x, k')"
  by (auto simp: env_run_def Let_def chain_eq_Inr)

lemma sched_halt_no_return: "(sched_halt k :: fault + ('a ctl \<times> kst)) \<noteq> Inr (Return x, k')"
  by (auto simp: sched_halt_def Let_def chain_eq_Inr split: option.splits)

lemma sched_yield_no_return: "(sched_yield k :: fault + ('a ctl \<times> kst)) \<noteq> Inr (Return x, k')"
proof -
  have "sched_yield k = sched_halt (snd (next_random k)) \<or> (\<exists>k1 e. sched_yield k = (env_run k1 e :: fault + ('a ctl \<times> kst)))"
  proof (cases "draw (envs (snd (next_random k))) (lottery_winner (fst (next_random k)) (ticket_pool (envs k) NENV)) 0 [0..<NENV]")
    case None
    then show ?thesis by (simp add: sched_yield_def lottery_def Let_def split_def)
  next
    case (Some e)
    then have "sched_yield k = (env_run (add_to_historial (snd (next_random k)) e) e :: fault + ('a ctl \<times> kst))"
      by (simp add: sched_yield_def lottery_def Let_def split_def)
    then show ?thesis by blast
  qed
  then show ?thesis using env_run_no_return sched_halt_no_return by metis
qed

lemma env_free_curenv: "env_free k e = Inr k' \<Longrightarrow> curenv k' = curenv k"
  unfolding env_free_def Let_def
  by (auto simp: chain_eq_Inr upd_env_def curenv_def split: if_splits)

lemma env_destroy_cur_no_return:
  "curenv k = Some c \<Longrightarrow> env_destroy k c \<noteq> Inr (Return x, k')"
  by (auto simp: env_destroy_def chain_eq_Inr sched_yield_no_return dest: env_free_curenv)

lemma user_mem_assert_cur:
  assumes "curenv k = Some c" and "user_mem_assert k c a n p = Inr (Return x, k1)"
  shows "\<exists>m. k1 = k\<lparr>mem := m\<rparr>"
proof -
  have "curenv (k\<lparr>mem := m\<rparr>) = Some c" for m using assms(1) by (simp add: curenv_def)
  note nd = env_destroy_cur_no_return[OF this]
  from assms(2) obtain m r where "(if r < (0::int) then env_destroy (k\<lparr>mem := m\<rparr>) c else Inr (Return (), k\<lparr>mem := m\<rparr>))
      = Inr (Return x, k1)"
    by (auto simp: user_mem_assert_def chain_eq_Inr)
  then show ?thesis using nd by (auto split: if_splits)
qed

lemma good_pgfault [kinv_intro]:
  assumes k: "kinv k"
  shows "good (page_fault_handler cr2 tf k)"
proof -
  have run: "good (env_run (set_env_tf (k1\<lparr>mem := m\<rparr>) c f) c :: fault + (unit ctl \<times> kst))"
    if "curenv k = Some c" "user_mem_assert k c a n p = Inr (Return x, k1)" for k1 c a n p x m f
  proof -
    from user_mem_assert_cur[OF that] obtain m1 where "k1 = k\<lparr>mem := m1\<rparr>" by blast
    then have "kinv (set_env_tf (k1\<lparr>mem := m\<rparr>) c f)" "ticket_range (env_tickets (envs k1 c))"
      using k kinv_curenv[OF k that(1)] by simp_all
    then show ?thesis by (intro good_env_run) (simp_all add: set_env_tf_def upd_env_def)
  qed
  show ?thesis
    unfolding page_fault_handler_def Let_def split_def
    by (intro good_if good_chain good_bindc good_user_mem_assert good_env_destroy k good_Inl)
       (auto simp: deref_Inr intro: run)
qed

lemma good_dispatch [kinv_intro]:
  "kinv k \<Longrightarrow> good (trap_dispatch cr2 getc tf k)"
  unfolding trap_dispatch_def Let_def
  by (intro good_if good_bindc good_chain good_pgfault good_syscall good_yield good_env_destroy kinv_timer_tick good_Inl)
     simp_all

theorem trap_keeps_kinv:
  assumes "kinv k"
  shows "good (trap cr2 getc tf k)"
proof -
  have ret: "good ((case curenv k5 of Some c \<Rightarrow> if env_status (envs k5 c) = ENV_RUNNING then env_run k5 c else sched_yield k5
        | None \<Rightarrow> sched_yield k5) :: fault + (unit ctl \<times> kst))" if "kinv k5" for k5
    using that kinv_curenv[OF that] by (auto intro!: good_env_run good_yield split: option.splits)
  have user: "good ((case curenv k2 of None \<Rightarrow> Inl (Panic ''assertion failed: curenv'')
     | Some c \<Rightarrow> bindc (if env_status (envs k2 c) = ENV_DYING then chain (env_free k2 c) (\<lambda>k3. sched_yield (set_curenv k3 None))
                        else Inr (Return (), k2))
                   (\<lambda>_ k3. Inr (Return (), set_env_tf k3 c (\<lambda>_. tf)))) :: fault + (unit ctl \<times> kst))" if "kinv k2" for k2
    using that kinv_env_free[OF that]
    by (auto intro!: good_bindc good_chain good_yield kinv_set_curenv_None split: option.splits)
  show ?thesis
    unfolding trap_def Let_def
    by (intro good_bindc good_if good_lock good_dispatch user ret) (simp_all add: assms)
qed

section \<open>Histories\<close>

text \<open>The start: no environment yet, as \<^verbatim>\<open>env_init\<close> leaves the zeroed array.\<close>

lemma kinv_env_init:
  "envs k = (\<lambda>_. zero_env) \<Longrightarrow> cpu_env k = (\<lambda>_. None) \<Longrightarrow> kinv (env_init k)"
  by (auto simp: kinv_def env_init_def zero_env_def)

lemma kinv_region_alloc: "kinv k \<Longrightarrow> region_alloc k e va len = Inr k' \<Longrightarrow> kinv k'"
  by (auto simp: region_alloc_def Let_def chain_eq_Inr split: if_splits)

lemma kinv_load_segment: "kinv k \<Longrightarrow> load_segment b e off k i = Inr k' \<Longrightarrow> kinv k'"
  by (auto simp: load_segment_def chain_eq_Inr dest: kinv_region_alloc split: if_splits)

interpretation loader: invariant_machine "load_segment b e off" "\<lambda>_. True" kinv
  by unfold_locales (rule kinv_load_segment)

lemma kinv_load_icode:
  assumes "kinv k" and "load_icode k e b = Inr k'"
  shows "kinv k'"
proof -
  from assms(2) obtain elf :: elf_hdr and d k1 k2 where
    1: "run_steps (load_segment b e (unat (e_phoff elf))) (k\<lparr>cr3 := d\<rparr>) [0..<unat (e_phnum elf)] = Inr k1"
    and 2: "region_alloc k1 e (USTACKTOP - PGSIZE) PGSIZE = Inr k2"
    and 3: "k' = (upd_env k2 e (\<lambda>v. v\<lparr>env_tf := (env_tf v)\<lparr>tf_eip := e_entry elf\<rparr>\<rparr>))\<lparr>cr3 := kern_pgdir k2\<rparr>"
    by (auto simp: load_icode_def chain_eq_Inr split: if_splits)
  have "kinv k2" by (rule kinv_region_alloc[OF loader.run_inv[OF _ _ 1] 2]) (simp_all add: assms(1))
  then show ?thesis unfolding 3 by (simp add: kinv_upd_env)
qed

lemma kinv_env_create: "kinv k \<Longrightarrow> env_create k b ty = Inr k' \<Longrightarrow> kinv k'"
  by (auto simp: env_create_def chain_eq_Inr kinv_upd_env dest!: kinv_load_icode[rotated] kinv_env_alloc[rotated]
      split: if_splits)

text \<open>What drives the kernel: programs created at boot and traps on any CPU.\<close>

datatype kernel_event =
    Create "u8 list" u32
  | TrapOn nat u32 int trapframe

fun kernel_step :: "kst \<Rightarrow> kernel_event \<Rightarrow> fault + kst" where
  "kernel_step k (Create b ty) = env_create k b ty"
| "kernel_step k (TrapOn c cr2 getc tf) = chain (trap cr2 getc tf (k\<lparr>this_cpu := c\<rparr>)) (\<lambda>(_, k'). Inr k')"

interpretation kernel: invariant_machine kernel_step "\<lambda>_. True" kinv
proof
  fix k e k'
  assume "kinv k" and "kernel_step k e = Inr k'"
  then show "kinv k'"
    using trap_keeps_kinv[of "k\<lparr>this_cpu := c\<rparr>" for c]
    by (cases e) (auto simp: chain_eq_Inr good_def dest: kinv_env_create)
qed

text \<open>What a CPU does that yields with the lock held.\<close>

lemma yield_runs:
  assumes k: "tickets_ok (envs k)" "i < NENV" "contends (envs k i)" and l: "holding (kernel_lock k) (this_cpu k)"
    and d: "\<forall>e. contends (envs k e) \<longrightarrow> env_pgdir (envs k e) \<noteq> None"
  shows "\<exists>e<NENV. \<exists>k2. contends (envs k e) \<and> (sched_yield k :: fault + (unit ctl \<times> kst)) = Inr (RunEnv e, k2)
    \<and> curenv k2 = Some e \<and> env_status (envs k2 e) = ENV_RUNNING \<and> locked (kernel_lock k2) = 0"
proof -
  from sched_pick[OF k] obtain e where e: "e < NENV" "contends (envs k e)"
    "(sched_yield k :: fault + (unit ctl \<times> kst)) = env_run (add_to_historial (k\<lparr>random_seed := lcg_parkmiller (random_seed k)\<rparr>) e) e"
    by blast
  let ?k = "add_to_historial (k\<lparr>random_seed := lcg_parkmiller (random_seed k)\<rparr>) e"
  have sel: "envs ?k = envs k" "this_cpu ?k = this_cpu k" "kernel_lock ?k = kernel_lock k"
    by (simp_all add: add_to_historial_def Let_def)
  obtain pd where "env_pgdir (envs ?k e) = Some pd" using d e(2) unfolding sel by blast
  from env_run_eff[OF this] l obtain k2 where "(env_run ?k e :: fault + (unit ctl \<times> kst)) = Inr (RunEnv e, k2)"
    "curenv k2 = Some e" "env_status (envs k2 e) = ENV_RUNNING" "locked (kernel_lock k2) = 0"
    unfolding sel by blast
  with e show ?thesis by auto
qed

lemma yield_halts:
  assumes "\<not> (\<exists>i<NENV. contends (envs k i))" and "holding (kernel_lock k) (this_cpu k)"
  shows "\<exists>c k2. (sched_yield k :: fault + (unit ctl \<times> kst)) = Inr (c, k2) \<and> (c = HaltCpu \<or> c = MonitorLoop)"
proof -
  have "draw (envs k) w 0 [0..<NENV] = None" for w
    using draw_SomeD[of "envs k" w 0 "[0..<NENV]"] assms(1) by (cases "draw (envs k) w 0 [0..<NENV]") auto
  then have "(sched_yield k :: fault + (unit ctl \<times> kst)) = sched_halt (k\<lparr>random_seed := lcg_parkmiller (random_seed k)\<rparr>)"
    by (simp add: sched_yield_def lottery_def next_random_def Let_def)
  moreover have "\<exists>c k2. (sched_halt k1 :: fault + (unit ctl \<times> kst)) = Inr (c, k2) \<and> (c = HaltCpu \<or> c = MonitorLoop)"
    if l: "holding (kernel_lock k1) (this_cpu k1)" for k1
  proof (cases "scan (\<lambda>_. True) (\<lambda>i. env_status (envs k1 i) \<in> {ENV_RUNNABLE, ENV_RUNNING, ENV_DYING}) [0..<NENV]")
    case None
    then show ?thesis unfolding sched_halt_def by simp
  next
    case (Some i)
    have "\<exists>k3. unlock_kernel ((set_curenv k1 None)\<lparr>cr3 := c, cpu_status := cs\<rparr>) = Inr k3" for c cs
      using l by (simp add: unlock_kernel_def spin_unlock_def xchg_locked_def holding_def set_curenv_def)
    then obtain k3 where "unlock_kernel ((set_curenv k1 None)\<lparr>cr3 := kern_pgdir k1, cpu_status := (cpu_status k1)(this_cpu k1 := CPU_HALTED)\<rparr>) = Inr k3"
      by blast
    then show ?thesis unfolding sched_halt_def Some by (simp add: Let_def set_curenv_def)
  qed
  from this[of "k\<lparr>random_seed := lcg_parkmiller (random_seed k)\<rparr>"] assms(2) have
    "\<exists>c k2. (sched_halt (k\<lparr>random_seed := lcg_parkmiller (random_seed k)\<rparr>) :: fault + (unit ctl \<times> kst)) = Inr (c, k2)
      \<and> (c = HaltCpu \<or> c = MonitorLoop)" by simp
  ultimately show ?thesis by simp
qed

text \<open>C3: After every history of program creations and traps on any CPUs that starts in a state
  with tickets in range (as \<^verbatim>\<open>env_init\<close> leaves it), every environment that is not free holds
  between 2 and \<^verbatim>\<open>TICKET_STEP\<close> tickets. A CPU that then yields with the lock held, when the environments that are
  runnable or running have address spaces, runs one of those if there is one (it becomes the current environment of the
  CPU, marked running, and the lock is released), and otherwise halts or enters the monitor. The comment of
  \<^verbatim>\<open>sched_yield\<close> asks for less: it forbids an environment that is running on another CPU and wants the CPU to halt when
  no environment is runnable. The lottery does not keep to that, and the theorem states what the code does: an
  environment that runs elsewhere takes part in the draw (a finding; \<open>lottery_runs_env_of_other_cpu\<close>).\<close>

theorem kernel_history_schedulable:
  assumes "kinv k" and "run_steps kernel_step k es = Inr k'"
  shows "(\<forall>i. env_status (envs k' i) \<noteq> ENV_FREE \<longrightarrow> 2 \<le> env_tickets (envs k' i) \<and> env_tickets (envs k' i) \<le> 50)
     \<and> (\<forall>d lk. holding lk d \<and> (\<forall>e. contends (envs k' e) \<longrightarrow> env_pgdir (envs k' e) \<noteq> None) \<longrightarrow>
          (let k1 = k'\<lparr>this_cpu := d, kernel_lock := lk\<rparr> in
           if \<exists>i<NENV. contends (envs k' i)
           then \<exists>e<NENV. \<exists>k2. contends (envs k' e) \<and> (sched_yield k1 :: fault + (unit ctl \<times> kst)) = Inr (RunEnv e, k2)
             \<and> curenv k2 = Some e \<and> env_status (envs k2 e) = ENV_RUNNING \<and> locked (kernel_lock k2) = 0
           else \<exists>c k2. (sched_yield k1 :: fault + (unit ctl \<times> kst)) = Inr (c, k2) \<and> (c = HaltCpu \<or> c = MonitorLoop)))"
proof -
  have k': "kinv k'" by (rule kernel.run_inv[OF assms(1) _ assms(2)]) simp
  then have tk: "\<forall>i. env_status (envs k' i) \<noteq> ENV_FREE \<longrightarrow> 2 \<le> env_tickets (envs k' i) \<and> env_tickets (envs k' i) \<le> 50"
    using kinv_live[OF k'] by (auto simp: ticket_range_def TICKET_STEP_def)
  have t: "tickets_ok (envs (k'\<lparr>this_cpu := d, kernel_lock := lk\<rparr>))" for d lk using kinv_tickets_ok[OF k'] by simp
  have "if \<exists>i<NENV. contends (envs k' i)
      then \<exists>e<NENV. \<exists>k2. contends (envs k' e) \<and> (sched_yield (k'\<lparr>this_cpu := d, kernel_lock := lk\<rparr>) :: fault + (unit ctl \<times> kst)) = Inr (RunEnv e, k2)
        \<and> curenv k2 = Some e \<and> env_status (envs k2 e) = ENV_RUNNING \<and> locked (kernel_lock k2) = 0
      else \<exists>c k2. (sched_yield (k'\<lparr>this_cpu := d, kernel_lock := lk\<rparr>) :: fault + (unit ctl \<times> kst)) = Inr (c, k2) \<and> (c = HaltCpu \<or> c = MonitorLoop)"
    if h: "holding lk d" "\<forall>e. contends (envs k' e) \<longrightarrow> env_pgdir (envs k' e) \<noteq> None" for d lk
  proof (cases "\<exists>i<NENV. contends (envs k' i)")
    case True
    then obtain i where "i < NENV" "contends (envs k' i)" by blast
    with yield_runs[OF t, of i lk d] h have "\<exists>e<NENV. \<exists>k2. contends (envs k' e) \<and>
        (sched_yield (k'\<lparr>this_cpu := d, kernel_lock := lk\<rparr>) :: fault + (unit ctl \<times> kst)) = Inr (RunEnv e, k2)
        \<and> curenv k2 = Some e \<and> env_status (envs k2 e) = ENV_RUNNING \<and> locked (kernel_lock k2) = 0" by simp
    then show ?thesis unfolding if_P[OF True] .
  next
    case False
    with yield_halts[of "k'\<lparr>this_cpu := d, kernel_lock := lk\<rparr>"] h(1) have
      "\<exists>c k2. (sched_yield (k'\<lparr>this_cpu := d, kernel_lock := lk\<rparr>) :: fault + (unit ctl \<times> kst)) = Inr (c, k2) \<and> (c = HaltCpu \<or> c = MonitorLoop)"
      by simp
    then show ?thesis unfolding if_not_P[OF False] .
  qed
  then show ?thesis using tk unfolding Let_def by blast
qed

lemma demo_kst_kinv: "kinv demo_kst"
proof -
  have r: "ticket_range (env_tickets (demo_envs 0))" "ticket_range (env_tickets (demo_envs 2))"
    by (simp_all add: demo_envs_def ticket_range_def TICKET_STEP_def)
  have z: "env_tickets (demo_envs i) = 0" "env_status (demo_envs i) = ENV_FREE" if "i \<noteq> 0" "i \<noteq> 2" for i
    using that by (simp_all add: demo_envs_def zero_env_def)
  have e: "envs demo_kst = demo_envs" "\<And>d. cpu_env demo_kst d = (if d = 1 then Some 2 else None)"
    by (simp_all add: demo_kst_def)
  have "env_tickets (demo_envs i) = 0 \<or> ticket_range (env_tickets (demo_envs i))" for i
    using r z[of i] by (cases "i = 0 \<or> i = 2") auto
  moreover have "env_status (demo_envs i) \<noteq> ENV_FREE \<longrightarrow> ticket_range (env_tickets (demo_envs i))" for i
    using r z[of i] by (cases "i = 0 \<or> i = 2") auto
  ultimately show ?thesis using r by (simp add: kinv_def e)
qed

text \<open>A history on the example kernel: a clock interrupt while CPU 0 is idle.\<close>

lemma kernel_history_schedulable_witness:
  "\<exists>k'. run_steps kernel_step demo_kst [TrapOn 0 0 0 (zero_tf\<lparr>tf_trapno := 32, tf_cs := 8\<rparr>)] = Inr k'
     \<and> (\<forall>i. env_status (envs k' i) \<noteq> ENV_FREE \<longrightarrow> 2 \<le> env_tickets (envs k' i) \<and> env_tickets (envs k' i) \<le> 50)"
proof -
  let ?tf = "zero_tf\<lparr>tf_trapno := 32, tf_cs := 8\<rparr>"
  let ?k = "demo_kst\<lparr>cpu_status := (cpu_status demo_kst)(0 := CPU_STARTED)\<rparr>"
  have c: "curenv ?k = None" by (simp add: curenv_def demo_kst_def)
  have t: "trap 0 0 ?tf (demo_kst\<lparr>this_cpu := 0\<rparr>) = bindc (sched_yield ?k :: fault + (unit ctl \<times> kst)) (\<lambda>_ k5. case curenv k5 of
          Some c \<Rightarrow> if env_status (envs k5 c) = ENV_RUNNING then env_run k5 c else sched_yield k5
        | None \<Rightarrow> sched_yield k5)"
    using c by (simp add: trap_def trap_dispatch_def trap_numbers timer_tick_def GD_KT_def demo_kst_def)
  have tk: "tickets_ok (envs ?k)" using demo_kst_tickets by simp
  have "0 < NENV" "contends (envs ?k 0)" by (simp_all add: NENV_def demo_kst_def demo_contends)
  from sched_pick[OF tk this] obtain e where e: "contends (envs ?k e)"
    "(sched_yield ?k :: fault + (unit ctl \<times> kst)) =
       env_run (add_to_historial (?k\<lparr>random_seed := lcg_parkmiller (random_seed ?k)\<rparr>) e) e" by blast
  let ?k1 = "add_to_historial (?k\<lparr>random_seed := lcg_parkmiller (random_seed ?k)\<rparr>) e"
  have "e = 0 \<or> e = 2" using e(1) by (simp add: demo_kst_def demo_contends)
  then have "\<exists>d. env_pgdir (envs ?k1 e) = Some d"
    by (auto simp: add_to_historial_def Let_def demo_kst_def demo_envs_def)
  moreover have "holding (kernel_lock ?k1) (this_cpu ?k1)"
    by (simp add: add_to_historial_def Let_def demo_kst_def holding_def)
  ultimately obtain k' where "(env_run ?k1 e :: fault + (unit ctl \<times> kst)) = Inr (RunEnv e, k')"
    using env_run_eff by blast
  then have "run_steps kernel_step demo_kst [TrapOn 0 0 0 ?tf] = Inr k'"
    using t e(2) by simp
  from this kernel_history_schedulable[OF demo_kst_kinv this] show ?thesis by blast
qed

end
