(* ===== verification/PmapProps.thy ===== *)
theory PmapProps
  imports Pmap
begin

unbundle bit_operations_syntax

text \<open>
  Properties of \<^verbatim>\<open>Pmap\<close>: the free list of pages as an allocator, the effect of
  \<^verbatim>\<open>page_insert\<close> and \<^verbatim>\<open>page_remove\<close> on the address space as \<^verbatim>\<open>check_va2pa\<close> reads it, and the
  check of user memory with the hole that its wrap-around leaves.
\<close>

section \<open>Entries and frames\<close>

definition frame_of :: "u32 \<Rightarrow> nat" where
  "frame_of e = unat (PGNUM (PTE_ADDR e))"

lemma frame_of_unat: "frame_of e = unat e div 4096"
  by (simp add: frame_of_def unat_PGNUM unat_PTE_ADDR)

lemma kframe_eq: "kframe s pa = (if unat (PGNUM pa) \<ge> npages s then Inl (Panic ''KADDR called with invalid pa'')
    else Inr (unat (PGNUM pa)))"
  by (simp add: kframe_def KADDR_def)

lemma page2pa_bits: "page2pa p = push_bit 12 (word_of_nat p)"
  by (simp add: page2pa_def PGSHIFT_def)

text \<open>A flag word has no bit above the page offset.\<close>

definition flags_ok :: "u32 \<Rightarrow> bool" where
  "flags_ok w \<longleftrightarrow> drop_bit 12 w = 0"

lemma flags_ok_or: "flags_ok a \<Longrightarrow> flags_ok b \<Longrightarrow> flags_ok (a OR b)"
  by (simp add: flags_ok_def)

lemma flags_ok_consts [simp]:
  "flags_ok PTE_P" "flags_ok PTE_W" "flags_ok PTE_U" "flags_ok PTE_PWT" "flags_ok PTE_PCD"
  by (simp_all add: flags_ok_def pte_bits)

lemma drop_push_small:
  assumes "p < 2 ^ 20"
  shows "drop_bit 12 (push_bit 12 (word_of_nat p :: u32)) = word_of_nat p"
proof -
  have "unat (push_bit 12 (word_of_nat p :: u32)) = p * 4096"
    using assms by (simp add: push_bit_eq_mult unat_word_ariths unat_of_nat)
  then have "unat (drop_bit 12 (push_bit 12 (word_of_nat p :: u32))) = unat (word_of_nat p :: u32)"
    using assms by (simp add: drop_bit_eq_div unat_div unat_of_nat)
  then show ?thesis by (simp add: word_unat_eq_iff)
qed

lemma PTE_ADDR_entry:
  assumes "p < 2 ^ 20" and "flags_ok f"
  shows "PTE_ADDR (page2pa p OR f) = page2pa p"
  using assms drop_push_small[OF assms(1)]
  by (simp add: PTE_ADDR_eq page2pa_bits flags_ok_def)

lemma page2pa_frame_of: "page2pa (frame_of e) = PTE_ADDR e"
proof -
  have "unat (page2pa (frame_of e)) = unat (PTE_ADDR e)"
    using unat_u32_less[of e]
    by (simp add: page2pa_bits frame_of_unat push_bit_eq_mult unat_word_ariths unat_of_nat unat_PTE_ADDR)
  then show ?thesis by (simp add: word_unat_eq_iff)
qed

lemma PTE_ADDR_or: "PTE_ADDR (a OR b) = PTE_ADDR a OR PTE_ADDR b"
  by (simp add: PTE_ADDR_def bit.conj_disj_distrib2)

lemma PTE_ADDR_idem [simp]: "PTE_ADDR (PTE_ADDR a) = PTE_ADDR a"
  by (simp add: PTE_ADDR_def and.assoc)

lemma frame_of_entry:
  assumes "p < 2 ^ 20" and "flags_ok f"
  shows "frame_of (page2pa p OR f) = p"
  unfolding frame_of_def PTE_ADDR_entry[OF assms]
  using assms(1) drop_push_small[OF assms(1)]
  by (simp add: PGNUM_def PTXSHIFT_def page2pa_bits unat_of_nat)

lemma PGNUM_page2pa: "p < 2 ^ 20 \<Longrightarrow> unat (PGNUM (page2pa p)) = p"
  using drop_push_small[of p] by (simp add: PGNUM_def PTXSHIFT_def page2pa_bits unat_of_nat)

lemma kframe_page2pa: "p < npages s \<Longrightarrow> p < 2 ^ 20 \<Longrightarrow> kframe s (page2pa p) = Inr p"
  by (simp add: kframe_eq PGNUM_page2pa)

lemma P_odd: "w AND PTE_P \<noteq> 0 \<longleftrightarrow> odd w"
  by (simp add: PTE_P_def and_one_eq even_iff_mod_2_eq_zero)

lemma page2pa_P: "f AND PTE_P \<noteq> 0 \<Longrightarrow> (page2pa p OR f) AND PTE_P \<noteq> 0"
  by (simp add: P_odd even_or_iff)

lemma page2pa_or_nz: "f AND PTE_P \<noteq> 0 \<Longrightarrow> page2pa p OR f \<noteq> 0"
  using page2pa_P[of f p] by auto

lemma page2pa_and_flag:
  assumes "flags_ok f"
  shows "page2pa p AND f = 0"
proof (rule bit_word_eqI)
  fix n
  have "\<not> bit f n" if "12 \<le> n"
  proof -
    have "bit (drop_bit 12 f) (n - 12) = bit f n" using that by (simp add: bit_drop_bit_eq)
    with assms show ?thesis by (simp add: flags_ok_def)
  qed
  then show "bit (page2pa p AND f) n = bit (0 :: u32) n"
    by (auto simp: page2pa_bits bit_simps)
qed

section \<open>The page allocator\<close>

definition page_repr :: "kmem \<Rightarrow> nat list \<Rightarrow> bool" where
  "page_repr s ps \<longleftrightarrow> linked (pp_link s) (page_free_list s) ps \<and> distinct ps
     \<and> (\<forall>p\<in>set ps. p < npages s \<and> pp_ref s p = 0) \<and> npages s \<le> 2 ^ 20"

lemma page_alloc_Nil: "page_repr s [] \<Longrightarrow> page_alloc s z = Inr (None, s)"
  by (simp add: page_repr_def page_alloc_def)

lemma page_alloc_Cons:
  assumes "page_repr s (p # ps)"
  defines "s1 \<equiv> s\<lparr>page_free_list := pp_link s p, pp_link := (pp_link s)(p := None)\<rparr>"
  shows "page_alloc s z = Inr (Some p, if z then zero_page s1 p else s1)"
    and "page_repr (if z then zero_page s1 p else s1) ps"
proof -
  from assms(1) have p: "p < npages s" "npages s \<le> 2 ^ 20" "page_free_list s = Some p"
    by (auto simp: page_repr_def)
  have "unat (PGNUM (page2pa p)) = p"
    using p drop_push_small[of p] by (simp add: PGNUM_def PTXSHIFT_def page2pa_bits unat_of_nat)
  with p show "page_alloc s z = Inr (Some p, if z then zero_page s1 p else s1)"
    by (simp add: page_alloc_def s1_def kframe_eq Let_def)
  show "page_repr (if z then zero_page s1 p else s1) ps"
    using assms(1) by (auto simp: page_repr_def s1_def zero_page_def linked_upd)
qed

lemma page_free_repr:
  assumes "page_repr s ps" and "p \<notin> set ps" and "p < npages s" and "pp_ref s p = 0"
    and "pp_link s p = None"
  shows "\<exists>s'. page_free s p = Inr s' \<and> page_repr s' (p # ps) \<and> phys s' = phys s
     \<and> npages s' = npages s \<and> pp_ref s' = pp_ref s"
  using assms by (auto simp: page_free_def page_repr_def linked_upd)

interpretation pages: free_list page_repr "\<lambda>s. page_alloc s z" page_free
  "\<lambda>s p. p < npages s \<and> pp_ref s p = 0 \<and> pp_link s p = None"
proof
  fix s p ps
  assume "page_repr s (p # ps)"
  note a = page_alloc_Cons[OF this, of z]
  with \<open>page_repr s (p # ps)\<close>
  show "\<exists>s'. page_alloc s z = Inr (Some p, s') \<and> page_repr s' ps
      \<and> p < npages s' \<and> pp_ref s' p = 0 \<and> pp_link s' p = None"
    by (auto simp: page_repr_def zero_page_def)
next
  fix s ps p
  assume "page_repr s ps" "p < npages s \<and> pp_ref s p = 0 \<and> pp_link s p = None" "p \<notin> set ps"
  then show "\<exists>s'. page_free s p = Inr s' \<and> page_repr s' (p # ps)"
    using page_free_repr[of s ps p] by blast
qed (simp_all add: page_alloc_Nil page_repr_def[THEN iffD1])

section \<open>Well-formed address spaces\<close>

text \<open>
  \<open>UPDX\<close> is the number of page directory entries below \<^verbatim>\<open>UTOP\<close>, the part of an address
  space that the operations change. In a well-formed directory the tables of that part are
  present small-page tables in distinct frames that are neither the directory nor free, and
  the pages mapped by them are present and are not linked into the free list.
\<close>

definition UPDX :: nat where "UPDX = 955"

definition pde_at :: "kmem \<Rightarrow> nat \<Rightarrow> nat \<Rightarrow> u32" where
  "pde_at s pgdir d = phys s pgdir d"

definition pte_at :: "kmem \<Rightarrow> nat \<Rightarrow> nat \<Rightarrow> nat \<Rightarrow> u32" where
  "pte_at s pgdir d t = phys s (frame_of (pde_at s pgdir d)) t"

definition table_frame :: "kmem \<Rightarrow> nat \<Rightarrow> nat \<Rightarrow> bool" where
  "table_frame s pgdir f \<longleftrightarrow> f = pgdir \<or> (\<exists>d<UPDX. pde_at s pgdir d \<noteq> 0 \<and> f = frame_of (pde_at s pgdir d))"

definition pde_ok :: "kmem \<Rightarrow> u32 \<Rightarrow> bool" where
  "pde_ok s e \<longleftrightarrow> frame_of e < npages s \<and> e AND PTE_P \<noteq> 0 \<and> e AND PTE_PS = 0"

definition pt_ok :: "kmem \<Rightarrow> nat \<Rightarrow> nat list \<Rightarrow> bool" where
  "pt_ok s pgdir ps \<longleftrightarrow> page_repr s ps \<and> pgdir < npages s
     \<and> (\<forall>d<UPDX. pde_at s pgdir d \<noteq> 0 \<longrightarrow> pde_ok s (pde_at s pgdir d) \<and> frame_of (pde_at s pgdir d) \<noteq> pgdir)
     \<and> (\<forall>d<UPDX. \<forall>d'<UPDX. pde_at s pgdir d \<noteq> 0 \<and> pde_at s pgdir d' \<noteq> 0
          \<and> frame_of (pde_at s pgdir d) = frame_of (pde_at s pgdir d') \<longrightarrow> d = d')
     \<and> (\<forall>f\<in>set ps. \<not> table_frame s pgdir f)
     \<and> (\<forall>d<UPDX. \<forall>t<1024. pde_at s pgdir d \<noteq> 0 \<and> pte_at s pgdir d t \<noteq> 0 \<longrightarrow>
          frame_of (pte_at s pgdir d t) < npages s \<and> pte_at s pgdir d t AND PTE_P \<noteq> 0
          \<and> pp_link s (frame_of (pte_at s pgdir d t)) = None)"

lemma user_pdx: "va < UTOP \<Longrightarrow> unat (PDX va) < UPDX"
proof -
  assume "va < UTOP"
  then have "unat va < 4005560320" by (simp add: word_less_nat_alt memlayout_defs mmu_consts)
  then show ?thesis by (simp add: unat_PDX UPDX_def)
qed

lemma walk_mapped:
  assumes "pde_at s pgdir (unat (PDX va)) \<noteq> 0" and "frame_of (pde_at s pgdir (unat (PDX va))) < npages s"
  shows "pgdir_walk s pgdir va c = Inr (s, Some (frame_of (pde_at s pgdir (unat (PDX va))), unat (PTX va)))"
  using assms by (simp add: pgdir_walk_def read_pte_def pde_at_def kframe_eq frame_of_def Let_def)

lemma walk_unmapped:
  "pde_at s pgdir (unat (PDX va)) = 0 \<Longrightarrow> pgdir_walk s pgdir va False = Inr (s, None)"
  by (simp add: pgdir_walk_def read_pte_def pde_at_def Let_def)

text \<open>Creating the missing table: the state with the first free page as the new table.\<close>

definition new_table :: "kmem \<Rightarrow> nat \<Rightarrow> nat \<Rightarrow> nat \<Rightarrow> kmem" where
  "new_table s pgdir d p =
     write_pte (incref (zero_page (s\<lparr>page_free_list := pp_link s p, pp_link := (pp_link s)(p := None)\<rparr>) p) p)
       (pgdir, d) (page2pa p OR PTE_P OR PTE_W OR PTE_U)"

lemma new_pde:
  assumes "p < 2 ^ 20"
  shows "frame_of (page2pa p OR PTE_P OR PTE_W OR PTE_U) = p"
    and "(page2pa p OR PTE_P OR PTE_W OR PTE_U) AND PTE_P \<noteq> 0"
    and "page2pa p OR PTE_P OR PTE_W OR PTE_U \<noteq> 0"
    and "(page2pa p OR PTE_P OR PTE_W OR PTE_U) AND PTE_PS = 0"
proof -
  have f: "flags_ok (PTE_P OR PTE_W OR PTE_U)" "(PTE_P OR PTE_W OR PTE_U) AND PTE_P \<noteq> 0"
    "(PTE_P OR PTE_W OR PTE_U) AND PTE_PS = 0" "flags_ok PTE_PS"
    by (simp_all add: flags_ok_def pte_bits)
  show "frame_of (page2pa p OR PTE_P OR PTE_W OR PTE_U) = p"
    "(page2pa p OR PTE_P OR PTE_W OR PTE_U) AND PTE_P \<noteq> 0" "page2pa p OR PTE_P OR PTE_W OR PTE_U \<noteq> 0"
    by (rule frame_of_entry[OF assms f(1)] page2pa_P[OF f(2)] page2pa_or_nz[OF f(2)])+
  show "(page2pa p OR PTE_P OR PTE_W OR PTE_U) AND PTE_PS = 0"
    by (simp add: bit.conj_disj_distrib2 page2pa_and_flag[OF f(4)]) (simp add: pte_bits)
qed

lemma walk_create:
  assumes "pde_at s pgdir (unat (PDX va)) = 0" and pr: "page_repr s (p # ps)" and "p \<noteq> pgdir"
  shows "pgdir_walk s pgdir va True = Inr (new_table s pgdir (unat (PDX va)) p, Some (p, unat (PTX va)))"
proof -
  have p: "p < 2 ^ 20" "p < npages s" using pr by (auto simp: page_repr_def)
  let ?s1 = "new_table s pgdir (unat (PDX va)) p"
  have r: "read_pte ?s1 (pgdir, unat (PDX va)) = page2pa p OR PTE_P OR PTE_W OR PTE_U"
    by (simp add: new_table_def read_pte_def write_pte_def)
  have n: "npages ?s1 = npages s" by (simp add: new_table_def write_pte_def incref_def zero_page_def)
  have k: "kframe ?s1 (PTE_ADDR (page2pa p OR PTE_P OR PTE_W OR PTE_U)) = Inr p"
    using p n new_pde(1)[OF p(1)] by (simp add: kframe_eq frame_of_def)
  have "pgdir_walk s pgdir va True =
      chain (kframe ?s1 (PTE_ADDR (page2pa p OR PTE_P OR PTE_W OR PTE_U))) (\<lambda>f. Inr (?s1, Some (f, unat (PTX va))))"
    using assms(1) page_alloc_Cons(1)[OF pr, of True] r new_pde(3)[OF p(1)]
    by (simp add: pgdir_walk_def read_pte_def pde_at_def Let_def new_table_def[symmetric])
  then show ?thesis using k by simp
qed

lemma walk_create_full:
  assumes "pde_at s pgdir (unat (PDX va)) = 0" and "page_repr s []"
  shows "pgdir_walk s pgdir va True = Inr (s, None)"
  using assms page_alloc_Nil[OF assms(2), of True]
  by (simp add: pgdir_walk_def read_pte_def pde_at_def Let_def)

text \<open>What \<^verbatim>\<open>check_va2pa\<close> reads in a well-formed directory.\<close>

definition reads_as :: "u32 \<Rightarrow> u32" where
  "reads_as pte = (if pte AND PTE_P = 0 then NOT 0 else PTE_ADDR pte)"

lemma reads_as_0 [simp]: "reads_as 0 = NOT 0"
  by (simp add: reads_as_def)

lemma check_va2pa_none: "pde_at s pgdir (unat (PDX va)) = 0 \<Longrightarrow> check_va2pa s pgdir va = Inr (NOT 0)"
  by (simp add: check_va2pa_def pde_at_def read_pte_def)

lemma check_va2pa_table:
  assumes "pde_ok s (pde_at s pgdir (unat (PDX va)))"
  shows "check_va2pa s pgdir va = Inr (reads_as (pte_at s pgdir (unat (PDX va)) (unat (PTX va))))"
  using assms
  by (simp add: check_va2pa_def pde_at_def pte_at_def read_pte_def pde_ok_def kframe_eq frame_of_def
      reads_as_def Let_def)

lemma set_cell_id [simp]: "set_cell m i j (m i j) = m"
  by (simp add: set_cell_def)

text \<open>Unmapping one page: only its entry changes, and nothing faults.\<close>

lemma page_remove_table:
  assumes pde: "pde_at s pgdir (unat (PDX va)) \<noteq> 0" "frame_of (pde_at s pgdir (unat (PDX va))) < npages s"
    and pte: "pte_at s pgdir (unat (PDX va)) (unat (PTX va)) \<noteq> 0 \<Longrightarrow>
      frame_of (pte_at s pgdir (unat (PDX va)) (unat (PTX va))) < npages s \<and>
      pp_link s (frame_of (pte_at s pgdir (unat (PDX va)) (unat (PTX va)))) = None"
  shows "\<exists>s'. page_remove cur s pgdir va = Inr s' \<and> npages s' = npages s \<and>
      phys s' = set_cell (phys s) (frame_of (pde_at s pgdir (unat (PDX va)))) (unat (PTX va)) 0"
proof (cases "pte_at s pgdir (unat (PDX va)) (unat (PTX va)) = 0")
  case True
  then show ?thesis
    by (simp add: page_remove_def page_lookup_def walk_mapped[OF pde] read_pte_def pte_at_def
        set_cell_id[of "phys s", simplified True[unfolded pte_at_def]])
       (metis set_cell_id)
next
  case False
  define pp where "pp = frame_of (pte_at s pgdir (unat (PDX va)) (unat (PTX va)))"
  have pp: "pp < npages s" "pp_link s pp = None" using pte[OF False] by (auto simp: pp_def)
  have P: "PTE_P \<noteq> 0" by (simp add: pte_bits)
  have l: "page_lookup s pgdir va =
      Inr (Some (pp, (frame_of (pde_at s pgdir (unat (PDX va))), unat (PTX va))))"
    using False pp(1) P
    by (simp add: page_lookup_def walk_mapped[OF pde] read_pte_def pte_at_def pa2page_def pp_def frame_of_def)
  obtain s1 where s1: "page_decref s pp = Inr s1" "phys s1 = phys s" "npages s1 = npages s"
    using pp by (cases "pp_ref s pp = 1") (auto simp: page_decref_def page_free_def Let_def)
  show ?thesis
    using False P s1
    by (simp add: page_remove_def l walk_mapped[OF pde] read_pte_def pte_at_def tlb_invalidate_def
        write_pte_def Let_def)
qed

text \<open>
  The walk that may create a table: it fails only when the table is missing and no page is
  free, and otherwise reaches the entry without changing what any address maps to.
\<close>

lemma new_table_sel:
  "npages (new_table s pgdir d p) = npages s"
  "phys (new_table s pgdir d p) =
     set_cell ((phys s)(p := \<lambda>_. 0)) pgdir d (page2pa p OR PTE_P OR PTE_W OR PTE_U)"
  "page_free_list (new_table s pgdir d p) = pp_link s p"
  "pp_link (new_table s pgdir d p) = (pp_link s)(p := None)"
  by (simp_all add: new_table_def write_pte_def incref_def zero_page_def)

lemma pt_okD:
  assumes "pt_ok s pgdir ps" and "d < UPDX" and "pde_at s pgdir d \<noteq> 0"
  shows "pde_ok s (pde_at s pgdir d)" and "frame_of (pde_at s pgdir d) \<noteq> pgdir"
    and "frame_of (pde_at s pgdir d) < npages s"
    and "frame_of (pde_at s pgdir d) \<notin> set ps"
    and "\<And>d'. d' < UPDX \<Longrightarrow> pde_at s pgdir d' \<noteq> 0 \<Longrightarrow> frame_of (pde_at s pgdir d) = frame_of (pde_at s pgdir d') \<Longrightarrow> d = d'"
    and "\<And>t. t < 1024 \<Longrightarrow> pte_at s pgdir d t \<noteq> 0 \<Longrightarrow>
       frame_of (pte_at s pgdir d t) < npages s \<and> pp_link s (frame_of (pte_at s pgdir d t)) = None"
  using assms unfolding pt_ok_def table_frame_def pde_ok_def by blast+

lemma new_table_at:
  assumes ok: "pt_ok s pgdir (p # ps)" and d: "d < UPDX" "pde_at s pgdir d = 0"
  defines "s1 \<equiv> new_table s pgdir d p"
  shows "pde_at s1 pgdir d = page2pa p OR PTE_P OR PTE_W OR PTE_U"
    and "frame_of (pde_at s1 pgdir d) = p"
    and "d' \<noteq> d \<Longrightarrow> pde_at s1 pgdir d' = pde_at s pgdir d'"
    and "pte_at s1 pgdir d t = 0"
    and "d' < UPDX \<Longrightarrow> d' \<noteq> d \<Longrightarrow> pde_at s pgdir d' \<noteq> 0 \<Longrightarrow> pte_at s1 pgdir d' t = pte_at s pgdir d' t"
proof -
  have p: "p < 2 ^ 20" "p \<noteq> pgdir"
    using ok by (auto simp: pt_ok_def page_repr_def table_frame_def)
  show e: "pde_at s1 pgdir d = page2pa p OR PTE_P OR PTE_W OR PTE_U"
    by (simp add: s1_def pde_at_def new_table_sel)
  show f: "frame_of (pde_at s1 pgdir d) = p" unfolding e by (rule new_pde(1)[OF p(1)])
  show o: "pde_at s1 pgdir d' = pde_at s pgdir d'" if "d' \<noteq> d" for d'
    using that p(2) by (simp add: s1_def pde_at_def new_table_sel)
  show "pte_at s1 pgdir d t = 0"
    using p(2) by (simp add: pte_at_def f) (simp add: s1_def new_table_sel)
  assume "d' < UPDX" "d' \<noteq> d" "pde_at s pgdir d' \<noteq> 0"
  note q = pt_okD(2,4)[OF ok this(1,3)]
  then show "pte_at s1 pgdir d' t = pte_at s pgdir d' t"
    using o[OF \<open>d' \<noteq> d\<close>] by (simp add: pte_at_def) (simp add: s1_def new_table_sel)
qed

text \<open>The part of \<open>pt_ok\<close> that does not speak about the free list.\<close>

definition tables_ok :: "kmem \<Rightarrow> nat \<Rightarrow> bool" where
  "tables_ok s pgdir \<longleftrightarrow>
     (\<forall>d<UPDX. pde_at s pgdir d \<noteq> 0 \<longrightarrow> pde_ok s (pde_at s pgdir d) \<and> frame_of (pde_at s pgdir d) \<noteq> pgdir)
     \<and> (\<forall>d<UPDX. \<forall>d'<UPDX. pde_at s pgdir d \<noteq> 0 \<and> pde_at s pgdir d' \<noteq> 0
          \<and> frame_of (pde_at s pgdir d) = frame_of (pde_at s pgdir d') \<longrightarrow> d = d')
     \<and> (\<forall>d<UPDX. \<forall>t<1024. pde_at s pgdir d \<noteq> 0 \<and> pte_at s pgdir d t \<noteq> 0 \<longrightarrow>
          frame_of (pte_at s pgdir d t) < npages s \<and> pp_link s (frame_of (pte_at s pgdir d t)) = None)"

lemma tables_okD:
  assumes "tables_ok s pgdir" and "d < UPDX" and "pde_at s pgdir d \<noteq> 0"
  shows "pde_ok s (pde_at s pgdir d)" and "frame_of (pde_at s pgdir d) \<noteq> pgdir"
    and "frame_of (pde_at s pgdir d) < npages s"
    and "\<And>d'. d' < UPDX \<Longrightarrow> pde_at s pgdir d' \<noteq> 0 \<Longrightarrow> frame_of (pde_at s pgdir d) = frame_of (pde_at s pgdir d') \<Longrightarrow> d = d'"
    and "\<And>t. t < 1024 \<Longrightarrow> pte_at s pgdir d t \<noteq> 0 \<Longrightarrow>
       frame_of (pte_at s pgdir d t) < npages s \<and> pp_link s (frame_of (pte_at s pgdir d t)) = None"
  using assms unfolding tables_ok_def pde_ok_def by blast+

lemma pt_ok_tables: "pt_ok s pgdir ps \<Longrightarrow> tables_ok s pgdir"
  unfolding pt_ok_def tables_ok_def by blast

lemma new_table_ok:
  assumes ok: "pt_ok s pgdir (p # ps)" and d: "d < UPDX" "pde_at s pgdir d = 0"
  shows "tables_ok (new_table s pgdir d p) pgdir"
proof -
  let ?s1 = "new_table s pgdir d p"
  note at = new_table_at[OF ok d]
  have p: "p < 2 ^ 20" "p < npages s" "p \<noteq> pgdir"
    using ok by (auto simp: pt_ok_def page_repr_def table_frame_def)
  have npg: "npages ?s1 = npages s" by (simp add: new_table_sel)
  have old: "pde_at s pgdir d' \<noteq> 0 \<and> pde_at ?s1 pgdir d' = pde_at s pgdir d'"
    if "pde_at ?s1 pgdir d' \<noteq> 0" "d' \<noteq> d" for d'
    using that at(3)[of d'] by simp
  have notp: "frame_of (pde_at s pgdir d') \<noteq> p" if "d' < UPDX" "pde_at s pgdir d' \<noteq> 0" for d'
    using pt_okD(4)[OF ok that] by auto
  have new_ok: "pde_ok ?s1 (pde_at ?s1 pgdir d)"
    using new_pde(2,4)[OF p(1)] p(2) at(2) by (simp add: pde_ok_def npg at(1))
  have A: "pde_ok ?s1 (pde_at ?s1 pgdir d') \<and> frame_of (pde_at ?s1 pgdir d') \<noteq> pgdir"
    if h: "d' < UPDX" "pde_at ?s1 pgdir d' \<noteq> 0" for d'
  proof (cases "d' = d")
    case True
    then show ?thesis using new_ok at(2) p(3) by simp
  next
    case False
    note o = old[OF h(2) False]
    then show ?thesis using pt_okD(1,2)[OF ok h(1)] by (simp add: pde_ok_def npg)
  qed
  have B: "d1 = d2" if h: "d1 < UPDX" "d2 < UPDX" "pde_at ?s1 pgdir d1 \<noteq> 0" "pde_at ?s1 pgdir d2 \<noteq> 0"
    "frame_of (pde_at ?s1 pgdir d1) = frame_of (pde_at ?s1 pgdir d2)" for d1 d2
  proof (cases "d1 = d"; cases "d2 = d")
    assume c: "d1 = d" "d2 \<noteq> d"
    from old[OF h(4) c(2)] notp[OF h(2)] h(5) c at(2) show ?thesis by simp
  next
    assume c: "d1 \<noteq> d" "d2 = d"
    from old[OF h(3) c(1)] notp[OF h(1)] h(5) c at(2) show ?thesis by simp
  next
    assume c: "d1 \<noteq> d" "d2 \<noteq> d"
    from old[OF h(3) c(1)] old[OF h(4) c(2)] h(5) pt_okD(5)[OF ok h(1) _ h(2)] show ?thesis by simp
  qed simp
  have C: "frame_of (pte_at ?s1 pgdir d' t) < npages ?s1 \<and> pp_link ?s1 (frame_of (pte_at ?s1 pgdir d' t)) = None"
    if h: "d' < UPDX" "t < 1024" "pde_at ?s1 pgdir d' \<noteq> 0" "pte_at ?s1 pgdir d' t \<noteq> 0" for d' t
  proof -
    have ne: "d' \<noteq> d" using h(4) at(4)[of t] by auto
    note o = old[OF h(3) ne]
    then have "pte_at ?s1 pgdir d' t = pte_at s pgdir d' t" using at(5)[OF h(1) ne] by simp
    then show ?thesis using pt_okD(6)[OF ok h(1) _ h(2)] o h(4) by (simp add: new_table_sel)
  qed
  show ?thesis unfolding tables_ok_def using A B C by blast
qed

lemma new_table_reads:
  assumes ok: "pt_ok s pgdir (p # ps)" and d: "d < UPDX" "pde_at s pgdir d = 0" and va: "va < UTOP"
  shows "check_va2pa (new_table s pgdir d p) pgdir va = check_va2pa s pgdir va"
proof -
  let ?s1 = "new_table s pgdir d p"
  note at = new_table_at[OF ok d]
  note u = user_pdx[OF va]
  show ?thesis
  proof (cases "unat (PDX va) = d")
    case True
    have "pde_ok ?s1 (pde_at ?s1 pgdir d)"
      using tables_okD(1)[OF new_table_ok[OF ok d] d(1)] at(1) new_pde(3)[of p] ok
      by (auto simp: pt_ok_def page_repr_def)
    then have "check_va2pa ?s1 pgdir va = Inr (NOT 0)"
      using check_va2pa_table[of ?s1 pgdir va] True at(4) by simp
    then show ?thesis using check_va2pa_none[of s pgdir va] d(2) True by simp
  next
    case False
    note o = at(3)[OF False]
    show ?thesis
    proof (cases "pde_at s pgdir (unat (PDX va)) = 0")
      case True
      then show ?thesis using check_va2pa_none o by simp
    next
      case nz: False
      have "pde_ok ?s1 (pde_at ?s1 pgdir (unat (PDX va)))"
        using tables_okD(1)[OF new_table_ok[OF ok d] u] nz o by simp
      then show ?thesis
        using check_va2pa_table[of ?s1 pgdir va] check_va2pa_table[OF pt_okD(1)[OF ok u nz]]
          at(5)[OF u False nz] by simp
    qed
  qed
qed

text \<open>Changing one entry of a table changes what its page maps to and nothing else.\<close>

lemma set_entry_reads:
  assumes ok: "tables_ok s pgdir" and va: "va < UTOP" and nz: "pde_at s pgdir (unat (PDX va)) \<noteq> 0"
    and ph: "phys s' = set_cell (phys s) (frame_of (pde_at s pgdir (unat (PDX va)))) (unat (PTX va)) v"
    and np: "npages s' = npages s"
  shows "check_va2pa s' pgdir va = Inr (reads_as v)"
    and "va' < UTOP \<Longrightarrow> PGNUM va' \<noteq> PGNUM va \<Longrightarrow> check_va2pa s' pgdir va' = check_va2pa s pgdir va'"
proof -
  let ?f = "frame_of (pde_at s pgdir (unat (PDX va)))"
  note u = user_pdx[OF va]
  note t = tables_okD[OF ok u nz]
  have pde: "pde_at s' pgdir d = pde_at s pgdir d" for d
    using t(2) by (simp add: pde_at_def ph set_cell_app)
  have ok': "pde_ok s' e = pde_ok s e" for e by (simp add: pde_ok_def np)
  have pte: "pte_at s' pgdir d i = (if frame_of (pde_at s pgdir d) = ?f \<and> i = unat (PTX va) then v
      else pte_at s pgdir d i)" for d i
    by (simp add: pte_at_def pde ph set_cell_app)
  show "check_va2pa s' pgdir va = Inr (reads_as v)"
    using check_va2pa_table[of s' pgdir va] t(1) by (simp add: pde pte ok')
  assume va': "va' < UTOP" and ne: "PGNUM va' \<noteq> PGNUM va"
  show "check_va2pa s' pgdir va' = check_va2pa s pgdir va'"
  proof (cases "pde_at s pgdir (unat (PDX va')) = 0")
    case True
    then show ?thesis using check_va2pa_none[of s pgdir va'] check_va2pa_none[of s' pgdir va'] pde by simp
  next
    case False
    note t' = tables_okD[OF ok user_pdx[OF va'] False]
    have "\<not> (frame_of (pde_at s pgdir (unat (PDX va'))) = ?f \<and> unat (PTX va') = unat (PTX va))"
    proof
      assume a: "frame_of (pde_at s pgdir (unat (PDX va'))) = ?f \<and> unat (PTX va') = unat (PTX va)"
      then have "unat (PDX va') = unat (PDX va)" using t'(4)[OF u nz] by simp
      with a have "PDX va' = PDX va \<and> PTX va' = PTX va" by (simp add: word_unat_eq_iff)
      with ne show False using same_page_iff by blast
    qed
    then have "pte_at s' pgdir (unat (PDX va')) (unat (PTX va')) = pte_at s pgdir (unat (PDX va')) (unat (PTX va'))"
      by (simp only: pte if_False)
    then show ?thesis
      using check_va2pa_table[OF t'(1)] check_va2pa_table[of s' pgdir va'] t'(1) by (simp add: pde ok')
  qed
qed

section \<open>Mapping and unmapping a page\<close>

lemma incref_sel [simp]:
  "npages (incref s p) = npages s" "phys (incref s p) = phys s" "pp_link (incref s p) = pp_link s"
  "pde_at (incref s p) = pde_at s" "pte_at (incref s p) = pte_at s"
  by (simp_all add: incref_def fun_eq_iff pde_at_def pte_at_def)

lemma insert_after_walk:
  assumes w: "pgdir_walk s0 pgdir va True = Inr (s, Some (frame_of (pde_at s pgdir (unat (PDX va))), unat (PTX va)))"
    and ok: "tables_ok s pgdir" and va: "va < UTOP" and nz: "pde_at s pgdir (unat (PDX va)) \<noteq> 0"
  shows "\<exists>s'. page_insert cur s0 pgdir pp va perm = Inr (s', 0) \<and> npages s' = npages s
     \<and> phys s' = set_cell (phys s) (frame_of (pde_at s pgdir (unat (PDX va)))) (unat (PTX va))
                  (page2pa pp OR perm OR PTE_P)"
proof -
  note t = tables_okD[OF ok user_pdx[OF va] nz]
  let ?i = "incref s pp"
  obtain s2 where "page_remove cur ?i pgdir va = Inr s2" "npages s2 = npages s"
    "phys s2 = set_cell (phys s) (frame_of (pde_at s pgdir (unat (PDX va)))) (unat (PTX va)) 0"
    using page_remove_table[of ?i pgdir va cur] nz t(3) t(5)[OF PTX_less] by auto
  then show ?thesis
    by (simp add: page_insert_def w write_pte_def) (simp add: set_cell_def fun_eq_iff)
qed

lemma entry_reads:
  assumes "pp < 2 ^ 20" and "flags_ok perm"
  shows "reads_as (page2pa pp OR perm OR PTE_P) = page2pa pp"
proof -
  have f: "flags_ok (perm OR PTE_P)" "(perm OR PTE_P) AND PTE_P \<noteq> 0"
    using assms(2) by (simp_all add: flags_ok_or P_odd even_or_iff) (simp add: PTE_P_def)
  have "(page2pa pp OR (perm OR PTE_P)) AND PTE_P \<noteq> 0" by (rule page2pa_P[OF f(2)])
  then show ?thesis using PTE_ADDR_entry[OF assms(1) f(1)] by (simp add: reads_as_def)
qed

text \<open>Mapping with any permission word, also one with bits above the page offset.\<close>

lemma page_insert_entry:
  assumes "pt_ok s pgdir ps" and "va < UTOP"
  shows "if pde_at s pgdir (unat (PDX va)) = 0 \<and> ps = []
     then page_insert cur s pgdir pp va perm = Inr (s, - E_NO_MEM)
     else \<exists>s'. page_insert cur s pgdir pp va perm = Inr (s', 0)
            \<and> check_va2pa s' pgdir va = Inr (reads_as (page2pa pp OR perm OR PTE_P))
            \<and> (\<forall>va'. va' < UTOP \<and> PGNUM va' \<noteq> PGNUM va \<longrightarrow>
                  check_va2pa s' pgdir va' = check_va2pa s pgdir va')"
proof -
  let ?d = "unat (PDX va)"
  note u = user_pdx[OF assms(2)]
  show ?thesis
  proof (cases "pde_at s pgdir ?d = 0")
    case False
    note ok = pt_ok_tables[OF assms(1)]
    note w = walk_mapped[OF False tables_okD(3)[OF ok u False], of True]
    from insert_after_walk[OF w ok assms(2) False] obtain s' where s':
      "page_insert cur s pgdir pp va perm = Inr (s', 0)" "npages s' = npages s"
      "phys s' = set_cell (phys s) (frame_of (pde_at s pgdir ?d)) (unat (PTX va)) (page2pa pp OR perm OR PTE_P)"
      by blast
    with set_entry_reads[OF ok assms(2) False s'(3,2)] False show ?thesis by simp
  next
    case True
    show ?thesis
    proof (cases ps)
      case Nil
      then show ?thesis
        using True walk_create_full[OF True] assms(1) by (simp add: pt_ok_def page_insert_def)
    next
      case (Cons p qs)
      note ok0 = assms(1)[unfolded Cons]
      let ?s1 = "new_table s pgdir ?d p"
      note ok = new_table_ok[OF ok0 u True] and at = new_table_at[OF ok0 u True]
      have p: "page_repr s (p # qs)" "p \<noteq> pgdir" "p < 2 ^ 20"
        using ok0 by (auto simp: pt_ok_def page_repr_def table_frame_def)
      have nz: "pde_at ?s1 pgdir ?d \<noteq> 0" using new_pde(3)[OF p(3)] at(1) by simp
      have "pgdir_walk s pgdir va True = Inr (?s1, Some (frame_of (pde_at ?s1 pgdir ?d), unat (PTX va)))"
        using walk_create[OF True p(1,2)] at(2) by simp
      from insert_after_walk[OF this ok assms(2) nz] obtain s' where s':
        "page_insert cur s pgdir pp va perm = Inr (s', 0)" "npages s' = npages ?s1"
        "phys s' = set_cell (phys ?s1) (frame_of (pde_at ?s1 pgdir ?d)) (unat (PTX va)) (page2pa pp OR perm OR PTE_P)"
        by blast
      with set_entry_reads[OF ok assms(2) nz s'(3,2)] new_table_reads[OF ok0 u True]
      show ?thesis using Cons by simp
    qed
  qed
qed

lemma page_insert_result:
  assumes "pt_ok s pgdir ps" and "va < UTOP"
  shows "(\<exists>s'. page_insert cur s pgdir pp va perm = Inr (s', 0)
            \<and> check_va2pa s' pgdir va = Inr (reads_as (page2pa pp OR perm OR PTE_P))
            \<and> (\<forall>va'. va' < UTOP \<and> PGNUM va' \<noteq> PGNUM va \<longrightarrow>
                  check_va2pa s' pgdir va' = check_va2pa s pgdir va'))
       \<or> (ps = [] \<and> page_insert cur s pgdir pp va perm = Inr (s, - E_NO_MEM))"
  using page_insert_entry[OF assms, of cur pp perm] by (auto split: if_splits)

text \<open>C12: Mapping a page with \<^verbatim>\<open>page_insert\<close> below \<^verbatim>\<open>UTOP\<close> in a well-formed address space
  never faults. When the directory entry of the address is empty, so that its page table is missing, and no page
  is free, it answers \<^verbatim>\<open>-E_NO_MEM\<close> and leaves the state as it was; in every other case, also with a page
  table and no free page, it answers 0, the address translates to the page given and every other page of the address
  space translates as before.\<close>

theorem page_insert_maps:
  assumes "pt_ok s pgdir ps" and "va < UTOP" and "pp < npages s" and "drop_bit 12 perm = 0"
  shows "if pde_at s pgdir (unat (PDX va)) = 0 \<and> ps = []
     then page_insert cur s pgdir pp va perm = Inr (s, - E_NO_MEM)
     else \<exists>s'. page_insert cur s pgdir pp va perm = Inr (s', 0)
            \<and> check_va2pa s' pgdir va = Inr (page2pa pp)
            \<and> (\<forall>va'. va' < UTOP \<and> PGNUM va' \<noteq> PGNUM va \<longrightarrow>
                  check_va2pa s' pgdir va' = check_va2pa s pgdir va')"
proof -
  have "pp < 2 ^ 20" "flags_ok perm"
    using assms(1,3,4) by (auto simp: pt_ok_def page_repr_def flags_ok_def)
  from entry_reads[OF this] page_insert_entry[OF assms(1,2), of cur pp perm] show ?thesis by (simp split: if_splits)
qed

text \<open>A small memory for the examples: frame 1 is an empty directory, frames 2 and 3 are free.\<close>

definition demo_mem :: kmem where
  "demo_mem = \<lparr>npages = 8, pp_link = (\<lambda>p. if p = 2 then Some 3 else None), pp_ref = (\<lambda>_. 0),
     page_free_list = Some 2, phys = (\<lambda>_ _. 0), boot_nextfree = 0, mmio_base = MMIOBASE,
     user_mem_check_addr = 0, invlpgs = []\<rparr>"

lemma demo_mem_ok: "pt_ok demo_mem 1 [2, 3]"
  by (simp add: pt_ok_def page_repr_def demo_mem_def table_frame_def pde_at_def)

lemma page_insert_maps_witness:
  "\<exists>s'. page_insert None demo_mem 1 5 0x800000 PTE_U = Inr (s', 0)
     \<and> check_va2pa s' 1 0x800000 = Inr (page2pa 5)
     \<and> (\<forall>va'. va' < UTOP \<and> PGNUM va' \<noteq> PGNUM 0x800000 \<longrightarrow>
           check_va2pa s' 1 va' = check_va2pa demo_mem 1 va')"
proof -
  have "0x800000 < UTOP" "5 < npages demo_mem" "drop_bit 12 PTE_U = 0"
    by (simp_all add: memlayout_defs mmu_consts demo_mem_def pte_bits)
  from page_insert_maps[OF demo_mem_ok this, of None] show ?thesis by (simp split: if_splits)
qed

text \<open>Unmapping with \<^verbatim>\<open>page_remove\<close> in a well-formed address space never faults; the page no
  longer translates and every other page below \<^verbatim>\<open>UTOP\<close> translates as before.\<close>

theorem page_remove_unmaps:
  assumes "pt_ok s pgdir ps" and "va < UTOP"
  shows "\<exists>s'. page_remove cur s pgdir va = Inr s' \<and> check_va2pa s' pgdir va = Inr (NOT 0)
     \<and> (\<forall>va'. va' < UTOP \<and> PGNUM va' \<noteq> PGNUM va \<longrightarrow>
           check_va2pa s' pgdir va' = check_va2pa s pgdir va')"
proof (cases "pde_at s pgdir (unat (PDX va)) = 0")
  case True
  then show ?thesis
    using check_va2pa_none[OF True]
    by (simp add: page_remove_def page_lookup_def walk_unmapped)
next
  case False
  note u = user_pdx[OF assms(2)]
  note ok = pt_ok_tables[OF assms(1)]
  note t = tables_okD[OF ok u False]
  from page_remove_table[OF False t(3) t(5)[OF PTX_less]] obtain s' where s':
    "page_remove cur s pgdir va = Inr s'" "npages s' = npages s"
    "phys s' = set_cell (phys s) (frame_of (pde_at s pgdir (unat (PDX va)))) (unat (PTX va)) 0"
    by blast
  with set_entry_reads[OF ok assms(2) False s'(3,2)] show ?thesis by simp
qed

lemma page_remove_unmaps_witness:
  "\<exists>s'. page_remove None demo_mem 1 0x800000 = Inr s' \<and> check_va2pa s' 1 0x800000 = Inr (NOT 0)"
proof -
  have "0x800000 < UTOP" by (simp add: memlayout_defs mmu_consts)
  from page_remove_unmaps[OF demo_mem_ok this, of None] show ?thesis by blast
qed

section \<open>Checking user memory\<close>

lemma walk_same_page:
  assumes "PGNUM a = PGNUM b"
  shows "pgdir_walk s pgdir a c = pgdir_walk s pgdir b c"
proof -
  have "PDX a = PDX b" "PTX a = PTX b" using assms same_page_iff by blast+
  then show ?thesis by (simp only: pgdir_walk_def)
qed

lemma walk_no_create: "pgdir_walk s pgdir a False = Inr (s1, q) \<Longrightarrow> s1 = s"
  by (auto simp: pgdir_walk_def chain_eq_Inr Let_def split: if_splits)

lemma user_mem_loop_0:
  "user_mem_loop s pgdir lo perm as = Inr (s', 0) \<Longrightarrow>
     s' = s \<and> (\<forall>a\<in>set as. \<exists>q. pgdir_walk s pgdir a False = Inr (s, Some q)
        \<and> read_pte s q AND (perm OR PTE_P) = perm OR PTE_P)"
proof (induction as)
  case (Cons a as)
  from Cons.prems obtain s1 pte where w: "pgdir_walk s pgdir a False = Inr (s1, pte)"
    and r: "(if (case pte of None \<Rightarrow> True | Some q \<Rightarrow> read_pte s q AND (perm OR PTE_P) \<noteq> perm OR PTE_P)
       then Inr (s\<lparr>user_mem_check_addr := (if a > lo then a else lo)\<rparr>, - E_FAULT)
       else user_mem_loop s pgdir lo perm as) = Inr (s', 0)"
    by (auto simp: chain_eq_Inr)
  from r have "user_mem_loop s pgdir lo perm as = Inr (s', 0)"
    and "\<exists>q. pte = Some q \<and> read_pte s q AND (perm OR PTE_P) = perm OR PTE_P"
    by (auto simp: error_defs split: if_splits option.splits)
  with Cons.IH w walk_no_create[OF w] show ?case by auto
qed simp

text \<open>Every address of a range that does not wrap lies on one of the pages the loop visits.\<close>

lemma page_steps_cover:
  assumes "unat lo mod 4096 = 0" and "lo \<le> a" and "a < hi"
  shows "\<exists>b\<in>set (page_steps lo hi). PGNUM b = PGNUM a"
proof -
  define k where "k = (unat a - unat lo) div 4096"
  have le: "unat lo \<le> unat a" "unat a < unat hi"
    using assms(2,3) by (simp_all add: word_le_nat_alt word_less_nat_alt)
  then have k: "k < (unat hi - unat lo + 4095) div 4096"
    unfolding k_def by (auto simp: less_eq_Suc_le[symmetric] div_add_self1[symmetric] intro!: le_less_trans[OF div_le_mono] )
  obtain c where c: "unat lo = 4096 * c" using assms(1) by auto
  have kb: "unat lo + k * 4096 \<le> unat a" using le(1) by (simp add: k_def c) 
  have u: "unat (lo + word_of_nat k * PGSIZE) = unat lo + k * 4096"
  proof -
    have "unat lo + k * 4096 < 4294967296" using kb unat_u32_less[of a] by simp
    then show ?thesis by (simp add: PGSIZE_def unat_word_ariths unat_of_nat)
  qed
  have "(unat lo + k * 4096) div 4096 = unat a div 4096"
    using le(1) by (simp add: k_def c) 
  then have "PGNUM (lo + word_of_nat k * PGSIZE) = PGNUM a"
    by (simp add: word_unat_eq_iff unat_PGNUM u)
  with k show ?thesis by (auto simp: page_steps_def)
qed


text \<open>Page 5 of the example memory mapped for the user at \<open>0x800000\<close> through a table in frame 4.\<close>

definition demo_user_mem :: kmem where
  "demo_user_mem = demo_mem\<lparr>phys := (\<lambda>f i. if f = 1 \<and> i = 2 then 0x4007
     else if f = 4 \<and> i = 0 then 0x5005 else 0)\<rparr>"


text \<open>The sum \<^verbatim>\<open>va + len\<close> wraps: for the whole top of the address space, where the kernel
  lives, \<^verbatim>\<open>user_mem_check\<close> visits no page and answers 0 in every address space and for every
  permission.\<close>

theorem user_mem_check_wraps:
  "user_mem_check s pgdir KERNBASE 0x10000000 perm = Inr (s, 0)"
  by (simp add: user_mem_check_def page_steps_def ROUNDUP_def ROUNDDOWN_def mmu_consts memlayout_defs)

text \<open>An allocation that drains the free list hands out the pages in list order, and the
  pages given back afterwards come out again last in, first out: \<^verbatim>\<open>page_free\<close> followed by
  \<^verbatim>\<open>page_alloc\<close> returns the same page and the same free pages, for zeroed and plain allocation.\<close>

theorem page_free_alloc_lifo:
  assumes "page_repr s ps" and "p < npages s" and "pp_ref s p = 0" and "pp_link s p = None"
    and "p \<notin> set ps"
  shows "\<exists>s' s''. page_free s p = Inr s' \<and> page_alloc s' z = Inr (Some p, s'') \<and> page_repr s'' ps"
  using pages.put_then_take[of s ps p z] assms by blast

lemma page_free_alloc_lifo_witness:
  "\<exists>s' s''. page_free demo_mem 5 = Inr s' \<and> page_alloc s' True = Inr (Some 5, s'')
     \<and> page_repr s'' [2, 3]"
proof (rule page_free_alloc_lifo)
  show "page_repr demo_mem [2, 3]" using demo_mem_ok by (simp add: pt_ok_def)
qed (simp_all add: demo_mem_def)

section \<open>The free list after boot\<close>

text \<open>The pages that \<^verbatim>\<open>page_init\<close> leaves free when the boot allocator stands at \<open>nf\<close>.\<close>

definition boot_free :: "u32 \<Rightarrow> nat \<Rightarrow> bool" where
  "boot_free nf i \<longleftrightarrow> i \<noteq> 0 \<and> i \<noteq> 7 \<and> \<not> (160 \<le> i \<and> i < unat (PGNUM (nf - KERNBASE)) ) \<and> \<not> (160 \<le> i \<and> i < 256)"

lemma boot_consts:
  "unat (PGNUM MPENTRY_PADDR) = 7" "unat (PGNUM IOPHYSMEM) = 160" "unat (PGNUM EXTPHYSMEM) = 256"
  by (simp_all add: unat_PGNUM memlayout_defs)

lemma boot_kernel_end:
  assumes "nf - KERNBASE < PGSIZE * word_of_nat (npages s)" "npages s \<le> 2 ^ 16"
  shows "unat (PGNUM (nf - KERNBASE)) < npages s"
proof -
  have "unat (PGSIZE * word_of_nat (npages s) :: u32) = 4096 * npages s"
    using assms(2) by (simp add: PGSIZE_def unat_word_ariths unat_of_nat)
  then have "unat (nf - KERNBASE) < 4096 * npages s" using assms(1) by (simp add: word_less_nat_alt)
  then show ?thesis by (simp add: unat_PGNUM less_mult_imp_div_less mult.commute)
qed

lemma boot_alloc_0:
  assumes "boot_nextfree s = nf" and "nf \<noteq> 0" and "KERNBASE \<le> nf" and "unat nf mod 4096 = 0"
    and "nf - KERNBASE < PGSIZE * word_of_nat (npages s)" and "npages s \<le> 2 ^ 16"
  shows "boot_alloc kend s 0 = Inr (nf, s)"
proof -
  have k: "unat (PGNUM (nf - KERNBASE)) < npages s" by (rule boot_kernel_end[OF assms(5,6)])
  have "ROUNDUP nf PGSIZE = nf"
  proof -
    have "(unat nf + 4095) mod 4294967296 div 4096 * 4096 = unat nf"
    proof -
      obtain c where c: "unat nf = 4096 * c" using assms(4) by auto
      with unat_u32_less[of nf] have "c < 1048576" by simp
      then have "4096 * c + 4095 < 4294967296" by simp
      then show ?thesis by (simp add: c)
    qed
    then show ?thesis by (simp add: word_unat_eq_iff unat_ROUNDUP)
  qed
  with assms k show ?thesis by (simp add: boot_alloc_def PADDR_def KADDR_def not_le not_less)
qed

definition init_repr :: "kmem \<Rightarrow> u32 \<Rightarrow> nat \<Rightarrow> kmem \<Rightarrow> bool" where
  "init_repr s nf n s' \<longleftrightarrow> linked (pp_link s') (page_free_list s') (rev (filter (boot_free nf) [0..<n]))
     \<and> boot_nextfree s' = nf \<and> npages s' = npages s \<and> phys s' = phys s
     \<and> (\<forall>i<n. boot_free nf i \<longrightarrow> pp_ref s' i = 0)"

lemma page_init_step_repr:
  assumes r: "init_repr s nf n s1" and nf: "nf \<noteq> 0" "KERNBASE \<le> nf" "unat nf mod 4096 = 0"
    "nf - KERNBASE < PGSIZE * word_of_nat (npages s)" "npages s \<le> 2 ^ 16"
    "256 \<le> unat (PGNUM (nf - KERNBASE))"
  shows "\<exists>s2. page_init_step kend s1 n = Inr s2 \<and> init_repr s nf (Suc n) s2"
proof -
  let ?l = "rev (filter (boot_free nf) [0..<n])"
  let ?s0 = "s1\<lparr>pp_link := (pp_link s1)(n := None)\<rparr>"
  have l0: "linked ((pp_link s1)(n := v)) (page_free_list s1) ?l" for v
    using r by (simp add: linked_upd init_repr_def)
  have b: "boot_alloc kend ?s0 0 = Inr (nf, ?s0)"
    using boot_alloc_0[of ?s0 nf kend] r nf by (simp add: init_repr_def)
  have p: "PADDR nf = Inr (nf - KERNBASE)" using nf(2) by (simp add: PADDR_def not_less)
  show ?thesis
  proof (cases "boot_free nf n")
    case True
    then have c: "n \<noteq> 0" "7 \<noteq> n" "\<not> (160 \<le> n \<and> n < 256)"
      "256 \<le> n \<Longrightarrow> \<not> n < unat (PGNUM (nf - KERNBASE))"
      by (auto simp: boot_free_def)
    have "page_init_step kend s1 n = Inr (?s0\<lparr>pp_link := (pp_link ?s0)(n := page_free_list ?s0),
                       pp_ref := (pp_ref ?s0)(n := 0), page_free_list := Some n\<rparr>)"
      using c b p by (auto simp: page_init_step_def boot_consts Let_def)
    with r True l0 show ?thesis by (auto simp: init_repr_def less_Suc_eq)
  next
    case False
    have "page_init_step kend s1 n = Inr ?s0"
      using False b p nf(6) by (auto simp: page_init_step_def boot_consts boot_free_def Let_def)
    with r False l0 show ?thesis by (auto simp: init_repr_def less_Suc_eq)
  qed
qed

lemma page_init_repr:
  assumes "page_free_list s = None" and "boot_nextfree s = nf"
    and "nf \<noteq> 0" and "KERNBASE \<le> nf" and "unat nf mod 4096 = 0"
    and "nf - KERNBASE < PGSIZE * word_of_nat (npages s)" and "npages s \<le> 2 ^ 16"
    and "256 \<le> unat (PGNUM (nf - KERNBASE))"
  shows "\<exists>s'. page_init kend s = Inr s' \<and> init_repr s nf (npages s) s'"
  using run_steps_upt[of "npages s" "init_repr s nf" "page_init_step kend" s]
    page_init_step_repr[OF _ assms(3-8)] assms(1,2)
  by (simp add: page_init_def init_repr_def)

text \<open>After \<^verbatim>\<open>page_init\<close>, with the boot allocator at the page-aligned kernel address
  \<open>nf\<close> above the first megabyte, the free list holds exactly the pages that are not page 0, not the
  CPU start-up page, not in the hole for I/O and not used by the kernel image and its boot-time
  arrays, the highest first, each with reference count 0.\<close>

theorem page_init_free_list:
  assumes "page_free_list s = None" and "boot_nextfree s = nf"
    and "nf \<noteq> 0" and "KERNBASE \<le> nf" and "unat nf mod 4096 = 0"
    and "nf - KERNBASE < PGSIZE * word_of_nat (npages s)" and "npages s \<le> 2 ^ 16"
    and "256 \<le> unat (PGNUM (nf - KERNBASE))"
  shows "\<exists>s'. page_init kend s = Inr s'
     \<and> page_repr s' (rev (filter (\<lambda>i. i \<noteq> 0 \<and> i \<noteq> 7 \<and> \<not> (160 \<le> i \<and> i < unat (PGNUM (nf - KERNBASE)))) [0..<npages s]))
     \<and> phys s' = phys s"
proof -
  obtain s' where s': "page_init kend s = Inr s'" "init_repr s nf (npages s) s'"
    using page_init_repr[OF assms] by blast
  have eq: "boot_free nf = (\<lambda>i. i \<noteq> 0 \<and> i \<noteq> 7 \<and> \<not> (160 \<le> i \<and> i < unat (PGNUM (nf - KERNBASE))))"
    using assms(8) by (auto simp: boot_free_def fun_eq_iff)
  have "page_repr s' (rev (filter (boot_free nf) [0..<npages s]))"
    using s'(2) assms(7) by (auto simp: init_repr_def page_repr_def)
  with s' show ?thesis unfolding eq by (auto simp: init_repr_def)
qed

lemma page_init_free_list_witness:
  "\<exists>s'. page_init 0xF0100000 (demo_mem\<lparr>npages := 0x400, page_free_list := None, boot_nextfree := 0xF0200000\<rparr>) = Inr s'
     \<and> page_repr s' (rev (filter (\<lambda>i. i \<noteq> 0 \<and> i \<noteq> 7 \<and> \<not> (160 \<le> i \<and> i < 512)) [0..<0x400]))"
proof -
  let ?s = "demo_mem\<lparr>npages := 0x400, page_free_list := None, boot_nextfree := 0xF0200000\<rparr>"
  have "unat (PGNUM (0xF0200000 - KERNBASE)) = 512" by (simp add: unat_PGNUM memlayout_defs)
  moreover have "\<exists>s'. page_init 0xF0100000 ?s = Inr s'
     \<and> page_repr s' (rev (filter (\<lambda>i. i \<noteq> 0 \<and> i \<noteq> 7 \<and> \<not> (160 \<le> i \<and> i < unat (PGNUM (0xF0200000 - KERNBASE)))) [0..<npages ?s]))
     \<and> phys s' = phys ?s"
    by (rule page_init_free_list) (simp_all add: memlayout_defs mmu_consts unat_PGNUM)
  ultimately show ?thesis by auto
qed

end
