(* ===== verification/PmapCheck.thy ===== *)
theory PmapCheck
  imports PmapProps
begin

unbundle bit_operations_syntax

text \<open>
  The self-tests that \<^verbatim>\<open>mem_init\<close> of \<^verbatim>\<open>kern/pmap.c\<close> runs at boot, as programs of the model: an
  assertion that fails is a panic. What is proved is that the tests of the page allocator pass.
\<close>

section \<open>The free list as the tests see it\<close>

definition assert_that :: "bool \<Rightarrow> 's \<Rightarrow> fault + 's" where
  "assert_that b s = (if b then Inr s else Inl (Panic ''assertion failed''))"

lemma assert_that_True [simp]: "assert_that True s = Inr s"
  by (simp add: assert_that_def)

text \<open>The pages that \<^verbatim>\<open>for (pp = page_free_list; pp; pp = pp->pp_link)\<close> visits. No page is visited
  twice by a loop that ends, so \<open>npages\<close> rounds are enough, and a longer walk never ends.\<close>

fun free_walk :: "nat \<Rightarrow> (nat \<Rightarrow> nat option) \<Rightarrow> nat option \<Rightarrow> fault + nat list" where
  "free_walk n l None = Inr []"
| "free_walk 0 l (Some p) = Inl Endless"
| "free_walk (Suc n) l (Some p) = chain (free_walk n l (l p)) (\<lambda>ps. Inr (p # ps))"

definition free_pages :: "kmem \<Rightarrow> fault + nat list" where
  "free_pages s = free_walk (npages s) (pp_link s) (page_free_list s)"

lemma free_walk_linked: "linked l h ps \<Longrightarrow> length ps \<le> n \<Longrightarrow> free_walk n l h = Inr ps"
proof (induction ps arbitrary: n h)
  case (Cons p ps)
  then show ?case by (cases n) auto
qed simp

lemma free_pages_repr: "page_repr s ps \<Longrightarrow> free_pages s = Inr ps"
proof -
  assume r: "page_repr s ps"
  then have "set ps \<subseteq> {..<npages s}" "distinct ps" by (auto simp: page_repr_def)
  then have "length ps \<le> npages s" using card_mono[of "{..<npages s}" "set ps"] by (simp add: distinct_card)
  with r show ?thesis unfolding free_pages_def by (intro free_walk_linked) (auto simp: page_repr_def)
qed

section \<open>Low pages first\<close>

text \<open>The array \<^verbatim>\<open>tp\<close> of \<^verbatim>\<open>check_page_free_list\<close> holds, for each of the two kinds of pages, the place
  where the next page of that kind is stored: one of the local pointers \<^verbatim>\<open>pp1\<close> and \<^verbatim>\<open>pp2\<close> or the
  link of the page before it. The kind \<open>True\<close> is a page behind the limit.\<close>

datatype link_place = LocalPointer bool | LinkOf nat

record split_state =
  sp_heads :: "bool \<Rightarrow> nat option"
  sp_links :: "nat \<Rightarrow> nat option"
  sp_tp :: "bool \<Rightarrow> link_place"

definition put_link :: "link_place \<Rightarrow> nat option \<Rightarrow> split_state \<Rightarrow> split_state" where
  "put_link w v st = (case w of
     LocalPointer b \<Rightarrow> st\<lparr>sp_heads := (sp_heads st)(b := v)\<rparr>
   | LinkOf p \<Rightarrow> st\<lparr>sp_links := (sp_links st)(p := v)\<rparr>)"

definition split_step :: "(nat \<Rightarrow> bool) \<Rightarrow> nat \<Rightarrow> split_state \<Rightarrow> split_state" where
  "split_step high pp st =
     (let st1 = put_link (sp_tp st (high pp)) (Some pp) st in
      st1\<lparr>sp_tp := (sp_tp st1)(high pp := LinkOf pp)\<rparr>)"

text \<open>A link is read before it is changed: a step only changes links of pages that were passed.\<close>

definition low_pages_first :: "(nat \<Rightarrow> bool) \<Rightarrow> nat list \<Rightarrow> kmem \<Rightarrow> kmem" where
  "low_pages_first high ps s =
     (let st = fold (split_step high) ps \<lparr>sp_heads = (\<lambda>_. None), sp_links = pp_link s, sp_tp = LocalPointer\<rparr>;
          st1 = put_link (sp_tp st True) None st;
          st2 = put_link (sp_tp st1 False) (sp_heads st1 True) st1 in
      s\<lparr>pp_link := sp_links st2, page_free_list := sp_heads st2 False\<rparr>)"

text \<open>The pages from \<open>h\<close> along the links up to the pointer \<open>e\<close>.\<close>

fun segment :: "(nat \<Rightarrow> nat option) \<Rightarrow> nat option \<Rightarrow> nat list \<Rightarrow> nat option \<Rightarrow> bool" where
  "segment l h [] e \<longleftrightarrow> h = e"
| "segment l h (x # xs) e \<longleftrightarrow> h = Some x \<and> segment l (l x) xs e"

lemma segment_append: "segment l h (xs @ ys) e \<longleftrightarrow> (\<exists>m. segment l h xs m \<and> segment l m ys e)"
  by (induction xs arbitrary: h) auto

lemma segment_linked: "segment l h xs None = linked l h xs"
  by (induction xs arbitrary: h) auto

lemma segment_upd: "p \<notin> set xs \<Longrightarrow> segment (l(p := v)) h xs e = segment l h xs e"
  by (induction xs arbitrary: h) auto

text \<open>A list that is complete but for the pointer at its end, which is at the place \<open>tp\<close>.\<close>

definition open_at_end :: "split_state \<Rightarrow> bool \<Rightarrow> nat list \<Rightarrow> bool" where
  "open_at_end st b xs \<longleftrightarrow> (case sp_tp st b of LocalPointer c \<Rightarrow> c = b \<and> xs = [] | LinkOf p \<Rightarrow> p \<in> set xs)
     \<and> (\<forall>v. let st' = put_link (sp_tp st b) v st in segment (sp_links st') (sp_heads st' b) xs v)"

lemma split_step_open:
  assumes o: "open_at_end st b xs" "open_at_end st (\<not> b) ys" and p: "p \<notin> set xs" "p \<notin> set ys" "high p = b"
    and dj: "set xs \<inter> set ys = {}"
  shows "open_at_end (split_step high p st) b (xs @ [p])" and "open_at_end (split_step high p st) (\<not> b) ys"
proof -
  let ?st1 = "put_link (sp_tp st b) (Some p) st" and ?st = "split_step high p st"
  have seg: "segment (sp_links ?st1) (sp_heads ?st1 b) xs (Some p)"
    using o(1) by (auto simp: open_at_end_def Let_def)
  have f: "sp_tp ?st b = LinkOf p" "sp_tp ?st (\<not> b) = sp_tp st (\<not> b)" "sp_links ?st = sp_links ?st1" "sp_heads ?st = sp_heads ?st1"
    using p(3) by (auto simp: split_step_def Let_def put_link_def split: link_place.splits)
  show "open_at_end ?st b (xs @ [p])"
    using seg p(1) by (auto simp: open_at_end_def f put_link_def segment_append segment_upd)
  have "segment (sp_links (put_link (sp_tp st (\<not> b)) v ?st)) (sp_heads (put_link (sp_tp st (\<not> b)) v ?st) (\<not> b)) ys v" for v
  proof -
    have s: "segment (sp_links (put_link (sp_tp st (\<not> b)) v st)) (sp_heads (put_link (sp_tp st (\<not> b)) v st) (\<not> b)) ys v"
      using o(2) by (simp add: open_at_end_def Let_def)
    show ?thesis
    proof (cases "sp_tp st b")
      case (LocalPointer c)
      then have "c = b" using o(1) by (simp add: open_at_end_def)
      with s LocalPointer f show ?thesis by (auto simp: put_link_def split: link_place.splits)
    next
      case (LinkOf q)
      then have "q \<in> set xs" using o(1) by (simp add: open_at_end_def)
      with dj have q: "q \<notin> set ys" by blast
      show ?thesis
      proof (cases "sp_tp st (\<not> b)")
        case (LocalPointer c)
        then show ?thesis using s f LinkOf q by (simp add: put_link_def segment_upd)
      next
        case (LinkOf r)
        have "r \<noteq> q" using o(2) q LinkOf by (auto simp: open_at_end_def)
        then have tw: "(sp_links st)(q \<mapsto> p, r := v) = (sp_links st)(r := v, q \<mapsto> p)"
          by (simp add: fun_upd_twist)
        from \<open>r \<noteq> q\<close> show ?thesis using s f \<open>sp_tp st b = LinkOf q\<close> LinkOf q
          by (simp add: put_link_def tw segment_upd del: fun_upd_apply)
      qed
    qed
  qed
  then show "open_at_end ?st (\<not> b) ys"
    using o(2) f by (simp add: open_at_end_def Let_def)
qed


lemma split_steps_open:
  assumes "open_at_end st True xs" "open_at_end st False ys" "distinct ps" "set ps \<inter> (set xs \<union> set ys) = {}"
    and "set xs \<inter> set ys = {}"
  shows "open_at_end (fold (split_step high) ps st) True (xs @ filter high ps)
    \<and> open_at_end (fold (split_step high) ps st) False (ys @ filter (\<lambda>p. \<not> high p) ps)"
  using assms
proof (induction ps arbitrary: st xs ys)
  case (Cons p ps)
  then have p: "p \<notin> set xs" "p \<notin> set ys" "distinct ps" "p \<notin> set ps" by auto
  show ?case
  proof (cases "high p")
    case True
    have o: "open_at_end (split_step high p st) True (xs @ [p])" "open_at_end (split_step high p st) False ys"
      using split_step_open[of st True xs ys p high] Cons.prems p True by simp_all
    with Cons.IH[OF o] Cons.prems p True show ?thesis by simp
  next
    case False
    have o: "open_at_end (split_step high p st) False (ys @ [p])" "open_at_end (split_step high p st) True xs"
      using split_step_open[of st False ys xs p high] Cons.prems p False by (simp_all add: Int_commute)
    with Cons.IH[OF o(2,1)] Cons.prems p False show ?thesis by simp
  qed
qed simp

lemma low_pages_first_repr:
  assumes r: "page_repr s ps"
  shows "page_repr (low_pages_first high ps s) (filter (\<lambda>p. \<not> high p) ps @ filter high ps)"
proof -
  let ?hi = "filter high ps" and ?lo = "filter (\<lambda>p. \<not> high p) ps"
  define st where "st = fold (split_step high) ps \<lparr>sp_heads = (\<lambda>_. None), sp_links = pp_link s, sp_tp = LocalPointer\<rparr>"
  define st1 where "st1 = put_link (sp_tp st True) None st"
  define st2 where "st2 = put_link (sp_tp st1 False) (sp_heads st1 True) st1"
  have d: "distinct ps" using r by (simp add: page_repr_def)
  have o0: "open_at_end \<lparr>sp_heads = (\<lambda>_. None), sp_links = pp_link s, sp_tp = LocalPointer\<rparr> b []" for b
    by (simp add: open_at_end_def put_link_def)
  have o: "open_at_end st True ?hi" "open_at_end st False ?lo"
    using split_steps_open[OF o0[of True] o0[of False] d, of high] by (simp_all add: st_def)
  have dj: "set ?hi \<inter> set ?lo = {}" by auto
  have tp: "sp_tp st1 = sp_tp st" by (simp add: st1_def put_link_def split: link_place.splits)
  have hi: "segment (sp_links st1) (sp_heads st1 True) ?hi None"
    using o(1) by (simp add: open_at_end_def Let_def st1_def)
  have lo: "segment (sp_links (put_link (sp_tp st False) v st1)) (sp_heads (put_link (sp_tp st False) v st1) False) ?lo v" for v
  proof -
    have s: "segment (sp_links (put_link (sp_tp st False) v st)) (sp_heads (put_link (sp_tp st False) v st) False) ?lo v"
      using o(2) by (simp add: open_at_end_def Let_def)
    show ?thesis
    proof (cases "sp_tp st True")
      case (LocalPointer c)
      then have "c = True" using o(1) by (simp add: open_at_end_def)
      with s LocalPointer show ?thesis by (auto simp: st1_def put_link_def split: link_place.splits)
    next
      case (LinkOf q)
      then have q: "q \<in> set ?hi" using o(1) by (simp add: open_at_end_def)
      with dj have q': "q \<notin> set ?lo" by blast
      show ?thesis
      proof (cases "sp_tp st False")
        case L: (LocalPointer c)
        then show ?thesis using s LinkOf segment_upd[OF q'] by (simp add: st1_def put_link_def)
      next
        case L: (LinkOf r)
        then have "r \<in> set ?lo" using o(2) by (simp add: open_at_end_def)
        with q' have ne: "q \<noteq> r" by blast
        have tw: "(sp_links st)(q := None, r := v) = (sp_links st)(r := v, q := None)"
          using ne by (simp add: fun_upd_twist)
        show ?thesis using s L LinkOf segment_upd[OF q'] by (simp add: st1_def put_link_def tw)
      qed
    qed
  qed
  have keep: "segment (sp_links st2) (sp_heads st1 True) ?hi None"
  proof (cases "sp_tp st False")
    case (LocalPointer c)
    then show ?thesis using hi by (simp add: st2_def tp put_link_def)
  next
    case (LinkOf r)
    then have "r \<in> set ?lo" using o(2) by (simp add: open_at_end_def)
    then have "r \<notin> set ?hi" by auto
    then show ?thesis using hi LinkOf segment_upd by (simp add: st2_def tp put_link_def)
  qed
  have "segment (sp_links st2) (sp_heads st2 False) (?lo @ ?hi) None"
    using lo[of "sp_heads st1 True"] keep by (auto simp: segment_append st2_def tp)
  moreover have "low_pages_first high ps s = s\<lparr>pp_link := sp_links st2, page_free_list := sp_heads st2 False\<rparr>"
    by (simp add: low_pages_first_def st_def st1_def st2_def Let_def)
  ultimately show ?thesis using r by (auto simp: page_repr_def segment_linked)
qed

section \<open>\<^verbatim>\<open>check_page_free_list\<close>\<close>

text \<open>\<^verbatim>\<open>memset (page2kva (pp), 0x97, 128)\<close>: the first 32 words of the page.\<close>

definition fill_words :: "nat \<Rightarrow> u32 \<Rightarrow> kmem \<Rightarrow> nat \<Rightarrow> kmem" where
  "fill_words n v s f = s\<lparr>phys := (phys s)(f := (\<lambda>j. if j < n then v else phys s f j))\<rparr>"

definition trouble_step :: "(nat \<Rightarrow> bool) \<Rightarrow> kmem \<Rightarrow> nat \<Rightarrow> fault + kmem" where
  "trouble_step high s pp =
     (if high pp then Inr s
      else chain (kframe s (page2pa pp)) (\<lambda>f. Inr (fill_words 32 0x97979797 s f)))"

text \<open>The body of the second loop for the page at the index \<open>pp\<close>, with the two counters; a page is
  its index in the array, so that the test of the alignment of the pointer holds.\<close>

definition check_free_page :: "u32 \<Rightarrow> kmem \<Rightarrow> int \<times> int \<Rightarrow> nat \<Rightarrow> fault + int \<times> int" where
  "check_free_page first_free_page s = (\<lambda>(base, ext) pp.
     chain (assert_that (pp < npages s) ()) (\<lambda>_.
     chain (assert_that (page2pa pp \<noteq> 0) ()) (\<lambda>_.
     chain (assert_that (page2pa pp \<noteq> IOPHYSMEM) ()) (\<lambda>_.
     chain (assert_that (page2pa pp \<noteq> EXTPHYSMEM - PGSIZE) ()) (\<lambda>_.
     chain (assert_that (page2pa pp \<noteq> EXTPHYSMEM) ()) (\<lambda>_.
     chain (if page2pa pp < EXTPHYSMEM then Inr ()
            else chain (KADDR s (page2pa pp)) (\<lambda>kva. assert_that (first_free_page \<le> kva) ())) (\<lambda>_.
     chain (assert_that (page2pa pp \<noteq> MPENTRY_PADDR) ()) (\<lambda>_.
       if page2pa pp < EXTPHYSMEM then Inr (base + 1, ext) else Inr (base, ext + 1)))))))))"

definition high_page :: "bool \<Rightarrow> nat \<Rightarrow> bool" where
  "high_page only_low_memory pp =
     (let pdx_limit = (if only_low_memory then 1 else 1024) in pdx_limit \<le> unat (PDX (page2pa pp)))"

definition check_listed :: "u32 \<Rightarrow> bool \<Rightarrow> kmem \<Rightarrow> nat list \<Rightarrow> fault + kmem" where
  "check_listed kend only_low_memory s ps =
     chain (run_steps (trouble_step (high_page only_low_memory)) s ps) (\<lambda>s1.
     chain (boot_alloc kend s1 0) (\<lambda>(first_free_page, s2).
     chain (run_steps (check_free_page first_free_page s2) (0, 0) ps) (\<lambda>(base, ext).
     chain (assert_that (base > 0) ()) (\<lambda>_.
     chain (assert_that (ext > 0) ()) (\<lambda>_. Inr s2)))))"

definition check_page_free_list :: "u32 \<Rightarrow> kmem \<Rightarrow> bool \<Rightarrow> fault + kmem" where
  "check_page_free_list kend s only_low_memory =
     (if page_free_list s = None then Inl (Panic ''page_free_list is a null pointer!'')
      else chain (free_pages s) (\<lambda>ps.
        let s1 = (if only_low_memory then low_pages_first (high_page only_low_memory) ps s else s) in
        chain (free_pages s1) (check_listed kend only_low_memory s1)))"

lemma trouble_steps:
  assumes "\<forall>p\<in>set ps. p < npages s" "npages s \<le> 2 ^ 20"
  shows "\<exists>m. run_steps (trouble_step high) s ps = Inr (s\<lparr>phys := m\<rparr>) \<and> (\<forall>f. f \<notin> set ps \<longrightarrow> m f = phys s f)"
  using assms
proof (induction ps arbitrary: s)
  case Nil
  have "s = s\<lparr>phys := phys s\<rparr>" by simp
  then show ?case by (intro exI[of _ "phys s"]) simp
next
  case (Cons p ps)
  have "\<exists>m. trouble_step high s p = Inr (s\<lparr>phys := m\<rparr>) \<and> (\<forall>f. f \<noteq> p \<longrightarrow> m f = phys s f)"
  proof (cases "high p")
    case True
    then show ?thesis by (intro exI[of _ "phys s"]) (simp add: trouble_step_def)
  next
    case False
    then show ?thesis using Cons.prems
      by (intro exI[of _ "(phys s)(p := (\<lambda>j. if j < 32 then 0x97979797 else phys s p j))"])
        (simp add: trouble_step_def kframe_page2pa fill_words_def)
  qed
  then obtain m where m: "trouble_step high s p = Inr (s\<lparr>phys := m\<rparr>)" "\<forall>f. f \<noteq> p \<longrightarrow> m f = phys s f" by blast
  with Cons.IH[of "s\<lparr>phys := m\<rparr>"] Cons.prems show ?case by auto
qed

lemma unat_page2pa: "p < 2 ^ 20 \<Longrightarrow> unat (page2pa p) = 4096 * p"
  by (simp add: page2pa_bits push_bit_eq_mult unat_word_ariths unat_of_nat)

lemma page2pa_eq_iff: "p < 2 ^ 20 \<Longrightarrow> page2pa p = w \<longleftrightarrow> 4096 * p = unat w"
  by (simp add: word_unat_eq_iff unat_page2pa)

lemma check_free_page_passes:
  assumes p: "p < npages s" "boot_free nf p" "p \<noteq> 256" and n: "npages s \<le> 2 ^ 16"
    and nf: "KERNBASE \<le> nf" "unat nf mod 4096 = 0" 
  shows "check_free_page nf s (b, e) p = Inr (if p < 256 then (b + 1, e) else (b, e + 1))"
proof -
  have p20: "p < 2 ^ 20" and p16: "p < 2 ^ 16" using p n by simp_all
  have f: "p \<noteq> 0" "p \<noteq> 7" "p \<noteq> 160" "p \<noteq> 255" "256 \<le> p \<Longrightarrow> unat (PGNUM (nf - KERNBASE)) \<le> p"
    using p(2) by (auto simp: boot_free_def)
  have ext: "page2pa p < EXTPHYSMEM \<longleftrightarrow> p < 256"
    using unat_page2pa[OF p20] by (simp add: word_less_nat_alt memlayout_defs)
  have ne: "page2pa p \<noteq> 0" "page2pa p \<noteq> IOPHYSMEM" "page2pa p \<noteq> EXTPHYSMEM - PGSIZE" "page2pa p \<noteq> EXTPHYSMEM"
    "page2pa p \<noteq> MPENTRY_PADDR"
    using f p(3) by (simp_all add: page2pa_eq_iff[OF p20] memlayout_defs mmu_consts)
  have ka: "KADDR s (page2pa p) = Inr (page2pa p + KERNBASE)"
    using p(1) by (simp add: KADDR_def PGNUM_page2pa[OF p20] not_le)
  have le: "nf \<le> page2pa p + KERNBASE" if "\<not> p < 256"
  proof -
    have "unat nf div 4096 - unat KERNBASE div 4096 \<le> p"
    proof -
      have k: "unat (nf - KERNBASE) = unat nf - unat KERNBASE" using nf(1) by (simp add: unat_sub)
      have "unat (nf - KERNBASE) div 4096 \<le> p" using f(5) that by (simp add: unat_PGNUM)
      then show ?thesis using nf(2) unfolding k by (simp add: KERNBASE_def)
    qed
    moreover have "unat KERNBASE \<le> unat nf" using nf(1) by (simp add: word_le_nat_alt)
    moreover have "unat (page2pa p + KERNBASE) = 4096 * p + unat KERNBASE"
      using p16 by (simp add: unat_word_ariths unat_page2pa[OF p20] KERNBASE_def)
    moreover obtain c where "unat nf = 4096 * c" using nf(2) by auto
    ultimately show ?thesis by (simp add: word_le_nat_alt KERNBASE_def)
  qed
  show ?thesis using p(1) ne ka le by (simp add: check_free_page_def ext)
qed


lemma check_free_pages_count:
  assumes "\<forall>p\<in>set ps. p < npages s \<and> boot_free nf p \<and> p \<noteq> 256" "npages s \<le> 2 ^ 16"
    "KERNBASE \<le> nf" "unat nf mod 4096 = 0"
  shows "run_steps (check_free_page nf s) (b, e) ps
    = Inr (b + int (length (filter (\<lambda>p. p < 256) ps)), e + int (length (filter (\<lambda>p. \<not> p < 256) ps)))"
  using assms by (induction ps arbitrary: b e) (simp_all add: check_free_page_passes)

lemma check_page_free_list_passes:
  assumes r: "page_repr s ps" and ok: "\<forall>p\<in>set ps. boot_free nf p \<and> p \<noteq> 256"
    and both: "lo \<in> set ps" "lo < 256" "hi \<in> set ps" "256 \<le> hi"
    and nf: "boot_nextfree s = nf" "nf \<noteq> 0" "KERNBASE \<le> nf" "unat nf mod 4096 = 0"
      "nf - KERNBASE < PGSIZE * word_of_nat (npages s)" "npages s \<le> 2 ^ 16"
  shows "\<exists>s'. check_page_free_list kend s low = Inr s'
    \<and> page_repr s' (if low then filter (\<lambda>p. p < 1024) ps @ filter (\<lambda>p. 1024 \<le> p) ps else ps)
    \<and> npages s' = npages s \<and> boot_nextfree s' = boot_nextfree s \<and> mmio_base s' = mmio_base s
    \<and> (\<forall>f. f \<notin> set ps \<longrightarrow> phys s' f = phys s f)"
proof -
  define high where "high = high_page low"
  define s1 where "s1 = (if low then low_pages_first high ps s else s)"
  define qs where "qs = (if low then filter (\<lambda>p. \<not> high p) ps @ filter high ps else ps)"
  have lt: "p < npages s" if "p \<in> set ps" for p using r that by (simp add: page_repr_def)
  have hi: "high p \<longleftrightarrow> 1024 \<le> p" if "low" "p \<in> set ps" for p
  proof -
    have "p < 2 ^ 20" using lt[OF that(2)] nf(6) by simp
    then show ?thesis using that(1) by (auto simp: high_def high_page_def unat_PDX unat_page2pa)
  qed
  have qs: "qs = (if low then filter (\<lambda>p. p < 1024) ps @ filter (\<lambda>p. 1024 \<le> p) ps else ps)"
  proof (cases low)
    case True
    have "filter (\<lambda>p. \<not> high p) ps = filter (\<lambda>p. p < 1024) ps" "filter high ps = filter (\<lambda>p. 1024 \<le> p) ps"
      by (rule filter_cong; simp add: hi[OF True] not_le)+
    with True show ?thesis by (simp add: qs_def)
  qed (simp add: qs_def)
  have r1: "page_repr s1 qs" using low_pages_first_repr[OF r, of high] r by (simp add: s1_def qs_def)
  have same: "npages s1 = npages s" "boot_nextfree s1 = boot_nextfree s" "mmio_base s1 = mmio_base s" "phys s1 = phys s"
    by (simp_all add: s1_def low_pages_first_def Let_def)
  have set: "set qs = set ps" by (auto simp: qs_def)
  obtain m where m: "run_steps (trouble_step high) s1 qs = Inr (s1\<lparr>phys := m\<rparr>)" "\<forall>f. f \<notin> set qs \<longrightarrow> m f = phys s1 f"
    using trouble_steps[of qs s1 high] r1 by (auto simp: page_repr_def)
  let ?s2 = "s1\<lparr>phys := m\<rparr>"
  have b: "boot_alloc kend ?s2 0 = Inr (nf, ?s2)"
    using boot_alloc_0[of ?s2 nf kend] nf same by simp
  have c: "run_steps (check_free_page nf ?s2) (0, 0) qs
      = Inr (int (length (filter (\<lambda>p. p < 256) qs)), int (length (filter (\<lambda>p. \<not> p < 256) qs)))"
    using check_free_pages_count[of qs ?s2 nf 0 0] ok nf lt by (simp add: set same)
  have "lo \<in> set (filter (\<lambda>p. p < 256) qs)" "hi \<in> set (filter (\<lambda>p. \<not> p < 256) qs)"
    using both set by auto
  then have pos: "filter (\<lambda>p. p < 256) qs \<noteq> []" "filter (\<lambda>p. \<not> p < 256) qs \<noteq> []"
    by (metis empty_iff empty_set)+
  have "page_free_list s \<noteq> None" using r both(1) by (cases ps) (auto simp: page_repr_def)
  moreover have "free_pages s = Inr ps" "free_pages s1 = Inr qs"
    using free_pages_repr[OF r] free_pages_repr[OF r1] by simp_all
  ultimately have "check_page_free_list kend s low = Inr ?s2"
    using m b c pos by (simp add: check_page_free_list_def check_listed_def high_def s1_def split: if_splits)
  moreover have "page_repr ?s2 qs" using r1 by (simp add: page_repr_def)
  ultimately show ?thesis using m(2) same set unfolding qs by (intro exI[of _ ?s2] conjI) simp_all
qed

text \<open>The boot-time check of the free list, \<^verbatim>\<open>check_page_free_list\<close>, passes on the list that
  \<^verbatim>\<open>page_init\<close> builds, with and without its argument \<^verbatim>\<open>only_low_memory\<close>: no assertion fails, the
  loops over the list end, and the list afterwards holds the same pages, with those of the first four
  megabytes moved to the front when the argument is set.\<close>

theorem boot_check_free_list_passes:
  assumes "page_free_list s = None" and "boot_nextfree s = nf"
    and "nf \<noteq> 0" and "KERNBASE \<le> nf" and "unat nf mod 4096 = 0"
    and "nf - KERNBASE < PGSIZE * word_of_nat (npages s)" and "npages s \<le> 2 ^ 16"
    and "256 < unat (PGNUM (nf - KERNBASE))"
  shows "\<exists>s1 s2. page_init kend s = Inr s1 \<and> check_page_free_list kend s1 low = Inr s2
    \<and> page_repr s2
        (let ps = rev (filter (\<lambda>i. i \<noteq> 0 \<and> i \<noteq> 7 \<and> \<not> (160 \<le> i \<and> i < unat (PGNUM (nf - KERNBASE)))) [0..<npages s])
         in if low then filter (\<lambda>p. p < 1024) ps @ filter (\<lambda>p. 1024 \<le> p) ps else ps)"
proof -
  obtain s1 where s1: "page_init kend s = Inr s1" "init_repr s nf (npages s) s1"
    using page_init_repr[OF assms(1-7)] assms(8) by auto
  let ?ps = "rev (filter (boot_free nf) [0..<npages s])"
  have eq: "boot_free nf = (\<lambda>i. i \<noteq> 0 \<and> i \<noteq> 7 \<and> \<not> (160 \<le> i \<and> i < unat (PGNUM (nf - KERNBASE))))"
    using assms(8) by (auto simp: boot_free_def fun_eq_iff)
  have r: "page_repr s1 ?ps" and n: "npages s1 = npages s" "boot_nextfree s1 = nf"
    using s1(2) assms(7) by (auto simp: init_repr_def page_repr_def)
  have k: "unat (PGNUM (nf - KERNBASE)) < npages s" using boot_kernel_end[OF assms(6,7)] .
  have lo: "1 \<in> set ?ps" and hi: "unat (PGNUM (nf - KERNBASE)) \<in> set ?ps"
    using k assms(8) by (auto simp: boot_free_def)
  have ok: "\<forall>p\<in>set ?ps. boot_free nf p \<and> p \<noteq> 256" using assms(8) by (auto simp: boot_free_def)
  have nf: "nf - KERNBASE < PGSIZE * word_of_nat (npages s1)" "npages s1 \<le> 2 ^ 16"
    using assms(6,7) unfolding n(1) .
  have "\<exists>s'. check_page_free_list kend s1 low = Inr s'
    \<and> page_repr s' (if low then filter (\<lambda>p. p < 1024) ?ps @ filter (\<lambda>p. 1024 \<le> p) ?ps else ?ps)"
    using check_page_free_list_passes[OF r ok lo _ hi _ n(2) assms(3,4,5) nf, of kend low] assms(8) by auto
  with s1(1) show ?thesis unfolding eq Let_def by blast
qed

lemma boot_check_free_list_passes_witness:
  "\<exists>s1 s2. page_init 0xF0100000 (demo_mem\<lparr>npages := 0x400, page_free_list := None, boot_nextfree := 0xF0200000\<rparr>) = Inr s1
     \<and> check_page_free_list 0xF0100000 s1 True = Inr s2"
proof -
  have "256 < unat (PGNUM (0xF0200000 - KERNBASE))" by (simp add: unat_PGNUM memlayout_defs)
  with boot_check_free_list_passes[of "demo_mem\<lparr>npages := 0x400, page_free_list := None, boot_nextfree := 0xF0200000\<rparr>"
      "0xF0200000" "0xF0100000" True]
  show ?thesis by (fastforce simp: memlayout_defs mmu_consts)
qed

section \<open>\<^verbatim>\<open>check_page_alloc\<close>\<close>

text \<open>\<^verbatim>\<open>assert((pp = page_alloc (flags)))\<close> and \<^verbatim>\<open>assert(!page_alloc (0))\<close>.\<close>

definition must_alloc :: "kmem \<Rightarrow> bool \<Rightarrow> fault + (nat \<times> kmem)" where
  "must_alloc s alloc_zero = chain (page_alloc s alloc_zero) (\<lambda>(page, s1). case page of
     None \<Rightarrow> Inl (Panic ''assertion failed'')
   | Some pp \<Rightarrow> Inr (pp, s1))"

definition must_fail :: "kmem \<Rightarrow> fault + kmem" where
  "must_fail s = chain (page_alloc s False) (\<lambda>(page, s1). assert_that (page = None) s1)"

definition take_three :: "kmem \<Rightarrow> fault + (nat \<times> nat \<times> nat \<times> kmem)" where
  "take_three s =
     chain (must_alloc s False) (\<lambda>(pp0, s1).
     chain (must_alloc s1 False) (\<lambda>(pp1, s2).
     chain (must_alloc s2 False) (\<lambda>(pp2, s3).
     chain (assert_that (pp1 \<noteq> pp0) ()) (\<lambda>_.
     chain (assert_that (pp2 \<noteq> pp1 \<and> pp2 \<noteq> pp0) ()) (\<lambda>_. Inr (pp0, pp1, pp2, s3))))))"

definition free_three :: "kmem \<Rightarrow> nat \<Rightarrow> nat \<Rightarrow> nat \<Rightarrow> fault + kmem" where
  "free_three s pp0 pp1 pp2 =
     chain (page_free s pp0) (\<lambda>s1. chain (page_free s1 pp1) (\<lambda>s2. page_free s2 pp2))"

definition in_memory :: "kmem \<Rightarrow> nat \<Rightarrow> bool" where
  "in_memory s pp \<longleftrightarrow> page2pa pp < word_of_nat (npages s) * PGSIZE"

definition try_alloc :: "kmem \<Rightarrow> fault + kmem" where
  "try_alloc s =
     chain (take_three s) (\<lambda>(pp0, pp1, pp2, s1).
     chain (assert_that (in_memory s1 pp0) ()) (\<lambda>_.
     chain (assert_that (in_memory s1 pp1) ()) (\<lambda>_.
     chain (assert_that (in_memory s1 pp2) ()) (\<lambda>_.
     let fl = page_free_list s1 in
     chain (must_fail (s1\<lparr>page_free_list := None\<rparr>)) (\<lambda>s2.
     chain (free_three s2 pp0 pp1 pp2) (\<lambda>s3.
     chain (take_three s3) (\<lambda>(pp0, pp1, pp2, s4).
     chain (must_fail s4) (\<lambda>s5.
     chain (kframe s5 (page2pa pp0)) (\<lambda>f.
     chain (page_free (fill_words 1024 0x01010101 s5 f) pp0) (\<lambda>s6.
     chain (must_alloc s6 True) (\<lambda>(pp, s7).
     chain (assert_that (pp0 = pp) ()) (\<lambda>_.
     chain (kframe s7 (page2pa pp)) (\<lambda>c.
     chain (assert_that (\<forall>i\<in>{..<1024}. phys s7 c i = 0) ()) (\<lambda>_.
       free_three (s7\<lparr>page_free_list := fl\<rparr>) pp0 pp1 pp2))))))))))))))"

definition check_page_alloc :: "u32 \<Rightarrow> kmem \<Rightarrow> fault + kmem" where
  "check_page_alloc pages s =
     (if pages = 0 then Inl (Panic ''pages is a null pointer!'')
      else chain (free_pages s) (\<lambda>ps. chain (try_alloc s) (\<lambda>s1. chain (free_pages s1) (\<lambda>qs.
        assert_that (int (length ps) - int (length qs) = 0) s1))))"

lemma in_memory: "p < npages s \<Longrightarrow> npages s < 2 ^ 20 \<Longrightarrow> in_memory s p"
  by (simp add: in_memory_def word_less_nat_alt unat_page2pa unat_word_ariths PGSIZE_def unat_of_nat)

lemma must_alloc_popped:
  "page_free_list s = Some p \<Longrightarrow>
   must_alloc s False = Inr (p, s\<lparr>page_free_list := pp_link s p, pp_link := (pp_link s)(p := None)\<rparr>)"
  by (simp add: must_alloc_def page_alloc_def Let_def)

lemma must_fail_empty: "page_free_list s = None \<Longrightarrow> must_fail s = Inr s"
  by (simp add: must_fail_def page_alloc_def)

lemma alloc_check:
  assumes r: "page_repr s (p0 # p1 # p2 # ps)" and n: "npages s < 2 ^ 20" and pages: "pages \<noteq> 0"
  shows "check_page_alloc pages s = Inr (zero_page s p2)"
proof -
  have l: "page_free_list s = Some p0" "pp_link s p0 = Some p1" "pp_link s p1 = Some p2"
    and ne: "p1 \<noteq> p0" "p2 \<noteq> p0" "p2 \<noteq> p1" "p0 \<noteq> p1" "p0 \<noteq> p2" "p1 \<noteq> p2"
    and lt: "p0 < npages s" "p1 < npages s" "p2 < npages s"
    and rf: "pp_ref s p0 = 0" "pp_ref s p1 = 0" "pp_ref s p2 = 0"
    using r by (auto simp: page_repr_def)
  let ?L = "pp_link s"
  let ?s1 = "s\<lparr>page_free_list := ?L p2, pp_link := ?L(p0 := None, p1 := None, p2 := None)\<rparr>"
  have t: "take_three s = Inr (p0, p1, p2, ?s1)"
    using l ne by (simp add: take_three_def must_alloc_popped)
  let ?s2 = "?s1\<lparr>page_free_list := None\<rparr>"
  let ?s3 = "s\<lparr>page_free_list := Some p2, pp_link := ?L(p0 := None, p1 := Some p0, p2 := Some p1)\<rparr>"
  have f3: "free_three ?s2 p0 p1 p2 = Inr ?s3"
    using ne rf by (simp add: free_three_def page_free_def fun_upd_twist)
  let ?s4 = "s\<lparr>page_free_list := None, pp_link := ?L(p0 := None, p1 := None, p2 := None)\<rparr>"
  have t4: "take_three ?s3 = Inr (p2, p1, p0, ?s4)"
    using ne by (simp add: take_three_def must_alloc_popped fun_upd_twist)
  have k: "kframe u (page2pa p2) = Inr p2" if "npages u = npages s" for u
    using lt n that by (simp add: kframe_page2pa)
  have fr: "page_free (fill_words 1024 v ?s4 p2) p2
    = Inr (fill_words 1024 v ?s4 p2\<lparr>page_free_list := Some p2\<rparr>)" for v
    using ne rf by (simp add: page_free_def fill_words_def)
  have al: "must_alloc (fill_words 1024 v ?s4 p2\<lparr>page_free_list := Some p2\<rparr>) True = Inr (p2, zero_page ?s4 p2)" for v
    using ne k by (simp add: must_alloc_def page_alloc_def Let_def fill_words_def zero_page_def)
  have lb: "?L(p0 := None, p1 := None, p2 := None, p2 := ?L p2, p1 := Some p2, p0 := Some p1) = ?L"
    using l by (auto simp: fun_eq_iff)
  have "free_three (zero_page ?s4 p2\<lparr>page_free_list := ?L p2\<rparr>) p2 p1 p0 = Inr (zero_page s p2)"
    using ne rf l lb by (simp add: free_three_def page_free_def zero_page_def)
  then have tr: "try_alloc s = Inr (zero_page s p2)"
    using t f3 t4 k fr al lt n
    by (simp add: try_alloc_def in_memory must_fail_empty zero_page_def)
  have z: "page_repr (zero_page s p2) (p0 # p1 # p2 # ps)" using r by (simp add: page_repr_def zero_page_def)
  show ?thesis using pages tr free_pages_repr[OF r] free_pages_repr[OF z] by (simp add: check_page_alloc_def)
qed

text \<open>\<^verbatim>\<open>check_page_alloc\<close> passes on every free list of at least three pages, and leaves the memory
  as it was, down to the order of the free list, but for the third page of the list, which it clears.\<close>

theorem check_page_alloc_passes:
  assumes "page_repr s (p0 # p1 # p2 # ps)" and "npages s < 2 ^ 20" and "pages \<noteq> 0"
  shows "check_page_alloc pages s = Inr (zero_page s p2)"
  using assms by (rule alloc_check)

lemma check_page_alloc_passes_witness:
  "check_page_alloc 0xF0200000 (demo_mem\<lparr>pp_link := [2 \<mapsto> 3, 3 \<mapsto> 4]\<rparr>)
     = Inr (zero_page (demo_mem\<lparr>pp_link := [2 \<mapsto> 3, 3 \<mapsto> 4]\<rparr>) 4)"
proof -
  have "page_repr (demo_mem\<lparr>pp_link := [2 \<mapsto> 3, 3 \<mapsto> 4]\<rparr>) [2, 3, 4]"
    by (simp add: page_repr_def demo_mem_def)
  from check_page_alloc_passes[OF this, of "0xF0200000"] show ?thesis by (simp add: demo_mem_def)
qed

section \<open>\<^verbatim>\<open>check_page\<close>\<close>

text \<open>A self-test is a list of steps on the memory: assertions and calls, in the order of the source.\<close>

definition in_order :: "kmem \<Rightarrow> (kmem \<Rightarrow> fault + kmem) list \<Rightarrow> fault + kmem" where
  "in_order s fs = run_steps (\<lambda>s f. f s) s fs"

lemma in_order_simps [simp]:
  "in_order s [] = Inr s" "in_order s (f # fs) = chain (f s) (\<lambda>s'. in_order s' fs)"
  by (simp_all add: in_order_def)

definition must_hold :: "(kmem \<Rightarrow> bool) \<Rightarrow> kmem \<Rightarrow> fault + kmem" where
  "must_hold P s = assert_that (P s) s"

definition must_insert :: "nat \<Rightarrow> nat \<Rightarrow> u32 \<Rightarrow> u32 \<Rightarrow> kmem \<Rightarrow> fault + kmem" where
  "must_insert k pp va perm s = chain (page_insert None s k pp va perm) (\<lambda>(s1, r). assert_that (r = 0) s1)"

definition must_not_insert :: "nat \<Rightarrow> nat \<Rightarrow> u32 \<Rightarrow> u32 \<Rightarrow> kmem \<Rightarrow> fault + kmem" where
  "must_not_insert k pp va perm s = chain (page_insert None s k pp va perm) (\<lambda>(s1, r). assert_that (r < 0) s1)"

definition must_map :: "nat \<Rightarrow> u32 \<Rightarrow> u32 \<Rightarrow> kmem \<Rightarrow> fault + kmem" where
  "must_map k va pa s = chain (check_va2pa s k va) (\<lambda>r. assert_that (r = pa) s)"

text \<open>An assertion on \<^verbatim>\<open>*pgdir_walk(kern_pgdir, va, 0)\<close>.\<close>

definition must_entry :: "nat \<Rightarrow> u32 \<Rightarrow> (u32 \<Rightarrow> bool) \<Rightarrow> kmem \<Rightarrow> fault + kmem" where
  "must_entry k va P s = chain (pgdir_walk s k va False) (\<lambda>(s1, pte). case pte of
     None \<Rightarrow> Inl NullDeref
   | Some q \<Rightarrow> assert_that (P (read_pte s1 q)) s1)"

definition must_ref :: "nat \<Rightarrow> u16 \<Rightarrow> kmem \<Rightarrow> fault + kmem" where
  "must_ref pp n = must_hold (\<lambda>s. pp_ref s pp = n)"

definition must_alloc_page :: "nat \<Rightarrow> kmem \<Rightarrow> fault + kmem" where
  "must_alloc_page pp s = chain (must_alloc s False) (\<lambda>(pp', s1). assert_that (pp' = pp) s1)"

definition no_page_at :: "nat \<Rightarrow> u32 \<Rightarrow> kmem \<Rightarrow> fault + kmem" where
  "no_page_at k va s = chain (page_lookup s k va) (\<lambda>found. assert_that (found = None) s)"

text \<open>The walk, with or without creation, and the pointer into the table found through the directory.\<close>

definition walk_points :: "nat \<Rightarrow> u32 \<Rightarrow> bool \<Rightarrow> kmem \<Rightarrow> fault + kmem" where
  "walk_points k va create s = chain (pgdir_walk s k va create) (\<lambda>(s1, pte).
     chain (kframe s1 (PTE_ADDR (read_pte s1 (k, unat (PDX va))))) (\<lambda>f.
       assert_that (pte = Some (f, unat (PTX va))) s1))"

text \<open>\<^verbatim>\<open>kern_pgdir[d] = 0; pp0->pp_ref = 0;\<close>, and the assertions when the page is taken back by force.\<close>

definition drop_entry :: "nat \<Rightarrow> nat \<Rightarrow> nat \<Rightarrow> kmem \<Rightarrow> fault + kmem" where
  "drop_entry k d pp s = (let s1 = write_pte s (k, d) 0 in Inr (s1\<lparr>pp_ref := (pp_ref s1)(pp := 0)\<rparr>))"

definition take_back :: "nat \<Rightarrow> nat \<Rightarrow> kmem \<Rightarrow> fault + kmem" where
  "take_back k pp s =
     chain (assert_that (PTE_ADDR (read_pte s (k, 0)) = page2pa pp) ()) (\<lambda>_.
     chain (assert_that (pp_ref s pp = 1) ()) (\<lambda>_. drop_entry k 0 pp s))"

definition fill_page :: "nat \<Rightarrow> u32 \<Rightarrow> kmem \<Rightarrow> fault + kmem" where
  "fill_page pp v s = chain (kframe s (page2pa pp)) (\<lambda>f. Inr (fill_words 1024 v s f))"

text \<open>The assertions of \<^verbatim>\<open>check_page\<close> while the rest of the free pages is put aside.\<close>

definition page_tests :: "nat \<Rightarrow> nat \<Rightarrow> nat \<Rightarrow> nat \<Rightarrow> (kmem \<Rightarrow> fault + kmem) list" where
  "page_tests k pp0 pp1 pp2 =
    [must_fail,
     no_page_at k 0,
     must_not_insert k pp1 0 PTE_W,
     \<lambda>s. page_free s pp0,
     must_insert k pp1 0 PTE_W,
     must_hold (\<lambda>s. PTE_ADDR (read_pte s (k, 0)) = page2pa pp0),
     must_map k 0 (page2pa pp1), must_ref pp1 1, must_ref pp0 1,
     must_insert k pp2 PGSIZE PTE_W, must_map k PGSIZE (page2pa pp2), must_ref pp2 1,
     must_fail,
     must_insert k pp2 PGSIZE PTE_W, must_map k PGSIZE (page2pa pp2), must_ref pp2 1,
     must_fail,
     walk_points k PGSIZE False,
     must_insert k pp2 PGSIZE (PTE_W OR PTE_U), must_map k PGSIZE (page2pa pp2), must_ref pp2 1,
     must_entry k PGSIZE (\<lambda>e. e AND PTE_U \<noteq> 0),
     must_hold (\<lambda>s. read_pte s (k, 0) AND PTE_U \<noteq> 0),
     must_insert k pp2 PGSIZE PTE_W,
     must_entry k PGSIZE (\<lambda>e. e AND PTE_W \<noteq> 0), must_entry k PGSIZE (\<lambda>e. e AND PTE_U = 0),
     must_not_insert k pp0 PTSIZE PTE_W,
     must_insert k pp1 PGSIZE PTE_W, must_entry k PGSIZE (\<lambda>e. e AND PTE_U = 0),
     must_map k 0 (page2pa pp1), must_map k PGSIZE (page2pa pp1), must_ref pp1 2, must_ref pp2 0,
     must_alloc_page pp2,
     \<lambda>s. page_remove None s k 0,
     must_map k 0 (NOT 0), must_map k PGSIZE (page2pa pp1), must_ref pp1 1, must_ref pp2 0,
     must_insert k pp1 PGSIZE 0, must_hold (\<lambda>s. pp_ref s pp1 \<noteq> 0), must_hold (\<lambda>s. pp_link s pp1 = None),
     \<lambda>s. page_remove None s k PGSIZE,
     must_map k 0 (NOT 0), must_map k PGSIZE (NOT 0), must_ref pp1 0, must_ref pp2 0,
     must_alloc_page pp1,
     must_fail,
     take_back k pp0,
     \<lambda>s. page_free s pp0,
     walk_points k (PGSIZE * word_of_nat NPDENTRIES + PGSIZE) True,
     drop_entry k (unat (PDX (PGSIZE * word_of_nat NPDENTRIES + PGSIZE))) pp0,
     fill_page pp0 0xFFFFFFFF,
     \<lambda>s. page_free s pp0,
     \<lambda>s. chain (pgdir_walk s k 0 True) (\<lambda>(s1, _). Inr s1),
     \<lambda>s. chain (kframe s (page2pa pp0)) (\<lambda>f. assert_that (\<forall>i\<in>{..<1024}. phys s f i AND PTE_P = 0) s),
     drop_entry k 0 pp0]"

text \<open>The test of \<^verbatim>\<open>mmio_map_region\<close>; the addresses below are those of the kernel's address space.\<close>

definition clear_entry :: "nat \<Rightarrow> u32 \<Rightarrow> kmem \<Rightarrow> fault + kmem" where
  "clear_entry k va s = chain (pgdir_walk s k va False) (\<lambda>(s1, pte). case pte of
     None \<Rightarrow> Inl NullDeref
   | Some q \<Rightarrow> Inr (write_pte s1 q 0))"

definition mmio_tests :: "nat \<Rightarrow> kmem \<Rightarrow> fault + kmem" where
  "mmio_tests k s =
     chain (mmio_map_region None k s 0 4097) (\<lambda>(mm1, s1).
     chain (mmio_map_region None k s1 0 4096) (\<lambda>(mm2, s2).
     in_order s2
      [must_hold (\<lambda>_. MMIOBASE \<le> mm1 \<and> mm1 + 8096 < MMIOLIM), must_hold (\<lambda>_. MMIOBASE \<le> mm2 \<and> mm2 + 8096 < MMIOLIM),
       must_hold (\<lambda>_. mm1 mod PGSIZE = 0 \<and> mm2 mod PGSIZE = 0),
       must_hold (\<lambda>_. mm1 + 8096 \<le> mm2),
       must_map k mm1 0, must_map k (mm1 + PGSIZE) PGSIZE, must_map k mm2 0, must_map k (mm2 + PGSIZE) (NOT 0),
       must_entry k mm1 (\<lambda>e. e AND (PTE_W OR PTE_PWT OR PTE_PCD) \<noteq> 0),
       must_entry k mm1 (\<lambda>e. e AND PTE_U = 0),
       clear_entry k mm1, clear_entry k (mm1 + PGSIZE), clear_entry k mm2]))"

definition check_page :: "nat \<Rightarrow> kmem \<Rightarrow> fault + kmem" where
  "check_page k s =
     chain (take_three s) (\<lambda>(pp0, pp1, pp2, s1).
     let fl = page_free_list s1 in
     chain (in_order (s1\<lparr>page_free_list := None\<rparr>) (page_tests k pp0 pp1 pp2)) (\<lambda>s2.
     chain (free_three (s2\<lparr>page_free_list := fl\<rparr>) pp0 pp1 pp2) (mmio_tests k)))"

section \<open>The checks of the finished directory\<close>

text \<open>\<open>kstacks\<close> are the addresses of \<^verbatim>\<open>percpu_kstacks\<close>; \<^verbatim>\<open>PADDR\<close> panics below \<^verbatim>\<open>KERNBASE\<close>.\<close>

definition must_map_range :: "nat \<Rightarrow> u32 \<Rightarrow> u32 \<Rightarrow> (u32 \<Rightarrow> fault + u32) \<Rightarrow> kmem \<Rightarrow> fault + kmem" where
  "must_map_range k va n pa s =
     run_steps (\<lambda>s i. chain (pa i) (\<lambda>p. must_map k (va + i) p s)) s (page_steps 0 n)"

definition check_kstack :: "nat \<Rightarrow> (nat \<Rightarrow> u32) \<Rightarrow> kmem \<Rightarrow> nat \<Rightarrow> fault + kmem" where
  "check_kstack k kstacks s n =
     (let base = KSTACKTOP - (KSTKSIZE + KSTKGAP) * (word_of_nat n + 1) in
      chain (must_map_range k (base + KSTKGAP) KSTKSIZE (\<lambda>i. chain (PADDR (kstacks n)) (\<lambda>p. Inr (p + i))) s)
        (must_map_range k base KSTKGAP (\<lambda>_. Inr (NOT 0))))"

definition check_pde :: "nat \<Rightarrow> kmem \<Rightarrow> nat \<Rightarrow> fault + kmem" where
  "check_pde k s i =
     (let e = read_pte s (k, i) in
      if i \<in> {unat (PDX UVPT), unat (PDX (KSTACKTOP - 1)), unat (PDX UPAGES), unat (PDX UENVS), unat (PDX MMIOBASE)}
      then assert_that (e AND PTE_P \<noteq> 0) s
      else if i \<ge> unat (PDX KERNBASE)
      then chain (assert_that (e AND PTE_P \<noteq> 0) ()) (\<lambda>_. assert_that (e AND PTE_W \<noteq> 0) s)
      else assert_that (e = 0) s)"

definition check_kern_pgdir :: "nat \<Rightarrow> u32 \<Rightarrow> u32 \<Rightarrow> (nat \<Rightarrow> u32) \<Rightarrow> u32 \<Rightarrow> kmem \<Rightarrow> fault + kmem" where
  "check_kern_pgdir k pages envs kstacks env_bytes s =
     in_order s
      [\<lambda>s. must_map_range k UPAGES (ROUNDUP (word_of_nat (npages s) * sizeof_PageInfo) PGSIZE)
             (\<lambda>i. chain (PADDR pages) (\<lambda>p. Inr (p + i))) s,
       must_map_range k UENVS (ROUNDUP (word_of_nat NENV * env_bytes) PGSIZE)
             (\<lambda>i. chain (PADDR envs) (\<lambda>p. Inr (p + i))),
       \<lambda>s. must_map_range k KERNBASE (word_of_nat (npages s) * PGSIZE) Inr s,
       \<lambda>s. run_steps (check_kstack k kstacks) s [0..<NCPU],
       \<lambda>s. run_steps (check_pde k) s [0..<1024]]"

text \<open>With the directory installed, a word of memory is reached through it: a missing entry, or a
  write to a page that is read-only, faults in the kernel.\<close>

definition kernel_word :: "nat \<Rightarrow> u32 \<Rightarrow> bool \<Rightarrow> kmem \<Rightarrow> fault + pte_ptr" where
  "kernel_word k va wr s = chain (pgdir_walk s k va False) (\<lambda>(_, pte). case pte of
     None \<Rightarrow> Inl (Panic ''page fault'')
   | Some q \<Rightarrow>
       if read_pte s q AND PTE_P = 0 \<or> wr \<and> read_pte s q AND PTE_W = 0 then Inl (Panic ''page fault'')
       else Inr (unat (PGNUM (PTE_ADDR (read_pte s q))), unat (PGOFF va) div 4))"

definition must_word :: "nat \<Rightarrow> u32 \<Rightarrow> u32 \<Rightarrow> kmem \<Rightarrow> fault + kmem" where
  "must_word k va v s = chain (kernel_word k va False s) (\<lambda>(f, i). assert_that (phys s f i = v) s)"

definition store_word :: "nat \<Rightarrow> u32 \<Rightarrow> u32 \<Rightarrow> kmem \<Rightarrow> fault + kmem" where
  "store_word k va v s = chain (kernel_word k va True s) (\<lambda>(f, i). Inr (write_pte s (f, i) v))"

text \<open>The result of \<^verbatim>\<open>page_insert\<close> is not looked at here.\<close>

definition check_page_installed_pgdir :: "nat \<Rightarrow> kmem \<Rightarrow> fault + kmem" where
  "check_page_installed_pgdir k s =
     chain (must_alloc s False) (\<lambda>(pp0, s1).
     chain (must_alloc s1 False) (\<lambda>(pp1, s2).
     chain (must_alloc s2 False) (\<lambda>(pp2, s3).
     in_order s3
      [\<lambda>s. page_free s pp0,
       fill_page pp1 0x01010101,
       fill_page pp2 0x02020202,
       \<lambda>s. chain (page_insert None s k pp1 PGSIZE PTE_W) (\<lambda>(s1, _). Inr s1),
       must_ref pp1 1,
       must_word k PGSIZE 0x01010101,
       \<lambda>s. chain (page_insert None s k pp2 PGSIZE PTE_W) (\<lambda>(s1, _). Inr s1),
       must_word k PGSIZE 0x02020202,
       must_ref pp2 1, must_ref pp1 0,
       store_word k PGSIZE 0x03030303,
       \<lambda>s. chain (kframe s (page2pa pp2)) (\<lambda>f. assert_that (phys s f 0 = 0x03030303) s),
       \<lambda>s. page_remove None s k PGSIZE,
       must_ref pp2 0,
       take_back k pp0,
       \<lambda>s. page_free s pp0])))"

end
