(* ===== verification/PmapBoot.thy ===== *)
theory PmapBoot
  imports PmapCheck
begin

unbundle bit_operations_syntax

text \<open>
  The address space of the kernel as \<^verbatim>\<open>mem_init\<close> builds it: what \<^verbatim>\<open>boot_map_region\<close> does to the
  page tables, and that the static mappings pass the kernel's own check of its page directory.
\<close>

section \<open>Building the address space\<close>

text \<open>
  \<^verbatim>\<open>mem_init\<close>: the memory size, the directory of the kernel, the arrays \<^verbatim>\<open>pages\<close> and \<^verbatim>\<open>envs\<close>, the free
  list, the static mappings, those of every CPU's stack too, and the checks between them. \<open>kend\<close> is the
  linker's symbol \<^verbatim>\<open>end\<close>, \<open>kstacks\<close> are the addresses of \<^verbatim>\<open>percpu_kstacks\<close> and \<open>env_bytes\<close> is
  \<^verbatim>\<open>sizeof(struct Env)\<close>. The result is the frame of \<^verbatim>\<open>kern_pgdir\<close> with the addresses of the two
  arrays. No environment runs yet, so every TLB entry is flushed.
\<close>

definition mem_init_mp :: "(nat \<Rightarrow> u32) \<Rightarrow> nat \<Rightarrow> kmem \<Rightarrow> fault + kmem" where
  "mem_init_mp kstacks kern_pgdir s =
     run_steps (\<lambda>s i.
         chain (PADDR (kstacks i)) (\<lambda>pa.
           boot_map_region None s kern_pgdir
             (KSTACKTOP - word_of_nat i * (KSTKSIZE + KSTKGAP) - KSTKSIZE)
             KSTKSIZE pa (PTE_W OR PTE_P))) s [0..<NCPU]"

definition static_mappings ::
    "nat \<Rightarrow> u32 \<Rightarrow> u32 \<Rightarrow> (nat \<Rightarrow> u32) \<Rightarrow> u32 \<Rightarrow> u32 \<Rightarrow> kmem \<Rightarrow> fault + kmem" where
  "static_mappings kern_pgdir pages envs kstacks pages_size envs_size s =
     chain (PADDR pages) (\<lambda>ppa.
     chain (boot_map_region None s kern_pgdir UPAGES (ROUNDUP pages_size PGSIZE) ppa (PTE_U OR PTE_P)) (\<lambda>s1.
     chain (PADDR envs) (\<lambda>epa.
     chain (boot_map_region None s1 kern_pgdir UENVS (ROUNDUP envs_size PGSIZE) epa (PTE_U OR PTE_P)) (\<lambda>s2.
     chain (boot_map_region None s2 kern_pgdir KERNBASE 0x10000000 0 (PTE_W OR PTE_P))
       (mem_init_mp kstacks kern_pgdir)))))"

text \<open>The first part: everything up to the free list.\<close>

definition mem_init_arrays :: "u32 \<Rightarrow> u32 \<Rightarrow> kmem \<Rightarrow> fault + (nat \<times> u32 \<times> u32 \<times> kmem)" where
  "mem_init_arrays kend env_bytes s =
     chain (boot_alloc kend s PGSIZE) (\<lambda>(kern_pgdir, s1).
     chain (PADDR kern_pgdir) (\<lambda>kpa.
     let kpd = unat (PGNUM kpa);
         s2 = write_pte (zero_page s1 kpd) (kpd, unat (PDX UVPT)) (kpa OR PTE_U OR PTE_P) in
     chain (boot_alloc kend s2 (word_of_nat (npages s2) * sizeof_PageInfo)) (\<lambda>(pages, s3).
     let s4 = s3\<lparr>pp_link := (\<lambda>_. None), pp_ref := (\<lambda>_. 0)\<rparr> in
     chain (boot_alloc kend s4 (word_of_nat NENV * env_bytes)) (\<lambda>(envs, s5).
       Inr (kpd, pages, envs, s5)))))"

definition mem_init ::
    "(nat \<Rightarrow> u32) \<Rightarrow> u32 \<Rightarrow> (nat \<Rightarrow> u32) \<Rightarrow> u32 \<Rightarrow> kmem \<Rightarrow> fault + (nat \<times> u32 \<times> u32 \<times> kmem)" where
  "mem_init mc kend kstacks env_bytes s =
     chain (mem_init_arrays kend env_bytes (s\<lparr>npages := unat (fst (i386_detect_memory mc))\<rparr>))
       (\<lambda>(kpd, pages, envs, s1).
     chain (page_init kend s1) (\<lambda>s2.
     chain (check_page_free_list kend s2 True) (\<lambda>s3.
     chain (check_page_alloc pages s3) (\<lambda>s4.
     chain (check_page kpd s4) (\<lambda>s5.
     chain (static_mappings kpd pages envs kstacks (word_of_nat (npages s5) * sizeof_PageInfo)
              (word_of_nat NENV * env_bytes) s5) (\<lambda>s6.
     chain (check_kern_pgdir kpd pages envs kstacks env_bytes s6) (\<lambda>s7.
     chain (check_page_free_list kend s7 False) (\<lambda>s8.
     chain (check_page_installed_pgdir kpd s8) (\<lambda>s9.
       Inr (kpd, pages, envs, s9))))))))))"

section \<open>The kernel's page directory\<close>

text \<open>
  \<open>kspace s k ps tb m\<close>: the frame \<open>k\<close> holds a directory whose entry 957, the one of \<^verbatim>\<open>UVPT\<close>, maps the
  directory itself; \<open>tb\<close> gives the frame of the table of each other entry; \<open>m\<close> gives the page table
  entry of each page of the address space, 0 where there is no table; \<open>ps\<close> is the free list, whose pages
  are none of those that the kernel image, its arrays and the devices use.
\<close>

definition selfmap :: nat where "selfmap = 957"

definition kpde :: "nat \<Rightarrow> (nat \<Rightarrow> nat option) \<Rightarrow> nat \<Rightarrow> u32" where
  "kpde k tb d = (if d = selfmap then page2pa k OR PTE_U OR PTE_P
     else case tb d of None \<Rightarrow> 0 | Some f \<Rightarrow> page2pa f OR PTE_P OR PTE_W OR PTE_U)"

definition usable :: "kmem \<Rightarrow> nat \<Rightarrow> bool" where
  "usable s p \<longleftrightarrow> boot_free (boot_nextfree s) p \<and> p \<noteq> unat (PGNUM EXTPHYSMEM)"

definition kspace :: "kmem \<Rightarrow> nat \<Rightarrow> nat list \<Rightarrow> (nat \<Rightarrow> nat option) \<Rightarrow> (nat \<Rightarrow> u32) \<Rightarrow> bool" where
  "kspace s k ps tb m \<longleftrightarrow> page_repr s ps \<and> k < npages s \<and> k \<notin> set ps \<and> (\<forall>p\<in>set ps. usable s p)
     \<and> dom tb \<subseteq> {..<1024} - {selfmap} \<and> inj_on tb (dom tb)
     \<and> (\<forall>d<1024. pde_at s k d = kpde k tb d)
     \<and> (\<forall>d f. tb d = Some f \<longrightarrow> f < npages s \<and> f \<noteq> k \<and> f \<notin> set ps)
     \<and> (\<forall>d f t. tb d = Some f \<longrightarrow> t < 1024 \<longrightarrow> phys s f t = m (d * 1024 + t))
     \<and> (\<forall>d t. d < 1024 \<longrightarrow> d \<noteq> selfmap \<longrightarrow> tb d = None \<longrightarrow> t < 1024 \<longrightarrow> m (d * 1024 + t) = 0)"

lemma kspaceD:
  assumes "kspace s k ps tb m"
  shows "page_repr s ps" "k < npages s" "k \<notin> set ps" "npages s \<le> 2 ^ 20"
    "dom tb \<subseteq> {..<1024} - {selfmap}" "inj_on tb (dom tb)" "finite (dom tb)"
    "\<And>d. d < 1024 \<Longrightarrow> pde_at s k d = kpde k tb d"
    "\<And>d f. tb d = Some f \<Longrightarrow> f < npages s \<and> f \<noteq> k \<and> f \<notin> set ps \<and> f < 2 ^ 20"
    "\<And>d f t. tb d = Some f \<Longrightarrow> t < 1024 \<Longrightarrow> phys s f t = m (d * 1024 + t)"
    "\<And>d t. d < 1024 \<Longrightarrow> d \<noteq> selfmap \<Longrightarrow> tb d = None \<Longrightarrow> t < 1024 \<Longrightarrow> m (d * 1024 + t) = 0"
    "\<forall>p\<in>set ps. usable s p"
proof -
  show "page_repr s ps" "k < npages s" "k \<notin> set ps" "dom tb \<subseteq> {..<1024} - {selfmap}" "inj_on tb (dom tb)"
    "\<And>d. d < 1024 \<Longrightarrow> pde_at s k d = kpde k tb d"
    "\<And>d f t. tb d = Some f \<Longrightarrow> t < 1024 \<Longrightarrow> phys s f t = m (d * 1024 + t)"
    "\<And>d t. d < 1024 \<Longrightarrow> d \<noteq> selfmap \<Longrightarrow> tb d = None \<Longrightarrow> t < 1024 \<Longrightarrow> m (d * 1024 + t) = 0"
    "\<forall>p\<in>set ps. usable s p"
    using assms by (simp_all add: kspace_def)
  then show "npages s \<le> 2 ^ 20" "finite (dom tb)"
    by (simp_all add: page_repr_def finite_subset[of _ "{..<1024} - {selfmap}"])
  then show "\<And>d f. tb d = Some f \<Longrightarrow> f < npages s \<and> f \<noteq> k \<and> f \<notin> set ps \<and> f < 2 ^ 20"
    using assms by (simp add: kspace_def) (meson order_less_le_trans)
qed

lemma kspace_entry:
  assumes "kspace s k ps tb m" and "tb d = Some f"
  shows "pde_at s k d = page2pa f OR PTE_P OR PTE_W OR PTE_U" "pde_at s k d \<noteq> 0"
    "frame_of (pde_at s k d) = f" "f < npages s" "pde_ok s (pde_at s k d)"
proof -
  note D = kspaceD[OF assms(1)]
  have d: "d < 1024" "d \<noteq> selfmap" using D(5) assms(2) by auto
  have f: "f < npages s" "f < 2 ^ 20" using D(9)[OF assms(2)] by auto
  show e: "pde_at s k d = page2pa f OR PTE_P OR PTE_W OR PTE_U" using D(8)[OF d(1)] d assms(2) by (simp add: kpde_def)
  show "f < npages s" by (rule f)
  from new_pde[OF f(2)] f(1) show "pde_at s k d \<noteq> 0" "frame_of (pde_at s k d) = f" "pde_ok s (pde_at s k d)"
    by (simp_all add: e pde_ok_def)
qed

lemma kspace_no_entry:
  assumes "kspace s k ps tb m" and "tb d = None" "d < 1024" "d \<noteq> selfmap"
  shows "pde_at s k d = 0"
  using kspaceD(8)[OF assms(1,3)] assms by (simp add: kpde_def)

lemma pdx_ptx: "unat (PGNUM va) = unat (PDX va) * 1024 + unat (PTX va)"
proof -
  have "unat va div 4194304 = unat va div 4096 div 1024" by (simp add: div_mult2_eq[symmetric])
  then show ?thesis unfolding unat_PGNUM unat_PDX unat_PTX by (simp add: mult.commute)
qed

lemma kspace_reads:
  assumes "kspace s k ps tb m" and "unat (PDX va) \<noteq> selfmap"
  shows "check_va2pa s k va = Inr (reads_as (m (unat (PGNUM va))))"
proof (cases "tb (unat (PDX va))")
  case None
  then show ?thesis
    using check_va2pa_none[OF kspace_no_entry[OF assms(1) None PDX_less assms(2)]]
      kspaceD(11)[OF assms(1) PDX_less assms(2) None PTX_less] by (simp add: pdx_ptx)
next
  case (Some f)
  note e = kspace_entry[OF assms(1) Some]
  show ?thesis
    using check_va2pa_table[OF e(5)] kspaceD(10)[OF assms(1) Some PTX_less]
    by (simp add: pte_at_def e(3) pdx_ptx)
qed


text \<open>Two things change a space: writing the entry of a page and adding a table.\<close>

lemma kspace_write:
  assumes K: "kspace s k ps tb m" and f: "tb d = Some f" and t: "t < 1024"
  shows "kspace (write_pte s (f, t) v) k ps tb (m(d * 1024 + t := v))"
proof -
  note D = kspaceD[OF K]
  have d: "d < 1024" "d \<noteq> selfmap" using D(5) f by auto
  have fk: "f \<noteq> k" using D(9)[OF f] by blast
  have inj: "tb d' = Some f \<Longrightarrow> d' = d" for d' using D(6) f by (auto simp: inj_on_def dom_def)
  have idx: "d' * 1024 + t' = d * 1024 + t \<Longrightarrow> t' < 1024 \<Longrightarrow> d' = d \<and> t' = t" for d' t'
    using row_index_eq[OF _ t, of t' d' d] by blast
  have ph: "phys (write_pte s (f, t) v) g u = (if g = f \<and> u = t then v else phys s g u)" for g u
    by (simp add: write_pte_def set_cell_app)
  have rows: "phys (write_pte s (f, t) v) g u = (m(d * 1024 + t := v)) (e * 1024 + u)"
    if "tb e = Some g" "u < 1024" for e g u
  proof (cases "e = d")
    case True
    with that(1) f have "g = f" by simp
    with True that show ?thesis by (simp add: ph D(10))
  next
    case False
    then have "g \<noteq> f" using inj that(1) by blast
    moreover have "e * 1024 + u \<noteq> d * 1024 + t" using idx[of e u] False that(2) by blast
    ultimately show ?thesis using that by (simp add: ph D(10))
  qed
  have none: "(m(d * 1024 + t := v)) (e * 1024 + u) = 0"
    if "e < 1024" "e \<noteq> selfmap" "tb e = None" "u < 1024" for e u
  proof -
    have "e * 1024 + u \<noteq> d * 1024 + t" using idx[of e u] that(3,4) f by force
    then show ?thesis using D(11)[OF that] by simp
  qed
  show ?thesis unfolding kspace_def
  proof (intro conjI allI impI)
    show "page_repr (write_pte s (f, t) v) ps" using D(1) by (simp add: page_repr_def write_pte_def)
    show "pde_at (write_pte s (f, t) v) k e = kpde k tb e" if "e < 1024" for e
      using D(8)[OF that] fk by (simp add: pde_at_def ph)
    show "\<forall>p\<in>set ps. usable (write_pte s (f, t) v) p" using D(12) by (simp add: usable_def write_pte_def)
  qed (use D(2,3,5,6,9) rows none in \<open>auto simp: write_pte_def\<close>)
qed

lemma kspace_new_table:
  assumes K: "kspace s k (p # ps) tb m" and d: "d < 1024" "d \<noteq> selfmap" "tb d = None"
  shows "kspace (new_table s k d p) k ps (tb(d \<mapsto> p)) m"
proof -
  note D = kspaceD[OF K]
  let ?s1 = "new_table s k d p"
  have p: "p \<noteq> k" "p < npages s" "p \<notin> set ps" using D(1,3) by (auto simp: page_repr_def)
  have np: "p \<notin> ran tb" using D(9) by (auto simp: ran_def)
  have r: "page_repr ?s1 ps"
    using page_alloc_Cons(2)[OF D(1), of True]
    by (auto simp: page_repr_def new_table_sel new_table_def zero_page_def write_pte_def incref_def p)
  have ph: "phys ?s1 g u = (if g = k \<and> u = d then page2pa p OR PTE_P OR PTE_W OR PTE_U
      else if g = p then 0 else phys s g u)" for g u
    using p(1) by (auto simp: new_table_sel set_cell_app)
  have zero: "m (d * 1024 + u) = 0" if "u < 1024" for u using D(11)[OF d that] .
  have inj: "inj_on (tb(d \<mapsto> p)) (dom (tb(d \<mapsto> p)))"
    using D(6) np by (auto simp: inj_on_def dom_def ran_def)
  show ?thesis unfolding kspace_def
  proof (intro conjI allI impI)
    show "page_repr ?s1 ps" by (rule r)
    show "k < npages ?s1" using D(2) by (simp add: new_table_sel)
    show "k \<notin> set ps" using D(3) by simp
    have b: "boot_nextfree ?s1 = boot_nextfree s"
      by (simp add: new_table_def write_pte_def incref_def zero_page_def)
    show "\<forall>q\<in>set ps. usable ?s1 q" using D(12) by (simp add: usable_def b)
    show "dom (tb(d \<mapsto> p)) \<subseteq> {..<1024} - {selfmap}" using D(5) d by auto
    show "inj_on (tb(d \<mapsto> p)) (dom (tb(d \<mapsto> p)))" by (rule inj)
    show "pde_at ?s1 k e = kpde k (tb(d \<mapsto> p)) e" if "e < 1024" for e
      using D(8)[OF that] p(1) d(2) by (auto simp: pde_at_def ph kpde_def)
  next
    fix e f assume h: "(tb(d \<mapsto> p)) e = Some f"
    show "f < npages ?s1" "f \<noteq> k" "f \<notin> set ps"
      using h p D(9)[of e f] by (auto simp: new_table_sel split: if_splits)
    fix u :: nat assume u: "u < 1024"
    show "phys ?s1 f u = m (e * 1024 + u)"
    proof (cases "e = d")
      case True
      with h have f: "f = p" by simp
      show ?thesis unfolding f True using zero[OF u] p(1) by (simp add: ph)
    next
      case False
      then have f: "tb e = Some f" using h by simp
      then have "f \<noteq> p" "f \<noteq> k" using np D(9)[OF f] by (auto simp: ran_def)
      then show ?thesis using D(10)[OF f u] by (simp add: ph)
    qed
  next
    fix e u assume "e < 1024" "e \<noteq> selfmap" "(tb(d \<mapsto> p)) e = None" "u < (1024 :: nat)"
    then show "m (e * 1024 + u) = 0" using D(11)[of e u] by (simp split: if_splits)
  qed
qed

text \<open>What these operations leave alone.\<close>

definition same_globals :: "kmem \<Rightarrow> kmem \<Rightarrow> bool" where
  "same_globals s s' \<longleftrightarrow> npages s' = npages s \<and> boot_nextfree s' = boot_nextfree s \<and> mmio_base s' = mmio_base s"

lemma same_globals_refl [simp]: "same_globals s s"
  by (simp add: same_globals_def)

lemma same_globals_trans: "same_globals s t \<Longrightarrow> same_globals t u \<Longrightarrow> same_globals s u"
  by (simp add: same_globals_def)

lemma same_globals_new_table: "same_globals s (new_table s k d p)"
  by (simp add: same_globals_def new_table_def write_pte_def incref_def zero_page_def)

lemma same_globals_write: "same_globals s (write_pte s q v)"
  by (simp add: same_globals_def write_pte_def)

text \<open>The walk that creates missing tables: the directory entries that have a table afterwards, and
  the table if it is new comes from the free list.\<close>

lemma kspace_walk:
  assumes K: "kspace s k ps tb m" and d: "unat (PDX va) \<noteq> selfmap" and ps: "tb (unat (PDX va)) = None \<Longrightarrow> ps \<noteq> []"
  shows "\<exists>s' ps' tb' f. pgdir_walk s k va True = Inr (s', Some (f, unat (PTX va))) \<and> kspace s' k ps' tb' m
    \<and> tb' (unat (PDX va)) = Some f \<and> dom tb' = insert (unat (PDX va)) (dom tb)
    \<and> length ps' + card (dom tb') = length ps + card (dom tb) \<and> same_globals s s'"
proof (cases "tb (unat (PDX va))")
  case (Some f)
  note e = kspace_entry[OF K Some]
  have "pgdir_walk s k va True = Inr (s, Some (f, unat (PTX va)))"
    using walk_mapped[OF e(2)] e(3,4) by simp
  moreover have "dom tb = insert (unat (PDX va)) (dom tb)" using Some by auto
  ultimately show ?thesis using K Some by (intro exI[of _ s] exI[of _ ps] exI[of _ tb] exI[of _ f]) simp
next
  case None
  let ?d = "unat (PDX va)"
  from ps[OF None] obtain p qs where c: "ps = p # qs" by (cases ps) auto
  note D = kspaceD[OF K]
  have "p \<noteq> k" using D(3) c by auto
  with walk_create[OF kspace_no_entry[OF K None PDX_less d]] D(1) c
  have w: "pgdir_walk s k va True = Inr (new_table s k ?d p, Some (p, unat (PTX va)))" by simp
  have n: "kspace (new_table s k ?d p) k qs (tb(?d \<mapsto> p)) m"
    using kspace_new_table[OF K[unfolded c] PDX_less d None] .
  have "?d \<notin> dom tb" using None by auto
  with D(7) have "card (dom (tb(?d \<mapsto> p))) = Suc (card (dom tb))" by simp
  with w n c show ?thesis
    by (intro exI[of _ "new_table s k ?d p"] exI[of _ qs] exI[of _ "tb(?d \<mapsto> p)"] exI[of _ p])
      (simp add: same_globals_new_table)
qed

lemma page_remove_empty:
  assumes K: "kspace s k ps tb m" and f: "tb (unat (PDX va)) = Some f" and z: "m (unat (PGNUM va)) = 0"
  shows "page_remove cur s k va = Inr s"
proof -
  note e = kspace_entry[OF K f]
  have "phys s f (unat (PTX va)) = 0" using kspaceD(10)[OF K f PTX_less] z by (simp add: pdx_ptx)
  then show ?thesis
    using walk_mapped[OF e(2), of False] e(3,4)
    by (simp add: page_remove_def page_lookup_def read_pte_def)
qed

lemma boot_map_step_maps:
  assumes K: "kspace s k ps tb m" and d: "unat (PDX (va + i)) \<noteq> selfmap"
    and z: "m (unat (PGNUM (va + i))) = 0" and ps: "tb (unat (PDX (va + i))) = None \<Longrightarrow> ps \<noteq> []"
  shows "\<exists>s' ps' tb'. boot_map_step cur k va pa perm s i = Inr s'
    \<and> kspace s' k ps' tb' (m(unat (PGNUM (va + i)) := (pa + i) OR perm OR PTE_P))
    \<and> dom tb' = insert (unat (PDX (va + i))) (dom tb)
    \<and> length ps' + card (dom tb') = length ps + card (dom tb) \<and> same_globals s s'"
proof -
  from kspace_walk[OF K d ps] obtain s1 ps' tb' f where
    w: "pgdir_walk s k (va + i) True = Inr (s1, Some (f, unat (PTX (va + i))))" "kspace s1 k ps' tb' m"
      "tb' (unat (PDX (va + i))) = Some f"
    and c: "dom tb' = insert (unat (PDX (va + i))) (dom tb)" "length ps' + card (dom tb') = length ps + card (dom tb)"
      "same_globals s s1"
    by blast
  let ?v = "(pa + i) OR perm OR PTE_P"
  have "boot_map_step cur k va pa perm s i = Inr (write_pte s1 (f, unat (PTX (va + i))) ?v)"
    using w(1) page_remove_empty[OF w(2,3) z] by (simp add: boot_map_step_def)
  moreover have "kspace (write_pte s1 (f, unat (PTX (va + i))) ?v) k ps' tb' (m(unat (PGNUM (va + i)) := ?v))"
    using kspace_write[OF w(2,3) PTX_less] by (simp add: pdx_ptx)
  ultimately show ?thesis using c same_globals_trans[OF c(3) same_globals_write] by blast
qed

section \<open>Mapping a region\<close>

lemma run_steps_map: "run_steps step s (map g es) = run_steps (\<lambda>s e. step s (g e)) s es"
  by (induction es arbitrary: s) (simp_all add: chain_def split: sum.splits)

lemma page_address:
  assumes "unat va = 4096 * b" and "b + j < 2 ^ 20"
  shows "unat (va + word_of_nat j * PGSIZE) = 4096 * (b + j)"
proof -
  have "unat (word_of_nat j * PGSIZE :: u32) = 4096 * j"
    using assms(2) by (simp add: unat_word_ariths unat_of_nat PGSIZE_def)
  then show ?thesis using assms by (simp add: unat_word_ariths)
qed

text \<open>The entries of a space after mapping \<open>n\<close> pages from page \<open>b\<close> on.\<close>

definition with_region :: "(nat \<Rightarrow> u32) \<Rightarrow> nat \<Rightarrow> nat \<Rightarrow> u32 \<Rightarrow> u32 \<Rightarrow> nat \<Rightarrow> u32" where
  "with_region m b n pa perm i =
     (if b \<le> i \<and> i < b + n then (pa + word_of_nat (i - b) * PGSIZE) OR perm OR PTE_P else m i)"

lemma with_region_0 [simp]: "with_region m b 0 pa perm = m"
  by (rule ext) (auto simp: with_region_def)

lemma with_region_Suc:
  "with_region m b (Suc n) pa perm =
    (with_region m b n pa perm)(b + n := (pa + word_of_nat n * PGSIZE) OR perm OR PTE_P)"
  by (auto simp: with_region_def fun_eq_iff)

definition dirs_of :: "nat \<Rightarrow> nat \<Rightarrow> nat set" where
  "dirs_of b n = (\<lambda>i. (b + i) div 1024) ` {..<n}"

lemma dirs_of_Suc: "dirs_of b (Suc n) = insert ((b + n) div 1024) (dirs_of b n)"
  by (simp add: dirs_of_def lessThan_Suc)

lemma boot_map_region_space:
  assumes K: "kspace s k ps tb m" and va: "unat va = 4096 * b" and sz: "unat sz = 4096 * n"
    and top: "b + n \<le> 2 ^ 20" and free: "\<And>i. i < n \<Longrightarrow> m (b + i) = 0"
    and self: "selfmap \<notin> dirs_of b n"
    and room: "card (dom tb \<union> dirs_of b n) \<le> length ps + card (dom tb)"
  shows "\<exists>s' ps' tb'. boot_map_region cur s k va sz pa perm = Inr s'
    \<and> kspace s' k ps' tb' (with_region m b n pa perm)
    \<and> dom tb' = dom tb \<union> dirs_of b n
    \<and> length ps' + card (dom tb') = length ps + card (dom tb) \<and> same_globals s s'"
proof -
  let ?I = "\<lambda>j s'. \<exists>ps' tb'. kspace s' k ps' tb' (with_region m b j pa perm) \<and> dom tb' = dom tb \<union> dirs_of b j
    \<and> length ps' + card (dom tb') = length ps + card (dom tb) \<and> same_globals s s'"
  let ?step = "\<lambda>s j. boot_map_step cur k va pa perm s (word_of_nat j * PGSIZE)"
  have step: "\<exists>s2. ?step s1 j = Inr s2 \<and> ?I (Suc j) s2" if j: "j < n" and I: "?I j s1" for j s1
  proof -
    let ?a = "va + word_of_nat j * PGSIZE"
    from I obtain ps1 tb1 where K1: "kspace s1 k ps1 tb1 (with_region m b j pa perm)"
      and d1: "dom tb1 = dom tb \<union> dirs_of b j" and c1: "length ps1 + card (dom tb1) = length ps + card (dom tb)"
      and g1: "same_globals s s1" by blast
    have a: "unat ?a = 4096 * (b + j)" using page_address[OF va, of j] top j by simp
    have pn: "unat (PGNUM ?a) = b + j" by (simp add: unat_PGNUM a)
    have pd: "unat (PDX ?a) = (b + j) div 1024" by (simp add: unat_PDX a div_mult2_eq[of _ 4096 1024, simplified])
    have D: "dirs_of b (Suc j) \<subseteq> dirs_of b n" using j by (auto simp: dirs_of_def)
    have ns: "unat (PDX ?a) \<noteq> selfmap" using self D by (auto simp: pd dirs_of_Suc)
    have z: "with_region m b j pa perm (unat (PGNUM ?a)) = 0"
      using free[OF j] by (simp add: pn with_region_def)
    have ne: "ps1 \<noteq> []" if "tb1 (unat (PDX ?a)) = None"
    proof
      assume "ps1 = []"
      then have full: "card (dom tb \<union> dirs_of b n) \<le> card (dom tb1)" using c1 room by simp
      have "(b + j) div 1024 \<in> dirs_of b n" "(b + j) div 1024 \<notin> dom tb1" "dirs_of b j \<subseteq> dirs_of b n"
        using D that by (auto simp: dirs_of_Suc pd)
      then have "dom tb1 \<subset> dom tb \<union> dirs_of b n" using d1 by blast
      moreover have "finite (dom tb \<union> dirs_of b n)" using kspaceD(7)[OF K] by (simp add: dirs_of_def)
      ultimately show False using psubset_card_mono[of "dom tb \<union> dirs_of b n" "dom tb1"] full by simp
    qed
    from boot_map_step_maps[OF K1 ns z ne, of cur pa perm] obtain s2 ps2 tb2 where
      r: "?step s1 j = Inr s2" and K2: "kspace s2 k ps2 tb2 (with_region m b (Suc j) pa perm)"
      and d2: "dom tb2 = insert (unat (PDX ?a)) (dom tb1)"
      and c2: "length ps2 + card (dom tb2) = length ps1 + card (dom tb1)" and g2: "same_globals s1 s2"
      unfolding pn with_region_Suc[symmetric] by blast
    have "dom tb2 = dom tb \<union> dirs_of b (Suc j)" using d1 d2 by (simp add: dirs_of_Suc pd)
    moreover have "length ps2 + card (dom tb2) = length ps + card (dom tb)" using c1 c2 by simp
    ultimately show ?thesis using r K2 same_globals_trans[OF g1 g2] by blast
  qed
  have "?I 0 s" using K by (intro exI[of _ ps] exI[of _ tb]) (simp add: dirs_of_def)
  with run_steps_upt[of n ?I ?step s, OF step] obtain s' where
    "run_steps ?step s [0..<n] = Inr s'" "?I n s'" by blast
  moreover have "boot_map_region cur s k va sz pa perm = run_steps ?step s [0..<n]"
    using sz by (simp add: boot_map_region_def page_steps_def run_steps_map)
  ultimately show ?thesis by auto
qed

lemma PGOFF_page_multiple: "PGOFF pa = 0 \<Longrightarrow> PGOFF (pa + word_of_nat j * PGSIZE) = 0"
proof -
  assume "PGOFF pa = 0"
  then have "unat pa mod 4096 = 0" using unat_PGOFF[of pa] by simp
  moreover have "unat (pa + word_of_nat j * PGSIZE) mod 4096 = (unat pa + unat (word_of_nat j :: u32) * 4096) mod 4096"
    unfolding unat_word_ariths by (simp add: PGSIZE_def mod_mod_cancel mod_add_right_eq)
  ultimately have "unat (PGOFF (pa + word_of_nat j * PGSIZE)) = 0" by (simp add: unat_PGOFF)
  then show ?thesis by (simp add: unat_eq_zero)
qed

lemma entry_reads_word:
  assumes "PGOFF w = 0" and "flags_ok perm"
  shows "reads_as (w OR perm OR PTE_P) = w"
proof -
  have "unat w mod 4096 = 0" using assms(1) unat_PGOFF[of w] by simp
  then have "PTE_ADDR w = w" by (auto simp: word_unat_eq_iff unat_PTE_ADDR)
  moreover have "frame_of w < 2 ^ 20" using unat_u32_less[of w] by (simp add: frame_of_unat less_mult_imp_div_less)
  ultimately show ?thesis using entry_reads[OF _ assms(2), of "frame_of w"] by (simp add: page2pa_frame_of)
qed

lemma page_offset:
  assumes "unat va = 4096 * b" and "b \<le> unat (PGNUM a)"
  shows "word_of_nat (unat (PGNUM a) - b) * PGSIZE = PTE_ADDR a - va"
proof -
  have p: "unat (PGNUM a) < 2 ^ 20" using unat_u32_less[of a] by (simp add: unat_PGNUM less_mult_imp_div_less)
  have a: "unat (PTE_ADDR a) = 4096 * unat (PGNUM a)" by (simp add: unat_PTE_ADDR unat_PGNUM)
  then have "va \<le> PTE_ADDR a" using assms by (simp add: word_le_nat_alt)
  then have "unat (PTE_ADDR a - va) = 4096 * (unat (PGNUM a) - b)"
    using a assms by (simp add: unat_sub diff_mult_distrib2)
  moreover have "unat (word_of_nat (unat (PGNUM a) - b) * PGSIZE :: u32) = 4096 * (unat (PGNUM a) - b)"
    using p by (simp add: unat_word_ariths unat_of_nat PGSIZE_def)
  ultimately show ?thesis by (simp add: word_unat_eq_iff)
qed

text \<open>C13: Mapping a region at boot: in a kernel address space whose pages of the region are unmapped,
  with a free page for every page table that is missing, \<^verbatim>\<open>boot_map_region\<close> does not fault; each
  page of the region then translates to the page at the same offset from \<open>pa\<close>, and every other address,
  but for the window of \<^verbatim>\<open>UVPT\<close>, translates as before.\<close>

theorem boot_map_region_maps:
  assumes "kspace s k ps tb m" and "unat va = 4096 * b" and "unat sz = 4096 * n" and "b + n \<le> 2 ^ 20"
    and "PGOFF pa = 0" and "drop_bit 12 perm = 0"
    and "\<forall>i<n. m (b + i) = 0" and "selfmap \<notin> dirs_of b n"
    and "card (dom tb \<union> dirs_of b n) \<le> length ps + card (dom tb)"
  shows "\<exists>s'. boot_map_region cur s k va sz pa perm = Inr s'
    \<and> (\<forall>a. unat (PDX a) \<noteq> selfmap \<longrightarrow> check_va2pa s' k a =
        (if b \<le> unat (PGNUM a) \<and> unat (PGNUM a) < b + n then Inr (pa + (PTE_ADDR a - va)) else check_va2pa s k a))"
proof -
  obtain s' ps' tb' where r: "boot_map_region cur s k va sz pa perm = Inr s'"
    and K: "kspace s' k ps' tb' (with_region m b n pa perm)"
    using boot_map_region_space[OF assms(1-4) _ assms(8,9)] assms(7) by blast
  have "check_va2pa s' k a =
      (if b \<le> unat (PGNUM a) \<and> unat (PGNUM a) < b + n then Inr (pa + (PTE_ADDR a - va)) else check_va2pa s k a)"
    if d: "unat (PDX a) \<noteq> selfmap" for a
  proof (cases "b \<le> unat (PGNUM a) \<and> unat (PGNUM a) < b + n")
    case True
    let ?off = "word_of_nat (unat (PGNUM a) - b) * PGSIZE :: u32"
    have "reads_as ((pa + ?off) OR perm OR PTE_P) = pa + ?off"
      by (rule entry_reads_word) (use assms(5,6) in \<open>auto simp: PGOFF_page_multiple flags_ok_def\<close>)
    moreover have "?off = PTE_ADDR a - va" by (rule page_offset) (use True assms(2) in simp_all)
    ultimately have "reads_as (with_region m b n pa perm (unat (PGNUM a))) = pa + (PTE_ADDR a - va)"
      using True by (simp only: with_region_def simp_thms if_True)
    with True show ?thesis by (simp add: kspace_reads[OF K d])
  next
    case False
    then have "with_region m b n pa perm (unat (PGNUM a)) = m (unat (PGNUM a))" by (auto simp: with_region_def)
    with False show ?thesis by (auto simp: kspace_reads[OF K d] kspace_reads[OF assms(1) d])
  qed
  with r show ?thesis by blast
qed

text \<open>The example: frame 1 is a directory that maps only itself, frames 2 and 3 are free.\<close>

definition demo_kernel :: kmem where
  "demo_kernel = demo_mem\<lparr>phys := set_cell (\<lambda>_ _. 0) 1 selfmap (page2pa 1 OR PTE_U OR PTE_P)\<rparr>"

lemma demo_kernel_space: "kspace demo_kernel 1 [2, 3] Map.empty (\<lambda>_. 0)"
  by (auto simp: kspace_def demo_kernel_def demo_mem_def page_repr_def pde_at_def kpde_def usable_def boot_free_def
      boot_consts set_cell_app)

lemma boot_map_region_maps_witness:
  "\<exists>s'. boot_map_region None demo_kernel 1 UPAGES 8192 0x100000 PTE_U = Inr s'
    \<and> check_va2pa s' 1 0xEF001000 = Inr 0x101000 \<and> check_va2pa s' 1 0xEF002000 = Inr (NOT 0)"
proof -
  have c: "unat UPAGES = 4096 * 978944" "unat (8192 :: u32) = 4096 * 2" "978944 + 2 \<le> (2 :: nat) ^ 20"
    "PGOFF 0x100000 = 0" "drop_bit 12 PTE_U = 0"
    by (simp_all add: memlayout_defs mmu_consts PGOFF_def pte_bits)
  have d: "dirs_of 978944 2 = {956}" by (auto simp: dirs_of_def lessThan_Suc numeral_2_eq_2)
  obtain s' where r: "boot_map_region None demo_kernel 1 UPAGES 8192 0x100000 PTE_U = Inr s'"
    and m: "\<forall>a. unat (PDX a) \<noteq> selfmap \<longrightarrow> check_va2pa s' 1 a =
        (if 978944 \<le> unat (PGNUM a) \<and> unat (PGNUM a) < 978944 + 2 then Inr (0x100000 + (PTE_ADDR a - UPAGES))
         else check_va2pa demo_kernel 1 a)"
    using boot_map_region_maps[OF demo_kernel_space c, of None] d by (auto simp: selfmap_def)
  have n: "unat (PDX 0xEF001000) \<noteq> selfmap" "unat (PDX 0xEF002000) \<noteq> selfmap" "unat (PGNUM 0xEF001000) = 978945"
    "unat (PGNUM 0xEF002000) = 978946" "PTE_ADDR 0xEF001000 - UPAGES = 4096"
    by (simp_all add: unat_PDX unat_PGNUM selfmap_def PTE_ADDR_def memlayout_defs mmu_consts)
  have "check_va2pa demo_kernel 1 0xEF002000 = Inr (NOT 0)"
    using kspace_reads[OF demo_kernel_space n(2)] by simp
  with r m n show ?thesis by (intro exI[of _ s']) simp
qed

section \<open>The static mappings pass the checks\<close>

text \<open>The entries after the stacks of the first \<open>j\<close> CPUs: each stack has eight pages, with a gap of
  eight pages below it.\<close>

definition kstack_page :: "nat \<Rightarrow> nat" where
  "kstack_page c = 0xF0000 - 16 * c - 8"

lemma kstack_page: "c < 8 \<Longrightarrow> kstack_page c + 16 * c + 8 = 0xF0000"
  by (simp add: kstack_page_def)

fun with_stacks :: "(nat \<Rightarrow> u32) \<Rightarrow> (nat \<Rightarrow> u32) \<Rightarrow> nat \<Rightarrow> nat \<Rightarrow> u32" where
  "with_stacks m pa 0 = m"
| "with_stacks m pa (Suc j) = with_region (with_stacks m pa j) (kstack_page j) 8 (pa j) (PTE_W OR PTE_P)"

lemma with_stacks_outside:
  "(\<And>c. c < j \<Longrightarrow> i < kstack_page c \<or> kstack_page c + 8 \<le> i) \<Longrightarrow> with_stacks m pa j i = m i"
proof (induction j)
  case (Suc j)
  then have "i < kstack_page j \<or> kstack_page j + 8 \<le> i" "with_stacks m pa j i = m i" by simp_all
  then show ?case by (auto simp: with_region_def)
qed simp

lemma with_stacks_inside:
  "c < j \<Longrightarrow> j \<le> 8 \<Longrightarrow> t < 8 \<Longrightarrow>
   with_stacks m pa j (kstack_page c + t) = (pa c + word_of_nat t * PGSIZE) OR (PTE_W OR PTE_P) OR PTE_P"
proof (induction j)
  case (Suc j)
  show ?case
  proof (cases "c = j")
    case True
    with Suc.prems show ?thesis by (simp add: with_region_def)
  next
    case False
    then have "\<not> (kstack_page j \<le> kstack_page c + t \<and> kstack_page c + t < kstack_page j + 8)"
      using Suc.prems kstack_page[of c] kstack_page[of j] by linarith
    then have "with_stacks m pa (Suc j) (kstack_page c + t) = with_stacks m pa j (kstack_page c + t)"
      by (auto simp: with_region_def)
    with Suc False show ?thesis by simp
  qed
qed simp

lemma dirs_of_stack: "j < 8 \<Longrightarrow> dirs_of (kstack_page j) 8 = {959}"
proof -
  assume j: "j < 8"
  have "(kstack_page j + i) div 1024 = 959" if "i < 8" for i
    using kstack_page[OF j] j that by (intro div_nat_eqI) auto
  then have "(\<lambda>i. (kstack_page j + i) div 1024) ` {..<8} = (\<lambda>_. 959) ` {..<8::nat}" by (intro image_cong) simp_all
  moreover have "(\<lambda>_. 959) ` {..<8::nat} = {959}" by (auto intro: image_eqI[of _ _ 0])
  ultimately show ?thesis by (simp only: dirs_of_def)
qed

lemma kstack_base:
  "j < 8 \<Longrightarrow> unat (KSTACKTOP - word_of_nat j * (KSTKSIZE + KSTKGAP) - KSTKSIZE) = 4096 * kstack_page j"
proof -
  assume j: "j < 8"
  have "unat (word_of_nat j * 65536 :: u32) = 65536 * j" using j by (simp add: unat_word_ariths unat_of_nat)
  with j show ?thesis
    by (simp add: kstack_page_def memlayout_defs mmu_consts unat_sub word_le_nat_alt)
qed

lemma mem_init_mp_space:
  assumes K: "kspace s k ps tb m" and low: "\<And>i. 0xF0000 - 128 \<le> i \<Longrightarrow> i < 0xF0000 \<Longrightarrow> m i = 0"
    and ks: "\<And>c. c < 8 \<Longrightarrow> KERNBASE \<le> kstacks c"
    and room: "card (insert 959 (dom tb)) \<le> length ps + card (dom tb)"
  shows "\<exists>s' ps' tb'. mem_init_mp kstacks k s = Inr s'
    \<and> kspace s' k ps' tb' (with_stacks m (\<lambda>c. kstacks c - KERNBASE) 8)
    \<and> dom tb' = insert 959 (dom tb)
    \<and> length ps' + card (dom tb') = length ps + card (dom tb) \<and> same_globals s s'"
proof -
  let ?pa = "\<lambda>c. kstacks c - KERNBASE"
  let ?I = "\<lambda>j s'. \<exists>ps' tb'. kspace s' k ps' tb' (with_stacks m ?pa j)
    \<and> dom tb' = dom tb \<union> (if j = 0 then {} else {959})
    \<and> length ps' + card (dom tb') = length ps + card (dom tb) \<and> same_globals s s'"
  let ?va = "\<lambda>j. KSTACKTOP - word_of_nat j * (KSTKSIZE + KSTKGAP) - KSTKSIZE"
  let ?step = "\<lambda>s i. chain (PADDR (kstacks i)) (\<lambda>pa.
       boot_map_region None s k (?va i) KSTKSIZE pa (PTE_W OR PTE_P))"
  have sz: "unat KSTKSIZE = 4096 * 8" by (simp add: memlayout_defs mmu_consts)
  have step: "\<exists>s2. ?step s1 j = Inr s2 \<and> ?I (Suc j) s2" if j: "j < NCPU" and I: "?I j s1" for j s1
  proof -
    from I obtain ps1 tb1 where K1: "kspace s1 k ps1 tb1 (with_stacks m ?pa j)"
      and d1: "dom tb1 = dom tb \<union> (if j = 0 then {} else {959})"
      and c1: "length ps1 + card (dom tb1) = length ps + card (dom tb)" and g1: "same_globals s s1" by blast
    have j8: "j < 8" using j by (simp add: NCPU_def)
    have free: "with_stacks m ?pa j (kstack_page j + i) = 0" if "i < 8" for i
    proof -
      have "m (kstack_page j + i) = 0" using kstack_page[OF j8] j8 that by (intro low) simp_all
      moreover have "kstack_page j + i < kstack_page c" if "c < j" for c
        using kstack_page[OF j8] kstack_page[of c] j8 that \<open>i < 8\<close> by simp
      ultimately show ?thesis using with_stacks_outside[of j "kstack_page j + i" m ?pa] by simp
    qed
    have D: "dom tb1 \<union> dirs_of (kstack_page j) 8 = insert 959 (dom tb)"
      using d1 dirs_of_stack[OF j8] by auto
    have rm: "card (dom tb1 \<union> dirs_of (kstack_page j) 8) \<le> length ps1 + card (dom tb1)"
      unfolding D c1 by (rule room)
    have P: "PADDR (kstacks j) = Inr (?pa j)" using ks[OF j8] by (simp add: PADDR_def not_less)
    have top: "kstack_page j + 8 \<le> 2 ^ 20" using kstack_page[OF j8] by simp
    have self: "selfmap \<notin> dirs_of (kstack_page j) 8" using dirs_of_stack[OF j8] by (simp add: selfmap_def)
    from boot_map_region_space[OF K1 kstack_base[OF j8] sz top free self rm, of None "?pa j" "PTE_W OR PTE_P"]
    obtain s2 ps2 tb2 where
      r: "boot_map_region None s1 k (?va j) KSTKSIZE (?pa j) (PTE_W OR PTE_P) = Inr s2"
      and K2: "kspace s2 k ps2 tb2 (with_stacks m ?pa (Suc j))"
      and d2: "dom tb2 = insert 959 (dom tb)" and c2: "length ps2 + card (dom tb2) = length ps1 + card (dom tb1)"
      and g2: "same_globals s1 s2"
      unfolding D with_stacks.simps by blast
    show ?thesis using P r K2 d2 c1 c2 same_globals_trans[OF g1 g2]
      by (intro exI[of _ s2] conjI exI[of _ ps2] exI[of _ tb2]) simp_all
  qed
  have "?I 0 s" using K by (intro exI[of _ ps] exI[of _ tb]) simp
  with run_steps_upt[of NCPU ?I ?step s, OF step] show ?thesis
    by (simp add: mem_init_mp_def NCPU_def)
qed

lemma dirs_of_within:
  assumes "b = 1024 * d" and "0 < n" and "n \<le> 1024"
  shows "dirs_of b n = {d}"
proof -
  have "(b + i) div 1024 = d" if "i < n" for i using assms that by (intro div_nat_eqI) auto
  then have "(\<lambda>i. (b + i) div 1024) ` {..<n} = (\<lambda>_. d) ` {..<n}" by (intro image_cong) simp_all
  moreover have "(\<lambda>_. d) ` {..<n} = {d}" using assms(2) by (auto intro: image_eqI[of _ _ 0])
  ultimately show ?thesis by (simp only: dirs_of_def)
qed

lemma dirs_of_kernbase: "dirs_of 0xF0000 65536 = {960..<1024}"
proof (intro set_eqI iffI)
  fix d assume "d \<in> dirs_of 0xF0000 65536"
  then obtain i where i: "i < 65536" "d = (983040 + i) div 1024" by (auto simp: dirs_of_def)
  then have "983040 + i < 1024 * 1024" "960 * 1024 \<le> 983040 + i" by simp_all
  then have "(983040 + i) div 1024 < 1024" "960 \<le> (983040 + i) div 1024"
    using less_mult_imp_div_less[of "983040 + i" 1024 1024] div_le_mono[of "960 * 1024" "983040 + i" 1024] by simp_all
  then show "d \<in> {960..<1024}" using i by simp
next
  fix d :: nat assume "d \<in> {960..<1024}"
  then have "(d - 960) * 1024 < 65536" "d = (0xF0000 + (d - 960) * 1024) div 1024" by auto
  then show "d \<in> dirs_of 0xF0000 65536" by (auto simp: dirs_of_def image_iff intro!: bexI[of _ "(d - 960) * 1024"])
qed

text \<open>The entries of the finished address space, for arrays of \<open>n1\<close> and \<open>n2\<close> pages.\<close>

definition kernel_entries :: "u32 \<Rightarrow> nat \<Rightarrow> u32 \<Rightarrow> nat \<Rightarrow> (nat \<Rightarrow> u32) \<Rightarrow> nat \<Rightarrow> u32" where
  "kernel_entries ppa n1 epa n2 kpa =
     with_stacks
       (with_region
          (with_region (with_region (\<lambda>_. 0) 0xEF000 n1 ppa (PTE_U OR PTE_P)) 0xEEC00 n2 epa (PTE_U OR PTE_P))
          0xF0000 65536 0 (PTE_W OR PTE_P))
       kpa 8"

definition array_pages :: "u32 \<Rightarrow> nat" where
  "array_pages w = (unat w + 4095) div 4096"

lemma array_pages:
  assumes "0 < unat w" and "unat w \<le> 0x400000"
  shows "unat (ROUNDUP w PGSIZE) = 4096 * array_pages w" "0 < array_pages w" "array_pages w \<le> 1024"
  using assms by (simp_all add: unat_ROUNDUP array_pages_def)

lemma region_addresses:
  "unat UPAGES = 4096 * 0xEF000" "unat UENVS = 4096 * 0xEEC00" "unat KERNBASE = 4096 * 0xF0000"
  "unat (0x10000000 :: u32) = 4096 * 65536"
  by (simp_all add: memlayout_defs mmu_consts)

lemma static_mappings_space:
  assumes K: "kspace s k ps tb (\<lambda>_. 0)" and tb: "dom tb = {958}" and room: "67 \<le> length ps"
    and pages: "KERNBASE \<le> pages" and envs: "KERNBASE \<le> envs" and ks: "\<And>c. c < 8 \<Longrightarrow> KERNBASE \<le> kstacks c"
    and psz: "0 < unat psz" "unat psz \<le> 0x400000" and esz: "0 < unat esz" "unat esz \<le> 0x400000"
  shows "\<exists>s' ps' tb'. static_mappings k pages envs kstacks psz esz s = Inr s'
    \<and> kspace s' k ps' tb' (kernel_entries (pages - KERNBASE) (array_pages psz) (envs - KERNBASE) (array_pages esz)
          (\<lambda>c. kstacks c - KERNBASE))
    \<and> dom tb' = {955, 956} \<union> {958..<1024} \<and> length ps' + 67 = length ps \<and> same_globals s s'"
proof -
  let ?n1 = "array_pages psz" and ?n2 = "array_pages esz"
  let ?p = "pages - KERNBASE" and ?e = "envs - KERNBASE"
  note a1 = array_pages[OF psz] and a2 = array_pages[OF esz]
  have P: "PADDR pages = Inr ?p" "PADDR envs = Inr ?e" using pages envs by (simp_all add: PADDR_def not_less)
  have d1: "dirs_of 0xEF000 ?n1 = {956}" and d2: "dirs_of 0xEEC00 ?n2 = {955}"
    by (rule dirs_of_within; use a1 a2 in simp)+
  let ?m1 = "with_region (\<lambda>_. 0) 0xEF000 ?n1 ?p (PTE_U OR PTE_P)"
  let ?m2 = "with_region ?m1 0xEEC00 ?n2 ?e (PTE_U OR PTE_P)"
  let ?m3 = "with_region ?m2 0xF0000 65536 0 (PTE_W OR PTE_P)"
  have c1: "card (dom tb \<union> dirs_of 0xEF000 ?n1) \<le> length ps + card (dom tb)"
    and s1: "selfmap \<notin> dirs_of 0xEF000 ?n1" and t1: "0xEF000 + ?n1 \<le> 2 ^ 20"
    unfolding d1 tb using room a1 by (simp_all add: selfmap_def)
  obtain u1 ps1 tb1 where r1: "boot_map_region None s k UPAGES (ROUNDUP psz PGSIZE) ?p (PTE_U OR PTE_P) = Inr u1"
    and K1: "kspace u1 k ps1 tb1 ?m1" and D1: "dom tb1 = {956, 958}" and L1: "length ps1 + 1 = length ps"
    and G1: "same_globals s u1"
    using boot_map_region_space[OF K region_addresses(1) a1(1) t1 refl s1 c1, of None ?p "PTE_U OR PTE_P"]
    unfolding d1 tb by auto
  have z1: "?m1 (0xEEC00 + i) = 0" if "i < ?n2" for i using that a2 by (simp add: with_region_def)
  have c2: "card (dom tb1 \<union> dirs_of 0xEEC00 ?n2) \<le> length ps1 + card (dom tb1)"
    and s2: "selfmap \<notin> dirs_of 0xEEC00 ?n2" and t2: "0xEEC00 + ?n2 \<le> 2 ^ 20"
    unfolding d2 D1 using L1 room a2 by (simp_all add: selfmap_def)
  obtain u2 ps2 tb2 where r2: "boot_map_region None u1 k UENVS (ROUNDUP esz PGSIZE) ?e (PTE_U OR PTE_P) = Inr u2"
    and K2: "kspace u2 k ps2 tb2 ?m2" and D2: "dom tb2 = {955, 956, 958}" and L2: "length ps2 + 2 = length ps"
    and G2: "same_globals u1 u2"
    using boot_map_region_space[OF K1 region_addresses(2) a2(1) t2 z1 s2 c2, of None ?e "PTE_U OR PTE_P"] L1
    unfolding d2 D1 by auto
  have z2: "?m2 (0xF0000 + i) = 0" if "i < 65536" for i using that a1 a2 by (simp add: with_region_def)
  have c3: "card (dom tb2 \<union> dirs_of 0xF0000 65536) \<le> length ps2 + card (dom tb2)"
    and s3: "selfmap \<notin> dirs_of 0xF0000 65536"
    unfolding dirs_of_kernbase D2 using L2 room by (simp_all add: selfmap_def)
  have card3: "card ({955, 956, 958 :: nat} \<union> {960..<1024}) = 67" by (subst card_Un_disjoint) auto
  obtain u3 ps3 tb3 where r3: "boot_map_region None u2 k KERNBASE 0x10000000 0 (PTE_W OR PTE_P) = Inr u3"
    and K3: "kspace u3 k ps3 tb3 ?m3" and D3: "dom tb3 = {955, 956, 958} \<union> {960..<1024}"
    and L3: "length ps3 + 67 = length ps2 + 3" and G3: "same_globals u2 u3"
    using boot_map_region_space[OF K2 region_addresses(3,4) _ z2 s3 c3, of None 0 "PTE_W OR PTE_P"] card3
    unfolding dirs_of_kernbase D2 by auto
  have z3: "?m3 i = 0" if "0xF0000 - 128 \<le> i" "i < 0xF0000" for i using that a1 a2 by (simp add: with_region_def)
  have card4: "card (insert 959 ({955, 956, 958 :: nat} \<union> {960..<1024})) = 68" using card3 by simp
  have c4: "card (insert 959 (dom tb3)) \<le> length ps3 + card (dom tb3)"
    unfolding D3 card3 card4 using L2 L3 room by simp
  obtain u4 ps4 tb4 where r4: "mem_init_mp kstacks k u3 = Inr u4"
    and K4: "kspace u4 k ps4 tb4 (with_stacks ?m3 (\<lambda>c. kstacks c - KERNBASE) 8)"
    and D4: "dom tb4 = insert 959 (dom tb3)" and L4: "length ps4 + card (dom tb4) = length ps3 + card (dom tb3)"
    and G4: "same_globals u3 u4"
    using mem_init_mp_space[of u3 k ps3 tb3 ?m3 kstacks, OF K3 z3 ks c4] by blast
  have D: "dom tb4 = {955, 956} \<union> {958..<1024}" unfolding D4 D3 by auto
  have L: "length ps4 + 67 = length ps" using L4 L3 L2 unfolding D4 D3 card3 card4 by simp
  have r: "static_mappings k pages envs kstacks psz esz s = Inr u4"
    using P r1 r2 r3 r4 by (simp add: static_mappings_def)
  have G: "same_globals s u4" using G1 G2 G3 G4 same_globals_trans by blast
  show ?thesis using r K4[folded kernel_entries_def] D L G
    by (intro exI[of _ u4] conjI exI[of _ ps4] exI[of _ tb4])
qed

lemma run_steps_stay: "\<forall>e\<in>set es. step s e = Inr s \<Longrightarrow> run_steps step s es = Inr s"
  by (induction es) simp_all

lemma must_map_range_passes:
  assumes K: "kspace s k ps tb m" and va: "unat va = 4096 * b" and n: "array_pages n = c" "b + c \<le> 2 ^ 20"
    and self: "selfmap \<notin> dirs_of b c"
    and at: "\<And>j. j < c \<Longrightarrow> pa (word_of_nat j * PGSIZE) = Inr (reads_as (m (b + j)))"
  shows "must_map_range k va n pa s = Inr s"
proof -
  have "must_map k (va + word_of_nat j * PGSIZE) (reads_as (m (b + j))) s = Inr s" if j: "j < c" for j
  proof -
    let ?a = "va + word_of_nat j * PGSIZE"
    have a: "unat ?a = 4096 * (b + j)" using page_address[OF va, of j] n j by simp
    have pd: "unat (PDX ?a) = (b + j) div 1024" by (simp add: unat_PDX a div_mult2_eq[of _ 4096 1024, simplified])
    have "(b + j) div 1024 \<in> dirs_of b c" using j by (simp add: dirs_of_def)
    then have "unat (PDX ?a) \<noteq> selfmap" unfolding pd using self by metis
    from kspace_reads[OF K this] show ?thesis by (simp add: must_map_def unat_PGNUM a)
  qed
  then show ?thesis using n at
    by (simp add: must_map_range_def page_steps_def run_steps_map array_pages_def run_steps_stay)
qed

lemma reads_region:
  "PGOFF pa = 0 \<Longrightarrow> flags_ok perm \<Longrightarrow> j < n \<Longrightarrow> reads_as (with_region m b n pa perm (b + j)) = pa + word_of_nat j * PGSIZE"
  by (simp add: with_region_def entry_reads_word PGOFF_page_multiple)

lemma kernel_entries_outside:
  "\<not> (0xF0000 - 128 \<le> i \<and> i < 0xF0000) \<Longrightarrow> kernel_entries ppa n1 epa n2 kpa i =
    with_region (with_region (with_region (\<lambda>_. 0) 0xEF000 n1 ppa (PTE_U OR PTE_P)) 0xEEC00 n2 epa (PTE_U OR PTE_P))
          0xF0000 65536 0 (PTE_W OR PTE_P) i"
  unfolding kernel_entries_def
  by (rule with_stacks_outside) (auto simp: kstack_page_def)

lemma kernel_entries_reads:
  assumes n: "n1 \<le> 1024" "n2 \<le> 1024" and a: "PGOFF ppa = 0" "PGOFF epa = 0"
  shows "j < n1 \<Longrightarrow> reads_as (kernel_entries ppa n1 epa n2 kpa (0xEF000 + j)) = ppa + word_of_nat j * PGSIZE"
    and "j < n2 \<Longrightarrow> reads_as (kernel_entries ppa n1 epa n2 kpa (0xEEC00 + j)) = epa + word_of_nat j * PGSIZE"
    and "j < 65536 \<Longrightarrow> reads_as (kernel_entries ppa n1 epa n2 kpa (0xF0000 + j)) = word_of_nat j * PGSIZE"
proof -
  have f: "flags_ok (PTE_U OR PTE_P)" "flags_ok (PTE_W OR PTE_P)" by (simp_all add: flags_ok_or)
  have skip: "with_region m b n pa p i = m i" if "i < b \<or> b + n \<le> i" for m b n pa p i
    using that by (auto simp: with_region_def)
  show "reads_as (kernel_entries ppa n1 epa n2 kpa (0xEF000 + j)) = ppa + word_of_nat j * PGSIZE" if "j < n1"
    using that n reads_region[OF a(1) f(1) that] by (simp add: kernel_entries_outside skip)
  show "reads_as (kernel_entries ppa n1 epa n2 kpa (0xEEC00 + j)) = epa + word_of_nat j * PGSIZE" if "j < n2"
    using that n reads_region[OF a(2) f(1) that] by (simp add: kernel_entries_outside skip)
  show "reads_as (kernel_entries ppa n1 epa n2 kpa (0xF0000 + j)) = word_of_nat j * PGSIZE" if "j < 65536"
    using reads_region[of 0, OF _ f(2) that] by (simp add: kernel_entries_outside PGOFF_def)
qed

lemma kernel_entries_stacks:
  assumes n: "n1 \<le> 1024" "n2 \<le> 1024" and c: "c < 8" "j < 8" and a: "PGOFF (kpa c) = 0"
  shows "reads_as (kernel_entries ppa n1 epa n2 kpa (kstack_page c + j)) = kpa c + word_of_nat j * PGSIZE"
    and "kernel_entries ppa n1 epa n2 kpa (kstack_page c - 8 + j) = 0"
proof -
  note k = kstack_page[OF c(1)]
  have f: "flags_ok (PTE_W OR PTE_P)" by (simp add: flags_ok_or)
  show "reads_as (kernel_entries ppa n1 epa n2 kpa (kstack_page c + j)) = kpa c + word_of_nat j * PGSIZE"
    unfolding kernel_entries_def with_stacks_inside[OF c(1) order_refl c(2)]
    by (rule entry_reads_word[OF PGOFF_page_multiple[OF a] f])
  have o: "kstack_page c - 8 + j < kstack_page e \<or> kstack_page e + 8 \<le> kstack_page c - 8 + j" if "e < 8" for e
    using k kstack_page[OF that] c by (cases e c rule: linorder_cases) linarith+
  have "0xF0000 - 128 \<le> kstack_page c - 8 + j" "kstack_page c - 8 + j < 0xF0000" using k c by auto
  then show "kernel_entries ppa n1 epa n2 kpa (kstack_page c - 8 + j) = 0"
    unfolding kernel_entries_def using n by (subst with_stacks_outside[OF o]) (auto simp: with_region_def)
qed

lemma array_pages_multiple: "unat w = 4096 * n \<Longrightarrow> array_pages w = n"
  by (simp add: array_pages_def)

lemma check_base:
  assumes "c < 8"
  shows "unat (KSTACKTOP - (KSTKSIZE + KSTKGAP) * (word_of_nat c + 1) + KSTKGAP) = 4096 * kstack_page c"
    and "unat (KSTACKTOP - (KSTKSIZE + KSTKGAP) * (word_of_nat c + 1)) = 4096 * (kstack_page c - 8)"
proof -
  have w: "unat (65536 * (word_of_nat c + 1) :: u32) = 65536 * (c + 1)"
    using assms by (simp add: unat_word_ariths unat_of_nat)
  then have le: "65536 * (word_of_nat c + 1) \<le> (0xF0000000 :: u32)" using assms by (simp add: word_le_nat_alt)
  have s: "KSTKSIZE + KSTKGAP = 65536" "KSTACKTOP = 0xF0000000" by (simp_all add: memlayout_defs mmu_consts)
  have b: "unat (KSTACKTOP - (KSTKSIZE + KSTKGAP) * (word_of_nat c + 1)) = 4026531840 - 65536 * (c + 1)"
    unfolding s unat_sub[OF le] w by simp
  then show "unat (KSTACKTOP - (KSTKSIZE + KSTKGAP) * (word_of_nat c + 1)) = 4096 * (kstack_page c - 8)"
    using assms by (simp add: kstack_page_def)
  have "unat KSTKGAP = 32768" by (simp add: memlayout_defs mmu_consts)
  then show "unat (KSTACKTOP - (KSTKSIZE + KSTKGAP) * (word_of_nat c + 1) + KSTKGAP) = 4096 * kstack_page c"
    using b assms by (subst unat_word_ariths) (simp add: kstack_page_def)
qed

lemma check_kstack_passes:
  assumes K: "kspace s k ps tb (kernel_entries ppa n1 epa n2 (\<lambda>c. kstacks c - KERNBASE))"
    and n: "n1 \<le> 1024" "n2 \<le> 1024" and c: "c < 8" and a: "KERNBASE \<le> kstacks c" "PGOFF (kstacks c - KERNBASE) = 0"
  shows "check_kstack k kstacks s c = Inr s"
proof -
  note kp = kstack_page[OF c]
  let ?m = "kernel_entries ppa n1 epa n2 (\<lambda>c. kstacks c - KERNBASE)"
  have P: "PADDR (kstacks c) = Inr (kstacks c - KERNBASE)" using a(1) by (simp add: PADDR_def not_less)
  have sz: "array_pages KSTKSIZE = 8" "array_pages KSTKGAP = 8"
    by (simp_all add: array_pages_def memlayout_defs mmu_consts)
  have d1: "selfmap \<notin> dirs_of (kstack_page c) 8" using dirs_of_stack[OF c] by (simp add: selfmap_def)
  have d2: "selfmap \<notin> dirs_of (kstack_page c - 8) 8"
  proof -
    have "(kstack_page c - 8 + i) div 1024 = 959" if "i < 8" for i using kp c that by (intro div_nat_eqI) auto
    then show ?thesis by (auto simp: dirs_of_def selfmap_def)
  qed
  have "must_map_range k (KSTACKTOP - (KSTKSIZE + KSTKGAP) * (word_of_nat c + 1) + KSTKGAP) KSTKSIZE
      (\<lambda>i. chain (PADDR (kstacks c)) (\<lambda>p. Inr (p + i))) s = Inr s"
    by (rule must_map_range_passes[OF K check_base(1)[OF c] sz(1) _ d1])
      (use kernel_entries_stacks(1)[OF n c, where kpa = "\<lambda>c. kstacks c - KERNBASE", OF _ a(2)] kp in \<open>simp_all add: P\<close>)
  moreover have "must_map_range k (KSTACKTOP - (KSTKSIZE + KSTKGAP) * (word_of_nat c + 1)) KSTKGAP (\<lambda>_. Inr (NOT 0)) s = Inr s"
    by (rule must_map_range_passes[OF K check_base(2)[OF c] sz(2) _ d2])
      (use kernel_entries_stacks(2)[OF n c, where kpa = "\<lambda>c. kstacks c - KERNBASE", OF _ a(2)] kp in simp_all)
  ultimately show ?thesis by (simp add: check_kstack_def Let_def)
qed

lemma check_pde_passes:
  assumes K: "kspace s k ps tb m" and D: "dom tb = {955, 956} \<union> {958..<1024}" and i: "i < 1024"
  shows "check_pde k s i = Inr s"
proof -
  have idx: "unat (PDX UVPT) = 957" "unat (PDX (KSTACKTOP - 1)) = 959" "unat (PDX UPAGES) = 956"
    "unat (PDX UENVS) = 955" "unat (PDX MMIOBASE) = 958" "unat (PDX KERNBASE) = 960"
    by (simp_all add: unat_PDX memlayout_defs mmu_consts)
  have r: "read_pte s (k, i) = kpde k tb i" using kspaceD(8)[OF K i] by (simp add: read_pte_def pde_at_def)
  have fl: "(page2pa f OR PTE_P OR PTE_W OR PTE_U) AND PTE_P \<noteq> 0"
    "(page2pa f OR PTE_P OR PTE_W OR PTE_U) AND PTE_W \<noteq> 0" for f
    by (simp_all add: bit.conj_disj_distrib2 page2pa_and_flag) (simp_all add: pte_bits)
  have sf: "(page2pa k OR PTE_U OR PTE_P) AND PTE_P \<noteq> 0"
    by (simp add: bit.conj_disj_distrib2 page2pa_and_flag) (simp add: pte_bits)
  have "i \<in> dom tb" if "955 \<le> i" "i \<noteq> 957" unfolding D using i that by auto
  then consider "i < 955" | "i = 957" | f where "tb i = Some f" "955 \<le> i" "i \<noteq> 957"
    unfolding dom_def mem_Collect_eq by (metis not_le not_None_eq)
  then show ?thesis
  proof cases
    case 1
    then have "i \<notin> dom tb" unfolding D by auto
    then have "tb i = None" by (simp add: domIff)
    with 1 show ?thesis by (simp add: check_pde_def Let_def r idx kpde_def selfmap_def)
  next
    case 2
    then have "read_pte s (k, i) = page2pa k OR PTE_U OR PTE_P" using r by (simp add: kpde_def selfmap_def)
    with 2 sf show ?thesis by (simp add: check_pde_def Let_def idx)
  next
    case 3
    then show ?thesis using fl by (simp add: check_pde_def Let_def r idx kpde_def selfmap_def)
  qed
qed

lemma check_kern_pgdir_passes:
  assumes K: "kspace s k ps tb (kernel_entries (pages - KERNBASE) (array_pages psz) (envs - KERNBASE) (array_pages esz)
          (\<lambda>c. kstacks c - KERNBASE))"
    and D: "dom tb = {955, 956} \<union> {958..<1024}"
    and pages: "KERNBASE \<le> pages" "PGOFF (pages - KERNBASE) = 0"
    and envs: "KERNBASE \<le> envs" "PGOFF (envs - KERNBASE) = 0"
    and ks: "\<And>c. c < 8 \<Longrightarrow> KERNBASE \<le> kstacks c \<and> PGOFF (kstacks c - KERNBASE) = 0"
    and psz: "psz = word_of_nat (npages s) * sizeof_PageInfo" "0 < unat psz" "unat psz \<le> 0x400000"
    and esz: "esz = word_of_nat NENV * env_bytes" "0 < unat esz" "unat esz \<le> 0x400000"
    and np: "npages s \<le> 2 ^ 16"
  shows "check_kern_pgdir k pages envs kstacks env_bytes s = Inr s"
proof -
  note a1 = array_pages[OF psz(2,3)] and a2 = array_pages[OF esz(2,3)]
  note R = kernel_entries_reads[OF a1(3) a2(3) pages(2) envs(2), of _ "\<lambda>c. kstacks c - KERNBASE"]
  have P: "PADDR pages = Inr (pages - KERNBASE)" "PADDR envs = Inr (envs - KERNBASE)"
    using pages envs by (simp_all add: PADDR_def not_less)
  have d1: "selfmap \<notin> dirs_of 0xEF000 (array_pages psz)" "selfmap \<notin> dirs_of 0xEEC00 (array_pages esz)"
    using dirs_of_within[OF _ a1(2,3), of "0xEF000" 956] dirs_of_within[OF _ a2(2,3), of "0xEEC00" 955]
    by (simp_all add: selfmap_def)
  have np': "unat (word_of_nat (npages s) * PGSIZE :: u32) = 4096 * npages s"
    using np by (simp add: unat_word_ariths unat_of_nat PGSIZE_def)
  have d3: "selfmap \<notin> dirs_of 0xF0000 (npages s)"
  proof -
    have "dirs_of 0xF0000 (npages s) \<subseteq> dirs_of 0xF0000 65536" using np by (auto simp: dirs_of_def)
    then show ?thesis unfolding dirs_of_kernbase by (auto simp: selfmap_def)
  qed
  have 1: "must_map_range k UPAGES (ROUNDUP psz PGSIZE) (\<lambda>i. chain (PADDR pages) (\<lambda>p. Inr (p + i))) s = Inr s"
    by (rule must_map_range_passes[OF K region_addresses(1) array_pages_multiple[OF a1(1)] _ d1(1)])
      (use R(1) a1(3) in \<open>simp_all add: P\<close>)
  have 2: "must_map_range k UENVS (ROUNDUP esz PGSIZE) (\<lambda>i. chain (PADDR envs) (\<lambda>p. Inr (p + i))) s = Inr s"
    by (rule must_map_range_passes[OF K region_addresses(2) array_pages_multiple[OF a2(1)] _ d1(2)])
      (use R(2) a2(3) in \<open>simp_all add: P\<close>)
  have 3: "must_map_range k KERNBASE (word_of_nat (npages s) * PGSIZE) Inr s = Inr s"
    by (rule must_map_range_passes[OF K region_addresses(3) array_pages_multiple[OF np'] _ d3])
      (use R(3) np in simp_all)
  have 4: "run_steps (check_kstack k kstacks) s [0..<NCPU] = Inr s"
    by (rule run_steps_stay) (use check_kstack_passes[OF K a1(3) a2(3)] ks in \<open>simp add: NCPU_def\<close>)
  have 5: "run_steps (check_pde k) s [0..<1024] = Inr s"
    by (rule run_steps_stay) (use check_pde_passes[OF K D] in simp)
  show ?thesis using 1 2 3 4 5 by (simp add: check_kern_pgdir_def flip: psz(1) esz(1))
qed

lemma static_mappings_pass:
  assumes K: "kspace s k ps tb (\<lambda>_. 0)" and tb: "dom tb = {958}" and room: "67 \<le> length ps"
    and pages: "KERNBASE \<le> pages" "PGOFF (pages - KERNBASE) = 0"
    and envs: "KERNBASE \<le> envs" "PGOFF (envs - KERNBASE) = 0"
    and ks: "\<And>c. c < 8 \<Longrightarrow> KERNBASE \<le> kstacks c \<and> PGOFF (kstacks c - KERNBASE) = 0"
    and np: "0 < npages s" "npages s \<le> 2 ^ 16" and eb: "0 < unat env_bytes" "unat env_bytes \<le> 4096"
  shows "\<exists>s' ps' tb' m. static_mappings k pages envs kstacks (word_of_nat (npages s) * sizeof_PageInfo)
      (word_of_nat NENV * env_bytes) s = Inr s'
    \<and> check_kern_pgdir k pages envs kstacks env_bytes s' = Inr s'
    \<and> kspace s' k ps' tb' m \<and> tb' 0 = None \<and> tb' 1 = None
    \<and> (\<forall>i<955 * 1024. m i = 0) \<and> (\<forall>i<65536. reads_as (m (0xF0000 + i)) = word_of_nat i * PGSIZE)
    \<and> length ps' + 67 = length ps \<and> same_globals s s'"
proof -
  let ?psz = "word_of_nat (npages s) * sizeof_PageInfo" and ?esz = "word_of_nat NENV * env_bytes"
  have psz: "unat ?psz = 8 * npages s"
    using np by (simp add: unat_word_ariths unat_of_nat sizeof_PageInfo_def)
  have esz: "unat ?esz = 1024 * unat env_bytes"
    using eb by (simp add: unat_word_ariths unat_of_nat NENV_def)
  have p: "0 < unat ?psz" "unat ?psz \<le> 0x400000" using psz np by simp_all
  have e: "0 < unat ?esz" "unat ?esz \<le> 0x400000" using esz eb by simp_all
  have ks1: "\<And>c. c < 8 \<Longrightarrow> KERNBASE \<le> kstacks c" using ks by blast
  from static_mappings_space[of s k ps tb pages envs kstacks, OF K tb room pages(1) envs(1) ks1 p e] obtain s' ps' tb' where
    r: "static_mappings k pages envs kstacks ?psz ?esz s = Inr s'"
    and K': "kspace s' k ps' tb' (kernel_entries (pages - KERNBASE) (array_pages ?psz) (envs - KERNBASE)
       (array_pages ?esz) (\<lambda>c. kstacks c - KERNBASE))"
    and D: "dom tb' = {955, 956} \<union> {958..<1024}" and L: "length ps' + 67 = length ps" and G: "same_globals s s'"
    by blast
  have np': "npages s' = npages s" using G by (simp add: same_globals_def)
  have c: "check_kern_pgdir k pages envs kstacks env_bytes s' = Inr s'"
    by (rule check_kern_pgdir_passes[OF K' D pages envs ks _ p refl e]) (use np in \<open>simp_all add: np'\<close>)
  let ?m = "kernel_entries (pages - KERNBASE) (array_pages ?psz) (envs - KERNBASE) (array_pages ?esz) (\<lambda>c. kstacks c - KERNBASE)"
  have low: "\<forall>i<955 * 1024. ?m i = 0"
  proof (intro allI impI)
    fix i :: nat assume "i < 955 * 1024"
    then show "?m i = 0" by (subst kernel_entries_outside) (auto simp: with_region_def)
  qed
  have high: "\<forall>i<65536. reads_as (?m (0xF0000 + i)) = word_of_nat i * PGSIZE"
    using kernel_entries_reads(3)[OF array_pages(3)[OF p] array_pages(3)[OF e] pages(2) envs(2)] by blast
  have "0 \<notin> dom tb'" "1 \<notin> dom tb'" unfolding D by simp_all
  then have tb0: "tb' 0 = None" "tb' 1 = None" by (simp_all add: domIff)
  show ?thesis using r c K' low high tb0 L G
    by (intro exI[of _ s'] exI[of _ ps'] exI[of _ tb'] exI[of _ ?m] conjI)
qed

end
