(* ===== verification/PmapSelf.thy ===== *)
theory PmapSelf
  imports PmapBoot
begin

unbundle bit_operations_syntax

text \<open>
  The self-tests of the page tables, \<^verbatim>\<open>check_page\<close> and \<^verbatim>\<open>check_page_installed_pgdir\<close>, pass, and with
  them \<^verbatim>\<open>mem_init\<close> as a whole returns. The tests run on three pages; the states they go through are two
  families, one with the first page in use as a page table and one without, and a test is computed
  by rewriting within them.
\<close>

section \<open>The states of the tests\<close>

definition test_pages :: "kmem \<Rightarrow> nat \<Rightarrow> nat \<Rightarrow> nat \<Rightarrow> nat \<Rightarrow> bool" where
  "test_pages s k p0 p1 p2 \<longleftrightarrow> npages s \<le> 2 ^ 20 \<and> k < npages s \<and> p0 < npages s \<and> p1 < npages s \<and> p2 < npages s
     \<and> distinct [k, p0, p1, p2] \<and> phys s k 0 = 0 \<and> phys s k 1 = 0"

text \<open>Free list head, links and counts of the three pages, contents of the first page, flushed addresses.\<close>

record tstate =
  t_head :: "nat option"
  t_l0 :: "nat option"
  t_l1 :: "nat option"
  t_l2 :: "nat option"
  t_r0 :: u16
  t_r1 :: u16
  t_r2 :: u16
  t_row :: "nat \<Rightarrow> u32"
  t_flushed :: "u32 list"

definition plain :: "kmem \<Rightarrow> nat \<Rightarrow> nat \<Rightarrow> nat \<Rightarrow> tstate \<Rightarrow> kmem" where
  "plain s p0 p1 p2 t = s\<lparr>pp_link := (pp_link s)(p0 := t_l0 t, p1 := t_l1 t, p2 := t_l2 t),
     pp_ref := (pp_ref s)(p0 := t_r0 t, p1 := t_r1 t, p2 := t_r2 t), page_free_list := t_head t,
     phys := (phys s)(p0 := t_row t), invlpgs := t_flushed t\<rparr>"

definition pde_entry :: "nat \<Rightarrow> u32" where
  "pde_entry p = page2pa p OR PTE_P OR PTE_W OR PTE_U"

definition pte_entry :: "nat \<Rightarrow> u32 \<Rightarrow> u32" where
  "pte_entry p perm = page2pa p OR perm OR PTE_P"

definition tabled :: "kmem \<Rightarrow> nat \<Rightarrow> nat \<Rightarrow> nat \<Rightarrow> nat \<Rightarrow> nat \<Rightarrow> tstate \<Rightarrow> kmem" where
  "tabled s k d p0 p1 p2 t = s\<lparr>pp_link := (pp_link s)(p0 := t_l0 t, p1 := t_l1 t, p2 := t_l2 t),
     pp_ref := (pp_ref s)(p0 := t_r0 t, p1 := t_r1 t, p2 := t_r2 t), page_free_list := t_head t,
     phys := (phys s)(p0 := t_row t, k := (phys s k)(d := pde_entry p0)), invlpgs := t_flushed t\<rparr>"

lemma test_pagesD:
  assumes "test_pages s k p0 p1 p2"
  shows "k < npages s" "p0 < npages s" "p1 < npages s" "p2 < npages s" "p0 < 2 ^ 20" "p1 < 2 ^ 20" "p2 < 2 ^ 20"
    "k \<noteq> p0" "k \<noteq> p1" "k \<noteq> p2" "p0 \<noteq> k" "p1 \<noteq> k" "p2 \<noteq> k" "p0 \<noteq> p1" "p0 \<noteq> p2" "p1 \<noteq> p0" "p1 \<noteq> p2" "p2 \<noteq> p0" "p2 \<noteq> p1"
    "phys s k 0 = 0" "phys s k (Suc 0) = 0"
  using assms by (auto simp: test_pages_def)

lemma pte_entry_simps:
  assumes "p < 2 ^ 20" "flags_ok f"
  shows "pte_entry p f \<noteq> 0" "PTE_ADDR (pte_entry p f) = page2pa p" "reads_as (pte_entry p f) = page2pa p"
    "g AND PTE_P = 0 \<Longrightarrow> flags_ok g \<Longrightarrow> pte_entry p f AND g = f AND g"
    "pte_entry p f AND PTE_P \<noteq> 0"
proof -
  have P: "(f OR PTE_P) AND PTE_P \<noteq> 0" by (simp add: P_odd even_or_iff) (simp add: PTE_P_def)
  show "pte_entry p f \<noteq> 0" unfolding pte_entry_def by (rule page2pa_or_nz[OF P])
  show "PTE_ADDR (pte_entry p f) = page2pa p"
    unfolding pte_entry_def using assms by (intro PTE_ADDR_entry) (simp_all add: flags_ok_or)
  show "reads_as (pte_entry p f) = page2pa p" unfolding pte_entry_def by (rule entry_reads[OF assms])
  show "pte_entry p f AND PTE_P \<noteq> 0" unfolding pte_entry_def by (rule page2pa_P[OF P])
  assume g: "g AND PTE_P = 0" "flags_ok g"
  then show "pte_entry p f AND g = f AND g"
    by (simp add: pte_entry_def bit.conj_disj_distrib2 page2pa_and_flag and.commute[of PTE_P])
qed

lemma pde_entry_simps:
  assumes "p < 2 ^ 20"
  shows "pde_entry p \<noteq> 0" "PTE_ADDR (pde_entry p) = page2pa p" "pde_entry p AND PTE_U \<noteq> 0" "frame_of (pde_entry p) = p"
    "pde_entry p AND PTE_P \<noteq> 0" "pde_entry p AND PTE_PS = 0"
proof -
  show "pde_entry p \<noteq> 0" "frame_of (pde_entry p) = p" "pde_entry p AND PTE_P \<noteq> 0" "pde_entry p AND PTE_PS = 0"
    unfolding pde_entry_def by (rule new_pde[OF assms])+
  show "PTE_ADDR (pde_entry p) = page2pa p"
    unfolding pde_entry_def by (rule PTE_ADDR_entry[OF assms]) (simp add: flags_ok_or)
  show "pde_entry p AND PTE_U \<noteq> 0"
    by (simp add: pde_entry_def bit.conj_disj_distrib2 page2pa_and_flag) (simp add: pte_bits)
qed

section \<open>The operations on them\<close>

lemma plain_sel:
  assumes "test_pages s k p0 p1 p2"
  shows "npages (plain s p0 p1 p2 t) = npages s" "page_free_list (plain s p0 p1 p2 t) = t_head t"
    "pp_link (plain s p0 p1 p2 t) p0 = t_l0 t" "pp_link (plain s p0 p1 p2 t) p1 = t_l1 t" "pp_link (plain s p0 p1 p2 t) p2 = t_l2 t"
    "pp_ref (plain s p0 p1 p2 t) p0 = t_r0 t" "pp_ref (plain s p0 p1 p2 t) p1 = t_r1 t" "pp_ref (plain s p0 p1 p2 t) p2 = t_r2 t"
    "phys (plain s p0 p1 p2 t) p0 = t_row t" "phys (plain s p0 p1 p2 t) k = phys s k"
  using test_pagesD[OF assms] by (simp_all add: plain_def)

lemma tabled_sel:
  assumes "test_pages s k p0 p1 p2"
  shows "npages (tabled s k d p0 p1 p2 t) = npages s" "page_free_list (tabled s k d p0 p1 p2 t) = t_head t"
    "pp_link (tabled s k d p0 p1 p2 t) p0 = t_l0 t" "pp_link (tabled s k d p0 p1 p2 t) p1 = t_l1 t"
    "pp_link (tabled s k d p0 p1 p2 t) p2 = t_l2 t"
    "pp_ref (tabled s k d p0 p1 p2 t) p0 = t_r0 t" "pp_ref (tabled s k d p0 p1 p2 t) p1 = t_r1 t"
    "pp_ref (tabled s k d p0 p1 p2 t) p2 = t_r2 t"
    "phys (tabled s k d p0 p1 p2 t) p0 = t_row t" "phys (tabled s k d p0 p1 p2 t) k = (phys s k)(d := pde_entry p0)"
  using test_pagesD[OF assms] by (simp_all add: plain_def tabled_def)

text \<open>Allocation and release, in both families.\<close>

lemma plain_alloc:
  assumes "test_pages s k p0 p1 p2"
  shows "t_head t = None \<Longrightarrow> page_alloc (plain s p0 p1 p2 t) z = Inr (None, plain s p0 p1 p2 t)"
    "t_head t = Some p0 \<Longrightarrow> page_alloc (plain s p0 p1 p2 t) False
       = Inr (Some p0, plain s p0 p1 p2 (t\<lparr>t_head := t_l0 t, t_l0 := None\<rparr>))"
    "t_head t = Some p1 \<Longrightarrow> page_alloc (plain s p0 p1 p2 t) False
       = Inr (Some p1, plain s p0 p1 p2 (t\<lparr>t_head := t_l1 t, t_l1 := None\<rparr>))"
    "t_head t = Some p2 \<Longrightarrow> page_alloc (plain s p0 p1 p2 t) False
       = Inr (Some p2, plain s p0 p1 p2 (t\<lparr>t_head := t_l2 t, t_l2 := None\<rparr>))"
  using test_pagesD[OF assms]
  by (simp_all add: page_alloc_def plain_sel[OF assms] Let_def) (simp_all add: plain_def fun_upd_twist)

lemma tabled_alloc:
  assumes "test_pages s k p0 p1 p2"
  shows "t_head t = None \<Longrightarrow> page_alloc (tabled s k d p0 p1 p2 t) z = Inr (None, tabled s k d p0 p1 p2 t)"
    "t_head t = Some p1 \<Longrightarrow> page_alloc (tabled s k d p0 p1 p2 t) False
       = Inr (Some p1, tabled s k d p0 p1 p2 (t\<lparr>t_head := t_l1 t, t_l1 := None\<rparr>))"
    "t_head t = Some p2 \<Longrightarrow> page_alloc (tabled s k d p0 p1 p2 t) False
       = Inr (Some p2, tabled s k d p0 p1 p2 (t\<lparr>t_head := t_l2 t, t_l2 := None\<rparr>))"
  using test_pagesD[OF assms]
  by (simp_all add: page_alloc_def tabled_sel[OF assms] Let_def) (simp_all add: tabled_def plain_def fun_upd_twist)

lemma plain_free:
  assumes "test_pages s k p0 p1 p2"
  shows "t_r0 t = 0 \<Longrightarrow> t_l0 t = None \<Longrightarrow> page_free (plain s p0 p1 p2 t) p0
       = Inr (plain s p0 p1 p2 (t\<lparr>t_l0 := t_head t, t_head := Some p0\<rparr>))"
    "t_r1 t = 0 \<Longrightarrow> t_l1 t = None \<Longrightarrow> page_free (plain s p0 p1 p2 t) p1
       = Inr (plain s p0 p1 p2 (t\<lparr>t_l1 := t_head t, t_head := Some p1\<rparr>))"
    "t_r2 t = 0 \<Longrightarrow> t_l2 t = None \<Longrightarrow> page_free (plain s p0 p1 p2 t) p2
       = Inr (plain s p0 p1 p2 (t\<lparr>t_l2 := t_head t, t_head := Some p2\<rparr>))"
  using test_pagesD[OF assms]
  by (simp_all add: page_free_def plain_sel[OF assms]) (simp_all add: plain_def fun_upd_twist)

lemma tabled_free:
  assumes "test_pages s k p0 p1 p2"
  shows "t_r1 t = 0 \<Longrightarrow> t_l1 t = None \<Longrightarrow> page_free (tabled s k d p0 p1 p2 t) p1
       = Inr (tabled s k d p0 p1 p2 (t\<lparr>t_l1 := t_head t, t_head := Some p1\<rparr>))"
    "t_r2 t = 0 \<Longrightarrow> t_l2 t = None \<Longrightarrow> page_free (tabled s k d p0 p1 p2 t) p2
       = Inr (tabled s k d p0 p1 p2 (t\<lparr>t_l2 := t_head t, t_head := Some p2\<rparr>))"
  using test_pagesD[OF assms]
  by (simp_all add: page_free_def tabled_sel[OF assms]) (simp_all add: tabled_def plain_def fun_upd_twist)

text \<open>Reference counts, entries and the TLB with the table in place.\<close>

lemma tabled_set_ref:
  assumes "test_pages s k p0 p1 p2"
  shows "(tabled s k d p0 p1 p2 t)\<lparr>pp_ref := (pp_ref (tabled s k d p0 p1 p2 t))(p0 := v)\<rparr> = tabled s k d p0 p1 p2 (t\<lparr>t_r0 := v\<rparr>)"
    "(tabled s k d p0 p1 p2 t)\<lparr>pp_ref := (pp_ref (tabled s k d p0 p1 p2 t))(p1 := v)\<rparr> = tabled s k d p0 p1 p2 (t\<lparr>t_r1 := v\<rparr>)"
    "(tabled s k d p0 p1 p2 t)\<lparr>pp_ref := (pp_ref (tabled s k d p0 p1 p2 t))(p2 := v)\<rparr> = tabled s k d p0 p1 p2 (t\<lparr>t_r2 := v\<rparr>)"
  using test_pagesD[OF assms] by (auto simp: tabled_def fun_upd_twist intro!: kmem.equality)

lemma tabled_refs:
  assumes "test_pages s k p0 p1 p2"
  shows "incref (tabled s k d p0 p1 p2 t) p1 = tabled s k d p0 p1 p2 (t\<lparr>t_r1 := t_r1 t + 1\<rparr>)"
    "incref (tabled s k d p0 p1 p2 t) p2 = tabled s k d p0 p1 p2 (t\<lparr>t_r2 := t_r2 t + 1\<rparr>)"
    "page_decref (tabled s k d p0 p1 p2 t) p1 =
      (if t_r1 t - 1 = 0 then page_free (tabled s k d p0 p1 p2 (t\<lparr>t_r1 := 0\<rparr>)) p1
       else Inr (tabled s k d p0 p1 p2 (t\<lparr>t_r1 := t_r1 t - 1\<rparr>)))"
    "page_decref (tabled s k d p0 p1 p2 t) p2 =
      (if t_r2 t - 1 = 0 then page_free (tabled s k d p0 p1 p2 (t\<lparr>t_r2 := 0\<rparr>)) p2
       else Inr (tabled s k d p0 p1 p2 (t\<lparr>t_r2 := t_r2 t - 1\<rparr>)))"
  by (simp_all add: page_decref_def incref_def Let_def tabled_sel[OF assms] tabled_set_ref[OF assms])

lemma tabled_memory:
  assumes "test_pages s k p0 p1 p2"
  shows "read_pte (tabled s k d p0 p1 p2 t) (p0, j) = t_row t j"
    "read_pte (tabled s k 0 p0 p1 p2 t) (k, 0) = pde_entry p0"
    "write_pte (tabled s k d p0 p1 p2 t) (p0, j) v = tabled s k d p0 p1 p2 (t\<lparr>t_row := (t_row t)(j := v)\<rparr>)"
    "tlb_invalidate None (tabled s k d p0 p1 p2 t) k va = tabled s k d p0 p1 p2 (t\<lparr>t_flushed := t_flushed t @ [va]\<rparr>)"
    "pa2page (tabled s k d p0 p1 p2 t) (page2pa p1) = Inr p1" "pa2page (tabled s k d p0 p1 p2 t) (page2pa p2) = Inr p2"
    "kframe (tabled s k d p0 p1 p2 t) (page2pa p0) = Inr p0"
  using test_pagesD[OF assms]
  by (simp_all add: read_pte_def tabled_sel[OF assms] pa2page_def PGNUM_page2pa kframe_page2pa)
    (simp_all add: write_pte_def set_cell_def tlb_invalidate_def tabled_def plain_def fun_upd_twist)

text \<open>Walks: the three addresses the tests use below the second table, and the one with index 1 in both.\<close>

lemma test_addresses:
  "unat (PDX 0) = 0" "unat (PTX 0) = 0" "unat (PDX PGSIZE) = 0" "unat (PTX PGSIZE) = Suc 0" "unat (PDX PTSIZE) = Suc 0"
  "unat (PDX (PGSIZE * word_of_nat NPDENTRIES + PGSIZE)) = Suc 0"
  by (simp_all add: unat_PDX unat_PTX mmu_consts)

lemma tabled_walk:
  assumes "test_pages s k p0 p1 p2"
  shows "pgdir_walk (tabled s k 0 p0 p1 p2 t) k 0 c = Inr (tabled s k 0 p0 p1 p2 t, Some (p0, 0))"
    "pgdir_walk (tabled s k 0 p0 p1 p2 t) k PGSIZE c = Inr (tabled s k 0 p0 p1 p2 t, Some (p0, Suc 0))"
    "t_head t = None \<Longrightarrow> pgdir_walk (tabled s k 0 p0 p1 p2 t) k PTSIZE c = Inr (tabled s k 0 p0 p1 p2 t, None)"
  using test_pagesD[OF assms]
  by (simp_all add: pgdir_walk_def test_addresses read_pte_def tabled_sel[OF assms] pde_entry_simps
      kframe_page2pa Let_def tabled_alloc[OF assms])

lemma tabled_check:
  assumes "test_pages s k p0 p1 p2"
  shows "check_va2pa (tabled s k 0 p0 p1 p2 t) k 0 = Inr (reads_as (t_row t 0))"
    "check_va2pa (tabled s k 0 p0 p1 p2 t) k PGSIZE = Inr (reads_as (t_row t (Suc 0)))"
  using test_pagesD[OF assms]
  by (simp_all add: check_va2pa_def test_addresses read_pte_def tabled_sel[OF assms] pde_entry_simps
      kframe_page2pa Let_def reads_as_def)

lemma plain_walk:
  assumes "test_pages s k p0 p1 p2"
  shows "pgdir_walk (plain s p0 p1 p2 t) k 0 False = Inr (plain s p0 p1 p2 t, None)"
    "t_head t = None \<Longrightarrow> pgdir_walk (plain s p0 p1 p2 t) k 0 True = Inr (plain s p0 p1 p2 t, None)"
  using test_pagesD[OF assms]
  by (simp_all add: pgdir_walk_def test_addresses read_pte_def plain_sel[OF assms] Let_def plain_alloc[OF assms])

lemma plain_new_table:
  assumes "test_pages s k p0 p1 p2" and "t_head t = Some p0"
  shows "page_alloc (plain s p0 p1 p2 t) True = Inr (Some p0, plain s p0 p1 p2 (t\<lparr>t_head := t_l0 t, t_l0 := None, t_row := \<lambda>_. 0\<rparr>))"
    and "write_pte (incref (plain s p0 p1 p2 t') p0) (k, d) (page2pa p0 OR PTE_P OR PTE_W OR PTE_U)
       = tabled s k d p0 p1 p2 (t'\<lparr>t_r0 := t_r0 t' + 1\<rparr>)"
proof -
  note D = test_pagesD[OF assms(1)]
  show "page_alloc (plain s p0 p1 p2 t) True = Inr (Some p0, plain s p0 p1 p2 (t\<lparr>t_head := t_l0 t, t_l0 := None, t_row := \<lambda>_. 0\<rparr>))"
    using D assms(2) by (simp add: page_alloc_def plain_sel[OF assms(1)] Let_def kframe_page2pa)
      (auto simp: plain_def zero_page_def fun_upd_twist intro!: kmem.equality)
  show "write_pte (incref (plain s p0 p1 p2 t') p0) (k, d) (page2pa p0 OR PTE_P OR PTE_W OR PTE_U)
       = tabled s k d p0 p1 p2 (t'\<lparr>t_r0 := t_r0 t' + 1\<rparr>)"
    using D by (auto simp: plain_def tabled_def write_pte_def incref_def set_cell_def pde_entry_def fun_upd_twist
        intro!: kmem.equality)
qed

lemma plain_create:
  assumes "test_pages s k p0 p1 p2" and "t_head t = Some p0"
  defines "t' \<equiv> t\<lparr>t_head := t_l0 t, t_l0 := None, t_row := \<lambda>_. 0, t_r0 := t_r0 t + 1\<rparr>"
  shows "pgdir_walk (plain s p0 p1 p2 t) k 0 True = Inr (tabled s k 0 p0 p1 p2 t', Some (p0, 0))"
    "pgdir_walk (plain s p0 p1 p2 t) k PGSIZE True = Inr (tabled s k 0 p0 p1 p2 t', Some (p0, Suc 0))"
    "walk_points k (PGSIZE * word_of_nat NPDENTRIES + PGSIZE) True (plain s p0 p1 p2 t) = Inr (tabled s k (Suc 0) p0 p1 p2 t')"
proof -
  note D = test_pagesD[OF assms(1)]
  note n = plain_new_table[OF assms(1,2)]
  have r: "read_pte (tabled s k d p0 p1 p2 u) (k, d) = pde_entry p0" for d u
    by (simp add: read_pte_def tabled_sel[OF assms(1)])
  have z: "read_pte (plain s p0 p1 p2 t) (k, 0) = 0" "read_pte (plain s p0 p1 p2 t) (k, Suc 0) = 0"
    using D by (simp_all add: read_pte_def plain_sel[OF assms(1)])
  have k: "kframe (tabled s k d p0 p1 p2 u) (page2pa p0) = Inr p0" for d u
    using D by (simp add: kframe_page2pa tabled_sel[OF assms(1)])
  note w = pgdir_walk_def Let_def test_addresses z n r k pde_entry_simps[OF D(5)]
  show "pgdir_walk (plain s p0 p1 p2 t) k 0 True = Inr (tabled s k 0 p0 p1 p2 t', Some (p0, 0))"
    "pgdir_walk (plain s p0 p1 p2 t) k PGSIZE True = Inr (tabled s k 0 p0 p1 p2 t', Some (p0, Suc 0))"
    by (simp_all add: w t'_def)
  show "walk_points k (PGSIZE * word_of_nat NPDENTRIES + PGSIZE) True (plain s p0 p1 p2 t) = Inr (tabled s k (Suc 0) p0 p1 p2 t')"
    by (simp add: walk_points_def w t'_def)
qed

lemma drop_test_table:
  assumes "test_pages s k p0 p1 p2" and "d < 2"
  shows "drop_entry k d p0 (tabled s k d p0 p1 p2 t) = Inr (plain s p0 p1 p2 (t\<lparr>t_r0 := 0\<rparr>))"
proof -
  note D = test_pagesD[OF assms(1)]
  have z: "phys s k d = 0" using assms(2) D by (cases d) (auto simp: less_Suc_eq numeral_2_eq_2)
  have w: "write_pte (tabled s k d p0 p1 p2 t) (k, d) 0 = plain s p0 p1 p2 t"
  proof (rule kmem.equality)
    show "phys (write_pte (tabled s k d p0 p1 p2 t) (k, d) 0) = phys (plain s p0 p1 p2 t)"
      using z D by (auto simp: fun_eq_iff write_pte_def set_cell_app tabled_def plain_def)
  qed (simp_all add: write_pte_def tabled_def plain_def)
  have "(plain s p0 p1 p2 t)\<lparr>pp_ref := (pp_ref (plain s p0 p1 p2 t))(p0 := 0)\<rparr> = plain s p0 p1 p2 (t\<lparr>t_r0 := 0\<rparr>)"
    using D by (intro kmem.equality) (simp_all add: plain_def fun_upd_twist)
  then show ?thesis by (simp add: drop_entry_def w Let_def)
qed

lemma plain_fill:
  assumes "test_pages s k p0 p1 p2"
  shows "fill_page p0 v (plain s p0 p1 p2 t) = Inr (plain s p0 p1 p2 (t\<lparr>t_row := \<lambda>j. if j < 1024 then v else t_row t j\<rparr>))"
  using test_pagesD[OF assms]
  by (simp add: fill_page_def kframe_page2pa plain_sel[OF assms] fill_words_def cong: if_cong)
    (auto simp: plain_def intro!: kmem.equality)

section \<open>\<^verbatim>\<open>check_page\<close>\<close>

lemma test_bits:
  "PTE_P \<noteq> 0" "PTE_W \<noteq> 0" "PTE_U \<noteq> 0" "PTE_W AND PTE_U = 0" "(PTE_W OR PTE_U) AND PTE_U \<noteq> 0" "PTE_U AND PTE_P = 0" "PTE_W AND PTE_P = 0"
  "flags_ok 0" "flags_ok (PTE_W OR PTE_U)"
  by (simp_all add: pte_bits flags_ok_def)

lemma fold_entry: "page2pa p OR perm OR PTE_P = pte_entry p perm" "page2pa p OR PTE_P = pte_entry p 0"
  by (simp_all add: pte_entry_def)

lemmas test_defs = must_hold_def must_insert_def must_not_insert_def must_map_def must_entry_def must_ref_def
  must_alloc_page_def must_fail_def no_page_at_def take_back_def
  page_insert_def page_remove_def page_lookup_def

lemma page_tests_pass:
  assumes v: "test_pages s k p0 p1 p2"
  shows "\<exists>fl. in_order (plain s p0 p1 p2 \<lparr>t_head = None, t_l0 = None, t_l1 = None, t_l2 = None,
        t_r0 = 0, t_r1 = 0, t_r2 = 0, t_row = row, t_flushed = flushed\<rparr>) (page_tests k p0 p1 p2)
    = Inr (plain s p0 p1 p2 \<lparr>t_head = None, t_l0 = None, t_l1 = None, t_l2 = None,
        t_r0 = 0, t_r1 = 0, t_r2 = 0, t_row = \<lambda>_. 0, t_flushed = fl\<rparr>)"
proof -
  note D = test_pagesD[OF v]
  note ops = plain_alloc[OF v] tabled_alloc[OF v] plain_free[OF v] tabled_free[OF v] tabled_refs[OF v]
    tabled_memory[OF v] tabled_walk[OF v] tabled_check[OF v] plain_walk[OF v] plain_create[OF v] plain_fill[OF v]
    tabled_sel[OF v] plain_sel[OF v] drop_test_table[OF v]
  show ?thesis
    by (rule exI[of _ "flushed @ [PGSIZE, PGSIZE, PGSIZE, PGSIZE, 0, PGSIZE, PGSIZE]"])
      (simp add: page_tests_def test_defs must_alloc_def ops D pte_entry_simps[OF D(6)] pte_entry_simps[OF D(7)]
        pde_entry_simps[OF D(5)] test_bits fold_entry E_NO_MEM_def test_addresses walk_points_def[of k PGSIZE])
qed

text \<open>The space is what it was as long as the directory and the tables are.\<close>

lemma kspace_frame:
  assumes K: "kspace s k ps tb m" and r: "page_repr s' qs" and q: "set qs \<subseteq> set ps" and n: "npages s' = npages s"
    and b: "boot_nextfree s' = boot_nextfree s"
    and ph: "\<And>f. f = k \<or> f \<in> ran tb \<Longrightarrow> phys s' f = phys s f"
  shows "kspace s' k qs tb m"
proof -
  note D = kspaceD[OF K]
  have a: "pde_at s' k d = kpde k tb d" if "d < 1024" for d
    using D(8)[OF that] ph[of k] by (simp add: pde_at_def)
  have d: "f < npages s' \<and> f \<noteq> k \<and> f \<notin> set qs" if "tb d = Some f" for d f
    using D(9)[OF that] q n by auto
  have c: "phys s' f t = m (d * 1024 + t)" if "tb d = Some f" "t < 1024" for d f t
    using D(10)[OF that] ph[of f] that(1) by (simp add: ranI)
  have e: "\<forall>p\<in>set qs. usable s' p" using D(12) q by (auto simp: usable_def b)
  show ?thesis unfolding kspace_def using r D(2,3,5,6,11) q n a d c e by auto
qed

lemma kspace_pages:
  assumes "kspace s k ps tb m" and "f \<in> set ps"
  shows "f \<noteq> k" "f \<notin> ran tb"
  using kspaceD(3,9)[OF assms(1)] assms(2) by (auto simp: ran_def)

definition three_free :: "kmem \<Rightarrow> nat \<Rightarrow> nat \<Rightarrow> nat \<Rightarrow> tstate" where
  "three_free s p0 p1 p2 = \<lparr>t_head = pp_link s p2, t_l0 = None, t_l1 = None, t_l2 = None,
     t_r0 = 0, t_r1 = 0, t_r2 = 0, t_row = phys s p0, t_flushed = invlpgs s\<rparr>"

lemma three_allocs:
  assumes r: "page_repr s (p0 # p1 # p2 # ps)"
  shows "\<exists>u1 u2. must_alloc s False = Inr (p0, u1) \<and> must_alloc u1 False = Inr (p1, u2)
    \<and> must_alloc u2 False = Inr (p2, plain s p0 p1 p2 (three_free s p0 p1 p2))"
proof -
  have l: "page_free_list s = Some p0" "pp_link s p0 = Some p1" "pp_link s p1 = Some p2"
    and ne: "p1 \<noteq> p0" "p2 \<noteq> p0" "p2 \<noteq> p1" "p0 \<noteq> p1" "p0 \<noteq> p2" "p1 \<noteq> p2"
    and rf: "pp_ref s p0 = 0" "pp_ref s p1 = 0" "pp_ref s p2 = 0"
    using r by (auto simp: page_repr_def)
  have "s\<lparr>page_free_list := pp_link s p2, pp_link := (pp_link s)(p0 := None, p1 := None, p2 := None)\<rparr>
      = plain s p0 p1 p2 (three_free s p0 p1 p2)"
    using rf by (intro kmem.equality) (auto simp: plain_def three_free_def fun_eq_iff)
  then show ?thesis using l ne by (simp add: must_alloc_popped)
qed

lemma take_three_plain:
  assumes r: "page_repr s (p0 # p1 # p2 # ps)"
  shows "take_three s = Inr (p0, p1, p2, plain s p0 p1 p2 (three_free s p0 p1 p2))"
  using three_allocs[OF r] r by (auto simp: take_three_def page_repr_def)

lemma kspace_test_pages:
  assumes K: "kspace s k (p0 # p1 # p2 # ps) tb m" and tb: "tb 0 = None" "tb 1 = None"
  shows "test_pages s k p0 p1 p2"
proof -
  note D = kspaceD[OF K]
  have "pde_at s k 0 = 0" "pde_at s k 1 = 0"
    using kspace_no_entry[OF K tb(1)] kspace_no_entry[OF K tb(2)] by (simp_all add: selfmap_def)
  then show ?thesis using D(1,2,3,4) by (auto simp: test_pages_def page_repr_def pde_at_def)
qed

lemma check_page_first:
  assumes K: "kspace s k (p0 # p1 # p2 # ps) tb m" and tb: "tb 0 = None" "tb 1 = None"
  shows "\<exists>s'. check_page k s = mmio_tests k s' \<and> kspace s' k (p2 # p1 # p0 # ps) tb m \<and> same_globals s s'"
proof -
  note v = kspace_test_pages[OF K tb]
  note D = test_pagesD[OF v]
  have r: "page_repr s (p0 # p1 # p2 # ps)" by (rule kspaceD(1)[OF K])
  let ?t = "three_free s p0 p1 p2"
  have hide: "(plain s p0 p1 p2 u)\<lparr>page_free_list := h\<rparr> = plain s p0 p1 p2 (u\<lparr>t_head := h\<rparr>)" for u h
    by (simp add: plain_def)
  have fl: "page_free_list (plain s p0 p1 p2 ?t) = pp_link s p2" by (simp add: plain_def three_free_def)
  obtain iv where tests: "in_order (plain s p0 p1 p2 (?t\<lparr>t_head := None\<rparr>)) (page_tests k p0 p1 p2)
    = Inr (plain s p0 p1 p2 \<lparr>t_head = None, t_l0 = None, t_l1 = None, t_l2 = None,
        t_r0 = 0, t_r1 = 0, t_r2 = 0, t_row = \<lambda>_. 0, t_flushed = iv\<rparr>)"
    using page_tests_pass[OF v, of "phys s p0" "invlpgs s"] by (auto simp: three_free_def)
  let ?s' = "plain s p0 p1 p2 \<lparr>t_head = Some p2, t_l0 = pp_link s p2, t_l1 = Some p0, t_l2 = Some p1,
        t_r0 = 0, t_r1 = 0, t_r2 = 0, t_row = \<lambda>_. 0, t_flushed = iv\<rparr>"
  have "check_page k s = mmio_tests k ?s'"
    using take_three_plain[OF r] tests
    by (simp add: check_page_def Let_def fl hide free_three_def plain_free[OF v])
  moreover have "kspace ?s' k (p2 # p1 # p0 # ps) tb m"
  proof (rule kspace_frame[OF K])
    show "page_repr ?s' (p2 # p1 # p0 # ps)"
      using r by (auto simp: page_repr_def plain_def linked_upd)
    show "phys ?s' f = phys s f" if "f = k \<or> f \<in> ran tb" for f
      using that kspace_pages[OF K, of p0] by (auto simp: plain_def)
  qed (auto simp: plain_def)
  moreover have "same_globals s ?s'" by (simp add: same_globals_def plain_def)
  ultimately show ?thesis by blast
qed

section \<open>The test of the device window\<close>

lemma kspace_mapped:
  assumes "kspace s k ps tb m" and "tb (unat (PDX va)) = Some f"
  shows "pgdir_walk s k va c = Inr (s, Some (f, unat (PTX va)))" and "read_pte s (f, unat (PTX va)) = m (unat (PGNUM va))"
  using walk_mapped[OF kspace_entry(2)[OF assms]] kspace_entry(3,4)[OF assms] kspaceD(10)[OF assms PTX_less]
  by (simp_all add: read_pte_def pdx_ptx)

lemma kspace_must:
  assumes "kspace s k ps tb m"
  shows "unat (PDX va) \<noteq> selfmap \<Longrightarrow> must_map k va pa s = assert_that (reads_as (m (unat (PGNUM va))) = pa) s"
    and "tb (unat (PDX va)) = Some f \<Longrightarrow> must_entry k va P s = assert_that (P (m (unat (PGNUM va)))) s"
    and "tb (unat (PDX va)) = Some f \<Longrightarrow> clear_entry k va s = Inr (write_pte s (f, unat (PTX va)) 0)"
  using kspace_reads[OF assms] kspace_mapped[OF assms]
  by (simp_all add: must_map_def must_entry_def clear_entry_def)

lemma kspace_clear:
  assumes "kspace s k ps tb m" and "tb (unat (PDX va)) = Some f"
  shows "kspace (write_pte s (f, unat (PTX va)) 0) k ps tb (m(unat (PGNUM va) := 0))"
  using kspace_write[OF assms PTX_less] by (simp add: pdx_ptx)

abbreviation mmio_perm :: u32 where
  "mmio_perm \<equiv> PTE_W OR PTE_P OR PTE_PCD OR PTE_PWT"

lemma mmio_map_space:
  assumes K: "kspace s k ps tb m" and base: "mmio_base s = base" "unat base = 4096 * b"
    and sz: "unat (ROUNDUP sz PGSIZE) = 4096 * n" and lim: "b + n < 0xEFC00" "0xEF800 \<le> b" "0 < n"
    and free: "\<And>i. i < n \<Longrightarrow> m (b + i) = 0" and room: "tb 958 = None \<Longrightarrow> ps \<noteq> []"
  shows "\<exists>s' ps' tb'. mmio_map_region None k s 0 sz = Inr (base, s')
    \<and> kspace s' k ps' tb' (with_region m b n 0 mmio_perm) \<and> dom tb' = insert 958 (dom tb)
    \<and> length ps' + card (dom tb') = length ps + card (dom tb)
    \<and> npages s' = npages s \<and> boot_nextfree s' = boot_nextfree s \<and> unat (mmio_base s') = 4096 * (b + n)"
proof -
  have d: "dirs_of b n = {958}"
  proof -
    have "(b + i) div 1024 = 958" if "i < n" for i using lim that by (intro div_nat_eqI) auto
    then have "(\<lambda>i. (b + i) div 1024) ` {..<n} = (\<lambda>_. 958) ` {..<n}" by (intro image_cong) simp_all
    moreover have "(\<lambda>_. 958) ` {..<n} = {958}" using lim(3) by (auto intro: image_eqI[of _ _ 0])
    ultimately show ?thesis by (simp only: dirs_of_def)
  qed
  have rm: "card (dom tb \<union> dirs_of b n) \<le> length ps + card (dom tb)"
    using room kspaceD(7)[OF K] by (cases "tb 958") (auto simp: d insert_absorb domI card_insert_if Suc_le_eq)
  have self: "selfmap \<notin> dirs_of b n" by (simp add: d selfmap_def)
  have top: "b + n \<le> 2 ^ 20" using lim by simp
  from boot_map_region_space[OF K base(2) sz top free self rm, of None 0 mmio_perm] obtain s1 ps' tb' where
    r: "boot_map_region None s k base (ROUNDUP sz PGSIZE) 0 mmio_perm = Inr s1"
    and K1: "kspace s1 k ps' tb' (with_region m b n 0 mmio_perm)" and D: "dom tb' = insert 958 (dom tb)"
    and L: "length ps' + card (dom tb') = length ps + card (dom tb)" and G: "same_globals s s1"
    unfolding d by auto
  let ?nb = "base + ROUNDUP sz PGSIZE"
  have nb: "unat ?nb = 4096 * (b + n)" using base(2) sz lim by (simp add: unat_word_ariths)
  have ok: "\<not> ?nb \<ge> MMIOLIM" using nb lim by (simp add: word_le_nat_alt memlayout_defs mmu_consts)
  have "mmio_map_region None k s 0 sz = Inr (base, s1\<lparr>mmio_base := ?nb\<rparr>)"
    using r ok base(1) by (simp add: mmio_map_region_def ROUNDDOWN_def Let_def)
  moreover have "kspace (s1\<lparr>mmio_base := ?nb\<rparr>) k ps' tb' (with_region m b n 0 mmio_perm)"
    using K1 by (rule kspace_frame) (use kspaceD(1)[OF K1] in \<open>simp_all add: page_repr_def\<close>)
  ultimately show ?thesis using D L G nb
    by (intro exI[of _ "s1\<lparr>mmio_base := ?nb\<rparr>"] exI[of _ ps'] exI[of _ tb']) (simp add: same_globals_def)
qed

lemma mmio_tests_pass:
  assumes K: "kspace s k ps tb (\<lambda>_. 0)" and tb: "dom tb = {}" and ps: "ps \<noteq> []" and b: "mmio_base s = MMIOBASE"
  shows "\<exists>s' ps' tb'. mmio_tests k s = Inr s' \<and> kspace s' k ps' tb' (\<lambda>_. 0) \<and> dom tb' = {958}
    \<and> length ps' + 1 = length ps \<and> npages s' = npages s \<and> boot_nextfree s' = boot_nextfree s"
proof -
  have B: "unat MMIOBASE = 4096 * 0xEF800" by (simp add: memlayout_defs mmu_consts)
  have n1: "unat (ROUNDUP 4097 PGSIZE) = 4096 * 2" "unat (ROUNDUP 4096 PGSIZE) = 4096 * 1" by (simp_all add: unat_ROUNDUP)
  obtain s1 ps1 tb1 where r1: "mmio_map_region None k s 0 4097 = Inr (MMIOBASE, s1)"
    and K1: "kspace s1 k ps1 tb1 (with_region (\<lambda>_. 0) 0xEF800 2 0 mmio_perm)" and D1: "dom tb1 = {958}"
    and L1: "length ps1 + 1 = length ps" and g1: "npages s1 = npages s" "boot_nextfree s1 = boot_nextfree s"
    and m1: "unat (mmio_base s1) = 4096 * (0xEF800 + 2)"
    using mmio_map_space[OF K b B n1(1)] ps unfolding tb by auto
  have base2: "mmio_base s1 = MMIOBASE + 2 * PGSIZE"
    using m1 by (simp add: word_unat_eq_iff memlayout_defs mmu_consts)
  have B2: "unat (MMIOBASE + 2 * PGSIZE) = 4096 * 0xEF802" by (simp add: memlayout_defs mmu_consts)
  have z: "with_region (\<lambda>_. 0) 0xEF800 2 0 mmio_perm (0xEF802 + i) = 0" for i by (simp add: with_region_def)
  have t958: "tb1 958 = None \<Longrightarrow> ps1 \<noteq> []" using D1 domIff[of 958 tb1] by simp
  obtain s2 ps2 tb2 where r2: "mmio_map_region None k s1 0 4096 = Inr (MMIOBASE + 2 * PGSIZE, s2)"
    and K2: "kspace s2 k ps2 tb2 (with_region (with_region (\<lambda>_. 0) 0xEF800 2 0 mmio_perm) 0xEF802 1 0 mmio_perm)"
    and D2: "dom tb2 = {958}" and L2: "length ps2 = length ps1"
    and g2: "npages s2 = npages s1" "boot_nextfree s2 = boot_nextfree s1"
    using mmio_map_space[OF K1 base2 B2 n1(2) _ _ _ z t958] unfolding D1 by auto
  let ?m = "with_region (with_region (\<lambda>_. 0) 0xEF800 2 0 mmio_perm) 0xEF802 1 0 mmio_perm"
  let ?a1 = "MMIOBASE" and ?a2 = "MMIOBASE + PGSIZE" and ?a3 = "MMIOBASE + 2 * PGSIZE"
  obtain f where f: "tb2 958 = Some f" using D2 by (auto simp: dom_def)
  have pd: "unat (PDX ?a1) = 958" "unat (PDX ?a2) = 958" "unat (PDX ?a3) = 958" "unat (PDX (?a3 + PGSIZE)) = 958"
    and pn: "unat (PGNUM ?a1) = 0xEF800" "unat (PGNUM ?a2) = 0xEF801" "unat (PGNUM ?a3) = 0xEF802" "unat (PGNUM (?a3 + PGSIZE)) = 0xEF803"
    by (simp_all add: unat_PDX unat_PGNUM memlayout_defs mmu_consts)
  let ?s3 = "write_pte s2 (f, unat (PTX ?a1)) 0"
  have K3: "kspace ?s3 k ps2 tb2 (?m(0xEF800 := 0))" using kspace_clear[OF K2, of ?a1 f] f pd pn by simp
  let ?s4 = "write_pte ?s3 (f, unat (PTX ?a2)) 0"
  have K4: "kspace ?s4 k ps2 tb2 (?m(0xEF800 := 0, 0xEF801 := 0))" using kspace_clear[OF K3, of ?a2 f] f pd pn by simp
  let ?s5 = "write_pte ?s4 (f, unat (PTX ?a3)) 0"
  have K5: "kspace ?s5 k ps2 tb2 (?m(0xEF800 := 0, 0xEF801 := 0, 0xEF802 := 0))"
    using kspace_clear[OF K4, of ?a3 f] f pd pn by simp
  have m0: "?m(0xEF800 := 0, 0xEF801 := 0, 0xEF802 := 0) = (\<lambda>_. 0)" by (auto simp: fun_eq_iff with_region_def)
  have e: "?m 0xEF800 = mmio_perm OR PTE_P" "?m 0xEF801 = PGSIZE OR mmio_perm OR PTE_P"
    "?m 0xEF802 = mmio_perm OR PTE_P" "?m 0xEF803 = 0"
    by (simp_all add: with_region_def)
  have num: "MMIOBASE + 8096 < MMIOLIM" "MMIOBASE \<le> ?a3" "?a3 + 8096 < MMIOLIM" "MMIOBASE mod PGSIZE = 0"
    "?a3 mod PGSIZE = 0" "MMIOBASE + 8096 \<le> ?a3"
    by (simp_all add: memlayout_defs mmu_consts)
  have rd: "reads_as (mmio_perm OR PTE_P) = 0" "reads_as (PGSIZE OR mmio_perm OR PTE_P) = PGSIZE"
    "(mmio_perm OR PTE_P) AND (PTE_W OR PTE_PWT OR PTE_PCD) \<noteq> 0" "(mmio_perm OR PTE_P) AND PTE_U = 0"
    by (simp_all add: reads_as_def PTE_ADDR_def pte_bits mmu_consts)
  have ns: "958 \<noteq> selfmap" by (simp add: selfmap_def)
  have maps: "must_map k ?a1 0 s2 = Inr s2" "must_map k ?a2 PGSIZE s2 = Inr s2" "must_map k ?a3 0 s2 = Inr s2"
    "must_map k (?a3 + PGSIZE) (NOT 0) s2 = Inr s2"
    using kspace_must(1)[OF K2, of ?a1 0] kspace_must(1)[OF K2, of ?a2 PGSIZE] kspace_must(1)[OF K2, of ?a3 0]
      kspace_must(1)[OF K2, of "?a3 + PGSIZE" "NOT 0"]
    by (simp_all only: pd pn e rd ns reads_as_0 assert_that_True not_False_eq_True simp_thms)
  have ents: "must_entry k ?a1 (\<lambda>e. e AND (PTE_W OR PTE_PWT OR PTE_PCD) \<noteq> 0) s2 = Inr s2"
    "must_entry k ?a1 (\<lambda>e. e AND PTE_U = 0) s2 = Inr s2"
    using kspace_must(2)[OF K2, of ?a1 f] f by (simp_all only: pd pn e rd assert_that_True simp_thms)
  have clears: "clear_entry k ?a1 s2 = Inr ?s3" "clear_entry k ?a2 ?s3 = Inr ?s4" "clear_entry k ?a3 ?s4 = Inr ?s5"
    using kspace_must(3)[OF K2, of ?a1 f] kspace_must(3)[OF K3, of ?a2 f] kspace_must(3)[OF K4, of ?a3 f] f
    by (simp_all only: pd)
  have "mmio_tests k s = Inr ?s5"
    unfolding mmio_tests_def r1 r2 chain_Inr prod.case in_order_simps must_hold_def
    by (simp only: num maps ents clears order_refl simp_thms assert_that_True chain_Inr)
  with K5 D2 L1 L2 g1 g2 show ?thesis unfolding m0
    by (intro exI[of _ ?s5] exI[of _ ps2] exI[of _ tb2]) (simp add: write_pte_def)
qed

section \<open>\<^verbatim>\<open>check_page_installed_pgdir\<close>\<close>

text \<open>The second and the third page are filled and written to; this changes the memory below.\<close>

lemma plain_fill_others:
  assumes "test_pages s k p0 p1 p2"
  shows "fill_page p1 v (plain s p0 p1 p2 t) = Inr (plain (fill_words 1024 v s p1) p0 p1 p2 t)"
    "fill_page p2 v (plain s p0 p1 p2 t) = Inr (plain (fill_words 1024 v s p2) p0 p1 p2 t)"
  using test_pagesD[OF assms]
  by (simp_all add: fill_page_def kframe_page2pa plain_sel[OF assms] fill_words_def)
    (auto simp: plain_def fun_eq_iff intro!: kmem.equality)

lemma test_pages_memory:
  assumes "test_pages s k p0 p1 p2" and "f \<noteq> k" and "s' = s\<lparr>phys := (phys s)(f := r)\<rparr>"
  shows "test_pages s' k p0 p1 p2"
  using assms by (simp add: test_pages_def)

lemma tabled_words:
  assumes "test_pages s k p0 p1 p2"
  shows "t_row t (Suc 0) = pte_entry p1 PTE_W \<Longrightarrow>
      must_word k PGSIZE v (tabled s k 0 p0 p1 p2 t) = assert_that (phys s p1 0 = v) (tabled s k 0 p0 p1 p2 t)"
    "t_row t (Suc 0) = pte_entry p2 PTE_W \<Longrightarrow>
      must_word k PGSIZE v (tabled s k 0 p0 p1 p2 t) = assert_that (phys s p2 0 = v) (tabled s k 0 p0 p1 p2 t)"
    "t_row t (Suc 0) = pte_entry p2 PTE_W \<Longrightarrow>
      store_word k PGSIZE v (tabled s k 0 p0 p1 p2 t) = Inr (tabled (write_pte s (p2, 0) v) k 0 p0 p1 p2 t)"
    "kframe (tabled s k 0 p0 p1 p2 t) (page2pa p2) = Inr p2" "phys (tabled s k 0 p0 p1 p2 t) p2 = phys s p2"
proof -
  note D = test_pagesD[OF assms]
  have o: "unat (PGOFF PGSIZE) = 0" by (simp add: unat_PGOFF mmu_consts)
  have W: "pte_entry p PTE_W AND PTE_W \<noteq> 0" if "p < 2 ^ 20" for p
    using pte_entry_simps(4)[OF that, of PTE_W PTE_W] by (simp add: test_bits)
  have w: "kernel_word k PGSIZE b (tabled s k 0 p0 p1 p2 t) = Inr (p, 0)"
    if "t_row t (Suc 0) = pte_entry p PTE_W" "p < 2 ^ 20" for b p
    using that W[OF that(2)] pte_entry_simps[OF that(2), of PTE_W] PGNUM_page2pa[OF that(2)]
    by (simp add: kernel_word_def tabled_walk[OF assms] tabled_memory[OF assms] o)
  have ph: "phys (tabled s k 0 p0 p1 p2 t) p = phys s p" if "p \<noteq> k" "p \<noteq> p0" for p
    using that by (simp add: tabled_def)
  show "t_row t (Suc 0) = pte_entry p1 PTE_W \<Longrightarrow>
      must_word k PGSIZE v (tabled s k 0 p0 p1 p2 t) = assert_that (phys s p1 0 = v) (tabled s k 0 p0 p1 p2 t)"
    using w[of p1] D ph[of p1] by (simp add: must_word_def)
  show "t_row t (Suc 0) = pte_entry p2 PTE_W \<Longrightarrow>
      must_word k PGSIZE v (tabled s k 0 p0 p1 p2 t) = assert_that (phys s p2 0 = v) (tabled s k 0 p0 p1 p2 t)"
    using w[of p2] D ph[of p2] by (simp add: must_word_def)
  have "write_pte (tabled s k 0 p0 p1 p2 t) (p2, 0) v = tabled (write_pte s (p2, 0) v) k 0 p0 p1 p2 t"
    using D by (intro kmem.equality) (auto simp: write_pte_def tabled_def set_cell_def fun_eq_iff)
  then show "t_row t (Suc 0) = pte_entry p2 PTE_W \<Longrightarrow>
      store_word k PGSIZE v (tabled s k 0 p0 p1 p2 t) = Inr (tabled (write_pte s (p2, 0) v) k 0 p0 p1 p2 t)"
    using w[of p2] D by (simp add: store_word_def)
  show "kframe (tabled s k 0 p0 p1 p2 t) (page2pa p2) = Inr p2" "phys (tabled s k 0 p0 p1 p2 t) p2 = phys s p2"
    using D ph[of p2] by (simp_all add: kframe_page2pa tabled_sel[OF assms])
qed

lemma check_page_installed_pgdir_passes:
  assumes K: "kspace s k (p0 # p1 # p2 # ps) tb m" and tb: "tb 0 = None" "tb 1 = None"
  shows "\<exists>s'. check_page_installed_pgdir k s = Inr s' \<and> kspace s' k (p0 # p2 # p1 # ps) tb m \<and> same_globals s s'"
proof -
  note v = kspace_test_pages[OF K tb]
  note D = test_pagesD[OF v]
  have r: "page_repr s (p0 # p1 # p2 # ps)" by (rule kspaceD(1)[OF K])
  obtain u1 u2 where al: "must_alloc s False = Inr (p0, u1)" "must_alloc u1 False = Inr (p1, u2)"
    "must_alloc u2 False = Inr (p2, plain s p0 p1 p2 (three_free s p0 p1 p2))"
    using three_allocs[OF r] by blast
  define s1 where "s1 = fill_words 1024 0x01010101 s p1"
  define s2 where "s2 = fill_words 1024 0x02020202 s1 p2"
  define s3 where "s3 = write_pte s2 (p2, 0) 0x03030303"
  have v1: "test_pages s1 k p0 p1 p2"
    by (rule test_pages_memory[OF v D(12)]) (simp add: s1_def fill_words_def)
  have v2: "test_pages s2 k p0 p1 p2"
    by (rule test_pages_memory[OF v1 D(13)]) (simp add: s2_def fill_words_def)
  have v3: "test_pages s3 k p0 p1 p2"
    by (rule test_pages_memory[OF v2 D(13)]) (simp add: s3_def write_pte_def set_cell_def)
  have w: "phys s2 p1 0 = 0x01010101" "phys s2 p2 0 = 0x02020202" "phys s3 p2 0 = 0x03030303"
    using D by (simp_all add: s1_def s2_def s3_def fill_words_def write_pte_def)
  have fills: "fill_page p1 0x01010101 (plain s p0 p1 p2 t) = Inr (plain s1 p0 p1 p2 t)"
    "fill_page p2 0x02020202 (plain s1 p0 p1 p2 t) = Inr (plain s2 p0 p1 p2 t)" for t
    using plain_fill_others(1)[OF v] plain_fill_others(2)[OF v1] by (simp_all add: s1_def s2_def)
  note ops2 = tabled_free[OF v2] tabled_refs[OF v2] tabled_memory[OF v2] tabled_walk[OF v2]
    plain_create[OF v2] tabled_sel[OF v2] plain_sel[OF v2] tabled_words[OF v2] s3_def[symmetric]
  note ops3 = tabled_free[OF v3] tabled_refs[OF v3] tabled_memory[OF v3] tabled_walk[OF v3] tabled_words(4,5)[OF v3]
    tabled_sel[OF v3] drop_test_table[OF v3] plain_free[OF v3]
  let ?s' = "plain s3 p0 p1 p2 \<lparr>t_head = Some p0, t_l0 = Some p2, t_l1 = pp_link s p2, t_l2 = Some p1,
        t_r0 = 0, t_r1 = 0, t_r2 = 0, t_row = \<lambda>_. 0, t_flushed = invlpgs s @ [PGSIZE, PGSIZE]\<rparr>"
  have z: "(\<lambda>_. 0 :: u32)(Suc 0 := 0) = (\<lambda>_. 0)" by auto
  have "check_page_installed_pgdir k s = Inr ?s'"
    by (simp add: z check_page_installed_pgdir_def al three_free_def plain_free[OF v] fills ops2 ops3 test_defs w D
        pte_entry_simps[OF D(6)] pte_entry_simps[OF D(7)] pde_entry_simps[OF D(5)] test_bits fold_entry)
  moreover have "kspace ?s' k (p0 # p2 # p1 # ps) tb m"
  proof (rule kspace_frame[OF K])
    show "page_repr ?s' (p0 # p2 # p1 # ps)"
      using r by (auto simp: page_repr_def plain_def linked_upd s1_def s2_def s3_def fill_words_def write_pte_def)
    show "phys ?s' f = phys s f" if "f = k \<or> f \<in> ran tb" for f
      using that kspace_pages[OF K, of p0] kspace_pages[OF K, of p1] kspace_pages[OF K, of p2]
      by (auto simp: plain_def s1_def s2_def s3_def fill_words_def write_pte_def set_cell_def)
  qed (auto simp: plain_def s1_def s2_def s3_def fill_words_def write_pte_def)
  moreover have "same_globals s ?s'"
    by (simp add: same_globals_def plain_def s1_def s2_def s3_def fill_words_def write_pte_def)
  ultimately show ?thesis by blast
qed

end
