(* ===== verification/PmapInit.thy ===== *)
theory PmapInit
  imports PmapSelf
begin

unbundle bit_operations_syntax

text \<open>
  \<^verbatim>\<open>mem_init\<close> as a whole: with enough memory it returns, so that no assertion of its checks and no
  panic of the functions it calls is reached, and the address space it leaves is the documented one.
\<close>

section \<open>The boot allocator\<close>

lemma boot_alloc_pages:
  assumes nf: "boot_nextfree s = nf \<and> nf \<noteq> 0 \<or> boot_nextfree s = 0 \<and> ROUNDUP kend PGSIZE = nf"
    and a: "unat nf = unat KERNBASE + 4096 * a" and lim: "a + array_pages n < npages s" "npages s \<le> 2 ^ 16"
  shows "\<exists>nf'. boot_alloc kend s n = Inr (nf, s\<lparr>boot_nextfree := nf'\<rparr>)
    \<and> unat nf' = unat KERNBASE + 4096 * (a + array_pages n)"
proof -
  have up: "unat n + 4095 < 4096 * (array_pages n + 1)" "unat n \<le> 4096 * array_pages n"
    by (simp_all add: array_pages_def)
  have n: "4096 * a + unat n < 4096 * npages s" "4096 * a + unat n + 4095 < 4096 * npages s" "npages s \<le> 2 ^ 16"
    using up lim by linarith+
  have KB: "unat KERNBASE = 4026531840" by (simp add: memlayout_defs)
  have e: "unat (nf + n) = unat KERNBASE + 4096 * a + unat n"
    using a n by (simp add: unat_word_ariths KB)
  then have ge: "KERNBASE \<le> nf + n" by (simp add: word_le_nat_alt)
  then have l: "unat (nf + n - KERNBASE) = 4096 * a + unat n" using e by (simp add: unat_sub)
  have np: "unat (PGSIZE * word_of_nat (npages s) :: u32) = 4096 * npages s"
    using n(3) by (simp add: PGSIZE_def unat_word_ariths unat_of_nat)
  have ok: "\<not> nf + n - KERNBASE \<ge> PGSIZE * word_of_nat (npages s)" using l np n(1) by (simp add: word_le_nat_alt)
  have k: "unat (PGNUM (nf + n - KERNBASE)) < npages s"
    using l n(1) by (simp add: unat_PGNUM less_mult_imp_div_less mult.commute)
  have nx: "(if boot_nextfree s = 0 then ROUNDUP kend PGSIZE else boot_nextfree s) = nf" using nf by auto
  have "boot_alloc kend s n = Inr (nf, s\<lparr>boot_nextfree := ROUNDUP (nf + n) PGSIZE\<rparr>)"
    unfolding boot_alloc_def nx Let_def using ge ok k by (simp add: PADDR_def KADDR_def not_less not_le)
  moreover have "unat (ROUNDUP (nf + n) PGSIZE) = unat KERNBASE + 4096 * (a + array_pages n)"
  proof -
    have "4026535935 + (4096 * a + unat n) < 4294967296" using n by simp
    moreover have "(4026535935 + (4096 * a + unat n)) div 4096 = 983040 + a + (unat n + 4095) div 4096" by simp
    ultimately show ?thesis by (simp add: unat_ROUNDUP e KB array_pages_def)
  qed
  ultimately show ?thesis by blast
qed

section \<open>The arrays and the free list\<close>

lemma unat_array_sizes:
  fixes env_bytes :: u32
  assumes "N \<le> 2 ^ 16" and "unat env_bytes \<le> 4096"
  shows "unat (word_of_nat N * sizeof_PageInfo) = 8 * N" "unat (word_of_nat NENV * env_bytes) = 1024 * unat env_bytes"
  using assms by (simp_all add: unat_word_ariths unat_of_nat sizeof_PageInfo_def NENV_def)

text \<open>\<open>boot_pages N eb\<close>: the pages taken by the directory, the array of pages and the array of environments.\<close>

definition boot_pages :: "nat \<Rightarrow> u32 \<Rightarrow> nat" where
  "boot_pages N env_bytes = 1 + array_pages (word_of_nat N * sizeof_PageInfo) + array_pages (word_of_nat NENV * env_bytes)"

lemma page_address_of:
  assumes "unat w = unat KERNBASE + 4096 * a"
  shows "KERNBASE \<le> w" "w - KERNBASE = page2pa a" "unat (PGNUM (w - KERNBASE)) = a" "PGOFF (w - KERNBASE) = 0" "w \<noteq> 0"
proof -
  show ge: "KERNBASE \<le> w" using assms by (simp add: word_le_nat_alt)
  then have u: "unat (w - KERNBASE) = 4096 * a" using assms by (simp add: unat_sub)
  have "a < 2 ^ 20" using assms unat_u32_less[of w] by simp
  with u show "w - KERNBASE = page2pa a" by (simp add: word_unat_eq_iff unat_page2pa)
  show "unat (PGNUM (w - KERNBASE)) = a" using u by (simp add: unat_PGNUM)
  have "unat (PGOFF (w - KERNBASE)) = 0" using u by (simp add: unat_PGOFF)
  then show "PGOFF (w - KERNBASE) = 0" by (simp add: unat_eq_zero)
  show "w \<noteq> 0" using assms by (auto simp: memlayout_defs)
qed

lemma mem_init_arrays_returns:
  assumes s: "boot_nextfree s = 0" and a: "unat (ROUNDUP kend PGSIZE) = unat KERNBASE + 4096 * a"
    and lim: "a + boot_pages (npages s) env_bytes < npages s" "npages s \<le> 2 ^ 16" and eb: "unat env_bytes \<le> 4096"
  shows "\<exists>pages envs nf. mem_init_arrays kend env_bytes s
      = Inr (a, pages, envs, (write_pte (zero_page s a) (a, selfmap) (page2pa a OR PTE_U OR PTE_P))
          \<lparr>pp_link := (\<lambda>_. None), pp_ref := (\<lambda>_. 0), boot_nextfree := nf\<rparr>)
    \<and> KERNBASE \<le> pages \<and> PGOFF (pages - KERNBASE) = 0 \<and> KERNBASE \<le> envs \<and> PGOFF (envs - KERNBASE) = 0
    \<and> unat nf = unat KERNBASE + 4096 * (a + boot_pages (npages s) env_bytes)"
proof -
  let ?n1 = "array_pages (word_of_nat (npages s) * sizeof_PageInfo)" and ?n2 = "array_pages (word_of_nat NENV * env_bytes)"
  have one: "array_pages PGSIZE = 1" by (simp add: array_pages_def mmu_consts)
  have l: "a + 1 + ?n1 + ?n2 < npages s" using lim(1) by (simp add: boot_pages_def)
  have x: "unat (PDX UVPT) = selfmap" by (simp add: selfmap_def unat_PDX memlayout_defs mmu_consts)
  let ?kd = "ROUNDUP kend PGSIZE"
  note kd = page_address_of[OF a]
  obtain nf1 where b1: "boot_alloc kend s PGSIZE = Inr (?kd, s\<lparr>boot_nextfree := nf1\<rparr>)"
    and n1: "unat nf1 = unat KERNBASE + 4096 * (a + 1)"
    using boot_alloc_pages[of s ?kd kend a PGSIZE] s a l lim(2) by (auto simp: one)
  let ?s2 = "write_pte (zero_page (s\<lparr>boot_nextfree := nf1\<rparr>) a) (a, selfmap) (page2pa a OR PTE_U OR PTE_P)"
  have s2: "npages ?s2 = npages s" "boot_nextfree ?s2 = nf1" by (simp_all add: write_pte_def zero_page_def)
  obtain nf2 where b2: "boot_alloc kend ?s2 (word_of_nat (npages s) * sizeof_PageInfo) = Inr (nf1, ?s2\<lparr>boot_nextfree := nf2\<rparr>)"
    and n2: "unat nf2 = unat KERNBASE + 4096 * (a + 1 + ?n1)"
    using boot_alloc_pages[of ?s2 nf1 kend "a + 1" "word_of_nat (npages s) * sizeof_PageInfo"]
      page_address_of(5)[OF n1] n1 l lim(2) s2 by auto
  let ?s4 = "?s2\<lparr>boot_nextfree := nf2, pp_link := (\<lambda>_. None), pp_ref := (\<lambda>_. 0)\<rparr>"
  obtain nf3 where b3: "boot_alloc kend ?s4 (word_of_nat NENV * env_bytes) = Inr (nf2, ?s4\<lparr>boot_nextfree := nf3\<rparr>)"
    and n3: "unat nf3 = unat KERNBASE + 4096 * (a + 1 + ?n1 + ?n2)"
    using boot_alloc_pages[of ?s4 nf2 kend "a + 1 + ?n1" "word_of_nat NENV * env_bytes"]
      page_address_of(5)[OF n2] n2 l lim(2) s2 by auto
  have e: "?s4\<lparr>boot_nextfree := nf3\<rparr> = (write_pte (zero_page s a) (a, selfmap) (page2pa a OR PTE_U OR PTE_P))
          \<lparr>pp_link := (\<lambda>_. None), pp_ref := (\<lambda>_. 0), boot_nextfree := nf3\<rparr>"
    by (rule kmem.equality) (simp_all add: write_pte_def zero_page_def)
  have P: "PADDR ?kd = Inr (page2pa a)" using kd(1,2) by (simp add: PADDR_def not_less)
  have pg: "unat (PGNUM (page2pa a)) = a" using kd(2,3) by simp
  have "mem_init_arrays kend env_bytes s = Inr (a, nf1, nf2, ?s4\<lparr>boot_nextfree := nf3\<rparr>)"
    unfolding mem_init_arrays_def b1 chain_Inr prod.case P Let_def pg x s2(1) b2 b3 by simp
  with n3 page_address_of[OF n1] page_address_of[OF n2] show ?thesis unfolding e
    by (intro exI[of _ nf1] exI[of _ nf2] exI[of _ nf3] conjI) (simp_all add: boot_pages_def)
qed

lemma page_init_mmio: "page_init kend s = Inr s' \<Longrightarrow> mmio_base s' = mmio_base s"
proof -
  have step: "mmio_base s2 = mmio_base s1" if "page_init_step kend s1 i = Inr s2" for s1 i s2
    using that by (auto simp: page_init_step_def boot_alloc_def Let_def chain_eq_Inr split: if_splits)
  have "run_steps (page_init_step kend) s is' = Inr s' \<Longrightarrow> mmio_base s' = mmio_base s" for is'
    by (induction is' arbitrary: s) (auto simp: chain_eq_Inr dest: step)
  then show "page_init kend s = Inr s' \<Longrightarrow> mmio_base s' = mmio_base s" by (simp add: page_init_def)
qed

text \<open>The directory with the map of itself only, over the list that \<^verbatim>\<open>page_init\<close> builds.\<close>

lemma first_space:
  assumes r: "page_repr s ps" and k: "k < npages s" "k \<notin> set ps" and us: "\<forall>p\<in>set ps. usable s p"
    and ph: "phys s k = (\<lambda>_. 0)(selfmap := page2pa k OR PTE_U OR PTE_P)"
  shows "kspace s k ps Map.empty (\<lambda>_. 0)"
  using assms by (auto simp: kspace_def pde_at_def kpde_def)

lemma boot_free_list:
  assumes "256 \<le> n0" "n0 < N"
  shows "length (filter (\<lambda>i. i \<noteq> 0 \<and> i \<noteq> 7 \<and> \<not> (160 \<le> i \<and> i < n0)) [0..<N]) = 158 + (N - n0)"
proof -
  let ?P = "\<lambda>i. i \<noteq> 0 \<and> i \<noteq> 7 \<and> \<not> (160 \<le> i \<and> i < n0)"
  have "{i. i < N \<and> ?P i} = ({1..<7} \<union> {8..<160}) \<union> {n0..<N}" using assms by auto
  moreover have "card (({1..<7} \<union> {8..<160}) \<union> {n0..<N}) = 158 + (N - n0)"
    using assms(1) by (subst card_Un_disjoint) (auto simp: card_Un_disjoint)
  moreover have "length (filter ?P [0..<N]) = card {i. i < N \<and> ?P i}"
    by (simp add: length_filter_conv_card cong: conj_cong)
  ultimately show ?thesis by simp
qed

text \<open>A list of usable pages that lacks at most 68 of those free at the start has pages of both kinds.\<close>

lemma both_kinds:
  assumes K: "kspace s k ps tb m" and n0: "256 < n0" "unat (PGNUM (boot_nextfree s - KERNBASE)) = n0"
    and len: "length ps + 68 = 158 + (npages s - n0)" and N: "n0 + 69 \<le> npages s"
  shows "(\<exists>lo\<in>set ps. lo < 256) \<and> (\<exists>hi\<in>set ps. 256 \<le> hi)"
proof -
  have d: "distinct ps" and lt: "\<forall>p\<in>set ps. p < npages s" using kspaceD(1)[OF K] by (auto simp: page_repr_def)
  have us: "\<forall>p\<in>set ps. p < 160 \<or> n0 \<le> p"
    using kspaceD(12)[OF K] n0 by (auto simp: usable_def boot_free_def)
  have c: "card (set ps) = length ps" by (rule distinct_card[OF d])
  have "\<not> set ps \<subseteq> {n0..<npages s}"
  proof
    assume "set ps \<subseteq> {n0..<npages s}"
    then have "card (set ps) \<le> npages s - n0" using card_mono[of "{n0..<npages s}" "set ps"] by simp
    with c len show False by simp
  qed
  moreover have "\<not> set ps \<subseteq> {..<160}"
  proof
    assume "set ps \<subseteq> {..<160}"
    then have "set ps \<subseteq> {..<160} - {0, 7}"
      using kspaceD(12)[OF K] by (auto simp: usable_def boot_free_def)
    then have "card (set ps) \<le> card ({..<160} - {0, 7 :: nat})" by (intro card_mono) auto
    also have "\<dots> = 158" by simp
    finally show False using c len N by simp
  qed
  ultimately obtain lo hi where h: "lo \<in> set ps" "lo \<notin> {n0..<npages s}" "hi \<in> set ps" "hi \<notin> {..<160}" by blast
  then have "lo < 160" "n0 \<le> hi" using us lt by auto
  with h n0 show ?thesis by (intro conjI bexI[of _ lo] bexI[of _ hi]) auto
qed

section \<open>\<^verbatim>\<open>mem_init\<close> returns\<close>

text \<open>From the arrays to the list that has passed the first check.\<close>

lemma first_checks:
  assumes s: "page_free_list s = None" "boot_nextfree s = nf" "npages s = N" "N \<le> 2 ^ 16" "mmio_base s = MMIOBASE"
    and nf: "unat nf = unat KERNBASE + 4096 * n0" "n0 + 69 \<le> N" and k: "256 \<le> k" "k < n0"
    and ph: "phys s k = (\<lambda>_. 0)(selfmap := page2pa k OR PTE_U OR PTE_P)"
  shows "\<exists>s1 s2 ps. page_init kend s = Inr s1 \<and> check_page_free_list kend s1 True = Inr s2
    \<and> kspace s2 k ps Map.empty (\<lambda>_. 0) \<and> length ps = 158 + (N - n0)
    \<and> npages s2 = N \<and> boot_nextfree s2 = nf \<and> mmio_base s2 = MMIOBASE"
proof -
  note w = page_address_of[OF nf(1)]
  have lim: "nf - KERNBASE < PGSIZE * word_of_nat (npages s)"
  proof -
    have "unat (PGSIZE * word_of_nat (npages s) :: u32) = 4096 * N"
      using s(3,4) by (simp add: PGSIZE_def unat_word_ariths unat_of_nat)
    moreover have "unat (nf - KERNBASE) = 4096 * n0" using nf(1) w(1) by (simp add: unat_sub)
    ultimately show ?thesis using nf(2) by (simp add: word_less_nat_alt)
  qed
  have al: "unat nf mod 4096 = 0" using nf(1) by (simp add: memlayout_defs)
  have c: "npages s \<le> 2 ^ 16" "256 \<le> unat (PGNUM (nf - KERNBASE))" using s k w(3) by simp_all
  obtain s1 where s1: "page_init kend s = Inr s1" "init_repr s nf (npages s) s1"
    using page_init_repr[OF s(1,2) w(5,1) al lim c] by blast
  let ?L = "rev (filter (boot_free nf) [0..<N])"
  let ?L1 = "filter (\<lambda>p. p < 1024) ?L @ filter (\<lambda>p. 1024 \<le> p) ?L"
  have r: "page_repr s1 ?L" using s1(2) s(3,4) by (auto simp: init_repr_def page_repr_def)
  have n1: "npages s1 = N" "boot_nextfree s1 = nf" "phys s1 = phys s" using s1(2) s by (simp_all add: init_repr_def)
  have mm: "mmio_base s1 = MMIOBASE" using page_init_mmio[OF s1(1)] s(5) by simp
  have mem: "p \<in> set ?L \<longleftrightarrow> p < N \<and> boot_free nf p" for p by auto
  have ok: "\<forall>p\<in>set ?L. boot_free nf p \<and> p \<noteq> 256" using k w(3) by (auto simp: boot_free_def)
  have lo: "1 \<in> set ?L" and hi: "n0 \<in> set ?L" using nf(2) k w(3) by (auto simp: mem boot_free_def)
  have k3: "1 < (256 :: nat)" "256 \<le> n0" using k by simp_all
  obtain s2 where s2: "check_page_free_list kend s1 True = Inr s2" "page_repr s2 ?L1"
    "npages s2 = npages s1" "boot_nextfree s2 = boot_nextfree s1" "mmio_base s2 = mmio_base s1"
    "\<forall>f. f \<notin> set ?L \<longrightarrow> phys s2 f = phys s1 f"
    using check_page_free_list_passes[OF r ok lo k3(1) hi k3(2) n1(2) w(5,1) al, of kend True] lim s(3,4) n1(1) by auto
  have kn: "k \<notin> set ?L" using k w(3) by (auto simp: mem boot_free_def)
  have "kspace s2 k ?L1 Map.empty (\<lambda>_. 0)"
  proof (rule first_space[OF s2(2)])
    show "k < npages s2" "k \<notin> set ?L1" using s2(3) n1(1) k nf(2) kn by simp_all
    show "\<forall>p\<in>set ?L1. usable s2 p" using ok s2(4) n1(2) by (auto simp: usable_def boot_consts)
    show "phys s2 k = (\<lambda>_. 0)(selfmap := page2pa k OR PTE_U OR PTE_P)" using s2(6) kn n1(3) ph by simp
  qed
  moreover have "length ?L1 = 158 + (N - n0)"
  proof -
    have "boot_free nf = (\<lambda>i. i \<noteq> 0 \<and> i \<noteq> 7 \<and> \<not> (160 \<le> i \<and> i < n0))"
      using k w(3) by (auto simp: boot_free_def fun_eq_iff)
    then have "length ?L = 158 + (N - n0)" using boot_free_list[of n0 N] k nf(2) by simp
    moreover have "length ?L1 = length ?L"
      using sum_length_filter_compl[of "\<lambda>p. p < 1024" ?L] by (simp add: not_less)
    ultimately show ?thesis by simp
  qed
  ultimately show ?thesis using s1(1) s2 n1 mm by (intro exI[of _ s1] exI[of _ s2] exI[of _ ?L1]) simp
qed

text \<open>The tests of the allocator and of the page tables use up one page, for the table of the device
  window.\<close>

lemma middle_checks:
  assumes K: "kspace s k ps Map.empty (\<lambda>_. 0)" and l: "3 \<le> length ps" and m: "mmio_base s = MMIOBASE"
    and N: "npages s \<le> 2 ^ 16" and pages: "pages \<noteq> 0"
  shows "\<exists>s1 s2 qs tb. check_page_alloc pages s = Inr s1 \<and> check_page k s1 = Inr s2
    \<and> kspace s2 k qs tb (\<lambda>_. 0) \<and> dom tb = {958} \<and> length qs + 1 = length ps
    \<and> npages s2 = npages s \<and> boot_nextfree s2 = boot_nextfree s"
proof -
  from l obtain p0 p1 p2 rs where ps: "ps = p0 # p1 # p2 # rs"
    by (metis (no_types, lifting) Suc_le_length_iff numeral_3_eq_3)
  have r: "page_repr s (p0 # p1 # p2 # rs)" using kspaceD(1)[OF K] ps by simp
  have N20: "npages s < 2 ^ 20" using N by simp
  let ?s1 = "zero_page s p2"
  have a: "check_page_alloc pages s = Inr ?s1" by (rule alloc_check[OF r N20 pages])
  have K1: "kspace ?s1 k (p0 # p1 # p2 # rs) Map.empty (\<lambda>_. 0)"
  proof (rule kspace_frame[OF K])
    show "page_repr ?s1 (p0 # p1 # p2 # rs)" using r by (simp add: page_repr_def zero_page_def)
    show "phys ?s1 f = phys s f" if "f = k \<or> f \<in> ran Map.empty" for f
      using that kspace_pages[OF K, of p2] ps by (auto simp: zero_page_def)
  qed (use ps in \<open>auto simp: zero_page_def\<close>)
  obtain s2 where c: "check_page k ?s1 = mmio_tests k s2" "kspace s2 k (p2 # p1 # p0 # rs) Map.empty (\<lambda>_. 0)"
    "same_globals ?s1 s2"
    using check_page_first[OF K1] by auto
  have m2: "mmio_base s2 = MMIOBASE" using c(3) m by (simp add: same_globals_def zero_page_def)
  obtain s3 qs tb where d: "mmio_tests k s2 = Inr s3" "kspace s3 k qs tb (\<lambda>_. 0)" "dom tb = {958}"
    "length qs + 1 = length (p2 # p1 # p0 # rs)" "npages s3 = npages s2" "boot_nextfree s3 = boot_nextfree s2"
    using mmio_tests_pass[OF c(2) _ _ m2] by auto
  show ?thesis using a c d ps
    by (intro exI[of _ ?s1] exI[of _ s3] exI[of _ qs] exI[of _ tb]) (simp add: same_globals_def zero_page_def)
qed

text \<open>The last two checks.\<close>

lemma last_checks:
  assumes K: "kspace s k ps tb m" and tb: "tb 0 = None" "tb 1 = None"
    and nf: "boot_nextfree s = nf" "unat nf = unat KERNBASE + 4096 * n0" and n0: "256 < n0" "n0 + 69 \<le> npages s"
    and N: "npages s \<le> 2 ^ 16" and len: "length ps + 68 = 158 + (npages s - n0)"
  shows "\<exists>s1 s2 qs. check_page_free_list kend s False = Inr s1 \<and> check_page_installed_pgdir k s1 = Inr s2
    \<and> kspace s2 k qs tb m \<and> npages s2 = npages s"
proof -
  note w = page_address_of[OF nf(2)]
  have r: "page_repr s ps" by (rule kspaceD(1)[OF K])
  have us: "\<forall>p\<in>set ps. boot_free nf p \<and> p \<noteq> 256"
    using kspaceD(12)[OF K] nf(1) by (simp add: usable_def boot_consts)
  have n0': "unat (PGNUM (boot_nextfree s - KERNBASE)) = n0" using nf(1) w(3) by simp
  obtain lo hi where b: "lo \<in> set ps" "lo < 256" "hi \<in> set ps" "256 \<le> hi"
    using both_kinds[OF K n0(1) n0' len n0(2)] by blast
  have lim: "nf - KERNBASE < PGSIZE * word_of_nat (npages s)"
  proof -
    have "unat (PGSIZE * word_of_nat (npages s) :: u32) = 4096 * npages s"
      using N by (simp add: PGSIZE_def unat_word_ariths unat_of_nat)
    moreover have "unat (nf - KERNBASE) = 4096 * n0" using nf(2) w(1) by (simp add: unat_sub)
    ultimately show ?thesis using n0(2) by (simp add: word_less_nat_alt)
  qed
  have al: "unat nf mod 4096 = 0" using nf(2) by (simp add: memlayout_defs)
  obtain s1 where s1: "check_page_free_list kend s False = Inr s1" "page_repr s1 ps" "npages s1 = npages s"
    "boot_nextfree s1 = boot_nextfree s" "\<forall>f. f \<notin> set ps \<longrightarrow> phys s1 f = phys s f"
    using check_page_free_list_passes[OF r us b nf(1) w(5,1) al lim N, of kend False] by auto
  have K1: "kspace s1 k ps tb m"
  proof (rule kspace_frame[OF K s1(2) _ s1(3,4)])
    show "phys s1 f = phys s f" if "f = k \<or> f \<in> ran tb" for f
      using that s1(5) kspaceD(3)[OF K] kspace_pages(2)[OF K, of f] by blast
  qed simp
  have "3 \<le> length ps" using len n0 by simp
  then obtain p0 p1 p2 rs where ps: "ps = p0 # p1 # p2 # rs"
    by (metis (no_types, lifting) Suc_le_length_iff numeral_3_eq_3)
  from check_page_installed_pgdir_passes[OF K1[unfolded ps] tb] s1 show ?thesis
    by (auto simp: same_globals_def)
qed

lemma kernel_window:
  assumes K: "kspace s k ps tb m" and m: "\<forall>i<65536. reads_as (m (0xF0000 + i)) = word_of_nat i * PGSIZE" and a: "KERNBASE \<le> a"
  shows "check_va2pa s k a = Inr (PTE_ADDR a - KERNBASE)"
proof -
  have u: "4026531840 \<le> unat a" using a by (simp add: word_le_nat_alt memlayout_defs)
  have "unat (PDX a) \<noteq> selfmap" using u by (simp add: unat_PDX selfmap_def)
  note c = kspace_reads[OF K this]
  have p: "0xF0000 \<le> unat (PGNUM a)" "unat (PGNUM a) < 0xF0000 + 65536"
    using u unat_u32_less[of a] by (simp_all add: unat_PGNUM less_mult_imp_div_less)
  let ?i = "unat (PGNUM a) - 0xF0000"
  have "?i < 65536" "0xF0000 + ?i = unat (PGNUM a)" using p by simp_all
  then have "reads_as (m (unat (PGNUM a))) = word_of_nat ?i * PGSIZE" using m by metis
  with c page_offset[OF region_addresses(3) p(1)] show ?thesis by simp
qed

lemma user_window:
  assumes K: "kspace s k ps tb m" and m: "\<forall>i<955 * 1024. m i = 0" and a: "a < UTOP"
  shows "check_va2pa s k a = Inr (NOT 0)"
proof -
  have u: "unat a < 4005560320" using a by (simp add: word_less_nat_alt memlayout_defs mmu_consts)
  have "unat (PDX a) \<noteq> selfmap" using user_pdx[OF a] by (simp add: UPDX_def selfmap_def)
  note c = kspace_reads[OF K this]
  have "unat (PGNUM a) < 955 * 1024" using u by (simp add: unat_PGNUM less_mult_imp_div_less)
  with c m show ?thesis by simp
qed

text \<open>C4: \<^verbatim>\<open>mem_init\<close> returns. From the zeroed variables of a fresh kernel whose image ends above the
  first megabyte, on a machine of at most 256 megabytes with at least 69 pages left behind the kernel and
  its boot-time arrays, no allocation, mapping or page operation panics and every assertion of the five
  self-tests holds. In the directory it leaves, every address from \<^verbatim>\<open>KERNBASE\<close> on translates to the
  physical address at the same offset, and no address below \<^verbatim>\<open>UTOP\<close> is mapped.\<close>

theorem mem_init_succeeds:
  assumes "boot_nextfree s = 0" and "page_free_list s = None" and "mmio_base s = MMIOBASE"
    and "N = unat (fst (i386_detect_memory mc))" and "N \<le> 2 ^ 16"
    and "unat (ROUNDUP kend PGSIZE) = unat KERNBASE + 4096 * kp" and "256 \<le> kp"
    and "kp + boot_pages N env_bytes + 69 \<le> N" and "0 < unat env_bytes" and "unat env_bytes \<le> 4096"
    and "\<forall>c<NCPU. KERNBASE \<le> kstacks c \<and> PGOFF (kstacks c - KERNBASE) = 0"
  shows "\<exists>pages envs s'. mem_init mc kend kstacks env_bytes s = Inr (kp, pages, envs, s')
    \<and> (\<forall>a. KERNBASE \<le> a \<longrightarrow> check_va2pa s' kp a = Inr (PTE_ADDR a - KERNBASE))
    \<and> (\<forall>a. a < UTOP \<longrightarrow> check_va2pa s' kp a = Inr (NOT 0))"
proof -
  let ?s = "s\<lparr>npages := N\<rparr>" and ?n0 = "kp + boot_pages N env_bytes"
  have b: "0 < boot_pages N env_bytes" by (simp add: boot_pages_def)
  obtain pages envs nf where ar: "mem_init_arrays kend env_bytes ?s
      = Inr (kp, pages, envs, (write_pte (zero_page ?s kp) (kp, selfmap) (page2pa kp OR PTE_U OR PTE_P))
          \<lparr>pp_link := (\<lambda>_. None), pp_ref := (\<lambda>_. 0), boot_nextfree := nf\<rparr>)" (is "_ = Inr (_, _, _, ?s1)")
    and pg: "KERNBASE \<le> pages" "PGOFF (pages - KERNBASE) = 0" and en: "KERNBASE \<le> envs" "PGOFF (envs - KERNBASE) = 0"
    and nf: "unat nf = unat KERNBASE + 4096 * ?n0"
    using mem_init_arrays_returns[of ?s kend kp env_bytes] assms(1,5,6,8,10) by auto
  have s1: "page_free_list ?s1 = None" "boot_nextfree ?s1 = nf" "npages ?s1 = N" "mmio_base ?s1 = MMIOBASE"
    "phys ?s1 kp = (\<lambda>_. 0)(selfmap := page2pa kp OR PTE_U OR PTE_P)"
    using assms(2,3) by (auto simp: write_pte_def zero_page_def set_cell_def)
  have kp: "kp < ?n0" using b by simp
  obtain s2 s3 ps where p3: "page_init kend ?s1 = Inr s2" "check_page_free_list kend s2 True = Inr s3"
    and K3: "kspace s3 kp ps Map.empty (\<lambda>_. 0)" and l3: "length ps = 158 + (N - ?n0)"
    and g3: "npages s3 = N" "boot_nextfree s3 = nf" "mmio_base s3 = MMIOBASE"
    using first_checks[OF s1(1-3) assms(5) s1(4) nf assms(8,7) kp s1(5), of kend] by blast
  have p0: "pages \<noteq> 0" using pg(1) by (auto simp: memlayout_defs)
  have l33: "3 \<le> length ps" and N3: "npages s3 \<le> 2 ^ 16" using l3 g3(1) assms(5) by simp_all
  obtain s4 s5 qs tb where p5: "check_page_alloc pages s3 = Inr s4" "check_page kp s4 = Inr s5"
    and K5: "kspace s5 kp qs tb (\<lambda>_. 0)" "dom tb = {958}" and l5: "length qs + 1 = length ps"
    and g5: "npages s5 = npages s3" "boot_nextfree s5 = boot_nextfree s3"
    using middle_checks[OF K3 l33 g3(3) N3 p0] by blast
  have r5: "67 \<le> length qs" "0 < npages s5" "npages s5 \<le> 2 ^ 16" using l3 l5 g3 g5 assms(5,8) by simp_all
  have ks: "KERNBASE \<le> kstacks c \<and> PGOFF (kstacks c - KERNBASE) = 0" if "c < 8" for c
    using assms(11) that by (simp add: NCPU_def)
  obtain s6 rs tb6 m where p6: "static_mappings kp pages envs kstacks (word_of_nat (npages s5) * sizeof_PageInfo)
      (word_of_nat NENV * env_bytes) s5 = Inr s6" "check_kern_pgdir kp pages envs kstacks env_bytes s6 = Inr s6"
    and K6: "kspace s6 kp rs tb6 m" and t6: "tb6 0 = None" "tb6 1 = None"
    and m6: "\<forall>i<955 * 1024. m i = 0" "\<forall>i<65536. reads_as (m (0xF0000 + i)) = word_of_nat i * PGSIZE"
    and l6: "length rs + 67 = length qs" and g6: "same_globals s5 s6"
    using static_mappings_pass[of s5 kp qs tb pages envs kstacks, OF K5 r5(1) pg en ks r5(2,3) assms(9,10)] by blast
  have h6: "boot_nextfree s6 = nf" "npages s6 = N" using g3 g5 g6 by (simp_all add: same_globals_def)
  have l: "length rs + 68 = 158 + (npages s6 - ?n0)" using l3 l5 l6 h6 by simp
  obtain s7 s8 us where p8: "check_page_free_list kend s6 False = Inr s7" "check_page_installed_pgdir kp s7 = Inr s8"
    and K8: "kspace s8 kp us tb6 m"
    using last_checks[OF K6 t6 h6(1) nf _ _ _ l, of kend] assms(5,7,8) kp h6(2) by auto
  have "mem_init mc kend kstacks env_bytes s = Inr (kp, pages, envs, s8)"
    unfolding mem_init_def assms(4)[symmetric] ar chain_Inr prod.case p3 p5 p6 p8 ..
  then show ?thesis using kernel_window[OF K8 m6(2)] user_window[OF K8 m6(1)] by blast
qed

text \<open>The example: 32 megabytes of memory, a kernel image that ends at two megabytes.\<close>

definition demo_cmos :: "nat \<Rightarrow> u32" where
  "demo_cmos r = (if r = 0x35 then 1 else 0)"

lemma mem_init_succeeds_witness:
  "\<exists>pages envs s'. mem_init demo_cmos 0xF0200000 (\<lambda>_. 0xF0110000) 128 (demo_mem\<lparr>page_free_list := None\<rparr>)
      = Inr (512, pages, envs, s')
    \<and> check_va2pa s' 512 0xF0123456 = Inr 0x123000 \<and> check_va2pa s' 512 0x1000 = Inr (NOT 0)"
proof -
  let ?s = "demo_mem\<lparr>page_free_list := None\<rparr>"
  have N: "8192 = unat (fst (i386_detect_memory demo_cmos))"
    by (simp add: i386_detect_memory_def nvram_read_def NVRAM_BASELO_def NVRAM_EXTLO_def NVRAM_EXT16LO_def demo_cmos_def
        mmu_consts unat_div)
  have k: "unat (ROUNDUP 0xF0200000 PGSIZE) = unat KERNBASE + 4096 * 512" by (simp add: unat_ROUNDUP memlayout_defs)
  have b: "512 + boot_pages 8192 128 + 69 \<le> 8192"
    by (simp add: boot_pages_def array_pages_def sizeof_PageInfo_def NENV_def)
  have ks: "\<forall>c<NCPU. KERNBASE \<le> 0xF0110000 \<and> PGOFF (0xF0110000 - KERNBASE) = 0"
    by (simp add: memlayout_defs PGOFF_def)
  obtain pages envs s' where r: "mem_init demo_cmos 0xF0200000 (\<lambda>_. 0xF0110000) 128 ?s = Inr (512, pages, envs, s')"
    and hi: "\<forall>a. KERNBASE \<le> a \<longrightarrow> check_va2pa s' 512 a = Inr (PTE_ADDR a - KERNBASE)"
    and lo: "\<forall>a. a < UTOP \<longrightarrow> check_va2pa s' 512 a = Inr (NOT 0)"
    using mem_init_succeeds[OF _ _ _ N _ k _ b _ _ ks, of ?s] by (auto simp: demo_mem_def)
  have "KERNBASE \<le> 0xF0123456" "(0x1000 :: u32) < UTOP" "PTE_ADDR 0xF0123456 - KERNBASE = 0x123000"
    by (simp_all add: memlayout_defs mmu_consts PTE_ADDR_def)
  with r hi[rule_format, of "0xF0123456"] lo[rule_format, of "0x1000"] show ?thesis by auto
qed

end
