(* ===== verification/Init.thy ===== *)
theory Init
  imports Devices KernelInv PmapInit
begin

unbundle bit_operations_syntax

text \<open>
  How the kernel starts, \<^verbatim>\<open>kern/init.c\<close>: the boot processor sets the memory, the environments and
  the interrupt hardware up, takes the kernel lock, starts the other processors one after another,
  creates the first environments and enters the scheduler. The console has no part in the state; the
  copy of the other processors' entry code and their descriptor tables are left out.
\<close>

text \<open>What the hardware, the firmware and the linker provide.\<close>

record platform =
  cmos :: "nat \<Rightarrow> u32"
  kernel_end :: u32
  kstack_addrs :: "nat \<Rightarrow> u32"
  env_bytes :: u32
  firmware :: pmem
  imcr :: u8
  apic_version :: u32
  programs :: "u8 list list"

section \<open>Another processor\<close>

text \<open>\<^verbatim>\<open>mp_main\<close> of processor \<open>c\<close> up to the moment it announces itself, and from there on.\<close>

definition mp_main_setup ::
    "platform \<Rightarrow> mpstate \<Rightarrow> nat \<Rightarrow> kst \<Rightarrow> devices \<Rightarrow> fault + (kst \<times> devices)" where
  "mp_main_setup b mp c k d =
     chain (lapic_init (Some None) (kern_pgdir k) (mem k) (lapicaddr mp) (c = bootcpu mp) (apic_version b) d)
       (\<lambda>(m, d1). Inr (k\<lparr>mem := m, cpu_status := (cpu_status k)(c := CPU_STARTED)\<rparr>, d1))"

definition mp_main_schedule :: "nat \<Rightarrow> kst \<Rightarrow> fault + (unit ctl \<times> kst)" where
  "mp_main_schedule c k = bindc (lock_kernel (k\<lparr>this_cpu := c\<rparr>)) (\<lambda>_ k1. sched_yield k1)"

text \<open>\<^verbatim>\<open>boot_aps\<close> waits after each start until the processor has announced itself.\<close>

fun boot_aps :: "platform \<Rightarrow> mpstate \<Rightarrow> nat list \<Rightarrow> kst \<Rightarrow> devices \<Rightarrow> fault + (kst \<times> devices)" where
  "boot_aps b mp [] k d = Inr (k, d)"
| "boot_aps b mp (c # cs) k d =
     (if c = this_cpu k then boot_aps b mp cs k d
      else chain (lapic_startap (mem k) (cpu_id mp c) MPENTRY_PADDR d) (\<lambda>d1.
           chain (mp_main_setup b mp c k d1) (\<lambda>(k1, d2). boot_aps b mp cs k1 d2)))"

section \<open>The boot processor\<close>

definition create_all :: "platform \<Rightarrow> kst \<Rightarrow> fault + kst" where
  "create_all b k = run_steps (\<lambda>k p. env_create k p ENV_TYPE_USER) k (programs b)"

definition i386_init :: "platform \<Rightarrow> kst \<Rightarrow> devices \<Rightarrow> fault + (unit ctl \<times> kst)" where
  "i386_init b k d =
     chain (mem_init (cmos b) (kernel_end b) (kstack_addrs b) (env_bytes b) (mem k)) (\<lambda>(kpd, _, _, m).
     let k1 = env_init (k\<lparr>mem := m, kern_pgdir := kpd, cr3 := kpd\<rparr>) in
     chain (mp_init m (firmware b) (imcr b) zero_mp) (\<lambda>mp.
     let k2 = k1\<lparr>cpu_status := (\<lambda>c. if started mp c then CPU_STARTED else cpu_status k1 c)\<rparr> in
     chain (lapic_init (Some None) kpd m (lapicaddr mp) (this_cpu k2 = bootcpu mp) (apic_version b) (kbd_irq_init d))
       (\<lambda>(m1, d1).
     let d2 = pic_init d1 in
     bindc (lock_kernel (k2\<lparr>mem := m1\<rparr>)) (\<lambda>_ k3.
     chain (boot_aps b mp [0..<ncpu mp] k3 d2) (\<lambda>(k4, d3).
     chain (create_all b k4) (\<lambda>k5. sched_yield k5))))))"

section \<open>The invariant at the start\<close>

lemma kinv_mp_main_setup: "kinv k \<Longrightarrow> mp_main_setup b mp c k d = Inr (k', d') \<Longrightarrow> kinv k'"
  by (auto simp: mp_main_setup_def chain_eq_Inr)

lemma kinv_boot_aps: "kinv k \<Longrightarrow> boot_aps b mp cs k d = Inr (k', d') \<Longrightarrow> kinv k'"
proof (induction cs arbitrary: k d)
  case (Cons c cs)
  then show ?case by (auto simp: chain_eq_Inr split: if_splits dest: kinv_mp_main_setup)
qed simp

interpretation creation: invariant_machine "\<lambda>k p. env_create k p ENV_TYPE_USER" "\<lambda>_. True" kinv
  by unfold_locales (rule kinv_env_create)

lemma kinv_create_all: "kinv k \<Longrightarrow> create_all b k = Inr k' \<Longrightarrow> kinv k'"
  unfolding create_all_def by (rule creation.run_inv) simp_all

text \<open>From zeroed arrays, every state that the initialisation hands to the scheduler satisfies the
  kernel invariant, and so does what the scheduler makes of it.\<close>

lemma boot_good:
  assumes "envs k = (\<lambda>_. zero_env)" and "cpu_env k = (\<lambda>_. None)"
  shows "good (i386_init b k d)"
proof -
  have "kinv (env_init (k\<lparr>mem := m, kern_pgdir := p, cr3 := q\<rparr>))" for m p q
    using assms by (intro kinv_env_init) simp_all
  then show ?thesis
    unfolding i386_init_def Let_def
    by (auto intro!: good_chain good_bindc good_lock good_yield dest: kinv_boot_aps[rotated] kinv_create_all[rotated])
qed

lemma mp_main_good: "kinv k \<Longrightarrow> good (mp_main_schedule c k)"
  unfolding mp_main_schedule_def by (intro good_bindc good_lock good_yield) simp_all

end
