(* ===== verification/Segments.thy ===== *)
theory Segments
  imports Trap
begin

unbundle bit_operations_syntax

text \<open>
  Segments: the descriptors and the task state of \<^verbatim>\<open>inc/mmu.h\<close>, the descriptor table of
  \<^verbatim>\<open>kern/env.c\<close> with \<^verbatim>\<open>env_init_percpu\<close>, and \<^verbatim>\<open>trap_init_percpu\<close> of \<^verbatim>\<open>kern/trap.c\<close>. A bit field is a
  word of its width, so that a value too wide for it loses its upper bits as in C. What the
  processor reads in a descriptor (base, limit, privilege) is defined beside it; the macros the
  assembly uses are given too, as the bytes they assemble to.
\<close>

section \<open>Descriptors (\<^verbatim>\<open>inc/mmu.h\<close>)\<close>

record segdesc =
  sd_lim_15_0 :: u16
  sd_base_15_0 :: u16
  sd_base_23_16 :: u8
  sd_type :: "4 word"
  sd_s :: "1 word"
  sd_dpl :: "2 word"
  sd_p :: "1 word"
  sd_lim_19_16 :: "4 word"
  sd_avl :: "1 word"
  sd_rsv1 :: "1 word"
  sd_db :: "1 word"
  sd_g :: "1 word"
  sd_base_31_24 :: u8

definition SEG_NULL :: segdesc where
  "SEG_NULL = \<lparr>sd_lim_15_0 = 0, sd_base_15_0 = 0, sd_base_23_16 = 0, sd_type = 0, sd_s = 0, sd_dpl = 0,
     sd_p = 0, sd_lim_19_16 = 0, sd_avl = 0, sd_rsv1 = 0, sd_db = 0, sd_g = 0, sd_base_31_24 = 0\<rparr>"

definition SEG_FAULT :: segdesc where
  "SEG_FAULT = \<lparr>sd_lim_15_0 = 0, sd_base_15_0 = 0, sd_base_23_16 = 0, sd_type = 0, sd_s = 1, sd_dpl = 0,
     sd_p = 1, sd_lim_19_16 = 0, sd_avl = 0, sd_rsv1 = 0, sd_db = 1, sd_g = 0, sd_base_31_24 = 0\<rparr>"

definition SEG :: "4 word \<Rightarrow> u32 \<Rightarrow> u32 \<Rightarrow> 2 word \<Rightarrow> segdesc" where
  "SEG ty base lim dpl =
     \<lparr>sd_lim_15_0 = ucast (drop_bit 12 lim AND 0xffff), sd_base_15_0 = ucast (base AND 0xffff),
      sd_base_23_16 = ucast (drop_bit 16 base AND 0xff), sd_type = ty, sd_s = 1, sd_dpl = dpl,
      sd_p = 1, sd_lim_19_16 = ucast (drop_bit 28 lim), sd_avl = 0, sd_rsv1 = 0, sd_db = 1, sd_g = 1,
      sd_base_31_24 = ucast (drop_bit 24 base)\<rparr>"

definition SEG16 :: "4 word \<Rightarrow> u32 \<Rightarrow> u32 \<Rightarrow> 2 word \<Rightarrow> segdesc" where
  "SEG16 ty base lim dpl =
     \<lparr>sd_lim_15_0 = ucast (lim AND 0xffff), sd_base_15_0 = ucast (base AND 0xffff),
      sd_base_23_16 = ucast (drop_bit 16 base AND 0xff), sd_type = ty, sd_s = 1, sd_dpl = dpl,
      sd_p = 1, sd_lim_19_16 = ucast (drop_bit 16 lim), sd_avl = 0, sd_rsv1 = 0, sd_db = 1, sd_g = 0,
      sd_base_31_24 = ucast (drop_bit 24 base)\<rparr>"

definition STA_X :: "4 word" where "STA_X = 0x8"
definition STA_E :: "4 word" where "STA_E = 0x4"
definition STA_C :: "4 word" where "STA_C = 0x4"
definition STA_W :: "4 word" where "STA_W = 0x2"
definition STA_R :: "4 word" where "STA_R = 0x2"
definition STA_A :: "4 word" where "STA_A = 0x1"
definition STS_T32A :: "4 word" where "STS_T32A = 0x9"
definition STS_CG32 :: nat where "STS_CG32 = 0xC"

text \<open>The macros as the assembler expands them: words and bytes, the low byte of a word first.\<close>

definition word_bytes :: "u32 \<Rightarrow> u8 list" where "word_bytes w = [ucast w, ucast (drop_bit 8 w)]"

definition asm_SEG_NULL :: "u8 list" where
  "asm_SEG_NULL = word_bytes 0 @ word_bytes 0 @ [0, 0, 0, 0]"

definition asm_SEG :: "u32 \<Rightarrow> u32 \<Rightarrow> u32 \<Rightarrow> u8 list" where
  "asm_SEG ty base lim =
     word_bytes (drop_bit 12 lim AND 0xffff) @ word_bytes (base AND 0xffff) @
     [ucast (drop_bit 16 base AND 0xff), ucast (0x90 OR ty),
      ucast (0xC0 OR (drop_bit 28 lim AND 0xf)), ucast (drop_bit 24 base AND 0xff)]"

text \<open>Where the fields lie: the eight bytes of a descriptor in memory.\<close>

definition segdesc_bytes :: "segdesc \<Rightarrow> u8 list" where
  "segdesc_bytes d =
     [ucast (sd_lim_15_0 d), ucast (drop_bit 8 (sd_lim_15_0 d)),
      ucast (sd_base_15_0 d), ucast (drop_bit 8 (sd_base_15_0 d)), sd_base_23_16 d,
      ucast (sd_type d) OR push_bit 4 (ucast (sd_s d)) OR push_bit 5 (ucast (sd_dpl d)) OR push_bit 7 (ucast (sd_p d)),
      ucast (sd_lim_19_16 d) OR push_bit 4 (ucast (sd_avl d)) OR push_bit 5 (ucast (sd_rsv1 d))
        OR push_bit 6 (ucast (sd_db d)) OR push_bit 7 (ucast (sd_g d)),
      sd_base_31_24 d]"

text \<open>What the processor takes from a descriptor: the base, and the last valid offset.\<close>

definition seg_base :: "segdesc \<Rightarrow> u32" where
  "seg_base d = ucast (sd_base_15_0 d) OR push_bit 16 (ucast (sd_base_23_16 d)) OR push_bit 24 (ucast (sd_base_31_24 d))"

definition seg_limit :: "segdesc \<Rightarrow> u32" where
  "seg_limit d =
     (let l = ucast (sd_lim_15_0 d) OR push_bit 16 (ucast (sd_lim_19_16 d)) in
      if sd_g d = 1 then push_bit 12 l OR 0xfff else l)"

lemma and_masks:
  "(w :: u32) AND 0xff = take_bit 8 w" "w AND 0xf = take_bit 4 w" "w AND 0xffff = take_bit 16 w"
  "w AND 0xfffff = take_bit 20 w"
  by (simp_all add: take_bit_eq_mask mask_eq_exp_minus_1)

lemma fff_mask: "(0xfff :: u32) = mask 12"
  by (simp add: mask_eq_exp_minus_1)

lemmas seg_bits = and_masks bit_simps

lemma base_parts:
  "ucast (ucast (b AND 0xffff) :: u16) OR push_bit 16 (ucast (ucast (drop_bit 16 b AND 0xff) :: u8))
     OR push_bit 24 (ucast (ucast (drop_bit 24 b) :: u8)) = (b :: u32)"
proof (rule bit_word_eqI)
  fix n assume "n < LENGTH(32)"
  then consider "n < 16" | "16 \<le> n" "n < 24" | "24 \<le> n" "n < 32" by fastforce
  then show "bit (ucast (ucast (b AND 0xffff) :: u16) OR push_bit 16 (ucast (ucast (drop_bit 16 b AND 0xff) :: u8))
     OR push_bit 24 (ucast (ucast (drop_bit 24 b) :: u8)) :: u32) n = bit b n"
    by cases (auto simp: seg_bits)
qed

lemma seg_base_SEG: "seg_base (SEG ty base lim dpl) = base"
  by (simp add: seg_base_def SEG_def base_parts)

lemma seg_base_SEG16: "seg_base (SEG16 ty base lim dpl) = base"
  by (simp add: seg_base_def SEG16_def base_parts)

lemma seg_limit_SEG: "seg_limit (SEG ty base lim dpl) = lim OR 0xfff"
  unfolding seg_limit_def fff_mask by (rule bit_word_eqI) (auto simp: SEG_def seg_bits)

lemma seg_limit_SEG16: "seg_limit (SEG16 ty base lim dpl) = lim AND 0xfffff"
  by (rule bit_word_eqI) (auto simp: seg_limit_def SEG16_def seg_bits)

text \<open>The descriptor the C macro \<^verbatim>\<open>SEG\<close> builds at privilege 0 and the one the assembler's macro of
  the same name lays down are the same eight bytes, for every type, base and limit.\<close>

lemma seg_type_byte: "(ucast (0x90 OR ucast ty :: u32) :: u8) = ucast (ty :: 4 word) OR 0x90"
proof -
  have "(ucast (ucast ty :: u32) :: u8) = ucast ty" by (auto intro!: bit_word_eqI simp: bit_simps)
  then show ?thesis by (simp add: unsigned_or_eq or.commute)
qed

lemma seg_limit_byte:
  "(ucast (0xC0 OR (drop_bit 28 lim AND 0xf) :: u32) :: u8) = ucast (ucast (drop_bit 28 lim) :: 4 word) OR 0xC0"
proof -
  have "(ucast (drop_bit 28 lim AND 0xf) :: u8) = ucast (ucast (drop_bit 28 lim) :: 4 word)"
    by (auto intro!: bit_word_eqI simp: seg_bits)
  then show ?thesis by (simp add: unsigned_or_eq or.commute)
qed

theorem seg_macros_agree: "segdesc_bytes (SEG ty base lim 0) = asm_SEG (ucast ty) base lim"
proof -
  have b: "ucast (ucast (w AND 0xffff) :: u16) = (ucast (w AND 0xffff) :: u8)"
    "ucast (drop_bit 8 (ucast (w AND 0xffff) :: u16)) = (ucast (drop_bit 8 (w AND 0xffff)) :: u8)"
    "ucast (drop_bit 24 w) = (ucast (drop_bit 24 w AND 0xff) :: u8)" for w :: u32
    by (auto intro!: bit_word_eqI simp: seg_bits)
  show ?thesis
    using seg_type_byte[of ty] seg_limit_byte[of lim]
    by (simp add: segdesc_bytes_def asm_SEG_def SEG_def word_bytes_def b)
qed

lemma seg_null_macros_agree: "segdesc_bytes SEG_NULL = asm_SEG_NULL"
  by (simp add: segdesc_bytes_def SEG_NULL_def asm_SEG_NULL_def word_bytes_def)

section \<open>The table of \<^verbatim>\<open>kern/env.c\<close>\<close>

definition gdt0 :: "segdesc list" where
  "gdt0 = (replicate (NCPU + 5) SEG_NULL)
     [unat (drop_bit 3 GD_KT) := SEG (STA_X OR STA_R) 0x0 0xffffffff 0,
      unat (drop_bit 3 GD_KD) := SEG STA_W 0x0 0xffffffff 0,
      unat (drop_bit 3 GD_UT) := SEG (STA_X OR STA_R) 0x0 0xffffffff 3,
      unat (drop_bit 3 GD_UD) := SEG STA_W 0x0 0xffffffff 3,
      unat (drop_bit 3 GD_TSS0) := SEG_NULL]"

record pseudodesc =
  pd_lim :: u16
  pd_base :: u32

definition gdt_pd :: "u32 \<Rightarrow> pseudodesc" where
  "gdt_pd gdt_addr = \<lparr>pd_lim = word_of_nat ((NCPU + 5) * length (segdesc_bytes SEG_NULL) - 1), pd_base = gdt_addr\<rparr>"

definition idt_pd :: "u32 \<Rightarrow> pseudodesc" where
  "idt_pd idt_addr = \<lparr>pd_lim = 256 * 8 - 1, pd_base = idt_addr\<rparr>"

text \<open>The registers of a processor that the two set-ups load.\<close>

record segregs =
  r_gdtr :: pseudodesc
  r_idtr :: pseudodesc
  r_ldtr :: u16
  r_tr :: u16
  r_cs :: u16
  r_ds :: u16
  r_es :: u16
  r_ss :: u16
  r_fs :: u16
  r_gs :: u16

definition env_init_percpu :: "u32 \<Rightarrow> segregs \<Rightarrow> segregs" where
  "env_init_percpu gdt_addr r =
     r\<lparr>r_gdtr := gdt_pd gdt_addr, r_gs := GD_UD OR 3, r_fs := GD_UD OR 3, r_es := GD_KD, r_ds := GD_KD,
       r_ss := GD_KD, r_cs := GD_KT, r_ldtr := 0\<rparr>"

section \<open>The task state of a processor\<close>

record taskstate =
  ts_link :: u32
  ts_esp0 :: u32
  ts_ss0 :: u16
  ts_padding1 :: u16
  ts_esp1 :: u32
  ts_ss1 :: u16
  ts_padding2 :: u16
  ts_esp2 :: u32
  ts_ss2 :: u16
  ts_padding3 :: u16
  ts_cr3 :: u32
  ts_eip :: u32
  ts_eflags :: u32
  ts_eax :: u32
  ts_ecx :: u32
  ts_edx :: u32
  ts_ebx :: u32
  ts_esp :: u32
  ts_ebp :: u32
  ts_esi :: u32
  ts_edi :: u32
  ts_es :: u16
  ts_padding4 :: u16
  ts_cs :: u16
  ts_padding5 :: u16
  ts_ss :: u16
  ts_padding6 :: u16
  ts_ds :: u16
  ts_padding7 :: u16
  ts_fs :: u16
  ts_padding8 :: u16
  ts_gs :: u16
  ts_padding9 :: u16
  ts_ldt :: u16
  ts_padding10 :: u16
  ts_t :: u16
  ts_iomb :: u16

definition half_bytes :: "u16 \<Rightarrow> u8 list" where
  "half_bytes w = [ucast w, ucast (drop_bit 8 w)]"

definition taskstate_bytes :: "taskstate \<Rightarrow> u8 list" where
  "taskstate_bytes t =
     le_bytes (ts_link t) @ le_bytes (ts_esp0 t) @ half_bytes (ts_ss0 t) @ half_bytes (ts_padding1 t)
     @ le_bytes (ts_esp1 t) @ half_bytes (ts_ss1 t) @ half_bytes (ts_padding2 t)
     @ le_bytes (ts_esp2 t) @ half_bytes (ts_ss2 t) @ half_bytes (ts_padding3 t)
     @ concat (map le_bytes [ts_cr3 t, ts_eip t, ts_eflags t, ts_eax t, ts_ecx t, ts_edx t, ts_ebx t,
         ts_esp t, ts_ebp t, ts_esi t, ts_edi t])
     @ concat (map half_bytes [ts_es t, ts_padding4 t, ts_cs t, ts_padding5 t, ts_ss t, ts_padding6 t,
         ts_ds t, ts_padding7 t, ts_fs t, ts_padding8 t, ts_gs t, ts_padding9 t, ts_ldt t, ts_padding10 t,
         ts_t t, ts_iomb t])"

definition sizeof_Taskstate :: u32 where "sizeof_Taskstate = 104"

lemma sizeof_Taskstate_bytes: "length (taskstate_bytes t) = unat sizeof_Taskstate"
  by (simp add: taskstate_bytes_def half_bytes_def le_bytes_def sizeof_Taskstate_def)

text \<open>The tables the processors share, and the registers of each.\<close>

record desc_state =
  gdt :: "segdesc list"
  cpu_ts :: "nat \<Rightarrow> taskstate"
  segs :: "nat \<Rightarrow> segregs"

text \<open>\<^verbatim>\<open>ltr\<close>: the processor takes only a present, available task state and marks it busy; anything
  else is a general protection fault, which at this point of the boot nothing handles.\<close>

definition STS_T32B :: "4 word" where "STS_T32B = 0xB"

definition ltr :: "u16 \<Rightarrow> nat \<Rightarrow> desc_state \<Rightarrow> fault + desc_state" where
  "ltr sel c d =
     (let i = unat (drop_bit 3 sel) in
      if length (gdt d) \<le> i then Inl OutOfBounds
      else let t = gdt d ! i in
        if sd_s t = 0 \<and> sd_type t = STS_T32A \<and> sd_p t = 1
        then Inr (d\<lparr>gdt := (gdt d)[i := t\<lparr>sd_type := STS_T32B\<rparr>], segs := (segs d)(c := segs d c\<lparr>r_tr := sel\<rparr>)\<rparr>)
        else Inl (Panic ''general protection''))"

text \<open>\<open>c\<close> is \<^verbatim>\<open>cpunum()\<close>, \<open>ids\<close> the identifiers in \<^verbatim>\<open>cpus\<close>, \<open>ts_addr c\<close> the address of
  \<^verbatim>\<open>cpus[c].cpu_ts\<close>.\<close>

definition trap_init_percpu ::
    "u32 \<Rightarrow> (nat \<Rightarrow> u32) \<Rightarrow> (nat \<Rightarrow> u8) \<Rightarrow> desc_state \<Rightarrow> nat \<Rightarrow> fault + desc_state" where
  "trap_init_percpu idt_addr ts_addr ids d c =
     (let thisid = ids c;
          thists = cpu_ts d c\<lparr>ts_esp0 := KSTACKTOP - ucast thisid * (KSTKGAP + KSTKSIZE), ts_ss0 := GD_KD,
                     ts_iomb := ucast sizeof_Taskstate\<rparr>;
          i = unat (drop_bit 3 GD_TSS0) + unat thisid in
      if length (gdt d) \<le> i then Inl OutOfBounds
      else chain (ltr (GD_TSS0 + push_bit 3 (ucast thisid)) c
             (d\<lparr>cpu_ts := (cpu_ts d)(c := thists),
                gdt := (gdt d)[i := SEG16 STS_T32A (ts_addr c) (sizeof_Taskstate - 1) 0\<lparr>sd_s := 0\<rparr>]\<rparr>)) (\<lambda>d1.
        Inr (d1\<lparr>segs := (segs d1)(c := segs d1 c\<lparr>r_idtr := idt_pd idt_addr\<rparr>)\<rparr>)))"

lemma gdt0_length: "length gdt0 = 13"
  by (simp add: gdt0_def NCPU_def)

lemmas gd_defs = GD_KT_def GD_KD_def GD_UT_def GD_UD_def GD_TSS0_def

text \<open>The slot of a processor, and the descriptor it gets.\<close>

lemma cpu_below_NCPU: "c < NCPU \<Longrightarrow> c \<in> {0, 1, 2, 3, 4, 5, 6, 7}"
  by (auto simp: NCPU_def)

lemma tss_slot:
  assumes "c < NCPU"
  shows "unat (drop_bit 3 GD_TSS0) + unat (word_of_nat c :: u8) = 5 + c"
    and "unat (drop_bit 3 (GD_TSS0 + push_bit 3 (ucast (word_of_nat c :: u8)))) = 5 + c"
  using cpu_below_NCPU[OF assms] by (auto simp: GD_TSS0_def)

definition busy_tss :: "u32 \<Rightarrow> segdesc" where
  "busy_tss a = SEG16 STS_T32A a (sizeof_Taskstate - 1) 0\<lparr>sd_s := 0, sd_type := STS_T32B\<rparr>"

lemma trap_init_percpu_step:
  assumes "c < NCPU" and "ids c = word_of_nat c" and "length (gdt d) = 13"
  shows "trap_init_percpu ia ta ids d c = Inr (d\<lparr>
     cpu_ts := (cpu_ts d)(c := cpu_ts d c\<lparr>ts_esp0 := KSTACKTOP - word_of_nat c * (KSTKGAP + KSTKSIZE),
       ts_ss0 := GD_KD, ts_iomb := 104\<rparr>),
     gdt := (gdt d)[5 + c := busy_tss (ta c)],
     segs := (segs d)(c := segs d c\<lparr>r_tr := GD_TSS0 + 8 * word_of_nat c, r_idtr := idt_pd ia\<rparr>)\<rparr>)"
proof -
  have n: "5 + c < 13" using assms(1) by (simp add: NCPU_def)
  have u: "ucast (word_of_nat c :: u8) = (word_of_nat c :: u32)"
    "GD_TSS0 + push_bit 3 (ucast (word_of_nat c :: u8)) = GD_TSS0 + 8 * word_of_nat c"
    using cpu_below_NCPU[OF assms(1)] by (auto simp: GD_TSS0_def)
  note s = tss_slot[OF assms(1)]
  show ?thesis
    using n assms(3)
    unfolding trap_init_percpu_def ltr_def Let_def assms(2) s u
    by (simp add: busy_tss_def SEG16_def sizeof_Taskstate_def s[unfolded u])
qed

lemma busy_tss_describes:
  "seg_base (busy_tss a) = a" "seg_limit (busy_tss a) = sizeof_Taskstate - 1" "sd_s (busy_tss a) = 0"
  "sd_type (busy_tss a) = STS_T32B" "sd_dpl (busy_tss a) = 0" "sd_p (busy_tss a) = 1"
proof -
  have "seg_base (busy_tss a) = seg_base (SEG16 STS_T32A a (sizeof_Taskstate - 1) 0)"
    "seg_limit (busy_tss a) = seg_limit (SEG16 STS_T32A a (sizeof_Taskstate - 1) 0)"
    by (simp_all add: busy_tss_def seg_base_def seg_limit_def)
  then show "seg_base (busy_tss a) = a" "seg_limit (busy_tss a) = sizeof_Taskstate - 1"
    by (simp_all add: seg_base_SEG16 seg_limit_SEG16 sizeof_Taskstate_def)
qed (simp_all add: busy_tss_def SEG16_def)

definition kstack_top :: "nat \<Rightarrow> u32" where
  "kstack_top c = KSTACKTOP - word_of_nat c * (KSTKGAP + KSTKSIZE)"

lemma kstack_top_unat:
  assumes "c < NCPU"
  shows "unat (kstack_top c) = 0xF0000000 - c * 0x10000"
    and "unat (kstack_top c - KSTKSIZE) = 0xF0000000 - c * 0x10000 - 0x8000"
  using cpu_below_NCPU[OF assms] by (auto simp: kstack_top_def memlayout_defs PGSIZE_def)

lemma kernel_stacks_apart:
  assumes "c < e" and "e < NCPU"
  shows "unat (kstack_top e) + unat KSTKGAP \<le> unat (kstack_top c - KSTKSIZE)"
proof -
  have g: "unat KSTKGAP = 0x8000" by (simp add: KSTKGAP_def PGSIZE_def)
  show ?thesis
    using assms kstack_top_unat(1)[of e] kstack_top_unat(2)[of c] unfolding g NCPU_def by auto
qed

text \<open>What a processor that is set up relies on.\<close>

definition tss_ready :: "(nat \<Rightarrow> u32) \<Rightarrow> desc_state \<Rightarrow> nat \<Rightarrow> bool" where
  "tss_ready ta d c \<longleftrightarrow>
     gdt d ! (5 + c) = busy_tss (ta c) \<and> ts_esp0 (cpu_ts d c) = kstack_top c \<and> ts_ss0 (cpu_ts d c) = GD_KD
     \<and> r_tr (segs d c) = GD_TSS0 + 8 * word_of_nat c"

lemma trap_init_percpu_keeps:
  assumes "c < NCPU" and "ids c = word_of_nat c" and "length (gdt d) = 13"
  shows "\<exists>d1. trap_init_percpu ia ta ids d c = Inr d1 \<and> length (gdt d1) = 13 \<and> take 5 (gdt d1) = take 5 (gdt d)
     \<and> tss_ready ta d1 c \<and> (\<forall>e. tss_ready ta d e \<longrightarrow> tss_ready ta d1 e)"
  using assms by (auto simp: trap_init_percpu_step tss_ready_def kstack_top_def nth_list_update NCPU_def)

lemma trap_init_percpu_all:
  assumes "set cs \<subseteq> {..<NCPU}" and "\<forall>c<NCPU. ids c = word_of_nat c" and "length (gdt d) = 13"
  shows "\<exists>d1. run_steps (trap_init_percpu ia ta ids) d cs = Inr d1 \<and> length (gdt d1) = 13
     \<and> take 5 (gdt d1) = take 5 (gdt d) \<and> (\<forall>c\<in>set cs. tss_ready ta d1 c)
     \<and> (\<forall>e. tss_ready ta d e \<longrightarrow> tss_ready ta d1 e)"
  using assms(1,3)
proof (induction cs arbitrary: d)
  case (Cons c cs)
  from Cons.prems assms(2) trap_init_percpu_keeps[of c ids d ia ta] obtain d1
    where d1: "trap_init_percpu ia ta ids d c = Inr d1" "length (gdt d1) = 13" "take 5 (gdt d1) = take 5 (gdt d)"
      "tss_ready ta d1 c" "\<forall>e. tss_ready ta d e \<longrightarrow> tss_ready ta d1 e" by auto
  from Cons.IH[of d1] Cons.prems(1) d1(2) obtain d2
    where "run_steps (trap_init_percpu ia ta ids) d1 cs = Inr d2" "length (gdt d2) = 13"
      "take 5 (gdt d2) = take 5 (gdt d1)" "\<forall>c\<in>set cs. tss_ready ta d2 c"
      "\<forall>e. tss_ready ta d1 e \<longrightarrow> tss_ready ta d2 e" by auto
  with d1 show ?case by auto
qed simp

text \<open>C23: The processors may set themselves up in any order: no load of a task register faults, the code
  and data segments stay as the table had them, and each processor's task register selects a
  descriptor of its own, marked busy, that describes exactly its own task state at privilege 0. The
  stacks those task states name for traps from user mode are disjoint, with the guard gap between
  every two.\<close>

theorem processors_get_own_stack:
  assumes "set cs \<subseteq> {..<NCPU}" and "\<forall>c<NCPU. ids c = word_of_nat c" and "gdt d = gdt0"
  shows "\<exists>d1. run_steps (trap_init_percpu idt_addr ts_addr ids) d cs = Inr d1 \<and> take 5 (gdt d1) = take 5 gdt0
     \<and> (\<forall>c\<in>set cs. let t = gdt d1 ! unat (drop_bit 3 (r_tr (segs d1 c))) in
          seg_base t = ts_addr c \<and> seg_limit t = sizeof_Taskstate - 1 \<and> sd_s t = 0 \<and> sd_type t = STS_T32B
          \<and> sd_dpl t = 0 \<and> sd_p t = 1 \<and> ts_ss0 (cpu_ts d1 c) = GD_KD)
     \<and> (\<forall>c\<in>set cs. \<forall>e\<in>set cs. c < e \<longrightarrow>
          unat (ts_esp0 (cpu_ts d1 e)) + unat KSTKGAP \<le> unat (ts_esp0 (cpu_ts d1 c) - KSTKSIZE))"
proof -
  from trap_init_percpu_all[OF assms(1,2), of d idt_addr ts_addr] assms(3) gdt0_length obtain d1
    where d1: "run_steps (trap_init_percpu idt_addr ts_addr ids) d cs = Inr d1" "take 5 (gdt d1) = take 5 gdt0"
      "\<forall>c\<in>set cs. tss_ready ts_addr d1 c" by auto
  have b: "c < NCPU" if "c \<in> set cs" for c using that assms(1) by auto
  have "unat (drop_bit 3 (GD_TSS0 + 8 * word_of_nat c)) = 5 + c" if "c \<in> set cs" for c
    using cpu_below_NCPU[OF b[OF that]] by (auto simp: GD_TSS0_def)
  moreover have "unat (kstack_top e) + unat KSTKGAP \<le> unat (kstack_top c - KSTKSIZE)"
    if "e \<in> set cs" "c < e" for c e using kernel_stacks_apart[OF that(2) b[OF that(1)]] .
  ultimately show ?thesis using d1 by (auto simp: tss_ready_def busy_tss_describes Let_def)
qed

definition zero_ts :: taskstate where
  "zero_ts = \<lparr>ts_link = 0, ts_esp0 = 0, ts_ss0 = 0, ts_padding1 = 0, ts_esp1 = 0, ts_ss1 = 0, ts_padding2 =
      0, ts_esp2 = 0, ts_ss2 = 0, ts_padding3 = 0, ts_cr3 = 0, ts_eip = 0, ts_eflags = 0, ts_eax =
      0, ts_ecx = 0, ts_edx = 0, ts_ebx = 0, ts_esp = 0, ts_ebp = 0, ts_esi = 0, ts_edi = 0, ts_es =
      0, ts_padding4 = 0, ts_cs = 0, ts_padding5 = 0, ts_ss = 0, ts_padding6 = 0, ts_ds = 0,
      ts_padding7 = 0, ts_fs = 0, ts_padding8 = 0, ts_gs = 0, ts_padding9 = 0, ts_ldt = 0,
      ts_padding10 = 0, ts_t = 0, ts_iomb = 0\<rparr>"

definition demo_descs :: desc_state where
  "demo_descs = \<lparr>gdt = gdt0, cpu_ts = (\<lambda>_. zero_ts),
     segs = (\<lambda>_. \<lparr>r_gdtr = gdt_pd 0, r_idtr = idt_pd 0, r_ldtr = 0, r_tr = 0, r_cs = 0, r_ds = 0, r_es = 0,
       r_ss = 0, r_fs = 0, r_gs = 0\<rparr>)\<rparr>"

lemma processors_get_own_stack_witness:
  "\<exists>d1. run_steps (trap_init_percpu 0xF0200000 (\<lambda>c. 0xF0300000 + 116 * word_of_nat c) word_of_nat) demo_descs [2, 0, 1]
       = Inr d1 \<and> unat (ts_esp0 (cpu_ts d1 2)) + unat KSTKGAP \<le> unat (ts_esp0 (cpu_ts d1 0) - KSTKSIZE)"
proof -
  from processors_get_own_stack[of "[2, 0, 1]" word_of_nat demo_descs "0xF0200000"
      "\<lambda>c. 0xF0300000 + 116 * word_of_nat c"]
  show ?thesis by (auto simp: NCPU_def demo_descs_def)
qed

section \<open>The segments in use are flat\<close>

definition selected :: "u16 \<Rightarrow> segdesc" where
  "selected sel = gdt0 ! unat (drop_bit 3 sel)"

definition flat_segment :: "segdesc \<Rightarrow> bool" where
  "flat_segment t \<longleftrightarrow> seg_base t = 0 \<and> seg_limit t = 0xffffffff \<and> sd_p t = 1 \<and> sd_s t = 1"

lemma gd_index:
  "unat (drop_bit 3 GD_KT) = 1" "unat (drop_bit 3 GD_KD) = 2" "unat (drop_bit 3 GD_UT) = 3"
  "unat (drop_bit 3 GD_UD) = 4" "unat (drop_bit 3 GD_TSS0) = 5"
  by (simp_all add: gd_defs)

lemma gdt0_nth:
  "selected GD_KT = SEG (STA_X OR STA_R) 0 0xffffffff 0" "selected GD_KD = SEG STA_W 0 0xffffffff 0"
  "selected GD_UT = SEG (STA_X OR STA_R) 0 0xffffffff 3" "selected GD_UD = SEG STA_W 0 0xffffffff 3"
  unfolding selected_def gdt0_def gd_index NCPU_def by (simp_all add: nth_list_update del: list_update.simps)

lemma flat_SEG: "flat_segment (SEG ty 0 0xffffffff dpl)"
proof -
  have "(0xffffffff :: u32) OR 0xfff = 0xffffffff" by simp
  then show ?thesis unfolding flat_segment_def seg_base_SEG seg_limit_SEG by (simp add: SEG_def)
qed

theorem env_init_percpu_flat:
  "let r = env_init_percpu gdt_addr r0 in
     (\<forall>sel\<in>{r_cs r, r_ds r, r_es r, r_ss r, r_fs r, r_gs r}. flat_segment (selected sel))
     \<and> sd_type (selected (r_cs r)) = STA_X OR STA_R \<and> sd_dpl (selected (r_cs r)) = 0
     \<and> (\<forall>sel\<in>{r_ds r, r_es r, r_ss r}. sd_type (selected sel) = STA_W \<and> sd_dpl (selected sel) = 0)
     \<and> unat (pd_lim (r_gdtr r)) + 1 = length (concat (map segdesc_bytes gdt0))"
proof -
  have u: "selected (GD_UD OR 3) = selected GD_UD" by (simp add: selected_def GD_UD_def)
  have l: "length (concat (map segdesc_bytes ds)) = 8 * length ds" for ds
    by (induction ds) (simp_all add: segdesc_bytes_def)
  show ?thesis
    unfolding env_init_percpu_def Let_def
    by (simp add: u gdt0_nth flat_SEG l gdt0_length gdt_pd_def segdesc_bytes_def NCPU_def) (simp add: SEG_def)
qed

text \<open>A call gate, which the kernel does not use.\<close>

definition SETCALLGATE :: "(u32 \<Rightarrow> gate option) \<Rightarrow> u32 \<Rightarrow> u16 \<Rightarrow> u32 \<Rightarrow> nat \<Rightarrow> u32 \<Rightarrow> gate option" where
  "SETCALLGATE gates n sel off dpl =
     gates(n \<mapsto> \<lparr>gd_off_15_0 = ucast (off AND 0xffff), gd_sel = sel, gd_args = 0, gd_rsv1 = 0,
       gd_type = STS_CG32, gd_s = 0, gd_dpl = dpl, gd_p = 1, gd_off_31_16 = ucast (drop_bit 16 off)\<rparr>)"

end
