(* ===== verification/Printfmt.thy ===== *)
theory Printfmt
  imports Klib
begin

unbundle bit_operations_syntax

text \<open>
  Formatted output: \<^verbatim>\<open>lib/printfmt.c\<close> and \<^verbatim>\<open>lib/printf.c\<close>. What is given to \<^verbatim>\<open>putch\<close> is the list of
  the characters. The variable arguments are 32-bit slots; \<open>str\<close> reads the string at an address.
  Taking an argument that was not passed is the use of an uninitialised value.
\<close>

section \<open>Numbers\<close>

definition digit :: "nat \<Rightarrow> char" where
  "digit d = ''0123456789abcdef'' ! d"

text \<open>\<^verbatim>\<open>printnum\<close>: the bases of the callers are 8, 10 and 16; below 2 the recursion would not end.\<close>

function printnum :: "nat \<Rightarrow> nat \<Rightarrow> int \<Rightarrow> char \<Rightarrow> string" where
  "printnum num base width padc =
     (if num \<ge> base \<and> base \<ge> 2 then printnum (num div base) base (width - 1) padc
      else replicate (nat (width - 1)) padc) @ [digit (num mod base)]"
  by pat_completeness auto
termination by (relation "measure (\<lambda>(num, _, _, _). num)") auto

declare printnum.simps [simp del]

section \<open>Arguments\<close>

type_synonym va_list = "u32 list"

fun va_int :: "va_list \<Rightarrow> fault + (u32 \<times> va_list)" where
  "va_int [] = Inl Uninit"
| "va_int (a # ap) = Inr (a, ap)"

definition va_long_long :: "va_list \<Rightarrow> fault + (u64 \<times> va_list)" where
  "va_long_long ap =
     chain (va_int ap) (\<lambda>(lo, ap1). chain (va_int ap1) (\<lambda>(hi, ap2).
       Inr (push_bit 32 (ucast hi) OR ucast lo, ap2)))"

definition getuint :: "va_list \<Rightarrow> nat \<Rightarrow> fault + (u64 \<times> va_list)" where
  "getuint ap lflag =
     (if lflag \<ge> 2 then va_long_long ap else chain (va_int ap) (\<lambda>(a, ap1). Inr (ucast a, ap1)))"

definition getint :: "va_list \<Rightarrow> nat \<Rightarrow> fault + (u64 \<times> va_list)" where
  "getint ap lflag =
     (if lflag \<ge> 2 then va_long_long ap else chain (va_int ap) (\<lambda>(a, ap1). Inr (scast a, ap1)))"

section \<open>Conversions\<close>

definition error_string :: "string list" where
  "error_string = ['''', ''unspecified error'', ''bad environment'', ''invalid parameter'',
     ''out of memory'', ''out of environments'', ''segmentation fault'', ''env is not recving'',
     ''unexpected end of file'']"

text \<open>The flags of one conversion.\<close>

record flags =
  padc :: char
  width :: int
  precision :: int
  lflag :: nat
  altflag :: bool

definition no_flags :: flags where
  "no_flags = \<lparr>padc = CHR '' '', width = -1, precision = -1, lflag = 0, altflag = False\<rparr>"

definition process_precision :: "flags \<Rightarrow> flags" where
  "process_precision f =
     (if width f < 0 then f\<lparr>width := precision f, precision := -1\<rparr> else f)"

text \<open>The case \<^verbatim>\<open>'s'\<close>: padding in front, the characters up to the precision, spaces behind.\<close>

definition print_string :: "flags \<Rightarrow> string \<Rightarrow> string" where
  "print_string f p =
     (let shown = (if precision f < 0 then p else take (nat (precision f)) p);
          w1 = (if width f > 0 \<and> padc f \<noteq> CHR ''-'' then width f - int (length shown) else width f);
          before = (if width f > 0 \<and> padc f \<noteq> CHR ''-'' then replicate (nat w1) (padc f) else []);
          w2 = (if width f > 0 \<and> padc f \<noteq> CHR ''-'' then min w1 0 else w1);
          w3 = w2 - int (length shown);
          sub = (\<lambda>c. if altflag f \<and> (of_char c < (32 :: nat) \<or> of_char c > (126 :: nat)) then CHR ''?'' else c) in
      before @ map sub shown @ replicate (nat w3) CHR '' '')"

definition print_number :: "flags \<Rightarrow> u64 \<Rightarrow> nat \<Rightarrow> string" where
  "print_number f num base = printnum (unat num) base (width f) (padc f)"

definition is_digit :: "char \<Rightarrow> bool" where
  "is_digit c \<longleftrightarrow> 48 \<le> (of_char c :: nat) \<and> of_char c \<le> (57 :: nat)"

definition dec_value :: "string \<Rightarrow> int" where
  "dec_value s = foldl (\<lambda>v c. v * 10 + (of_char c - 48)) 0 s"

text \<open>The case \<^verbatim>\<open>'e'\<close>: \<^verbatim>\<open>printfmt\<close> is called again with a fixed format. The negation of the least
  number is that number, which then indexes in front of the table.\<close>

definition print_error :: "u32 \<Rightarrow> fault + string" where
  "print_error a =
     (let err = (if sint a < 0 then sint (- a) else sint a) in
      if err < 0 then Inl OutOfBounds
      else if err \<ge> int (length error_string) \<or> err = 0
        then Inr (''error '' @ printnum (nat err) 10 (-1) CHR '' '')
      else Inr (error_string ! nat err))"

text \<open>
  One escape sequence: \<open>after\<close> is the format behind its \<^verbatim>\<open>%\<close>, where the code goes on after an
  unrecognised sequence. The result is the output, the format that is left and the arguments.
\<close>

function conversion ::
    "(u32 \<Rightarrow> string) \<Rightarrow> string \<Rightarrow> flags \<Rightarrow> string \<Rightarrow> va_list \<Rightarrow> fault + (string \<times> string \<times> va_list)" where
  "conversion str after f [] ap = Inr (''%'', after, ap)"
| "conversion str after f (ch # fmt) ap =
     (if ch = CHR ''-'' then conversion str after (f\<lparr>padc := CHR ''-''\<rparr>) fmt ap
      else if ch = CHR ''0'' then conversion str after (f\<lparr>padc := CHR ''0''\<rparr>) fmt ap
      else if is_digit ch then
        let digits = ch # takeWhile is_digit fmt in
        conversion str after (process_precision (f\<lparr>precision := dec_value digits\<rparr>)) (dropWhile is_digit fmt) ap
      else if ch = CHR ''*'' then
        chain (va_int ap) (\<lambda>(a, ap1).
          conversion str after (process_precision (f\<lparr>precision := sint a\<rparr>)) fmt ap1)
      else if ch = CHR ''.'' then
        conversion str after (if width f < 0 then f\<lparr>width := 0\<rparr> else f) fmt ap
      else if ch = CHR ''#'' then conversion str after (f\<lparr>altflag := True\<rparr>) fmt ap
      else if ch = CHR ''l'' then conversion str after (f\<lparr>lflag := lflag f + 1\<rparr>) fmt ap
      else if ch = CHR ''c'' then
        chain (va_int ap) (\<lambda>(a, ap1). Inr ([char_of (unat a)], fmt, ap1))
      else if ch = CHR ''e'' then
        chain (va_int ap) (\<lambda>(a, ap1). chain (print_error a) (\<lambda>out. Inr (out, fmt, ap1)))
      else if ch = CHR ''s'' then
        chain (va_int ap) (\<lambda>(a, ap1).
          Inr (print_string f (if a = 0 then ''(null)'' else str a), fmt, ap1))
      else if ch = CHR ''d'' then
        chain (getint ap (lflag f)) (\<lambda>(num, ap1).
          if sint num < 0 then Inr (''-'' @ print_number f (- num) 10, fmt, ap1)
          else Inr (print_number f num 10, fmt, ap1))
      else if ch = CHR ''u'' then
        chain (getuint ap (lflag f)) (\<lambda>(num, ap1). Inr (print_number f num 10, fmt, ap1))
      else if ch = CHR ''o'' then
        chain (getuint ap (lflag f)) (\<lambda>(num, ap1). Inr (print_number f num 8, fmt, ap1))
      else if ch = CHR ''p'' then
        chain (va_int ap) (\<lambda>(a, ap1). Inr (''0x'' @ print_number f (ucast a) 16, fmt, ap1))
      else if ch = CHR ''x'' then
        chain (getuint ap (lflag f)) (\<lambda>(num, ap1). Inr (print_number f num 16, fmt, ap1))
      else if ch = CHR ''%'' then Inr (''%'', fmt, ap)
      else Inr (''%'', after, ap))"
  by pat_completeness auto
termination
  by (relation "measure (\<lambda>(_, _, _, fmt, _). length fmt)") (auto simp: le_imp_less_Suc length_dropWhile_le)

declare conversion.simps [simp del]

lemma conversion_shorter:
  "conversion str after f fmt ap = Inr (out, rest, ap') \<Longrightarrow> length rest \<le> max (length after) (length fmt)"
proof (induction str after f fmt ap arbitrary: out rest ap' rule: conversion.induct)
  case (1 str after f ap)
  then show ?case by (simp add: conversion.simps)
next
  case (2 str after f ch fmt ap)
  have d: "length (dropWhile is_digit fmt) \<le> length fmt" by (rule length_dropWhile_le)
  note p = "2.prems"[unfolded conversion.simps(2)]
  have w: "n \<le> max (length after) (length fmt) \<Longrightarrow> n \<le> max (length after) (length (ch # fmt))" for n
    by simp
  consider "ch = CHR ''-''" | "ch = CHR ''0''" | "is_digit ch" "ch \<noteq> CHR ''-''" "ch \<noteq> CHR ''0''"
    | "ch = CHR ''*''" | "ch = CHR ''.''" | "ch = CHR ''#''" | "ch = CHR ''l''"
    | "ch \<notin> {CHR ''-'', CHR ''0'', CHR ''*'', CHR ''.'', CHR ''#'', CHR ''l''}" "\<not> is_digit ch" by blast
  then show ?case
  proof cases
    case 1 with p "2.IH"(1) show ?thesis by (auto intro: w)
  next
    case 2 with p "2.IH"(2) show ?thesis by (auto intro: w)
  next
    case 3 with p "2.IH"(3) d show ?thesis by (fastforce simp: Let_def)
  next
    case 4
    with p obtain a ap1 where a: "va_int ap = Inr (a, ap1)"
      "conversion str after (process_precision (f\<lparr>precision := sint a\<rparr>)) fmt ap1 = Inr (out, rest, ap')"
      by (auto simp: is_digit_def chain_eq_Inr)
    from 4 "2.IH"(4)[OF _ _ _ _ a(1) refl a(2)] show ?thesis by (auto simp: is_digit_def intro: w)
  next
    case 5 with p "2.IH"(5) show ?thesis by (auto simp: is_digit_def intro: w)
  next
    case 6 with p "2.IH"(6) show ?thesis by (auto simp: is_digit_def intro: w)
  next
    case 7 with p "2.IH"(7) show ?thesis by (auto simp: is_digit_def intro: w)
  next
    case 8 with p show ?thesis by (auto simp: chain_eq_Inr split: if_splits)
  qed
qed

section \<open>\<^verbatim>\<open>vprintfmt\<close>\<close>

function vprintfmt :: "(u32 \<Rightarrow> string) \<Rightarrow> string \<Rightarrow> va_list \<Rightarrow> fault + string" where
  "vprintfmt str [] ap = Inr []"
| "vprintfmt str (ch # fmt) ap =
     (if ch \<noteq> CHR ''%'' then chain (vprintfmt str fmt ap) (\<lambda>out. Inr (ch # out))
      else chain (conversion str fmt no_flags fmt ap) (\<lambda>(out, rest, ap1).
           chain (vprintfmt str rest ap1) (\<lambda>out1. Inr (out @ out1))))"
  by pat_completeness auto
termination
  by (relation "measure (\<lambda>(_, fmt, _). length fmt)") (auto dest: conversion_shorter)

section \<open>Output to a buffer and to the console\<close>

record sprintbuf =
  sb_buf :: "char list"
  sb_pos :: nat
  sb_end :: nat
  sb_cnt :: nat

definition sprintputch :: "sprintbuf \<Rightarrow> char \<Rightarrow> sprintbuf" where
  "sprintputch b ch =
     (let b1 = b\<lparr>sb_cnt := sb_cnt b + 1\<rparr> in
      if sb_pos b < sb_end b then b1\<lparr>sb_buf := (sb_buf b)[sb_pos b := ch], sb_pos := sb_pos b + 1\<rparr> else b1)"

text \<open>\<^verbatim>\<open>vsnprintf\<close> into a buffer, None being the null pointer; the answer with the new buffer.\<close>

definition vsnprintf ::
    "(u32 \<Rightarrow> string) \<Rightarrow> char list option \<Rightarrow> int \<Rightarrow> string \<Rightarrow> va_list \<Rightarrow> fault + (int \<times> char list option)" where
  "vsnprintf str buf n fmt ap =
     (case buf of
        None \<Rightarrow> Inr (-3, None)
      | Some bytes \<Rightarrow>
          if n < 1 then Inr (-3, buf)
          else chain (vprintfmt str fmt ap) (\<lambda>out.
            let b = foldl sprintputch \<lparr>sb_buf = bytes, sb_pos = 0, sb_end = nat (n - 1), sb_cnt = 0\<rparr> out in
            Inr (int (sb_cnt b), Some ((sb_buf b)[sb_pos b := NUL]))))"

text \<open>\<^verbatim>\<open>lib/printf.c\<close>: characters are collected and passed on by \<^verbatim>\<open>sys_cputs\<close>, 255 at a time.\<close>

record printbuf =
  pb_buf :: string
  pb_cnt :: nat
  pb_sent :: "string list"

definition printbuf_putch :: "printbuf \<Rightarrow> char \<Rightarrow> printbuf" where
  "printbuf_putch b ch =
     (let b1 = b\<lparr>pb_buf := pb_buf b @ [ch]\<rparr>;
          b2 = (if length (pb_buf b1) = 256 - 1 then b1\<lparr>pb_sent := pb_sent b1 @ [pb_buf b1], pb_buf := []\<rparr> else b1) in
      b2\<lparr>pb_cnt := pb_cnt b + 1\<rparr>)"

definition vcprintf :: "(u32 \<Rightarrow> string) \<Rightarrow> string \<Rightarrow> va_list \<Rightarrow> fault + (nat \<times> string list)" where
  "vcprintf str fmt ap =
     chain (vprintfmt str fmt ap) (\<lambda>out.
       let b = foldl printbuf_putch \<lparr>pb_buf = [], pb_cnt = 0, pb_sent = []\<rparr> out in
       Inr (pb_cnt b, pb_sent b @ [pb_buf b]))"

lemma printbuf_all:
  assumes "length (pb_buf b) < 255" and "\<forall>c\<in>set (pb_sent b). length c = 255"
  shows "concat (pb_sent (foldl printbuf_putch b out)) @ pb_buf (foldl printbuf_putch b out) =
           concat (pb_sent b) @ pb_buf b @ out
     \<and> pb_cnt (foldl printbuf_putch b out) = pb_cnt b + length out
     \<and> length (pb_buf (foldl printbuf_putch b out)) < 255
     \<and> (\<forall>c\<in>set (pb_sent (foldl printbuf_putch b out)). length c = 255)"
  using assms
proof (induction out arbitrary: b)
  case (Cons ch out)
  have "length (pb_buf (printbuf_putch b ch)) < 255" "\<forall>c\<in>set (pb_sent (printbuf_putch b ch)). length c = 255"
    "concat (pb_sent (printbuf_putch b ch)) @ pb_buf (printbuf_putch b ch) = concat (pb_sent b) @ pb_buf b @ [ch]"
    "pb_cnt (printbuf_putch b ch) = Suc (pb_cnt b)"
    using Cons.prems by (auto simp: printbuf_putch_def Let_def)
  with Cons.IH[of "printbuf_putch b ch"] show ?case by simp
qed simp

theorem vcprintf_sends_all:
  "vprintfmt str fmt ap = Inr out \<Longrightarrow>
     \<exists>sent. vcprintf str fmt ap = Inr (length out, sent) \<and> concat sent = out \<and> (\<forall>c\<in>set sent. length c \<le> 255)"
  using printbuf_all[of "\<lparr>pb_buf = [], pb_cnt = 0, pb_sent = []\<rparr>" out]
  by (auto simp: vcprintf_def Let_def)

lemma sprintputch_all:
  assumes "sb_pos b \<le> sb_end b" and "sb_end b < length (sb_buf b)"
  shows "foldl sprintputch b out =
    b\<lparr>sb_buf := take (sb_pos b) (sb_buf b) @ take (sb_end b - sb_pos b) out
                 @ drop (sb_pos b + min (sb_end b - sb_pos b) (length out)) (sb_buf b),
      sb_pos := sb_pos b + min (sb_end b - sb_pos b) (length out), sb_cnt := sb_cnt b + length out\<rparr>"
  using assms
proof (induction out arbitrary: b)
  case (Cons ch out)
  show ?case
  proof (cases "sb_pos b < sb_end b")
    case True
    have "take (Suc (sb_pos b)) ((sb_buf b)[sb_pos b := ch]) = take (sb_pos b) (sb_buf b) @ [ch]"
      using True Cons.prems by (simp add: take_Suc_conv_app_nth)
    moreover obtain k where "sb_end b - sb_pos b = Suc k" "sb_end b - Suc (sb_pos b) = k"
      using True by (metis Suc_diff_Suc)
    ultimately show ?thesis
      using True Cons.prems Cons.IH[of "sprintputch b ch"] by (simp add: sprintputch_def Let_def)
  next
    case False
    then show ?thesis using Cons.prems Cons.IH[of "sprintputch b ch"] by (simp add: sprintputch_def Let_def)
  qed
qed simp

text \<open>\<^verbatim>\<open>vsnprintf\<close> answers the length of the whole text and leaves in the buffer as much of it as
  fits, always with a terminator and never beyond the \<open>n\<close> bytes it was given.\<close>

theorem vsnprintf_truncates:
  assumes "vprintfmt str fmt ap = Inr out" and "1 \<le> n" and "nat n \<le> length bytes"
  shows "vsnprintf str (Some bytes) n fmt ap =
     Inr (int (length out), Some (take (nat n - 1) out @ NUL # drop (Suc (min (nat n - 1) (length out))) bytes))"
proof -
  let ?e = "nat (n - 1)" and ?k = "min (nat n - 1) (length out)"
  have e: "?e = nat n - 1" "?e < length bytes" using assms(2,3) by linarith+
  have k: "?k < length bytes" using e by simp
  have "(take ?e out @ drop ?k bytes)[?k := NUL] = take ?e out @ NUL # drop (Suc ?k) bytes"
    using list_update_length[of "take ?e out" "bytes ! ?k" "drop (Suc ?k) bytes" NUL] k e
    by (simp add: Cons_nth_drop_Suc min.commute)
  then show ?thesis
    using sprintputch_all[of "\<lparr>sb_buf = bytes, sb_pos = 0, sb_end = ?e, sb_cnt = 0\<rparr>" out] assms(1,2) e
    by (simp add: vsnprintf_def Let_def)
qed

lemma vsnprintf_truncates_witness:
  "vsnprintf (\<lambda>_. []) (Some (replicate 4 CHR ''.'')) 4 ''kernel'' [] = Inr (6, Some (''ker'' @ [NUL]))"
  using vsnprintf_truncates[of "\<lambda>_. []" "''kernel''" "[]" "''kernel''" 4 "replicate 4 CHR ''.''"] by simp

section \<open>Printed numbers are read back\<close>

lemma digit_of_digit: "d < 16 \<Longrightarrow> digit_of (digit d) = Some (int d)"
proof -
  have "\<forall>d\<in>set [0..<16]. digit_of (digit d) = Some (int d)" by code_simp
  then show "d < 16 \<Longrightarrow> digit_of (digit d) = Some (int d)" by simp
qed

fun ndigits :: "nat \<Rightarrow> nat \<Rightarrow> nat" where
  "ndigits base n = (if n \<ge> base \<and> base \<ge> 2 then Suc (ndigits base (n div base)) else 1)"

declare ndigits.simps [simp del]

lemma strtol_printnum:
  assumes "2 \<le> base" and "base \<le> 16" and "wd \<le> 1"
  shows "strtol_digits (int base) val (printnum n base wd c @ rest) =
     strtol_digits (int base) (val * word_of_nat base ^ ndigits base n + word_of_nat n) rest"
  using assms(3)
proof (induction n arbitrary: wd val rest rule: less_induct)
  case (less n)
  have lt: "n mod base < base" using assms by simp
  then have "n mod base < 16" using assms(2) by linarith
  with lt have d: "digit_of (digit (n mod base)) = Some (int (n mod base))" "int (n mod base) < int base"
    using digit_of_digit by (blast, simp only: of_nat_less_iff)
  show ?case
  proof (cases "n \<ge> base")
    case True
    then have "n div base < n" using assms by simp
    note IH = less.IH[OF this, of "wd - 1" val "digit (n mod base) # rest"]
    define B where "B = (word_of_nat base :: u32)"
    define k where "k = ndigits base (n div base)"
    have "word_of_nat n = (word_of_nat (n div base) * B + word_of_nat (n mod base) :: u32)"
      unfolding B_def by (metis div_mult_mod_eq of_nat_add of_nat_mult)
    then have e: "(val * B ^ k + word_of_nat (n div base)) * B + word_of_nat (n mod base) =
        val * (B * B ^ k) + word_of_nat n"
      by (simp add: algebra_simps)
    have "strtol_digits (int base) val (printnum n base wd c @ rest) =
        strtol_digits (int base) (val * B ^ k + word_of_nat (n div base)) (digit (n mod base) # rest)"
      using True assms IH less.prems by (subst printnum.simps) (simp add: B_def k_def)
    also have "\<dots> = strtol_digits (int base) (val * (B * B ^ k) + word_of_nat n) rest"
      using d e by (simp add: B_def)
    finally show ?thesis
      using True assms by (subst ndigits.simps) (simp add: B_def k_def)
  next
    case False
    then show ?thesis using assms less.prems d
      by (subst printnum.simps, subst ndigits.simps) simp
  qed
qed

lemma printnum_chars:
  "2 \<le> base \<Longrightarrow> base \<le> 16 \<Longrightarrow> wd \<le> 1 \<Longrightarrow> set (printnum n base wd c) \<subseteq> set ''0123456789abcdef''"
proof (induction n arbitrary: wd rule: less_induct)
  case (less n)
  have "digit (n mod base) \<in> set ''0123456789abcdef''"
    unfolding digit_def using less.prems by (intro nth_mem) (simp add: less_le_trans[OF mod_less_divisor])
  moreover have "set (printnum (n div base) base (wd - 1) c) \<subseteq> set ''0123456789abcdef''" if "n \<ge> base"
    using less.IH[of "n div base" "wd - 1"] less.prems that by simp
  ultimately show ?case using less.prems by (subst printnum.simps) auto
qed

lemma printnum_not_Nil: "printnum n base wd c \<noteq> []"
  by (subst printnum.simps) simp

lemma strtol_plain:
  assumes "2 \<le> base" and "base \<le> 16" and "wd \<le> 1"
  shows "strtol (printnum n base wd c) (int base) = (sint (word_of_nat n :: u32), [])"
    and "strtol (''-'' @ printnum n base wd c) (int base) = (sint (- word_of_nat n :: u32), [])"
proof -
  obtain x xs where x: "printnum n base wd c = x # xs" using printnum_not_Nil by (cases "printnum n base wd c") auto
  have ch: "set (x # xs) \<subseteq> set ''0123456789abcdef''" using printnum_chars[OF assms, of n c] x by simp
  have no_x: "take 2 (x # xs) \<noteq> ''0x''" using ch by (cases xs) auto
  have sign: "x \<noteq> CHR '' ''" "x \<noteq> CHR 0x09" "x \<noteq> CHR ''+''" "x \<noteq> CHR ''-''" using ch by auto
  have d: "strtol_digits (int base) 0 (x # xs) = (word_of_nat n, [])"
    using strtol_printnum[OF assms, of 0 n c "[]"] x by simp
  have b: "int base \<noteq> 0" using assms by simp
  show "strtol (printnum n base wd c) (int base) = (sint (word_of_nat n :: u32), [])"
    unfolding x strtol_def Let_def using sign no_x d b by (auto simp del: strtol_digits.simps)
  show "strtol (''-'' @ printnum n base wd c) (int base) = (sint (- word_of_nat n :: u32), [])"
    unfolding x strtol_def Let_def using sign no_x d b by (auto simp del: strtol_digits.simps)
qed

lemma word_lemmas64:
  fixes x :: u64 and w :: u32
  shows "(ucast (- x) :: u32) = - ucast x" and "(ucast (scast w :: u64) :: u32) = w"
    and "(ucast (ucast w :: u64) :: u32) = w" and "sint (scast w :: u64) = sint w"
proof -
  show "(ucast (- x) :: u32) = - ucast x"
  proof transfer
    fix x :: int
    have "take_bit 32 (- take_bit 64 x) = take_bit 32 (- take_bit 32 (take_bit 64 x))"
      by (simp only: take_bit_minus)
    also have "\<dots> = take_bit 32 (- x)" by (simp add: take_bit_minus)
    finally show "take_bit LENGTH(32) (take_bit LENGTH(64) (- x)) = take_bit LENGTH(32) (- take_bit LENGTH(64) x)"
      by simp
  qed
  show "(ucast (scast w :: u64) :: u32) = w" "(ucast (ucast w :: u64) :: u32) = w"
    by (rule bit_word_eqI, simp add: bit_simps)+
  show "sint (scast w :: u64) = sint w" by transfer (simp add: signed_take_bit_signed_take_bit)
qed

text \<open>The formats without flags.\<close>

lemma vprintfmt_d:
  "vprintfmt str ''%d'' [w] = Inr (if sint w < 0 then ''-'' @ printnum (unat (- scast w :: u64)) 10 (-1) CHR '' ''
     else printnum (unat (scast w :: u64)) 10 (-1) CHR '' '')"
  by (simp add: conversion.simps is_digit_def getint_def word_lemmas64 print_number_def no_flags_def)

lemma vprintfmt_x:
  "vprintfmt str ''%x'' [w] = Inr (printnum (unat (ucast w :: u64)) 16 (-1) CHR '' '')"
  by (simp add: conversion.simps is_digit_def getuint_def print_number_def no_flags_def)

lemma vprintfmt_o:
  "vprintfmt str ''%o'' [w] = Inr (printnum (unat (ucast w :: u64)) 8 (-1) CHR '' '')"
  by (simp add: conversion.simps is_digit_def getuint_def print_number_def no_flags_def)

text \<open>C31: Whatever number the formats \<^verbatim>\<open>%d\<close>, \<^verbatim>\<open>%x\<close> and \<^verbatim>\<open>%o\<close> print, \<^verbatim>\<open>strtol\<close> with base 10, 16 or 8 reads
  back as the same 32-bit value, and it takes the whole text.\<close>

theorem printed_number_reads_back:
  "\<exists>dec hex oct. vprintfmt str ''%d'' [w] = Inr dec \<and> strtol dec 10 = (sint w, [])
     \<and> vprintfmt str ''%x'' [w] = Inr hex \<and> strtol hex 16 = (sint w, [])
     \<and> vprintfmt str ''%o'' [w] = Inr oct \<and> strtol oct 8 = (sint w, [])"
proof -
  have w: "word_of_nat (unat (x :: u64)) = (ucast x :: u32)" for x by simp
  have "strtol (''-'' @ printnum (unat (- scast w :: u64)) 10 (-1) CHR '' '') 10 = (sint w, [])"
    using strtol_plain(2)[of 10 "-1" "unat (- scast w :: u64)" "CHR '' ''"] by (simp add: w word_lemmas64)
  moreover have "strtol (printnum (unat (scast w :: u64)) 10 (-1) CHR '' '') 10 = (sint w, [])"
    using strtol_plain(1)[of 10 "-1" "unat (scast w :: u64)" "CHR '' ''"] by (simp add: w word_lemmas64)
  moreover have "strtol (printnum (unat (ucast w :: u64)) 16 (-1) CHR '' '') 16 = (sint w, [])"
    using strtol_plain(1)[of 16 "-1" "unat (ucast w :: u64)" "CHR '' ''"] by (simp add: w word_lemmas64)
  moreover have "strtol (printnum (unat (ucast w :: u64)) 8 (-1) CHR '' '') 8 = (sint w, [])"
    using strtol_plain(1)[of 8 "-1" "unat (ucast w :: u64)" "CHR '' ''"] by (simp add: w word_lemmas64)
  ultimately show ?thesis unfolding vprintfmt_d vprintfmt_x vprintfmt_o by simp
qed

end
