(* ===== verification/Monitor.thy ===== *)
theory Monitor
  imports Printfmt Mmu
begin

text \<open>
  Reading and running a command line in the kernel: \<^verbatim>\<open>lib/readline.c\<close> and \<^verbatim>\<open>kern/monitor.c\<close>. The
  characters that \<^verbatim>\<open>getchar\<close> delivers are a list of integers; what is echoed and printed is recorded.
\<close>

section \<open>Reading a line\<close>

definition LINE_BUFLEN :: nat where "LINE_BUFLEN = 1024"

record line_state =
  line_buf :: "char list"
  line_i :: nat
  echoed :: "int list"

definition echo :: "bool \<Rightarrow> int \<Rightarrow> line_state \<Rightarrow> line_state" where
  "echo echoing c s = (if echoing then s\<lparr>echoed := echoed s @ [c]\<rparr> else s)"

definition put_char :: "int \<Rightarrow> line_state \<Rightarrow> fault + line_state" where
  "put_char c s =
     (if line_i s < length (line_buf s) then Inr (s\<lparr>line_buf := (line_buf s)[line_i s := char_of c]\<rparr>)
      else Inl OutOfBounds)"

text \<open>The line, null after a read error, with the characters that follow; None while it waits.\<close>

fun readline_loop ::
    "bool \<Rightarrow> int list \<Rightarrow> line_state \<Rightarrow> fault + (string option \<times> line_state \<times> int list) option" where
  "readline_loop e [] s = Inr None"
| "readline_loop e (c # cs) s =
     (if c < 0 then Inr (Some (None, s, cs))
      else if (c = 8 \<or> c = 0x7f) \<and> line_i s > 0 then
        readline_loop e cs ((echo e 8 s)\<lparr>line_i := line_i s - 1\<rparr>)
      else if c \<ge> 32 \<and> line_i s < LINE_BUFLEN - 1 then
        chain (put_char c (echo e c s)) (\<lambda>s1. readline_loop e cs (s1\<lparr>line_i := line_i s1 + 1\<rparr>))
      else if c = 10 \<or> c = 13 then
        chain (put_char 0 (echo e 10 s)) (\<lambda>s1. Inr (Some (Some (cstr (line_buf s1)), s1, cs)))
      else readline_loop e cs s)"

definition readline ::
    "bool \<Rightarrow> char list \<Rightarrow> int list \<Rightarrow> fault + (string option \<times> line_state \<times> int list) option" where
  "readline e buf cs = readline_loop e cs \<lparr>line_buf = buf, line_i = 0, echoed = []\<rparr>"

section \<open>Running a command (\<^verbatim>\<open>kern/monitor.c\<close>)\<close>

definition WHITESPACE :: string where "WHITESPACE = [CHR 0x09, CHR 0x0D, CHR 0x0A, CHR 0x20]"
definition MON_MAXARGS :: nat where "MON_MAXARGS = 16"

text \<open>The two inner loops: the first puts zero bytes in the place of white space.\<close>

function gobble :: "char list \<Rightarrow> nat \<Rightarrow> fault + (char list \<times> nat)" where
  "gobble b i =
     (if length b \<le> i then Inl OutOfBounds
      else if b ! i \<noteq> NUL \<and> b ! i \<in> set WHITESPACE then gobble (b[i := NUL]) (i + 1)
      else Inr (b, i))"
  by pat_completeness auto
termination by (relation "measure (\<lambda>(b, i). length b - i)") auto

function skip_arg :: "char list \<Rightarrow> nat \<Rightarrow> fault + nat" where
  "skip_arg b i =
     (if length b \<le> i then Inl OutOfBounds
      else if b ! i \<noteq> NUL \<and> b ! i \<notin> set WHITESPACE then skip_arg b (i + 1) else Inr i)"
  by pat_completeness auto
termination by (relation "measure (\<lambda>(b, i). length b - i)") auto

declare gobble.simps [simp del] skip_arg.simps [simp del]

text \<open>What the two loops do to the string they start at.\<close>

definition blank :: "char \<Rightarrow> bool" where
  "blank c \<longleftrightarrow> c \<in> set WHITESPACE"

lemma blank_NUL [simp]: "\<not> blank NUL"
  by (simp add: blank_def WHITESPACE_def)

lemma gobble_eq:
  "length b \<le> i \<Longrightarrow> gobble b i = Inl OutOfBounds"
  "i < length b \<Longrightarrow> blank (b ! i) \<Longrightarrow> gobble b i = gobble (b[i := NUL]) (i + 1)"
  "i < length b \<Longrightarrow> \<not> blank (b ! i) \<Longrightarrow> gobble b i = Inr (b, i)"
  by (auto simp: gobble.simps[of b i] blank_def WHITESPACE_def)

lemma skip_arg_eq:
  "length b \<le> i \<Longrightarrow> skip_arg b i = Inl OutOfBounds"
  "i < length b \<Longrightarrow> b ! i \<noteq> NUL \<Longrightarrow> \<not> blank (b ! i) \<Longrightarrow> skip_arg b i = skip_arg b (i + 1)"
  "i < length b \<Longrightarrow> b ! i = NUL \<or> blank (b ! i) \<Longrightarrow> skip_arg b i = Inr i"
  by (auto simp: skip_arg.simps[of b i] blank_def)

lemma gobble_Inr:
  "gobble b i = Inr (b1, i1) \<Longrightarrow> i \<le> i1 \<and> i1 < length b1 \<and> length b1 = length b \<and> \<not> blank (b1 ! i1)"
proof (induction b i rule: gobble.induct)
  case (1 b i)
  consider "length b \<le> i" | "i < length b" "blank (b ! i)" | "i < length b" "\<not> blank (b ! i)" by linarith
  then show ?case
  proof cases
    case 2
    with 1(1) 1(2) show ?thesis by (force simp: gobble_eq blank_def WHITESPACE_def)
  qed (use 1(2) in \<open>auto simp: gobble_eq\<close>)
qed

lemma skip_arg_Inr: "skip_arg b i = Inr j \<Longrightarrow> i \<le> j \<and> j < length b"
proof (induction b i rule: skip_arg.induct)
  case (1 b i)
  consider "length b \<le> i" | "i < length b" "b ! i \<noteq> NUL" "\<not> blank (b ! i)"
    | "i < length b" "b ! i = NUL \<or> blank (b ! i)" by linarith
  then show ?case
  proof cases
    case 2
    with 1(1) 1(2) show ?thesis by (force simp: skip_arg_eq blank_def)
  qed (use 1(2) in \<open>auto simp: skip_arg_eq\<close>)
qed

lemma skip_arg_moves:
  assumes "skip_arg b i = Inr j" and "b ! i \<noteq> NUL" and "\<not> blank (b ! i)"
  shows "i < j"
proof -
  from assms have "i < length b" by (cases "i < length b") (auto simp: skip_arg_eq)
  with assms have "skip_arg b (i + 1) = Inr j" by (simp add: skip_arg_eq)
  from skip_arg_Inr[OF this] show ?thesis by simp
qed

text \<open>The buffer with its separators replaced and the offsets of the arguments; None when there are
  too many of them.\<close>

function parse_args :: "char list \<Rightarrow> nat \<Rightarrow> nat list \<Rightarrow> fault + (char list \<times> nat list) option" where
  "parse_args b i argv =
     chain (gobble b i) (\<lambda>(b1, i1).
       if b1 ! i1 = NUL then Inr (Some (b1, argv))
       else if length argv = MON_MAXARGS - 1 then Inr None
       else chain (skip_arg b1 i1) (\<lambda>i2. parse_args b1 i2 (argv @ [i1])))"
  by pat_completeness auto
termination
proof (relation "measure (\<lambda>(b, i, argv). length b - i)")
  fix b i and argv :: "nat list" and x b1 i1 i2
  assume "gobble b i = Inr x" "(b1, i1) = x" and nz: "b1 ! i1 \<noteq> NUL" and i2: "skip_arg b1 i1 = Inr i2"
  then have "gobble b i = Inr (b1, i1)" by simp
  from gobble_Inr[OF this] skip_arg_Inr[OF i2] skip_arg_moves[OF i2 nz]
  show "((b1, i2, argv @ [i1]), b, i, argv) \<in> measure (\<lambda>(b, i, argv). length b - i)" by auto
qed simp

declare parse_args.simps [simp del]

text \<open>The commands of the table, with the results of their functions and what they print.\<close>

datatype command = Mon_help | Mon_kerninfo

definition commands :: "(string \<times> string \<times> command) list" where
  "commands =
     [(''help'', ''Display this list of commands'', Mon_help),
      (''kerninfo'', ''Display information about the kernel'', Mon_kerninfo)]"

definition NL :: string where "NL = [CHR 0x0A]"

definition mon_help :: "int \<times> string" where
  "mon_help = (0, concat (map (\<lambda>(name, desc, _). name @ '' - '' @ desc @ NL) commands))"

record kernel_symbols =
  sym_start :: u32
  sym_entry :: u32
  sym_etext :: u32
  sym_edata :: u32
  sym_end :: u32

definition hex08 :: "u32 \<Rightarrow> string" where
  "hex08 w = printnum (unat w) 16 8 (CHR ''0'')"

definition mon_kerninfo :: "kernel_symbols \<Rightarrow> int \<times> string" where
  "mon_kerninfo k =
     (let line = (\<lambda>name v. ''  '' @ name @ ''  '' @ hex08 v @ '' (virt)  '' @ hex08 (v - KERNBASE) @ '' (phys)'' @ NL);
          size = (sym_end k - sym_entry k + 1023) div 1024 * 1024 in
      (0, ''Special kernel symbols:'' @ NL @
          ''  _start                  '' @ hex08 (sym_start k) @ '' (phys)'' @ NL @
          line ''entry'' (sym_entry k) @ line ''etext'' (sym_etext k) @ line ''edata'' (sym_edata k) @
          line ''end  '' (sym_end k) @
          ''Kernel executable memory footprint: '' @ printnum (unat (size div 1024)) 10 0 CHR '' '' @ ''KB'' @ NL))"

definition run_command :: "kernel_symbols \<Rightarrow> command \<Rightarrow> int \<times> string" where
  "run_command k c = (case c of Mon_help \<Rightarrow> mon_help | Mon_kerninfo \<Rightarrow> mon_kerninfo k)"

definition runcmd :: "kernel_symbols \<Rightarrow> char list \<Rightarrow> fault + (int \<times> string)" where
  "runcmd k buf =
     chain (parse_args buf 0 []) (\<lambda>r.
       case r of
         None \<Rightarrow> Inr (0, ''Too many arguments (max 16)'' @ NL)
       | Some (b, argv) \<Rightarrow>
           (case argv of
              [] \<Rightarrow> Inr (0, [])
            | o0 # _ \<Rightarrow>
                (case find (\<lambda>(name, _). name = cstr (drop o0 b)) commands of
                   Some (_, _, c) \<Rightarrow> Inr (run_command k c)
                 | None \<Rightarrow> Inr (0, ''Unknown command '' @ [CHR 0x27] @ cstr (drop o0 b) @ [CHR 0x27] @ NL))))"

text \<open>The loop of \<^verbatim>\<open>monitor\<close>, over the characters typed: it ends when a command answers a negative
  number, or stops to wait for the next character. The zero bytes that \<^verbatim>\<open>runcmd\<close> leaves in the shared
  buffer are dropped here: \<^verbatim>\<open>readline\<close> writes every byte of a line before it is read.\<close>

datatype monitor_state = Waiting | Left

partial_function (option) monitor_loop :: "kernel_symbols \<Rightarrow> char list \<Rightarrow> int list \<Rightarrow> (fault + monitor_state) option" where
  "monitor_loop k buf cs =
     (case readline True buf cs of
        Inl e \<Rightarrow> Some (Inl e)
      | Inr None \<Rightarrow> Some (Inr Waiting)
      | Inr (Some (None, s, rest)) \<Rightarrow> monitor_loop k (line_buf s) rest
      | Inr (Some (Some _, s, rest)) \<Rightarrow>
          (case runcmd k (line_buf s) of
             Inl e \<Rightarrow> Some (Inl e)
           | Inr (r, _) \<Rightarrow> if r < 0 then Some (Inr Left) else monitor_loop k (line_buf s) rest))"

section \<open>Words\<close>

text \<open>The words of a string, by white space.\<close>

function words :: "string \<Rightarrow> string list" where
  "words s =
     (let t = dropWhile blank s in
      if t = [] then [] else takeWhile (\<lambda>c. \<not> blank c) t # words (dropWhile (\<lambda>c. \<not> blank c) t))"
  by pat_completeness auto
termination
proof (relation "measure length")
  fix s t :: string
  assume t: "t = dropWhile blank s" and ne: "t \<noteq> []"
  then have "\<not> blank (hd t)" using hd_dropWhile by blast
  with ne have "length (dropWhile (\<lambda>c. \<not> blank c) t) < length t"
    by (cases t) (auto simp: le_imp_less_Suc length_dropWhile_le)
  with t length_dropWhile_le[of blank s]
  show "(dropWhile (\<lambda>c. \<not> blank c) t, s) \<in> measure length" by auto
qed simp

declare words.simps [simp del]

lemma words_eq:
  "words s = (if dropWhile blank s = [] then []
     else takeWhile (\<lambda>c. \<not> blank c) (dropWhile blank s)
       # words (dropWhile (\<lambda>c. \<not> blank c) (dropWhile blank s)))"
  by (subst words.simps) (simp add: Let_def)

lemma drop_nth: "i < length b \<Longrightarrow> drop i b = b ! i # drop (Suc i) b"
  by (rule Cons_nth_drop_Suc[symmetric])

lemma gobble_skips:
  "terminated (drop i b) \<Longrightarrow> \<exists>b1 i1. gobble b i = Inr (b1, i1) \<and> i \<le> i1
     \<and> cstr (drop i1 b1) = dropWhile blank (cstr (drop i b)) \<and> terminated (drop i1 b1)
     \<and> take i b1 = take i b \<and> length b1 = length b
     \<and> (i < i1 \<longrightarrow> b1 ! i = NUL) \<and> (i = i1 \<longrightarrow> b1 = b)"
proof (induction "length b - i" arbitrary: b i)
  case 0
  then show ?case by (simp add: terminated_def)
next
  case (Suc n)
  then have i: "i < length b" by simp
  note d = drop_nth[OF i]
  show ?case
  proof (cases "blank (b ! i)")
    case False
    then show ?thesis using Suc.prems i d
      by (intro exI[of _ b] exI[of _ i]) (auto simp: gobble_eq cstr_Cons)
  next
    case True
    then have nz: "b ! i \<noteq> NUL" by auto
    let ?b = "b[i := NUL]"
    have "terminated (drop (i + 1) ?b)" using Suc.prems d nz by (simp add: terminated_def)
    moreover have "n = length ?b - (i + 1)" using Suc.hyps(2) by simp
    ultimately obtain b1 i1 where
      g: "gobble ?b (i + 1) = Inr (b1, i1)" "i + 1 \<le> i1"
        "cstr (drop i1 b1) = dropWhile blank (cstr (drop (i + 1) ?b))" "terminated (drop i1 b1)"
        "take (i + 1) b1 = take (i + 1) ?b" "length b1 = length b"
      using Suc.hyps(1)[of ?b "i + 1"] by auto
    have "take i b1 = take i b" using arg_cong[OF g(5), of "take i"] by (simp add: min_def)
    moreover have "b1 ! i = NUL" using arg_cong[OF g(5), of "\<lambda>xs. xs ! i"] i by simp
    moreover have "dropWhile blank (cstr (drop i b)) = dropWhile blank (cstr (drop (i + 1) ?b))"
      using d nz True by (simp add: cstr_Cons)
    ultimately show ?thesis using g i True by (intro exI[of _ b1] exI[of _ i1]) (auto simp: gobble_eq)
  qed
qed

lemma skip_arg_skips:
  "terminated (drop i b) \<Longrightarrow> \<exists>j. skip_arg b i = Inr j \<and> i \<le> j \<and> j < length b
     \<and> (b ! j = NUL \<or> blank (b ! j)) \<and> terminated (drop j b)
     \<and> takeWhile (\<lambda>c. \<not> blank c) (cstr (drop i b)) = drop i (take j b)
     \<and> dropWhile (\<lambda>c. \<not> blank c) (cstr (drop i b)) = cstr (drop j b) \<and> NUL \<notin> set (drop i (take j b))"
proof (induction "length b - i" arbitrary: i)
  case 0
  then show ?case by (simp add: terminated_def)
next
  case (Suc n)
  then have i: "i < length b" by simp
  note d = drop_nth[OF i]
  show ?case
  proof (cases "b ! i = NUL \<or> blank (b ! i)")
    case True
    then show ?thesis using Suc.prems i d
      by (intro exI[of _ i]) (auto simp: skip_arg_eq cstr_Cons)
  next
    case False
    then have "terminated (drop (i + 1) b)" using Suc.prems d by (auto simp: terminated_def)
    moreover have "n = length b - (i + 1)" using Suc.hyps(2) by simp
    ultimately obtain j where
      j: "skip_arg b (i + 1) = Inr j" "i + 1 \<le> j" "j < length b" "b ! j = NUL \<or> blank (b ! j)"
        "terminated (drop j b)"
        "takeWhile (\<lambda>c. \<not> blank c) (cstr (drop (i + 1) b)) = drop (i + 1) (take j b)"
        "dropWhile (\<lambda>c. \<not> blank c) (cstr (drop (i + 1) b)) = cstr (drop j b)"
        "NUL \<notin> set (drop (i + 1) (take j b))"
      using Suc.hyps(1)[of "i + 1"] by auto
    have t: "drop i (take j b) = b ! i # drop (i + 1) (take j b)"
      using j(2,3) drop_nth[of i "take j b"] by simp
    show ?thesis using j False d i by (intro exI[of _ j]) (auto simp: skip_arg_eq cstr_Cons t)
  qed
qed

text \<open>The argument that starts at \<open>i\<close> and ends at \<open>j\<close>, once there is a zero byte at \<open>j\<close>.\<close>

lemma argument_text:
  assumes "j < length b'" and "i \<le> j" and "take j b' = take j b" and "b' ! j = NUL"
    and "NUL \<notin> set (drop i (take j b))"
  shows "cstr (drop i b') = drop i (take j b)"
proof -
  have "drop i b' = drop i (take j b') @ drop j b'"
    using assms(1,2) by (metis append_take_drop_id drop_append length_take less_imp_le_nat min.absorb4 min_def
        drop_drop le_add_diff_inverse2 diff_is_0_eq drop0)
  then show ?thesis using assms drop_nth[OF assms(1)] by (simp add: cstr_append)
qed

text \<open>The loop from position \<open>i\<close> on: it fails only when the words are too many, leaves what stands in
  front of \<open>i\<close>, and ends the argument in front of \<open>i\<close>, if there is one.\<close>

lemma parse_args_words:
  "terminated (drop i b) \<Longrightarrow> length argv \<le> MON_MAXARGS - 1 \<Longrightarrow>
   \<exists>r. parse_args b i argv = Inr r \<and>
     (if length argv + length (words (cstr (drop i b))) > MON_MAXARGS - 1 then r = None
      else \<exists>b' offs. r = Some (b', argv @ offs) \<and> length b' = length b \<and> take i b' = take i b
        \<and> (b ! i = NUL \<or> blank (b ! i) \<longrightarrow> b' ! i = NUL)
        \<and> map (\<lambda>p. cstr (drop p b')) offs = words (cstr (drop i b)))"
proof (induction "length b - i" arbitrary: b i argv rule: less_induct)
  case less
  obtain b1 i1 where g: "gobble b i = Inr (b1, i1)" "i \<le> i1"
      "cstr (drop i1 b1) = dropWhile blank (cstr (drop i b))" "terminated (drop i1 b1)"
      "take i b1 = take i b" "length b1 = length b" "i < i1 \<longrightarrow> b1 ! i = NUL" "i = i1 \<longrightarrow> b1 = b"
    using gobble_skips[OF less.prems(1)] by blast
  have i1: "i1 < length b1" "\<not> blank (b1 ! i1)" using gobble_Inr[OF g(1)] by auto
  have nul_i: "b ! i = NUL \<or> blank (b ! i) \<longrightarrow> b1 ! i = NUL"
    using g(7,8) i1(2) g(2) by (cases "i = i1") auto
  show ?case
  proof (cases "b1 ! i1 = NUL")
    case True
    then have "cstr (drop i1 b1) = []" using drop_nth[OF i1(1)] by simp
    with g(3) have "words (cstr (drop i b)) = []" by (simp add: words_eq)
    with True g nul_i less.prems(2) show ?thesis
      by (subst parse_args.simps) (auto intro!: exI[of _ b1] exI[of _ "[]"])
  next
    case False
    then have ne: "dropWhile blank (cstr (drop i b)) \<noteq> []"
      using drop_nth[OF i1(1)] unfolding g(3)[symmetric] by (simp add: cstr_Cons)
    obtain j where j: "skip_arg b1 i1 = Inr j" "i1 \<le> j" "j < length b1" "b1 ! j = NUL \<or> blank (b1 ! j)"
        "terminated (drop j b1)" "takeWhile (\<lambda>c. \<not> blank c) (cstr (drop i1 b1)) = drop i1 (take j b1)"
        "dropWhile (\<lambda>c. \<not> blank c) (cstr (drop i1 b1)) = cstr (drop j b1)"
        "NUL \<notin> set (drop i1 (take j b1))"
      using skip_arg_skips[OF g(4)] by blast
    have ij: "i1 < j" by (rule skip_arg_moves[OF j(1) False i1(2)])
    have w: "words (cstr (drop i b)) = drop i1 (take j b1) # words (cstr (drop j b1))"
      using ne j(6,7) g(3) by (subst words_eq) simp
    show ?thesis
    proof (cases "length argv = MON_MAXARGS - 1")
      case True
      with False g w show ?thesis by (subst parse_args.simps) simp
    next
      case more: False
      have "length b1 - j < length b - i" using ij g(2,6) j(3) by simp
      from less.hyps[OF this j(5), of "argv @ [i1]"] more less.prems(2)
      obtain r where r: "parse_args b1 j (argv @ [i1]) = Inr r"
        and rc: "if length (argv @ [i1]) + length (words (cstr (drop j b1))) > MON_MAXARGS - 1 then r = None
          else \<exists>b' offs. r = Some (b', (argv @ [i1]) @ offs) \<and> length b' = length b1 \<and> take j b' = take j b1
            \<and> (b1 ! j = NUL \<or> blank (b1 ! j) \<longrightarrow> b' ! j = NUL)
            \<and> map (\<lambda>p. cstr (drop p b')) offs = words (cstr (drop j b1))" by auto
      have eq: "parse_args b i argv = Inr r"
        using False more g(1) j(1) r by (subst parse_args.simps) simp
      show ?thesis
      proof (cases "length argv + length (words (cstr (drop i b))) > MON_MAXARGS - 1")
        case True
        with rc w eq show ?thesis by simp
      next
        case False
        with rc w obtain b' offs where b': "r = Some (b', (argv @ [i1]) @ offs)" "length b' = length b1"
            "take j b' = take j b1" "b' ! j = NUL" "map (\<lambda>p. cstr (drop p b')) offs = words (cstr (drop j b1))"
          using j(4) by (auto split: if_splits)
        have "cstr (drop i1 b') = drop i1 (take j b1)"
          using b' j by (intro argument_text) auto
        moreover have "take i b' = take i b"
          using arg_cong[OF b'(3), of "take i"] g(2,5) ij by (simp add: min_def)
        moreover have "b' ! i = b1 ! i"
          using arg_cong[OF b'(3), of "\<lambda>xs. xs ! i"] g(2) ij by simp
        ultimately show ?thesis
          using False b' eq w nul_i g(6) by (auto intro!: exI[of _ b'] exI[of _ "i1 # offs"])
      qed
    qed
  qed
qed

section \<open>Properties\<close>

text \<open>What a typed character does to the line: backspace and delete drop the last character, others
  from the space on are added while there is room. Delete on an empty line is added as well.\<close>

definition edit :: "string \<Rightarrow> int \<Rightarrow> string" where
  "edit l c =
     (if (c = 8 \<or> c = 0x7f) \<and> l \<noteq> [] then butlast l
      else if c \<ge> 32 \<and> length l < LINE_BUFLEN - 1 then l @ [char_of c] else l)"

definition line_repr :: "line_state \<Rightarrow> string \<Rightarrow> bool" where
  "line_repr s l \<longleftrightarrow> length (line_buf s) = LINE_BUFLEN \<and> line_i s < LINE_BUFLEN \<and> take (line_i s) (line_buf s) = l
     \<and> NUL \<notin> set l"

lemma line_repr_length: "line_repr s l \<Longrightarrow> length l = line_i s"
  by (auto simp: line_repr_def)

lemma char_of_int_NUL: "0 < c \<Longrightarrow> c < 256 \<Longrightarrow> (char_of (c :: int) = NUL) = False"
proof
  assume c: "0 < c" "c < 256" "char_of c = NUL"
  then have "of_char (char_of c :: char) = (of_char NUL :: int)" by simp
  then have "c mod 256 = 0" by simp
  with c show False by simp
qed simp

lemma readline_loop_edits:
  "line_repr s l \<Longrightarrow> \<forall>c\<in>set cs. 0 \<le> c \<and> c < 256 \<and> c \<noteq> 10 \<and> c \<noteq> 13 \<Longrightarrow> n = 10 \<or> n = 13 \<Longrightarrow>
   \<exists>s'. readline_loop e (cs @ n # rest) s = Inr (Some (Some (foldl edit l cs), s', rest))
     \<and> length (foldl edit l cs) < LINE_BUFLEN"
proof (induction cs arbitrary: s l)
  case Nil
  note r = Nil.prems(1)[unfolded line_repr_def]
  let ?b = "(line_buf s)[line_i s := NUL]"
  have "?b = l @ NUL # drop (Suc (line_i s)) (line_buf s)"
    using r by (metis upd_conv_take_nth_drop)
  then have "cstr ((line_buf s)[line_i s := char_of (0 :: int)]) = l"
    using r by (simp add: cstr_append_NUL char_of_def)
  moreover have "length l < LINE_BUFLEN" using r line_repr_length[OF Nil.prems(1)] by simp
  ultimately show ?case using Nil.prems(3) r by (auto simp: put_char_def echo_def LINE_BUFLEN_def)
next
  case (Cons c cs)
  note r = Cons.prems(1)[unfolded line_repr_def]
  note len = line_repr_length[OF Cons.prems(1)]
  have c: "0 \<le> c" "c < 256" "c \<noteq> 10" "c \<noteq> 13" using Cons.prems(2) by auto
  consider (del) "(c = 8 \<or> c = 0x7f) \<and> line_i s > 0"
    | (add) "\<not> ((c = 8 \<or> c = 0x7f) \<and> line_i s > 0)" "c \<ge> 32 \<and> line_i s < LINE_BUFLEN - 1"
    | (none) "\<not> ((c = 8 \<or> c = 0x7f) \<and> line_i s > 0)" "\<not> (c \<ge> 32 \<and> line_i s < LINE_BUFLEN - 1)" by blast
  then show ?case
  proof cases
    case del
    let ?s = "(echo e 8 s)\<lparr>line_i := line_i s - 1\<rparr>"
    have "butlast l = take (line_i s - 1) (line_buf s)"
      using r del by (auto simp: butlast_take)
    moreover have "set (butlast l) \<subseteq> set l" by (auto dest: in_set_butlastD)
    ultimately have "line_repr ?s (butlast l)" using r by (auto simp: line_repr_def echo_def)
    from Cons.IH[OF this _ Cons.prems(3)] Cons.prems(2) show ?thesis
      using del c len by (auto simp: edit_def)
  next
    case add
    have lt: "line_i s < length (line_buf s)" using r by simp
    define s1 where "s1 = (echo e c s)\<lparr>line_buf := (line_buf s)[line_i s := char_of c]\<rparr>"
    have put: "put_char c (echo e c s) = Inr s1" using lt by (simp add: put_char_def s1_def echo_def)
    have i1: "line_i s1 = line_i s" by (simp add: s1_def echo_def)
    have "take (line_i s + 1) ((line_buf s)[line_i s := char_of c]) = l @ [char_of c]"
      using r lt by (simp add: take_Suc_conv_app_nth)
    moreover have "char_of c \<noteq> NUL" using char_of_int_NUL[of c] add c by auto
    ultimately have "line_repr (s1\<lparr>line_i := line_i s + 1\<rparr>) (l @ [char_of c])"
      using r add by (auto simp: line_repr_def s1_def echo_def)
    from Cons.IH[OF this _ Cons.prems(3)] Cons.prems(2)
    obtain s' where "readline_loop e (cs @ n # rest) (s1\<lparr>line_i := line_i s + 1\<rparr>)
          = Inr (Some (Some (foldl edit (l @ [char_of c]) cs), s', rest))"
      "length (foldl edit (l @ [char_of c]) cs) < LINE_BUFLEN" by auto
    moreover have "edit l c = l @ [char_of c]" using add len by (auto simp: edit_def)
    ultimately show ?thesis using add(1,2) c put i1 by auto
  next
    case none
    from Cons.IH[OF Cons.prems(1) _ Cons.prems(3)] Cons.prems(2)
    obtain s' where "readline_loop e (cs @ n # rest) s = Inr (Some (Some (foldl edit l cs), s', rest))"
      "length (foldl edit l cs) < LINE_BUFLEN" by auto
    moreover have "edit l c = l" using none len by (auto simp: edit_def)
    ultimately show ?thesis using none c by auto
  qed
qed

text \<open>Whatever is typed, the loop of \<^verbatim>\<open>readline\<close> stays in the buffer.\<close>

lemma readline_loop_safe:
  "length (line_buf s) = LINE_BUFLEN \<Longrightarrow> line_i s < LINE_BUFLEN \<Longrightarrow>
   readline_loop e cs s = Inr None \<or>
   (\<exists>l s' rest. readline_loop e cs s = Inr (Some (l, s', rest)) \<and> length rest < length cs
      \<and> length (line_buf s') = LINE_BUFLEN \<and> (l \<noteq> None \<longrightarrow> terminated (line_buf s')))"
proof (induction cs arbitrary: s)
  case (Cons c cs)
  have ih: "?case" if "length (line_buf t) = LINE_BUFLEN" "line_i t < LINE_BUFLEN"
      "readline_loop e (c # cs) s = readline_loop e cs t" for t
    using Cons.IH[OF that(1,2)] that(3) by (auto intro: less_SucI)
  consider (err) "c < 0" | (del) "\<not> c < 0" "(c = 8 \<or> c = 0x7f) \<and> line_i s > 0"
    | (add) "\<not> c < 0" "\<not> ((c = 8 \<or> c = 0x7f) \<and> line_i s > 0)" "c \<ge> 32 \<and> line_i s < LINE_BUFLEN - 1"
    | (nl) "\<not> c < 0" "\<not> ((c = 8 \<or> c = 0x7f) \<and> line_i s > 0)" "\<not> (c \<ge> 32 \<and> line_i s < LINE_BUFLEN - 1)" "c = 10 \<or> c = 13"
    | (none) "\<not> c < 0" "\<not> ((c = 8 \<or> c = 0x7f) \<and> line_i s > 0)" "\<not> (c \<ge> 32 \<and> line_i s < LINE_BUFLEN - 1)" "\<not> (c = 10 \<or> c = 13)"
    by blast
  then show ?case
  proof cases
    case err
    with Cons.prems show ?thesis by simp
  next
    case del
    with Cons.prems show ?thesis
      by (intro ih[of "(echo e 8 s)\<lparr>line_i := line_i s - 1\<rparr>"]) (auto simp: echo_def)
  next
    case add
    with Cons.prems show ?thesis
      by (intro ih[of "(echo e c s)\<lparr>line_buf := (line_buf s)[line_i s := char_of c], line_i := line_i s + 1\<rparr>"])
        (auto simp: echo_def put_char_def)
  next
    case nl
    have "terminated ((line_buf s)[line_i s := char_of (0 :: int)])"
      using Cons.prems by (simp add: terminated_def char_of_def set_update_memI)
    with nl Cons.prems show ?thesis by (auto simp: put_char_def echo_def)
  next
    case none
    with Cons.prems show ?thesis by (intro ih[of s]) auto
  qed
qed simp

lemma run_command_0: "fst (run_command k c) = 0"
  by (cases c) (simp_all add: run_command_def mon_help_def mon_kerninfo_def Let_def)

text \<open>C24: \<^verbatim>\<open>readline\<close> returns the line as it was edited with the keys typed in front of the end of the
  line, whatever the buffer held before, and never writes outside it: a line has at most 1023
  characters, the keys beyond are ignored.\<close>

theorem readline_edits:
  assumes "length buf = LINE_BUFLEN" and "\<forall>c\<in>set cs. 0 \<le> c \<and> c < 256 \<and> c \<noteq> 10 \<and> c \<noteq> 13"
    and "n = 10 \<or> n = 13"
  shows "\<exists>s. readline e buf (cs @ n # rest) = Inr (Some (Some (foldl edit [] cs), s, rest))
    \<and> length (foldl edit [] cs) < LINE_BUFLEN"
proof -
  have "line_repr \<lparr>line_buf = buf, line_i = 0, echoed = []\<rparr> []"
    using assms(1) by (simp add: line_repr_def LINE_BUFLEN_def)
  from readline_loop_edits[OF this assms(2,3)] show ?thesis by (simp add: readline_def)
qed

lemma readline_edits_witness:
  "\<exists>s. readline True (replicate LINE_BUFLEN NUL) [104, 105, 106, 8, 13] = Inr (Some (Some ''hi'', s, []))"
proof -
  have "foldl edit [] [104, 105, 106, 8] = ''hi''" by code_simp
  with readline_edits[of "replicate LINE_BUFLEN NUL" "[104, 105, 106, 8]" 13 True "[]"] show ?thesis by auto
qed

lemma runcmd_0:
  assumes "terminated buf"
  shows "\<exists>out. runcmd k buf = Inr (0, out)"
proof -
  obtain r where r: "parse_args buf 0 [] = Inr r"
    using parse_args_words[of 0 buf "[]"] assms by auto
  show ?thesis
  proof (cases r)
    case None
    with r show ?thesis by (simp add: runcmd_def)
  next
    case (Some p)
    obtain b argv where p: "p = (b, argv)" by (cases p)
    show ?thesis using r Some p run_command_0[of k]
      by (cases argv) (auto simp: runcmd_def split: option.split simp: prod_eq_iff)
  qed
qed

text \<open>The monitor never leaves: after any characters it waits for the next one, since no command of
  its table answers a negative number. This is why a breakpoint trap or a panic never returns.\<close>

theorem monitor_never_leaves:
  assumes "length buf = LINE_BUFLEN"
  shows "monitor_loop k buf cs = Some (Inr Waiting)"
  using assms
proof (induction cs arbitrary: buf rule: length_induct)
  case (1 cs)
  have "length (line_buf \<lparr>line_buf = buf, line_i = 0, echoed = []\<rparr>) = LINE_BUFLEN"
    using 1(2) by simp
  from readline_loop_safe[OF this, of True cs]
  consider "readline True buf cs = Inr None"
    | l s rest where "readline True buf cs = Inr (Some (l, s, rest))" "length rest < length cs"
        "length (line_buf s) = LINE_BUFLEN" "l \<noteq> None \<longrightarrow> terminated (line_buf s)"
    by (auto simp: readline_def LINE_BUFLEN_def)
  then show ?case
  proof cases
    case 1
    then show ?thesis by (subst monitor_loop.simps) simp
  next
    case 2
    then have "monitor_loop k (line_buf s) rest = Some (Inr Waiting)" using 1 by blast
    moreover have "\<exists>out. runcmd k (line_buf s) = Inr (0, out)" if "l \<noteq> None"
      using runcmd_0 2(4) that by blast
    ultimately show ?thesis using 2(1) by (subst monitor_loop.simps) (cases l; force)
  qed
qed

definition demo_symbols :: kernel_symbols where
  "demo_symbols = \<lparr>sym_start = 0x10000C, sym_entry = 0xF010000C, sym_etext = 0xF0104000,
     sym_edata = 0xF0112000, sym_end = 0xF0116000\<rparr>"

lemma monitor_never_leaves_witness:
  "monitor_loop demo_symbols (replicate LINE_BUFLEN NUL) [104, 105, 13] = Some (Inr Waiting)"
  using monitor_never_leaves[of "replicate LINE_BUFLEN NUL" demo_symbols "[104, 105, 13]"] by simp

text \<open>The monitor splits its command line into the words between white space, in place, and runs
  the command the first word names, with no more than 15 words; the line is changed only where it had
  white space.\<close>

theorem runcmd_words:
  assumes "terminated buf"
  shows "runcmd k buf = Inr
    (let ws = words (cstr buf) in
     if length ws > 15 then (0, ''Too many arguments (max 16)'' @ NL)
     else case ws of [] \<Rightarrow> (0, [])
       | w # _ \<Rightarrow> (case map_of commands w of
           Some (_, c) \<Rightarrow> run_command k c
         | None \<Rightarrow> (0, ''Unknown command '' @ [CHR 0x27] @ w @ [CHR 0x27] @ NL)))"
proof -
  have find: "find (\<lambda>(name, _). name = w) commands = map_option (Pair w) (map_of commands w)" for w
    by (simp add: commands_def)
  obtain r where r: "parse_args buf 0 [] = Inr r"
    and rc: "if length (words (cstr buf)) > 15 then r = None
      else \<exists>b' offs. r = Some (b', offs) \<and> map (\<lambda>p. cstr (drop p b')) offs = words (cstr buf)"
    using parse_args_words[of 0 buf "[]"] assms
    by (cases "length (words (cstr buf)) > 15") (auto simp: MON_MAXARGS_def)
  show ?thesis
  proof (cases "length (words (cstr buf)) > 15")
    case True
    with r rc show ?thesis by (simp add: runcmd_def)
  next
    case False
    with rc obtain b' offs where b': "r = Some (b', offs)" "map (\<lambda>p. cstr (drop p b')) offs = words (cstr buf)"
      by auto
    show ?thesis
    proof (cases offs)
      case Nil
      with b' r show ?thesis by (simp add: runcmd_def)
    next
      case (Cons o0 os)
      with b'(2) have w: "words (cstr buf) = cstr (drop o0 b') # map (\<lambda>p. cstr (drop p b')) os" by simp
      have l: "\<not> length (words (cstr buf)) > 15" by (rule False)
      show ?thesis
        using l r b'(1) Cons unfolding w
        by (auto simp: runcmd_def find[unfolded case_prod_unfold] case_prod_unfold Let_def split: option.split)
    qed
  qed
qed

lemma runcmd_words_witness:
  "runcmd k (''  help  me'' @ [NUL]) = Inr mon_help"
proof -
  have "terminated (''  help  me'' @ [NUL])" and "cstr (''  help  me'' @ [NUL]) = ''  help  me''"
    by code_simp+
  moreover have "words ''  help  me'' = [''help'', ''me'']" by code_simp
  ultimately show ?thesis
    using runcmd_words[of "''  help  me'' @ [NUL]" k] by (simp add: commands_def run_command_def)
qed

end
