(* ===== verification/Console.thy ===== *)
theory Console
  imports Prelude
begin

unbundle bit_operations_syntax

text \<open>
  The kernel's console, \<^verbatim>\<open>kern/console.c\<close> with \<^verbatim>\<open>inc/kbdreg.h\<close>: the text screen, the keyboard and its
  tables, and the circular buffer of input characters. A device is the list of the bytes that it
  has ready; bytes written to a port are logged. The loops that wait for a transmitter only read
  its status and end after a bounded number of turns: they are left out.
\<close>

section \<open>State\<close>

definition CRT_ROWS :: nat where "CRT_ROWS = 25"
definition CRT_COLS :: nat where "CRT_COLS = 80"
definition CRT_SIZE :: nat where "CRT_SIZE = CRT_ROWS * CRT_COLS"
definition CONSBUFSIZE :: nat where "CONSBUFSIZE = 512"
definition MONO_BASE :: u16 where "MONO_BASE = 0x3B4"
definition CGA_BASE :: u16 where "CGA_BASE = 0x3D4"
definition COM1 :: u16 where "COM1 = 0x3F8"

lemmas console_consts = CRT_ROWS_def CRT_COLS_def CRT_SIZE_def CONSBUFSIZE_def

text \<open>\<open>kbd_in\<close> pairs each byte with the bit that marks data of the mouse or a transmission error.\<close>

record console =
  serial_exists :: bool
  serial_in :: "u8 list"
  kbd_in :: "(bool \<times> u8) list"
  kbd_shift :: u32
  cbuf :: "u8 list"
  rpos :: nat
  wpos :: nat
  crt_buf :: "u16 list"
  crt_pos :: u16
  addr_6845 :: u16
  ports :: "(u16 \<times> u8) list"

definition outb :: "u16 \<Rightarrow> u8 \<Rightarrow> console \<Rightarrow> console" where
  "outb port b s = s\<lparr>ports := ports s @ [(port, b)]\<rparr>"

section \<open>Output\<close>

definition serial_putc :: "u32 \<Rightarrow> console \<Rightarrow> console" where
  "serial_putc c s = outb COM1 (ucast c) s"

definition lpt_putc :: "u32 \<Rightarrow> console \<Rightarrow> console" where
  "lpt_putc c s = outb (0x378 + 2) 0x08 (outb (0x378 + 2) (0x08 OR 0x04 OR 0x01) (outb 0x378 (ucast c) s))"

definition crt_write :: "u16 \<Rightarrow> u16 \<Rightarrow> console \<Rightarrow> fault + console" where
  "crt_write i v s =
     (if unat i < length (crt_buf s) then Inr (s\<lparr>crt_buf := (crt_buf s)[unat i := v]\<rparr>) else Inl OutOfBounds)"

text \<open>The end of \<^verbatim>\<open>cga_putc\<close>: scroll when the cursor is behind the last cell, then set it.\<close>

definition cga_scroll :: "console \<Rightarrow> console" where
  "cga_scroll s =
     (if crt_pos s \<ge> word_of_nat CRT_SIZE
      then s\<lparr>crt_buf := drop CRT_COLS (crt_buf s) @ replicate CRT_COLS (0x0700 OR 0x20),
             crt_pos := crt_pos s - word_of_nat CRT_COLS\<rparr>
      else s)"

definition cga_cursor :: "console \<Rightarrow> console" where
  "cga_cursor s =
     (let a = addr_6845 s; p = crt_pos s in
      outb (a + 1) (ucast p) (outb a 15 (outb (a + 1) (ucast (drop_bit 8 p)) (outb a 14 s))))"

lemma low_byte_attribute: "((c :: u32) OR 0x0700) AND 0xff = c AND 0xff"
  by (simp add: bit.conj_disj_distrib2)

text \<open>\<^verbatim>\<open>cons_putc\<close> goes to all three devices; a tab is five spaces through it.\<close>

function cga_putc :: "u32 \<Rightarrow> console \<Rightarrow> fault + console" where
  "cga_putc c0 s =
     (let c = (if c0 AND NOT 0xFF = 0 then c0 OR 0x0700 else c0); ch = c AND 0xff in
      chain
       (if ch = 8 then
          (if crt_pos s > 0
           then crt_write (crt_pos s - 1) (ucast ((c AND NOT 0xff) OR 0x20)) (s\<lparr>crt_pos := crt_pos s - 1\<rparr>)
           else Inr s)
        else if ch = 10 then
          let p = crt_pos s + word_of_nat CRT_COLS in Inr (s\<lparr>crt_pos := p - p mod word_of_nat CRT_COLS\<rparr>)
        else if ch = 13 then Inr (s\<lparr>crt_pos := crt_pos s - crt_pos s mod word_of_nat CRT_COLS\<rparr>)
        else if ch = 9 then
          chain (cga_putc 0x20 (lpt_putc 0x20 (serial_putc 0x20 s))) (\<lambda>s1.
          chain (cga_putc 0x20 (lpt_putc 0x20 (serial_putc 0x20 s1))) (\<lambda>s2.
          chain (cga_putc 0x20 (lpt_putc 0x20 (serial_putc 0x20 s2))) (\<lambda>s3.
          chain (cga_putc 0x20 (lpt_putc 0x20 (serial_putc 0x20 s3))) (\<lambda>s4.
          cga_putc 0x20 (lpt_putc 0x20 (serial_putc 0x20 s4))))))
        else chain (crt_write (crt_pos s) (ucast c) s) (\<lambda>s1. Inr (s1\<lparr>crt_pos := crt_pos s + 1\<rparr>)))
       (\<lambda>s1. Inr (cga_cursor (cga_scroll s1))))"
  by pat_completeness auto
termination
  by (relation "measure (\<lambda>(c, s). if c AND 0xff = 9 then 1 else 0)")
     (auto simp: low_byte_attribute split: if_splits)

declare cga_putc.simps [simp del]

definition cons_putc :: "u32 \<Rightarrow> console \<Rightarrow> fault + console" where
  "cons_putc c s = cga_putc c (lpt_putc c (serial_putc c s))"

definition cputchar :: "u32 \<Rightarrow> console \<Rightarrow> fault + console" where
  "cputchar c s = cons_putc c s"

fun cputs :: "string \<Rightarrow> console \<Rightarrow> fault + console" where
  "cputs [] s = Inr s"
| "cputs (c # cs) s = chain (cputchar (word_of_nat (of_char c)) s) (cputs cs)"

section \<open>Keyboard tables\<close>

definition SHIFT :: u32 where "SHIFT = 1"
definition CTL :: u32 where "CTL = 2"
definition ALT :: u32 where "ALT = 4"
definition CAPSLOCK :: u32 where "CAPSLOCK = 8"
definition NUMLOCK :: u32 where "NUMLOCK = 16"
definition SCROLLLOCK :: u32 where "SCROLLLOCK = 32"
definition E0ESC :: u32 where "E0ESC = 64"

lemmas kbd_flags = SHIFT_def CTL_def ALT_def CAPSLOCK_def NUMLOCK_def SCROLLLOCK_def E0ESC_def

definition codes :: "string \<Rightarrow> u8 list" where
  "codes s = map (\<lambda>c. word_of_nat (of_char c)) s"

text \<open>An array with a plain initialiser from index 0 on and designated ones; the rest is zero.\<close>

definition array_init :: "u8 list \<Rightarrow> (nat \<times> u8) list \<Rightarrow> u8 \<Rightarrow> u8" where
  "array_init ini des i =
     (case map_of des (unat i) of Some v \<Rightarrow> v
      | None \<Rightarrow> if unat i < length ini then ini ! unat i else 0)"

definition shiftcode :: "u8 \<Rightarrow> u8" where
  "shiftcode = array_init [] [(0x1D, 2), (0x2A, 1), (0x36, 1), (0x38, 4), (0x9D, 2), (0xB8, 4)]"

definition togglecode :: "u8 \<Rightarrow> u8" where
  "togglecode = array_init [] [(0x3A, 8), (0x45, 16), (0x46, 32)]"

text \<open>The special keys: home, up, page up, left, right, end, down, page down, insert, delete.\<close>

definition KEY_DEL :: int where "KEY_DEL = 0xE9"

definition special_keys :: "(nat \<times> u8) list" where
  "special_keys = [(0xC8, 0xE2), (0xC9, 0xE6), (0xCB, 0xE4), (0xCD, 0xE5), (0xCF, 0xE1),
     (0xD0, 0xE3), (0xD1, 0xE7), (0xD2, 0xE8), (0xD3, 0xE9)]"

definition keypad :: "u8 list" where
  "keypad = codes ''*'' @ [0] @ codes '' '' @ replicate 13 0 @ codes ''789-456+1230.'' @ replicate 4 0"

definition normalmap :: "u8 \<Rightarrow> u8" where
  "normalmap = array_init
     ([0, 0x1B] @ codes ''1234567890-='' @ [8, 9] @ codes ''qwertyuiop[]'' @ [10, 0]
      @ codes ''asdfghjkl;'' @ [0x27] @ codes ''`'' @ [0, 0x5C] @ codes ''zxcvbnm,./'' @ [0] @ keypad)
     ((0xC7, 0xE0) # (0x9C, 10) # (0xB5, 0x2F) # special_keys)"

definition shiftmap :: "u8 \<Rightarrow> u8" where
  "shiftmap = array_init
     ([0, 0x1B] @ codes ''!@#$%^&*()_+'' @ [8, 9] @ codes ''QWERTYUIOP{}'' @ [10, 0]
      @ codes ''ASDFGHJKL:'' @ [0x22] @ codes ''~'' @ [0] @ codes ''|ZXCVBNM<>?'' @ [0] @ keypad)
     ((0xC7, 0xE0) # (0x9C, 10) # (0xB5, 0x2F) # special_keys)"

definition ctl_code :: "char \<Rightarrow> u8" where
  "ctl_code c = word_of_nat (of_char c) - 0x40"

definition ctlmap :: "u8 \<Rightarrow> u8" where
  "ctlmap = array_init
     (replicate 16 0 @ map ctl_code ''QWERTYUIOP'' @ [0, 0, 13, 0] @ map ctl_code ''ASDFGHJKL''
      @ replicate 4 0 @ [0x5C - 0x40] @ map ctl_code ''ZXCVBNM'' @ [0, 0, ctl_code CHR ''/'', 0, 0])
     ((0x97, 0xE0) # (0xB5, ctl_code CHR ''/'') # special_keys)"

definition charcode :: "u32 \<Rightarrow> u8 \<Rightarrow> u8" where
  "charcode m = (if m = 0 then normalmap else if m = 1 then shiftmap else ctlmap)"

section \<open>Input from the devices\<close>

definition serial_proc_data :: "console \<Rightarrow> fault + (int \<times> console)" where
  "serial_proc_data s =
     (case serial_in s of [] \<Rightarrow> Inr (-1, s) | b # q \<Rightarrow> Inr (uint b, s\<lparr>serial_in := q\<rparr>))"

definition capslock :: "u32 \<Rightarrow> int \<Rightarrow> int" where
  "capslock shift c =
     (if shift AND CAPSLOCK \<noteq> 0
      then if 0x61 \<le> c \<and> c \<le> 0x7A then c - 32 else if 0x41 \<le> c \<and> c \<le> 0x5A then c + 32 else c
      else c)"

definition kbd_proc_data :: "console \<Rightarrow> fault + (int \<times> console)" where
  "kbd_proc_data s =
     (case kbd_in s of
        [] \<Rightarrow> Inr (-1, s)
      | (terr, data) # q \<Rightarrow>
          if terr then Inr (-1, s)
          else let s1 = s\<lparr>kbd_in := q\<rparr>; shift = kbd_shift s in
          if data = 0xE0 then Inr (0, s1\<lparr>kbd_shift := shift OR E0ESC\<rparr>)
          else if data AND 0x80 \<noteq> 0 then
            let d = (if shift AND E0ESC \<noteq> 0 then data else data AND 0x7F) in
            Inr (0, s1\<lparr>kbd_shift := shift AND NOT (ucast (shiftcode d) OR E0ESC)\<rparr>)
          else
            let d = (if shift AND E0ESC \<noteq> 0 then data OR 0x80 else data);
                sh = (if shift AND E0ESC \<noteq> 0 then shift AND NOT E0ESC else shift);
                sh1 = (sh OR ucast (shiftcode d)) XOR ucast (togglecode d);
                c = capslock sh1 (uint (charcode (sh1 AND (CTL OR SHIFT)) d));
                s2 = s1\<lparr>kbd_shift := sh1\<rparr> in
            if NOT sh1 AND (CTL OR ALT) = 0 \<and> c = KEY_DEL
            then chain (cputs (''Rebooting!'' @ [CHR 0x0A]) s2) (\<lambda>s3. Inr (c, outb 0x92 0x3 s3))
            else Inr (c, s2))"

section \<open>The circular buffer\<close>

definition cons_put :: "console \<Rightarrow> u8 \<Rightarrow> console" where
  "cons_put s c =
     s\<lparr>cbuf := (cbuf s)[wpos s := c], wpos := (if wpos s + 1 = CONSBUFSIZE then 0 else wpos s + 1)\<rparr>"

text \<open>The loop of \<^verbatim>\<open>cons_intr\<close> ends when the device has no more data; None is the loop that goes on
  for ever.\<close>

partial_function (option) cons_intr ::
    "(console \<Rightarrow> fault + (int \<times> console)) \<Rightarrow> console \<Rightarrow> (fault + console) option" where
  "cons_intr proc s =
     (case proc s of
        Inl e \<Rightarrow> Some (Inl e)
      | Inr (c, s1) \<Rightarrow>
          if c = -1 then Some (Inr s1)
          else if c = 0 then cons_intr proc s1
          else cons_intr proc (cons_put s1 (word_of_int c)))"

definition serial_intr :: "console \<Rightarrow> (fault + console) option" where
  "serial_intr s = (if serial_exists s then cons_intr serial_proc_data s else Some (Inr s))"

definition kbd_intr :: "console \<Rightarrow> (fault + console) option" where
  "kbd_intr s = cons_intr kbd_proc_data s"

definition cons_take :: "console \<Rightarrow> int \<times> console" where
  "cons_take s =
     (if rpos s \<noteq> wpos s
      then (uint (cbuf s ! rpos s), s\<lparr>rpos := (if rpos s + 1 = CONSBUFSIZE then 0 else rpos s + 1)\<rparr>)
      else (0, s))"

definition cons_getc :: "console \<Rightarrow> (fault + (int \<times> console)) option" where
  "cons_getc s =
     Option.bind (serial_intr s) (\<lambda>r.
       case r of Inl e \<Rightarrow> Some (Inl e)
       | Inr s1 \<Rightarrow> Option.bind (kbd_intr s1) (\<lambda>r1.
           case r1 of Inl e \<Rightarrow> Some (Inl e) | Inr s2 \<Rightarrow> Some (Inr (cons_take s2))))"

section \<open>Initialisation\<close>

text \<open>\<open>colour\<close>: whether the colour buffer reads back what is written; \<open>hi\<close> and \<open>lo\<close> the cursor that
  the display reports.\<close>

definition cga_init :: "bool \<Rightarrow> u8 \<Rightarrow> u8 \<Rightarrow> console \<Rightarrow> console" where
  "cga_init colour hi lo s =
     (let a = (if colour then CGA_BASE else MONO_BASE) in
      outb a 15 (outb a 14 (s\<lparr>addr_6845 := a, crt_pos := ucast (push_bit 8 (ucast hi :: u32) OR ucast lo)\<rparr>)))"

definition serial_init :: "u8 \<Rightarrow> console \<Rightarrow> console" where
  "serial_init lsr s =
     (outb (COM1 + 1) 0x01 (outb (COM1 + 4) 0 (outb (COM1 + 3) (0x03 AND NOT 0x80) (outb (COM1 + 1) 0
       (outb COM1 12 (outb (COM1 + 3) 0x80 (outb (COM1 + 2) 0 s)))))))
     \<lparr>serial_exists := (lsr \<noteq> 0xFF), serial_in := tl (serial_in s)\<rparr>"

definition cons_init :: "bool \<Rightarrow> u8 \<Rightarrow> u8 \<Rightarrow> u8 \<Rightarrow> console \<Rightarrow> (fault + console) option" where
  "cons_init colour hi lo lsr s =
     Option.bind (kbd_intr (cga_init colour hi lo s)) (\<lambda>r.
       case r of Inl e \<Rightarrow> Some (Inl e)
       | Inr s1 \<Rightarrow> let s2 = serial_init lsr s1 in
           Some (if serial_exists s2 then Inr s2
                 else cputs (''Serial port does not exist!'' @ [CHR 0x0A]) s2))"

end
