(* ===== verification/ConsoleProps.thy ===== *)
theory ConsoleProps
  imports Console
begin

unbundle bit_operations_syntax

text \<open>
  The console's properties: the circular buffer hands out the characters in the order of their
  arrival until it overflows, where it loses everything, and the screen driver keeps the cursor
  on the screen whatever is printed.
\<close>

section \<open>A ring of bounded capacity\<close>

text \<open>
  The contract of a ring: \<open>queue\<close> is what is waiting, \<open>put\<close> appends one element unless \<open>cap\<close> are
  waiting, when the ring looks empty afterwards; \<open>take_one\<close> removes the first.
\<close>

locale ring =
  fixes put :: "'s \<Rightarrow> 'x \<Rightarrow> 's"
    and take_one :: "'s \<Rightarrow> 'x option \<times> 's"
    and queue :: "'s \<Rightarrow> 'x list"
    and ok :: "'s \<Rightarrow> bool"
    and cap :: nat
  assumes put_ok: "ok s \<Longrightarrow> ok (put s x)"
    and put_queue: "ok s \<Longrightarrow> queue (put s x) = (if length (queue s) = cap then [] else queue s @ [x])"
    and queue_cap: "ok s \<Longrightarrow> length (queue s) \<le> cap"
    and take_ok: "ok s \<Longrightarrow> ok (snd (take_one s))"
    and take_queue: "ok s \<Longrightarrow> queue (snd (take_one s)) = tl (queue s)"
    and take_first: "ok s \<Longrightarrow> fst (take_one s) = (case queue s of [] \<Rightarrow> None | x # _ \<Rightarrow> Some x)"
begin

lemma puts_ok: "ok s \<Longrightarrow> ok (foldl put s xs)"
  by (induction xs arbitrary: s) (simp_all add: put_ok)

text \<open>After many puts, what arrived since the last overflow is waiting.\<close>

lemma puts_queue:
  assumes "ok s"
  shows "queue (foldl put s xs) =
    drop (length (queue s @ xs) - length (queue s @ xs) mod Suc cap) (queue s @ xs)"
proof (induction xs rule: rev_induct)
  case Nil
  then show ?case using queue_cap[OF assms] by simp
next
  case (snoc x xs)
  let ?q = "queue s @ xs"
  have ok: "ok (foldl put s xs)" by (rule puts_ok[OF assms])
  have len: "length (queue (foldl put s xs)) = length ?q mod Suc cap"
    unfolding snoc.IH using mod_le_divisor[of "Suc cap" "length ?q"] by simp
  show ?case
  proof (cases "length ?q mod Suc cap = cap")
    case True
    then have "Suc (length ?q) mod Suc cap = 0" by (simp add: mod_Suc)
    then show ?thesis using put_queue[OF ok] len True by simp
  next
    case False
    then have m: "Suc (length ?q) mod Suc cap = Suc (length ?q mod Suc cap)" by (simp add: mod_Suc)
    then have "Suc (length ?q) - Suc (length ?q) mod Suc cap = length ?q - length ?q mod Suc cap" by simp
    moreover have "queue (foldl put s (xs @ [x])) = drop (length ?q - length ?q mod Suc cap) ?q @ [x]"
      using put_queue[OF ok] len False snoc.IH by simp
    ultimately show ?thesis by simp
  qed
qed

lemma puts_fit:
  "ok s \<Longrightarrow> length (queue s) + length xs \<le> cap \<Longrightarrow> queue (foldl put s xs) = queue s @ xs"
  by (simp add: puts_queue)

end

section \<open>The console's buffer is a ring\<close>

definition ring_ok :: "console \<Rightarrow> bool" where
  "ring_ok s \<longleftrightarrow> length (cbuf s) = CONSBUFSIZE \<and> rpos s < CONSBUFSIZE \<and> wpos s < CONSBUFSIZE"

definition waiting :: "console \<Rightarrow> nat" where
  "waiting s = (if rpos s \<le> wpos s then wpos s - rpos s else wpos s + CONSBUFSIZE - rpos s)"

definition cons_queue :: "console \<Rightarrow> u8 list" where
  "cons_queue s = map (\<lambda>i. cbuf s ! ((rpos s + i) mod CONSBUFSIZE)) [0..<waiting s]"

definition cons_next :: "console \<Rightarrow> u8 option \<times> console" where
  "cons_next s = ((if rpos s = wpos s then None else Some (cbuf s ! rpos s)), snd (cons_take s))"

lemma length_cons_queue: "length (cons_queue s) = waiting s"
  by (simp add: cons_queue_def)

lemma mod_once: "(a :: nat) < 1024 \<Longrightarrow> a mod 512 = (if a < 512 then a else a - 512)"
  by (simp add: le_mod_geq)

lemma cons_put_queue:
  assumes "ring_ok s"
  shows "cons_queue (cons_put s x) = (if waiting s = 511 then [] else cons_queue s @ [x])"
proof (cases "waiting s = 511")
  case True
  then have "waiting (cons_put s x) = 0"
    using assms by (auto simp: waiting_def cons_put_def ring_ok_def console_consts split: if_splits)
  with True show ?thesis by (simp add: cons_queue_def)
next
  case False
  then have w: "waiting (cons_put s x) = Suc (waiting s)" "waiting s < 511"
    using assms by (auto simp: waiting_def cons_put_def ring_ok_def console_consts split: if_splits)
  have e: "(rpos s + waiting s) mod 512 = wpos s"
    using assms by (auto simp: waiting_def ring_ok_def console_consts mod_once)
  have ne: "(rpos s + i) mod 512 \<noteq> wpos s" if "i < waiting s" for i
    using assms that by (cases "rpos s + i < 512") (auto simp: waiting_def ring_ok_def console_consts mod_once split: if_splits)
  have "cons_queue (cons_put s x) = map (\<lambda>i. (cbuf s)[wpos s := x] ! ((rpos s + i) mod 512)) [0..<Suc (waiting s)]"
    unfolding cons_queue_def w by (simp add: cons_put_def console_consts)
  also have "\<dots> = map (\<lambda>i. cbuf s ! ((rpos s + i) mod 512)) [0..<waiting s] @ [x]"
    using assms e by (auto simp: ring_ok_def console_consts nth_list_update_neq[OF ne[symmetric]])
  finally show ?thesis using False by (simp add: cons_queue_def console_consts)
qed

lemma cons_next_queue:
  assumes "ring_ok s"
  shows "cons_queue (snd (cons_next s)) = tl (cons_queue s)"
    and "fst (cons_next s) = (case cons_queue s of [] \<Rightarrow> None | x # _ \<Rightarrow> Some x)"
proof -
  show "cons_queue (snd (cons_next s)) = tl (cons_queue s)"
  proof (cases "rpos s = wpos s")
    case False
    then have w: "waiting s = Suc (waiting (snd (cons_next s)))"
      using assms by (auto simp: waiting_def cons_next_def cons_take_def ring_ok_def console_consts split: if_splits)
    have r: "(rpos (snd (cons_next s)) + i) mod 512 = (rpos s + Suc i) mod 512" for i
      using assms False by (auto simp: cons_next_def cons_take_def ring_ok_def console_consts)
    have "tl (cons_queue s) = map (\<lambda>i. cbuf s ! ((rpos s + Suc i) mod 512)) [0..<waiting (snd (cons_next s))]"
      unfolding cons_queue_def w by (simp add: upt_conv_Cons map_Suc_upt[symmetric] console_consts del: upt_Suc)
    also have "\<dots> = cons_queue (snd (cons_next s))"
      using r by (simp add: cons_queue_def console_consts) (simp add: cons_next_def cons_take_def)
    finally show ?thesis by simp
  qed (simp add: cons_next_def cons_take_def cons_queue_def waiting_def)
  show "fst (cons_next s) = (case cons_queue s of [] \<Rightarrow> None | x # _ \<Rightarrow> Some x)"
  proof (cases "rpos s = wpos s")
    case False
    then have "0 < waiting s" using assms by (auto simp: waiting_def ring_ok_def)
    then show ?thesis
      using False assms by (simp add: cons_next_def cons_queue_def upt_conv_Cons ring_ok_def)
  qed (simp add: cons_next_def cons_queue_def waiting_def)
qed

interpretation input: ring cons_put cons_next cons_queue ring_ok 511
proof
  fix s :: console and x :: u8
  assume ok: "ring_ok s"
  show "ring_ok (cons_put s x)" using ok by (auto simp: ring_ok_def cons_put_def console_consts)
  show "cons_queue (cons_put s x) = (if length (cons_queue s) = 511 then [] else cons_queue s @ [x])"
    using cons_put_queue[OF ok] by (simp add: length_cons_queue)
  show "length (cons_queue s) \<le> 511"
    using ok by (auto simp: length_cons_queue waiting_def ring_ok_def console_consts)
  show "ring_ok (snd (cons_next s))"
    using ok by (auto simp: ring_ok_def cons_next_def cons_take_def console_consts)
  show "cons_queue (snd (cons_next s)) = tl (cons_queue s)" by (rule cons_next_queue[OF ok])
  show "fst (cons_next s) = (case cons_queue s of [] \<Rightarrow> None | x # _ \<Rightarrow> Some x)" by (rule cons_next_queue[OF ok])
qed

section \<open>Interrupts\<close>

lemma serial_drained:
  "cons_intr serial_proc_data s =
     Some (Inr ((foldl cons_put s (filter (\<lambda>b. b \<noteq> 0) (serial_in s)))\<lparr>serial_in := []\<rparr>))"
proof (induction "serial_in s" arbitrary: s)
  case Nil
  then show ?case by (subst cons_intr.simps) (simp add: serial_proc_data_def)
next
  case (Cons b bs)
  have step: "serial_proc_data s = Inr (uint b, s\<lparr>serial_in := bs\<rparr>)"
    using Cons(2) by (simp add: serial_proc_data_def Cons(2)[symmetric])
  have put1: "cons_put (t\<lparr>serial_in := q\<rparr>) a = (cons_put t a)\<lparr>serial_in := q\<rparr>" for t q a
    by (simp add: cons_put_def)
  have put: "foldl cons_put (t\<lparr>serial_in := q\<rparr>) cs = (foldl cons_put t cs)\<lparr>serial_in := q\<rparr>" for t q cs
    by (induction cs arbitrary: t) (simp_all add: put1)
  have nonneg: "uint b \<noteq> -1" using uint_nonnegative[of b] by linarith
  show ?case
  proof (cases "b = 0")
    case True
    then have "cons_intr serial_proc_data s = cons_intr serial_proc_data (s\<lparr>serial_in := bs\<rparr>)"
      by (subst cons_intr.simps) (simp add: step)
    also note Cons(1)[of "s\<lparr>serial_in := bs\<rparr>", simplified]
    finally show ?thesis using True Cons(2)[symmetric] by (simp add: put)
  next
    case False
    then have "uint b \<noteq> 0" by (simp add: uint_0_iff)
    then have "cons_intr serial_proc_data s = cons_intr serial_proc_data (cons_put (s\<lparr>serial_in := bs\<rparr>) b)"
      using nonneg by (subst cons_intr.simps) (simp add: step)
    also have "\<dots> = Some (Inr ((foldl cons_put (cons_put (s\<lparr>serial_in := bs\<rparr>) b) (filter (\<lambda>b. b \<noteq> 0) bs))\<lparr>serial_in := []\<rparr>))"
      using Cons(1)[of "cons_put (s\<lparr>serial_in := bs\<rparr>) b"] by (simp add: cons_put_def)
    finally show ?thesis using False Cons(2)[symmetric] by (simp add: put put1)
  qed
qed

lemma cons_queue_serial_in [simp]: "cons_queue (s\<lparr>serial_in := q\<rparr>) = cons_queue s"
  and ring_ok_serial_in [simp]: "ring_ok (s\<lparr>serial_in := q\<rparr>) = ring_ok s"
  by (simp_all add: cons_queue_def waiting_def ring_ok_def)

lemma puts_keep: "kbd_in (foldl cons_put s cs) = kbd_in s"
  by (induction cs arbitrary: s) (simp_all add: cons_put_def)

lemma cons_take_queue:
  assumes "ring_ok s"
  shows "fst (cons_take s) = (case cons_queue s of [] \<Rightarrow> 0 | c # _ \<Rightarrow> uint c)"
    and "cons_queue (snd (cons_take s)) = tl (cons_queue s)" and "ring_ok (snd (cons_take s))"
  using cons_next_queue[OF assms] input.take_ok[OF assms]
  by (auto simp: cons_next_def cons_take_def split: if_splits list.splits)

text \<open>C38: On a machine with a serial port and with no key pending at the keyboard, \<^verbatim>\<open>cons_getc\<close> first takes over what the
  serial port has received, zero bytes apart (\<^verbatim>\<open>cons_intr\<close> drops them), then answers the oldest
  character waiting, or 0. The characters are handed out in the order of their arrival as long as
  at most 511 wait; each time 512 would wait all of them are lost, so that after \<open>n\<close> arrivals the
  last \<open>n mod 512\<close> are left.\<close>

theorem cons_getc_in_order:
  assumes "ring_ok s" and "serial_exists s" and "kbd_in s = []"
  shows "let arrived = cons_queue s @ filter (\<lambda>b. b \<noteq> 0) (serial_in s);
             left = drop (length arrived - length arrived mod 512) arrived in
     \<exists>s'. cons_getc s = Some (Inr (case left of [] \<Rightarrow> 0 | c # _ \<Rightarrow> uint c, s'))
       \<and> cons_queue s' = tl left \<and> ring_ok s' \<and> serial_in s' = []"
proof -
  let ?s1 = "(foldl cons_put s (filter (\<lambda>b. b \<noteq> 0) (serial_in s)))\<lparr>serial_in := []\<rparr>"
  have ok: "ring_ok ?s1" using input.puts_ok[OF assms(1)] by simp
  have "cons_intr kbd_proc_data ?s1 = Some (Inr ?s1)"
    using assms(3) by (subst cons_intr.simps) (simp add: kbd_proc_data_def puts_keep)
  then have g: "cons_getc s = Some (Inr (cons_take ?s1))"
    using assms(2) by (simp add: cons_getc_def serial_intr_def serial_drained kbd_intr_def)
  have "serial_in (snd (cons_take ?s1)) = []" by (simp add: cons_take_def)
  then show ?thesis
    using cons_take_queue[OF ok] input.puts_queue[OF assms(1), of "filter (\<lambda>b. b \<noteq> 0) (serial_in s)"] g
    by (intro exI[of _ "snd (cons_take ?s1)"] | simp add: Let_def prod_eq_iff)+
qed

definition demo_console :: console where
  "demo_console = \<lparr>serial_exists = True, serial_in = codes ''hi'', kbd_in = [], kbd_shift = 0,
     cbuf = replicate 512 0, rpos = 511, wpos = 511, crt_buf = replicate 2000 0, crt_pos = 0,
     addr_6845 = CGA_BASE, ports = []\<rparr>"

lemma cons_getc_in_order_witness:
  "\<exists>s'. cons_getc demo_console = Some (Inr (0x68, s')) \<and> cons_queue s' = [0x69]"
proof -
  have q: "ring_ok demo_console" "serial_exists demo_console" "kbd_in demo_console = []"
    "cons_queue demo_console = []" "serial_in demo_console = [0x68, 0x69]"
    by (simp_all add: demo_console_def ring_ok_def console_consts cons_queue_def waiting_def codes_def of_char_def)
  show ?thesis using cons_getc_in_order[OF q(1-3)] by (auto simp: q Let_def)
qed

section \<open>The screen\<close>

definition screen_ok :: "console \<Rightarrow> bool" where
  "screen_ok s \<longleftrightarrow> length (crt_buf s) = 2000 \<and> unat (crt_pos s) < 2000"

definition before_scroll :: "console \<Rightarrow> bool" where
  "before_scroll s \<longleftrightarrow> length (crt_buf s) = 2000 \<and> unat (crt_pos s) < 2080"

lemma screen_outb [simp]: "screen_ok (outb p b s) = screen_ok s" "before_scroll (outb p b s) = before_scroll s"
  by (simp_all add: screen_ok_def before_scroll_def outb_def)

lemma screen_putc [simp]: "screen_ok (serial_putc c s) = screen_ok s" "screen_ok (lpt_putc c s) = screen_ok s"
  by (simp_all add: serial_putc_def lpt_putc_def)

lemma scroll_screen: "before_scroll s \<Longrightarrow> screen_ok (cga_cursor (cga_scroll s))"
  by (auto simp: cga_cursor_def cga_scroll_def Let_def screen_ok_def before_scroll_def outb_def
      console_consts word_le_nat_alt unat_sub)

lemma screen_before: "screen_ok s \<Longrightarrow> before_scroll s"
  by (simp add: screen_ok_def before_scroll_def)

lemma line_start_le: "unat (p - p mod 80 :: u16) \<le> unat p"
  by (simp add: unat_sub unat_mod word_le_nat_alt)

lemma next_line: "unat (p :: u16) < 2000 \<Longrightarrow> unat (p + 80) < 2080"
  by (simp add: unat_word_ariths)

lemma finish_putc:
  "\<exists>t. body = Inr t \<and> before_scroll t \<Longrightarrow>
     \<exists>s'. chain body (\<lambda>s1. Inr (cga_cursor (cga_scroll s1))) = Inr s' \<and> screen_ok s'"
  by (auto simp: scroll_screen)

lemma plain_on_screen:
  assumes ok: "screen_ok s" and ch: "c0 AND 0xff \<noteq> 9"
  shows "\<exists>s'. cga_putc c0 s = Inr s' \<and> screen_ok s'"
proof -
  define c where "c = (if c0 AND NOT 0xFF = 0 then c0 OR 0x0700 else c0)"
  have n9: "c AND 0xff \<noteq> 9" using ch by (simp add: c_def low_byte_attribute)
  note on = screen_ok_def before_scroll_def crt_write_def console_consts
  consider "c AND 0xff = 8" "crt_pos s > 0" | "c AND 0xff = 8" "\<not> crt_pos s > 0" | "c AND 0xff = 10"
    | "c AND 0xff = 13" | "c AND 0xff \<notin> {8, 10, 13}" by blast
  then show ?thesis
  proof cases
    case 1
    define p where "p = crt_pos s - 1"
    have "unat p < unat (crt_pos s)" using 1 unfolding p_def by (simp add: unat_minus_one unat_gt_0)
    then have "unat p < 2000" using ok by (simp add: screen_ok_def)
    with ok 1 show ?thesis unfolding cga_putc.simps[of c0 s] c_def[symmetric] Let_def p_def[symmetric]
      by (intro finish_putc) (simp add: on)
  next
    case 2
    with ok show ?thesis unfolding cga_putc.simps[of c0 s] c_def[symmetric] Let_def
      by (intro finish_putc) (simp add: on)
  next
    case 3
    have "unat (crt_pos s + 80 - (crt_pos s + 80) mod 80) < 2080"
      using next_line[of "crt_pos s"] line_start_le[of "crt_pos s + 80"] ok by (simp add: screen_ok_def)
    with ok 3 show ?thesis unfolding cga_putc.simps[of c0 s] c_def[symmetric] Let_def
      by (intro finish_putc) (simp add: on)
  next
    case 4
    have "unat (crt_pos s - crt_pos s mod 80) < 2080"
      using line_start_le[of "crt_pos s"] ok by (simp add: screen_ok_def)
    with ok 4 show ?thesis unfolding cga_putc.simps[of c0 s] c_def[symmetric] Let_def
      by (intro finish_putc) (simp add: on)
  next
    case 5
    have "unat (crt_pos s + 1) < 2080" using ok by (simp add: screen_ok_def unat_word_ariths)
    with ok 5 n9 show ?thesis unfolding cga_putc.simps[of c0 s] c_def[symmetric] Let_def
      by (intro finish_putc) (simp add: on)
  qed
qed

lemma space_on_screen:
  assumes "screen_ok s"
  obtains s' where "cons_putc 0x20 s = Inr s'" and "screen_ok s'"
  using plain_on_screen[of "lpt_putc 0x20 (serial_putc 0x20 s)" "0x20"] assms by (auto simp: cons_putc_def)

lemma tab_on_screen:
  assumes ok: "screen_ok s" and ch: "c0 AND 0xff = 9"
  shows "\<exists>s'. cga_putc c0 s = Inr s' \<and> screen_ok s'"
proof -
  define c where "c = (if c0 AND NOT 0xFF = 0 then c0 OR 0x0700 else c0)"
  have c: "c AND 0xff = 9" using ch by (simp add: c_def low_byte_attribute)
  obtain s1 where 1: "cons_putc 0x20 s = Inr s1" "screen_ok s1" using ok by (rule space_on_screen)
  obtain s2 where 2: "cons_putc 0x20 s1 = Inr s2" "screen_ok s2" using 1(2) by (rule space_on_screen)
  obtain s3 where 3: "cons_putc 0x20 s2 = Inr s3" "screen_ok s3" using 2(2) by (rule space_on_screen)
  obtain s4 where 4: "cons_putc 0x20 s3 = Inr s4" "screen_ok s4" using 3(2) by (rule space_on_screen)
  obtain s5 where 5: "cons_putc 0x20 s4 = Inr s5" "screen_ok s5" using 4(2) by (rule space_on_screen)
  show ?thesis unfolding cga_putc.simps[of c0 s] c_def[symmetric] Let_def
    using c 1 2 3 4 5 by (intro finish_putc) (simp add: cons_putc_def screen_before)
qed

lemma cputchar_screen:
  "screen_ok s \<Longrightarrow> \<exists>s'. cputchar c s = Inr s' \<and> screen_ok s'"
  by (cases "c AND 0xff = 9") (simp_all add: cputchar_def cons_putc_def tab_on_screen plain_on_screen)

text \<open>Whatever character is printed, the screen driver writes inside the screen memory and leaves
  the cursor on the screen, on a line of 80 columns out of 25.\<close>

theorem cputchar_on_screen:
  assumes "length (crt_buf s) = CRT_SIZE" and "unat (crt_pos s) < CRT_SIZE"
  shows "\<exists>s'. cputchar c s = Inr s' \<and> length (crt_buf s') = CRT_SIZE \<and> unat (crt_pos s') < CRT_SIZE"
proof -
  have "screen_ok s" using assms by (simp add: screen_ok_def console_consts)
  from cputchar_screen[OF this] show ?thesis by (simp add: screen_ok_def console_consts)
qed

lemma cputchar_on_screen_witness:
  "\<exists>s'. cputchar 0x0A (demo_console\<lparr>crt_pos := 1999\<rparr>) = Inr s' \<and> unat (crt_pos s') < CRT_SIZE"
  using cputchar_on_screen[of "demo_console\<lparr>crt_pos := 1999\<rparr>" "0x0A"]
  by (auto simp: demo_console_def console_consts)

section \<open>Reading always returns\<close>

text \<open>Printing leaves the input side of the console alone.\<close>

definition input_side :: "console \<Rightarrow> bool \<times> u8 list \<times> (bool \<times> u8) list \<times> u8 list \<times> nat \<times> nat" where
  "input_side s = (serial_exists s, serial_in s, kbd_in s, cbuf s, rpos s, wpos s)"

lemma input_side_simps [simp]:
  "input_side (outb p b s) = input_side s" "input_side (serial_putc c s) = input_side s"
  "input_side (lpt_putc c s) = input_side s" "input_side (cga_cursor s) = input_side s"
  "input_side (cga_scroll s) = input_side s" "input_side (s\<lparr>crt_pos := q\<rparr>) = input_side s"
  "input_side (s\<lparr>kbd_shift := k\<rparr>) = input_side s"
  by (simp_all add: input_side_def outb_def serial_putc_def lpt_putc_def cga_cursor_def cga_scroll_def Let_def)

lemma crt_write_input: "crt_write i v s = Inr s' \<Longrightarrow> input_side s' = input_side s"
  by (auto simp: crt_write_def input_side_def split: if_splits)

lemma plain_input:
  assumes "c0 AND 0xff \<noteq> 9" and "cga_putc c0 s = Inr s'"
  shows "input_side s' = input_side s"
proof -
  define c where "c = (if c0 AND NOT 0xFF = 0 then c0 OR 0x0700 else c0)"
  have n9: "c AND 0xff \<noteq> 9" using assms(1) by (simp add: c_def low_byte_attribute)
  show ?thesis
    using assms(2) n9 unfolding cga_putc.simps[of c0 s] c_def[symmetric] Let_def
    by (auto simp: chain_eq_Inr split: if_splits dest!: crt_write_input)
qed

lemma cga_putc_input:
  assumes "cga_putc c0 s = Inr s'"
  shows "input_side s' = input_side s"
proof (cases "c0 AND 0xff = 9")
  case False
  with assms show ?thesis by (intro plain_input)
next
  case True
  define c where "c = (if c0 AND NOT 0xFF = 0 then c0 OR 0x0700 else c0)"
  have c: "c AND 0xff = 9" using True by (simp add: c_def low_byte_attribute)
  have sp: "cga_putc 0x20 (lpt_putc 0x20 (serial_putc 0x20 t)) = Inr t' \<Longrightarrow> input_side t' = input_side t" for t t'
    using plain_input[of "0x20" "lpt_putc 0x20 (serial_putc 0x20 t)" t'] by simp
  show ?thesis
    using assms c unfolding cga_putc.simps[of c0 s] c_def[symmetric] Let_def
    by (auto simp: chain_eq_Inr dest!: sp)
qed

lemma cputs_screen:
  "screen_ok s \<Longrightarrow> \<exists>s'. cputs cs s = Inr s' \<and> screen_ok s' \<and> input_side s' = input_side s"
proof (induction cs arbitrary: s)
  case (Cons c cs)
  from cputchar_screen[OF Cons.prems] obtain s1 where
    1: "cputchar (word_of_nat (of_char c)) s = Inr s1" "screen_ok s1" by blast
  from 1(1) have "input_side s1 = input_side s"
    by (auto simp: cputchar_def cons_putc_def dest!: cga_putc_input)
  with Cons.IH[OF 1(2)] 1 show ?case by auto
qed simp

text \<open>The codes the keyboard gives are bytes, also after the change of case.\<close>

lemma capslock_byte: "0 \<le> c \<Longrightarrow> c < 256 \<Longrightarrow> 0 \<le> capslock m c \<and> capslock m c < 256"
  by (auto simp: capslock_def)

lemma kbd_proc_step:
  assumes "screen_ok s"
  shows "kbd_proc_data s = Inr (-1, s) \<or>
    (\<exists>c s'. kbd_proc_data s = Inr (c, s') \<and> 0 \<le> c \<and> c < 256 \<and> screen_ok s'
       \<and> length (kbd_in s') < length (kbd_in s) \<and> cbuf s' = cbuf s \<and> rpos s' = rpos s \<and> wpos s' = wpos s)"
proof (cases "kbd_in s")
  case Nil
  then show ?thesis by (simp add: kbd_proc_data_def)
next
  case (Cons x q)
  obtain terr data where x: "x = (terr, data)" by (cases x)
  have b: "0 \<le> uint (w :: u8)" "uint (w :: u8) < 256" for w
    using uint_bounded[of w] by (simp_all)
  have cap: "0 \<le> capslock m (uint (w :: u8)) \<and> capslock m (uint w) < 256" for m w
    using capslock_byte b by simp
  have so: "screen_ok (s\<lparr>kbd_in := q, kbd_shift := k\<rparr>)" for k using assms by (simp add: screen_ok_def)
  define d where "d = (if kbd_shift s AND E0ESC \<noteq> 0 then data OR 0x80 else data)"
  define sh where "sh = ((if kbd_shift s AND E0ESC \<noteq> 0 then kbd_shift s AND NOT E0ESC else kbd_shift s)
      OR ucast (shiftcode d)) XOR ucast (togglecode d)"
  define c where "c = capslock sh (uint (charcode (sh AND (CTL OR SHIFT)) d))"
  have cb: "0 \<le> c" "c < 256" using cap by (simp_all add: c_def)
  let ?s = "s\<lparr>kbd_in := q, kbd_shift := sh\<rparr>"
  from cputs_screen[OF so, of "''Rebooting!'' @ [CHR 0x0A]" sh] obtain t where
    t: "cputs (''Rebooting!'' @ [CHR 0x0A]) ?s = Inr t" "screen_ok t" "input_side t = input_side ?s" by blast
  have t': "kbd_in t = q" "cbuf t = cbuf s" "rpos t = rpos s" "wpos t = wpos s"
    using t(3) by (simp_all add: input_side_def)
  consider "terr" | "\<not> terr" "data = 0xE0" | "\<not> terr" "data \<noteq> 0xE0" "data AND 0x80 \<noteq> 0"
    | "\<not> terr" "data \<noteq> 0xE0" "data AND 0x80 = 0" by blast
  then show ?thesis
  proof cases
    case 4
    then have "kbd_proc_data s = (if NOT sh AND (CTL OR ALT) = 0 \<and> c = KEY_DEL
        then Inr (c, outb 0x92 0x3 t) else Inr (c, ?s))"
      unfolding kbd_proc_data_def Cons x
      by (simp only: list.case prod.case Let_def simp_thms if_False if_True d_def[symmetric]
          sh_def[symmetric] c_def[symmetric] t(1) chain_Inr)
    then show ?thesis using cb so t(2) t' Cons by (auto simp: outb_def screen_ok_def)
  qed (use Cons x so in \<open>auto simp: kbd_proc_data_def Let_def screen_ok_def\<close>)
qed

lemma kbd_intr_returns:
  "screen_ok s \<Longrightarrow> ring_ok s \<Longrightarrow> \<exists>s'. kbd_intr s = Some (Inr s') \<and> screen_ok s' \<and> ring_ok s'"
proof (induction "length (kbd_in s)" arbitrary: s rule: less_induct)
  case less
  from kbd_proc_step[OF less.prems(1)] consider "kbd_proc_data s = Inr (-1, s)"
    | c t where "kbd_proc_data s = Inr (c, t)" "0 \<le> c" "c < 256" "screen_ok t"
        "length (kbd_in t) < length (kbd_in s)" "cbuf t = cbuf s" "rpos t = rpos s" "wpos t = wpos s" by blast
  then show ?case
  proof cases
    case 1
    then have "kbd_intr s = Some (Inr s)" unfolding kbd_intr_def by (subst cons_intr.simps) simp
    with less.prems show ?thesis by simp
  next
    case 2
    have rt: "ring_ok t" using less.prems(2) 2(6-8) by (simp add: ring_ok_def)
    define t1 where "t1 = (if c = 0 then t else cons_put t (word_of_int c))"
    have "ring_ok t1" using rt input.put_ok[OF rt] by (simp add: t1_def)
    moreover have "screen_ok t1" "kbd_in t1 = kbd_in t"
      using 2(4) by (simp_all add: t1_def cons_put_def screen_ok_def)
    ultimately obtain s' where "kbd_intr t1 = Some (Inr s')" "screen_ok s'" "ring_ok s'"
      using less.hyps[of t1] 2(5) by auto
    moreover have "kbd_intr s = kbd_intr t1"
      using 2(1,2) unfolding kbd_intr_def t1_def by (subst cons_intr.simps) auto
    ultimately show ?thesis by simp
  qed
qed

text \<open>C26: Reading a character always returns, whatever the serial port and the keyboard have sent,
  Ctrl-Alt-Del included: the loops over the devices end, the answer is a byte, and the ring and the
  screen stay in bounds.\<close>

theorem cons_getc_returns:
  assumes "ring_ok s" and "screen_ok s"
  shows "\<exists>c s'. cons_getc s = Some (Inr (c, s')) \<and> 0 \<le> c \<and> c < 256 \<and> ring_ok s' \<and> screen_ok s'"
proof -
  obtain s1 where 1: "serial_intr s = Some (Inr s1)" "screen_ok s1" "ring_ok s1"
  proof (cases "serial_exists s")
    case True
    let ?s1 = "(foldl cons_put s (filter (\<lambda>b. b \<noteq> 0) (serial_in s)))\<lparr>serial_in := []\<rparr>"
    have "screen_ok (foldl cons_put t cs) = screen_ok t" for t cs
      by (induction cs arbitrary: t) (simp_all add: cons_put_def screen_ok_def)
    then have "screen_ok ?s1" using assms(2) by (simp add: screen_ok_def)
    moreover have "ring_ok ?s1" using input.puts_ok[OF assms(1)] by simp
    ultimately show ?thesis using that[of ?s1] True by (simp add: serial_intr_def serial_drained)
  next
    case False
    with assms show ?thesis using that[of s] by (simp add: serial_intr_def)
  qed
  from kbd_intr_returns[OF 1(2,3)] obtain s2 where
    2: "kbd_intr s1 = Some (Inr s2)" "screen_ok s2" "ring_ok s2" by blast
  have "0 \<le> fst (cons_take s2)" "fst (cons_take s2) < 256"
    using uint_bounded[of "cbuf s2 ! rpos s2"] by (auto simp: cons_take_def)
  moreover have "screen_ok (snd (cons_take s2))" using 2(2) by (simp add: cons_take_def screen_ok_def)
  moreover have "ring_ok (snd (cons_take s2))" by (rule cons_take_queue[OF 2(3)])
  moreover have "cons_getc s = Some (Inr (cons_take s2))" using 1(1) 2(1) by (simp add: cons_getc_def)
  ultimately show ?thesis by (metis prod.collapse)
qed

lemma cons_getc_returns_witness:
  "\<exists>c s'. cons_getc (demo_console\<lparr>kbd_in := [(False, 0x1D), (False, 0x38), (False, 0xE0), (False, 0x53)]\<rparr>)
     = Some (Inr (c, s')) \<and> c < 256"
  using cons_getc_returns[of "demo_console\<lparr>kbd_in := [(False, 0x1D), (False, 0x38), (False, 0xE0), (False, 0x53)]\<rparr>"]
  by (auto simp: demo_console_def ring_ok_def screen_ok_def console_consts)

end
