(* ===== verification/Kprintf.thy ===== *)
theory Kprintf
  imports Monitor Trap Devices ConsoleProps
begin

unbundle bit_operations_syntax

text \<open>
  The kernel's printing: \<^verbatim>\<open>kern/printf.c\<close> on the console, the dump of a trap frame in
  \<^verbatim>\<open>kern/trap.c\<close>, the messages of \<^verbatim>\<open>panic\<close> and \<^verbatim>\<open>warn\<close> in \<^verbatim>\<open>kern/init.c\<close>, the greeting of the monitor
  and the remaining readers of \<^verbatim>\<open>kern/console.c\<close>; and the user's \<^verbatim>\<open>cprintf\<close>, \<^verbatim>\<open>printfmt\<close> and
  \<^verbatim>\<open>snprintf\<close>. The strings printed are taken to be ASCII: a character above 127 given to \<^verbatim>\<open>%s\<close> or
  \<^verbatim>\<open>%c\<close> would reach the screen sign extended.
\<close>

section \<open>\<^verbatim>\<open>kern/printf.c\<close>\<close>

definition putch :: "console \<times> nat \<Rightarrow> char \<Rightarrow> fault + (console \<times> nat)" where
  "putch b ch = chain (cputchar (word_of_nat (of_char ch)) (fst b)) (\<lambda>c. Inr (c, snd b + 1))"

definition k_vcprintf ::
    "(u32 \<Rightarrow> string) \<Rightarrow> string \<Rightarrow> va_list \<Rightarrow> console \<Rightarrow> fault + (console \<times> nat)" where
  "k_vcprintf str fmt ap con = chain (vprintfmt str fmt ap) (run_steps putch (con, 0))"

text \<open>The arguments of a call: words, and strings, whose addresses the model numbers by their place in
  the call.\<close>

datatype arg = Val u32 | Text string

definition arg_slots :: "arg list \<Rightarrow> va_list" where
  "arg_slots args = map (\<lambda>(i, a). case a of Val w \<Rightarrow> w | Text _ \<Rightarrow> word_of_nat i) (enumerate 1 args)"

definition arg_text :: "arg list \<Rightarrow> u32 \<Rightarrow> string" where
  "arg_text args a = (case args ! (unat a - 1) of Text s \<Rightarrow> s | Val _ \<Rightarrow> [])"

definition format_call :: "string \<times> arg list \<Rightarrow> fault + string" where
  "format_call call = vprintfmt (arg_text (snd call)) (fst call) (arg_slots (snd call))"

definition k_cprintf :: "string \<times> arg list \<Rightarrow> console \<Rightarrow> fault + (console \<times> nat)" where
  "k_cprintf call con = k_vcprintf (arg_text (snd call)) (fst call) (arg_slots (snd call)) con"

text \<open>A function whose body is a sequence of \<^verbatim>\<open>cprintf\<close> calls.\<close>

definition cprintf_all :: "(string \<times> arg list) list \<Rightarrow> console \<Rightarrow> fault + console" where
  "cprintf_all calls con = run_steps (\<lambda>c call. chain (k_cprintf call c) (\<lambda>(c1, _). Inr c1)) con calls"

fun format_all :: "(string \<times> arg list) list \<Rightarrow> fault + string" where
  "format_all [] = Inr []"
| "format_all (call # calls) = chain (format_call call) (\<lambda>a. chain (format_all calls) (\<lambda>b. Inr (a @ b)))"

lemma putch_cputs: "run_steps putch (con, n) out = chain (cputs out con) (\<lambda>c. Inr (c, n + length out))"
proof (induction out arbitrary: con n)
  case (Cons ch out)
  then show ?case by (cases "cputchar (word_of_nat (of_char ch)) con") (simp_all add: putch_def)
qed simp

text \<open>\<^verbatim>\<open>cprintf\<close> puts on the console exactly the formatted text, and counts it.\<close>

lemma k_cprintf_prints:
  "format_call call = Inr out \<Longrightarrow> k_cprintf call con = chain (cputs out con) (\<lambda>c. Inr (c, length out))"
  by (simp add: k_cprintf_def k_vcprintf_def format_call_def putch_cputs)

lemma cputs_append: "cputs (a @ b) con = chain (cputs a con) (cputs b)"
proof (induction a arbitrary: con)
  case (Cons ch a)
  then show ?case by (cases "cputchar (word_of_nat (of_char ch)) con") simp_all
qed simp

lemma cprintf_all_prints: "format_all calls = Inr out \<Longrightarrow> cprintf_all calls con = cputs out con"
proof (induction calls arbitrary: out con)
  case Nil
  then show ?case by (simp add: cprintf_all_def)
next
  case (Cons call calls)
  from Cons.prems obtain a b where ab: "format_call call = Inr a" "format_all calls = Inr b" "out = a @ b"
    by (auto simp: chain_eq_Inr)
  have i: "cprintf_all calls c = cputs b c" for c using Cons.IH[OF ab(2)] .
  show ?case
    by (cases "cputs a con") (simp_all add: cprintf_all_def k_cprintf_prints[OF ab(1)] ab(3) cputs_append
      i[unfolded cprintf_all_def])
qed

section \<open>Dumping a trap frame (\<^verbatim>\<open>kern/trap.c\<close>)\<close>

definition print_regs :: "pushregs \<Rightarrow> (string \<times> arg list) list" where
  "print_regs r =
     [(''  edi  0x%08x'' @ NL, [Val (reg_edi r)]), (''  esi  0x%08x'' @ NL, [Val (reg_esi r)]),
      (''  ebp  0x%08x'' @ NL, [Val (reg_ebp r)]), (''  oesp 0x%08x'' @ NL, [Val (reg_oesp r)]),
      (''  ebx  0x%08x'' @ NL, [Val (reg_ebx r)]), (''  edx  0x%08x'' @ NL, [Val (reg_edx r)]),
      (''  ecx  0x%08x'' @ NL, [Val (reg_ecx r)]), (''  eax  0x%08x'' @ NL, [Val (reg_eax r)])]"

text \<open>\<open>p\<close> is the address of the frame, \<open>last_tf\<close> the one that \<^verbatim>\<open>trap\<close> recorded.\<close>

definition print_trapframe :: "u32 \<Rightarrow> u32 \<Rightarrow> nat \<Rightarrow> u32 \<Rightarrow> trapframe \<Rightarrow> (string \<times> arg list) list" where
  "print_trapframe last_tf cr2 cpu p tf =
     (''TRAP frame at %p from CPU %d'' @ NL, [Val p, Val (word_of_nat cpu)]) # print_regs (tf_regs tf) @
     [(''  es   0x----%04x'' @ NL, [Val (ucast (tf_es tf))]),
      (''  ds   0x----%04x'' @ NL, [Val (ucast (tf_ds tf))]),
      (''  trap 0x%08x %s'' @ NL, [Val (tf_trapno tf), Text (trapname (tf_trapno tf))])] @
     (if p = last_tf \<and> tf_trapno tf = T_PGFLT then [(''  cr2  0x%08x'' @ NL, [Val cr2])] else []) @
     [(''  err  0x%08x'', [Val (tf_err tf)])] @
     (if tf_trapno tf = T_PGFLT
      then [('' [%s, %s, %s]'' @ NL,
             [Text (if tf_err tf AND 4 \<noteq> 0 then ''user'' else ''kernel''),
              Text (if tf_err tf AND 2 \<noteq> 0 then ''write'' else ''read''),
              Text (if tf_err tf AND 1 \<noteq> 0 then ''protection'' else ''not-present'')])]
      else [(NL, [])]) @
     [(''  eip  0x%08x'' @ NL, [Val (tf_eip tf)]),
      (''  cs   0x----%04x'' @ NL, [Val (ucast (tf_cs tf))]),
      (''  flag 0x%08x'' @ NL, [Val (tf_eflags tf)])] @
     (if tf_cs tf AND 3 \<noteq> 0
      then [(''  esp  0x%08x'' @ NL, [Val (tf_esp tf)]), (''  ss   0x----%04x'' @ NL, [Val (ucast (tf_ss tf))])]
      else [])"

section \<open>Panics and warnings (\<^verbatim>\<open>kern/init.c\<close>)\<close>

text \<open>Both end in the endless loop around the monitor; only the first panic prints.\<close>

definition kpanic ::
    "string option \<Rightarrow> nat \<Rightarrow> string \<Rightarrow> u32 \<Rightarrow> string \<Rightarrow> arg list \<Rightarrow> console \<Rightarrow> fault + (string option \<times> console)" where
  "kpanic panicstr cpu file line fmt args con =
     (if panicstr \<noteq> None then Inr (panicstr, con)
      else chain (cprintf_all
             [(''>>>'' @ NL @ ''>>> kernel panic on CPU %d at %s:%d: '', [Val (word_of_nat cpu), Text file, Val line]), (fmt, args), (NL @ ''>>>'' @ NL, [])] con)
        (\<lambda>c. Inr (Some fmt, c)))"

text \<open>A warning goes on.\<close>

definition kwarn :: "string \<Rightarrow> u32 \<Rightarrow> string \<Rightarrow> arg list \<Rightarrow> console \<Rightarrow> fault + console" where
  "kwarn file line fmt args con =
     cprintf_all [(''kernel warning at %s:%d: '', [Text file, Val line]), (fmt, args), (NL, [])] con"

section \<open>The monitor's start (\<^verbatim>\<open>kern/monitor.c\<close>)\<close>

text \<open>What \<^verbatim>\<open>monitor\<close> prints before its loop; the frame is None for the null pointer.\<close>

definition monitor_greeting :: "(string \<times> arg list) list \<Rightarrow> trapframe option \<Rightarrow> (string \<times> arg list) list" where
  "monitor_greeting frame_dump tf =
     [(''Welcome to the JOS kernel monitor!'' @ NL, []), (''Type '' @ [CHR 0x27] @ ''help'' @ [CHR 0x27] @ '' for a list of commands.'' @ NL, [])]
     @ (if tf \<noteq> None then frame_dump else [])"

definition mon_backtrace :: "string list \<Rightarrow> int \<times> string" where
  "mon_backtrace argv = (0, [])"

section \<open>The text\<close>

lemma unat_wide: "unat (ucast (a :: u32) :: u64) = unat a"
  by transfer simp

lemma unat_half: "unat (ucast (a :: u16) :: u32) = unat a"
  by transfer simp

definition hex04 :: "u16 \<Rightarrow> string" where
  "hex04 w = printnum (unat w) 16 4 (CHR ''0'')"

lemma sint_bounds: "- (2 ^ 31) \<le> sint (a :: u32)" "sint (a :: u32) < 2 ^ 31"
  using sint_greater_eq[of a] sint_less[of a] by simp_all

lemma sint_wide: "sint (scast (a :: u32) :: u64) = sint a"
  using sint_bounds[of a] by (simp add: signed_scast_eq signed_take_bit_int_eq_self)

lemma unat_scast_wide:
  assumes "0 \<le> sint a"
  shows "unat (scast (a :: u32) :: u64) = unat a"
proof -
  have "uint a = uint (word_of_int (sint a) :: u32)" by simp
  then have "uint a = sint a" using assms sint_bounds[of a] unfolding uint_word_of_int by simp
  moreover have "uint (scast a :: u64) = uint (word_of_int (sint (scast a :: u64)) :: u64)" by simp
  then have "uint (scast a :: u64) = sint a"
    using assms sint_bounds[of a] unfolding uint_word_of_int sint_wide by simp
  ultimately show ?thesis by (simp add: unat_eq_nat_uint)
qed

lemmas conversion_simps = conversion.simps is_digit_def dec_value_def no_flags_def process_precision_def
  getuint_def getint_def print_number_def unat_wide sint_wide

lemma conv_hex08:
  "conversion str after no_flags (CHR ''0'' # CHR ''8'' # CHR ''x'' # fmt) (a # ap) = Inr (hex08 a, fmt, ap)"
  by (simp add: conversion_simps hex08_def)

lemma conv_hex04:
  "conversion str after no_flags (CHR ''0'' # CHR ''4'' # CHR ''x'' # fmt) (ucast (a :: u16) # ap) =
     Inr (hex04 a, fmt, ap)"
  by (simp add: conversion_simps hex04_def unat_half)

lemma conv_string:
  "a \<noteq> 0 \<Longrightarrow> conversion str after no_flags (CHR ''s'' # fmt) (a # ap) = Inr (str a, fmt, ap)"
  by (simp add: conversion_simps print_string_def Let_def)

lemma conv_ptr:
  "conversion str after no_flags (CHR ''p'' # fmt) (a # ap) = Inr (''0x'' @ printnum (unat a) 16 (-1) CHR '' '', fmt, ap)"
  by (simp add: conversion_simps)

lemma conv_dec:
  "0 \<le> sint a \<Longrightarrow> conversion str after no_flags (CHR ''d'' # fmt) (a # ap) = Inr (printnum (unat a) 10 (-1) CHR '' '', fmt, ap)"
  by (simp add: conversion_simps unat_scast_wide)

lemmas conv_simps = conv_hex08 conv_hex04 conv_string conv_ptr conv_dec

text \<open>The dump as text: the hexadecimal fields with their leading zeros, the name of the trap, the
  decoded error of a page fault, and the user's stack only when the frame came from user mode.\<close>

definition field8 :: "string \<Rightarrow> u32 \<Rightarrow> string" where "field8 name w = name @ hex08 w @ NL"
definition field4 :: "string \<Rightarrow> u16 \<Rightarrow> string" where "field4 name w = name @ hex04 w @ NL"

definition regs_text :: "pushregs \<Rightarrow> string" where
  "regs_text r =
     field8 ''  edi  0x'' (reg_edi r) @ field8 ''  esi  0x'' (reg_esi r) @ field8 ''  ebp  0x'' (reg_ebp r)
     @ field8 ''  oesp 0x'' (reg_oesp r) @ field8 ''  ebx  0x'' (reg_ebx r) @ field8 ''  edx  0x'' (reg_edx r)
     @ field8 ''  ecx  0x'' (reg_ecx r) @ field8 ''  eax  0x'' (reg_eax r)"

definition fault_text :: "trapframe \<Rightarrow> string" where
  "fault_text tf =
     (if tf_trapno tf = T_PGFLT
      then '' ['' @ (if tf_err tf AND FEC_U \<noteq> 0 then ''user'' else ''kernel'') @ '', ''
             @ (if tf_err tf AND FEC_WR \<noteq> 0 then ''write'' else ''read'') @ '', ''
             @ (if tf_err tf AND FEC_PR \<noteq> 0 then ''protection'' else ''not-present'') @ '']'' @ NL
      else NL)"

definition trapframe_text :: "u32 \<Rightarrow> u32 \<Rightarrow> nat \<Rightarrow> u32 \<Rightarrow> trapframe \<Rightarrow> string" where
  "trapframe_text last_tf cr2 cpu p tf =
     ''TRAP frame at 0x'' @ printnum (unat p) 16 (-1) CHR '' '' @ '' from CPU '' @ printnum cpu 10 (-1) CHR '' '' @ NL
     @ regs_text (tf_regs tf) @ field4 ''  es   0x----'' (tf_es tf) @ field4 ''  ds   0x----'' (tf_ds tf)
     @ ''  trap 0x'' @ hex08 (tf_trapno tf) @ '' '' @ trapname (tf_trapno tf) @ NL
     @ (if p = last_tf \<and> tf_trapno tf = T_PGFLT then field8 ''  cr2  0x'' cr2 else [])
     @ ''  err  0x'' @ hex08 (tf_err tf) @ fault_text tf
     @ field8 ''  eip  0x'' (tf_eip tf) @ field4 ''  cs   0x----'' (tf_cs tf) @ field8 ''  flag 0x'' (tf_eflags tf)
     @ (if tf_cs tf AND 3 \<noteq> 0 then field8 ''  esp  0x'' (tf_esp tf) @ field4 ''  ss   0x----'' (tf_ss tf) else [])"

lemmas call_simps = format_call_def arg_slots_def arg_text_def NL_def conv_simps

lemma format_all_append:
  "format_all (cs @ ds) = chain (format_all cs) (\<lambda>a. chain (format_all ds) (\<lambda>b. Inr (a @ b)))"
proof (induction cs)
  case Nil
  then show ?case by (cases "format_all ds") simp_all
qed (simp add: chain_assoc)

lemma format_print_regs: "format_all (print_regs r) = Inr (regs_text r)"
  by (simp add: print_regs_def regs_text_def field8_def call_simps)

lemma format_head:
  assumes "cpu < 2 ^ 31"
  shows "format_call (''TRAP frame at %p from CPU %d'' @ NL, [Val p, Val (word_of_nat cpu)]) =
     Inr (''TRAP frame at 0x'' @ printnum (unat p) 16 (-1) CHR '' '' @ '' from CPU '' @ printnum cpu 10 (-1) CHR '' '' @ NL)"
proof -
  have "sint (word_of_nat cpu :: u32) = int cpu"
    using assms by (simp add: signed_of_nat signed_take_bit_int_eq_self)
  moreover have "unat (word_of_nat cpu :: u32) = cpu" using assms by (simp add: unat_of_nat)
  ultimately show ?thesis by (simp add: call_simps)
qed

lemma format_fields:
  "format_call (''  es   0x----%04x'' @ NL, [Val (ucast e)]) = Inr (field4 ''  es   0x----'' e)"
  "format_call (''  ds   0x----%04x'' @ NL, [Val (ucast e)]) = Inr (field4 ''  ds   0x----'' e)"
  "format_call (''  cs   0x----%04x'' @ NL, [Val (ucast e)]) = Inr (field4 ''  cs   0x----'' e)"
  "format_call (''  ss   0x----%04x'' @ NL, [Val (ucast e)]) = Inr (field4 ''  ss   0x----'' e)"
  "format_call (''  trap 0x%08x %s'' @ NL, [Val w, Text s]) = Inr (''  trap 0x'' @ hex08 w @ '' '' @ s @ NL)"
  "format_call (''  cr2  0x%08x'' @ NL, [Val w]) = Inr (field8 ''  cr2  0x'' w)"
  "format_call (''  err  0x%08x'', [Val w]) = Inr (''  err  0x'' @ hex08 w)"
  "format_call (''  eip  0x%08x'' @ NL, [Val w]) = Inr (field8 ''  eip  0x'' w)"
  "format_call (''  flag 0x%08x'' @ NL, [Val w]) = Inr (field8 ''  flag 0x'' w)"
  "format_call (''  esp  0x%08x'' @ NL, [Val w]) = Inr (field8 ''  esp  0x'' w)"
  "format_call ('' [%s, %s, %s]'' @ NL, [Text a, Text b, Text c]) = Inr ('' ['' @ a @ '', '' @ b @ '', '' @ c @ '']'' @ NL)"
  "format_call (NL, []) = Inr NL"
  by (simp_all add: call_simps field4_def field8_def)

text \<open>\<^verbatim>\<open>print_trapframe\<close> puts exactly that text on the console, for every frame: no field's format
  takes an argument that was not passed, and on a sound screen the dump never faults.\<close>

theorem print_trapframe_prints:
  assumes "cpu < NCPU" and "screen_ok con"
  shows "cprintf_all (print_trapframe last_tf cr2 cpu p tf) con = cputs (trapframe_text last_tf cr2 cpu p tf) con
     \<and> (\<exists>con1. cputs (trapframe_text last_tf cr2 cpu p tf) con = Inr con1 \<and> screen_ok con1)"
proof -
  have c: "cpu < 2 ^ 31" using assms(1) by (simp add: NCPU_def)
  have "format_all (print_trapframe last_tf cr2 cpu p tf) = Inr (trapframe_text last_tf cr2 cpu p tf)"
    unfolding print_trapframe_def trapframe_text_def fault_text_def FEC_U_def FEC_WR_def FEC_PR_def
    by (cases "tf_trapno tf = T_PGFLT"; cases "p = last_tf"; cases "tf_cs tf AND 3 = 0")
       (simp_all only: format_all_append format_print_regs format_head[OF c] format_fields format_all.simps
         chain_Inr append_assoc append_Nil append_Nil2 if_True if_False simp_thms)
  then show ?thesis using cprintf_all_prints cputs_screen[OF assms(2)] by blast
qed

definition demo_tf :: trapframe where
  "demo_tf = zero_tf\<lparr>tf_trapno := T_PGFLT, tf_err := FEC_U OR FEC_WR, tf_cs := GD_UT OR 3\<rparr>"

lemma print_trapframe_prints_witness:
  "\<exists>con1. cprintf_all (print_trapframe 0xEFFFFFBC 0xDEADBEEF 1 0xEFFFFFBC demo_tf) demo_console = Inr con1 \<and> screen_ok con1"
  using print_trapframe_prints[of 1 demo_console "0xEFFFFFBC" "0xDEADBEEF" "0xEFFFFFBC" demo_tf]
  by (auto simp: NCPU_def demo_console_def screen_ok_def)

lemma panic_text:
  assumes "cpu < 2 ^ 31" and "0 \<le> sint line" and "format_call (fmt, args) = Inr out"
  shows "format_all [(''>>>'' @ NL @ ''>>> kernel panic on CPU %d at %s:%d: '', [Val (word_of_nat cpu), Text file, Val line]),
     (fmt, args), (NL @ ''>>>'' @ NL, [])] = Inr (''>>>'' @ NL @ ''>>> kernel panic on CPU '' @ printnum cpu 10 (-1) CHR '' ''
         @ '' at '' @ file @ '':'' @ printnum (unat line) 10 (-1) CHR '' '' @ '': '' @ out @ NL @ ''>>>'' @ NL)"
proof -
  have "sint (word_of_nat cpu :: u32) = int cpu" "unat (word_of_nat cpu :: u32) = cpu"
    using assms(1) by (simp_all add: signed_of_nat signed_take_bit_int_eq_self unat_of_nat)
  then have "format_call (''>>>'' @ NL @ ''>>> kernel panic on CPU %d at %s:%d: '', [Val (word_of_nat cpu), Text file, Val line])
      = Inr (''>>>'' @ NL @ ''>>> kernel panic on CPU '' @ printnum cpu 10 (-1) CHR '' ''
         @ '' at '' @ file @ '':'' @ printnum (unat line) 10 (-1) CHR '' '' @ '': '')"
    using assms(2) by (simp add: call_simps)
  moreover have "format_call (NL @ ''>>>'' @ NL, []) = Inr (NL @ ''>>>'' @ NL)" by (simp add: call_simps)
  ultimately show ?thesis using assms(3) by simp
qed

text \<open>The first panic prints where it happened and its message, and does not fault on a sound screen; a
  panic after it, the monitor's own included, prints nothing.\<close>

theorem panic_reports_once:
  assumes "format_call (fmt, args) = Inr out" and "cpu < NCPU" and "0 \<le> sint line" and "screen_ok con"
  shows "\<exists>con1. kpanic None cpu file line fmt args con = Inr (Some fmt, con1) \<and> screen_ok con1
     \<and> cputs (''>>>'' @ NL @ ''>>> kernel panic on CPU '' @ printnum cpu 10 (-1) CHR '' '' @ '' at '' @ file @ '':''
         @ printnum (unat line) 10 (-1) CHR '' '' @ '': '' @ out @ NL @ ''>>>'' @ NL) con = Inr con1
     \<and> (\<forall>cpu2 file2 line2 fmt2 args2. kpanic (Some fmt) cpu2 file2 line2 fmt2 args2 con1 = Inr (Some fmt, con1))"
proof -
  have c: "cpu < 2 ^ 31" using assms(2) by (simp add: NCPU_def)
  note p = cprintf_all_prints[OF panic_text[OF c assms(3,1)]]
  from cputs_screen[OF assms(4)] obtain con1 where
    1: "cprintf_all [(''>>>'' @ NL @ ''>>> kernel panic on CPU %d at %s:%d: '', [Val (word_of_nat cpu), Text file, Val line]),
     (fmt, args), (NL @ ''>>>'' @ NL, [])] con = Inr con1" "screen_ok con1" unfolding p by blast
  have "kpanic None cpu file line fmt args con = Inr (Some fmt, con1)" unfolding kpanic_def 1(1) by simp
  moreover note 1(1)[unfolded p]
  moreover have "kpanic (Some fmt) cpu2 file2 line2 fmt2 args2 con1 = Inr (Some fmt, con1)"
    for cpu2 file2 line2 fmt2 args2 by (simp add: kpanic_def)
  ultimately show ?thesis using 1(2) by blast
qed

section \<open>The rest of \<^verbatim>\<open>kern/console.c\<close>\<close>

text \<open>\<^verbatim>\<open>getchar\<close> polls until a character is there. What will be typed is in the lists of the devices, so
  that None means that it waits for ever.\<close>

partial_function (option) getchar :: "console \<Rightarrow> (fault + (int \<times> console)) option" where
  "getchar s =
     Option.bind (cons_getc s) (\<lambda>r. case r of
         Inl e \<Rightarrow> Some (Inl e)
       | Inr (c, s1) \<Rightarrow> if c = 0 then getchar s1 else Some (Inr (c, s1)))"

definition iscons :: "int \<Rightarrow> bool" where "iscons fdnum = True"

definition kbd_init :: "console \<Rightarrow> devices \<Rightarrow> (fault + (console \<times> devices)) option" where
  "kbd_init s d = map_option (\<lambda>r. chain r (\<lambda>s1. Inr (s1, kbd_irq_init d))) (kbd_intr s)"

text \<open>What \<^verbatim>\<open>getchar\<close> answers is a character, never 0 and never an error, and the ring and the screen stay
  sound; with nothing to come it does not return.\<close>

lemma getchar_character:
  assumes "getchar s = Some r"
  shows "ring_ok s \<and> screen_ok s \<longrightarrow> (\<exists>c s1. r = Inr (c, s1) \<and> 0 < c \<and> c < 256 \<and> ring_ok s1 \<and> screen_ok s1)"
proof (rule getchar.raw_induct[OF _ assms])
  fix f s r
  let ?P = "\<lambda>s r. ring_ok s \<and> screen_ok s \<longrightarrow> (\<exists>c s1. r = Inr (c, s1) \<and> 0 < c \<and> c < 256 \<and> ring_ok s1 \<and> screen_ok s1)"
  assume IH: "\<And>s r. f s = Some r \<Longrightarrow> ?P s r"
    and body: "Option.bind (cons_getc s) (\<lambda>r. case r of
         Inl e \<Rightarrow> Some (Inl e) | Inr (c, s1) \<Rightarrow> if c = 0 then f s1 else Some (Inr (c, s1))) = Some r"
  show "?P s r"
  proof
    assume "ring_ok s \<and> screen_ok s"
    then obtain c s1 where g: "cons_getc s = Some (Inr (c, s1))" "0 \<le> c" "c < 256" "ring_ok s1" "screen_ok s1"
      using cons_getc_returns by blast
    show "\<exists>c s1. r = Inr (c, s1) \<and> 0 < c \<and> c < 256 \<and> ring_ok s1 \<and> screen_ok s1"
    proof (cases "c = 0")
      case True
      with body g(1) have "f s1 = Some r" by simp
      from IH[OF this] g(4,5) show ?thesis by blast
    next
      case False
      with body g show ?thesis by auto
    qed
  qed
qed

lemma getchar_waits:
  assumes "cons_getc s = Some (Inr (0, s))"
  shows "getchar s = None"
proof (rule ccontr)
  assume "getchar s \<noteq> None"
  then obtain r where r: "getchar s = Some r" by blast
  have "cons_getc s \<noteq> Some (Inr (0, s))"
  proof (rule getchar.raw_induct[OF _ r])
    fix f s and r :: "fault + (int \<times> console)"
    assume IH: "\<And>s r. f s = Some r \<Longrightarrow> cons_getc s \<noteq> Some (Inr (0, s))"
      and body: "Option.bind (cons_getc s) (\<lambda>r. case r of
         Inl e \<Rightarrow> Some (Inl e) | Inr (c, s1) \<Rightarrow> if c = 0 then f s1 else Some (Inr (c, s1))) = Some r"
    show "cons_getc s \<noteq> Some (Inr (0, s))"
    proof
      assume g: "cons_getc s = Some (Inr (0, s))"
      with body have "f s = Some r" by simp
      from IH[OF this] g show False by contradiction
    qed
  qed
  with assms show False by contradiction
qed

section \<open>Wrappers with variable arguments (\<^verbatim>\<open>lib/printfmt.c\<close>, \<^verbatim>\<open>lib/printf.c\<close>)\<close>

definition printfmt :: "string \<Rightarrow> arg list \<Rightarrow> fault + string" where
  "printfmt fmt args = vprintfmt (arg_text args) fmt (arg_slots args)"

definition snprintf :: "char list option \<Rightarrow> int \<Rightarrow> string \<Rightarrow> arg list \<Rightarrow> fault + (int \<times> char list option)" where
  "snprintf buf n fmt args = vsnprintf (arg_text args) buf n fmt (arg_slots args)"

definition u_cprintf :: "string \<Rightarrow> arg list \<Rightarrow> fault + (nat \<times> string list)" where
  "u_cprintf fmt args = vcprintf (arg_text args) fmt (arg_slots args)"

text \<open>The user's \<^verbatim>\<open>_panic\<close> before its breakpoint: three calls, each sent to the kernel at once.\<close>

definition upanic_calls :: "u32 \<Rightarrow> string \<Rightarrow> string \<Rightarrow> u32 \<Rightarrow> string \<Rightarrow> arg list \<Rightarrow> (string \<times> arg list) list" where
  "upanic_calls envid binaryname file line fmt args =
     [(''[%08x] user panic in %s at %s:%d: '', [Val envid, Text binaryname, Text file, Val line]), (fmt, args), (NL, [])]"

end
