(* ===== verification/Entrypgdir.thy ===== *)
theory Entrypgdir
  imports PmapProps
begin

unbundle bit_operations_syntax

text \<open>
  The page directory of the first instructions, \<^verbatim>\<open>kern/entrypgdir.c\<close>: two large pages for the first
  four megabytes. The file also keeps, disabled by the preprocessor, the page table that served the
  same purpose before; it maps the same addresses.
\<close>

definition entry_pgdir :: "nat \<Rightarrow> u32" where
  "entry_pgdir d =
     (if d = 0 then 0x00000 + PTE_P + PTE_PS
      else if d = unat (drop_bit PDXSHIFT KERNBASE) then 0x00000 + PTE_P + PTE_W + PTE_PS
      else 0)"

definition entry_pgtable :: "nat \<Rightarrow> u32" where
  "entry_pgtable t = (if t < NPTENTRIES then word_of_nat t * 0x1000 OR PTE_P OR PTE_W else 0)"

text \<open>A memory whose frame \<open>k\<close> holds the directory.\<close>

definition entry_installed :: "kmem \<Rightarrow> nat \<Rightarrow> bool" where
  "entry_installed s k \<longleftrightarrow> (\<forall>d<NPDENTRIES. phys s k d = entry_pgdir d)"

lemma entry_index: "unat (drop_bit PDXSHIFT KERNBASE) = 960"
  by (simp add: memlayout_defs mmu_consts drop_bit_eq_div unat_div)

lemma entry_flags: "(PTE_P + PTE_PS) AND PTE_P \<noteq> 0" "(PTE_P + PTE_PS) AND PTE_PS \<noteq> 0" "PDX (PTE_P + PTE_PS) = 0"
  "(PTE_P + PTE_W + PTE_PS) AND PTE_P \<noteq> 0" "(PTE_P + PTE_W + PTE_PS) AND PTE_PS \<noteq> 0" "PDX (PTE_P + PTE_W + PTE_PS) = 0"
  by (simp_all add: pte_bits PDX_def mmu_consts)

text \<open>With a directory entry that has no frame bits, a large page translates to the offset in it.\<close>

lemma large_page: "unat (PGADDR 0 (PTX va) (PGOFF va)) = unat va mod 4194304"
proof -
  have "PGADDR 0 (PTX va) (PGOFF va) = take_bit 22 va"
    by (rule bit_word_eqI) (auto simp: PGADDR_def PTX_def PGOFF_def and_mask_word mmu_consts bit_simps)
  then show ?thesis by (simp add: take_bit_eq_mod unat_mod)
qed

lemma entry_dir_reads:
  assumes "entry_installed s k"
  shows "check_va2pa s k va =
    (if unat (PDX va) = 0 \<or> unat (PDX va) = 960 then Inr (PGADDR 0 (PTX va) (PGOFF va)) else Inr (NOT 0))"
proof -
  have "read_pte s (k, unat (PDX va)) = entry_pgdir (unat (PDX va))"
    using assms PDX_less[of va] by (simp add: entry_installed_def read_pte_def NPDENTRIES_def)
  then show ?thesis using entry_flags by (auto simp: check_va2pa_def entry_pgdir_def entry_index Let_def)
qed

text \<open>With the first page directory installed, the addresses of the first four megabytes and those of
  the four megabytes from \<^verbatim>\<open>KERNBASE\<close> on translate to the first four megabytes of physical memory, and no
  other address is mapped.\<close>

theorem entry_pgdir_maps:
  assumes "entry_installed s k"
  shows "check_va2pa s k va =
    (if va < 0x400000 then Inr va
     else if KERNBASE \<le> va \<and> va < KERNBASE + 0x400000 then Inr (va - KERNBASE) else Inr (NOT 0))"
proof -
  have u: "unat (PDX va) = unat va div 4194304" by (rule unat_PDX)
  consider "unat va < 4194304" | "4026531840 \<le> unat va" "unat va < 4030726144"
    | "4194304 \<le> unat va" "unat va < 4026531840 \<or> 4030726144 \<le> unat va" by linarith
  then show ?thesis
  proof cases
    case 1
    then have "PGADDR 0 (PTX va) (PGOFF va) = va" using large_page[of va] by (simp add: word_unat_eq_iff)
    with 1 show ?thesis by (simp add: entry_dir_reads[OF assms] u word_less_nat_alt)
  next
    case 2
    then have "unat va div 4194304 = 960" by (intro div_nat_eqI) simp_all
    moreover have k: "KERNBASE \<le> va" using 2 by (simp add: word_le_nat_alt memlayout_defs)
    moreover have "PGADDR 0 (PTX va) (PGOFF va) = va - KERNBASE"
    proof -
      have "unat (va - KERNBASE) = unat va - 4026531840" using k by (simp add: unat_sub memlayout_defs)
      moreover have "unat va mod 4194304 = unat va - 4026531840"
        using 2 \<open>unat va div 4194304 = 960\<close> by (simp add: minus_div_mult_eq_mod[symmetric])
      ultimately show ?thesis using large_page[of va] by (simp add: word_unat_eq_iff)
    qed
    ultimately show ?thesis using 2
      by (simp add: entry_dir_reads[OF assms] u word_less_nat_alt memlayout_defs)
  next
    case 3
    have n: "unat va div 4194304 \<noteq> 0" "unat va div 4194304 \<noteq> 960"
    proof -
      show "unat va div 4194304 \<noteq> 0" using 3 by simp
      show "unat va div 4194304 \<noteq> 960"
      proof
        assume "unat va div 4194304 = 960"
        then have "960 * 4194304 \<le> unat va" "unat va < 961 * 4194304" by auto
        with 3 show False by simp
      qed
    qed
    with 3 show ?thesis
      by (auto simp: entry_dir_reads[OF assms] u word_less_nat_alt word_le_nat_alt memlayout_defs)
  qed
qed

definition demo_entry :: kmem where
  "demo_entry = demo_mem\<lparr>phys := (\<lambda>f d. if f = 1 then entry_pgdir d else 0)\<rparr>"

lemma entry_pgdir_maps_witness:
  "check_va2pa demo_entry 1 0xF0012345 = Inr 0x12345 \<and> check_va2pa demo_entry 1 0x100000 = Inr 0x100000
    \<and> check_va2pa demo_entry 1 0x800000 = Inr (NOT 0)"
proof -
  have i: "entry_installed demo_entry 1" by (simp add: entry_installed_def demo_entry_def)
  show ?thesis
    using entry_pgdir_maps[OF i, of "0xF0012345"] entry_pgdir_maps[OF i, of "0x100000"] entry_pgdir_maps[OF i, of "0x800000"]
    by (simp add: memlayout_defs)
qed

text \<open>The disabled table maps each of its 1024 pages to the frame of the same number.\<close>

lemma entry_pgtable_identity: "t < 1024 \<Longrightarrow> reads_as (entry_pgtable t) = page2pa t"
proof -
  assume t: "t < 1024"
  have "word_of_nat t * 0x1000 = page2pa t"
    using t by (simp add: page2pa_bits push_bit_eq_mult)
  then have "entry_pgtable t = page2pa t OR PTE_W OR PTE_P"
    using t by (simp add: entry_pgtable_def NPTENTRIES_def or.commute[of PTE_P PTE_W])
  then show ?thesis using PmapProps.entry_reads[of t PTE_W] t by simp
qed

end
