(* ===== verification/KlibC.thy ===== *)
theory KlibC
  imports Klib
begin

unbundle bit_operations_syntax

text \<open>
  The second implementation of \<^verbatim>\<open>memset\<close> and \<^verbatim>\<open>memmove\<close> in \<^verbatim>\<open>lib/string.c\<close>, plain loops for a build without the
  string instructions, and its equivalence with the first.
\<close>

section \<open>The loops\<close>

fun copy_forward :: "nat \<Rightarrow> nat \<Rightarrow> nat \<Rightarrow> bytes \<Rightarrow> bytes" where
  "copy_forward 0 d s m = m"
| "copy_forward (Suc n) d s m = copy_forward n (d + 1) (s + 1) (m(d := m s))"

fun copy_backward :: "nat \<Rightarrow> nat \<Rightarrow> nat \<Rightarrow> bytes \<Rightarrow> bytes" where
  "copy_backward 0 d s m = m"
| "copy_backward (Suc n) d s m = copy_backward n (d - 1) (s - 1) (m(d - 1 := m (s - 1)))"

definition memmove_c :: "bytes \<Rightarrow> nat \<Rightarrow> nat \<Rightarrow> nat \<Rightarrow> bytes" where
  "memmove_c m dst src n =
     (if src < dst \<and> src + n > dst then copy_backward n (dst + n) (src + n) m else copy_forward n dst src m)"

fun fill :: "nat \<Rightarrow> nat \<Rightarrow> u8 \<Rightarrow> bytes \<Rightarrow> bytes" where
  "fill 0 p c m = m"
| "fill (Suc k) p c m = fill k (p + 1) c (m(p := c))"

text \<open>The count is kept in an \<^verbatim>\<open>int\<close>: from \<open>2 ^ 31\<close> on it is negative and the loop does nothing.\<close>

definition memset_c :: "bytes \<Rightarrow> nat \<Rightarrow> u32 \<Rightarrow> nat \<Rightarrow> bytes" where
  "memset_c m v c n = fill (nat (sint (word_of_nat n :: u32))) v (ucast c) m"

lemma move_byte: "move_unit 1 d s m = m(d := m s)"
  by (auto simp: move_unit_def)

lemma copy_forward_eq: "copy_forward n d s m = rep_movs_up 1 n d s m"
  by (induction n arbitrary: d s m) (simp_all add: move_byte[simplified])

lemma copy_backward_eq: "copy_backward n d s m = rep_movs_down 1 n (d - 1) (s - 1) m"
  by (induction n arbitrary: d s m) (simp_all add: move_byte[simplified])

lemma memmove_c_copied: "memmove_c m dst src n = copied m dst src n"
proof (cases "src < dst \<and> src + n > dst")
  case True
  then have "n > 0" by auto
  with True show ?thesis
    using rep_movs_down_end[of src dst n 1 m] by (simp add: memmove_c_def copy_backward_eq)
next
  case False
  then have "dst \<le> src \<or> src + n * 1 \<le> dst" by auto
  from rep_movs_up_eq[OF this, of m] show ?thesis unfolding memmove_c_def if_not_P[OF False] copy_forward_eq by simp
qed

text \<open>Filling: what \<^verbatim>\<open>memset\<close> leaves behind.\<close>

definition filled :: "bytes \<Rightarrow> nat \<Rightarrow> u8 \<Rightarrow> nat \<Rightarrow> bytes" where
  "filled m p c n = (\<lambda>a. if p \<le> a \<and> a < p + n then c else m a)"

lemma fill_filled: "fill n p c m = filled m p c n"
  by (induction n arbitrary: p m) (auto simp: filled_def fun_eq_iff)

lemma rep_stos_filled:
  assumes "\<And>i. i < w \<Longrightarrow> ucast (drop_bit (8 * i) v) = c"
  shows "rep_stos w v k p m = filled m p c (k * w)"
proof (induction k arbitrary: p m)
  case (Suc k)
  have "(\<lambda>a. if p \<le> a \<and> a < p + w then ucast (drop_bit (8 * (a - p)) v) else m a) = filled m p c w"
    using assms by (auto simp: filled_def fun_eq_iff)
  then show ?case using Suc[of "p + w" "filled m p c w"] by (auto simp: filled_def fun_eq_iff)
qed (rule ext, auto simp: filled_def)

lemma repeated_byte:
  fixes c :: u32
  defines "c1 \<equiv> c AND 0xFF"
  assumes "i < 4"
  shows "ucast (drop_bit (8 * i) (push_bit 24 c1 OR push_bit 16 c1 OR push_bit 8 c1 OR c1)) = (ucast c :: u8)"
proof -
  have c1: "c1 = take_bit 8 c" unfolding c1_def by (simp add: take_bit_eq_mask mask_eq_exp_minus_1)
  have "i \<in> {0, 1, 2, 3}" using assms by auto
  then show ?thesis by (intro bit_word_eqI) (auto simp: c1 bit_simps)
qed

lemma memset_filled: "memset m v c n = filled m v (ucast c) n"
proof (cases "n \<noteq> 0 \<and> v mod 4 = 0 \<and> n mod 4 = 0")
  case True
  then have "n div 4 * 4 = n" by auto
  let ?c1 = "c AND 0xFF"
  have "rep_stos 4 (push_bit 24 ?c1 OR push_bit 16 ?c1 OR push_bit 8 ?c1 OR ?c1) (n div 4) v m =
      filled m v (ucast c) (n div 4 * 4)" by (rule rep_stos_filled) (rule repeated_byte)
  with True \<open>n div 4 * 4 = n\<close> show ?thesis by (simp only: memset_def Let_def simp_thms if_True if_False)
next
  case False
  then have "n = 0 \<or> memset m v c n = rep_stos 1 c n v m" by (auto simp: memset_def)
  moreover have "rep_stos 1 c n v m = filled m v (ucast c) (n * 1)" by (rule rep_stos_filled) simp
  ultimately show ?thesis by (auto simp: memset_def filled_def)
qed

text \<open>The library's two implementations agree: of block moves everywhere, of block fills for every length
  below \<open>2 ^ 31\<close>. The string instructions, by words or bytes and in either direction, leave what the plain
  loops over bytes leave.\<close>

theorem block_variants_agree:
  "memmove m dst src n = memmove_c m dst src n \<and> (n < 2 ^ 31 \<longrightarrow> memset m v c n = memset_c m v c n)"
proof -
  have "sint (word_of_nat n :: u32) = int n" if "n < 2 ^ 31"
    using that by (simp add: signed_of_nat signed_take_bit_int_eq_self)
  then show ?thesis by (simp add: memmove_copied memmove_c_copied memset_filled memset_c_def fill_filled)
qed

text \<open>From \<open>2 ^ 31\<close> on the plain loop fills nothing.\<close>

lemma memset_c_long: "2 ^ 31 \<le> n \<Longrightarrow> n < 2 ^ 32 \<Longrightarrow> memset_c m v c n = m"
proof -
  assume n: "2 ^ 31 \<le> n" "n < 2 ^ 32"
  have "(2 :: int) ^ 31 \<le> int n" using n(1) by simp
  from signed_take_bit_int_less_eq[OF this] have "signed_take_bit 31 (int n) \<le> int n - 2 ^ Suc 31" .
  moreover have "int n < 2 ^ Suc 31" using n(2) by simp
  ultimately have "signed_take_bit 31 (int n) < 0" by linarith
  moreover have "sint (word_of_nat n :: u32) = signed_take_bit 31 (int n)" by (simp add: signed_of_nat)
  ultimately have "sint (word_of_nat n :: u32) < 0" by simp
  then show "memset_c m v c n = m" by (simp add: memset_c_def)
qed

end
