(* ===== verification/Persistence.thy ===== *)
theory Persistence
  imports Fisopfs
begin

text \<open>
  The backup of the file system: \<^verbatim>\<open>fisopfs/persistence.c\<close> and \<^verbatim>\<open>fisopfs/argumentos.c\<close>, with the
  callbacks of \<^verbatim>\<open>fisopfs.c\<close> that save and load. A file is the list of its bytes. A record has a
  fixed layout, little-endian, and is closed by a newline; loading reads it with \<^verbatim>\<open>fgets\<close>,
  which stops at the first newline wherever it stands.
\<close>

section \<open>Fixed-width encodings\<close>

text \<open>
  The contract of an encoding of fixed width: what \<open>dec\<close> reads back from the bytes that \<open>enc\<close>
  wrote, for the values that are \<open>valid\<close>. A record is a sequence of such fields.
\<close>

locale codec =
  fixes enc :: "'a \<Rightarrow> char list" and dec :: "char list \<Rightarrow> 'a" and width :: nat and valid :: "'a \<Rightarrow> bool"
  assumes enc_width: "length (enc x) = width"
    and dec_enc: "valid x \<Longrightarrow> dec (enc x) = x"
begin

lemma dec_field: "valid x \<Longrightarrow> dec (take width (enc x @ r)) = x"
  by (simp add: enc_width dec_enc)

lemma drop_field: "drop width (enc x @ r) = r"
  by (simp add: enc_width)

end

text \<open>A word as bytes, the least significant first.\<close>

definition byte_char :: "u8 \<Rightarrow> char" where
  "byte_char b = char_of (unat b)"

definition char_byte :: "char \<Rightarrow> u8" where
  "char_byte c = word_of_nat (of_char c)"

fun le_enc :: "nat \<Rightarrow> nat \<Rightarrow> char list" where
  "le_enc 0 n = []"
| "le_enc (Suc k) n = char_of (n mod 256) # le_enc k (n div 256)"

fun le_dec :: "char list \<Rightarrow> nat" where
  "le_dec [] = 0"
| "le_dec (c # cs) = of_char c + 256 * le_dec cs"

lemma length_le_enc [simp]: "length (le_enc k n) = k"
  by (induction k arbitrary: n) auto

lemma le_dec_enc: "n < 256 ^ k \<Longrightarrow> le_dec (le_enc k n) = n"
proof (induction k arbitrary: n)
  case (Suc k)
  then have "n div 256 < 256 ^ k" by (simp add: less_mult_imp_div_less mult.commute)
  with Suc show ?case by simp
qed simp

definition enc_u32 :: "u32 \<Rightarrow> char list" where "enc_u32 w = le_enc 4 (unat w)"
definition dec_u32 :: "char list \<Rightarrow> u32" where "dec_u32 b = word_of_nat (le_dec b)"
definition enc_u64 :: "u64 \<Rightarrow> char list" where "enc_u64 w = le_enc 8 (unat w)"
definition dec_u64 :: "char list \<Rightarrow> u64" where "dec_u64 b = word_of_nat (le_dec b)"

definition enc_timespec :: "timespec \<Rightarrow> char list" where
  "enc_timespec t = enc_u64 (tv_sec t) @ enc_u64 (tv_nsec t)"
definition dec_timespec :: "char list \<Rightarrow> timespec" where
  "dec_timespec b = \<lparr>tv_sec = dec_u64 (take 8 b), tv_nsec = dec_u64 (drop 8 b)\<rparr>"

definition status_word :: "cell_status_t \<Rightarrow> u32" where
  "status_word s = (case s of FREE_T \<Rightarrow> 0 | TAKEN_T \<Rightarrow> 1 | DELETED_T \<Rightarrow> 2 | Other_status w \<Rightarrow> w)"
definition word_status :: "u32 \<Rightarrow> cell_status_t" where
  "word_status w = (if w = 0 then FREE_T else if w = 1 then TAKEN_T else if w = 2 then DELETED_T else Other_status w)"
definition type_word :: "file_type_t \<Rightarrow> u32" where
  "type_word s = (case s of NOTHING_T \<Rightarrow> 0 | FILE_T \<Rightarrow> 1 | DIR_T \<Rightarrow> 2 | Other_type w \<Rightarrow> w)"
definition word_type :: "u32 \<Rightarrow> file_type_t" where
  "word_type w = (if w = 0 then NOTHING_T else if w = 1 then FILE_T else if w = 2 then DIR_T else Other_type w)"

interpretation u32c: codec enc_u32 dec_u32 4 "\<lambda>_. True"
  by unfold_locales (simp_all add: enc_u32_def dec_u32_def le_dec_enc unsigned_less[where 'b = 32, simplified])

interpretation u64c: codec enc_u64 dec_u64 8 "\<lambda>_. True"
proof
  fix x :: u64
  have "unat x < 256 ^ 8" using unsigned_less[of x, where ?'a = nat] by simp
  then show "dec_u64 (enc_u64 x) = x" by (simp add: enc_u64_def dec_u64_def le_dec_enc)
qed (simp add: enc_u64_def)

interpretation timec: codec enc_timespec dec_timespec 16 "\<lambda>_. True"
  by unfold_locales (simp_all add: enc_timespec_def dec_timespec_def u64c.enc_width u64c.dec_enc)

definition status_valid :: "cell_status_t \<Rightarrow> bool" where
  "status_valid s \<longleftrightarrow> (case s of Other_status w \<Rightarrow> w > 2 | _ \<Rightarrow> True)"
definition type_valid :: "file_type_t \<Rightarrow> bool" where
  "type_valid s \<longleftrightarrow> (case s of Other_type w \<Rightarrow> w > 2 | _ \<Rightarrow> True)"

interpretation statusc: codec "\<lambda>s. enc_u32 (status_word s)" "\<lambda>b. word_status (dec_u32 b)" 4 status_valid
  by unfold_locales
     (auto simp: u32c.enc_width u32c.dec_enc status_word_def word_status_def status_valid_def split: cell_status_t.splits)

interpretation typec: codec "\<lambda>s. enc_u32 (type_word s)" "\<lambda>b. word_type (dec_u32 b)" 4 type_valid
  by unfold_locales
     (auto simp: u32c.enc_width u32c.dec_enc type_word_def word_type_def type_valid_def split: file_type_t.splits)

section \<open>Saving\<close>

definition LARGO_METADATA :: nat where
  "LARGO_METADATA = 2 * LARGO_NOMBRE + LARGO_FECHA + 2 * 16 + 2 * 4 + 4"
definition LARGO_FILE :: nat where
  "LARGO_FILE = LARGO_METADATA + LARGO_CONTENIDO + LARGO_PATH + 4 + 4"

abbreviation NL :: char where "NL \<equiv> CHR 0x0A"

definition write_metadata :: "file_metadata \<Rightarrow> char list" where
  "write_metadata m = nombre m @ fecha_creacion m @ enc_timespec (fecha_modificacion m)
     @ enc_timespec (fecha_acceso m) @ enc_u32 (propietario m) @ enc_u32 (mode m) @ enc_u32 (gid m)"

definition write_cell :: "fcell \<Rightarrow> char list" where
  "write_cell f = path f @ enc_u32 (status_word (cell_status f)) @ enc_u32 (type_word (ftype f))
     @ write_metadata (metadata f) @ contenido f @ [NL]"

definition all_cells :: "pos list" where
  "all_cells = concat (map (\<lambda>i. map (Pair i) [0..<LADO_MAPA]) [0..<LADO_MAPA])"

text \<open>\<^verbatim>\<open>save_fs\<close> rewinds and overwrites: bytes of the old file beyond the new ones stay.\<close>

definition save_fs :: "filesystem \<Rightarrow> char list \<Rightarrow> char list" where
  "save_fs fs old =
     (let new = concat (map (\<lambda>(i, j). write_cell (fs i j)) all_cells) in new @ drop (length new) old)"

section \<open>Loading\<close>

text \<open>\<^verbatim>\<open>fgets (buffer, n, fp)\<close>: at most \<open>n - 1\<close> bytes up to a newline, then a zero byte; the rest of the
  buffer keeps its bytes. None is the null result at the end of the file.\<close>

definition fgets :: "nat \<Rightarrow> char list \<Rightarrow> char list \<Rightarrow> (char list \<times> char list) option" where
  "fgets n buffer inp =
     (if inp = [] then None
      else let l = takeWhile (\<lambda>c. c \<noteq> NL) inp;
               full = (if length l < length inp then l @ [NL] else l);
               line = take (n - 1) full in
           Some (line @ NUL # drop (Suc (length line)) buffer, drop (length line) inp))"

definition load_metadata :: "file_metadata \<Rightarrow> char list \<Rightarrow> file_metadata \<times> char list" where
  "load_metadata m b0 =
     (let b1 = drop LARGO_NOMBRE b0; b2 = drop LARGO_FECHA b1; b3 = drop 16 b2; b4 = drop 16 b3;
          b5 = drop 4 b4; b6 = drop 4 b5 in
      (m\<lparr>nombre := take LARGO_NOMBRE b0, fecha_creacion := take LARGO_FECHA b1,
         fecha_modificacion := dec_timespec (take 16 b2), fecha_acceso := dec_timespec (take 16 b3),
         propietario := dec_u32 (take 4 b4), mode := dec_u32 (take 4 b5), gid := dec_u32 (take 4 b6)\<rparr>,
       drop 4 b6))"

definition load_cell :: "fcell \<Rightarrow> char list \<Rightarrow> fcell" where
  "load_cell f buffer =
     (let b1 = drop LARGO_PATH buffer; b2 = drop 4 b1; (m, b3) = load_metadata (metadata f) (drop 4 b2) in
      f\<lparr>path := take LARGO_PATH buffer, cell_status := word_status (dec_u32 (take 4 b1)),
        ftype := word_type (dec_u32 (take 4 b2)), metadata := m, contenido := take LARGO_CONTENIDO b3\<rparr>)"

fun load_cells :: "filesystem \<Rightarrow> char list \<Rightarrow> char list \<Rightarrow> pos list \<Rightarrow> filesystem \<times> int" where
  "load_cells fs buffer inp [] = (fs, 0)"
| "load_cells fs buffer inp ((i, j) # ps) =
     (case fgets LARGO_FILE buffer inp of
        None \<Rightarrow> (fs, -1)
      | Some (b, rest) \<Rightarrow> load_cells (set_cell fs i j (load_cell (fs i j) b)) b rest ps)"

text \<open>\<open>buffer\<close> is the uninitialised array on the stack.\<close>

definition load_fs :: "filesystem \<Rightarrow> char list \<Rightarrow> char list \<Rightarrow> filesystem \<times> int" where
  "load_fs fs buffer inp = load_cells fs buffer inp all_cells"

section \<open>The callbacks and the command line\<close>

definition fisopfs_init :: "filesystem \<Rightarrow> char list \<Rightarrow> char list \<Rightarrow> filesystem" where
  "fisopfs_init fs buffer file_bytes = fst (load_fs fs buffer file_bytes)"

definition fisopfs_flush :: "filesystem \<Rightarrow> char list \<Rightarrow> char list \<times> int" where
  "fisopfs_flush fs file_bytes = (save_fs fs file_bytes, 0)"

definition fisopfs_destroy :: "filesystem \<Rightarrow> char list \<Rightarrow> char list" where
  "fisopfs_destroy fs file_bytes = save_fs fs file_bytes"

text \<open>The backup file, whether it is truncated, and the new argument count. The arguments are not
  moved: the caller sees the first ones.\<close>

definition procesar_argumentos :: "(string \<Rightarrow> bool) \<Rightarrow> string list \<Rightarrow> string \<times> bool \<times> nat" where
  "procesar_argumentos exists argv =
     (case scan (\<lambda>_. True) (\<lambda>i. argv ! i = ''-bu'') [0..<length argv - 1] of
        Some i \<Rightarrow> (argv ! (i + 1), \<not> exists (argv ! (i + 1)), length argv - 2)
      | None \<Rightarrow> (''backup.fisop'', True, length argv))"

section \<open>Round trip\<close>

definition lengths_ok :: "fcell \<Rightarrow> bool" where
  "lengths_ok f \<longleftrightarrow> length (path f) = LARGO_PATH \<and> length (contenido f) = LARGO_CONTENIDO
     \<and> length (nombre (metadata f)) = LARGO_NOMBRE \<and> length (fecha_creacion (metadata f)) = LARGO_FECHA
     \<and> status_valid (cell_status f) \<and> type_valid (ftype f)"

lemma length_write_cell: "lengths_ok f \<Longrightarrow> length (write_cell f) = 537"
  by (simp add: write_cell_def write_metadata_def lengths_ok_def u32c.enc_width timec.enc_width fs_const_defs)

lemma LARGO_FILE_eq: "LARGO_FILE = 556"
  by (simp add: LARGO_FILE_def LARGO_METADATA_def fs_const_defs)

lemma load_write_metadata:
  assumes "length (nombre m) = LARGO_NOMBRE" and "length (fecha_creacion m) = LARGO_FECHA"
  shows "load_metadata m0 (write_metadata m @ r) = (m\<lparr>tipo := tipo m0\<rparr>, r)"
  using assms
  by (cases m) (simp add: load_metadata_def write_metadata_def Let_def timec.enc_width u32c.enc_width
      timec.dec_enc u32c.dec_enc)

definition record_head :: "fcell \<Rightarrow> char list" where
  "record_head f = path f @ enc_u32 (status_word (cell_status f)) @ enc_u32 (type_word (ftype f))
     @ write_metadata (metadata f)"

lemma write_cell_head: "write_cell f = record_head f @ contenido f @ [NL]"
  by (simp add: write_cell_def record_head_def)

lemma length_record_head: "lengths_ok f \<Longrightarrow> length (record_head f) = 136"
  by (simp add: record_head_def write_metadata_def lengths_ok_def u32c.enc_width timec.enc_width fs_const_defs)

lemma load_head:
  assumes "lengths_ok f"
  shows "load_cell f0 (record_head f @ x) =
     f\<lparr>metadata := (metadata f)\<lparr>tipo := tipo (metadata f0)\<rparr>, contenido := take LARGO_CONTENIDO x\<rparr>"
  using assms
  by (cases f; cases f0) (simp add: load_cell_def record_head_def load_write_metadata lengths_ok_def Let_def
      u32c.enc_width statusc.dec_enc typec.dec_enc)

lemma load_write_cell:
  assumes "lengths_ok f"
  shows "load_cell f0 (write_cell f @ r) = f\<lparr>metadata := (metadata f)\<lparr>tipo := tipo (metadata f0)\<rparr>\<rparr>"
  using load_head[OF assms, of f0 "contenido f @ NL # r"] assms
  by (cases f) (simp add: write_cell_head lengths_ok_def)

text \<open>Reading one record: a record without a newline inside is read whole.\<close>

definition plain_record :: "fcell \<Rightarrow> bool" where
  "plain_record f \<longleftrightarrow> lengths_ok f \<and> NL \<notin> set (butlast (write_cell f))"

lemma write_cell_butlast: "write_cell f = butlast (write_cell f) @ [NL]"
proof -
  have "write_cell f \<noteq> []" "last (write_cell f) = NL" by (simp_all add: write_cell_def)
  then show ?thesis by (metis append_butlast_last_id)
qed

lemma fgets_record:
  assumes "plain_record f"
  shows "fgets LARGO_FILE buffer (write_cell f @ r) = Some (write_cell f @ NUL # drop 538 buffer, r)"
proof -
  let ?b = "butlast (write_cell f)"
  have w: "write_cell f = ?b @ [NL]" by (rule write_cell_butlast)
  have len: "length (write_cell f) = 537"
    using assms by (simp add: plain_record_def length_write_cell)
  have t: "takeWhile (\<lambda>c. c \<noteq> NL) (write_cell f @ r) = ?b"
    using assms by (subst w) (auto simp: plain_record_def takeWhile_append)
  have lt: "length ?b < length (write_cell f @ r)" using len by simp
  have ne: "write_cell f @ r \<noteq> []" using len by auto
  have full: "(if length ?b < length (write_cell f @ r) then ?b @ [NL] else ?b) = write_cell f"
    using lt w by simp
  have "fgets LARGO_FILE buffer (write_cell f @ r) =
     (let line = take 555 (write_cell f) in
        Some (line @ NUL # drop (Suc (length line)) buffer, drop (length line) (write_cell f @ r)))"
    unfolding fgets_def t Let_def full if_not_P[OF ne] by (simp add: LARGO_FILE_eq)
  then show ?thesis by (simp add: len)
qed

lemma load_cells_saved:
  assumes "\<forall>(i, j)\<in>set ps. plain_record (fs (i :: nat) (j :: nat))" and "distinct ps"
  shows "snd (load_cells fs0 buffer (concat (map (\<lambda>(i, j). write_cell (fs i j)) ps) @ r) ps) = 0
     \<and> (\<forall>i j. fst (load_cells fs0 buffer (concat (map (\<lambda>(i, j). write_cell (fs i j)) ps) @ r) ps) i j =
         (if (i, j) \<in> set ps then (fs i j)\<lparr>metadata := (metadata (fs i j))\<lparr>tipo := tipo (metadata (fs0 i j))\<rparr>\<rparr>
          else fs0 i j))"
  using assms
proof (induction ps arbitrary: fs0 buffer)
  case (Cons p ps)
  obtain i j where p: "p = (i, j)" by (cases p)
  have pr: "plain_record (fs i j)" "lengths_ok (fs i j)" using Cons.prems(1) p by (auto simp: plain_record_def)
  let ?f = "(fs i j)\<lparr>metadata := (metadata (fs i j))\<lparr>tipo := tipo (metadata (fs0 i j))\<rparr>\<rparr>"
  let ?rest = "concat (map (\<lambda>(i, j). write_cell (fs i j)) ps) @ r"
  define fs1 where "fs1 = set_cell fs0 i j ?f"
  have fs1: "fs1 a b = (if a = i \<and> b = j then ?f else fs0 a b)" for a b
    by (auto simp: fs1_def set_cell_app)
  define out where "out = load_cells fs1 (write_cell (fs i j) @ NUL # drop 538 buffer) ?rest ps"
  have L: "load_cells fs0 buffer (concat (map (\<lambda>(i, j). write_cell (fs i j)) (p # ps)) @ r) (p # ps) = out"
    using fgets_record[OF pr(1), of buffer ?rest] by (simp add: p load_write_cell[OF pr(2)] fs1_def out_def)
  have ps: "\<forall>(i, j)\<in>set ps. plain_record (fs i j)" "distinct ps" "(i, j) \<notin> set ps"
    using Cons.prems p by auto
  from Cons.IH[OF ps(1,2), of fs1 "write_cell (fs i j) @ NUL # drop 538 buffer", folded out_def]
  have "snd out = 0" and cells: "fst out a b = (if (a, b) \<in> set ps
      then (fs a b)\<lparr>metadata := (metadata (fs a b))\<lparr>tipo := tipo (metadata (fs1 a b))\<rparr>\<rparr> else fs1 a b)" for a b
    by blast+
  then show ?case unfolding L using ps(3) by (auto simp: p cells fs1)
qed simp

lemma all_cells_props: "distinct all_cells" "(i, j) \<in> set all_cells \<longleftrightarrow> i < LADO_MAPA \<and> j < LADO_MAPA"
proof -
  have "distinct (concat (map (\<lambda>i. map (Pair i) [0..<n]) [0..<m]))" for n m :: nat
    by (induction m) (auto simp: distinct_map inj_on_def)
  then show "distinct all_cells" by (simp add: all_cells_def)
qed (force simp: all_cells_def)

text \<open>C21: What \<^verbatim>\<open>save_fs\<close> writes, \<^verbatim>\<open>load_fs\<close> reads back cell by cell, whatever the file and the stack
  buffer held before, provided that no field of any cell holds a byte 10. Only \<^verbatim>\<open>tipo\<close> is not
  saved: it keeps what the table held before the load.\<close>

theorem save_load_roundtrip:
  assumes "\<forall>i<LADO_MAPA. \<forall>j<LADO_MAPA. plain_record (fs i j)"
  shows "snd (load_fs fs0 buffer (save_fs fs old)) = 0
     \<and> (\<forall>i<LADO_MAPA. \<forall>j<LADO_MAPA. fst (load_fs fs0 buffer (save_fs fs old)) i j =
          (fs i j)\<lparr>metadata := (metadata (fs i j))\<lparr>tipo := tipo (metadata (fs0 i j))\<rparr>\<rparr>)"
proof -
  have "\<forall>(i, j)\<in>set all_cells. plain_record (fs i j)"
    using assms all_cells_props(2) by auto
  from load_cells_saved[OF this all_cells_props(1)] show ?thesis
    by (auto simp: load_fs_def save_fs_def Let_def all_cells_props(2))
qed

lemma save_load_roundtrip_witness:
  "snd (load_fs zero_fs (replicate 556 NUL) (save_fs zero_fs [])) = 0"
proof -
  have z: "enc_u32 0 = replicate 4 NUL" "enc_u64 0 = replicate 8 NUL" by code_simp+
  have "NL \<notin> set (butlast (write_cell zero_file))"
    by (simp add: write_cell_def write_metadata_def zero_file_def zero_metadata_def zero_time_def
        enc_timespec_def status_word_def type_word_def z butlast_append) 
  moreover have "lengths_ok zero_file"
    by (simp add: lengths_ok_def zero_file_def zero_metadata_def status_valid_def type_valid_def)
  ultimately have "\<forall>i<LADO_MAPA. \<forall>j<LADO_MAPA. plain_record (zero_fs i j)"
    by (simp add: plain_record_def zero_fs_def)
  from save_load_roundtrip[OF this] show ?thesis by blast
qed

text \<open>A newline in the content cuts the record: loading it gives the content up to the newline,
  then a zero byte and whatever the stack buffer held, and the rest of the content is read as the
  beginning of the next record, its first bytes as the next cell's path.\<close>

theorem newline_splits_record:
  assumes "lengths_ok f" and "contenido f = a @ NL # b"
    and "NL \<notin> set (butlast (write_cell (f\<lparr>contenido := a\<rparr>)))"
    and "length buffer = LARGO_FILE"
  shows "\<exists>b1. fgets LARGO_FILE buffer (write_cell f @ r) = Some (b1, b @ NL # r)
     \<and> contenido (load_cell f0 b1) = take LARGO_CONTENIDO (a @ NL # NUL # drop (length a + 138) buffer)
     \<and> path (load_cell f0 b1) = path f"
proof -
  let ?h = "record_head f @ a"
  have w: "write_cell f = ?h @ NL # b @ [NL]" by (simp add: write_cell_head assms(2))
  have rh: "record_head (f\<lparr>contenido := a\<rparr>) = record_head f" by (simp add: record_head_def)
  have nl: "NL \<notin> set ?h" using assms(3) by (simp add: write_cell_head rh butlast_append)
  have len: "length (record_head f) = 136" "length a + length b = 399"
    using assms(1,2) length_record_head by (simp_all add: lengths_ok_def fs_const_defs)
  have t: "takeWhile (\<lambda>c. c \<noteq> NL) (write_cell f @ r) = ?h"
    using nl by (simp add: w takeWhile_append)
  have "fgets LARGO_FILE buffer (write_cell f @ r) =
      Some (record_head f @ a @ NL # NUL # drop (138 + length a) buffer, b @ NL # r)"
    using len by (simp add: fgets_def t Let_def LARGO_FILE_eq) (simp add: w)
  then show ?thesis
    by (simp add: load_head[OF assms(1)] add.commute)
qed

text \<open>A file with the content \<open>"x\n..."\<close> as an example.\<close>

lemma newline_splits_record_witness:
  "\<exists>b1. fgets LARGO_FILE (replicate 556 NUL) (write_cell (zero_file\<lparr>contenido := CHR ''x'' # NL # replicate 398 NUL\<rparr>))
     = Some (b1, replicate 398 NUL @ [NL])"
proof -
  let ?f = "zero_file\<lparr>contenido := CHR ''x'' # NL # replicate 398 NUL\<rparr>"
  have z: "enc_u32 0 = replicate 4 NUL" "enc_u64 0 = replicate 8 NUL" by code_simp+
  have 1: "lengths_ok ?f"
    by (simp add: lengths_ok_def zero_file_def zero_metadata_def status_valid_def type_valid_def LARGO_CONTENIDO_def)
  have 2: "contenido ?f = [CHR ''x''] @ NL # replicate 398 NUL" by simp
  have 3: "NL \<notin> set (butlast (write_cell (?f\<lparr>contenido := [CHR ''x'']\<rparr>)))"
    by (simp add: write_cell_def write_metadata_def zero_file_def zero_metadata_def zero_time_def
        enc_timespec_def status_word_def type_word_def z butlast_append)
  from newline_splits_record[OF 1 2 3, of "replicate 556 NUL" "[]"] show ?thesis
    by (auto simp: LARGO_FILE_eq)
qed

end
