(* ===== verification/PageRefs.thy ===== *)
theory PageRefs
  imports PmapProps Env
begin

unbundle bit_operations_syntax

text \<open>
  Reference counts (\<^verbatim>\<open>pp_ref\<close> of \<^verbatim>\<open>kern/pmap.h\<close>) as ownership of pages: the count of a page is the
  number of page directory entries that use it as a table, plus the number of table entries that map
  it, over all the address spaces below \<^verbatim>\<open>UTOP\<close>, plus the references held outside the tables. The
  operations of \<^verbatim>\<open>pmap.c\<close> and \<^verbatim>\<open>env_free\<close> keep this account, so that no mapped page is ever on the
  free list, no page table is ever mapped for the user, and an address space gives back all it owns.
\<close>

section \<open>Who refers to a page\<close>

text \<open>\<open>D\<close> is the set of the page directories. A table entry is named by directory and two indices.\<close>

definition pde_refs :: "kmem \<Rightarrow> nat set \<Rightarrow> nat \<Rightarrow> (nat \<times> nat) set" where
  "pde_refs s D p =
     {(dir, d). dir \<in> D \<and> d < UPDX \<and> pde_at s dir d \<noteq> 0 \<and> frame_of (pde_at s dir d) = p}"

definition pte_refs :: "kmem \<Rightarrow> nat set \<Rightarrow> nat \<Rightarrow> (nat \<times> nat \<times> nat) set" where
  "pte_refs s D p =
     {(dir, d, t). dir \<in> D \<and> d < UPDX \<and> t < 1024 \<and> pde_at s dir d \<noteq> 0 \<and> pte_at s dir d t \<noteq> 0
        \<and> frame_of (pte_at s dir d t) = p}"

definition refs :: "kmem \<Rightarrow> nat set \<Rightarrow> nat \<Rightarrow> nat" where
  "refs s D p = card (pde_refs s D p) + card (pte_refs s D p)"

text \<open>The shape of the tables: every table belongs to one entry of one directory and is neither a
  directory nor mapped as a page.\<close>

definition data_frame :: "kmem \<Rightarrow> nat set \<Rightarrow> nat \<Rightarrow> bool" where
  "data_frame s D p \<longleftrightarrow> p < npages s \<and> p \<notin> D \<and> pde_refs s D p = {}"

definition shape :: "kmem \<Rightarrow> nat set \<Rightarrow> bool" where
  "shape s D \<longleftrightarrow> finite D \<and> D \<subseteq> {..<npages s}
     \<and> (\<forall>dir\<in>D. \<forall>d<UPDX. pde_at s dir d \<noteq> 0 \<longrightarrow> pde_ok s (pde_at s dir d) \<and> frame_of (pde_at s dir d) \<notin> D)
     \<and> (\<forall>dir\<in>D. \<forall>d<UPDX. \<forall>dir'\<in>D. \<forall>d'<UPDX. pde_at s dir d \<noteq> 0 \<and> pde_at s dir' d' \<noteq> 0
          \<and> frame_of (pde_at s dir d) = frame_of (pde_at s dir' d') \<longrightarrow> dir = dir' \<and> d = d')
     \<and> (\<forall>dir\<in>D. \<forall>d<UPDX. \<forall>t<1024. pde_at s dir d \<noteq> 0 \<and> pte_at s dir d t \<noteq> 0 \<longrightarrow>
          pte_at s dir d t AND PTE_P \<noteq> 0 \<and> data_frame s D (frame_of (pte_at s dir d t)))"

lemma shapeD:
  assumes "shape s D" and "dir \<in> D" and "d < UPDX" and "pde_at s dir d \<noteq> 0"
  shows "pde_ok s (pde_at s dir d)" and "frame_of (pde_at s dir d) \<notin> D"
    and "frame_of (pde_at s dir d) < npages s"
    and "\<And>dir' d'. dir' \<in> D \<Longrightarrow> d' < UPDX \<Longrightarrow> pde_at s dir' d' \<noteq> 0 \<Longrightarrow>
       frame_of (pde_at s dir d) = frame_of (pde_at s dir' d') \<Longrightarrow> dir = dir' \<and> d = d'"
    and "\<And>t. t < 1024 \<Longrightarrow> pte_at s dir d t \<noteq> 0 \<Longrightarrow>
       pte_at s dir d t AND PTE_P \<noteq> 0 \<and> data_frame s D (frame_of (pte_at s dir d t))"
  using assms unfolding shape_def pde_ok_def by blast+

lemma finite_refs: "finite D \<Longrightarrow> finite (pde_refs s D p)" "finite D \<Longrightarrow> finite (pte_refs s D p)"
proof -
  assume D: "finite D"
  show "finite (pde_refs s D p)"
    by (rule finite_subset[of _ "D \<times> {..<UPDX}"]) (auto simp: pde_refs_def D)
  show "finite (pte_refs s D p)"
    by (rule finite_subset[of _ "D \<times> {..<UPDX} \<times> {..<1024}"]) (auto simp: pte_refs_def D)
qed

lemma table_pde_refs:
  assumes "shape s D" and "dir \<in> D" and "d < UPDX" and "pde_at s dir d \<noteq> 0"
  shows "pde_refs s D (frame_of (pde_at s dir d)) = {(dir, d)}"
  using assms(2-4) shapeD(4)[OF assms] unfolding pde_refs_def by fastforce

text \<open>Only the contents of memory and its size matter.\<close>

lemma refs_cong:
  assumes "phys s' = phys s"
  shows "pde_at s' = pde_at s" and "pte_at s' = pte_at s" and "pde_refs s' D = pde_refs s D"
    and "pte_refs s' D = pte_refs s D" and "refs s' D = refs s D"
proof -
  show a: "pde_at s' = pde_at s" by (intro ext) (simp add: pde_at_def assms)
  show b: "pte_at s' = pte_at s" by (intro ext) (simp add: pte_at_def a assms)
  show c: "pde_refs s' D = pde_refs s D" by (intro ext) (simp add: pde_refs_def a)
  show d: "pte_refs s' D = pte_refs s D" by (intro ext) (simp add: pte_refs_def a b)
  show "refs s' D = refs s D" by (intro ext) (simp add: refs_def c d)
qed

lemma shape_cong: "phys s' = phys s \<Longrightarrow> npages s' = npages s \<Longrightarrow> shape s' D = shape s D"
  by (simp only: shape_def pde_ok_def data_frame_def refs_cong[of s' s])

section \<open>Writing one entry of a table\<close>

text \<open>\<open>v\<close> is no entry or one that maps a page that is no table and no directory.\<close>

definition good_entry :: "kmem \<Rightarrow> nat set \<Rightarrow> u32 \<Rightarrow> bool" where
  "good_entry s D v \<longleftrightarrow> v = 0 \<or> v AND PTE_P \<noteq> 0 \<and> data_frame s D (frame_of v)"

lemma write_entry:
  assumes sh: "shape s D" and at: "dir \<in> D" "d < UPDX" "t < 1024" "pde_at s dir d \<noteq> 0"
    and ph: "phys s' = set_cell (phys s) (frame_of (pde_at s dir d)) t v" and np: "npages s' = npages s"
    and v: "good_entry s D v"
  shows "shape s' D" and "pde_refs s' D = pde_refs s D"
    and "pte_refs s' D p = (if v \<noteq> 0 \<and> frame_of v = p then insert (dir, d, t) (pte_refs s D p)
           else pte_refs s D p - {(dir, d, t)})"
proof -
  let ?f = "frame_of (pde_at s dir d)"
  note here = shapeD[OF sh at(1,2,4)]
  have pde: "pde_at s' x y = pde_at s x y" if "x \<in> D" for x y
    using here(2) that by (auto simp: pde_at_def ph set_cell_app)
  show pr: "pde_refs s' D = pde_refs s D" by (auto simp: pde_refs_def pde fun_eq_iff)
  have pte: "pte_at s' x y z = (if x = dir \<and> y = d \<and> z = t then v else pte_at s x y z)"
    if "x \<in> D" "y < UPDX" "pde_at s x y \<noteq> 0" for x y z
    using shapeD(4)[OF sh that at(1,2,4)] that(1) by (auto simp: pte_at_def pde ph set_cell_app)
  have df: "data_frame s' D = data_frame s D" by (auto simp: data_frame_def pr np)
  have ok: "pde_ok s' = pde_ok s" by (simp add: pde_ok_def np fun_eq_iff)
  show "shape s' D"
    unfolding shape_def df ok np
  proof (intro conjI ballI allI impI)
    show "finite D" "D \<subseteq> {..<npages s}" using sh by (simp_all add: shape_def)
  next
    fix x y z assume h: "x \<in> D" "y < UPDX" "z < 1024" "pde_at s' x y \<noteq> 0 \<and> pte_at s' x y z \<noteq> 0"
    then have nz: "pde_at s x y \<noteq> 0" by (simp add: pde)
    show "pte_at s' x y z AND PTE_P \<noteq> 0" "data_frame s D (frame_of (pte_at s' x y z))"
      using h nz pte[OF h(1,2) nz] shapeD(5)[OF sh h(1,2) nz h(3)] v
      by (auto simp: good_entry_def split: if_splits)
  next
    fix x y assume h: "x \<in> D" "y < UPDX" "pde_at s' x y \<noteq> 0"
    with shapeD(1,2)[OF sh h(1,2)] show "pde_ok s (pde_at s' x y)" "frame_of (pde_at s' x y) \<notin> D"
      by (simp_all add: pde)
  next
    fix x y x' y' assume "x \<in> D" "y < UPDX" "x' \<in> D" "y' < UPDX"
      "pde_at s' x y \<noteq> 0 \<and> pde_at s' x' y' \<noteq> 0 \<and> frame_of (pde_at s' x y) = frame_of (pde_at s' x' y')"
    with shapeD(4)[OF sh, of x y x' y'] show "x = x'" "y = y'" by (simp_all add: pde)
  qed
  show "pte_refs s' D p = (if v \<noteq> 0 \<and> frame_of v = p then insert (dir, d, t) (pte_refs s D p)
           else pte_refs s D p - {(dir, d, t)})"
    using at by (auto simp: pte_refs_def pde pte split: if_splits)
qed

section \<open>Tables and directories that come and go\<close>

lemma data_frame_mapped:
  "shape s D \<Longrightarrow> pte_refs s D p \<noteq> {} \<Longrightarrow> data_frame s D p"
  using shapeD(5) by (fastforce simp: pte_refs_def)

lemma add_table:
  assumes sh: "shape s D" and at: "dir \<in> D" "d < UPDX" "pde_at s dir d = 0"
    and p: "p < npages s" "p < 2 ^ 20" "p \<notin> D" "pde_refs s D p = {}" "pte_refs s D p = {}"
    and ph: "phys s' = set_cell ((phys s)(p := \<lambda>_. 0)) dir d (page2pa p OR PTE_P OR PTE_W OR PTE_U)"
    and np: "npages s' = npages s"
  shows "shape s' D" and "pde_refs s' D q = (if q = p then {(dir, d)} else pde_refs s D q)"
    and "pte_refs s' D = pte_refs s D"
proof -
  let ?e = "page2pa p OR PTE_P OR PTE_W OR PTE_U"
  note e = new_pde[OF p(2)]
  have ne: "frame_of (pde_at s x y) \<noteq> p" if "x \<in> D" "y < UPDX" "pde_at s x y \<noteq> 0" for x y
    using p(4) that by (auto simp: pde_refs_def)
  have pde: "pde_at s' x y = (if x = dir \<and> y = d then ?e else pde_at s x y)" if "x \<in> D" for x y
    using that p(3) by (auto simp: pde_at_def ph set_cell_app)
  show pr: "pde_refs s' D q = (if q = p then {(dir, d)} else pde_refs s D q)" for q
  proof (intro set_eqI)
    fix r :: "nat \<times> nat"
    obtain x y where r: "r = (x, y)" by (cases r)
    show "r \<in> pde_refs s' D q \<longleftrightarrow> r \<in> (if q = p then {(dir, d)} else pde_refs s D q)"
    proof (cases "x = dir \<and> y = d")
      case True
      with at e(1,3) pde[of x y] show ?thesis by (auto simp: r pde_refs_def)
    next
      case False
      then have "x \<in> D \<Longrightarrow> pde_at s' x y = pde_at s x y" by (simp only: pde if_False)
      with False ne[of x y] show ?thesis by (auto simp: r pde_refs_def)
    qed
  qed
  have pte: "pte_at s' x y z = (if x = dir \<and> y = d then 0 else pte_at s x y z)"
    if "x \<in> D" "y < UPDX" "pde_at s' x y \<noteq> 0" for x y z
  proof (cases "x = dir \<and> y = d")
    case True
    then show ?thesis using at(1) p(3) e(1) by (auto simp: pte_at_def pde ph set_cell_app)
  next
    case False
    then have nz: "pde_at s x y \<noteq> 0" using that(1,3) pde[OF that(1), of y] by (simp split: if_splits)
    show ?thesis using False ne[OF that(1,2) nz] shapeD(2)[OF sh that(1,2) nz] that(1) at(1)
      by (auto simp: pte_at_def pde ph set_cell_app)
  qed
  have df: "data_frame s' D (frame_of (pte_at s x y z))"
    if h: "x \<in> D" "y < UPDX" "z < 1024" "pde_at s x y \<noteq> 0" "pte_at s x y z \<noteq> 0" for x y z
  proof -
    have "(x, y, z) \<in> pte_refs s D (frame_of (pte_at s x y z))" using h by (simp add: pte_refs_def)
    then have "frame_of (pte_at s x y z) \<noteq> p" using p(5) by auto
    with shapeD(5)[OF sh h(1,2,4,3,5)] show ?thesis by (simp add: data_frame_def pr np)
  qed
  have ok: "pde_ok s' = pde_ok s" by (simp add: pde_ok_def np fun_eq_iff)
  show "shape s' D"
    unfolding shape_def ok np
  proof (intro conjI ballI allI impI)
    show "finite D" "D \<subseteq> {..<npages s}" using sh by (simp_all add: shape_def)
  next
    fix x y z assume h: "x \<in> D" "y < UPDX" "z < 1024" "pde_at s' x y \<noteq> 0 \<and> pte_at s' x y z \<noteq> 0"
    then have c0: "\<not> (x = dir \<and> y = d)" using pte[OF h(1,2), of z] by auto
    then have c: "pde_at s' x y = pde_at s x y" "pte_at s' x y z = pte_at s x y z"
      using pte[OF h(1,2), of z] h(4) by (simp_all only: pde[OF h(1)] if_False simp_thms)
    with h have nz: "pde_at s x y \<noteq> 0" "pte_at s x y z \<noteq> 0" by simp_all
    show "pte_at s' x y z AND PTE_P \<noteq> 0" "data_frame s' D (frame_of (pte_at s' x y z))"
      using c(2) shapeD(5)[OF sh h(1,2) nz(1) h(3) nz(2)] df[OF h(1-3) nz] by simp_all
  next
    fix x y assume h: "x \<in> D" "y < UPDX" "pde_at s' x y \<noteq> 0"
    show "pde_ok s (pde_at s' x y)" "frame_of (pde_at s' x y) \<notin> D"
      using h(3) shapeD(1,2)[OF sh h(1,2)] e p pde[OF h(1), of y] by (auto simp: pde_ok_def split: if_splits)
  next
    fix x y x' y' assume h: "x \<in> D" "y < UPDX" "x' \<in> D" "y' < UPDX"
      "pde_at s' x y \<noteq> 0 \<and> pde_at s' x' y' \<noteq> 0 \<and> frame_of (pde_at s' x y) = frame_of (pde_at s' x' y')"
    then have "(x, y) \<in> pde_refs s' D (frame_of (pde_at s' x y))" "(x', y') \<in> pde_refs s' D (frame_of (pde_at s' x y))"
      by (simp_all add: pde_refs_def)
    then show "x = x'" "y = y'" unfolding pr using shapeD(4)[OF sh, of x y x' y']
      by (auto simp: pde_refs_def split: if_splits)
  qed
  show "pte_refs s' D = pte_refs s D"
  proof (intro ext set_eqI)
    fix q and r :: "nat \<times> nat \<times> nat"
    obtain x y z where r: "r = (x, y, z)" by (cases r)
    show "r \<in> pte_refs s' D q \<longleftrightarrow> r \<in> pte_refs s D q"
      using pte[of x y z] pde[of x y] at(3) by (auto simp: r pte_refs_def split: if_splits)
  qed
qed

lemma drop_table:
  assumes sh: "shape s D" and at: "dir \<in> D" "d < UPDX" "\<And>t. t < 1024 \<Longrightarrow> pde_at s dir d \<noteq> 0 \<Longrightarrow> pte_at s dir d t = 0"
    and ph: "phys s' = set_cell (phys s) dir d 0" and np: "npages s' = npages s"
  shows "shape s' D" and "pde_refs s' D q = pde_refs s D q - {(dir, d)}" and "pte_refs s' D = pte_refs s D"
proof -
  have pde: "pde_at s' x y = (if x = dir \<and> y = d then 0 else pde_at s x y)" for x y
    by (auto simp: pde_at_def ph set_cell_app)
  show pr: "pde_refs s' D q = pde_refs s D q - {(dir, d)}" for q
    by (auto simp: pde_refs_def pde split: if_splits)
  have pte: "pte_at s' x y z = pte_at s x y z"
    if "x \<in> D" "y < UPDX" "pde_at s x y \<noteq> 0" "\<not> (x = dir \<and> y = d)" for x y z
    using shapeD(2)[OF sh that(1,2,3)] that(4) at(1) by (auto simp: pte_at_def pde ph set_cell_app)
  have ok: "pde_ok s' = pde_ok s" by (simp add: pde_ok_def np fun_eq_iff)
  show "shape s' D"
    unfolding shape_def ok np
  proof (intro conjI ballI allI impI)
    show "finite D" "D \<subseteq> {..<npages s}" using sh by (simp_all add: shape_def)
  next
    fix x y z assume h: "x \<in> D" "y < UPDX" "z < 1024" "pde_at s' x y \<noteq> 0 \<and> pte_at s' x y z \<noteq> 0"
    then have c: "\<not> (x = dir \<and> y = d)" "pde_at s x y \<noteq> 0" by (auto simp: pde split: if_splits)
    then show "pte_at s' x y z AND PTE_P \<noteq> 0" "data_frame s' D (frame_of (pte_at s' x y z))"
      using h pte[OF h(1,2) c(2,1)] shapeD(5)[OF sh h(1,2) c(2) h(3)] by (auto simp: data_frame_def pr np)
  next
    fix x y assume h: "x \<in> D" "y < UPDX" "pde_at s' x y \<noteq> 0"
    then show "pde_ok s (pde_at s' x y)" "frame_of (pde_at s' x y) \<notin> D"
      using shapeD(1,2)[OF sh h(1,2)] by (auto simp: pde split: if_splits)
  next
    fix x y x' y' assume "x \<in> D" "y < UPDX" "x' \<in> D" "y' < UPDX"
      "pde_at s' x y \<noteq> 0 \<and> pde_at s' x' y' \<noteq> 0 \<and> frame_of (pde_at s' x y) = frame_of (pde_at s' x' y')"
    with shapeD(4)[OF sh, of x y x' y'] show "x = x'" "y = y'" by (auto simp: pde split: if_splits)
  qed
  show "pte_refs s' D = pte_refs s D"
  proof (intro ext set_eqI)
    fix q and r :: "nat \<times> nat \<times> nat"
    obtain x y z where r: "r = (x, y, z)" by (cases r)
    show "r \<in> pte_refs s' D q \<longleftrightarrow> r \<in> pte_refs s D q"
      using pte[of x y z] pde[of x y] at(3)[of z] by (auto simp: r pte_refs_def split: if_splits)
  qed
qed

lemma add_directory:
  assumes sh: "shape s D" and p: "p < npages s" "p \<notin> D" "pde_refs s D p = {}" "pte_refs s D p = {}"
    and ph: "phys s' = (phys s)(p := page)" and empty: "\<And>d. d < UPDX \<Longrightarrow> page d = 0" and np: "npages s' = npages s"
  shows "shape s' (insert p D)" and "pde_refs s' (insert p D) = pde_refs s D"
    and "pte_refs s' (insert p D) = pte_refs s D"
proof -
  have pde: "x \<in> D \<Longrightarrow> pde_at s' x y = pde_at s x y" "y < UPDX \<Longrightarrow> pde_at s' p y = 0" for x y
    using p(2) empty by (auto simp: pde_at_def ph)
  have ne: "frame_of (pde_at s x y) \<noteq> p" if "x \<in> D" "y < UPDX" "pde_at s x y \<noteq> 0" for x y
    using p(3) that by (auto simp: pde_refs_def)
  have pte: "pte_at s' x y z = pte_at s x y z" if "x \<in> D" "y < UPDX" "pde_at s x y \<noteq> 0" for x y z
    using ne[OF that] that(1) by (simp add: pte_at_def pde) (simp add: ph)
  show pr: "pde_refs s' (insert p D) = pde_refs s D"
  proof (intro ext set_eqI)
    fix q and r :: "nat \<times> nat"
    obtain x y where r: "r = (x, y)" by (cases r)
    show "r \<in> pde_refs s' (insert p D) q \<longleftrightarrow> r \<in> pde_refs s D q"
      using pde(1)[of x y] pde(2)[of y] p(2) by (cases "x = p") (auto simp: r pde_refs_def)
  qed
  show pt: "pte_refs s' (insert p D) = pte_refs s D"
  proof (intro ext set_eqI)
    fix q and r :: "nat \<times> nat \<times> nat"
    obtain x y z where r: "r = (x, y, z)" by (cases r)
    show "r \<in> pte_refs s' (insert p D) q \<longleftrightarrow> r \<in> pte_refs s D q"
      using pde(1)[of x y] pde(2)[of y] pte[of x y z] p(2) by (cases "x = p") (auto simp: r pte_refs_def)
  qed
  have ok: "pde_ok s' = pde_ok s" by (simp add: pde_ok_def np fun_eq_iff)
  have inD: "x \<in> D" if "x \<in> insert p D" "y < UPDX" "pde_at s' x y \<noteq> 0" for x y
    using that pde(2) by auto
  show "shape s' (insert p D)"
    unfolding shape_def ok np
  proof (intro conjI ballI allI impI)
    show "finite (insert p D)" "insert p D \<subseteq> {..<npages s}" using sh p(1) by (simp_all add: shape_def)
  next
    fix x y z assume h: "x \<in> insert p D" "y < UPDX" "z < 1024" "pde_at s' x y \<noteq> 0 \<and> pte_at s' x y z \<noteq> 0"
    then have x: "x \<in> D" using inD by blast
    with h have nz: "pde_at s x y \<noteq> 0" "pte_at s x y z \<noteq> 0" using pte[OF x h(2)] by (simp_all add: pde)
    then have "(x, y, z) \<in> pte_refs s D (frame_of (pte_at s x y z))" using h x by (simp add: pte_refs_def)
    then have "frame_of (pte_at s x y z) \<noteq> p" using p(4) by auto
    then show "pte_at s' x y z AND PTE_P \<noteq> 0" "data_frame s' (insert p D) (frame_of (pte_at s' x y z))"
      using shapeD(5)[OF sh x h(2) nz(1) h(3) nz(2)] pte[OF x h(2) nz(1)] by (simp_all add: data_frame_def pr np)
  next
    fix x y assume h: "x \<in> insert p D" "y < UPDX" "pde_at s' x y \<noteq> 0"
    note x = inD[OF h]
    then show "pde_ok s (pde_at s' x y)" "frame_of (pde_at s' x y) \<notin> insert p D"
      using h shapeD(1,2)[OF sh x h(2)] ne[OF x h(2)] by (auto simp: pde)
  next
    fix x y x' y' assume h: "x \<in> insert p D" "y < UPDX" "x' \<in> insert p D" "y' < UPDX"
      "pde_at s' x y \<noteq> 0 \<and> pde_at s' x' y' \<noteq> 0 \<and> frame_of (pde_at s' x y) = frame_of (pde_at s' x' y')"
    then have "x \<in> D" "x' \<in> D" using inD by blast+
    with h shapeD(4)[OF sh, of x y x' y'] show "x = x'" "y = y'" by (simp_all add: pde)
  qed
qed

lemma drop_directory:
  assumes sh: "shape s D" and at: "\<And>d. d < UPDX \<Longrightarrow> pde_at s dir d = 0"
  shows "shape s (D - {dir})" and "pde_refs s (D - {dir}) = pde_refs s D" and "pte_refs s (D - {dir}) = pte_refs s D"
proof -
  have i: "x \<noteq> dir" if "y < UPDX" "pde_at s x y \<noteq> 0" for x y using that at by auto
  show pr: "pde_refs s (D - {dir}) = pde_refs s D" using i by (auto simp: pde_refs_def fun_eq_iff)
  show "pte_refs s (D - {dir}) = pte_refs s D" using i by (auto simp: pte_refs_def fun_eq_iff)
  have df: "data_frame s D f \<Longrightarrow> data_frame s (D - {dir}) f" for f by (simp add: data_frame_def pr)
  show "shape s (D - {dir})"
    unfolding shape_def
  proof (intro conjI ballI allI impI)
    show "finite (D - {dir})" "D - {dir} \<subseteq> {..<npages s}" using sh by (auto simp: shape_def)
  qed (use shapeD[OF sh] df in \<open>blast+\<close>)
qed

section \<open>Other address spaces\<close>

text \<open>An address space with the same tables and entries translates every address as before.\<close>

definition same_space :: "kmem \<Rightarrow> kmem \<Rightarrow> nat \<Rightarrow> bool" where
  "same_space s s' dir \<longleftrightarrow> (\<forall>d<UPDX. pde_at s' dir d = pde_at s dir d
     \<and> (pde_at s dir d \<noteq> 0 \<longrightarrow> (\<forall>t<1024. pte_at s' dir d t = pte_at s dir d t)))"

lemma same_space_phys: "phys s' = phys s \<Longrightarrow> same_space s s' dir"
  by (simp add: same_space_def pde_at_def pte_at_def)

lemma same_space_trans: "same_space s s' dir \<Longrightarrow> same_space s' s'' dir \<Longrightarrow> same_space s s'' dir"
  by (simp add: same_space_def)

lemma same_space_reads:
  assumes same: "same_space s s' dir" and sh: "shape s D" and dir: "dir \<in> D" and np: "npages s' = npages s" and va: "va < UTOP"
  shows "check_va2pa s' dir va = check_va2pa s dir va"
proof (cases "pde_at s dir (unat (PDX va)) = 0")
  case True
  moreover have "pde_at s' dir (unat (PDX va)) = 0" using True same user_pdx[OF va] by (simp add: same_space_def)
  ultimately show ?thesis by (simp add: check_va2pa_none)
next
  case False
  note u = user_pdx[OF va]
  have e: "pde_at s' dir (unat (PDX va)) = pde_at s dir (unat (PDX va))"
    "pte_at s' dir (unat (PDX va)) (unat (PTX va)) = pte_at s dir (unat (PDX va)) (unat (PTX va))"
    using same u False PTX_less by (simp_all add: same_space_def)
  have ok: "pde_ok s (pde_at s dir (unat (PDX va)))" by (rule shapeD(1)[OF sh dir u False])
  then have "pde_ok s' (pde_at s' dir (unat (PDX va)))" by (simp add: pde_ok_def np e(1))
  with ok e(2) show ?thesis by (simp add: check_va2pa_table)
qed

lemma same_space_refs:
  assumes "\<forall>dir\<in>D. same_space s s' dir"
  shows "refs s' D = refs s D"
proof -
  have pde: "pde_at s' dir d = pde_at s dir d" if "dir \<in> D" "d < UPDX" for dir d
    using assms that unfolding same_space_def by blast
  have pte: "pte_at s' dir d t = pte_at s dir d t" if "dir \<in> D" "d < UPDX" "pde_at s dir d \<noteq> 0" "t < 1024" for dir d t
    using assms that unfolding same_space_def by blast
  have "pde_refs s' D p = pde_refs s D p" for p by (auto simp: pde_refs_def pde)
  moreover have "pte_refs s' D p = pte_refs s D p" for p
  proof (intro set_eqI)
    fix r :: "nat \<times> nat \<times> nat"
    obtain x y z where r: "r = (x, y, z)" by (cases r)
    show "r \<in> pte_refs s' D p \<longleftrightarrow> r \<in> pte_refs s D p"
      using pde[of x y] pte[of x y z] by (auto simp: r pte_refs_def)
  qed
  ultimately show ?thesis by (simp add: refs_def fun_eq_iff)
qed

lemma same_space_entry:
  assumes sh: "shape s D" and at: "dir \<in> D" "d < UPDX" "pde_at s dir d \<noteq> 0"
    and ph: "phys s' = set_cell (phys s) (frame_of (pde_at s dir d)) t v" and other: "dir' \<in> D" "dir' \<noteq> dir"
  shows "same_space s s' dir'"
proof -
  have pde: "pde_at s' dir' d' = pde_at s dir' d'" for d'
    using shapeD(2)[OF sh at] other(1) by (auto simp: pde_at_def ph set_cell_app)
  have "pte_at s' dir' d' t' = pte_at s dir' d' t'" if "d' < UPDX" "pde_at s dir' d' \<noteq> 0" for d' t'
    using shapeD(4)[OF sh at other(1) that] other(2) by (auto simp: pte_at_def pde ph set_cell_app)
  then show ?thesis by (simp add: same_space_def pde)
qed

lemma same_space_new_table:
  assumes sh: "shape s D" and p: "p \<notin> D" "pde_refs s D p = {}" and dir: "dir \<in> D"
    and ph: "phys s' = set_cell ((phys s)(p := \<lambda>_. 0)) dir d e" and other: "dir' \<in> D" "dir' \<noteq> dir"
  shows "same_space s s' dir'"
proof -
  have pde: "pde_at s' dir' d' = pde_at s dir' d'" for d'
    using p(1) other by (auto simp: pde_at_def ph set_cell_app)
  have "pte_at s' dir' d' t' = pte_at s dir' d' t'" if "d' < UPDX" "pde_at s dir' d' \<noteq> 0" for d' t'
  proof -
    have "(dir', d') \<in> pde_refs s D (frame_of (pde_at s dir' d'))" using that other by (simp add: pde_refs_def)
    then have "frame_of (pde_at s dir' d') \<noteq> p" using p(2) by auto
    then show ?thesis using shapeD(2)[OF sh other(1) that] dir by (auto simp: pte_at_def pde ph set_cell_app)
  qed
  then show ?thesis by (simp add: same_space_def pde)
qed

section \<open>The account\<close>

text \<open>
  \<open>x\<close> counts the references from outside the tables (the directory of an environment, a page in the
  hands of the kernel), \<open>L\<close> are the pages that may have no reference without being on the free list:
  the reserved ones and those just allocated. \<open>K\<close> gives the contents of frames that the kernel keeps for
  itself, such as its own page directory: they are never free, referred to or written.
\<close>

definition kept :: "kmem \<Rightarrow> (nat \<rightharpoonup> nat \<Rightarrow> u32) \<Rightarrow> nat list \<Rightarrow> bool" where
  "kept s K ps \<longleftrightarrow> (\<forall>p c. K p = Some c \<longrightarrow> p < npages s \<and> pp_ref s p = 0 \<and> p \<notin> set ps \<and> phys s p = c)"

definition counted :: "kmem \<Rightarrow> nat set \<Rightarrow> (nat \<Rightarrow> nat) \<Rightarrow> (nat \<rightharpoonup> nat \<Rightarrow> u32) \<Rightarrow> nat set \<Rightarrow> nat list \<Rightarrow> bool" where
  "counted s D x K L ps \<longleftrightarrow> shape s D \<and> page_repr s ps \<and> (\<forall>dir\<in>D. 0 < x dir)
     \<and> (\<forall>p<npages s. unat (pp_ref s p) = refs s D p + x p)
     \<and> (\<forall>p<npages s. p \<notin> set ps \<longrightarrow> pp_link s p = None)
     \<and> (\<forall>p<npages s. pp_ref s p = 0 \<longrightarrow> p \<in> set ps \<union> L) \<and> kept s K ps"

lemma countedD:
  assumes "counted s D x K L ps"
  shows "shape s D" and "page_repr s ps" and "dir \<in> D \<Longrightarrow> 0 < x dir"
    and "p < npages s \<Longrightarrow> unat (pp_ref s p) = refs s D p + x p"
    and "p < npages s \<Longrightarrow> p \<notin> set ps \<Longrightarrow> pp_link s p = None"
    and "p < npages s \<Longrightarrow> pp_ref s p = 0 \<Longrightarrow> p \<in> set ps \<union> L"
    and "npages s \<le> 2 ^ 20" and "finite D" and "kept s K ps"
  using assms by (auto simp: counted_def page_repr_def shape_def)

text \<open>A page whose count is zero, such as a free one or a frame of the kernel, has no reference at all.\<close>

lemma unreferenced:
  assumes "counted s D x K L ps" and p: "p < npages s" "pp_ref s p = 0"
  shows "pde_refs s D p = {}" and "pte_refs s D p = {}" and "x p = 0" and "p \<notin> D"
    and "data_frame s D p"
proof -
  have "refs s D p + x p = 0" using countedD(4)[OF assms(1) p(1)] p(2) by simp
  then show r: "pde_refs s D p = {}" "pte_refs s D p = {}" "x p = 0"
    using finite_refs[OF countedD(8)[OF assms(1)]] by (auto simp: refs_def)
  show D: "p \<notin> D" using countedD(3)[OF assms(1), of p] r(3) by auto
  show "data_frame s D p" using p(1) r(1) D by (simp add: data_frame_def)
qed

lemma free_unreferenced:
  assumes "counted s D x K L ps" and "p \<in> set ps"
  shows "pde_refs s D p = {}" and "pte_refs s D p = {}" and "x p = 0" and "p \<notin> D" and "p < npages s"
    and "data_frame s D p"
proof -
  have p: "p < npages s" "pp_ref s p = 0" using countedD(2)[OF assms(1)] assms(2) by (auto simp: page_repr_def)
  then show "p < npages s" "pde_refs s D p = {}" "pte_refs s D p = {}" "x p = 0" "p \<notin> D" "data_frame s D p"
    using unreferenced[OF assms(1)] by simp_all
qed

text \<open>What is referred to or free is not one of the kernel's own frames.\<close>

lemma not_kept:
  assumes c: "counted s D x K L ps"
    and "p \<in> set ps \<or> p \<in> D \<or> 0 < x p \<or> pde_refs s D p \<noteq> {} \<or> pte_refs s D p \<noteq> {}"
  shows "K p = None"
proof (rule ccontr)
  assume "K p \<noteq> None"
  then have "p < npages s" "pp_ref s p = 0" "p \<notin> set ps" using countedD(9)[OF c] by (auto simp: kept_def)
  with unreferenced[OF c this(1,2)] assms(2) show False by auto
qed

lemma table_not_kept:
  assumes "counted s D x K L ps" and "dir \<in> D" and "d < UPDX" and "pde_at s dir d \<noteq> 0"
  shows "K (frame_of (pde_at s dir d)) = None"
  using not_kept[OF assms(1)] table_pde_refs[OF countedD(1)[OF assms(1)] assms(2-4)] by simp

lemma keptI:
  assumes "kept s K ps" and "npages s' = npages s"
    and "\<And>p. K p \<noteq> None \<Longrightarrow> pp_ref s' p = pp_ref s p \<and> phys s' p = phys s p \<and> p \<notin> set ps'"
  shows "kept s' K ps'"
  using assms unfolding kept_def by (metis option.distinct(1))

lemma kept_free: "kept s K ps \<Longrightarrow> K p \<noteq> None \<Longrightarrow> p \<notin> set ps"
  by (auto simp: kept_def)

text \<open>Hence a counted state gives every directory the well-formed address space of \<open>pt_ok\<close>.\<close>

lemma counted_pt_ok:
  assumes c: "counted s D x K L ps" and dir: "dir \<in> D"
  shows "pt_ok s dir ps"
proof -
  note sh = countedD(1)[OF c]
  have lt: "dir < npages s" using sh dir by (auto simp: shape_def)
  have nf: "\<not> table_frame s dir f" if "f \<in> set ps" for f
    using free_unreferenced(1,4)[OF c that] dir by (auto simp: table_frame_def pde_refs_def)
  have m: "frame_of (pte_at s dir d t) < npages s \<and> pte_at s dir d t AND PTE_P \<noteq> 0
      \<and> pp_link s (frame_of (pte_at s dir d t)) = None"
    if h: "d < UPDX" "t < 1024" "pde_at s dir d \<noteq> 0" "pte_at s dir d t \<noteq> 0" for d t
  proof -
    have "(dir, d, t) \<in> pte_refs s D (frame_of (pte_at s dir d t))" using h dir by (simp add: pte_refs_def)
    then have "frame_of (pte_at s dir d t) \<notin> set ps" using free_unreferenced(2)[OF c] by blast
    then show ?thesis using shapeD(5)[OF sh dir h(1,3,2,4)] countedD(5)[OF c] by (simp add: data_frame_def)
  qed
  have t: "pde_ok s (pde_at s dir d) \<and> frame_of (pde_at s dir d) \<noteq> dir" if "d < UPDX" "pde_at s dir d \<noteq> 0" for d
    using shapeD(1,2)[OF sh dir that] dir by auto
  have i: "d = d'" if "d < UPDX" "d' < UPDX" "pde_at s dir d \<noteq> 0" "pde_at s dir d' \<noteq> 0"
    "frame_of (pde_at s dir d) = frame_of (pde_at s dir d')" for d d'
    using shapeD(4)[OF sh dir that(1,3) dir that(2,4,5)] by simp
  show ?thesis unfolding pt_ok_def using countedD(2)[OF c] lt nf m t i by blast
qed

section \<open>Single steps\<close>

lemma unat_succ: "unat (w :: u16) < 65535 \<Longrightarrow> unat (w + 1) = unat w + 1"
  by (simp add: unat_word_ariths)

lemma unat_pred: "w \<noteq> 0 \<Longrightarrow> unat (w - 1 :: u16) = unat w - 1"
proof -
  assume "w \<noteq> 0"
  then have "1 \<le> w" by (simp add: word_le_nat_alt unat_gt_0 Suc_le_eq)
  then show ?thesis by (simp add: unat_sub)
qed

lemma page_decref_write:
  "page_decref (write_pte s q v) p = chain (page_decref s p) (\<lambda>s1. Inr (write_pte s1 q v))"
  by (simp add: page_decref_def page_free_def write_pte_def Let_def)

lemma incref_counted:
  assumes c: "counted s D x K L ps" and p: "p < npages s" "p \<notin> set ps" "unat (pp_ref s p) < 65535" "K p = None"
  shows "counted (incref s p) D (x(p := x p + 1)) K (L - {p}) ps"
proof -
  have ph: "phys (incref s p) = phys s" "npages (incref s p) = npages s" by simp_all
  have r: "pp_ref (incref s p) q = (if q = p then pp_ref s p + 1 else pp_ref s q)" for q by (simp add: incref_def)
  have nz: "pp_ref s p + 1 \<noteq> 0"
    using unat_succ[OF p(3)] by (metis Suc_eq_plus1 nat.simps(3) unat_0)
  have "page_repr (incref s p) ps"
    using countedD(2)[OF c] p(2) by (auto simp: page_repr_def r) (simp add: incref_def)
  moreover have "kept (incref s p) K ps"
    by (rule keptI[OF countedD(9)[OF c]]) (use p(4) kept_free[OF countedD(9)[OF c]] in \<open>auto simp: r\<close>)
  ultimately show ?thesis
    using c p(1,2) unat_succ[OF p(3)] nz
    by (auto simp: counted_def shape_cong[OF ph] refs_cong(5)[OF ph(1)] r)
qed

lemma decref_counted:
  assumes c: "counted s D x K L ps" and p: "p < npages s" "0 < x p" "p \<in> D \<Longrightarrow> 1 < x p"
  shows "\<exists>s' ps'. page_decref s p = Inr s' \<and> counted s' D (x(p := x p - 1)) K L ps'
    \<and> phys s' = phys s \<and> npages s' = npages s \<and> set ps \<subseteq> set ps'
    \<and> (\<forall>q. unat (pp_ref s' q) \<le> unat (pp_ref s q))"
proof -
  have nf: "p \<notin> set ps" using free_unreferenced(3)[OF c] p(2) by auto
  have u: "unat (pp_ref s p) = refs s D p + x p" by (rule countedD(4)[OF c p(1)])
  then have nz: "pp_ref s p \<noteq> 0" using p(2) by auto
  have l: "pp_link s p = None" by (rule countedD(5)[OF c p(1) nf])
  note dec = unat_pred[OF nz]
  let ?s1 = "s\<lparr>pp_ref := (pp_ref s)(p := pp_ref s p - 1)\<rparr>"
  have ph: "phys ?s1 = phys s" "npages ?s1 = npages s" by simp_all
  have x: "\<forall>dir\<in>D. 0 < (x(p := x p - 1)) dir" using countedD(3)[OF c] p(3) by auto
  have cnt: "unat (pp_ref ?s1 q) = refs s D q + (x(p := x p - 1)) q" if "q < npages s" for q
    using countedD(4)[OF c that] u dec p(2) by simp
  have pr: "page_repr ?s1 ps" using countedD(2)[OF c] nf by (auto simp: page_repr_def)
  have K: "K p = None" using not_kept[OF c] p(2) by blast
  have k: "kept s' K ps'" if "npages s' = npages s" "phys s' = phys s" "pp_ref s' = pp_ref ?s1" "set ps' \<subseteq> insert p (set ps)"
    for s' ps' by (rule keptI[OF countedD(9)[OF c] that(1)]) (use that K kept_free[OF countedD(9)[OF c]] in auto)
  show ?thesis
  proof (cases "pp_ref s p - 1 = 0")
    case False
    then have eq: "page_decref s p = Inr ?s1" by (simp add: page_decref_def Let_def)
    have "counted ?s1 D (x(p := x p - 1)) K L ps"
      unfolding counted_def shape_cong[OF ph] refs_cong(5)[OF ph(1)]
      using countedD(1,5,6)[OF c] pr x cnt False k[of ?s1 ps] by auto
    moreover have "\<forall>q. unat (pp_ref ?s1 q) \<le> unat (pp_ref s q)" using dec by simp
    ultimately show ?thesis
      by (intro exI[of _ ?s1] exI[of _ ps] conjI) (rule eq, assumption, rule ph, rule ph, rule subset_refl, assumption)
  next
    case True
    let ?s2 = "?s1\<lparr>pp_link := (pp_link s)(p := page_free_list s), page_free_list := Some p\<rparr>"
    have eq: "page_decref s p = Inr ?s2" using True l by (simp add: page_decref_def page_free_def Let_def)
    have ph2: "phys ?s2 = phys s" "npages ?s2 = npages s" by simp_all
    have "page_repr ?s2 (p # ps)"
      using pr nf p(1) True by (auto simp: page_repr_def linked_upd)
    then have "counted ?s2 D (x(p := x p - 1)) K L (p # ps)"
      unfolding counted_def shape_cong[OF ph2] refs_cong(5)[OF ph2(1)]
      using countedD(1,5,6)[OF c] x cnt k[of ?s2 "p # ps"] by auto
    moreover have "\<forall>q. unat (pp_ref ?s2 q) \<le> unat (pp_ref s q)" using dec by simp
    ultimately show ?thesis
      by (intro exI[of _ ?s2] exI[of _ "p # ps"] conjI) (rule eq, assumption, rule ph2, rule ph2, rule set_subset_Cons, assumption)
  qed
qed

text \<open>Entering and clearing a table entry moves a reference between the table and the kernel's hands.\<close>

lemma write_pte_sel [simp]:
  "npages (write_pte s q v) = npages s" "pp_ref (write_pte s q v) = pp_ref s" "pp_link (write_pte s q v) = pp_link s"
  "phys (write_pte s q v) = set_cell (phys s) (fst q) (snd q) v" "page_repr (write_pte s q v) = page_repr s"
  by (simp_all add: write_pte_def page_repr_def fun_eq_iff)

lemma refs_entry:
  assumes "shape s D" and "dir \<in> D" "d < UPDX" "t < 1024" "pde_at s dir d \<noteq> 0" and v: "good_entry s D v"
  defines "old \<equiv> pte_at s dir d t"
  shows "shape (write_pte s (frame_of (pde_at s dir d), t) v) D"
    and "v \<noteq> 0 \<Longrightarrow> old = 0 \<Longrightarrow> refs (write_pte s (frame_of (pde_at s dir d), t) v) D p =
          refs s D p + (if p = frame_of v then 1 else 0)"
    and "v = 0 \<Longrightarrow> old \<noteq> 0 \<Longrightarrow> refs s D p =
          refs (write_pte s (frame_of (pde_at s dir d), t) v) D p + (if p = frame_of old then 1 else 0)"
proof -
  note w = write_entry[OF assms(1-5) _ _ v, of "write_pte s (frame_of (pde_at s dir d), t) v", simplified]
  show "shape (write_pte s (frame_of (pde_at s dir d), t) v) D" by (rule w(1))
  have fin: "finite (pte_refs s D p)" using finite_refs(2) assms(1) by (simp add: shape_def)
  have i: "(dir, d, t) \<in> pte_refs s D p \<longleftrightarrow> old \<noteq> 0 \<and> frame_of old = p"
    using assms(2-5) by (simp add: pte_refs_def old_def)
  show "refs (write_pte s (frame_of (pde_at s dir d), t) v) D p =
          refs s D p + (if p = frame_of v then 1 else 0)" if "v \<noteq> 0" "old = 0"
    using that i fin by (auto simp: refs_def w(2,3))
  show "refs s D p =
          refs (write_pte s (frame_of (pde_at s dir d), t) v) D p + (if p = frame_of old then 1 else 0)"
    if "v = 0" "old \<noteq> 0"
  proof (cases "p = frame_of old")
    case True
    then have m: "(dir, d, t) \<in> pte_refs s D p" using i that by simp
    from card_Suc_Diff1[OF fin m] show ?thesis using that True w(2) w(3)[of p] by (simp add: refs_def)
  next
    case False
    then have "pte_refs s D p - {(dir, d, t)} = pte_refs s D p" using i by auto
    then show ?thesis using that False w(2) w(3)[of p] by (simp add: refs_def)
  qed
qed

lemma write_kept:
  assumes "counted s D x K L ps" and "dir \<in> D" and "d < UPDX" and "pde_at s dir d \<noteq> 0"
  shows "kept (write_pte s (frame_of (pde_at s dir d), t) v) K ps"
  by (rule keptI[OF countedD(9)[OF assms(1)]])
    (use table_not_kept[OF assms] kept_free[OF countedD(9)[OF assms(1)]] in \<open>auto simp: set_cell_app fun_eq_iff\<close>)

lemma enter_counted:
  assumes c: "counted s D x K L ps" and at: "dir \<in> D" "d < UPDX" "t < 1024" "pde_at s dir d \<noteq> 0" "pte_at s dir d t = 0"
    and v: "good_entry s D v" "v \<noteq> 0" "0 < x (frame_of v)"
  shows "counted (write_pte s (frame_of (pde_at s dir d), t) v) D (x(frame_of v := x (frame_of v) - 1)) K L ps"
proof -
  note e = refs_entry[OF countedD(1)[OF c] at(1-4) v(1)]
  have "kept (write_pte s (frame_of (pde_at s dir d), t) v) K ps"
    by (rule write_kept[OF c at(1,2,4)])
  moreover have "frame_of v \<notin> D" using v(1,2) by (simp add: good_entry_def data_frame_def)
  ultimately show ?thesis using c v(3) by (auto simp: counted_def e(1) e(2)[OF v(2) at(5)])
qed

lemma clear_counted:
  assumes c: "counted s D x K L ps" and at: "dir \<in> D" "d < UPDX" "t < 1024" "pde_at s dir d \<noteq> 0" "pte_at s dir d t \<noteq> 0"
  defines "f \<equiv> frame_of (pte_at s dir d t)"
  shows "counted (write_pte s (frame_of (pde_at s dir d), t) 0) D (x(f := x f + 1)) K L ps"
proof -
  have v: "good_entry s D 0" by (simp add: good_entry_def)
  note e = refs_entry[OF countedD(1)[OF c] at(1-4) v]
  have "refs s D q = refs (write_pte s (frame_of (pde_at s dir d), t) 0) D q + (if q = f then 1 else 0)" for q
    unfolding f_def by (rule e(3)[OF refl at(5)])
  moreover have "kept (write_pte s (frame_of (pde_at s dir d), t) 0) K ps"
    by (rule write_kept[OF c at(1,2,4)])
  ultimately show ?thesis using c e(1) by (auto simp: counted_def)
qed

section \<open>The operations of \<^verbatim>\<open>pmap.c\<close>\<close>

lemma counted_cong:
  assumes "phys s' = phys s" "npages s' = npages s" "pp_ref s' = pp_ref s" "pp_link s' = pp_link s"
    "page_free_list s' = page_free_list s"
  shows "counted s' D x K L ps = counted s D x K L ps"
  by (simp add: counted_def page_repr_def kept_def shape_cong[OF assms(1,2)] refs_cong(5)[OF assms(1)] assms)

lemma counted_tlb [simp]: "counted (tlb_invalidate cur s dir va) D x K L ps = counted s D x K L ps"
  by (rule counted_cong) (simp_all add: tlb_invalidate_def)

lemma zero_free:
  assumes c: "counted s D x K L ps" and p: "p < npages s" "p \<notin> D" "pde_refs s D p = {}" "pte_refs s D p = {}"
    and K: "K p = None"
  shows "counted (zero_page s p) D x K L ps"
proof -
  let ?s = "zero_page s p"
  note a = add_directory[OF countedD(1)[OF c] p, of ?s "\<lambda>_. 0"]
  have ph: "phys ?s = (phys s)(p := \<lambda>_. 0)" "npages ?s = npages s" by (simp_all add: zero_page_def)
  have z: "pde_at ?s p d = 0" for d by (simp add: pde_at_def ph)
  have D: "insert p D - {p} = D" using p(2) by simp
  note a = a[OF ph(1) refl ph(2)]
  note d = drop_directory[OF a(1) z, unfolded D a(2,3)]
  have r: "refs ?s D = refs s D" by (simp add: refs_def fun_eq_iff d(2,3))
  have eq: "pp_ref ?s = pp_ref s" "pp_link ?s = pp_link s" "page_repr ?s ps = page_repr s ps"
    by (simp_all add: zero_page_def page_repr_def)
  have "kept ?s K ps"
    by (rule keptI[OF countedD(9)[OF c]]) (use K kept_free[OF countedD(9)[OF c]] in \<open>auto simp: ph eq\<close>)
  then show ?thesis using c by (simp add: counted_def d(1) r eq ph(2))
qed

lemma alloc_counted:
  assumes c: "counted s D x K L (p # ps)"
  shows "\<exists>s'. page_alloc s z = Inr (Some p, s') \<and> counted s' D x K (insert p L) ps \<and> npages s' = npages s
    \<and> pp_ref s' = pp_ref s \<and> p \<notin> set ps \<and> p < npages s \<and> pp_ref s p = 0 \<and> K p = None"
proof -
  let ?s1 = "s\<lparr>page_free_list := pp_link s p, pp_link := (pp_link s)(p := None)\<rparr>"
  note a = page_alloc_Cons[OF countedD(2)[OF c], of z] page_alloc_Cons(2)[OF countedD(2)[OF c], of False]
  have p: "p \<in> set (p # ps)" by simp
  note f = free_unreferenced[OF c p]
  have ph: "phys ?s1 = phys s" "npages ?s1 = npages s" by simp_all
  have K: "K p = None" using not_kept[OF c] by simp
  have "page_repr ?s1 ps" using a(3) by simp
  moreover have "kept ?s1 K ps"
    by (rule keptI[OF countedD(9)[OF c]]) (use K kept_free[OF countedD(9)[OF c]] in auto)
  ultimately have c1: "counted ?s1 D x K (insert p L) ps"
    using c by (auto simp: counted_def shape_cong[OF ph] refs_cong(5)[OF ph(1)])
  have "counted (zero_page ?s1 p) D x K (insert p L) ps"
    by (rule zero_free[OF c1]) (use f K refs_cong(3,4)[OF ph(1)] in simp_all)
  moreover have "p \<notin> set ps" "p < npages s" "pp_ref s p = 0" using countedD(2)[OF c] by (auto simp: page_repr_def)
  ultimately show ?thesis using a(1) c1 K by (cases z) (simp_all add: zero_page_def)
qed

text \<open>An allocated page is zero, and nothing else is written.\<close>

lemma alloc_zeroed:
  assumes c: "counted s D x K L (p # ps)"
  shows "\<exists>m. page_alloc s True = Inr (Some p, m) \<and> counted m D x K (insert p L) ps
    \<and> phys m = (phys s)(p := \<lambda>_. 0) \<and> npages m = npages s \<and> pp_ref m = pp_ref s"
proof -
  obtain m where m: "page_alloc s True = Inr (Some p, m)" "counted m D x K (insert p L) ps" "npages m = npages s"
    "pp_ref m = pp_ref s" using alloc_counted[OF c, of True] by blast
  have "phys m = (phys s)(p := \<lambda>_. 0)"
    using m(1) page_alloc_Cons(1)[OF countedD(2)[OF c], of True] by (auto simp: zero_page_def)
  with m show ?thesis by blast
qed

lemma free_counted:
  assumes c: "counted s D x K L ps" and p: "p < npages s" "p \<notin> set ps" "pp_ref s p = 0" "K p = None"
  shows "\<exists>s'. page_free s p = Inr s' \<and> counted s' D x K (L - {p}) (p # ps) \<and> npages s' = npages s"
proof -
  have l: "pp_link s p = None" by (rule countedD(5)[OF c p(1,2)])
  let ?s = "s\<lparr>pp_link := (pp_link s)(p := page_free_list s), page_free_list := Some p\<rparr>"
  have ph: "phys ?s = phys s" "npages ?s = npages s" by simp_all
  have "kept ?s K (p # ps)"
    by (rule keptI[OF countedD(9)[OF c]]) (use p(4) kept_free[OF countedD(9)[OF c]] in auto)
  moreover have "page_repr ?s (p # ps)" using countedD(2)[OF c] p by (auto simp: page_repr_def linked_upd)
  ultimately have "counted ?s D x K (L - {p}) (p # ps)"
    using c by (auto simp: counted_def shape_cong[OF ph] refs_cong(5)[OF ph(1)])
  then show ?thesis using p(3) l by (simp add: page_free_def)
qed

text \<open>A page of the free list becomes a page table.\<close>

lemma new_table_counted:
  assumes c: "counted s D x K L (p # ps)" and at: "dir \<in> D" "d < UPDX" "pde_at s dir d = 0"
  shows "counted (new_table s dir d p) D x K L ps"
proof -
  let ?s = "new_table s dir d p"
  have m: "p \<in> set (p # ps)" by simp
  note f = free_unreferenced[OF c m]
  have lt: "p < 2 ^ 20" using f(5) countedD(7)[OF c] by simp
  note t = add_table[OF countedD(1)[OF c] at f(5) lt f(4,1,2) new_table_sel(2,1)]
  have r: "refs ?s D q = refs s D q + (if q = p then 1 else 0)" for q
    using f(1) by (simp add: refs_def t(2,3))
  have pr: "page_repr s (p # ps)" by (rule countedD(2)[OF c])
  have p0: "pp_ref s p = 0" "p \<notin> set ps" "\<And>q. q \<in> set ps \<Longrightarrow> pp_ref s q = 0" using pr by (auto simp: page_repr_def)
  have ref: "pp_ref ?s q = (if q = p then 1 else pp_ref s q)" for q
    using p0(1) by (simp add: new_table_def write_pte_def incref_def zero_page_def)
  have "K p = None" "K dir = None" using not_kept[OF c] at(1) by simp_all
  then have "kept ?s K ps"
    by (intro keptI[OF countedD(9)[OF c]])
      (use kept_free[OF countedD(9)[OF c]] in \<open>auto simp: new_table_sel ref set_cell_app fun_eq_iff\<close>)
  moreover have "page_repr ?s ps"
    using pr by (auto simp: page_repr_def ref new_table_sel linked_upd)
  ultimately show ?thesis
    using c p0 by (auto simp: counted_def t(1) r ref new_table_sel)
qed

lemma page_remove_eq:
  assumes pde: "pde_at s dir (unat (PDX va)) \<noteq> 0" "frame_of (pde_at s dir (unat (PDX va))) < npages s"
    and pte: "pte_at s dir (unat (PDX va)) (unat (PTX va)) \<noteq> 0"
      "frame_of (pte_at s dir (unat (PDX va)) (unat (PTX va))) < npages s"
  shows "page_remove cur s dir va =
    chain (page_decref (write_pte s (frame_of (pde_at s dir (unat (PDX va))), unat (PTX va)) 0)
             (frame_of (pte_at s dir (unat (PDX va)) (unat (PTX va)))))
      (\<lambda>s1. Inr (tlb_invalidate cur s1 dir va))"
proof -
  have P: "PTE_P \<noteq> 0" by (simp add: pte_bits)
  have l: "page_lookup s dir va = Inr (Some (frame_of (pte_at s dir (unat (PDX va)) (unat (PTX va))),
      (frame_of (pde_at s dir (unat (PDX va))), unat (PTX va))))"
    using pte P by (simp add: page_lookup_def walk_mapped[OF pde] read_pte_def pte_at_def pa2page_def frame_of_def)
  show ?thesis
    using pte(1) P by (simp add: page_remove_def l walk_mapped[OF pde] read_pte_def pte_at_def page_decref_write chain_assoc Let_def)
qed

lemma remove_counted:
  assumes c: "counted s D x K L ps" and dir: "dir \<in> D" and va: "va < UTOP"
  shows "\<exists>s' ps'. page_remove cur s dir va = Inr s' \<and> counted s' D x K L ps' \<and> set ps \<subseteq> set ps'
    \<and> npages s' = npages s \<and> (pde_at s dir (unat (PDX va)) \<noteq> 0 \<longrightarrow>
      phys s' = set_cell (phys s) (frame_of (pde_at s dir (unat (PDX va)))) (unat (PTX va)) 0)
    \<and> (\<forall>dir'\<in>D - {dir}. same_space s s' dir') \<and> (\<forall>q. unat (pp_ref s' q) \<le> unat (pp_ref s q))"
proof (cases "pde_at s dir (unat (PDX va)) = 0")
  case True
  then have "page_remove cur s dir va = Inr s"
    by (simp add: page_remove_def page_lookup_def walk_unmapped)
  with c True same_space_phys[of s s] show ?thesis by blast
next
  case pde: False
  let ?d = "unat (PDX va)" and ?t = "unat (PTX va)"
  note u = user_pdx[OF va]
  note sh = countedD(1)[OF c]
  note h = shapeD[OF sh dir u pde]
  show ?thesis
  proof (cases "pte_at s dir ?d ?t = 0")
    case True
    then have "page_remove cur s dir va = Inr s"
      by (simp add: page_remove_def page_lookup_def walk_mapped[OF pde h(3)] read_pte_def pte_at_def)
    moreover have "phys s = set_cell (phys s) (frame_of (pde_at s dir ?d)) ?t 0"
      using True set_cell_id[of "phys s" "frame_of (pde_at s dir ?d)" ?t] by (simp add: pte_at_def)
    ultimately show ?thesis using c same_space_phys[of s s] by auto
  next
    case pte: False
    let ?f = "frame_of (pte_at s dir ?d ?t)" and ?s1 = "write_pte s (frame_of (pde_at s dir ?d), ?t) 0"
    have f: "?f < npages s" "?f \<notin> D" using h(5)[OF PTX_less pte] by (simp_all add: data_frame_def)
    have c1: "counted ?s1 D (x(?f := x ?f + 1)) K L ps" by (rule clear_counted[OF c dir u PTX_less pde pte])
    obtain s2 ps' where s2: "page_decref ?s1 ?f = Inr s2" "counted s2 D (x(?f := x ?f + 1, ?f := x ?f)) K L ps'"
      "phys s2 = phys ?s1" "npages s2 = npages s" "set ps \<subseteq> set ps'" "\<forall>q. unat (pp_ref s2 q) \<le> unat (pp_ref s q)"
      using decref_counted[OF c1, of ?f] f by auto
    have "page_remove cur s dir va = Inr (tlb_invalidate cur s2 dir va)"
      by (simp add: page_remove_eq[OF pde h(3) pte f(1)] s2(1))
    moreover have "counted (tlb_invalidate cur s2 dir va) D x K L ps'" using s2(2) by simp
    moreover have np: "npages (tlb_invalidate cur s2 dir va) = npages s"
      and ph: "phys (tlb_invalidate cur s2 dir va) = set_cell (phys s) (frame_of (pde_at s dir ?d)) ?t 0"
      and "\<forall>q. unat (pp_ref (tlb_invalidate cur s2 dir va) q) \<le> unat (pp_ref s q)"
      using s2(3,4,6) by (simp_all add: tlb_invalidate_def)
    moreover have "\<forall>dir'\<in>D - {dir}. same_space s (tlb_invalidate cur s2 dir va) dir'"
      using same_space_entry[OF sh dir u pde ph] by blast
    ultimately show ?thesis using s2(5) by blast
  qed
qed

lemma insert_entry_counted:
  assumes c: "counted s D x K L ps" and dir: "dir \<in> D" and va: "va < UTOP" and pde: "pde_at s dir (unat (PDX va)) \<noteq> 0"
    and pp: "data_frame s D pp" "pp \<notin> set ps" "unat (pp_ref s pp) < 65535" "K pp = None" and perm: "flags_ok perm"
  shows "\<exists>s2 s' ps'. page_remove cur (incref s pp) dir va = Inr s2 \<and> npages s' = npages s
    \<and> s' = write_pte s2 (frame_of (pde_at s dir (unat (PDX va))), unat (PTX va)) (page2pa pp OR perm OR PTE_P)
    \<and> counted s' D x K (L - {pp}) ps' \<and> (\<forall>dir'\<in>D - {dir}. same_space s s' dir')
    \<and> (\<forall>q. unat (pp_ref s' q) \<le> unat (pp_ref s q) + (if q = pp then 1 else 0))
    \<and> phys s' = set_cell (phys s) (frame_of (pde_at s dir (unat (PDX va)))) (unat (PTX va)) (page2pa pp OR perm OR PTE_P)
    \<and> set ps \<subseteq> set ps'"
proof -
  let ?d = "unat (PDX va)" and ?t = "unat (PTX va)" and ?i = "incref s pp" and ?v = "page2pa pp OR perm OR PTE_P"
  note u = user_pdx[OF va]
  have lt: "pp < npages s" "pp < 2 ^ 20" using pp(1) countedD(7)[OF c] by (auto simp: data_frame_def)
  have ph: "phys ?i = phys s" "npages ?i = npages s" by simp_all
  have sh: "shape ?i D" using shape_cong[OF ph] countedD(1)[OF c] by simp
  have pde': "pde_at ?i dir ?d \<noteq> 0" using pde by simp
  obtain s2 ps' where s2: "page_remove cur ?i dir va = Inr s2" "counted s2 D (x(pp := x pp + 1)) K (L - {pp}) ps'"
    "set ps \<subseteq> set ps'" "npages s2 = npages s"
    "phys s2 = set_cell (phys s) (frame_of (pde_at s dir ?d)) ?t 0" "\<forall>q. unat (pp_ref s2 q) \<le> unat (pp_ref ?i q)"
    using remove_counted[OF incref_counted[OF c lt(1) pp(2-4)] dir va, of cur] pde by auto
  let ?s' = "write_pte s2 (frame_of (pde_at s dir ?d), ?t) ?v"
  have phs: "phys ?s' = set_cell (phys s) (frame_of (pde_at s dir ?d)) ?t ?v"
    by (simp add: s2(5)) (simp add: set_cell_def fun_eq_iff)
  then have same: "\<forall>dir'\<in>D - {dir}. same_space s ?s' dir'"
    using same_space_entry[OF countedD(1)[OF c] dir u pde] by blast
  have bound: "unat (pp_ref ?s' q) \<le> unat (pp_ref s q) + (if q = pp then 1 else 0)" for q
    using s2(6)[rule_format, of q] unat_succ[OF pp(3)] by (auto simp: incref_def)
  have z: "good_entry ?i D 0" by (simp add: good_entry_def)
  have ph2: "phys s2 = set_cell (phys ?i) (frame_of (pde_at ?i dir ?d)) ?t 0" "npages s2 = npages ?i"
    using s2(4,5) by simp_all
  note w = write_entry[OF sh dir u PTX_less pde' ph2 z]
  have at2: "pde_at s2 dir ?d = pde_at s dir ?d"
    using shapeD(2)[OF countedD(1)[OF c] dir u pde] dir by (auto simp: pde_at_def s2(5) set_cell_app)
  then have pte2: "pte_at s2 dir ?d ?t = 0" by (simp add: pte_at_def s2(5))
  have fl: "flags_ok (perm OR PTE_P)" "(perm OR PTE_P) AND PTE_P \<noteq> 0"
    using perm by (simp_all add: flags_ok_or P_odd even_or_iff) (simp add: PTE_P_def)
  have f: "frame_of ?v = pp" "?v AND PTE_P \<noteq> 0" "?v \<noteq> 0"
    using frame_of_entry[OF lt(2) fl(1)] page2pa_P[OF fl(2)] page2pa_or_nz[OF fl(2)] by simp_all
  have v: "good_entry s2 D ?v" "0 < (x(pp := x pp + 1)) (frame_of ?v)"
    using pp(1) w(2) s2(4) refs_cong(3)[OF ph(1)] by (simp_all add: good_entry_def data_frame_def f)
  have X: "(x(pp := x pp + 1))(pp := (x(pp := x pp + 1)) pp - 1) = x" by (simp add: fun_eq_iff)
  have pde2: "pde_at s2 dir ?d \<noteq> 0" using pde at2 by simp
  have "counted (write_pte s2 (frame_of (pde_at s2 dir ?d), ?t) ?v) D x K (L - {pp}) ps'"
    using enter_counted[OF s2(2) dir u PTX_less pde2 pte2 v(1) f(3) v(2)] unfolding f(1) X .
  then have "counted ?s' D x K (L - {pp}) ps'" by (simp only: at2)
  moreover have "npages ?s' = npages s" using s2(4) by simp
  ultimately show ?thesis using s2(1,3) same bound phs
    by (intro exI[of _ s2] exI[of _ ?s'] exI[of _ ps'] conjI allI) (rule refl bound | assumption)+
qed

lemma insert_counted:
  assumes c: "counted s D x K L ps" and dir: "dir \<in> D" and va: "va < UTOP"
    and pp: "data_frame s D pp" "pp \<notin> set ps" "unat (pp_ref s pp) < 65535" "K pp = None" and perm: "flags_ok perm"
  shows "(\<exists>s' ps'. page_insert cur s dir pp va perm = Inr (s', 0) \<and> counted s' D x K (L - {pp}) ps'
      \<and> npages s' = npages s \<and> (\<forall>dir'\<in>D - {dir}. same_space s s' dir')
      \<and> (\<forall>q. unat (pp_ref s' q) \<le> max 1 (unat (pp_ref s q) + (if q = pp then 1 else 0))))
    \<or> page_insert cur s dir pp va perm = Inr (s, - E_NO_MEM) \<and> ps = []"
proof (cases "pde_at s dir (unat (PDX va)) = 0")
  case False
  note h = shapeD[OF countedD(1)[OF c] dir user_pdx[OF va] False]
  from insert_entry_counted[OF c dir va False pp perm, of cur] obtain s2 s' ps' where
    1: "page_remove cur (incref s pp) dir va = Inr s2" "npages s' = npages s"
      "s' = write_pte s2 (frame_of (pde_at s dir (unat (PDX va))), unat (PTX va)) (page2pa pp OR perm OR PTE_P)"
      "counted s' D x K (L - {pp}) ps'" "\<forall>dir'\<in>D - {dir}. same_space s s' dir'"
    and b: "\<forall>q. unat (pp_ref s' q) \<le> unat (pp_ref s q) + (if q = pp then 1 else 0)" by blast
  have "page_insert cur s dir pp va perm = Inr (s', 0)"
    using 1(1,3) by (simp add: page_insert_def walk_mapped[OF False h(3)])
  moreover have "\<forall>q. unat (pp_ref s' q) \<le> max 1 (unat (pp_ref s q) + (if q = pp then 1 else 0))"
    using b by (meson max.coboundedI2)
  ultimately show ?thesis using 1(2,4,5) by blast
next
  case True
  note ok = counted_pt_ok[OF c dir]
  show ?thesis
  proof (cases ps)
    case Nil
    with walk_create_full[OF True] countedD(2)[OF c] show ?thesis by (simp add: page_insert_def)
  next
    case (Cons p qs)
    let ?d = "unat (PDX va)" let ?s1 = "new_table s dir ?d p"
    note u = user_pdx[OF va]
    have c1: "counted ?s1 D x K L qs" using new_table_counted[OF c[unfolded Cons] dir u True] .
    have f: "p \<noteq> dir" "p < 2 ^ 20" using free_unreferenced(4,5)[OF c, of p] dir Cons countedD(7)[OF c] by auto
    have at: "pde_at ?s1 dir ?d = page2pa p OR PTE_P OR PTE_W OR PTE_U"
      by (simp add: pde_at_def new_table_sel)
    then have pde: "pde_at ?s1 dir ?d \<noteq> 0" "frame_of (pde_at ?s1 dir ?d) = p" using new_pde[OF f(2)] by simp_all
    have m: "p \<in> set ps" using Cons by simp
    note fr = free_unreferenced[OF c m]
    have "pde_refs ?s1 D q = (if q = p then {(dir, ?d)} else pde_refs s D q)" for q
      using add_table(2)[OF countedD(1)[OF c] dir u True fr(5) f(2) fr(4,1,2) new_table_sel(2,1)] .
    then have pp1: "data_frame ?s1 D pp" "pp \<notin> set qs" "unat (pp_ref ?s1 pp) < 65535"
      using pp Cons by (auto simp: data_frame_def new_table_sel) (auto simp: new_table_def write_pte_def incref_def zero_page_def)
    from insert_entry_counted[OF c1 dir va pde(1) pp1 pp(4) perm, of cur] obtain s2 s' ps' where
      1: "page_remove cur (incref ?s1 pp) dir va = Inr s2" "npages s' = npages ?s1"
        "s' = write_pte s2 (p, unat (PTX va)) (page2pa pp OR perm OR PTE_P)"
        "counted s' D x K (L - {pp}) ps'" "\<forall>dir'\<in>D - {dir}. same_space ?s1 s' dir'"
      and b: "\<forall>q. unat (pp_ref s' q) \<le> unat (pp_ref ?s1 q) + (if q = pp then 1 else 0)" unfolding pde(2) by blast
    have "page_insert cur s dir pp va perm = Inr (s', 0)"
      using 1(1,3) walk_create[OF True countedD(2)[OF c, unfolded Cons] f(1)] by (simp add: page_insert_def)
    moreover have "unat (pp_ref s' q) \<le> max 1 (unat (pp_ref s q) + (if q = pp then 1 else 0))" for q
    proof -
      have p0: "pp_ref s p = 0" using countedD(2)[OF c] m by (auto simp: page_repr_def)
      have "pp_ref ?s1 q = (if q = p then 1 else pp_ref s q)"
        using p0 by (simp add: new_table_def write_pte_def incref_def zero_page_def)
      then show ?thesis using b[rule_format, of q] pp(2) m by (auto split: if_splits)
    qed
    moreover have "\<forall>dir'\<in>D - {dir}. same_space s s' dir'"
      using same_space_new_table[OF countedD(1)[OF c] fr(4,1) dir new_table_sel(2)] 1(5) same_space_trans by blast
    ultimately show ?thesis using 1(2,4) by (auto simp: new_table_sel)
  qed
qed

section \<open>Making and freeing an address space\<close>

lemma new_directory_counted:
  assumes c: "counted s D x K L ps" and p: "p < npages s" "p \<notin> set ps" "pp_ref s p = 0" "K p = None"
    and ph: "phys s' = (phys s)(p := page)" and empty: "\<And>d. d < UPDX \<Longrightarrow> page d = 0"
    and rest: "npages s' = npages s" "pp_link s' = pp_link s" "page_free_list s' = page_free_list s"
      "pp_ref s' = (pp_ref s)(p := 1)"
  shows "counted s' (insert p D) (x(p := 1)) K (L - {p}) ps"
proof -
  note u = unreferenced[OF c p(1,3)]
  note a = add_directory[OF countedD(1)[OF c] p(1) u(4,1,2) ph empty rest(1)]
  have r: "refs s' (insert p D) = refs s D" by (simp add: refs_def fun_eq_iff a(2,3))
  have "refs s D p = 0" using u(1,2) by (simp add: refs_def)
  moreover have "kept s' K ps"
    by (rule keptI[OF countedD(9)[OF c] rest(1)]) (use p(4) kept_free[OF countedD(9)[OF c]] in \<open>auto simp: rest ph\<close>)
  moreover have "page_repr s' ps" using countedD(2)[OF c] p(2) by (auto simp: page_repr_def rest)
  ultimately show ?thesis using c p(2) by (auto simp: counted_def a(1) r rest)
qed

lemma drop_table_counted:
  assumes c: "counted s D x K L ps" and at: "dir \<in> D" "d < UPDX" "pde_at s dir d \<noteq> 0"
    and empty: "\<And>t. t < 1024 \<Longrightarrow> pte_at s dir d t = 0"
  defines "f \<equiv> frame_of (pde_at s dir d)"
  shows "counted (write_pte s (dir, d) 0) D (x(f := x f + 1)) K L ps"
proof -
  let ?s = "write_pte s (dir, d) 0"
  have ph: "phys ?s = set_cell (phys s) dir d 0" "npages ?s = npages s" by simp_all
  note t = drop_table[OF countedD(1)[OF c] at(1,2) empty ph]
  have i: "pde_refs s D f = {(dir, d)}" unfolding f_def by (rule table_pde_refs[OF countedD(1)[OF c] at])
  have "(dir, d) \<notin> pde_refs s D q" if "q \<noteq> f" for q using that by (auto simp: pde_refs_def f_def)
  then have r: "refs s D q = refs ?s D q + (if q = f then 1 else 0)" for q
    using i by (auto simp: refs_def t(2,3))
  have "K dir = None" using not_kept[OF c] at(1) by blast
  then have "kept ?s K ps"
    by (intro keptI[OF countedD(9)[OF c]]) (use kept_free[OF countedD(9)[OF c]] in \<open>auto simp: set_cell_app fun_eq_iff\<close>)
  then show ?thesis using c t(1) r by (auto simp: counted_def)
qed

lemma drop_directory_counted:
  assumes c: "counted s D x K L ps" and empty: "\<And>d. d < UPDX \<Longrightarrow> pde_at s dir d = 0"
  shows "counted s (D - {dir}) x K L ps"
proof -
  note d = drop_directory[OF countedD(1)[OF c] empty]
  have "refs s (D - {dir}) = refs s D" by (simp add: refs_def fun_eq_iff d(2,3))
  then show ?thesis using c d(1) by (auto simp: counted_def)
qed

lemma PGADDR_indices:
  assumes "d < 1024" and "t < 1024"
  defines "va \<equiv> PGADDR (word_of_nat d) (word_of_nat t) 0"
  shows "unat (PDX va) = d" and "unat (PTX va) = t" and "d < UPDX \<Longrightarrow> va < UTOP"
proof -
  have d: "unat (push_bit 22 (word_of_nat d :: u32)) = d * 4194304"
    using assms(1) by (simp add: push_bit_eq_mult unat_word_ariths unat_of_nat)
  have t: "unat (push_bit 12 (word_of_nat t :: u32)) = t * 4096"
    using assms(2) by (simp add: push_bit_eq_mult unat_word_ariths unat_of_nat)
  have tb: "\<not> bit t n" if "10 \<le> n" for n
  proof -
    have "t < 2 ^ n" using assms(2) power_increasing[OF that, of "2 :: nat"] by simp
    then show ?thesis by (simp add: bit_iff_odd)
  qed
  have "push_bit 22 (word_of_nat d :: u32) AND push_bit 12 (word_of_nat t) = 0"
    by (rule bit_word_eqI) (auto simp: bit_simps tb)
  then have "va = push_bit 22 (word_of_nat d) + push_bit 12 (word_of_nat t)"
    by (simp add: va_def PGADDR_def PDXSHIFT_def PTXSHIFT_def disjunctive_add_eq_or)
  then have va: "unat va = d * 4194304 + t * 4096"
    using d t assms(1,2) by (simp add: unat_word_ariths)
  show "unat (PDX va) = d" "unat (PTX va) = t" using assms(2) by (simp_all add: unat_PDX unat_PTX va)
  show "va < UTOP" if "d < UPDX"
    using that assms(2) by (simp add: word_less_nat_alt va UPDX_def memlayout_defs mmu_consts)
qed

text \<open>The inner loop of \<^verbatim>\<open>env_free\<close> unmaps what one table maps.\<close>

definition unmapping :: "kmem \<Rightarrow> nat set \<Rightarrow> (nat \<Rightarrow> nat) \<Rightarrow> (nat \<rightharpoonup> nat \<Rightarrow> u32) \<Rightarrow> nat set \<Rightarrow> nat \<Rightarrow> kmem \<Rightarrow> bool" where
  "unmapping s D x K L dir m \<longleftrightarrow> (\<exists>ps. counted m D x K L ps) \<and> npages m = npages s
     \<and> (\<forall>dir'\<in>D - {dir}. same_space s m dir')"

lemma free_entry:
  assumes u: "unmapping s D x K L dir m" and at: "dir \<in> D" "d < UPDX" "t < 1024" "pde_at m dir d \<noteq> 0"
    and e: "pte_at m dir d t AND PTE_P \<noteq> 0"
  shows "\<exists>m'. page_remove cur m dir (PGADDR (word_of_nat d) (word_of_nat t) 0) = Inr m' \<and> unmapping s D x K L dir m'
    \<and> (\<forall>d'. pde_at m' dir d' = pde_at m dir d') \<and> (\<forall>t'. pte_at m' dir d t' = (if t' = t then 0 else pte_at m dir d t'))"
proof -
  let ?va = "PGADDR (word_of_nat d) (word_of_nat t) 0"
  have "d < 1024" using at(2) by (simp add: UPDX_def)
  note va = PGADDR_indices(1,2)[OF this at(3)] PGADDR_indices(3)[OF this at(3) at(2)]
  from u obtain ps where c: "counted m D x K L ps" by (auto simp: unmapping_def)
  note h = shapeD[OF countedD(1)[OF c] at(1,2,4)]
  obtain m' ps' where m': "page_remove cur m dir ?va = Inr m'" "counted m' D x K L ps'" "npages m' = npages m"
    "phys m' = set_cell (phys m) (frame_of (pde_at m dir d)) t 0" "\<forall>dir'\<in>D - {dir}. same_space m m' dir'"
    using remove_counted[OF c at(1) va(3), of cur] at(4) unfolding va(1,2) by auto
  have pde: "pde_at m' dir d' = pde_at m dir d'" for d'
    using h(2) at(1) by (auto simp: pde_at_def m'(4) set_cell_app)
  have "pte_at m' dir d t' = (if t' = t then 0 else pte_at m dir d t')" for t'
    by (simp add: pte_at_def pde m'(4) set_cell_app)
  moreover have "unmapping s D x K L dir m'"
    using u m'(2,3,5) same_space_trans unfolding unmapping_def by metis
  ultimately show ?thesis using m'(1) pde by blast
qed

lemma free_entries:
  assumes u: "unmapping s D x K L dir m" and at: "dir \<in> D" "d < UPDX" "pde_at m dir d \<noteq> 0"
    and m0: "pde_at m0 dir d = pde_at m dir d"
  shows "\<exists>m'. run_steps (\<lambda>m pteno. if phys m (frame_of (pde_at m0 dir d)) pteno AND PTE_P \<noteq> 0
        then page_remove cur m dir (PGADDR (word_of_nat d) (word_of_nat pteno) 0) else Inr m) m [0..<1024] = Inr m'
     \<and> unmapping s D x K L dir m' \<and> (\<forall>d'. pde_at m' dir d' = pde_at m dir d') \<and> (\<forall>t<1024. pte_at m' dir d t = 0)"
proof -
  let ?step = "\<lambda>m pteno. if phys m (frame_of (pde_at m0 dir d)) pteno AND PTE_P \<noteq> 0
        then page_remove cur m dir (PGADDR (word_of_nat d) (word_of_nat pteno) 0) else Inr m"
  let ?I = "\<lambda>n m'. n \<le> 1024 \<longrightarrow> unmapping s D x K L dir m' \<and> (\<forall>d'. pde_at m' dir d' = pde_at m dir d')
      \<and> (\<forall>t<n. pte_at m' dir d t = 0)"
  have step: "\<exists>m''. ?step m' t = Inr m'' \<and> ?I (Suc t) m''" if h: "t < 1024" "?I t m'" for t m'
  proof -
    have I: "unmapping s D x K L dir m'" "\<forall>d'. pde_at m' dir d' = pde_at m dir d'" "\<forall>t'<t. pte_at m' dir d t' = 0"
      using h by auto
    have pde: "pde_at m' dir d \<noteq> 0" using I(2) at(3) by simp
    have pte: "phys m' (frame_of (pde_at m0 dir d)) t = pte_at m' dir d t" using I(2) m0 by (simp add: pte_at_def)
    show ?thesis
    proof (cases "pte_at m' dir d t AND PTE_P = 0")
      case True
      from I(1) obtain ps where c: "counted m' D x K L ps" by (auto simp: unmapping_def)
      have "pte_at m' dir d t = 0" using shapeD(5)[OF countedD(1)[OF c] at(1,2) pde h(1)] True by blast
      with I True pte show ?thesis by (auto simp: less_Suc_eq)
    next
      case False
      from free_entry[OF I(1) at(1,2) h(1) pde False, of cur] obtain m'' where
        "page_remove cur m' dir (PGADDR (word_of_nat d) (word_of_nat t) 0) = Inr m''" "unmapping s D x K L dir m''"
        "\<forall>d'. pde_at m'' dir d' = pde_at m' dir d'"
        "\<forall>t'. pte_at m'' dir d t' = (if t' = t then 0 else pte_at m' dir d t')" by blast
      with I(2,3) False pte show ?thesis by (auto simp: less_Suc_eq)
    qed
  qed
  have "?I 0 m" using u by simp
  from run_steps_upt[of 1024 ?I ?step, OF step this] obtain m' where
    m': "run_steps ?step m [0..<1024] = Inr m'" "?I 1024 m'" by blast
  from m'(2) show ?thesis by (intro exI[of _ m'] conjI m'(1)) simp_all
qed

text \<open>One round of the outer loop: afterwards the directory has no table at this place.\<close>

lemma free_table_unmaps:
  assumes u: "unmapping s D x K L dir m" and at: "dir \<in> D" "d < UPDX"
  shows "\<exists>m'. free_table cur dir m d = Inr m' \<and> unmapping s D x K L dir m'
    \<and> (\<forall>d'. pde_at m' dir d' = (if d' = d then 0 else pde_at m dir d'))"
proof (cases "pde_at m dir d = 0")
  case True
  then have "free_table cur dir m d = Inr m" by (simp add: free_table_def pde_at_def)
  with u True show ?thesis by (intro exI[of _ m]) auto
next
  case nz: False
  let ?f = "frame_of (pde_at m dir d)"
  from u obtain ps where c: "counted m D x K L ps" by (auto simp: unmapping_def)
  note h = shapeD[OF countedD(1)[OF c] at nz]
  have P: "phys m dir d AND PTE_P \<noteq> 0" using h(1) by (simp add: pde_ok_def pde_at_def)
  have kf: "kframe m (PTE_ADDR (phys m dir d)) = Inr ?f"
    using h(3) by (simp add: kframe_eq frame_of_def pde_at_def)
  from free_entries[OF u at nz refl, of cur] obtain m1 where
    1: "run_steps (\<lambda>m' pteno. if phys m' ?f pteno AND PTE_P \<noteq> 0
        then page_remove cur m' dir (PGADDR (word_of_nat d) (word_of_nat pteno) 0) else Inr m') m [0..<1024] = Inr m1"
      "unmapping s D x K L dir m1" "\<forall>d'. pde_at m1 dir d' = pde_at m dir d'" "\<forall>t<1024. pte_at m1 dir d t = 0" by blast
  let ?m2 = "write_pte m1 (dir, d) 0"
  from 1(2) obtain ps1 where c1: "counted m1 D x K L ps1" by (auto simp: unmapping_def)
  have nz1: "pde_at m1 dir d \<noteq> 0" and f1: "frame_of (pde_at m1 dir d) = ?f" using 1(3) nz by simp_all
  have c2: "counted ?m2 D (x(?f := x ?f + 1)) K L ps1"
    using drop_table_counted[OF c1 at nz1] 1(4) unfolding f1 by blast
  have np: "npages m1 = npages m" using u 1(2) by (simp add: unmapping_def)
  obtain m3 ps3 where 3: "page_decref ?m2 ?f = Inr m3" "counted m3 D (x(?f := x ?f + 1, ?f := x ?f)) K L ps3"
    "phys m3 = phys ?m2" "npages m3 = npages m1"
    using decref_counted[OF c2, of ?f] h(2,3) np by auto
  have c3: "counted m3 D x K L ps3" using 3(2) by simp
  have "PTX (NOT 0) = 0x3FF" by (simp add: PTX_def PTXSHIFT_def mask_eq_exp_minus_1)
  then have "unat (PTX (NOT 0)) + 1 = 1024" by simp
  then have "free_table cur dir m d = Inr m3"
    using P kf 1(1) 3(1) h(3) np
    by (simp add: free_table_def Let_def pa2page_def frame_of_def pde_at_def)
  moreover have "pde_at m3 dir d' = (if d' = d then 0 else pde_at m dir d')" for d'
    using 1(3) by (simp add: pde_at_def 3(3) set_cell_app)
  moreover have "same_space m1 m3 dir'" if "dir' \<in> D" "dir' \<noteq> dir" for dir'
  proof -
    have "pte_at m3 dir' d' t = pte_at m1 dir' d' t" if "d' < UPDX" "pde_at m1 dir' d' \<noteq> 0" for d' t
      using shapeD(2)[OF countedD(1)[OF c1] \<open>dir' \<in> D\<close> that] at(1) \<open>dir' \<noteq> dir\<close>
      by (auto simp: pte_at_def pde_at_def 3(3) set_cell_app)
    then show ?thesis using that by (simp add: same_space_def pde_at_def 3(3) set_cell_app)
  qed
  then have "unmapping s D x K L dir m3"
    using 1(2) c3 3(4) same_space_trans unfolding unmapping_def by (metis Diff_iff insertI1)
  ultimately show ?thesis by blast
qed

lemma free_tables_unmap:
  assumes c: "counted s D x K L ps" and dir: "dir \<in> D"
  shows "\<exists>m'. run_steps (free_table cur dir) s [0..<UPDX] = Inr m' \<and> unmapping s D x K L dir m'
    \<and> (\<forall>d<UPDX. pde_at m' dir d = 0)"
proof -
  let ?I = "\<lambda>n m. n \<le> UPDX \<longrightarrow> unmapping s D x K L dir m \<and> (\<forall>d<n. pde_at m dir d = 0)"
  have "\<exists>m'. free_table cur dir m d = Inr m' \<and> ?I (Suc d) m'" if h: "d < UPDX" "?I d m" for d m
  proof -
    have I: "unmapping s D x K L dir m" "\<forall>d'<d. pde_at m dir d' = 0" using h by auto
    from free_table_unmaps[OF I(1) dir h(1), of cur] obtain m' where
      "free_table cur dir m d = Inr m'" "unmapping s D x K L dir m'"
      "\<forall>d'. pde_at m' dir d' = (if d' = d then 0 else pde_at m dir d')" by blast
    with I(2) show ?thesis by (auto simp: less_Suc_eq)
  qed
  moreover have "?I 0 s" using c same_space_phys[of s s] by (auto simp: unmapping_def)
  ultimately obtain m' where "run_steps (free_table cur dir) s [0..<UPDX] = Inr m'" "?I UPDX m'"
    using run_steps_upt[of UPDX ?I "free_table cur dir" s] by blast
  then show ?thesis by auto
qed

end
