(* ===== verification/KernelMem.thy ===== *)
theory KernelMem
  imports PageRefs KernelInv
begin

unbundle bit_operations_syntax

text \<open>
  The account of \<^verbatim>\<open>PageRefs\<close> for the whole kernel: the directories are those of the environments, each
  held by one environment, and every system call keeps the account. So no environment can reach a
  page table, a free page or a frame of the kernel, and what an environment owned is free when it is gone.
\<close>

section \<open>The state of the virtual memory\<close>

definition dirs :: "kst \<Rightarrow> nat set" where
  "dirs k = {d. \<exists>e. env_pgdir (envs k e) = Some d}"

definition held :: "kst \<Rightarrow> nat \<Rightarrow> nat" where
  "held k p = (if p \<in> dirs k then 1 else 0)"

definition free_envs :: "kst \<Rightarrow> nat list \<Rightarrow> bool" where
  "free_envs k es \<longleftrightarrow> linked (\<lambda>e. env_link (envs k e)) (env_free_list k) es \<and> distinct es
     \<and> (\<forall>e\<in>set es. env_pgdir (envs k e) = None)"

text \<open>\<open>K\<close> are the frames that the kernel keeps, its own directory among them, which maps nothing
  below \<^verbatim>\<open>UTOP\<close>.\<close>

definition vm_ok :: "(nat \<rightharpoonup> nat \<Rightarrow> u32) \<Rightarrow> kst \<Rightarrow> bool" where
  "vm_ok K k \<longleftrightarrow> (\<exists>L ps. counted (mem k) (dirs k) (held k) K L ps) \<and> (\<exists>es. free_envs k es)
     \<and> (\<forall>e e' d. env_pgdir (envs k e) = Some d \<and> env_pgdir (envs k e') = Some d \<longrightarrow> e = e')
     \<and> (\<forall>e. env_ipc_dstva (envs k e) < UTOP)
     \<and> (\<exists>c. K (kern_pgdir k) = Some c \<and> (\<forall>d<UPDX. c d = 0))"

lemma vm_okE:
  assumes "vm_ok K k"
  obtains L ps where "counted (mem k) (dirs k) (held k) K L ps"
  using assms by (auto simp: vm_ok_def)

lemma dirsI [intro]: "env_pgdir (envs k e) = Some d \<Longrightarrow> d \<in> dirs k"
  by (auto simp: dirs_def)

text \<open>What the account depends on. All the fields that scheduling, messages and the console change
  are left out.\<close>

definition same_vm :: "kst \<Rightarrow> kst \<Rightarrow> bool" where
  "same_vm k k' \<longleftrightarrow> phys (mem k') = phys (mem k) \<and> npages (mem k') = npages (mem k) \<and> pp_ref (mem k') = pp_ref (mem k)
     \<and> pp_link (mem k') = pp_link (mem k) \<and> page_free_list (mem k') = page_free_list (mem k)
     \<and> kern_pgdir k' = kern_pgdir k \<and> env_free_list k' = env_free_list k
     \<and> (\<forall>e. env_pgdir (envs k' e) = env_pgdir (envs k e) \<and> env_link (envs k' e) = env_link (envs k e)
          \<and> env_ipc_dstva (envs k' e) = env_ipc_dstva (envs k e))"

lemma same_vm_ok:
  assumes "same_vm k k'" and "vm_ok K k"
  shows "vm_ok K k'"
proof -
  have d: "dirs k' = dirs k" and f: "free_envs k' = free_envs k"
    using assms(1) by (simp_all add: dirs_def free_envs_def same_vm_def fun_eq_iff)
  then have h: "held k' = held k" by (simp add: held_def fun_eq_iff)
  have c: "counted (mem k') D x K L ps = counted (mem k) D x K L ps" for D x L ps
    by (rule counted_cong) (use assms(1) in \<open>simp_all add: same_vm_def\<close>)
  show ?thesis using assms unfolding vm_ok_def c d f h by (simp add: same_vm_def)
qed

named_theorems vm_intro "operations that leave the virtual memory alone"

lemma same_vm_refl [vm_intro]: "same_vm k k"
  by (simp add: same_vm_def)

lemma same_vm_trans: "same_vm k k1 \<Longrightarrow> same_vm k1 k2 \<Longrightarrow> same_vm k k2"
  by (simp add: same_vm_def)

lemma same_vm_upd [vm_intro]:
  "same_vm k k' \<Longrightarrow> same_vm k (k'\<lparr>cr3 := a\<rparr>)" "same_vm k k' \<Longrightarrow> same_vm k (k'\<lparr>kernel_lock := b\<rparr>)"
  "same_vm k k' \<Longrightarrow> same_vm k (k'\<lparr>cpu_status := c\<rparr>)" "same_vm k k' \<Longrightarrow> same_vm k (k'\<lparr>random_seed := r\<rparr>)"
  "same_vm k k' \<Longrightarrow> same_vm k (set_curenv k' e)" "same_vm k k' \<Longrightarrow> same_vm k (add_to_historial k' i)"
  by (simp_all add: same_vm_def set_curenv_def add_to_historial_def Let_def)

lemma same_vm_env [vm_intro]:
  assumes "same_vm k k'"
    and "env_pgdir (f (envs k' e)) = env_pgdir (envs k' e)" "env_link (f (envs k' e)) = env_link (envs k' e)"
      "env_ipc_dstva (f (envs k' e)) = env_ipc_dstva (envs k' e)"
  shows "same_vm k (upd_env k' e f)"
  using assms by (simp add: same_vm_def upd_env_def)

section \<open>Steps of the kernel\<close>

text \<open>A step keeps the virtual memory well when every result it delivers does.\<close>

definition delivers :: "(kst \<Rightarrow> bool) \<Rightarrow> fault + ('a ctl \<times> kst) \<Rightarrow> bool" where
  "delivers P r \<longleftrightarrow> (\<forall>c k. r = Inr (c, k) \<longrightarrow> P k)"

lemma delivers_simps [simp]: "delivers P (Inl e)" "delivers P (Inr (c, k)) \<longleftrightarrow> P k"
  by (auto simp: delivers_def)

lemma delivers_bindc:
  assumes "delivers P m" and "\<And>x k. m = Inr (Return x, k) \<Longrightarrow> P k \<Longrightarrow> delivers P (f x k)"
  shows "delivers P (bindc m f)"
proof (cases m)
  case (Inr p)
  obtain c k where p: "p = (c, k)" by (cases p)
  with assms Inr show ?thesis by (cases c) auto
qed simp

lemma delivers_chain: "(\<And>x. m = Inr x \<Longrightarrow> delivers P (f x)) \<Longrightarrow> delivers P (chain m f)"
  by (cases m) auto

lemma delivers_if: "(b \<Longrightarrow> delivers P x) \<Longrightarrow> (\<not> b \<Longrightarrow> delivers P y) \<Longrightarrow> delivers P (if b then x else y)"
  by simp

lemma delivers_mono: "delivers P r \<Longrightarrow> (\<And>k. P k \<Longrightarrow> Q k) \<Longrightarrow> delivers Q r"
  by (auto simp: delivers_def)

lemma unlock_vm: "same_vm k0 k \<Longrightarrow> unlock_kernel k = Inr k' \<Longrightarrow> same_vm k0 k'"
  by (auto simp: unlock_kernel_def chain_eq_Inr intro: vm_intro)

lemma env_run_vm: "same_vm k0 k \<Longrightarrow> delivers (same_vm k0) (env_run k e :: fault + ('a ctl \<times> kst))"
  unfolding env_run_def Let_def
  by (intro delivers_chain) (auto simp: env_load_pgdir_def chain_eq_Inr intro!: vm_intro elim!: unlock_vm[rotated] split: option.splits)

lemma sched_halt_vm: "same_vm k0 k \<Longrightarrow> delivers (same_vm k0) (sched_halt k :: fault + ('a ctl \<times> kst))"
  unfolding sched_halt_def Let_def
  by (auto intro!: delivers_chain vm_intro elim!: unlock_vm[rotated] split: option.splits)

lemma lottery_vm: "same_vm k0 k \<Longrightarrow> delivers (same_vm k0) (lottery k)"
  unfolding lottery_def next_random_def Let_def
  by (auto intro!: env_run_vm vm_intro split: option.splits)

lemma sched_yield_vm: "same_vm k0 k \<Longrightarrow> delivers (same_vm k0) (sched_yield k :: fault + ('a ctl \<times> kst))"
  unfolding sched_yield_def by (intro delivers_bindc lottery_vm sched_halt_vm)

lemma sched_yield_ok: "vm_ok K k \<Longrightarrow> delivers (vm_ok K) (sched_yield k :: fault + ('a ctl \<times> kst))"
  by (rule delivers_mono[OF sched_yield_vm[OF same_vm_refl]]) (rule same_vm_ok)

section \<open>Freeing an environment\<close>

lemma PDX_UTOP: "unat (PDX UTOP) = UPDX"
  by (simp add: unat_PDX UPDX_def memlayout_defs mmu_consts)

lemma env_free_account:
  assumes vm: "vm_ok K k" and c: "counted (mem k) (dirs k) (held k) K L ps" and d: "env_pgdir (envs k e) = Some d"
  shows "\<exists>k' ps'. env_free k e = Inr k' \<and> vm_ok K k' \<and> counted (mem k') (dirs k - {d}) (held k') K L ps'
    \<and> (\<forall>dir\<in>dirs k - {d}. same_space (mem k) (mem k') dir) \<and> npages (mem k') = npages (mem k)
    \<and> dirs k' = dirs k - {d}"
proof -
  define k1 where "k1 = (if Some e = curenv k then k\<lparr>cr3 := kern_pgdir k\<rparr> else k)"
  have k1: "mem k1 = mem k" "envs k1 = envs k" "env_free_list k1 = env_free_list k" "kern_pgdir k1 = kern_pgdir k"
    by (simp_all add: k1_def)
  have dD: "d \<in> dirs k" using d by auto
  obtain m1 where m1: "run_steps (free_table (cur_pgdir k1) d) (mem k) [0..<UPDX] = Inr m1"
    "unmapping (mem k) (dirs k) (held k) K L d m1" "\<forall>i<UPDX. pde_at m1 d i = 0"
    using free_tables_unmap[OF c dD] by blast
  then obtain ps1 where c1: "counted m1 (dirs k) (held k) K L ps1" and np1: "npages m1 = npages (mem k)"
    and same1: "\<forall>dir\<in>dirs k - {d}. same_space (mem k) m1 dir" by (auto simp: unmapping_def)
  have c2: "counted m1 (dirs k - {d}) (held k) K L ps1" using drop_directory_counted[OF c1] m1(3) by blast
  have lt: "d < npages m1" "d < 2 ^ 20"
    using countedD(1,7)[OF c1] dD by (auto simp: shape_def)
  have h: "held k d = 1" using dD by (simp add: held_def)
  have x: "0 < held k d" "d \<in> dirs k - {d} \<Longrightarrow> 1 < held k d" by (simp_all add: h)
  obtain m2 ps2 where m2: "page_decref m1 d = Inr m2" "counted m2 (dirs k - {d}) ((held k)(d := held k d - 1)) K L ps2"
    "phys m2 = phys m1" "npages m2 = npages m1"
    using decref_counted[OF c2 lt(1) x] by blast
  define k2 where "k2 = upd_env (k1\<lparr>mem := m1\<rparr>) e (\<lambda>v. v\<lparr>env_pgdir := None\<rparr>)"
  define k' where "k' = (upd_env (k2\<lparr>mem := m2\<rparr>) e
      (\<lambda>v. v\<lparr>env_status := ENV_FREE, env_link := env_free_list k2\<rparr>))\<lparr>env_free_list := Some e\<rparr>"
  have pa: "pa2page m1 (page2pa d) = Inr d"
    using lt by (simp add: pa2page_def PGNUM_page2pa)
  have eq: "env_free k e = Inr k'"
    using m1(1) m2(1) pa d
    by (simp add: env_free_def k1_def[symmetric] k1 PDX_UTOP) (simp add: k'_def k2_def upd_env_def)
  have sel: "mem k' = m2" "env_pgdir (envs k' i) = (if i = e then None else env_pgdir (envs k i))"
    "env_link (envs k' i) = (if i = e then env_free_list k else env_link (envs k i))"
    "env_ipc_dstva (envs k' i) = env_ipc_dstva (envs k i)" "env_free_list k' = Some e" "kern_pgdir k' = kern_pgdir k" for i
    by (simp_all add: k'_def k2_def upd_env_def k1)
  have inj: "i = e" if "env_pgdir (envs k i) = Some d" for i
    using vm that d unfolding vm_ok_def by blast
  have dirs: "dirs k' = dirs k - {d}"
  proof (intro set_eqI iffI)
    fix x assume "x \<in> dirs k'"
    then obtain i where i: "env_pgdir (envs k' i) = Some x" by (auto simp: dirs_def)
    then have "i \<noteq> e" "env_pgdir (envs k i) = Some x" using sel(2)[of i] by (simp_all split: if_splits)
    with inj show "x \<in> dirs k - {d}" by blast
  next
    fix x assume "x \<in> dirs k - {d}"
    then obtain i where i: "env_pgdir (envs k i) = Some x" "x \<noteq> d" by (auto simp: dirs_def)
    then have "i \<noteq> e" using d by auto
    with i show "x \<in> dirs k'" using sel(2)[of i] by auto
  qed
  have held: "held k' = (held k)(d := held k d - 1)"
    using h by (auto simp: held_def dirs)
  obtain es where es: "free_envs k es" using vm by (auto simp: vm_ok_def)
  then have ne: "e \<notin> set es" using d by (auto simp: free_envs_def)
  have link: "(\<lambda>i. env_link (envs k' i)) = (\<lambda>i. env_link (envs k i))(e := env_free_list k)"
    by (auto simp: sel)
  have "linked (\<lambda>i. env_link (envs k' i)) (env_free_list k) es"
    unfolding link linked_upd[OF ne] using es by (simp add: free_envs_def)
  then have fe: "free_envs k' (e # es)"
    using es ne by (auto simp: free_envs_def sel)
  have c': "counted (mem k') (dirs k - {d}) (held k') K L ps2" using m2(2) by (simp add: sel held)
  have "env_pgdir (envs k' i) = Some x \<Longrightarrow> env_pgdir (envs k i) = Some x" for i x
    by (simp add: sel split: if_splits)
  then have "\<forall>i i' x. env_pgdir (envs k' i) = Some x \<and> env_pgdir (envs k' i') = Some x \<longrightarrow> i = i'"
    using vm unfolding vm_ok_def by blast
  moreover have "\<forall>i. env_ipc_dstva (envs k' i) < UTOP" "\<exists>c. K (kern_pgdir k') = Some c \<and> (\<forall>d<UPDX. c d = 0)"
    using vm unfolding vm_ok_def by (simp_all add: sel)
  ultimately have "vm_ok K k'" unfolding vm_ok_def dirs using fe c' by blast
  moreover have "\<forall>dir\<in>dirs k - {d}. same_space (mem k) (mem k') dir"
    using same1 same_space_trans same_space_phys[OF m2(3)] sel(1) by metis
  moreover have "npages (mem k') = npages (mem k)" using np1 m2(4) sel(1) by simp
  ultimately show ?thesis using eq c' dirs by blast
qed

lemma env_free_ok:
  assumes "vm_ok K k" and "env_free k e = Inr k'"
  shows "vm_ok K k'"
proof -
  from assms(2) obtain d where d: "env_pgdir (envs k e) = Some d"
    by (auto simp: env_free_def Let_def chain_eq_Inr deref_Inr split: if_splits)
  from assms(1) obtain L ps where c: "counted (mem k) (dirs k) (held k) K L ps" by (rule vm_okE)
  from env_free_account[OF assms(1) c d] assms(2) show ?thesis by auto
qed

lemma env_destroy_ok: "vm_ok K k \<Longrightarrow> delivers (vm_ok K) (env_destroy k e)"
proof -
  assume k: "vm_ok K k"
  have "vm_ok K (upd_env k e (\<lambda>v. v\<lparr>env_status := ENV_DYING\<rparr>))"
    by (rule same_vm_ok[OF same_vm_env[OF same_vm_refl] k]) simp_all
  moreover have "vm_ok K (set_curenv k1 None)" if "vm_ok K k1" for k1
    by (rule same_vm_ok[OF same_vm_upd(5)[OF same_vm_refl] that])
  ultimately show ?thesis
    unfolding env_destroy_def using env_free_ok[OF k, of e]
    by (intro delivers_if delivers_chain sched_yield_ok) simp_all
qed

lemma user_mem_loop_mem:
  "user_mem_loop s d lo perm as = Inr (m, r) \<Longrightarrow> \<exists>a. m = s\<lparr>user_mem_check_addr := a\<rparr>"
proof (induction as)
  case Nil
  then have "m = s\<lparr>user_mem_check_addr := user_mem_check_addr s\<rparr>" by simp
  then show ?case by blast
qed (auto simp: chain_eq_Inr split: if_splits)

lemma user_mem_check_mem:
  "user_mem_check s d va len perm = Inr (m, r) \<Longrightarrow> \<exists>a. m = s\<lparr>user_mem_check_addr := a\<rparr>"
  by (auto simp: user_mem_check_def Let_def dest: user_mem_loop_mem split: if_splits)

lemma user_mem_assert_ok:
  assumes "vm_ok K k"
  shows "delivers (vm_ok K) (user_mem_assert k e va len perm)"
proof -
  have "vm_ok K (k\<lparr>mem := m\<rparr>)" if "user_mem_check (mem k) d va len q = Inr (m, r)" for d q m r
  proof -
    obtain a where "m = (mem k)\<lparr>user_mem_check_addr := a\<rparr>" using user_mem_check_mem[OF \<open>_ = Inr (m, r)\<close>] by blast
    then have "same_vm k (k\<lparr>mem := m\<rparr>)" by (simp add: same_vm_def)
    with assms show ?thesis by (rule same_vm_ok[rotated])
  qed
  then show ?thesis by (auto simp: user_mem_assert_def intro!: delivers_chain env_destroy_ok)
qed

section \<open>Making an environment\<close>

lemma env_setup_vm_account:
  assumes c: "counted (mem k) D x K L ps" and K: "K (kern_pgdir k) = Some page" "\<forall>d<UPDX. page d = 0"
  shows "env_setup_vm k e = Inr (- E_NO_MEM, k) \<and> ps = [] \<or>
    (\<exists>p m ps'. env_setup_vm k e = Inr (0, upd_env (k\<lparr>mem := m\<rparr>) e (\<lambda>v. v\<lparr>env_pgdir := Some p\<rparr>))
       \<and> p \<notin> D \<and> counted m (insert p D) (x(p := 1)) K L ps' \<and> ps = p # ps' \<and> npages m = npages (mem k)
       \<and> pp_ref m = (pp_ref (mem k))(p := 1)
       \<and> phys m = (phys (mem k))(p := page(unat (PDX UVPT) := page2pa p OR PTE_P OR PTE_U)))"
proof (cases ps)
  case Nil
  then have "page_alloc (mem k) True = Inr (None, mem k)" using page_alloc_Nil countedD(2)[OF c] by simp
  then show ?thesis using Nil by (simp add: env_setup_vm_def)
next
  case (Cons p ps')
  obtain m where m: "page_alloc (mem k) True = Inr (Some p, m)" "counted m D x K (insert p L) ps'"
    "phys m = (phys (mem k))(p := \<lambda>_. 0)" "npages m = npages (mem k)" "pp_ref m = pp_ref (mem k)"
    using alloc_zeroed[OF c[unfolded Cons]] by blast
  have fr: "p \<notin> set ps'" "p < npages (mem k)" "pp_ref (mem k) p = 0" "K p = None"
    using countedD(2)[OF c] not_kept[OF c] Cons by (auto simp: page_repr_def)
  have p: "p < npages m" "p < 2 ^ 20" using m(4) fr(2) countedD(7)[OF c] by simp_all
  have kf: "kframe m (page2pa p) = Inr p" by (rule kframe_page2pa[OF p])
  let ?m = "write_pte (incref (m\<lparr>phys := (phys m)(p := phys m (kern_pgdir k))\<rparr>) p) (p, unat (PDX UVPT))
      (page2pa p OR PTE_P OR PTE_U)"
  let ?page = "page(unat (PDX UVPT) := page2pa p OR PTE_P OR PTE_U)"
  have kp: "phys m (kern_pgdir k) = page" using countedD(9)[OF m(2)] K(1) by (auto simp: kept_def)
  have "unat (PDX UVPT) = 957" by (simp add: unat_PDX memlayout_defs mmu_consts)
  then have z: "?page d = 0" if "d < UPDX" for d using that K(2) by (simp add: UPDX_def)
  have ph: "phys ?m = (phys m)(p := ?page)" by (auto simp: set_cell_def fun_eq_iff incref_def kp)
  have rest: "npages ?m = npages m" "pp_link ?m = pp_link m" "page_free_list ?m = page_free_list m"
    "pp_ref ?m = (pp_ref m)(p := 1)" using m(5) fr(3) by (simp_all add: incref_def write_pte_def)
  have r0: "pp_ref m p = 0" using m(5) fr(3) by simp
  have c': "counted ?m (insert p D) (x(p := 1)) K (insert p L - {p}) ps'"
    by (rule new_directory_counted[OF m(2) p(1) fr(1) r0 fr(4) ph z rest])
  then have "counted ?m (insert p D) (x(p := 1)) K L ps'" by (auto simp: counted_def)
  moreover have "p \<notin> D" using free_unreferenced(4)[OF c, of p] Cons by simp
  moreover have "env_setup_vm k e = Inr (0, upd_env (k\<lparr>mem := ?m\<rparr>) e (\<lambda>v. v\<lparr>env_pgdir := Some p\<rparr>))"
    using m(1) kf by (simp add: env_setup_vm_def Let_def)
  moreover have "(phys m)(p := ?page) = (phys (mem k))(p := ?page)" "(pp_ref m)(p := 1) = (pp_ref (mem k))(p := 1)"
    by (simp_all add: m(3,5))
  from ph[unfolded this] rest(4)[unfolded this] rest(1)[unfolded m(4)]
  have "phys ?m = (phys (mem k))(p := ?page)" "pp_ref ?m = (pp_ref (mem k))(p := 1)" "npages ?m = npages (mem k)" .
  ultimately show ?thesis using Cons by blast
qed

lemma env_alloc_ok:
  assumes vm: "vm_ok K k" and a: "env_alloc k par = Inr (r, e, k')"
  shows "vm_ok K k'"
proof -
  from vm obtain L ps es page where c: "counted (mem k) (dirs k) (held k) K L ps" and es: "free_envs k es"
    and K: "K (kern_pgdir k) = Some page" "\<forall>d<UPDX. page d = 0"
    unfolding vm_ok_def by blast
  show ?thesis
  proof (cases "env_free_list k")
    case None
    with a vm show ?thesis by (simp add: env_alloc_def)
  next
    case (Some i)
    then obtain js where es': "es = i # js" using es by (cases es) (auto simp: free_envs_def)
    then have free: "env_pgdir (envs k i) = None" "i \<notin> set js" "linked (\<lambda>e. env_link (envs k e)) (env_link (envs k i)) js"
      "distinct js" "\<forall>e\<in>set js. env_pgdir (envs k e) = None"
      using es by (auto simp: free_envs_def)
    from env_setup_vm_account[OF c K, of i] show ?thesis
    proof (elim disjE exE conjE)
      assume "env_setup_vm k i = Inr (- E_NO_MEM, k)"
      then show ?thesis using a vm Some by (simp add: env_alloc_def E_NO_MEM_def)
    next
      fix p m ps'
      assume s: "env_setup_vm k i = Inr (0, upd_env (k\<lparr>mem := m\<rparr>) i (\<lambda>v. v\<lparr>env_pgdir := Some p\<rparr>))"
        and p: "p \<notin> dirs k" and c': "counted m (insert p (dirs k)) ((held k)(p := 1)) K L ps'"
      have k': "mem k' = m" "env_pgdir (envs k' j) = (if j = i then Some p else env_pgdir (envs k j))"
        "env_link (envs k' j) = env_link (envs k j)" "env_ipc_dstva (envs k' j) = env_ipc_dstva (envs k j)"
        "env_free_list k' = env_link (envs k i)" "kern_pgdir k' = kern_pgdir k" for j
        using a Some s by (auto simp: env_alloc_def Let_def upd_env_def fresh_env_def)
      have dirs: "dirs k' = insert p (dirs k)"
      proof (intro set_eqI iffI)
        fix x assume "x \<in> dirs k'"
        then obtain j where "env_pgdir (envs k' j) = Some x" by (auto simp: dirs_def)
        then show "x \<in> insert p (dirs k)" using k'(2)[of j] by (auto split: if_splits)
      next
        fix x assume "x \<in> insert p (dirs k)"
        then consider "x = p" | j where "env_pgdir (envs k j) = Some x" by (auto simp: dirs_def)
        then show "x \<in> dirs k'"
        proof cases
          case 1
          then show ?thesis using k'(2)[of i] by auto
        next
          case 2
          then have "j \<noteq> i" using free(1) by auto
          with 2 show ?thesis using k'(2)[of j] by auto
        qed
      qed
      have held: "held k' = (held k)(p := 1)" by (auto simp: held_def dirs)
      have "(\<lambda>e. env_link (envs k' e)) = (\<lambda>e. env_link (envs k e))" by (simp add: k'(3))
      then have "free_envs k' js" using free by (auto simp: free_envs_def k'(2,5))
      moreover have "j = j'" if "env_pgdir (envs k' j) = Some x" "env_pgdir (envs k' j') = Some x" for j j' x
      proof -
        have "p \<noteq> x" if "env_pgdir (envs k l) = Some x" for l using that p by auto
        with that show ?thesis using vm unfolding vm_ok_def k'(2) by (auto split: if_splits)
      qed
      moreover have "counted (mem k') (dirs k') (held k') K L ps'" using c' by (simp add: k'(1) dirs held)
      moreover have "\<forall>j. env_ipc_dstva (envs k' j) < UTOP" using vm by (simp add: vm_ok_def k'(4))
      ultimately show ?thesis using K unfolding vm_ok_def k'(6) by blast
    qed
  qed
qed

section \<open>Mapping pages\<close>

lemma vm_ok_mem: "vm_ok K k \<Longrightarrow> counted m (dirs k) (held k) K L ps \<Longrightarrow> vm_ok K (k\<lparr>mem := m\<rparr>)"
proof -
  have "dirs (k\<lparr>mem := m\<rparr>) = dirs k" "free_envs (k\<lparr>mem := m\<rparr>) = free_envs k" by (simp_all add: dirs_def free_envs_def fun_eq_iff)
  moreover from this(1) have "held (k\<lparr>mem := m\<rparr>) = held k" by (simp add: held_def fun_eq_iff)
  ultimately show "vm_ok K k \<Longrightarrow> counted m (dirs k) (held k) K L ps \<Longrightarrow> vm_ok K (k\<lparr>mem := m\<rparr>)"
    by (auto simp: vm_ok_def)
qed

text \<open>A page found through an address space is neither free nor a table nor the kernel's.\<close>

lemma lookup_account:
  assumes c: "counted s D x K L ps" and d: "d \<in> D" and va: "va < UTOP" and l: "page_lookup s d va = Inr (Some (pp, q))"
  shows "data_frame s D pp" and "pp \<notin> set ps" and "K pp = None"
proof -
  let ?d = "unat (PDX va)" and ?t = "unat (PTX va)"
  note u = user_pdx[OF va]
  have nz: "pde_at s d ?d \<noteq> 0" using l by (auto simp: page_lookup_def walk_unmapped)
  note h = shapeD[OF countedD(1)[OF c] d u nz]
  have e: "pte_at s d ?d ?t \<noteq> 0" "pp = frame_of (pte_at s d ?d ?t)"
    using l by (auto simp: page_lookup_def walk_mapped[OF nz h(3)] read_pte_def pte_at_def pa2page_def frame_of_def
        split: if_splits)
  then have r: "pte_refs s D pp \<noteq> {}" using d u nz PTX_less[of va] by (auto simp: pte_refs_def)
  show "data_frame s D pp" using h(5)[OF PTX_less e(1)] e(2) by simp
  show "K pp = None" using not_kept[OF c] r by blast
  show "pp \<notin> set ps" using free_unreferenced(2)[OF c] r by blast
qed

definition refs_below :: "nat \<Rightarrow> kst \<Rightarrow> bool" where
  "refs_below n k \<longleftrightarrow> (\<forall>p. unat (pp_ref (mem k) p) < n)"

lemma insert_page_ok:
  assumes vm: "vm_ok K k" and c: "counted m (dirs k) (held k) K L ps" and va: "va < UTOP" and perm: "flags_ok perm"
    and pp: "data_frame m (dirs k) pp" "pp \<notin> set ps" "unat (pp_ref m pp) < 65535" "K pp = None"
    and i: "insert_page k m e pp va perm = Inr (r, k')"
  shows "vm_ok K k'" and "envs k' = envs k"
    and "\<forall>q. unat (pp_ref (mem k') q) \<le> max 1 (unat (pp_ref m q) + (if q = pp then 1 else 0))"
proof -
  obtain d m' where d: "env_pgdir (envs k e) = Some d" and pi: "page_insert (cur_pgdir k) m d pp va perm = Inr (m', r)"
    and k': "k' = k\<lparr>mem := m'\<rparr>" using i by (auto simp: insert_page_def chain_eq_Inr deref_Inr)
  have dD: "d \<in> dirs k" using d by auto
  have "(\<exists>L ps. counted m' (dirs k) (held k) K L ps)
      \<and> (\<forall>q. unat (pp_ref m' q) \<le> max 1 (unat (pp_ref m q) + (if q = pp then 1 else 0)))"
    using insert_counted[OF c dD va pp perm, of "cur_pgdir k"]
  proof (elim disjE exE conjE)
    assume "page_insert (cur_pgdir k) m d pp va perm = Inr (m, - E_NO_MEM)"
    then have "m' = m" using pi by simp
    moreover have "unat (pp_ref m q) \<le> max 1 (unat (pp_ref m q) + (if q = pp then 1 else 0))" for q by simp
    ultimately show ?thesis using c by blast
  next
    fix s' ps'
    assume "page_insert (cur_pgdir k) m d pp va perm = Inr (s', 0)" "counted s' (dirs k) (held k) K (L - {pp}) ps'"
      "\<forall>q. unat (pp_ref s' q) \<le> max 1 (unat (pp_ref m q) + (if q = pp then 1 else 0))"
    moreover from this(1) have "s' = m'" using pi by simp
    ultimately show ?thesis by blast
  qed
  then show "vm_ok K k'" "\<forall>q. unat (pp_ref (mem k') q) \<le> max 1 (unat (pp_ref m q) + (if q = pp then 1 else 0))"
    using vm_ok_mem[OF vm] unfolding k' by (blast, simp)
  show "envs k' = envs k" by (simp add: k')
qed

lemma check_perm_flags: "\<not> check_perm perm None < 0 \<Longrightarrow> flags_ok perm"
proof -
  assume "\<not> check_perm perm None < 0"
  then have "perm AND NOT PTE_SYSCALL = 0" by (auto simp: check_perm_def E_INVAL_def split: if_splits)
  then have "perm = perm AND PTE_SYSCALL" by (intro bit_word_eqI) (auto simp: bit_eq_iff bit_simps)
  then have "drop_bit 12 perm = drop_bit 12 (perm AND PTE_SYSCALL)" by simp
  then show ?thesis by (simp add: flags_ok_def drop_bit_and PTE_SYSCALL_def pte_bits)
qed

lemma env_page_alloc_ok:
  assumes vm: "vm_ok K k" and va: "va < UTOP" and a: "env_page_alloc k e va perm = Inr (r, k')"
  shows "vm_ok K k'" and "envs k' = envs k" and "refs_below n k \<Longrightarrow> 1 < n \<Longrightarrow> refs_below n k'"
proof -
  from vm obtain L ps where c: "counted (mem k) (dirs k) (held k) K L ps" by (rule vm_okE)
  have "vm_ok K k' \<and> envs k' = envs k \<and> (refs_below n k \<longrightarrow> 1 < n \<longrightarrow> refs_below n k')"
  proof (cases "check_perm perm None < 0")
    case True
    then show ?thesis using a vm by (simp add: env_page_alloc_def)
  next
    case False
    note perm = check_perm_flags[OF False]
    show ?thesis
    proof (cases ps)
      case Nil
      then have "page_alloc (mem k) True = Inr (None, mem k)" using page_alloc_Nil countedD(2)[OF c] by simp
      then show ?thesis using a vm False by (simp add: env_page_alloc_def)
    next
      case (Cons p ps')
      obtain m where m: "page_alloc (mem k) True = Inr (Some p, m)" "counted m (dirs k) (held k) K (insert p L) ps'"
        "npages m = npages (mem k)" "pp_ref m = pp_ref (mem k)" "p \<notin> set ps'" "p < npages (mem k)" "pp_ref (mem k) p = 0" "K p = None"
        using alloc_counted[OF c[unfolded Cons], of True] by blast
      have i: "insert_page k m e p va perm = Inr (r, k')"
        using a False m(1) by (simp add: env_page_alloc_def Let_def)
      have lt: "p < npages m" "pp_ref m p = 0" "unat (pp_ref m p) < 65535" using m by simp_all
      have df: "data_frame m (dirs k) p" by (rule unreferenced(5)[OF m(2) lt(1,2)])
      note k' = insert_page_ok[OF vm m(2) va perm df m(5) lt(3) m(8) i]
      have "unat (pp_ref (mem k') q) < n" if "refs_below n k" "1 < n" for q
        using k'(3)[rule_format, of q] that m(4,7) unfolding refs_below_def
        by (cases "q = p") (auto simp: max_def split: if_splits intro: le_less_trans)
      then show ?thesis using k'(1,2) by (simp add: refs_below_def)
    qed
  qed
  then show "vm_ok K k'" "envs k' = envs k" "refs_below n k \<Longrightarrow> 1 < n \<Longrightarrow> refs_below n k'" by simp_all
qed

lemma env_page_map_ok:
  assumes vm: "vm_ok K k" and va: "srcva < UTOP" "dstva < UTOP" and perm: "flags_ok perm" and room: "refs_below 65535 k"
    and a: "env_page_map k se srcva de dstva perm = Inr (r, k')"
  shows "vm_ok K k'" and "envs k' = envs k"
proof -
  from vm obtain L ps where c: "counted (mem k) (dirs k) (held k) K L ps" by (rule vm_okE)
  obtain sd found where sd: "env_pgdir (envs k se) = Some sd" "page_lookup (mem k) sd srcva = Inr found"
    using a by (auto simp: env_page_map_def chain_eq_Inr deref_Inr)
  have "vm_ok K k' \<and> envs k' = envs k"
  proof (cases "k' = k")
    case True
    with vm show ?thesis by simp
  next
    case False
    then obtain pp q where f: "found = Some (pp, q)" and i: "insert_page k (mem k) de pp dstva perm = Inr (r, k')"
      using a sd by (auto simp: env_page_map_def split: option.splits if_splits)
    have l: "page_lookup (mem k) sd srcva = Inr (Some (pp, q))" using sd(2) f by simp
    note la = lookup_account[OF c dirsI[OF sd(1)] va(1) l]
    have "unat (pp_ref (mem k) pp) < 65535" using room by (simp add: refs_below_def)
    from insert_page_ok(1,2)[OF vm c va(2) perm la(1,2) this la(3) i] show ?thesis by simp
  qed
  then show "vm_ok K k'" "envs k' = envs k" by simp_all
qed

section \<open>System calls\<close>

lemma vm_ok_env:
  assumes "vm_ok K k" and "env_pgdir (f (envs k e)) = env_pgdir (envs k e)" "env_link (f (envs k e)) = env_link (envs k e)"
    "env_ipc_dstva (f (envs k e)) = env_ipc_dstva (envs k e)"
  shows "vm_ok K (upd_env k e f)"
  by (rule same_vm_ok[OF same_vm_env[OF same_vm_refl] assms(1)]) (use assms(2-) in simp_all)

lemma vm_ok_dstva:
  assumes "vm_ok K k" and "va < UTOP"
  shows "vm_ok K (upd_env k e (\<lambda>v. v\<lparr>env_ipc_dstva := va, env_status := st\<rparr>))"
proof -
  let ?k = "upd_env k e (\<lambda>v. v\<lparr>env_ipc_dstva := va, env_status := st\<rparr>)"
  have s: "mem ?k = mem k" "env_pgdir (envs ?k i) = env_pgdir (envs k i)" "env_link (envs ?k i) = env_link (envs k i)"
    "env_free_list ?k = env_free_list k" "kern_pgdir ?k = kern_pgdir k" for i by (simp_all add: upd_env_def)
  have d: "dirs ?k = dirs k" and f: "free_envs ?k = free_envs k"
    by (simp_all add: dirs_def free_envs_def s fun_eq_iff)
  then have h: "held ?k = held k" by (simp add: held_def fun_eq_iff)
  have "env_ipc_dstva (envs ?k i) < UTOP" for i using assms by (simp add: upd_env_def vm_ok_def)
  then show ?thesis using assms(1) unfolding vm_ok_def s d f h by blast
qed

lemma good_va_user: "\<not> bad_va va \<Longrightarrow> va < UTOP"
  by (simp add: bad_va_def not_le)

lemma page_unmap_ok:
  assumes vm: "vm_ok K k" and d: "env_pgdir (envs k i) = Some d" and va: "va < UTOP"
    and r: "page_remove cur (mem k) d va = Inr m"
  shows "vm_ok K (k\<lparr>mem := m\<rparr>)"
proof -
  from vm obtain L ps where c: "counted (mem k) (dirs k) (held k) K L ps" by (rule vm_okE)
  from remove_counted[OF c dirsI[OF d] va, of cur] r vm_ok_mem[OF vm] show ?thesis by auto
qed

lemma try_send_ok:
  assumes vm: "vm_ok K k" and room: "refs_below 65535 k"
  shows "delivers (vm_ok K) (sys_ipc_try_send k envid value srcva perm)"
proof -
  have deliver: "delivers (vm_ok K) (ipc_deliver k' i value)" if "vm_ok K k'" for k' i
    unfolding ipc_deliver_def by (intro delivers_chain) (simp add: vm_ok_env[OF that])
  have perm: "vm_ok K (upd_env k' i (\<lambda>v. v\<lparr>env_ipc_perm := p\<rparr>))" if "vm_ok K k'" for k' i p
    by (rule vm_ok_env[OF that]) simp_all
  have page: "delivers (vm_ok K) (chain (env_page_alloc k dst (env_ipc_dstva (envs k dst)) p) (\<lambda>(r1, k1).
      if r1 < 0 then ret r1 k1
      else chain (env_page_map k1 c srcva dst (env_ipc_dstva (envs k dst)) p) (\<lambda>(r2, k2).
        if r2 < 0 then ret r2 k2
        else ipc_deliver (upd_env k2 dst (\<lambda>v. v\<lparr>env_ipc_perm := p\<rparr>)) dst value)))"
    if src: "srcva < UTOP" for dst c p
  proof (intro delivers_chain, clarsimp simp del: not_less, intro conjI impI)
    fix r1 k1 assume a: "env_page_alloc k dst (env_ipc_dstva (envs k dst)) p = Inr (r1, k1)"
    have dst: "env_ipc_dstva (envs k dst) < UTOP" using vm by (simp add: vm_ok_def)
    note k1 = env_page_alloc_ok[OF vm dst a]
    show "vm_ok K k1" by (rule k1(1))
    assume r1: "\<not> r1 < 0"
    then have "\<not> check_perm p None < 0" using a by (auto simp: env_page_alloc_def)
    note p = check_perm_flags[OF this]
    have room1: "refs_below 65535 k1" using k1(3)[OF room] by simp
    show "delivers (vm_ok K) (chain (env_page_map k1 c srcva dst (env_ipc_dstva (envs k dst)) p) (\<lambda>(r2, k2).
        if r2 < 0 then ret r2 k2
        else ipc_deliver (upd_env k2 dst (\<lambda>v. v\<lparr>env_ipc_perm := p\<rparr>)) dst value))"
      using env_page_map_ok(1)[OF k1(1) src dst p room1]
      by (intro delivers_chain) (auto intro!: deliver perm)
  qed
  show ?thesis
    unfolding sys_ipc_try_send_def Let_def
    by (auto simp: vm not_le intro!: delivers_chain deliver perm page split: option.splits)
qed

lemma vm_ok_priority: "vm_ok K k \<Longrightarrow> vm_ok K (sys_env_set_priority k)"
  by (auto simp: sys_env_set_priority_def drop_ticket_def intro!: vm_ok_env split: option.splits)

lemma recv_ok:
  assumes vm: "vm_ok K k"
  shows "delivers (vm_ok K) (sys_ipc_recv k dstva)"
proof -
  have 1: "vm_ok K (upd_env k c (\<lambda>v. v\<lparr>env_ipc_recving := True\<rparr>))" for c by (rule vm_ok_env[OF vm]) simp_all
  show ?thesis
    unfolding sys_ipc_recv_def Let_def sys_yield_def
    by (intro delivers_chain delivers_if delivers_bindc sched_yield_ok vm_ok_dstva 1) (simp_all add: 1 not_le)
qed

lemma exofork_ok:
  assumes vm: "vm_ok K k"
  shows "delivers (vm_ok K) (sys_exofork k)"
  unfolding sys_exofork_def
  by (intro delivers_chain) (auto simp: Let_def dest!: env_alloc_ok[OF vm] intro!: delivers_chain vm_ok_env)

lemma syscall_ok:
  assumes vm: "vm_ok K k" and room: "refs_below 65535 k" and guard: "n = SYS_page_map \<longrightarrow> flags_ok a5"
  shows "delivers (vm_ok K) (syscall getc k n a1 a2 a3 a4 a5)"
proof -
  have prio: "delivers (vm_ok K) (sys_env_get_priority k')" if "vm_ok K k'" for k'
    unfolding sys_env_get_priority_def using that by (intro delivers_chain) simp
  have cputs: "delivers (vm_ok K) (sys_cputs k s len)" for s len
    unfolding sys_cputs_def by (intro delivers_chain delivers_bindc user_mem_assert_ok vm) simp_all
  have destroy: "delivers (vm_ok K) (sys_env_destroy k a)" for a
    unfolding sys_env_destroy_def by (auto intro!: delivers_chain delivers_bindc env_destroy_ok simp: vm)
  have status: "delivers (vm_ok K) (sys_env_set_status k a st)" for a st
    unfolding sys_env_set_status_def by (auto intro!: delivers_chain vm_ok_env simp: vm)
  have upcall: "delivers (vm_ok K) (sys_env_set_pgfault_upcall k a f)" for a f
    unfolding sys_env_set_pgfault_upcall_def
    by (auto intro!: delivers_chain delivers_bindc user_mem_assert_ok vm_ok_env simp: vm)
  have alloc: "delivers (vm_ok K) (sys_page_alloc k a va p)" for a va p
  proof -
    have "vm_ok K k'" if "env_page_alloc k e va q = Inr (r, k')" "\<not> bad_va va" for e q r k'
      by (rule env_page_alloc_ok(1)[OF vm good_va_user[OF that(2)] that(1)])
    then show ?thesis unfolding sys_page_alloc_def by (auto intro!: delivers_chain simp: vm)
  qed
  have map: "delivers (vm_ok K) (sys_page_map k a va b vb p)" if "flags_ok p" for a va b vb p
  proof -
    have "flags_ok (PTE_P OR PTE_U OR p)" using that by (simp add: flags_ok_or)
    then have "vm_ok K k'" if "env_page_map k s va d vb (PTE_P OR PTE_U OR p) = Inr (r, k')" "\<not> bad_va va" "\<not> bad_va vb"
      for s d r k'
      by (rule env_page_map_ok(1)[OF vm good_va_user[OF that(2)] good_va_user[OF that(3)] _ room that(1)])
    then show ?thesis unfolding sys_page_map_def by (auto intro!: delivers_chain simp: vm)
  qed
  have unmap: "delivers (vm_ok K) (sys_page_unmap k a va)" for a va
  proof -
    have "vm_ok K (k\<lparr>mem := m\<rparr>)"
      if "page_remove cur (mem k) d va = Inr m" "env_pgdir (envs k i) = Some d" "\<not> bad_va va" for cur d i m
      by (rule page_unmap_ok[OF vm that(2) good_va_user[OF that(3)] that(1)])
    then show ?thesis unfolding sys_page_unmap_def by (auto intro!: delivers_chain simp: vm deref_Inr)
  qed
  have "n = SYS_page_map \<Longrightarrow> flags_ok a5" using guard by simp
  then show ?thesis
    unfolding syscall_def Let_def
    by (intro delivers_if delivers_bindc cputs destroy exofork_ok[OF vm] status upcall alloc map unmap recv_ok[OF vm]
        try_send_ok[OF vm room] prio vm_ok_priority)
       (simp_all add: vm sys_getenvid_def sys_cgetc_def sys_yield_def sched_yield_ok delivers_chain)
qed

section \<open>What the account gives\<close>

text \<open>An account without slack: the pages that may be unreferenced are those that are.\<close>

lemma counted_exact:
  "counted s D x K L ps \<Longrightarrow> counted s D x K {p. p < npages s \<and> pp_ref s p = 0 \<and> p \<notin> set ps} ps"
  by (auto simp: counted_def)

text \<open>No environment maps a page that is free, that is a table or a directory of anyone, or that the
  kernel keeps for itself.\<close>

definition user_maps_safe :: "(nat \<rightharpoonup> nat \<Rightarrow> u32) \<Rightarrow> kst \<Rightarrow> bool" where
  "user_maps_safe K k \<longleftrightarrow> (\<forall>e d va pa. env_pgdir (envs k e) = Some d \<and> va < UTOP
     \<and> check_va2pa (mem k) d va = Inr pa \<and> pa \<noteq> NOT 0 \<longrightarrow>
       frame_of pa < npages (mem k) \<and> pp_ref (mem k) (frame_of pa) \<noteq> 0 \<and> K (frame_of pa) = None
       \<and> frame_of pa \<notin> dirs k \<and> pde_refs (mem k) (dirs k) (frame_of pa) = {}
       \<and> (\<forall>ps. linked (pp_link (mem k)) (page_free_list (mem k)) ps \<longrightarrow> frame_of pa \<notin> set ps))"

lemma vm_ok_safe:
  assumes vm: "vm_ok K k"
  shows "user_maps_safe K k"
  unfolding user_maps_safe_def
proof (intro allI impI, elim conjE)
  fix e d va pa
  assume d: "env_pgdir (envs k e) = Some d" and va: "va < UTOP"
    and r: "check_va2pa (mem k) d va = Inr pa" and pa: "pa \<noteq> NOT 0"
  let ?d = "unat (PDX va)" and ?t = "unat (PTX va)" and ?m = "mem k" and ?D = "dirs k"
  from vm obtain L ps where c: "counted ?m ?D (held k) K L ps" by (rule vm_okE)
  note dD = dirsI[OF d] and u = user_pdx[OF va] and sh = countedD(1)[OF c]
  have nz: "pde_at ?m d ?d \<noteq> 0" using r pa check_va2pa_none by auto
  note h = shapeD[OF sh dD u nz]
  have "pa = reads_as (pte_at ?m d ?d ?t)" using r check_va2pa_table[OF h(1)] by simp
  with pa have e: "pte_at ?m d ?d ?t \<noteq> 0" "pa = PTE_ADDR (pte_at ?m d ?d ?t)"
    by (auto simp: reads_as_def split: if_splits)
  then have f: "frame_of pa = frame_of (pte_at ?m d ?d ?t)" by (simp add: frame_of_def)
  have df: "data_frame ?m ?D (frame_of pa)" using h(5)[OF PTX_less e(1)] by (simp add: f)
  have ref: "pte_refs ?m ?D (frame_of pa) \<noteq> {}" using dD u nz e(1) PTX_less[of va] by (auto simp: f pte_refs_def)
  then have nf: "frame_of pa \<notin> set ps" using free_unreferenced(2)[OF c] by blast
  have "pp_ref ?m (frame_of pa) \<noteq> 0"
    using unreferenced(2)[OF c] df ref by (auto simp: data_frame_def)
  moreover have "K (frame_of pa) = None" using not_kept[OF c] ref by blast
  moreover have "\<forall>qs. linked (pp_link ?m) (page_free_list ?m) qs \<longrightarrow> frame_of pa \<notin> set qs"
    using linked_unique nf countedD(2)[OF c] unfolding page_repr_def by blast
  ultimately show "frame_of pa < npages ?m \<and> pp_ref ?m (frame_of pa) \<noteq> 0 \<and> K (frame_of pa) = None
     \<and> frame_of pa \<notin> ?D \<and> pde_refs ?m ?D (frame_of pa) = {}
     \<and> (\<forall>ps. linked (pp_link ?m) (page_free_list ?m) ps \<longrightarrow> frame_of pa \<notin> set ps)"
    using df by (simp add: data_frame_def)
qed

text \<open>C2: Every system call keeps the account of the pages: the count of each page is the number of
  its references from page tables and environments, the free list holds only pages without any, and
  hence afterwards no address of any environment below \<^verbatim>\<open>UTOP\<close> reaches a free page, a page table, a
  page directory or a frame the kernel keeps. Two things have to be assumed: no page has reached the
  65535 references that its 16-bit count holds, and \<^verbatim>\<open>sys_page_map\<close> is not given address bits as
  permissions, which it does not check.\<close>

theorem syscall_keeps_account:
  assumes "vm_ok K k" and "refs_below 65535 k" and "n = SYS_page_map \<longrightarrow> drop_bit 12 a5 = 0"
    and "syscall getc k n a1 a2 a3 a4 a5 = Inr (c, k')"
  shows "vm_ok K k' \<and> user_maps_safe K k'"
proof -
  have "delivers (vm_ok K) (syscall getc k n a1 a2 a3 a4 a5)"
    by (rule syscall_ok[OF assms(1,2)]) (use assms(3) in \<open>simp add: flags_ok_def\<close>)
  then have "vm_ok K k'" using assms(4) by (simp add: delivers_def)
  with vm_ok_safe show ?thesis by blast
qed

text \<open>C9: Freeing an environment never faults and gives back all it owned: every page that was in use and
  to which no other address space refers is on the free list afterwards, the environment's page
  tables and directory included, and every other address space translates every address as before.\<close>

theorem env_free_gives_back:
  assumes "vm_ok K k" and "env_pgdir (envs k e) = Some d"
  shows "\<exists>k' ps'. env_free k e = Inr k' \<and> vm_ok K k' \<and> dirs k' = dirs k - {d}
    \<and> linked (pp_link (mem k')) (page_free_list (mem k')) ps'
    \<and> (\<forall>p<npages (mem k). pp_ref (mem k) p \<noteq> 0 \<and> p \<notin> dirs k - {d} \<and> refs (mem k) (dirs k - {d}) p = 0
         \<longrightarrow> p \<in> set ps')
    \<and> (\<forall>dir\<in>dirs k - {d}. \<forall>va<UTOP. check_va2pa (mem k') dir va = check_va2pa (mem k) dir va)"
proof -
  let ?D = "dirs k - {d}"
  from assms(1) obtain L ps where "counted (mem k) (dirs k) (held k) K L ps" by (rule vm_okE)
  then obtain L where c: "counted (mem k) (dirs k) (held k) K L ps" and L: "\<And>p. p \<in> L \<Longrightarrow> pp_ref (mem k) p = 0"
    using counted_exact by blast
  from env_free_account[OF assms(1) c assms(2)] obtain k' ps' where k': "env_free k e = Inr k'" "vm_ok K k'"
    "counted (mem k') ?D (held k') K L ps'" "\<forall>dir\<in>?D. same_space (mem k) (mem k') dir"
    "npages (mem k') = npages (mem k)" "dirs k' = ?D" by blast
  have np: "npages (mem k') = npages (mem k)" by (rule k'(5))
  have refs: "refs (mem k') ?D = refs (mem k) ?D" by (rule same_space_refs[OF k'(4)])
  have "p \<in> set ps'" if p: "p < npages (mem k)" "pp_ref (mem k) p \<noteq> 0" "p \<notin> ?D" "refs (mem k) ?D p = 0" for p
  proof -
    have "held k' p = 0" using p(3) k'(6) by (simp add: held_def)
    then have "pp_ref (mem k') p = 0" using countedD(4)[OF k'(3), of p] p(1,4) np refs by (simp add: unat_eq_zero)
    then show ?thesis using countedD(6)[OF k'(3), of p] L[of p] p(1,2) np by auto
  qed
  moreover have "check_va2pa (mem k') dir va = check_va2pa (mem k) dir va" if "dir \<in> ?D" "va < UTOP" for dir va
    using same_space_reads[OF _ countedD(1)[OF c] _ np that(2), of dir] k'(4) that(1) by blast
  moreover have "linked (pp_link (mem k')) (page_free_list (mem k')) ps'"
    using countedD(2)[OF k'(3)] by (simp add: page_repr_def)
  ultimately show ?thesis using k'(1,2,6) by blast
qed

section \<open>Isolation of address spaces\<close>

text \<open>C10: Mapping a page in one address space keeps the account and leaves every other address space
  alone: each address below \<^verbatim>\<open>UTOP\<close> translates there as before, and the frames that the kernel keeps
  are not written. The page must be one that is in use or has just been allocated, not a page table,
  with room in its count.\<close>

theorem page_insert_isolates:
  assumes "counted s D x K L ps" and "dir \<in> D" and "va < UTOP" and "drop_bit 12 perm = 0"
    and "data_frame s D pp" and "pp \<notin> set ps" and "unat (pp_ref s pp) < 65535" and "K pp = None"
  shows "\<exists>s' r ps'. page_insert cur s dir pp va perm = Inr (s', r) \<and> counted s' D x K L ps'
    \<and> (\<forall>dir'\<in>D - {dir}. \<forall>va'<UTOP. check_va2pa s' dir' va' = check_va2pa s dir' va')
    \<and> (\<forall>p c. K p = Some c \<longrightarrow> phys s' p = phys s p)"
proof -
  have kept: "\<forall>p c. K p = Some c \<longrightarrow> phys s' p = phys s p" if "counted s' D x K L' ps'" for s' L' ps'
    using countedD(9)[OF that] countedD(9)[OF assms(1)] by (auto simp: kept_def)
  have perm: "flags_ok perm" using assms(4) by (simp add: flags_ok_def)
  from insert_counted[OF assms(1-3,5-8) perm, of cur] show ?thesis
  proof (elim disjE exE conjE)
    fix s' ps'
    assume i: "page_insert cur s dir pp va perm = Inr (s', 0)" "counted s' D x K (L - {pp}) ps'"
      "npages s' = npages s" "\<forall>dir'\<in>D - {dir}. same_space s s' dir'"
    have "check_va2pa s' dir' va' = check_va2pa s dir' va'" if "dir' \<in> D - {dir}" "va' < UTOP" for dir' va'
      using same_space_reads[OF _ countedD(1)[OF assms(1)] _ i(3) that(2), of dir'] i(4) that(1) by blast
    moreover have "counted s' D x K L ps'" using i(2) by (auto simp: counted_def)
    ultimately show ?thesis using i(1) kept by blast
  next
    assume "page_insert cur s dir pp va perm = Inr (s, - E_NO_MEM)"
    with assms(1) show ?thesis by blast
  qed
qed

text \<open>The example kernel: two environments with the directories 1 and 2, the kernel's directory in frame
  3, and two free pages.\<close>

lemma demo_vm: 
  "counted (mem demo_kst) (dirs demo_kst) (held demo_kst) [3 \<mapsto> (\<lambda>_. 0)] {0, 3, 6, 7} [4, 5]"
  "dirs demo_kst = {1, 2}" "vm_ok [3 \<mapsto> (\<lambda>_. 0)] demo_kst"
proof -
  have pg: "env_pgdir (envs demo_kst e) = (if e = 0 then Some 1 else if e = 2 then Some 2 else None)" for e
    by (simp add: demo_kst_def demo_envs_def zero_env_def)
  show d: "dirs demo_kst = {1, 2}"
  proof (intro equalityI subsetI)
    fix x assume "x \<in> dirs demo_kst"
    then obtain e where "env_pgdir (envs demo_kst e) = Some x" by (auto simp: dirs_def)
    then show "x \<in> {1, 2}" by (simp add: pg split: if_splits)
  next
    fix x :: nat assume "x \<in> {1, 2}"
    then show "x \<in> dirs demo_kst" using dirsI[of demo_kst 0 x] dirsI[of demo_kst 2 x] by (auto simp: pg)
  qed
  have z: "pde_at (mem demo_kst) dir i = 0" for dir i by (simp add: pde_at_def demo_kst_def)
  then have r: "pde_refs (mem demo_kst) D p = {}" "pte_refs (mem demo_kst) D p = {}" for D p
    by (simp_all add: pde_refs_def pte_refs_def)
  have "shape (mem demo_kst) {1, 2}" by (simp add: shape_def z) (simp add: demo_kst_def)
  moreover have "page_repr (mem demo_kst) [4, 5]" by (simp add: page_repr_def demo_kst_def)
  moreover have "kept (mem demo_kst) [3 \<mapsto> (\<lambda>_. 0)] [4, 5]" by (auto simp: kept_def demo_kst_def split: if_splits)
  moreover have ref: "unat (pp_ref (mem demo_kst) p) = held demo_kst p" for p
    unfolding held_def d by (simp add: demo_kst_def)
  moreover have link: "pp_link (mem demo_kst) p = None" if "p \<notin> set [4, 5]" for p using that by (simp add: demo_kst_def)
  moreover have L: "p \<in> set [4, 5] \<union> {0, 3, 6, 7}" if "p < npages (mem demo_kst)" "pp_ref (mem demo_kst) p = 0" for p
  proof -
    have "p < 8" "p \<noteq> 1" "p \<noteq> 2" using that by (auto simp: demo_kst_def split: if_splits)
    then show ?thesis by simp arith
  qed
  ultimately show c: "counted (mem demo_kst) (dirs demo_kst) (held demo_kst) [3 \<mapsto> (\<lambda>_. 0)] {0, 3, 6, 7} [4, 5]"
    unfolding counted_def d refs_def r by (auto simp: held_def d)
  have "free_envs demo_kst [1]" by (simp add: free_envs_def demo_kst_def demo_envs_def zero_env_def)
  moreover have "env_ipc_dstva (envs demo_kst e) < UTOP" for e
    by (simp add: demo_kst_def demo_envs_def zero_env_def memlayout_defs mmu_consts)
  moreover have "kern_pgdir demo_kst = 3" by (simp add: demo_kst_def)
  ultimately show "vm_ok [3 \<mapsto> (\<lambda>_. 0)] demo_kst"
    using c unfolding vm_ok_def pg by (auto split: if_splits)
qed

lemma page_insert_isolates_witness:
  "\<exists>s' r. page_insert None (mem demo_kst) 1 6 0x800000 PTE_U = Inr (s', r)
     \<and> (\<forall>va<UTOP. check_va2pa s' 2 va = check_va2pa (mem demo_kst) 2 va) \<and> phys s' 3 = phys (mem demo_kst) 3"
proof -
  have "(0x800000 :: u32) < UTOP" "drop_bit 12 PTE_U = 0" by (simp_all add: memlayout_defs mmu_consts pte_bits)
  moreover have "data_frame (mem demo_kst) (dirs demo_kst) 6"
    by (rule unreferenced(5)[OF demo_vm(1)]) (simp_all add: demo_kst_def)
  moreover have "unat (pp_ref (mem demo_kst) 6) < 65535" by (simp add: demo_kst_def)
  ultimately show ?thesis
    using page_insert_isolates[OF demo_vm(1), of 1 "0x800000" PTE_U 6 None] demo_vm(2) by auto
qed

text \<open>Environment 0 allocates a page for itself.\<close>

lemma syscall_keeps_account_witness:
  "\<exists>k'. syscall 0 (demo_kst\<lparr>cpu_env := (\<lambda>_. Some 0)\<rparr>) SYS_page_alloc 0 0x800000 7 0 0 = Inr (Return 0, k')
     \<and> vm_ok [3 \<mapsto> (\<lambda>_. 0)] k'"
proof -
  let ?k = "demo_kst\<lparr>cpu_env := (\<lambda>_. Some 0)\<rparr>"
  have vm: "vm_ok [3 \<mapsto> (\<lambda>_. 0)] ?k" by (rule same_vm_ok[OF _ demo_vm(3)]) (simp add: same_vm_def)
  have "refs_below 65535 ?k" by (simp add: refs_below_def demo_kst_def)
  moreover have "\<exists>k'. syscall 0 ?k SYS_page_alloc 0 0x800000 7 0 0 = Inr (Return 0, k')"
  proof -
    have sel: "mem ?k = mem demo_kst" "curenv ?k = Some 0" "env_pgdir (envs ?k 0) = Some 1"
      by (simp_all add: curenv_def demo_kst_def demo_envs_def)
    obtain m where m: "page_alloc (mem demo_kst) True = Inr (Some 4, m)"
      "counted m (dirs demo_kst) (held demo_kst) [3 \<mapsto> (\<lambda>_. 0)] (insert 4 {0, 3, 6, 7}) [5]"
      "npages m = npages (mem demo_kst)" "pp_ref m = pp_ref (mem demo_kst)"
      using alloc_counted[OF demo_vm(1), of True] by blast
    have lt: "4 < npages m" "pp_ref m 4 = 0" using m(3,4) by (simp_all add: demo_kst_def)
    have df: "data_frame m (dirs demo_kst) 4" by (rule unreferenced(5)[OF m(2) lt])
    have va: "(0x800000 :: u32) < UTOP" "\<not> bad_va 0x800000"
      by (simp_all add: memlayout_defs mmu_consts bad_va_def)
    have p: "flags_ok (7 OR PTE_U OR PTE_P)" "\<not> check_perm (7 OR PTE_U OR PTE_P) None < 0"
      by (simp_all add: flags_ok_def check_perm_def pte_bits PTE_SYSCALL_def)
    have "1 \<in> dirs demo_kst" using demo_vm(2) by simp
    then obtain s' where "page_insert (cur_pgdir ?k) m 1 4 0x800000 (7 OR PTE_U OR PTE_P) = Inr (s', 0)"
      using insert_counted[OF m(2) _ va(1) df _ _ _ p(1), of 1 "cur_pgdir ?k"] lt(2) by auto
    then show ?thesis
      using m(1) p(2) va(2) sel
      by (simp add: syscall_def sys_numbers sys_page_alloc_def envid2env_def env_page_alloc_def insert_page_def Let_def)
  qed
  ultimately show ?thesis using syscall_keeps_account[OF vm] by (force simp: sys_numbers)
qed

lemma env_free_gives_back_witness:
  "\<exists>k' ps. env_free demo_kst 2 = Inr k' \<and> dirs k' = {1} \<and> linked (pp_link (mem k')) (page_free_list (mem k')) ps \<and> 2 \<in> set ps"
proof -
  have d: "env_pgdir (envs demo_kst 2) = Some 2" by (simp add: demo_kst_def demo_envs_def)
  have "pde_at (mem demo_kst) dir i = 0" for dir i by (simp add: pde_at_def demo_kst_def)
  then have "pde_refs (mem demo_kst) {1} 2 = {}" "pte_refs (mem demo_kst) {1} 2 = {}"
    by (simp_all add: pde_refs_def pte_refs_def)
  then have "refs (mem demo_kst) {1} 2 = 0" by (simp add: refs_def)
  moreover have "pp_ref (mem demo_kst) 2 \<noteq> 0" "2 < npages (mem demo_kst)" by (simp_all add: demo_kst_def)
  moreover have "dirs demo_kst - {2} = {1}" using demo_vm(2) by auto
  ultimately show ?thesis using env_free_gives_back[OF demo_vm(3) d] by fastforce
qed

end
