(* ===== verification/SyscallProps.thy ===== *)
theory SyscallProps
  imports Trap PmapProps SchedProps
begin

unbundle bit_operations_syntax

text \<open>
  Properties of environments, system calls and page faults: identifiers are fresh and checked,
  messages arrive, and the gaps in the checks (permission bits of a mapping, the receiving flag
  of a refused receive, the page that is not there in a send, the page lost by a failed
  allocation, the exception stack that overflows).
\<close>

section \<open>Identifiers\<close>

lemma nenv_mask: "(word_of_nat NENV - 1 :: u32) = mask 10"
  by (simp add: NENV_def mask_eq_exp_minus_1)

lemma mask_clear_unat: "unat ((x :: u32) AND NOT (mask 10)) = unat x div 1024 * 1024"
proof -
  have "unat x div 1024 * 1024 < 4294967296"
    using unat_u32_less[of x] by (meson div_times_less_eq_dividend le_less_trans)
  moreover have "x AND NOT (mask 10) = push_bit 10 (drop_bit 10 x)"
    by (auto intro!: bit_word_eqI simp: bit_simps)
  ultimately show ?thesis by (simp add: push_bit_eq_mult drop_bit_eq_div unat_word_ariths unat_div)
qed

lemma sint_unat32: "sint (w :: u32) = (if unat w < 2 ^ 31 then int (unat w) else int (unat w) - 2 ^ 32)"
proof -
  define u where "u = unat w"
  have u: "u < 4294967296" using unat_u32_less[of w] by (simp add: u_def)
  have b: "bit u 31 \<longleftrightarrow> \<not> u < 2147483648"
  proof -
    have "u div 2147483648 = (if u < 2147483648 then 0 else 1)" using u by auto
    then show ?thesis by (simp add: bit_iff_odd)
  qed
  have "sint w = int u - 2 ^ 32 * of_bool (bit u 31)"
    using u unfolding sint_uint uint_nat u_def[symmetric] signed_take_bit_eq_take_bit_minus
    by (simp add: take_bit_int_eq_self bit_of_nat_iff_bit)
  then show ?thesis unfolding b u_def[symmetric] by simp
qed

lemma or_low:
  assumes "unat (g :: u32) mod 1024 = 0" and "i < 1024"
  shows "unat (g OR word_of_nat i) = unat g + i" and "(g OR word_of_nat i) AND mask 10 = word_of_nat i"
    and "(g OR word_of_nat i) AND NOT (mask 10) = g"
proof -
  let ?w = "word_of_nat i :: u32"
  have ui: "unat ?w = i" using assms(2) by (simp add: unat_of_nat)
  have tg: "take_bit 10 g = 0" by (simp add: word_unat_eq_iff take_bit_eq_mod unat_mod assms(1))
  have tw: "take_bit 10 ?w = ?w" using assms(2) by (simp add: word_unat_eq_iff take_bit_eq_mod unat_mod ui)
  have hi: "\<not> bit g n" if "n < 10" for n
    using arg_cong[OF tg, of "\<lambda>x. bit x n"] that by (simp add: bit_simps)
  have lo: "\<not> bit ?w n" if "\<not> n < 10" for n
    using arg_cong[OF tw, of "\<lambda>x. bit x n"] that by (simp add: bit_take_bit_iff)
  have z: "g AND ?w = 0"
    by (rule bit_word_eqI) (use hi lo in \<open>auto simp: bit_and_iff\<close>)
  have "g OR ?w = g + ?w" using z by (simp add: disjunctive_add_eq_or)
  moreover have "unat g + i < 4294967296"
  proof -
    obtain c where c: "unat g = 1024 * c" using assms(1) by auto
    with unat_u32_less[of g] have "c < 4194304" by simp
    with c assms(2) show ?thesis by simp
  qed
  ultimately show "unat (g OR ?w) = unat g + i" by (simp add: unat_word_ariths ui)
  show "(g OR ?w) AND mask 10 = ?w"
    by (rule bit_word_eqI) (use hi lo in \<open>auto simp: bit_simps\<close>)
  show "(g OR ?w) AND NOT (mask 10) = g"
    by (rule bit_word_eqI) (use hi lo in \<open>auto simp: bit_simps\<close>)
qed

text \<open>The identifier made for slot \<open>i\<close>: positive, with index \<open>i\<close>, and not the one of before.\<close>

lemma next_env_id_props:
  assumes "i < 1024"
  shows "ENVX (next_env_id old i) = i" and "0 < sint (next_env_id old i)" and "next_env_id old i \<noteq> old"
proof -
  define g0 where "g0 = (old + 4096) AND NOT (mask 10)"
  define g where "g = (if sint g0 \<le> 0 then 4096 else g0)"
  have n: "next_env_id old i = g OR word_of_nat i"
    by (simp add: next_env_id_def nenv_mask ENVGENSHIFT_def g_def g0_def Let_def push_bit_eq_mult)
  have ug0: "unat g0 = (unat old + 4096) mod 4294967296 div 1024 * 1024"
    by (simp add: g0_def mask_clear_unat unat_word_ariths)
  have m: "unat g mod 1024 = 0" by (auto simp: g_def ug0)
  have p: "unat g < 2 ^ 31" "0 < unat g"
  proof -
    have "unat g0 < 2 ^ 31 \<and> 0 < unat g0" if "\<not> sint g0 \<le> 0"
    proof -
      define u where "u = unat g0"
      have "u < 4294967296" using unat_u32_less[of g0] by (simp add: u_def)
      moreover have "\<not> (if u < 2 ^ 31 then int u else int u - 2 ^ 32) \<le> 0"
        using that unfolding sint_unat32 u_def[symmetric] .
      ultimately have "u < 4294967296" "\<not> (if u < 2 ^ 31 then int u else int u - 2 ^ 32) \<le> 0" .
      then show ?thesis unfolding u_def[symmetric] by (auto split: if_splits)
    qed
    then show "unat g < 2 ^ 31" "0 < unat g" by (auto simp: g_def)
  qed
  note o = or_low[OF m assms]
  have ui: "unat (word_of_nat i :: u32) = i" using assms by (simp add: unat_of_nat)
  show "ENVX (next_env_id old i) = i" unfolding n ENVX_def nenv_mask o(2) by (rule ui)
  have "unat g + i < 2 ^ 31"
  proof -
    obtain c where c: "unat g = 1024 * c" using m by auto
    with p have "c < 2097152" by simp
    with c assms show ?thesis by simp
  qed
  then have "sint (next_env_id old i) = int (unat g + i)" unfolding n sint_unat32 o(1) by (rule if_P)
  then show "0 < sint (next_env_id old i)" using p by (simp only: of_nat_0_less_iff trans_less_add1)
  show "next_env_id old i \<noteq> old"
  proof
    assume "next_env_id old i = old"
    then have "old AND NOT (mask 10) = g" using o(3) n by simp
    then have e: "unat old div 1024 * 1024 = unat g" using mask_clear_unat[of old] by simp
    define q where "q = unat old div 1024"
    define r where "r = unat old mod 1024"
    have q: "unat old = q * 1024 + r" "r < 1024" by (simp_all add: q_def r_def)
    have q4: "q < 4194304" using unat_u32_less[of old] q by simp
    have g0: "unat g0 = (if q + 4 < 4194304 then (q + 4) * 1024 else (q + 4 - 4194304) * 1024)"
    proof (cases "q + 4 < 4194304")
      case True
      then have "(unat old + 4096) mod 4294967296 = (q + 4) * 1024 + r" using q by simp
      moreover have "((q + 4) * 1024 + r) div 1024 = q + 4"
        by (rule div_nat_eqI) (use q(2) in simp_all)
      ultimately show ?thesis unfolding ug0 using True by simp
    next
      case False
      define t where "t = q - 4194300"
      with False have t: "q = 4194300 + t" "t < 4" using q4 by simp_all
      have "(unat old + 4096) mod 4294967296 = t * 1024 + r" using q t by simp
      moreover have "(t * 1024 + r) div 1024 = t"
        by (rule div_nat_eqI) (use q(2) in simp_all)
      ultimately show ?thesis unfolding ug0 using False t by simp
    qed
    show False
    proof (cases "sint g0 \<le> 0")
      case True
      with e have "q = 4" by (simp add: g_def q_def)
      then have "unat g0 = 8192" by (simp add: g0)
      with True show False by (simp add: sint_unat32)
    next
      case False
      with e have "q * 1024 = unat g0" by (simp add: g_def q_def)
      then show False using q4 by (auto simp: g0 split: if_splits)
    qed
  qed
qed

text \<open>C28: \<^verbatim>\<open>env_alloc\<close> takes the head of the free list and gives it a positive identifier that
  carries its index and differs from the one the slot had, so the old identifier is stale: looking
  the new one up finds the environment, looking the old one up fails. The new environment is
  runnable with \<^verbatim>\<open>TICKET_STEP\<close> tickets, no page fault handler and interrupts on.\<close>

theorem env_alloc_fresh:
  assumes "env_free_list k = Some e" and "e < NENV" and "env_alloc k parent = Inr (r, new, k')" and "r = 0"
  shows "new = Some e \<and> ENVX (env_id (envs k' e)) = e \<and> 0 < sint (env_id (envs k' e))
     \<and> envid2env k' (env_id (envs k' e)) False = Inr (0, Some e)
     \<and> (env_id (envs k e) \<noteq> 0 \<longrightarrow> ENVX (env_id (envs k e)) = e \<longrightarrow>
          envid2env k' (env_id (envs k e)) False = Inr (- E_BAD_ENV, None))
     \<and> env_status (envs k' e) = ENV_RUNNABLE \<and> env_tickets (envs k' e) = TICKET_STEP
     \<and> env_parent_id (envs k' e) = parent \<and> env_pgfault_upcall (envs k' e) = 0
     \<and> tf_eflags (env_tf (envs k' e)) = FL_IF \<and> env_free_list k' = env_link (envs k e)"
proof -
  from assms obtain k1 r1 where s: "env_setup_vm k e = Inr (r1, k1)" and r1: "\<not> r1 < 0"
    and new: "new = Some e"
    and k': "k' = (upd_env k1 e (fresh_env parent e))\<lparr>env_free_list := env_link (envs (upd_env k1 e (fresh_env parent e)) e)\<rparr>"
    by (auto simp: env_alloc_def chain_eq_Inr Let_def split: if_splits)
  have keep: "env_id (envs k1 e) = env_id (envs k e)" "env_link (envs k1 e) = env_link (envs k e)"
    using s by (auto simp: env_setup_vm_def chain_eq_Inr upd_env_def Let_def split: option.splits)
  let ?v = "fresh_env parent e (envs k1 e)"
  have v: "envs k' e = ?v" "env_free_list k' = env_link (envs k e)"
    using keep(2) by (simp_all add: k' upd_env_def fresh_env_def)
  have id: "env_id ?v = next_env_id (env_id (envs k e)) e" by (simp add: fresh_env_def keep)
  have e: "e < 1024" using assms(2) by (simp add: NENV_def)
  note p = next_env_id_props[OF e, of "env_id (envs k e)"]
  have nz: "next_env_id (env_id (envs k e)) e \<noteq> 0" using p(2) by auto
  show ?thesis using new p nz
    by (simp add: v id envid2env_def Let_def) (simp add: fresh_env_def)
qed

lemma env_alloc_fresh_witness:
  "\<exists>k'. env_alloc demo_kst 4096 = Inr (0, Some 1, k') \<and> envid2env k' (env_id (envs k' 1)) False = Inr (0, Some 1)"
proof -
  have "kframe s (page2pa 4) = Inr 4" if "npages s = 8" for s by (rule kframe_page2pa) (simp_all add: that)
  then have "\<exists>k1. env_setup_vm demo_kst 1 = Inr (0, k1)"
    by (simp add: env_setup_vm_def page_alloc_def demo_kst_def zero_page_def Let_def)
  then obtain k' where k': "env_alloc demo_kst 4096 = Inr (0, Some 1, k')"
    by (auto simp: env_alloc_def Let_def demo_kst_def)
  have f: "env_free_list demo_kst = Some 1" "1 < NENV" by (simp_all add: demo_kst_def NENV_def)
  from env_alloc_fresh[OF f k' refl] k' show ?thesis by blast
qed

text \<open>C27: A lookup that succeeds for an identifier other than 0 names an environment that exists under exactly that
  identifier; with the permission check it is the caller itself or a child of the caller. For 0 it is the
  current environment, whatever its identifier.\<close>

theorem envid2env_sound:
  assumes "envid2env k envid checkperm = Inr (0, Some e)"
  shows "if envid = 0 then curenv k = Some e
     else env_id (envs k e) = envid \<and> env_status (envs k e) \<noteq> ENV_FREE \<and> e = ENVX envid
       \<and> (checkperm \<longrightarrow> curenv k = Some e \<or> (\<exists>c. curenv k = Some c \<and> env_parent_id (envs k e) = env_id (envs k c)))"
  using assms
  by (auto simp: envid2env_def Let_def chain_eq_Inr deref_Inr error_defs split: if_splits)

lemma envid2env_sound_witness:
  "env_id (envs demo_kst 2) = 4098 \<and> env_status (envs demo_kst 2) \<noteq> ENV_FREE \<and> ENVX 4098 = 2"
proof -
  have "envid2env demo_kst 4098 False = Inr (0, Some 2)"
    by (simp add: envid2env_def ENVX_def NENV_def demo_kst_def demo_envs_def zero_env_def)
  from envid2env_sound[OF this] show ?thesis by simp
qed

section \<open>Mappings\<close>

text \<open>The kernel finds the page that an address of a well-formed space translates to.\<close>

lemma page_lookup_mapped:
  assumes ok: "pt_ok s pgdir ps" and va: "va < UTOP"
    and m: "check_va2pa s pgdir va = Inr pa" and ne: "pa \<noteq> NOT 0"
  shows "\<exists>q. page_lookup s pgdir va = Inr (Some (frame_of (read_pte s q), q)) \<and> PTE_ADDR (read_pte s q) = pa"
proof -
  let ?d = "unat (PDX va)" and ?t = "unat (PTX va)"
  note u = user_pdx[OF va]
  have nz: "pde_at s pgdir ?d \<noteq> 0" using m ne check_va2pa_none[of s pgdir va] by auto
  note t = pt_okD[OF ok u nz]
  have r: "reads_as (pte_at s pgdir ?d ?t) = pa" using check_va2pa_table[OF t(1)] m by simp
  then have pnz: "pte_at s pgdir ?d ?t \<noteq> 0" and pa: "PTE_ADDR (pte_at s pgdir ?d ?t) = pa"
    using ne by (auto simp: reads_as_def split: if_splits)
  have "frame_of (pte_at s pgdir ?d ?t) < npages s" using t(6)[OF PTX_less pnz] by simp
  then have "page_lookup s pgdir va =
      Inr (Some (frame_of (pte_at s pgdir ?d ?t), (frame_of (pde_at s pgdir ?d), ?t)))"
    using pnz pte_bits(1)
    by (simp add: page_lookup_def walk_mapped[OF nz t(3)] read_pte_def pte_at_def pa2page_def frame_of_def)
  then show ?thesis using pa by (auto simp: read_pte_def pte_at_def)
qed

lemma bad_va_user: "\<not> bad_va va \<Longrightarrow> va < UTOP"
  by (simp add: bad_va_def not_le)


text \<open>A failed \<^verbatim>\<open>sys_page_alloc\<close> loses a page: when the page table is missing and one page
  is free, that page is taken for the data, the table cannot be allocated, and the call answers
  \<^verbatim>\<open>-E_NO_MEM\<close> without giving the page back: the free list is empty and nothing refers to it.\<close>

theorem sys_page_alloc_leaks:
  assumes "pt_ok (mem k) d [p]" and "curenv k = Some c" and "env_pgdir (envs k c) = Some d"
    and "\<not> bad_va va" and "pde_at (mem k) d (unat (PDX va)) = 0" and "perm AND NOT PTE_SYSCALL = 0"
  shows "\<exists>k'. sys_page_alloc k 0 va perm = Inr (Return (- E_NO_MEM), k')
     \<and> page_free_list (mem k') = None \<and> pp_ref (mem k') p = 0
     \<and> (\<forall>x. x < UTOP \<longrightarrow> check_va2pa (mem k') d x = check_va2pa (mem k) d x)"
proof -
  have pr: "page_repr (mem k) [p]" and pd: "p \<noteq> d" and r: "pp_ref (mem k) p = 0"
    using assms(1) by (auto simp: pt_ok_def page_repr_def table_frame_def)
  note a = page_alloc_Cons[OF pr, of True]
  define s1 where "s1 = zero_page (mem k\<lparr>page_free_list := pp_link (mem k) p, pp_link := (pp_link (mem k))(p := None)\<rparr>) p"
  have s1: "page_alloc (mem k) True = Inr (Some p, s1)" "page_repr s1 []"
    using a by (simp_all add: s1_def)
  have ph: "phys s1 = (phys (mem k))(p := \<lambda>_. 0)" "pp_ref s1 = pp_ref (mem k)" "npages s1 = npages (mem k)"
    by (simp_all add: s1_def zero_page_def)
  then have pde: "pde_at s1 d i = pde_at (mem k) d i" for i using pd by (simp add: pde_at_def)
  have w: "pgdir_walk s1 d va True = Inr (s1, None)"
    using walk_create_full[OF _ s1(2)] pde assms(5) by simp
  have cp: "check_perm (perm OR PTE_U OR PTE_P) None = 0"
  proof -
    have z: "PTE_U AND NOT PTE_SYSCALL = 0" "PTE_P AND NOT PTE_SYSCALL = 0"
      by (simp_all add: pte_bits)
    have nz: "PTE_P AND PTE_P \<noteq> 0" "PTE_U AND PTE_U \<noteq> 0" by (simp_all add: pte_bits)
    show ?thesis using z nz assms(6)
      by (simp add: check_perm_def bit.conj_disj_distrib2 or_eq_0_iff)
  qed
  have "sys_page_alloc k 0 va perm = Inr (Return (- E_NO_MEM), k\<lparr>mem := s1\<rparr>)"
    using assms(2-4) s1(1) w cp
    by (simp add: sys_page_alloc_def envid2env_def env_page_alloc_def insert_page_def page_insert_def)
  moreover have "check_va2pa s1 d x = check_va2pa (mem k) d x" if "x < UTOP" for x
  proof -
    have "pde_at (mem k) d (unat (PDX x)) \<noteq> 0 \<Longrightarrow> frame_of (pde_at (mem k) d (unat (PDX x))) \<noteq> p"
      using pt_okD(4)[OF assms(1) user_pdx[OF that]] by auto
    then show ?thesis using pd
      by (cases "pde_at (mem k) d (unat (PDX x)) = 0")
         (simp_all add: check_va2pa_none pde check_va2pa_def read_pte_def ph kframe_eq frame_of_def pde_at_def Let_def)
  qed
  ultimately show ?thesis using s1(2) r ph by (auto simp: page_repr_def)
qed

text \<open>An environment whose only mapped page is frame 5 at \<open>0x800000\<close>, writable by nobody.\<close>

definition demo_user :: kst where
  "demo_user = demo_kst\<lparr>mem := demo_user_mem\<lparr>pp_ref := (\<lambda>_. 0)\<rparr>, cpu_env := (\<lambda>c. if c = 0 then Some 0 else None)\<rparr>"

lemma demo_user_sel [simp]:
  "mem demo_user = demo_user_mem\<lparr>pp_ref := (\<lambda>_. 0)\<rparr>" "curenv demo_user = Some 0"
  "env_pgdir (envs demo_user 0) = Some 1"
  by (simp_all add: demo_user_def demo_kst_def curenv_def demo_envs_def)

lemma demo_user_pt_ok: "pt_ok (demo_user_mem\<lparr>pp_ref := (\<lambda>_. 0)\<rparr>) 1 [2, 3]"
proof -
  define s where "s = demo_user_mem\<lparr>pp_ref := (\<lambda>_. 0)\<rparr>"
  have ph: "phys s f i = (if f = 1 \<and> i = 2 then 0x4007 else if f = 4 \<and> i = 0 then 0x5005 else 0)" for f i
    by (simp add: s_def demo_user_mem_def)
  have sel: "npages s = 8" "pp_link s 5 = None" by (simp_all add: s_def demo_user_mem_def demo_mem_def)
  have pde: "pde_at s 1 d = (if d = 2 then 0x4007 else 0)" for d by (simp add: pde_at_def ph)
  have f: "frame_of 0x4007 = 4" "frame_of 0x5005 = 5" by (simp_all add: frame_of_unat)
  have pte: "pte_at s 1 2 t = (if t = 0 then 0x5005 else 0)" for t
    by (simp only: pte_at_def pde refl if_True f ph) simp
  have P: "(0x4007 :: u32) AND PTE_P \<noteq> 0" "(0x4007 :: u32) AND PTE_PS = 0" "(0x5005 :: u32) AND PTE_P \<noteq> 0"
    by (simp_all add: pte_bits)
  have r: "page_repr s [2, 3]" by (simp add: page_repr_def s_def demo_user_mem_def demo_mem_def)
  have e: "d = 2" if "pde_at s 1 d \<noteq> 0" for d
    by (rule ccontr) (use pde[of d] that in simp)
  have t: "table_frame s 1 x \<Longrightarrow> x = 1 \<or> x = 4" for x
    unfolding table_frame_def using e pde[of 2] f(1) by auto
  have "pt_ok s 1 [2, 3]"
    unfolding pt_ok_def
  proof (intro conjI allI impI ballI)
    fix d t assume "d < UPDX" "t < 1024" "pde_at s 1 d \<noteq> 0 \<and> pte_at s 1 d t \<noteq> 0"
    then have "d = 2" "pte_at s 1 d t = 0x5005" using e[of d] pte[of t] by (auto split: if_splits)
    then show "frame_of (pte_at s 1 d t) < npages s" "pte_at s 1 d t AND PTE_P \<noteq> 0"
      "pp_link s (frame_of (pte_at s 1 d t)) = None" using f P sel by simp_all
  next
    fix x :: nat assume "x \<in> set [2, 3]"
    then show "\<not> table_frame s 1 x" using t[of x] by auto
  next
    fix d d' assume "pde_at s 1 d \<noteq> 0 \<and> pde_at s 1 d' \<noteq> 0 \<and> frame_of (pde_at s 1 d) = frame_of (pde_at s 1 d')"
    then show "d = d'" using e[of d] e[of d'] by simp
  next
    fix d assume "pde_at s 1 d \<noteq> 0"
    then have "pde_at s 1 d = 0x4007" using e[of d] pde[of 2] by simp
    then show "pde_ok s (pde_at s 1 d)" "frame_of (pde_at s 1 d) \<noteq> 1" using f P sel by (simp_all add: pde_ok_def)
  qed (simp_all add: r sel)
  then show ?thesis by (simp add: s_def)
qed

lemma demo_user_reads: "check_va2pa (mem demo_user) 1 0x800000 = Inr 0x5000"
  by (simp add: check_va2pa_def read_pte_def demo_user_mem_def demo_mem_def kframe_eq PDX_def PTX_def
      PGNUM_def PTE_ADDR_def mmu_consts pte_bits Let_def)

lemma user_addresses: "\<not> bad_va 0x800000" "\<not> bad_va 0x801000" "\<not> bad_va 0xC00000"
  by (simp_all add: bad_va_def memlayout_defs mmu_consts)


lemma sys_page_alloc_leaks_witness:
  "\<exists>k k'. sys_page_alloc k 0 0xC00000 0 = Inr (Return (- E_NO_MEM), k') \<and> page_free_list (mem k') = None
     \<and> pp_ref (mem k') 2 = 0"
proof -
  let ?m = "demo_mem\<lparr>pp_link := (\<lambda>_. None)\<rparr>"
  let ?k = "demo_user\<lparr>mem := ?m\<rparr>"
  have z: "pde_at ?m 1 d = 0" for d by (simp add: pde_at_def demo_mem_def)
  have "pt_ok (mem ?k) 1 [2]"
    unfolding pt_ok_def table_frame_def by (simp add: z[simplified] page_repr_def) (simp add: demo_mem_def)
  moreover have "curenv ?k = Some 0" "env_pgdir (envs ?k 0) = Some 1"
    by (simp_all add: demo_user_def demo_kst_def curenv_def demo_envs_def)
  ultimately show ?thesis
    using sys_page_alloc_leaks[of ?k 1 2 0 "0xC00000" 0] user_addresses(3) z by auto
qed

section \<open>Messages\<close>

text \<open>A send without a page to an environment blocked in a receive succeeds and sets exactly
  the documented fields of the target: sender, value, permission 0, no longer receiving,
  runnable, and the receive will return 0; no other environment changes. A target that is not
  receiving gets nothing and the sender gets \<^verbatim>\<open>-E_IPC_NOT_RECV\<close>.\<close>

theorem ipc_send_value:
  assumes "envid2env k envid False = Inr (0, Some e)" and "curenv k = Some c" and "UTOP \<le> srcva"
  shows "if env_ipc_recving (envs k e) then
      (\<exists>k'. sys_ipc_try_send k envid value srcva perm = Inr (Return 0, k')
        \<and> env_ipc_from (envs k' e) = env_id (envs k c) \<and> env_ipc_value (envs k' e) = value
        \<and> env_ipc_perm (envs k' e) = 0 \<and> \<not> env_ipc_recving (envs k' e)
        \<and> env_status (envs k' e) = ENV_RUNNABLE \<and> reg_eax (tf_regs (env_tf (envs k' e))) = 0
        \<and> tf_eip (env_tf (envs k' e)) = tf_eip (env_tf (envs k e))
        \<and> (\<forall>f. f \<noteq> e \<longrightarrow> envs k' f = envs k f) \<and> mem k' = mem k)
    else sys_ipc_try_send k envid value srcva perm = Inr (Return (- E_IPC_NOT_RECV), k)"
  using assms by (auto simp: sys_ipc_try_send_def ipc_deliver_def upd_env_def curenv_def)

text \<open>The example with environment 2 waiting for a message from environment 0.\<close>

lemma ipc_send_value_witness:
  "\<exists>k k'. sys_ipc_try_send k 4098 7 UTOP 0 = Inr (Return 0, k') \<and> env_ipc_value (envs k' 2) = 7
     \<and> env_ipc_from (envs k' 2) = 4096"
proof -
  let ?k = "upd_env demo_user 2 (\<lambda>v. v\<lparr>env_ipc_recving := True, env_status := ENV_NOT_RUNNABLE\<rparr>)"
  have "envid2env ?k 4098 False = Inr (0, Some 2)" "curenv ?k = Some 0"
    "env_ipc_recving (envs ?k 2)" "env_id (envs ?k 0) = 4096"
    by (simp_all add: envid2env_def ENVX_def NENV_def demo_user_def demo_kst_def demo_envs_def zero_env_def
        upd_env_def curenv_def)
  with ipc_send_value[of ?k 4098 2 0 UTOP 7 0] show ?thesis by auto
qed

text \<open>\<^verbatim>\<open>sys_ipc_recv\<close> sets \<^verbatim>\<open>env_ipc_recving\<close> before it checks the address. After a receive
  that was refused with \<^verbatim>\<open>-E_INVAL\<close> the environment keeps running, yet another one can send to it
  with success: the value is consumed and the saved \<^verbatim>\<open>eax\<close> of the target is overwritten with 0.\<close>

theorem refused_receive_still_receives:
  assumes "curenv k = Some c" and "UTOP \<le> dstva \<or> dstva mod PGSIZE \<noteq> 0"
    and "env_status (envs k c) \<noteq> ENV_FREE" and "ENVX (env_id (envs k c)) = c" and "env_id (envs k c) \<noteq> 0"
    and "cpu_env k d = Some s" and "s \<noteq> c" and "UTOP \<le> srcva"
  shows "\<exists>k1 k2. sys_ipc_recv k dstva = Inr (Return (- E_INVAL), k1)
     \<and> env_status (envs k1 c) = env_status (envs k c)
     \<and> sys_ipc_try_send (k1\<lparr>this_cpu := d\<rparr>) (env_id (envs k c)) value srcva perm = Inr (Return 0, k2)
     \<and> env_ipc_value (envs k2 c) = value \<and> reg_eax (tf_regs (env_tf (envs k2 c))) = 0"
proof -
  let ?k1 = "upd_env k c (\<lambda>v. v\<lparr>env_ipc_recving := True\<rparr>)"
  have r: "sys_ipc_recv k dstva = Inr (Return (- E_INVAL), ?k1)"
    using assms(1,2) by (auto simp: sys_ipc_recv_def Let_def)
  have c: "curenv (?k1\<lparr>this_cpu := d\<rparr>) = Some s" using assms(6) by (simp add: curenv_def upd_env_def)
  have "envid2env (?k1\<lparr>this_cpu := d\<rparr>) (env_id (envs k c)) False = Inr (0, Some c)"
    using assms(3-5) by (simp add: envid2env_def upd_env_def Let_def)
  from this c have "\<exists>k2. sys_ipc_try_send (?k1\<lparr>this_cpu := d\<rparr>) (env_id (envs k c)) value srcva perm = Inr (Return 0, k2)
     \<and> env_ipc_value (envs k2 c) = value \<and> reg_eax (tf_regs (env_tf (envs k2 c))) = 0"
    using assms(6,8) by (simp add: sys_ipc_try_send_def ipc_deliver_def upd_env_def curenv_def)
  then show ?thesis using r by (auto simp: upd_env_def)
qed

lemma refused_receive_still_receives_witness:
  "\<exists>k k1 k2. sys_ipc_recv k UTOP = Inr (Return (- E_INVAL), k1)
     \<and> sys_ipc_try_send (k1\<lparr>this_cpu := 1\<rparr>) 4096 9 UTOP 0 = Inr (Return 0, k2) \<and> env_ipc_value (envs k2 0) = 9"
proof -
  let ?k = "demo_user\<lparr>cpu_env := (\<lambda>c. if c = 0 then Some 0 else Some 2)\<rparr>"
  have "curenv ?k = Some 0" "env_status (envs ?k 0) \<noteq> ENV_FREE" "ENVX (env_id (envs ?k 0)) = 0"
    "env_id (envs ?k 0) = 4096" "cpu_env ?k 1 = Some 2"
    by (simp_all add: demo_user_def demo_kst_def demo_envs_def curenv_def ENVX_def NENV_def)
  with refused_receive_still_receives[of ?k 0 UTOP 1 2 UTOP 9 0] show ?thesis by auto
qed

text \<open>A send of a page that is not mapped follows a pointer that was never set:
  \<^verbatim>\<open>sys_ipc_try_send\<close> ignores that \<^verbatim>\<open>page_lookup\<close> found nothing, where its comment promises
  \<^verbatim>\<open>-E_INVAL\<close>.\<close>

theorem ipc_send_unmapped_uninit:
  assumes "envid2env k envid False = Inr (0, Some e)" and "env_ipc_recving (envs k e)"
    and "curenv k = Some c" and "env_pgdir (envs k c) = Some d"
    and "\<not> bad_va srcva" and "page_lookup (mem k) d srcva = Inr None"
  shows "sys_ipc_try_send k envid value srcva perm = Inl Uninit"
  using assms by (simp add: sys_ipc_try_send_def bad_va_def)

lemma ipc_send_unmapped_uninit_witness:
  "\<exists>k. sys_ipc_try_send k 4098 7 0xC00000 0 = Inl Uninit"
proof -
  let ?k = "upd_env demo_user 2 (\<lambda>v. v\<lparr>env_ipc_recving := True, env_status := ENV_NOT_RUNNABLE\<rparr>)"
  have "envid2env ?k 4098 False = Inr (0, Some 2)" "curenv ?k = Some 0"
    "env_ipc_recving (envs ?k 2)" "env_pgdir (envs ?k 0) = Some 1"
    by (simp_all add: envid2env_def ENVX_def NENV_def demo_user_def demo_kst_def demo_envs_def zero_env_def
        upd_env_def curenv_def)
  moreover have "page_lookup (mem ?k) 1 0xC00000 = Inr None"
    by (simp add: page_lookup_def pgdir_walk_def read_pte_def upd_env_def demo_user_mem_def PDX_def PDXSHIFT_def Let_def)
  ultimately show ?thesis using ipc_send_unmapped_uninit[of ?k 4098 2 0 1 "0xC00000" 7 0] user_addresses(3) by blast
qed

section \<open>Page faults\<close>

lemma store_bytes_panic: "store_bytes_at m d va bs = Inl e \<Longrightarrow> \<exists>msg. e = Panic msg"
  by (induction bs arbitrary: m va)
     (auto simp: chain_eq_Inl store_byte_def Let_def split: option.splits)

text \<open>C40: The comment of \<^verbatim>\<open>page_fault_handler\<close> says that an environment whose exception stack
  overflows is destroyed. The code writes the frame first and panics: when a handler faults with
  its stack pointer in the lowest 56 bytes of the exception page, the kernel itself stops, either
  on the write below the page or on the check that comes after it.\<close>

theorem exception_stack_overflow_panics:
  assumes "tf_cs tf AND 3 \<noteq> 0" and "curenv k = Some c" and "env_pgfault_upcall (envs k c) \<noteq> 0"
    and "user_mem_assert k c (UXSTACKTOP - PGSIZE) PGSIZE (PTE_U OR PTE_W) = Inr (Return (), k1)"
    and "UXSTACKTOP - PGSIZE \<le> tf_esp tf" and "tf_esp tf < UXSTACKTOP - PGSIZE + 56"
  shows "\<exists>msg. page_fault_handler cr2 tf k = Inl (Panic msg)"
proof -
  define esp where "esp = tf_esp tf"
  have lo: "unat (UXSTACKTOP - PGSIZE) = 4005556224" "unat (UXSTACKTOP - 1) = 4005560319"
    "unat (UXSTACKTOP - PGSIZE + 56) = 4005556280"
    by (simp_all add: memlayout_defs mmu_consts)
  have e: "4005556224 \<le> unat esp" "unat esp < 4005556280"
    using assms(5,6) by (simp_all add: word_le_nat_alt word_less_nat_alt lo esp_def)
  have f: "exstk_frame esp = (esp - 4 - 52, True)"
    using e by (simp add: exstk_frame_def Let_def word_less_nat_alt lo sizeof_UTrapframe_def)
  have "unat (esp - 4 - 52) = unat esp - 56"
  proof -
    have "unat (esp - 4) = unat esp - 4" using e by (subst unat_sub) (simp_all add: word_le_nat_alt)
    then show ?thesis using e by (subst unat_sub) (simp_all add: word_le_nat_alt)
  qed
  then have below: "esp - 4 - 52 < UXSTACKTOP - PGSIZE" using e by (simp add: word_less_nat_alt lo)
  let ?utf = "\<lparr>utf_fault_va = cr2, utf_err = tf_err tf, utf_regs = tf_regs tf,
     utf_eip = tf_eip tf, utf_eflags = tf_eflags tf, utf_esp = tf_esp tf\<rparr>"
  have "page_fault_handler cr2 tf k =
      chain (store_bytes_at (mem k1) (cr3 k1) (esp - 4) (le_bytes 0)) (\<lambda>m1.
      chain (store_bytes_at m1 (cr3 k1) (esp - 4 - 52) (utf_bytes ?utf)) (\<lambda>m2.
        Inl (Panic ''page_fault_handler: exception stack overflow'')))"
    using assms(1-4) f below by (simp add: page_fault_handler_def Let_def esp_def[symmetric] split_def)
  then show ?thesis
    by (cases "store_bytes_at (mem k1) (cr3 k1) (esp - 4) (le_bytes 0)")
       (auto simp: chain_def dest: store_bytes_panic split: sum.splits)
qed

lemma exception_stack_overflow_panics_witness:
  "\<exists>k msg. page_fault_handler 0xDEAD (zero_tf\<lparr>tf_cs := 0x1b, tf_esp := 0xEEBFF008\<rparr>) k = Inl (Panic msg)"
proof -
  let ?m = "demo_mem\<lparr>phys := (\<lambda>f i. if f = 1 \<and> i = 954 then 0x4007 else if f = 4 \<and> i = 1023 then 0x5007 else 0)\<rparr>"
  let ?k = "upd_env (demo_user\<lparr>mem := ?m\<rparr>) 0 (\<lambda>v. v\<lparr>env_pgfault_upcall := 0x800020\<rparr>)"
  let ?tf = "zero_tf\<lparr>tf_cs := 0x1b, tf_esp := 0xEEBFF008\<rparr>"
  have k: "curenv ?k = Some 0" "env_pgdir (envs ?k 0) = Some 1" "env_pgfault_upcall (envs ?k 0) \<noteq> 0" "mem ?k = ?m"
    by (simp_all add: demo_user_def demo_kst_def curenv_def demo_envs_def upd_env_def)
  have w: "pgdir_walk ?m 1 0xEEBFF000 False = Inr (?m, Some (4, 1023))"
    by (simp add: pgdir_walk_def read_pte_def demo_mem_def kframe_eq PDX_def PTX_def PGNUM_def PTE_ADDR_def mmu_consts Let_def)
  have r: "read_pte ?m (4, 1023) = 0x5007" by (simp add: read_pte_def)
  have ps: "page_steps (ROUNDDOWN 0xEEBFF000 PGSIZE) (ROUNDUP (0xEEBFF000 + PGSIZE) PGSIZE) = [0xEEBFF000]"
    by (simp add: page_steps_def ROUNDUP_def ROUNDDOWN_def PGSIZE_def)
  have x: "UXSTACKTOP - PGSIZE = 0xEEBFF000" by (simp add: memlayout_defs mmu_consts)
  have hi: "\<not> UTOP < ROUNDUP (0xEEBFF000 + PGSIZE) PGSIZE"
    by (simp add: ROUNDUP_def ROUNDDOWN_def memlayout_defs mmu_consts)
  have "user_mem_loop ?m 1 0xEEBFF000 (PTE_U OR PTE_W) [0xEEBFF000] = Inr (?m, 0)"
    by (simp only: user_mem_loop.simps w chain_Inr prod.case option.case r) (simp add: pte_bits)
  then have "user_mem_check ?m 1 0xEEBFF000 PGSIZE (PTE_U OR PTE_W) = Inr (?m, 0)"
    unfolding user_mem_check_def Let_def ps using hi by simp
  moreover have "(PTE_U OR PTE_W) OR PTE_U = PTE_U OR PTE_W" by (simp add: pte_bits)
  ultimately have "user_mem_assert ?k 0 (UXSTACKTOP - PGSIZE) PGSIZE (PTE_U OR PTE_W) = Inr (Return (), ?k\<lparr>mem := ?m\<rparr>)"
    unfolding user_mem_assert_def x k deref_simps chain_Inr by simp
  from exception_stack_overflow_panics[OF _ k(1,3) this, of ?tf "0xDEAD"] show ?thesis
    by (auto simp: x)
qed

end
