(* ===== verification/Ulib.thy ===== *)
theory Ulib
  imports Syscall
begin

unbundle bit_operations_syntax

text \<open>
  The user library over the system calls: \<^verbatim>\<open>lib/syscall.c\<close>, \<^verbatim>\<open>lib/pgfault.c\<close>, \<^verbatim>\<open>lib/fork.c\<close> and
  \<^verbatim>\<open>lib/ipc.c\<close>, run by the current environment. Its memory is reached through its page table; an
  access the table does not allow is a fault. The library's variables \<^verbatim>\<open>thisenv\<close> and
  \<^verbatim>\<open>_pgfault_handler\<close>, which lie in the memory of each environment, are passed explicitly.
\<close>

section \<open>System call stubs (\<^verbatim>\<open>lib/syscall.c\<close>)\<close>

text \<open>The user's \<^verbatim>\<open>panic\<close> ends in a breakpoint trap: the kernel stays in its monitor.\<close>

definition upanic :: "kst \<Rightarrow> fault + ('a ctl \<times> kst)" where
  "upanic k = Inr (MonitorLoop, k)"

definition usyscall :: "kst \<Rightarrow> u32 \<Rightarrow> bool \<Rightarrow> u32 \<Rightarrow> u32 \<Rightarrow> u32 \<Rightarrow> u32 \<Rightarrow> u32 \<Rightarrow> sysret" where
  "usyscall k num check a1 a2 a3 a4 a5 =
     bindc (syscall 0 k num a1 a2 a3 a4 a5) (\<lambda>r k1. if check \<and> r > 0 then upanic k1 else ret r k1)"

definition u_getenvid :: "kst \<Rightarrow> sysret" where
  "u_getenvid k = usyscall k SYS_getenvid False 0 0 0 0 0"

definition u_yield :: "kst \<Rightarrow> sysret" where
  "u_yield k = usyscall k SYS_yield False 0 0 0 0 0"

definition u_page_alloc :: "kst \<Rightarrow> u32 \<Rightarrow> u32 \<Rightarrow> u32 \<Rightarrow> sysret" where
  "u_page_alloc k envid va perm = usyscall k SYS_page_alloc True envid va perm 0 0"

definition u_page_map :: "kst \<Rightarrow> u32 \<Rightarrow> u32 \<Rightarrow> u32 \<Rightarrow> u32 \<Rightarrow> u32 \<Rightarrow> sysret" where
  "u_page_map k srcenv srcva dstenv dstva perm =
     usyscall k SYS_page_map True srcenv srcva dstenv dstva perm"

definition u_page_unmap :: "kst \<Rightarrow> u32 \<Rightarrow> u32 \<Rightarrow> sysret" where
  "u_page_unmap k envid va = usyscall k SYS_page_unmap True envid va 0 0 0"

definition u_exofork :: "kst \<Rightarrow> sysret" where
  "u_exofork k = syscall 0 k SYS_exofork 0 0 0 0 0"

definition u_env_set_status :: "kst \<Rightarrow> u32 \<Rightarrow> int \<Rightarrow> sysret" where
  "u_env_set_status k envid status = usyscall k SYS_env_set_status True envid (word_of_int status) 0 0 0"

definition u_env_set_pgfault_upcall :: "kst \<Rightarrow> u32 \<Rightarrow> u32 \<Rightarrow> sysret" where
  "u_env_set_pgfault_upcall k envid upcall = usyscall k SYS_env_set_pgfault_upcall True envid upcall 0 0 0"

definition u_ipc_try_send :: "kst \<Rightarrow> u32 \<Rightarrow> u32 \<Rightarrow> u32 \<Rightarrow> u32 \<Rightarrow> sysret" where
  "u_ipc_try_send k envid value srcva perm = usyscall k SYS_ipc_try_send False envid value srcva perm 0"

definition u_ipc_recv :: "kst \<Rightarrow> u32 \<Rightarrow> sysret" where
  "u_ipc_recv k dstva = usyscall k SYS_ipc_recv True dstva 0 0 0 0"

text \<open>A call whose negative answer is a panic; what it answers otherwise is not used.\<close>

definition must :: "sysret \<Rightarrow> (kst \<Rightarrow> fault + ('a ctl \<times> kst)) \<Rightarrow> fault + ('a ctl \<times> kst)" where
  "must m f = bindc m (\<lambda>r k. if r < 0 then upanic k else f k)"

section \<open>Memory of the current environment\<close>

definition user_frame :: "kmem \<Rightarrow> nat \<Rightarrow> u32 \<Rightarrow> bool \<Rightarrow> nat option" where
  "user_frame m pgdir va write =
     (let flags = PTE_P OR PTE_U OR (if write then PTE_W else 0);
          pde = phys m pgdir (unat (PDX va)) in
      if pde AND flags \<noteq> flags then None
      else let pte = phys m (unat (PGNUM pde)) (unat (PTX va)) in
           if pte AND flags \<noteq> flags then None else Some (unat (PGNUM pte)))"

definition user_load :: "kst \<Rightarrow> u32 \<Rightarrow> fault + u32" where
  "user_load k va =
     (case user_frame (mem k) (cr3 k) va False of
        None \<Rightarrow> Inl OutOfBounds
      | Some f \<Rightarrow> Inr (phys (mem k) f (unat (PGOFF va) div 4)))"

definition user_store :: "kst \<Rightarrow> u32 \<Rightarrow> u32 \<Rightarrow> fault + kst" where
  "user_store k va w =
     (case user_frame (mem k) (cr3 k) va True of
        None \<Rightarrow> Inl OutOfBounds
      | Some f \<Rightarrow> Inr (k\<lparr>mem := (mem k)\<lparr>phys := set_cell (phys (mem k)) f (unat (PGOFF va) div 4) w\<rparr>\<rparr>))"

text \<open>\<^verbatim>\<open>memmove\<close> of whole words between two pages.\<close>

fun user_memmove :: "kst \<Rightarrow> u32 \<Rightarrow> u32 \<Rightarrow> nat \<Rightarrow> fault + kst" where
  "user_memmove k dst src 0 = Inr k"
| "user_memmove k dst src (Suc n) =
     chain (user_load k src) (\<lambda>w. chain (user_store k dst w) (\<lambda>k1. user_memmove k1 (dst + 4) (src + 4) n))"

text \<open>The page table and the directory, which the directory maps to themselves.\<close>

definition uvpt :: "kst \<Rightarrow> u32 \<Rightarrow> fault + u32" where
  "uvpt k pn = user_load k (UVPT + 4 * pn)"

definition uvpd :: "kst \<Rightarrow> u32 \<Rightarrow> fault + u32" where
  "uvpd k i = user_load k (UVPT + (drop_bit PGSHIFT UVPT) * 4 + 4 * i)"

section \<open>Page fault handlers (\<^verbatim>\<open>lib/pgfault.c\<close>)\<close>

text \<open>The new value of \<^verbatim>\<open>_pgfault_handler\<close>; \<open>upcall\<close> is the address of the assembly entry.\<close>

definition set_pgfault_handler :: "u32 \<Rightarrow> kst \<Rightarrow> u32 \<Rightarrow> u32 \<Rightarrow> fault + (u32 ctl \<times> kst)" where
  "set_pgfault_handler upcall k old handler =
     (if old = 0 then
        bindc (u_page_alloc k 0 (UXSTACKTOP - PGSIZE) (PTE_U OR PTE_P OR PTE_W)) (\<lambda>r k1.
          if r < 0 then Inr (Return old, k1)
          else bindc (u_env_set_pgfault_upcall k1 0 upcall) (\<lambda>r1 k2.
            if r1 < 0 then Inr (Return old, k2) else Inr (Return handler, k2)))
      else Inr (Return handler, k))"

section \<open>Copy-on-write fork (\<^verbatim>\<open>lib/fork.c\<close>)\<close>

definition PTE_COW :: u32 where "PTE_COW = 0x800"

text \<open>The part of \<^verbatim>\<open>pgfault\<close> behind its check.\<close>

definition pgfault_copy :: "kst \<Rightarrow> u32 \<Rightarrow> fault + (unit ctl \<times> kst)" where
  "pgfault_copy k addr0 =
     (let perm = PTE_P OR PTE_U OR PTE_W in
      must (u_page_alloc k 0 PFTEMP perm) (\<lambda>k1.
        let addr = ROUNDDOWN addr0 PGSIZE in
        chain (user_memmove k1 PFTEMP addr 1024) (\<lambda>k2.
        must (u_page_map k2 0 PFTEMP 0 addr perm) (\<lambda>k3.
        must (u_page_unmap k3 0 PFTEMP) (\<lambda>k4. Inr (Return (), k4))))))"

text \<open>The check combines the two conditions with a bitwise and: the right one is 0 or 1.\<close>

definition pgfault :: "kst \<Rightarrow> u32 \<Rightarrow> u32 \<Rightarrow> fault + (unit ctl \<times> kst)" where
  "pgfault k addr err =
     chain (uvpt k (drop_bit PGSHIFT addr)) (\<lambda>fault_pte.
       if (err AND FEC_WR) AND (if fault_pte AND PTE_COW = 0 then 1 else 0) \<noteq> 0 then upanic k
       else pgfault_copy k addr)"

definition io_flags :: "u32 \<Rightarrow> u32 \<Rightarrow> u32" where
  "io_flags pte perm =
     (if pte AND (PTE_PCD OR PTE_PWT) \<noteq> 0 then perm OR PTE_PCD OR PTE_PWT else perm)"

definition duppage :: "kst \<Rightarrow> u32 \<Rightarrow> u32 \<Rightarrow> fault + (unit ctl \<times> kst)" where
  "duppage k envid pn =
     (let addr = push_bit PGSHIFT pn in
      chain (uvpt k pn) (\<lambda>pte.
        if pte AND PTE_P = 0 \<or> pte AND PTE_U = 0 then upanic k
        else let perm = io_flags pte (PTE_U OR PTE_P) in
        if pte AND PTE_W \<noteq> 0 \<or> pte AND PTE_COW \<noteq> 0 then
          must (u_page_map k 0 addr envid addr (perm OR PTE_COW)) (\<lambda>k1.
          must (u_page_map k1 0 addr 0 addr (perm OR PTE_COW)) (\<lambda>k2. Inr (Return (), k2)))
        else must (u_page_map k 0 addr envid addr perm) (\<lambda>k1. Inr (Return (), k1))))"

definition dup_or_share :: "kst \<Rightarrow> u32 \<Rightarrow> u32 \<Rightarrow> u32 \<Rightarrow> fault + (unit ctl \<times> kst)" where
  "dup_or_share k envid pnum perm0 =
     (let addr = push_bit PGSHIFT pnum in
      chain (uvpt k pnum) (\<lambda>pte.
        if pte AND PTE_P = 0 then Inr (Return (), k)
        else let perm = io_flags pte ((perm0 AND (pte AND PTE_W)) AND PTE_SYSCALL) in
        if pte AND PTE_W = 0 \<or> pte AND (PTE_PCD OR PTE_PWT) \<noteq> 0 then
          must (u_page_map k 0 addr envid addr perm) (\<lambda>k1. Inr (Return (), k1))
        else
          must (u_page_alloc k envid addr perm) (\<lambda>k1.
          must (u_page_map k1 envid addr 0 UTEMP perm) (\<lambda>k2.
          chain (user_memmove k2 UTEMP addr 1024) (\<lambda>k3.
          must (u_page_unmap k3 0 UTEMP) (\<lambda>k4. Inr (Return (), k4)))))))"

text \<open>A loop over the pages from number \<open>pn\<close> on.\<close>

fun for_pages ::
    "(kst \<Rightarrow> u32 \<Rightarrow> fault + (unit ctl \<times> kst)) \<Rightarrow> nat \<Rightarrow> kst \<Rightarrow> u32 \<Rightarrow> fault + (unit ctl \<times> kst)" where
  "for_pages body 0 k pn = Inr (Return (), k)"
| "for_pages body (Suc n) k pn = bindc (body k pn) (\<lambda>_ k1. for_pages body n k1 (pn + 1))"

text \<open>The results of the forks: the child's id for the parent, 0 for the child, and \<^verbatim>\<open>thisenv\<close>. The
  child goes on with \<open>envid = 0\<close> when it is first run.\<close>

definition child_branch :: "kst \<Rightarrow> fault + ((int \<times> nat) ctl \<times> kst)" where
  "child_branch k = bindc (u_getenvid k) (\<lambda>id k1. Inr (Return (0, ENVX (word_of_int id)), k1))"

definition fork_v0_page :: "u32 \<Rightarrow> kst \<Rightarrow> u32 \<Rightarrow> fault + (unit ctl \<times> kst)" where
  "fork_v0_page envid k pnum =
     chain (uvpd k (drop_bit 10 pnum)) (\<lambda>pde.
       if pde AND PTE_P = 0 \<or> pde AND PTE_U = 0 then Inr (Return (), k)
       else dup_or_share k envid pnum (PTE_P OR PTE_U OR PTE_W))"

definition fork_v0_from :: "nat \<Rightarrow> int \<Rightarrow> kst \<Rightarrow> fault + ((int \<times> nat) ctl \<times> kst)" where
  "fork_v0_from thisenv envid k =
     (if envid < 0 then upanic k
      else if envid = 0 then child_branch k
      else bindc (for_pages (fork_v0_page (word_of_int envid)) (unat (drop_bit PGSHIFT UTOP)) k 0) (\<lambda>_ k1.
        must (u_env_set_status k1 (word_of_int envid) (status_code ENV_RUNNABLE)) (\<lambda>k2.
          Inr (Return (envid, thisenv), k2))))"

definition fork_v0 :: "nat \<Rightarrow> kst \<Rightarrow> fault + ((int \<times> nat) ctl \<times> kst)" where
  "fork_v0 thisenv k = bindc (u_exofork k) (fork_v0_from thisenv)"

definition fork_page :: "u32 \<Rightarrow> kst \<Rightarrow> u32 \<Rightarrow> fault + (unit ctl \<times> kst)" where
  "fork_page envid k pnum =
     (if pnum = drop_bit PGSHIFT UXSTACKTOP - 1 then Inr (Return (), k)
      else chain (uvpd k (drop_bit 10 pnum)) (\<lambda>pde.
        if pde AND PTE_P = 0 \<or> pde AND PTE_U = 0 then Inr (Return (), k)
        else chain (uvpt k pnum) (\<lambda>pte.
          if pte AND PTE_P = 0 \<or> pte AND PTE_U = 0 then Inr (Return (), k)
          else duppage k envid pnum)))"

definition fork_from :: "nat \<Rightarrow> int \<Rightarrow> kst \<Rightarrow> fault + ((int \<times> nat) ctl \<times> kst)" where
  "fork_from thisenv envid k =
     (if envid < 0 then upanic k
      else if envid = 0 then child_branch k
      else bindc (for_pages (fork_page (word_of_int envid)) (unat (drop_bit PGSHIFT UTOP)) k 0) (\<lambda>_ k1.
        must (u_page_alloc k1 (word_of_int envid) (UXSTACKTOP - PGSIZE) (PTE_U OR PTE_P OR PTE_W)) (\<lambda>k2.
        must (u_env_set_pgfault_upcall k2 (word_of_int envid) (env_pgfault_upcall (envs k2 thisenv))) (\<lambda>k3.
        must (u_env_set_status k3 (word_of_int envid) (status_code ENV_RUNNABLE)) (\<lambda>k4.
          Inr (Return (envid, thisenv), k4))))))"

text \<open>\<open>handler\<close> is the address of \<^verbatim>\<open>pgfault\<close>, \<open>old\<close> the handler so far; the new handler comes last.\<close>

definition fork :: "u32 \<Rightarrow> u32 \<Rightarrow> u32 \<Rightarrow> nat \<Rightarrow> kst \<Rightarrow> fault + (((int \<times> nat) \<times> u32) ctl \<times> kst)" where
  "fork upcall handler old thisenv k =
     bindc (set_pgfault_handler upcall k old handler) (\<lambda>h k1.
     bindc (u_exofork k1) (\<lambda>envid k2.
     bindc (fork_from thisenv envid k2) (\<lambda>r k3. Inr (Return (r, h), k3))))"

definition sfork :: "kst \<Rightarrow> sysret" where
  "sfork k = upanic k"

section \<open>Messages (\<^verbatim>\<open>lib/ipc.c\<close>)\<close>

text \<open>What \<^verbatim>\<open>ipc_recv\<close> does when the call has returned \<open>err\<close>: its result and what it stores through
  its two pointers.\<close>

definition ipc_recv_result :: "nat \<Rightarrow> int \<Rightarrow> kst \<Rightarrow> int \<times> u32 \<times> u32" where
  "ipc_recv_result thisenv err k =
     (let v = envs k thisenv in
      (if err = 0 then sint (env_ipc_value v) else err,
       if err = 0 then env_ipc_from v else 0, if err = 0 then env_ipc_perm v else 0))"

definition ipc_recv :: "nat \<Rightarrow> kst \<Rightarrow> u32 \<Rightarrow> fault + ((int \<times> u32 \<times> u32) ctl \<times> kst)" where
  "ipc_recv thisenv k pg =
     bindc (u_ipc_recv k pg) (\<lambda>err k1. Inr (Return (ipc_recv_result thisenv err k1), k1))"

text \<open>The loop of \<^verbatim>\<open>ipc_send\<close>. \<open>others\<close> is what the other environments make of the state between a
  yield and the next time this one runs; None is a loop without end.\<close>

definition send_address :: "u32 \<Rightarrow> u32" where
  "send_address pg = (if pg = 0 then UTOP else pg)"

partial_function (option) ipc_send_loop ::
    "(kst \<Rightarrow> kst) \<Rightarrow> kst \<Rightarrow> u32 \<Rightarrow> u32 \<Rightarrow> u32 \<Rightarrow> u32 \<Rightarrow> (fault + (unit ctl \<times> kst)) option" where
  "ipc_send_loop others k to_env val pg perm =
     (case u_ipc_try_send k to_env val pg perm of
        Inr (Return r, k1) \<Rightarrow>
          if r = - E_IPC_NOT_RECV then
            (case u_yield k1 of
               Inl e \<Rightarrow> Some (Inl e)
             | Inr (_, k2) \<Rightarrow> ipc_send_loop others (others k2) to_env val pg perm)
          else if r < 0 then Some (upanic k1) else Some (Inr (Return (), k1))
      | other \<Rightarrow> Some (bindc other (\<lambda>_ k1. Inr (Return (), k1))))"

definition ipc_send ::
    "(kst \<Rightarrow> kst) \<Rightarrow> kst \<Rightarrow> u32 \<Rightarrow> u32 \<Rightarrow> u32 \<Rightarrow> u32 \<Rightarrow> (fault + (unit ctl \<times> kst)) option" where
  "ipc_send others k to_env val pg perm = ipc_send_loop others k to_env val (send_address pg) perm"

definition ipc_find_env :: "kst \<Rightarrow> u32 \<Rightarrow> u32" where
  "ipc_find_env k type =
     (case scan (\<lambda>_. True) (\<lambda>i. env_type (envs k i) = type) [0..<NENV] of
        None \<Rightarrow> 0 | Some i \<Rightarrow> env_id (envs k i))"

end
