(* ===== verification/UlibProps.thy ===== *)
theory UlibProps
  imports Ulib SyscallProps
begin

unbundle bit_operations_syntax

text \<open>
  Properties of the user library: the dead check of the copy-on-write handler, and the retry
  loop of \<^verbatim>\<open>ipc_send\<close>.
\<close>

text \<open>The check of \<^verbatim>\<open>pgfault\<close> never fires, because a bitwise and of a flag with value 2 and a truth
  value is 0: a write to a page that is not copy-on-write does not panic, it silently gives the
  environment a writable copy of the page.\<close>

theorem pgfault_check_never_fires:
  assumes "uvpt k (drop_bit PGSHIFT addr) = Inr pte"
  shows "pgfault k addr err = pgfault_copy k addr"
proof -
  have "(err AND FEC_WR) AND 1 = 0" by (simp add: FEC_WR_def and.assoc)
  with assms show ?thesis by (simp add: pgfault_def)
qed

text \<open>The example: frame 1 is the directory of environment 0, mapped to itself at \<^verbatim>\<open>UVPT\<close>, and maps frame
  5 at \<open>0x800000\<close> read-only through the table in frame 4.\<close>

definition demo_fork :: kst where
  "demo_fork = demo_kst\<lparr>mem := demo_mem\<lparr>phys := (\<lambda>f i.
       if f = 1 \<and> i = 2 then 0x4007 else if f = 1 \<and> i = 0x3BD then 0x1005
       else if f = 4 \<and> i = 0 then 0x5005 else 0)\<rparr>, cr3 := 1,
     cpu_env := (\<lambda>c. if c = 0 then Some 0 else None)\<rparr>"

lemma pgfault_check_never_fires_witness:
  "pgfault demo_fork 0x800004 (FEC_U OR FEC_WR OR FEC_PR) = pgfault_copy demo_fork 0x800004"
proof -
  have "uvpt demo_fork (drop_bit PGSHIFT 0x800004) = Inr 0x5005"
    by (simp add: uvpt_def user_load_def user_frame_def demo_fork_def demo_mem_def memlayout_defs mmu_consts
        pte_bits PDX_def PTX_def PGNUM_def PGOFF_def Let_def)
  then show ?thesis by (rule pgfault_check_never_fires)
qed

section \<open>Sending until the receiver waits\<close>

text \<open>A message that the receiver is waiting for is sent by the first attempt; otherwise the sender
  yields and tries again in the state that the others leave.\<close>

lemma u_ipc_try_send_eq:
  "u_ipc_try_send k to_env val va perm = bindc (sys_ipc_try_send k to_env val va perm) ret"
  by (simp add: u_ipc_try_send_def usyscall_def syscall_def sys_numbers Let_def)

lemma ipc_send_first:
  "u_ipc_try_send k to_env val (send_address pg) perm = Inr (Return 0, k1) \<Longrightarrow>
     ipc_send others k to_env val pg perm = Some (Inr (Return (), k1))"
  unfolding ipc_send_def by (subst ipc_send_loop.simps) (simp add: E_IPC_NOT_RECV_def)

lemma ipc_send_retry:
  "u_ipc_try_send k to_env val (send_address pg) perm = Inr (Return (- E_IPC_NOT_RECV), k1) \<Longrightarrow>
   u_yield k1 = Inr (c, k2) \<Longrightarrow>
     ipc_send others k to_env val pg perm = ipc_send others (others k2) to_env val pg perm"
  unfolding ipc_send_def by (subst (1) ipc_send_loop.simps) simp

lemma try_send_waits:
  assumes "envid2env k to_env False = Inr (0, Some e)" and "\<not> env_ipc_recving (envs k e)"
  shows "u_ipc_try_send k to_env val va perm = Inr (Return (- E_IPC_NOT_RECV), k)"
  using assms by (simp add: u_ipc_try_send_eq sys_ipc_try_send_def)

lemma try_send_delivers:
  assumes "envid2env k to_env False = Inr (0, Some e)" and "env_ipc_recving (envs k e)"
    and "curenv k = Some c" and "UTOP \<le> va"
  shows "\<exists>k'. u_ipc_try_send k to_env val va perm = Inr (Return 0, k')
    \<and> env_ipc_value (envs k' e) = val \<and> env_ipc_from (envs k' e) = env_id (envs k c)
    \<and> env_status (envs k' e) = ENV_RUNNABLE"
  using assms
  by (auto simp: u_ipc_try_send_eq sys_ipc_try_send_def ipc_deliver_def upd_env_def curenv_def)

text \<open>The state in which the sender tries again.\<close>

definition send_round :: "(kst \<Rightarrow> kst) \<Rightarrow> kst \<Rightarrow> kst" where
  "send_round others k = (case u_yield k of Inl _ \<Rightarrow> k | Inr (_, k2) \<Rightarrow> others k2)"

text \<open>C16: \<^verbatim>\<open>ipc_send\<close> of a value without a page (\<open>pg\<close> is the null pointer, for which \<^verbatim>\<open>ipc_send\<close> passes \<^verbatim>\<open>UTOP\<close>, or
  an address from \<^verbatim>\<open>UTOP\<close> on) returns as soon as the receiver waits: if the target exists in every round up to the
  \<open>n\<close>-th and waits for a message for the first time in that one, and no yield before it faults, then, whatever the other
  environments do in between, the loop ends in that round with the value delivered, the sender's id recorded and the target
  runnable. Nothing is claimed for a message with a page.\<close>

theorem ipc_send_delivers:
  assumes "\<forall>j\<le>n. envid2env ((send_round others ^^ j) k) to_env False = Inr (0, Some e)"
    and "\<forall>j<n. \<not> env_ipc_recving (envs ((send_round others ^^ j) k) e)
      \<and> \<not> isl (u_yield ((send_round others ^^ j) k))"
    and "env_ipc_recving (envs ((send_round others ^^ n) k) e)"
    and "curenv ((send_round others ^^ n) k) = Some c" and "UTOP \<le> send_address pg"
  shows "\<exists>k'. ipc_send others k to_env val pg perm = Some (Inr (Return (), k'))
    \<and> env_ipc_value (envs k' e) = val \<and> env_ipc_from (envs k' e) = env_id (envs ((send_round others ^^ n) k) c)
    \<and> env_status (envs k' e) = ENV_RUNNABLE"
  using assms(1-4)
proof (induction n arbitrary: k)
  case 0
  then have "envid2env k to_env False = Inr (0, Some e)" "env_ipc_recving (envs k e)" "curenv k = Some c"
    by auto
  from try_send_delivers[OF this assms(5), of val perm] show ?case using ipc_send_first by force
next
  case (Suc n)
  let ?k = "send_round others k"
  from Suc.prems(1,2) have e: "envid2env k to_env False = Inr (0, Some e)"
    and nr: "\<not> env_ipc_recving (envs k e)" "\<not> isl (u_yield k)" by (force)+
  then obtain r k2 where y: "u_yield k = Inr (r, k2)" by (cases "u_yield k") auto
  then have k: "others k2 = ?k" by (simp add: send_round_def)
  have sh: "(send_round others ^^ j) ?k = (send_round others ^^ Suc j) k" for j
    by (simp add: funpow_swap1)
  have "\<exists>k'. ipc_send others ?k to_env val pg perm = Some (Inr (Return (), k'))
    \<and> env_ipc_value (envs k' e) = val \<and> env_ipc_from (envs k' e) = env_id (envs ((send_round others ^^ n) ?k) c)
    \<and> env_status (envs k' e) = ENV_RUNNABLE"
    by (rule Suc.IH) (use Suc.prems in \<open>auto simp only: sh\<close>)
  with ipc_send_retry[OF try_send_waits[OF e nr(1)] y, of others] show ?case unfolding k sh by simp
qed

text \<open>The example: environment 2 starts to wait while environment 0 yields.\<close>

definition waiting_kst :: kst where
  "waiting_kst = upd_env demo_user 2 (\<lambda>v. v\<lparr>env_ipc_recving := True, env_status := ENV_NOT_RUNNABLE\<rparr>)"

lemma demo_user_yields: "\<not> isl (u_yield demo_user)"
proof -
  have tk: "tickets_ok (envs demo_user)" using demo_kst_tickets by (simp add: demo_user_def)
  have "0 < NENV" "contends (envs demo_user 0)"
    by (simp_all add: NENV_def demo_user_def demo_kst_def demo_contends)
  from sched_pick[OF tk this] obtain e where e: "contends (envs demo_user e)"
    "(sched_yield demo_user :: fault + (unit ctl \<times> kst)) =
       env_run (add_to_historial (demo_user\<lparr>random_seed := lcg_parkmiller (random_seed demo_user)\<rparr>) e) e"
    by blast
  let ?k1 = "add_to_historial (demo_user\<lparr>random_seed := lcg_parkmiller (random_seed demo_user)\<rparr>) e"
  have "e = 0 \<or> e = 2" using e(1) by (simp add: demo_user_def demo_kst_def demo_contends)
  then have "\<exists>d. env_pgdir (envs ?k1 e) = Some d"
    by (auto simp: add_to_historial_def Let_def demo_user_def demo_kst_def demo_envs_def)
  moreover have "holding (kernel_lock ?k1) (this_cpu ?k1)"
    by (simp add: add_to_historial_def Let_def demo_user_def demo_kst_def holding_def)
  ultimately obtain k' where "(env_run ?k1 e :: fault + (unit ctl \<times> kst)) = Inr (RunEnv e, k')"
    using env_run_eff by blast
  with e(2) show ?thesis
    by (simp add: u_yield_def usyscall_def syscall_def sys_numbers Let_def sys_yield_def)
qed

lemma ipc_send_delivers_witness:
  "\<exists>k'. ipc_send (\<lambda>_. waiting_kst) demo_user 4098 7 0 0 = Some (Inr (Return (), k'))
     \<and> env_ipc_value (envs k' 2) = 7"
proof -
  let ?f = "send_round (\<lambda>_. waiting_kst)"
  have r: "?f demo_user = waiting_kst" using demo_user_yields
    by (auto simp: send_round_def split: sum.split)
  have "envid2env demo_user 4098 False = Inr (0, Some 2)" "envid2env waiting_kst 4098 False = Inr (0, Some 2)"
    "curenv waiting_kst = Some 0" "env_ipc_recving (envs waiting_kst 2)" "\<not> env_ipc_recving (envs demo_user 2)"
    by (simp_all add: waiting_kst_def envid2env_def ENVX_def NENV_def demo_user_def demo_kst_def demo_envs_def
        zero_env_def upd_env_def curenv_def)
  moreover have "UTOP \<le> send_address 0" by (simp add: send_address_def)
  ultimately show ?thesis
    using ipc_send_delivers[of 1 "\<lambda>_. waiting_kst" demo_user 4098 2 0 0 7 0] r demo_user_yields
    by (auto simp: le_Suc_eq)
qed

end
