(* ===== verification/AddressSpace.thy ===== *)
theory AddressSpace
  imports PageRefs
begin

unbundle bit_operations_syntax

text \<open>
  Address spaces as functions: the two levels of tables below \<^verbatim>\<open>UTOP\<close> stand for one array of entries,
  indexed by the page number, as the user's \<^verbatim>\<open>uvpt\<close> (\<^verbatim>\<open>inc/lib.h\<close>) shows them. In the accounted states of
  \<open>PageRefs\<close>, \<^verbatim>\<open>page_insert\<close> and \<^verbatim>\<open>page_remove\<close> are updates of one element of one such array.
\<close>

section \<open>The array of entries\<close>

definition user_pages :: nat where "user_pages = UPDX * 1024"

definition entry :: "kmem \<Rightarrow> nat \<Rightarrow> nat \<Rightarrow> u32" where
  "entry s dir n = (if pde_at s dir (n div 1024) = 0 then 0 else pte_at s dir (n div 1024) (n mod 1024))"

definition page_no :: "u32 \<Rightarrow> nat" where
  "page_no va = unat (PGNUM va)"

lemma page_no_split: "page_no va div 1024 = unat (PDX va)" "page_no va mod 1024 = unat (PTX va)"
  by (simp_all add: page_no_def unat_PGNUM unat_PDX unat_PTX div_mult2_eq[symmetric])

lemma page_no_less: "va < UTOP \<Longrightarrow> page_no va < user_pages"
  using user_pdx[of va] by (simp add: user_pages_def page_no_split(1)[symmetric] less_mult_imp_div_less div_less_iff_less_mult)

lemma user_pages_split: "n < user_pages \<Longrightarrow> n div 1024 < UPDX \<and> n mod 1024 < 1024"
  by (simp add: user_pages_def div_less_iff_less_mult)

lemma entry_cong: "phys s' = phys s \<Longrightarrow> entry s' = entry s"
  by (simp add: entry_def fun_eq_iff refs_cong(1,2)[of s' s])

lemma same_space_entries: "same_space s s' dir \<Longrightarrow> n < user_pages \<Longrightarrow> entry s' dir n = entry s dir n"
  using user_pages_split[of n] by (simp add: entry_def same_space_def)

lemma page_no_eq: "page_no a = page_no b \<longleftrightarrow> PDX a = PDX b \<and> PTX a = PTX b"
  by (metis page_no_def page_no_split word_unat_eq_iff same_page_iff)

text \<open>The references to a page are the entries that name its frame.\<close>

lemma entry_referenced:
  assumes "dir \<in> D" and "n < user_pages" and "entry s dir n \<noteq> 0"
  shows "pte_refs s D (frame_of (entry s dir n)) \<noteq> {}"
proof -
  have "(dir, n div 1024, n mod 1024) \<in> pte_refs s D (frame_of (entry s dir n))"
    using assms user_pages_split[OF assms(2)] by (simp add: entry_def pte_refs_def split: if_splits)
  then show ?thesis by blast
qed

lemma entry_account:
  assumes c: "counted s D x K L ps" and e: "dir \<in> D" "n < user_pages" "entry s dir n \<noteq> 0"
  shows "data_frame s D (frame_of (entry s dir n))" and "frame_of (entry s dir n) \<notin> set ps"
    and "K (frame_of (entry s dir n)) = None" and "entry s dir n AND PTE_P \<noteq> 0"
proof -
  let ?f = "frame_of (entry s dir n)"
  note r = entry_referenced[OF e]
  show "?f \<notin> set ps" using free_unreferenced(2)[OF c] r by blast
  show "K ?f = None" using not_kept[OF c] r by blast
  note n = user_pages_split[OF e(2)]
  have pde: "pde_at s dir (n div 1024) \<noteq> 0" and pte: "pte_at s dir (n div 1024) (n mod 1024) \<noteq> 0"
    using e(3) by (auto simp: entry_def split: if_splits)
  then show "data_frame s D ?f" "entry s dir n AND PTE_P \<noteq> 0"
    using shapeD(5)[OF countedD(1)[OF c] e(1) conjunct1[OF n] pde conjunct2[OF n] pte] by (simp_all add: entry_def)
qed

lemma frame_count:
  assumes c: "counted s D x K L ps" and f: "data_frame s D f" "x f = 0"
  shows "unat (pp_ref s f) = card (pte_refs s D f)"
  using countedD(4)[OF c, of f] f by (simp add: data_frame_def refs_def)

section \<open>Writing an entry, adding a table\<close>

lemma write_entry_at:
  assumes sh: "shape s D" and at: "dir \<in> D" "d < UPDX" "pde_at s dir d \<noteq> 0" and t: "t < 1024"
    and ph: "phys s' = set_cell (phys s) (frame_of (pde_at s dir d)) t v"
  shows "dir' \<in> D \<Longrightarrow> n < user_pages \<Longrightarrow>
      entry s' dir' n = (if dir' = dir \<and> n = d * 1024 + t then v else entry s dir' n)"
    and "dir' \<in> D \<Longrightarrow> phys s' dir' = phys s dir'"
    and "data_frame s D f \<Longrightarrow> phys s' f = phys s f"
proof -
  let ?f = "frame_of (pde_at s dir d)"
  note here = shapeD[OF sh at]
  show up: "phys s' dir' = phys s dir'" if "dir' \<in> D" for dir'
    using here(2) that by (auto simp: ph set_cell_app fun_eq_iff)
  then have pde: "pde_at s' dir' = pde_at s dir'" if "dir' \<in> D" for dir'
    using that by (simp add: pde_at_def fun_eq_iff)
  show "phys s' f = phys s f" if "data_frame s D f"
  proof -
    have "f \<noteq> ?f" using that at by (auto simp: data_frame_def pde_refs_def)
    then show ?thesis by (simp add: ph set_cell_app fun_eq_iff)
  qed
  assume d': "dir' \<in> D" and n: "n < user_pages"
  note n = user_pages_split[OF n]
  have same: "n = d * 1024 + t \<longleftrightarrow> n div 1024 = d \<and> n mod 1024 = t" using t by auto
  show "entry s' dir' n = (if dir' = dir \<and> n = d * 1024 + t then v else entry s dir' n)"
  proof (cases "pde_at s dir' (n div 1024) = 0")
    case True
    then show ?thesis using at(3) by (auto simp: entry_def pde[OF d'] same)
  next
    case False
    then show ?thesis
      using shapeD(4)[OF sh d' conjunct1[OF n] False at]
      by (auto simp: entry_def pde[OF d'] pte_at_def ph set_cell_app same)
  qed
qed

lemma add_table_at:
  assumes c: "counted s D x K L (p # ps)" and at: "dir \<in> D" "d < UPDX" "pde_at s dir d = 0"
  defines "s' \<equiv> new_table s dir d p"
  shows "dir' \<in> D \<Longrightarrow> n < user_pages \<Longrightarrow> entry s' dir' n = entry s dir' n"
    and "pde_at s' dir d = page2pa p OR PTE_P OR PTE_W OR PTE_U"
    and "dir' \<in> D \<Longrightarrow> \<not> (dir' = dir \<and> i = d) \<Longrightarrow> phys s' dir' i = phys s dir' i"
    and "data_frame s D f \<Longrightarrow> f \<noteq> p \<Longrightarrow> data_frame s' D f \<and> phys s' f = phys s f"
proof -
  have m: "p \<in> set (p # ps)" by simp
  note f = free_unreferenced[OF c m] and sh = countedD(1)[OF c]
  have lt: "p < 2 ^ 20" using f(5) countedD(7)[OF c] by simp
  have ne: "frame_of (pde_at s a b) \<noteq> p" if "a \<in> D" "b < UPDX" "pde_at s a b \<noteq> 0" for a b
    using f(1) that by (auto simp: pde_refs_def)
  show pde: "pde_at s' dir d = page2pa p OR PTE_P OR PTE_W OR PTE_U"
    by (simp add: s'_def pde_at_def new_table_sel)
  show up: "phys s' dir' i = phys s dir' i" if "dir' \<in> D" "\<not> (dir' = dir \<and> i = d)" for dir' i
    using that f(4) by (auto simp: s'_def new_table_sel set_cell_app)
  show "data_frame s D f \<Longrightarrow> f \<noteq> p \<Longrightarrow> data_frame s' D f \<and> phys s' f = phys s f"
    using add_table(2)[OF sh at f(5) lt f(4,1,2) new_table_sel(2,1)] at(1)
    by (auto simp: s'_def data_frame_def new_table_sel set_cell_app fun_eq_iff)
  assume d': "dir' \<in> D" and n: "n < user_pages"
  note n = user_pages_split[OF n]
  show "entry s' dir' n = entry s dir' n"
  proof (cases "dir' = dir \<and> n div 1024 = d")
    case True
    then show ?thesis using at(3) f(4) at(1) new_pde(1)[OF lt] pde
      by (auto simp: entry_def pte_at_def s'_def new_table_sel set_cell_app)
  next
    case False
    then have eq: "pde_at s' dir' (n div 1024) = pde_at s dir' (n div 1024)" using up[OF d'] by (simp add: pde_at_def)
    show ?thesis
    proof (cases "pde_at s dir' (n div 1024) = 0")
      case nz: False
      note h = shapeD(2)[OF sh d' conjunct1[OF n] nz] ne[OF d' conjunct1[OF n] nz]
      then show ?thesis using at(1) eq by (auto simp: entry_def pte_at_def) (auto simp: s'_def new_table_sel set_cell_app)
    qed (simp add: entry_def eq)
  qed
qed

section \<open>Writing a page that is no table\<close>

lemma same_space_shape:
  assumes sh: "shape s D" and same: "\<forall>dir\<in>D. same_space s s' dir" and np: "npages s' = npages s"
  shows "shape s' D" and "pde_refs s' D = pde_refs s D"
proof -
  have pde: "pde_at s' a b = pde_at s a b" if "a \<in> D" "b < UPDX" for a b
    using same that unfolding same_space_def by blast
  have pte: "pte_at s' a b t = pte_at s a b t" if "a \<in> D" "b < UPDX" "pde_at s a b \<noteq> 0" "t < 1024" for a b t
    using same that unfolding same_space_def by blast
  show pr: "pde_refs s' D = pde_refs s D" by (auto simp: pde_refs_def pde fun_eq_iff)
  have df: "data_frame s' D = data_frame s D" by (auto simp: data_frame_def pr np)
  have ok: "pde_ok s' = pde_ok s" by (simp add: pde_ok_def np fun_eq_iff)
  show "shape s' D"
    unfolding shape_def df ok np
  proof (intro conjI ballI allI impI)
    show "finite D" "D \<subseteq> {..<npages s}" using sh by (simp_all add: shape_def)
  next
    fix a b t assume h: "a \<in> D" "b < UPDX" "t < 1024" "pde_at s' a b \<noteq> 0 \<and> pte_at s' a b t \<noteq> 0"
    then have nz: "pde_at s a b \<noteq> 0" by (simp add: pde)
    show "pte_at s' a b t AND PTE_P \<noteq> 0" "data_frame s D (frame_of (pte_at s' a b t))"
      using shapeD(5)[OF sh h(1,2) nz h(3)] pte[OF h(1,2) nz h(3)] h(4) by simp_all
  next
    fix a b assume h: "a \<in> D" "b < UPDX" "pde_at s' a b \<noteq> 0"
    with shapeD(1,2)[OF sh h(1,2)] show "pde_ok s (pde_at s' a b)" "frame_of (pde_at s' a b) \<notin> D"
      by (simp_all add: pde)
  next
    fix a b a' b' assume "a \<in> D" "b < UPDX" "a' \<in> D" "b' < UPDX"
      "pde_at s' a b \<noteq> 0 \<and> pde_at s' a' b' \<noteq> 0 \<and> frame_of (pde_at s' a b) = frame_of (pde_at s' a' b')"
    with shapeD(4)[OF sh, of a b a' b'] show "a = a'" "b = b'" by (simp_all add: pde)
  qed
qed

lemma write_frame:
  assumes c: "counted s D x K L ps" and p: "data_frame s D p" "K p = None"
    and ph: "phys s' = (phys s)(p := page)"
    and rest: "npages s' = npages s" "pp_ref s' = pp_ref s" "pp_link s' = pp_link s" "page_free_list s' = page_free_list s"
  shows "counted s' D x K L ps" and "\<And>dir. dir \<in> D \<Longrightarrow> same_space s s' dir" and "data_frame s' D = data_frame s D"
    and "\<And>dir. dir \<in> D \<Longrightarrow> phys s' dir = phys s dir"
proof -
  have D: "p \<notin> D" and refs: "pde_refs s D p = {}" using p(1) by (simp_all add: data_frame_def)
  show up: "phys s' dir = phys s dir" if "dir \<in> D" for dir using that D by (auto simp: ph)
  show same: "same_space s s' dir" if dir: "dir \<in> D" for dir
    unfolding same_space_def
  proof (intro allI impI conjI)
    fix d assume d: "d < UPDX"
    show pde: "pde_at s' dir d = pde_at s dir d" using up[OF dir] by (simp add: pde_at_def)
    fix t assume "pde_at s dir d \<noteq> 0"
    then have "(dir, d) \<in> pde_refs s D (frame_of (pde_at s dir d))" using dir d by (simp add: pde_refs_def)
    then have "frame_of (pde_at s dir d) \<noteq> p" using refs by auto
    then show "pte_at s' dir d t = pte_at s dir d t" by (simp add: pte_at_def pde) (simp add: ph)
  qed
  then have all: "\<forall>dir\<in>D. same_space s s' dir" by blast
  note sh = same_space_shape[OF countedD(1)[OF c] all rest(1)]
  show "data_frame s' D = data_frame s D" by (auto simp: data_frame_def sh(2) rest(1))
  have "kept s' K ps"
    by (rule keptI[OF countedD(9)[OF c] rest(1)]) (use p(2) kept_free[OF countedD(9)[OF c]] in \<open>auto simp: ph rest\<close>)
  moreover have "page_repr s' ps" using countedD(2)[OF c] by (simp add: page_repr_def rest)
  ultimately show "counted s' D x K L ps"
    using c sh(1) by (simp add: counted_def same_space_refs[OF all] rest)
qed

section \<open>The operations as updates of one entry\<close>

text \<open>The tables \<^verbatim>\<open>pgdir_walk\<close> makes leave the permissions to their entries.\<close>

definition open_tables :: "kmem \<Rightarrow> nat \<Rightarrow> bool" where
  "open_tables s dir \<longleftrightarrow> (\<forall>d<UPDX. pde_at s dir d \<noteq> 0 \<longrightarrow>
     pde_at s dir d AND (PTE_P OR PTE_W OR PTE_U) = PTE_P OR PTE_W OR PTE_U)"

definition tables :: "kmem \<Rightarrow> nat \<Rightarrow> nat set" where
  "tables s dir = {d. d < UPDX \<and> pde_at s dir d \<noteq> 0}"

lemma finite_tables [simp]: "finite (tables s dir)"
  by (simp add: tables_def)

text \<open>From \<open>s\<close> to \<open>s'\<close>, entry \<open>n\<close> of \<open>dir\<close> has become \<open>v\<close>, and no page in use has been written.\<close>

definition remaps :: "kmem \<Rightarrow> kmem \<Rightarrow> nat set \<Rightarrow> nat list \<Rightarrow> nat \<Rightarrow> nat \<Rightarrow> u32 \<Rightarrow> bool" where
  "remaps s s' D ps dir n v \<longleftrightarrow> npages s' = npages s
     \<and> (\<forall>a\<in>D. \<forall>m<user_pages. entry s' a m = (if a = dir \<and> m = n then v else entry s a m))
     \<and> (\<forall>a\<in>D. \<forall>i\<ge>UPDX. phys s' a i = phys s a i)
     \<and> (\<forall>a\<in>D. open_tables s a \<longrightarrow> open_tables s' a)
     \<and> (\<forall>a\<in>D. tables s a \<subseteq> tables s' a \<and> tables s' a \<subseteq> tables s a \<union> (if a = dir then {n div 1024} else {}))
     \<and> (\<forall>f. data_frame s D f \<and> f \<notin> set ps \<longrightarrow> phys s' f = phys s f)"

lemma remapsD:
  assumes "remaps s s' D ps dir n v"
  shows "npages s' = npages s"
    and "a \<in> D \<Longrightarrow> m < user_pages \<Longrightarrow> entry s' a m = (if a = dir \<and> m = n then v else entry s a m)"
    and "a \<in> D \<Longrightarrow> UPDX \<le> i \<Longrightarrow> phys s' a i = phys s a i"
    and "a \<in> D \<Longrightarrow> open_tables s a \<Longrightarrow> open_tables s' a"
    and "a \<in> D \<Longrightarrow> tables s a \<subseteq> tables s' a"
    and "a \<in> D \<Longrightarrow> tables s' a \<subseteq> tables s a \<union> (if a = dir then {n div 1024} else {})"
    and "data_frame s D f \<Longrightarrow> f \<notin> set ps \<Longrightarrow> phys s' f = phys s f"
  using assms unfolding remaps_def by (blast | simp)+

lemma pdes_cong:
  assumes "phys s' dir = phys s dir"
  shows "open_tables s' dir = open_tables s dir" and "tables s' dir = tables s dir"
  by (simp_all add: open_tables_def tables_def pde_at_def assms)

lemma write_remaps:
  assumes sh: "shape s D" and dir: "dir \<in> D" and va: "va < UTOP" and pde: "pde_at s dir (unat (PDX va)) \<noteq> 0"
    and ph: "phys s' = set_cell (phys s) (frame_of (pde_at s dir (unat (PDX va)))) (unat (PTX va)) v"
    and np: "npages s' = npages s"
  shows "remaps s s' D ps dir (page_no va) v"
proof -
  note w = write_entry_at[OF sh dir user_pdx[OF va] pde PTX_less ph]
  have n: "unat (PDX va) * 1024 + unat (PTX va) = page_no va"
    using div_mult_mod_eq[of "page_no va" 1024] by (simp add: page_no_split)
  show ?thesis
    unfolding remaps_def using w np pdes_cong[of s' _ s, OF w(2)] by (auto simp: n)
qed

lemma new_table_remaps:
  assumes c: "counted s D x K L (p # ps)" and at: "dir \<in> D" "d < UPDX" "pde_at s dir d = 0"
    and r: "remaps (new_table s dir d p) s' D ps dir n v" and n: "n div 1024 = d"
  shows "remaps s s' D (p # ps) dir n v"
proof -
  let ?s1 = "new_table s dir d p"
  note t = add_table_at[OF c at]
  have "p \<in> set (p # ps)" by simp
  note f = free_unreferenced[OF c this]
  have lt: "p < 2 ^ 20" using f(5) countedD(7)[OF c] by simp
  note e = new_pde[OF lt]
  have full: "(page2pa p OR PTE_P OR PTE_W OR PTE_U) AND (PTE_P OR PTE_W OR PTE_U) = PTE_P OR PTE_W OR PTE_U"
    by (intro bit_word_eqI) (auto simp: bit_simps)
  have pde: "pde_at ?s1 a i = (if a = dir \<and> i = d then page2pa p OR PTE_P OR PTE_W OR PTE_U else pde_at s a i)"
    if "a \<in> D" for a i using t(2) t(3)[OF that, of i] by (auto simp: pde_at_def)
  have open1: "open_tables ?s1 a" if "a \<in> D" "open_tables s a" for a
    using that(2) full by (auto simp: open_tables_def pde[OF that(1)])
  have tables1: "tables ?s1 a = tables s a \<union> (if a = dir then {d} else {})" if "a \<in> D" for a
    using at(2) e(3) by (auto simp: tables_def pde[OF that])
  note r' = remapsD[OF r]
  show ?thesis
    unfolding remaps_def
  proof (intro conjI ballI allI impI)
    show "npages s' = npages s" using r'(1) by (simp add: new_table_sel)
  next
    fix a m assume "a \<in> D" "m < user_pages"
    then show "entry s' a m = (if a = dir \<and> m = n then v else entry s a m)" by (simp add: r'(2) t(1))
  next
    fix a i assume h: "a \<in> D" "UPDX \<le> i"
    then have "\<not> (a = dir \<and> i = d)" using at(2) by auto
    with h show "phys s' a i = phys s a i" by (simp add: r'(3) t(3))
  next
    fix a assume "a \<in> D" "open_tables s a"
    then show "open_tables s' a" using r'(4) open1 by blast
  next
    fix a assume a: "a \<in> D"
    show "tables s a \<subseteq> tables s' a" "tables s' a \<subseteq> tables s a \<union> (if a = dir then {n div 1024} else {})"
      using r'(5,6)[OF a] n by (auto simp: tables1[OF a] split: if_splits)
  next
    fix g assume g: "data_frame s D g \<and> g \<notin> set (p # ps)"
    then have "data_frame ?s1 D g" "phys ?s1 g = phys s g" using t(4)[of g] by auto
    with g show "phys s' g = phys s g" using r'(7)[of g] by simp
  qed
qed

lemma free_length:
  assumes "counted s D x K L ps" and "counted s' D' x' K L' ps'" and "set ps \<subseteq> set ps'"
  shows "length ps \<le> length ps'"
proof -
  have "distinct ps" "distinct ps'" using countedD(2) assms(1,2) by (auto simp: page_repr_def)
  then show ?thesis using card_mono[OF _ assms(3)] by (simp add: distinct_card)
qed

text \<open>\<^verbatim>\<open>page_insert\<close> needs one free page when the table is missing.\<close>

lemma insert_remaps:
  assumes c: "counted s D x K L ps" and dir: "dir \<in> D" and va: "va < UTOP"
    and pp: "data_frame s D pp" "pp \<notin> set ps" "unat (pp_ref s pp) < 65535" "K pp = None" and perm: "flags_ok perm"
    and room: "unat (PDX va) \<in> tables s dir \<or> ps \<noteq> []"
  shows "\<exists>s' ps'. page_insert cur s dir pp va perm = Inr (s', 0) \<and> counted s' D x K (L - {pp}) ps'
    \<and> remaps s s' D ps dir (page_no va) (page2pa pp OR perm OR PTE_P)
    \<and> length ps \<le> length ps' + (if unat (PDX va) \<in> tables s dir then 0 else 1)"
proof -
  let ?d = "unat (PDX va)" and ?v = "page2pa pp OR perm OR PTE_P"
  note u = user_pdx[OF va]
  have tb: "?d \<in> tables s dir \<longleftrightarrow> pde_at s dir ?d \<noteq> 0" using u by (simp add: tables_def)
  have mapped: "\<exists>s2 s' ps'. page_remove cur (incref s1 pp) dir va = Inr s2
      \<and> s' = write_pte s2 (frame_of (pde_at s1 dir ?d), unat (PTX va)) ?v
      \<and> counted s' D x K (L - {pp}) ps' \<and> remaps s1 s' D qs dir (page_no va) ?v \<and> length qs \<le> length ps'"
    if c1: "counted s1 D x K L qs" and nz: "pde_at s1 dir ?d \<noteq> 0"
      and f: "data_frame s1 D pp" "pp \<notin> set qs" "unat (pp_ref s1 pp) < 65535" for s1 qs
  proof -
    from insert_entry_counted[OF c1 dir va nz f pp(4) perm, of cur] obtain s2 s' ps' where
      i: "page_remove cur (incref s1 pp) dir va = Inr s2" "npages s' = npages s1"
        "s' = write_pte s2 (frame_of (pde_at s1 dir ?d), unat (PTX va)) ?v"
        "counted s' D x K (L - {pp}) ps'" "set ps' \<supseteq> set qs"
        "phys s' = set_cell (phys s1) (frame_of (pde_at s1 dir ?d)) (unat (PTX va)) ?v" by blast
    have "remaps s1 s' D qs dir (page_no va) ?v"
      by (rule write_remaps[OF countedD(1)[OF c1] dir va nz i(6,2)])
    with i(1,3,4) free_length[OF c1 i(4,5)] show ?thesis by blast
  qed
  show ?thesis
  proof (cases "pde_at s dir ?d = 0")
    case False
    note h = shapeD[OF countedD(1)[OF c] dir u False]
    from mapped[OF c False pp(1-3)] obtain s2 s' ps' where
      i: "page_remove cur (incref s pp) dir va = Inr s2" "s' = write_pte s2 (frame_of (pde_at s dir ?d), unat (PTX va)) ?v"
        "counted s' D x K (L - {pp}) ps'" "remaps s s' D ps dir (page_no va) ?v" "length ps \<le> length ps'" by blast
    have "page_insert cur s dir pp va perm = Inr (s', 0)"
      using i(1,2) by (simp add: page_insert_def walk_mapped[OF False h(3)])
    with i(3-5) show ?thesis by (auto simp: tb)
  next
    case True
    then obtain p qs where ps: "ps = p # qs" using room by (cases ps) (auto simp: tb)
    note cp = c[unfolded ps]
    let ?s1 = "new_table s dir ?d p"
    have c1: "counted ?s1 D x K L qs" by (rule new_table_counted[OF cp dir u True])
    note t = add_table_at[OF cp dir u True]
    have f: "p \<noteq> dir" "p < 2 ^ 20" using free_unreferenced(4,5)[OF cp, of p] dir countedD(7)[OF c] by auto
    have pde: "pde_at ?s1 dir ?d \<noteq> 0" "frame_of (pde_at ?s1 dir ?d) = p" using t(2) new_pde[OF f(2)] by simp_all
    have "pp_ref ?s1 pp = pp_ref s pp" using pp(2) ps by (simp add: new_table_def write_pte_def incref_def zero_page_def)
    then have g: "data_frame ?s1 D pp" "pp \<notin> set qs" "unat (pp_ref ?s1 pp) < 65535"
      using pp t(4)[OF pp(1)] ps by auto
    from mapped[OF c1 pde(1) g] obtain s2 s' ps' where
      i: "page_remove cur (incref ?s1 pp) dir va = Inr s2" "s' = write_pte s2 (p, unat (PTX va)) ?v"
        "counted s' D x K (L - {pp}) ps'" "remaps ?s1 s' D qs dir (page_no va) ?v" "length qs \<le> length ps'"
      unfolding pde(2) by blast
    have "page_insert cur s dir pp va perm = Inr (s', 0)"
      using i(1,2) walk_create[OF True countedD(2)[OF cp] f(1)] by (simp add: page_insert_def)
    moreover have "remaps s s' D ps dir (page_no va) ?v"
      unfolding ps by (rule new_table_remaps[OF cp dir u True i(4)]) (simp add: page_no_split)
    ultimately show ?thesis using i(3,5) True by (auto simp: tb ps)
  qed
qed

lemma remove_remaps:
  assumes c: "counted s D x K L ps" and dir: "dir \<in> D" and va: "va < UTOP"
    and mapped: "unat (PDX va) \<in> tables s dir"
  shows "\<exists>s' ps'. page_remove cur s dir va = Inr s' \<and> counted s' D x K L ps'
    \<and> remaps s s' D ps dir (page_no va) 0 \<and> length ps \<le> length ps'"
proof -
  have nz: "pde_at s dir (unat (PDX va)) \<noteq> 0" using mapped by (simp add: tables_def)
  from remove_counted[OF c dir va, of cur] nz obtain s' ps' where
    r: "page_remove cur s dir va = Inr s'" "counted s' D x K L ps'" "set ps \<subseteq> set ps'" "npages s' = npages s"
      "phys s' = set_cell (phys s) (frame_of (pde_at s dir (unat (PDX va)))) (unat (PTX va)) 0" by blast
  with write_remaps[OF countedD(1)[OF c] dir va nz r(5,4)] free_length[OF c r(2,3)] show ?thesis by blast
qed

lemma free_frame_entries:
  assumes c: "counted s D x K L ps" and p: "p \<in> set ps" and ph: "phys s' = (phys s)(p := page)" and dir: "dir \<in> D"
  shows "phys s' dir = phys s dir" and "entry s' dir n = entry s dir n \<or> user_pages \<le> n"
proof -
  note f = free_unreferenced[OF c p]
  show up: "phys s' dir = phys s dir" using f(4) dir by (auto simp: ph)
  then have pde: "pde_at s' dir = pde_at s dir" by (simp add: pde_at_def fun_eq_iff)
  show "entry s' dir n = entry s dir n \<or> user_pages \<le> n"
  proof (cases "user_pages \<le> n \<or> pde_at s dir (n div 1024) = 0")
    case False
    then have "(dir, n div 1024) \<in> pde_refs s D (frame_of (pde_at s dir (n div 1024)))"
      using dir user_pages_split[of n] by (simp add: pde_refs_def)
    then have "frame_of (pde_at s dir (n div 1024)) \<noteq> p" using f(1) by auto
    then show ?thesis by (simp add: entry_def pde pte_at_def) (simp add: ph)
  qed (auto simp: entry_def pde)
qed

end
