(* ===== verification/CowFork.thy ===== *)
theory CowFork
  imports AddressSpace KernelMem Ulib
begin

unbundle bit_operations_syntax

text \<open>
  Copy-on-write fork (\<^verbatim>\<open>lib/fork.c\<close>) over the system calls it makes: in an accounted kernel the loop
  of \<^verbatim>\<open>fork\<close> gives the child the pages of its parent, none of them writable by either, and the page
  fault handler gives the writer a copy of its own.
\<close>

section \<open>System calls on pages as updates of one entry\<close>

definition target :: "kst \<Rightarrow> u32 \<Rightarrow> nat \<Rightarrow> bool" where
  "target k envid d \<longleftrightarrow> (\<exists>i. envid2env k envid True = Inr (0, Some i) \<and> env_pgdir (envs k i) = Some d)"

lemma target_dir: "target k envid d \<Longrightarrow> d \<in> dirs k"
  by (auto simp: target_def)

lemma envid2env_mem [simp]: "curenv (k\<lparr>mem := m\<rparr>) = curenv k" "envid2env (k\<lparr>mem := m\<rparr>) = envid2env k"
proof -
  show c: "curenv (k\<lparr>mem := m\<rparr>) = curenv k" by (simp add: curenv_def)
  show "envid2env (k\<lparr>mem := m\<rparr>) = envid2env k" by (intro ext) (simp add: envid2env_def c Let_def cong: if_cong)
qed

lemma target_mem [simp]: "target (k\<lparr>mem := m\<rparr>) envid d = target k envid d"
  by (simp add: target_def)

lemma kst_mem [simp]: "dirs (k\<lparr>mem := m\<rparr>) = dirs k" "held (k\<lparr>mem := m\<rparr>) = held k"
  by (simp_all add: dirs_def held_def fun_eq_iff)

abbreviation accounted :: "(nat \<rightharpoonup> nat \<Rightarrow> u32) \<Rightarrow> kst \<Rightarrow> nat set \<Rightarrow> nat list \<Rightarrow> bool" where
  "accounted K k L ps \<equiv> counted (mem k) (dirs k) (held k) K L ps"

lemma lookup_entry:
  assumes c: "counted s D x K L ps" and dir: "dir \<in> D" and va: "va < UTOP" and e: "entry s dir (page_no va) \<noteq> 0"
  shows "page_lookup s dir va = Inr (Some (frame_of (entry s dir (page_no va)),
           (frame_of (pde_at s dir (unat (PDX va))), unat (PTX va))))"
    and "read_pte s (frame_of (pde_at s dir (unat (PDX va))), unat (PTX va)) = entry s dir (page_no va)"
proof -
  let ?e = "entry s dir (page_no va)"
  have nz: "pde_at s dir (unat (PDX va)) \<noteq> 0" and eq: "?e = pte_at s dir (unat (PDX va)) (unat (PTX va))"
    using e by (auto simp: entry_def page_no_split split: if_splits)
  note h = shapeD(3)[OF countedD(1)[OF c] dir user_pdx[OF va] nz]
  have f: "frame_of ?e < npages s"
    using entry_account(1)[OF c dir page_no_less[OF va] e] by (simp add: data_frame_def)
  show r: "read_pte s (frame_of (pde_at s dir (unat (PDX va))), unat (PTX va)) = ?e"
    by (simp add: read_pte_def eq pte_at_def)
  have P: "PTE_P \<noteq> 0" by (simp add: pte_bits)
  have "pa2page s (PTE_ADDR ?e) = Inr (frame_of ?e)" using f by (simp add: pa2page_def frame_of_def)
  then show "page_lookup s dir va = Inr (Some (frame_of ?e, (frame_of (pde_at s dir (unat (PDX va))), unat (PTX va))))"
    using e P by (simp add: page_lookup_def walk_mapped[OF nz h] r)
qed

lemma W_bit: "e AND PTE_W \<noteq> 0 \<Longrightarrow> PTE_W AND e = PTE_W"
proof -
  have W: "PTE_W = 2 ^ 1" by (simp add: PTE_W_def)
  assume "e AND PTE_W \<noteq> 0"
  then have "bit e 1" unfolding W by (simp only: and_exp_eq_0_iff_not_bit not_not)
  then show ?thesis unfolding W by (intro bit_word_eqI) (auto simp: bit_simps)
qed

lemma map_call:
  assumes c: "accounted K k L ps" and src: "target k a sd" and dst: "target k b dd"
    and va: "\<not> bad_va va" "\<not> bad_va va'" and e: "entry (mem k) sd (page_no va) \<noteq> 0"
    and perm: "flags_ok perm" "perm AND PTE_W = 0 \<or> entry (mem k) sd (page_no va) AND PTE_W \<noteq> 0"
    and ref: "unat (pp_ref (mem k) (frame_of (entry (mem k) sd (page_no va)))) < 65535"
    and room: "unat (PDX va') \<in> tables (mem k) dd \<or> ps \<noteq> []"
  shows "\<exists>m ps'. u_page_map k a va b va' perm = Inr (Return 0, k\<lparr>mem := m\<rparr>) \<and> accounted K (k\<lparr>mem := m\<rparr>) L ps'
    \<and> remaps (mem k) m (dirs k) ps dd (page_no va')
         (page2pa (frame_of (entry (mem k) sd (page_no va))) OR (PTE_P OR PTE_U OR perm) OR PTE_P)
    \<and> length ps \<le> length ps' + (if unat (PDX va') \<in> tables (mem k) dd then 0 else 1)"
proof -
  let ?e = "entry (mem k) sd (page_no va)" let ?p = "PTE_P OR PTE_U OR perm"
  have dirs: "sd \<in> dirs k" "dd \<in> dirs k" using target_dir src dst by blast+
  note lt = good_va_user[OF va(1)] good_va_user[OF va(2)]
  note f = entry_account[OF c dirs(1) page_no_less[OF lt(1)] e]
  have fl: "flags_ok ?p" using perm(1) by (simp add: flags_ok_or)
  obtain m ps' where m: "page_insert (cur_pgdir k) (mem k) dd (frame_of ?e) va' ?p = Inr (m, 0)"
    "counted m (dirs k) (held k) K (L - {frame_of ?e}) ps'"
    "remaps (mem k) m (dirs k) ps dd (page_no va') (page2pa (frame_of ?e) OR ?p OR PTE_P)"
    "length ps \<le> length ps' + (if unat (PDX va') \<in> tables (mem k) dd then 0 else 1)"
    using insert_remaps[OF c dirs(2) lt(2) f(1,2) ref f(3) fl room, of "cur_pgdir k"] by blast
  have w: "(?p AND PTE_W) AND NOT (PTE_W AND ?e) = 0"
  proof (cases "perm AND PTE_W = 0")
    case True
    then have "?p AND PTE_W = 0" by (simp add: bit.conj_disj_distrib2) (simp add: pte_bits)
    then show ?thesis by simp
  next
    case False
    then have "PTE_W AND ?e = PTE_W" using perm(2) W_bit by blast
    then show ?thesis by (simp add: and.assoc)
  qed
  obtain i j where ij: "envid2env k a True = Inr (0, Some i)" "env_pgdir (envs k i) = Some sd"
    "envid2env k b True = Inr (0, Some j)" "env_pgdir (envs k j) = Some dd"
    using src dst by (auto simp: target_def)
  have "u_page_map k a va b va' perm = Inr (Return 0, k\<lparr>mem := m\<rparr>)"
    using ij va m(1) w lookup_entry[OF c dirs(1) lt(1) e]
    by (simp add: u_page_map_def usyscall_def syscall_def sys_numbers sys_page_map_def env_page_map_def insert_page_def Let_def)
  moreover have "accounted K (k\<lparr>mem := m\<rparr>) L ps'" using m(2) by (auto simp: counted_def)
  ultimately show ?thesis using m(3,4) by blast
qed

lemma unmap_call:
  assumes c: "accounted K k L ps" and t: "target k a d" and va: "\<not> bad_va va" "unat (PDX va) \<in> tables (mem k) d"
  shows "\<exists>m ps'. u_page_unmap k a va = Inr (Return 0, k\<lparr>mem := m\<rparr>) \<and> accounted K (k\<lparr>mem := m\<rparr>) L ps'
    \<and> remaps (mem k) m (dirs k) ps d (page_no va) 0 \<and> length ps \<le> length ps'"
proof -
  obtain m ps' where m: "page_remove (cur_pgdir k) (mem k) d va = Inr m" "counted m (dirs k) (held k) K L ps'"
    "remaps (mem k) m (dirs k) ps d (page_no va) 0" "length ps \<le> length ps'"
    using remove_remaps[OF c target_dir[OF t] good_va_user[OF va(1)] va(2), of "cur_pgdir k"] by blast
  obtain i where i: "envid2env k a True = Inr (0, Some i)" "env_pgdir (envs k i) = Some d" using t by (auto simp: target_def)
  have "u_page_unmap k a va = Inr (Return 0, k\<lparr>mem := m\<rparr>)"
    using i va m(1) by (simp add: u_page_unmap_def usyscall_def syscall_def sys_numbers sys_page_unmap_def Let_def)
  with m(2-4) show ?thesis by auto
qed

lemma pde_refs_cong: "(\<And>dir. dir \<in> D \<Longrightarrow> phys s' dir = phys s dir) \<Longrightarrow> pde_refs s' D = pde_refs s D"
  by (auto simp: pde_refs_def pde_at_def fun_eq_iff)

lemma zeroed_remaps:
  assumes c: "counted s D x K L (p # qs)" and ph: "phys m1 = (phys s)(p := \<lambda>_. 0)" and np: "npages m1 = npages s"
    and r: "remaps m1 m D qs d n v"
  shows "remaps s m D (p # qs) d n v"
proof -
  have p: "p \<in> set (p # qs)" by simp
  note f = free_frame_entries[OF c p ph]
  have df: "data_frame m1 D = data_frame s D"
    using pde_refs_cong[of D m1 s] f(1) np by (simp add: data_frame_def fun_eq_iff)
  show ?thesis
    unfolding remaps_def
  proof (intro conjI ballI allI impI)
    show "npages m = npages s" using remapsD(1)[OF r] np by simp
  next
    fix a i assume "a \<in> D" "i < user_pages"
    then show "entry m a i = (if a = d \<and> i = n then v else entry s a i)"
      using f(2)[of a i] by (auto simp: remapsD(2)[OF r])
  next
    fix a i assume "a \<in> D" "UPDX \<le> i"
    then show "phys m a i = phys s a i" by (simp add: remapsD(3)[OF r] f(1))
  next
    fix a assume a: "a \<in> D" and "open_tables s a"
    then have "open_tables m1 a" by (simp add: pdes_cong(1)[OF f(1)[OF a]])
    then show "open_tables m a" using remapsD(4)[OF r a] by simp
  next
    fix a assume a: "a \<in> D"
    show "tables s a \<subseteq> tables m a" "tables m a \<subseteq> tables s a \<union> (if a = d then {n div 1024} else {})"
      using remapsD(5,6)[OF r a] by (simp_all add: pdes_cong(2)[OF f(1)[OF a]])
  next
    fix g assume g: "data_frame s D g \<and> g \<notin> set (p # qs)"
    then have "phys m1 g = phys s g" "data_frame m1 D g" by (simp_all add: ph df)
    with g show "phys m g = phys s g" using remapsD(7)[OF r, of g] by simp
  qed
qed

lemma alloc_call:
  assumes c: "accounted K k L (p # qs)" and t: "target k a d" and va: "\<not> bad_va va"
    and perm: "perm AND NOT PTE_SYSCALL = 0"
    and room: "unat (PDX va) \<in> tables (mem k) d \<or> qs \<noteq> []"
  shows "\<exists>m ps'. u_page_alloc k a va perm = Inr (Return 0, k\<lparr>mem := m\<rparr>) \<and> accounted K (k\<lparr>mem := m\<rparr>) L ps'
    \<and> remaps (mem k) m (dirs k) (p # qs) d (page_no va) (page2pa p OR (perm OR PTE_U OR PTE_P) OR PTE_P)
    \<and> phys m p = (\<lambda>_. 0) \<and> length qs \<le> length ps' + (if unat (PDX va) \<in> tables (mem k) d then 0 else 1)"
proof -
  let ?q = "perm OR PTE_U OR PTE_P"
  note dir = target_dir[OF t] and lt = good_va_user[OF va]
  have "?q AND NOT PTE_SYSCALL = 0" using perm by (simp add: bit.conj_disj_distrib2) (simp add: pte_bits)
  moreover have "?q AND PTE_P \<noteq> 0" "?q AND PTE_U \<noteq> 0"
    by (simp_all add: bit.conj_disj_distrib2) (simp_all add: pte_bits)
  ultimately have cp: "check_perm ?q None = 0" by (simp add: check_perm_def)
  then have fl: "flags_ok ?q" by (intro check_perm_flags) simp
  obtain m1 where m1: "page_alloc (mem k) True = Inr (Some p, m1)" "counted m1 (dirs k) (held k) K (insert p L) qs"
    "phys m1 = (phys (mem k))(p := \<lambda>_. 0)" "npages m1 = npages (mem k)" "pp_ref m1 = pp_ref (mem k)"
    using alloc_zeroed[OF c] by blast
  have p: "p \<in> set (p # qs)" by simp
  note f = free_unreferenced[OF c p]
  have ref: "pp_ref m1 p = 0" "p \<notin> set qs" using countedD(2)[OF c] m1(5) by (simp_all add: page_repr_def)
  have df: "data_frame m1 (dirs k) p" using unreferenced(5)[OF m1(2)] f(5) m1(4) ref(1) by simp
  have tb: "tables m1 d = tables (mem k) d" by (rule pdes_cong(2)[OF free_frame_entries(1)[OF c p m1(3) dir]])
  have K: "K p = None" using not_kept[OF c] by simp
  have r16: "unat (pp_ref m1 p) < 65535" by (simp add: ref(1))
  obtain m ps' where m: "page_insert (cur_pgdir k) m1 d p va ?q = Inr (m, 0)"
    "counted m (dirs k) (held k) K (insert p L - {p}) ps'"
    "remaps m1 m (dirs k) qs d (page_no va) (page2pa p OR ?q OR PTE_P)"
    "length qs \<le> length ps' + (if unat (PDX va) \<in> tables (mem k) d then 0 else 1)"
    using insert_remaps[OF m1(2) dir lt df ref(2) r16 K fl, of "cur_pgdir k"] room unfolding tb by blast
  obtain i where i: "envid2env k a True = Inr (0, Some i)" "env_pgdir (envs k i) = Some d" using t by (auto simp: target_def)
  have "u_page_alloc k a va perm = Inr (Return 0, k\<lparr>mem := m\<rparr>)"
    using i va m1(1) m(1) cp
    by (simp add: u_page_alloc_def usyscall_def syscall_def sys_numbers sys_page_alloc_def env_page_alloc_def insert_page_def Let_def)
  moreover have "accounted K (k\<lparr>mem := m\<rparr>) L ps'" using m(2) by (auto simp: counted_def)
  moreover have "phys m p = (\<lambda>_. 0)" using remapsD(7)[OF m(3) df ref(2)] by (simp add: m1(3))
  ultimately show ?thesis using zeroed_remaps[OF c m1(3,4) m(3)] m(4) by blast
qed

section \<open>What the user reads\<close>

text \<open>Every directory is mapped to itself, as \<^verbatim>\<open>env_setup_vm\<close> leaves it.\<close>

definition self_mapped :: "kmem \<Rightarrow> nat \<Rightarrow> bool" where
  "self_mapped s d \<longleftrightarrow> d < 2 ^ 20 \<and> phys s d (unat (PDX UVPT)) = page2pa d OR PTE_P OR PTE_U"

definition access :: "bool \<Rightarrow> u32" where
  "access write = PTE_P OR PTE_U OR (if write then PTE_W else 0)"

lemma access_open: "w AND (PTE_P OR PTE_W OR PTE_U) = PTE_P OR PTE_W OR PTE_U \<Longrightarrow> w AND access b = access b"
proof -
  assume w: "w AND (PTE_P OR PTE_W OR PTE_U) = PTE_P OR PTE_W OR PTE_U"
  have a: "(PTE_P OR PTE_W OR PTE_U) AND access b = access b" by (cases b) (simp_all add: access_def pte_bits)
  have "w AND access b = (w AND (PTE_P OR PTE_W OR PTE_U)) AND access b" by (simp only: and.assoc a)
  then show ?thesis by (simp only: w a)
qed

lemma user_frame_entry:
  assumes op: "open_tables s d" and va: "va < UTOP"
  shows "user_frame s d va w = (if entry s d (page_no va) AND access w = access w
     then Some (frame_of (entry s d (page_no va))) else None)"
proof -
  have nz: "access w \<noteq> 0" by (simp add: access_def pte_bits)
  have pg: "unat (PGNUM e) = frame_of e" for e by (simp add: unat_PGNUM frame_of_unat)
  show ?thesis
  proof (cases "pde_at s d (unat (PDX va)) = 0")
    case True
    then show ?thesis using nz
      by (simp add: user_frame_def access_def[symmetric] entry_def page_no_split Let_def) (simp add: pde_at_def)
  next
    case False
    then have e: "pde_at s d (unat (PDX va)) AND (PTE_P OR PTE_W OR PTE_U) = PTE_P OR PTE_W OR PTE_U"
      using op user_pdx[OF va] by (simp add: open_tables_def)
    then have "pde_at s d (unat (PDX va)) AND access w = access w" by (rule access_open)
    then show ?thesis using False
      by (simp add: user_frame_def access_def[symmetric] entry_def page_no_split pte_at_def pg Let_def) (simp add: pde_at_def)
  qed
qed

text \<open>Reading through the self map: a word of the table at index \<open>i\<close>.\<close>

lemma self_map_load:
  assumes sm: "self_mapped (mem k) (cr3 k)" and va: "unat va = 957 * 4194304 + 4096 * i + 4 * t" and i: "i < 1024" "t < 1024"
    and e: "phys (mem k) (cr3 k) i AND access False = access False"
  shows "user_load k va = Inr (phys (mem k) (frame_of (phys (mem k) (cr3 k) i)) t)"
proof -
  have uv: "unat (PDX UVPT) = 957" by (simp add: unat_PDX memlayout_defs mmu_consts)
  have dv: "unat va div 4096 = 979968 + i" "unat va div 4194304 = 957"
    unfolding va by (rule div_nat_eqI; use i in simp)+
  moreover have "unat va mod 4096 = 4 * t" unfolding va by (rule mod_nat_eqI) (use i in simp_all)
  moreover have "(979968 + i) mod 1024 = i" by (rule mod_nat_eqI) (use i in simp_all)
  ultimately have ix: "unat (PDX va) = 957" "unat (PTX va) = i" "unat (PGOFF va) div 4 = t"
    by (simp_all add: unat_PDX unat_PTX unat_PGOFF)
  let ?pde = "page2pa (cr3 k) OR PTE_P OR PTE_U"
  have f: "flags_ok (PTE_P OR PTE_U)" by (simp add: flags_ok_or)
  have lt: "cr3 k < 2 ^ 20" using sm by (simp add: self_mapped_def)
  have pg: "unat (PGNUM w) = frame_of w" for w by (simp add: unat_PGNUM frame_of_unat)
  have pde: "phys (mem k) (cr3 k) 957 = ?pde" using sm by (simp add: self_mapped_def uv)
  have "?pde AND access False = access False"
    by (intro bit_word_eqI) (auto simp: bit_simps access_def)
  then show ?thesis using e frame_of_entry[OF lt f]
    by (simp add: user_load_def user_frame_def access_def[symmetric] ix pde pg Let_def) (simp add: access_def)
qed

lemma uvpt_entry:
  assumes sm: "self_mapped (mem k) (cr3 k)" and n: "n < user_pages" and op: "open_tables (mem k) (cr3 k)"
    and pde: "n div 1024 \<in> tables (mem k) (cr3 k)"
  shows "uvpt k (word_of_nat n) = Inr (entry (mem k) (cr3 k) n)"
proof -
  have lt: "n < 2 ^ 20" using n by (simp add: user_pages_def UPDX_def)
  then have "unat (UVPT + 4 * word_of_nat n) = 957 * 4194304 + 4 * n"
    by (simp add: memlayout_defs mmu_consts unat_word_ariths unat_of_nat)
  moreover have "4 * (1024 * a + b) = 4096 * a + 4 * b" for a b :: nat by simp
  from this[of "n div 1024" "n mod 1024"] have "4 * n = 4096 * (n div 1024) + 4 * (n mod 1024)"
    unfolding mult_div_mod_eq .
  ultimately have u: "unat (UVPT + 4 * word_of_nat n) = 957 * 4194304 + 4096 * (n div 1024) + 4 * (n mod 1024)"
    by (simp only: add.assoc)
  have d: "n div 1024 < 1024" "n mod 1024 < 1024" using user_pages_split[OF n] by (simp_all add: UPDX_def)
  have e: "phys (mem k) (cr3 k) (n div 1024) AND access False = access False"
    using op pde by (intro access_open) (simp add: open_tables_def tables_def pde_at_def)
  have nz: "pde_at (mem k) (cr3 k) (n div 1024) \<noteq> 0" using pde by (simp add: tables_def)
  show ?thesis
    using self_map_load[OF sm u d e] nz by (simp add: uvpt_def entry_def pte_at_def) (simp add: pde_at_def)
qed

lemma uvpd_entry:
  assumes sm: "self_mapped (mem k) (cr3 k)" and d: "d < 1024"
  shows "uvpd k (word_of_nat d) = Inr (pde_at (mem k) (cr3 k) d)"
proof -
  have u: "unat (UVPT + drop_bit PGSHIFT UVPT * 4 + 4 * word_of_nat d) = 957 * 4194304 + 4096 * 957 + 4 * d"
    using d by (simp add: memlayout_defs mmu_consts unat_word_ariths unat_of_nat)
  have uv: "unat (PDX UVPT) = 957" by (simp add: unat_PDX memlayout_defs mmu_consts)
  have lt: "cr3 k < 2 ^ 20" and pde: "phys (mem k) (cr3 k) 957 = page2pa (cr3 k) OR PTE_P OR PTE_U"
    using sm by (simp_all add: self_mapped_def uv)
  have e: "phys (mem k) (cr3 k) 957 AND access False = access False"
    unfolding pde by (intro bit_word_eqI) (auto simp: bit_simps access_def)
  have f: "flags_ok (PTE_P OR PTE_U)" by (simp add: flags_ok_or)
  show ?thesis
    using self_map_load[OF sm u _ d e] frame_of_entry[OF lt f] by (simp add: uvpd_def pde) (simp add: pde_at_def)
qed

section \<open>The pages two environments share\<close>

definition cow :: "u32 \<Rightarrow> bool" where
  "cow e \<longleftrightarrow> e AND PTE_W \<noteq> 0 \<or> e AND PTE_COW \<noteq> 0"

definition dup_perm :: "u32 \<Rightarrow> u32" where
  "dup_perm e = (if cow e then io_flags e (PTE_U OR PTE_P) OR PTE_COW else io_flags e (PTE_U OR PTE_P))"

definition share :: "u32 \<Rightarrow> u32" where
  "share e = page2pa (frame_of e) OR (PTE_P OR PTE_U OR dup_perm e) OR PTE_P"

lemma dup_perm_flags: "flags_ok (dup_perm e)" "dup_perm e AND PTE_W = 0"
proof -
  have 1: "io_flags e p = p \<or> io_flags e p = p OR PTE_PCD OR PTE_PWT" for p by (simp add: io_flags_def)
  have c: "flags_ok PTE_COW" by (simp add: flags_ok_def PTE_COW_def)
  show "flags_ok (dup_perm e)" using 1[of "PTE_U OR PTE_P"] c by (auto simp: dup_perm_def flags_ok_or)
  have "PTE_W = 2 ^ 1" "PTE_COW AND PTE_W = 0" "(PTE_U OR PTE_P) AND PTE_W = 0" "(PTE_PCD OR PTE_PWT) AND PTE_W = 0"
    by (simp_all add: PTE_COW_def pte_bits)
  then show "dup_perm e AND PTE_W = 0"
    using 1[of "PTE_U OR PTE_P"] by (auto simp: dup_perm_def bit.conj_disj_distrib2)
qed

lemma frame_of_less: "frame_of e < 2 ^ 20"
  using unat_u32_less[of e] by (simp add: frame_of_unat)

lemma share_sel:
  "frame_of (share e) = frame_of e" "share e \<noteq> 0" "share e AND PTE_W = 0" "share e AND access False = access False"
  "cow e \<Longrightarrow> share e AND PTE_COW \<noteq> 0"
proof -
  let ?f = "(PTE_P OR PTE_U OR dup_perm e) OR PTE_P"
  have f: "flags_ok ?f" by (simp add: flags_ok_or dup_perm_flags)
  have eq: "share e = page2pa (frame_of e) OR ?f" by (simp add: share_def or.assoc)
  show "frame_of (share e) = frame_of e" unfolding eq by (rule frame_of_entry[OF frame_of_less f])
  have P: "?f AND PTE_P \<noteq> 0" by (simp add: bit.conj_disj_distrib2) (simp add: pte_bits)
  show "share e \<noteq> 0" unfolding eq by (rule page2pa_or_nz[OF P])
  have w: "?f AND PTE_W = 0" using dup_perm_flags(2)[of e] by (simp add: bit.conj_disj_distrib2) (simp add: pte_bits)
  have pw: "page2pa (frame_of e) AND PTE_W = 0" by (rule page2pa_and_flag) simp
  have "share e AND PTE_W = (page2pa (frame_of e) AND PTE_W) OR (?f AND PTE_W)"
    unfolding eq by (rule bit.conj_disj_distrib2)
  then show "share e AND PTE_W = 0" by (simp add: pw w)
  show "share e AND access False = access False"
    by (intro bit_word_eqI) (auto simp: share_def access_def bit_simps)
  show "share e AND PTE_COW \<noteq> 0" if "cow e"
  proof -
    have C: "PTE_COW = 2 ^ 11" by (simp add: PTE_COW_def)
    have "bit (share e) 11" using that by (simp add: share_def dup_perm_def bit_simps C)
    then show ?thesis unfolding C by (simp only: and_exp_eq_0_iff_not_bit not_not)
  qed
qed

text \<open>The state of the fork of the directory \<open>pd\<close> into \<open>cd\<close>: the pages in \<open>S\<close> are shared with the child,
  those in \<open>T\<close> have become copy-on-write for the parent.\<close>

definition forked :: "kmem \<Rightarrow> kmem \<Rightarrow> nat set \<Rightarrow> nat \<Rightarrow> nat \<Rightarrow> nat set \<Rightarrow> nat set \<Rightarrow> bool" where
  "forked s m D pd cd S T \<longleftrightarrow>
     (\<forall>a\<in>D. \<forall>n<user_pages. entry m a n =
        (if a = cd then if n \<in> S then share (entry s pd n) else 0
         else if a = pd \<and> n \<in> T then share (entry s pd n) else entry s a n))
     \<and> (\<forall>a\<in>D. \<forall>i\<ge>UPDX. phys m a i = phys s a i)
     \<and> (\<forall>a\<in>D. open_tables s a \<longrightarrow> open_tables m a)
     \<and> (\<forall>a\<in>D. tables s a \<subseteq> tables m a \<and> tables m a \<subseteq> tables s a \<union> (if a = cd then tables s pd else {}))
     \<and> (\<forall>f. pte_refs s D f \<noteq> {} \<longrightarrow> phys m f = phys s f)"

lemma forkedD:
  assumes "forked s m D pd cd S T"
  shows "a \<in> D \<Longrightarrow> n < user_pages \<Longrightarrow> entry m a n =
        (if a = cd then if n \<in> S then share (entry s pd n) else 0
         else if a = pd \<and> n \<in> T then share (entry s pd n) else entry s a n)"
    and "a \<in> D \<Longrightarrow> UPDX \<le> i \<Longrightarrow> phys m a i = phys s a i"
    and "a \<in> D \<Longrightarrow> open_tables s a \<Longrightarrow> open_tables m a"
    and "a \<in> D \<Longrightarrow> tables s a \<subseteq> tables m a"
    and "a \<in> D \<Longrightarrow> tables m a \<subseteq> tables s a \<union> (if a = cd then tables s pd else {})"
    and "pte_refs s D f \<noteq> {} \<Longrightarrow> phys m f = phys s f"
  using assms unfolding forked_def by (blast | simp)+

lemma forked_refl:
  assumes "\<And>n. n < user_pages \<Longrightarrow> entry s cd n = 0"
  shows "forked s s D pd cd {} {}"
  using assms by (auto simp: forked_def)

lemma pte_refs_entry:
  "(a, d, t) \<in> pte_refs s D f \<longleftrightarrow> a \<in> D \<and> d < UPDX \<and> t < 1024 \<and> entry s a (d * 1024 + t) \<noteq> 0
     \<and> frame_of (entry s a (d * 1024 + t)) = f"
  by (auto simp: pte_refs_def entry_def)

lemma user_pages_join: "d < UPDX \<Longrightarrow> t < 1024 \<Longrightarrow> d * 1024 + t < user_pages"
  by (simp add: user_pages_def UPDX_def)

text \<open>A fork at most doubles the references to a page.\<close>

lemma forked_count:
  assumes f: "forked s m D pd cd S T" and fin: "finite D" and pd: "pd \<in> D"
    and S: "\<And>n. n \<in> S \<union> T \<Longrightarrow> entry s pd n \<noteq> 0"
  shows "card (pte_refs m D p) \<le> 2 * card (pte_refs s D p)"
proof -
  let ?R = "pte_refs s D p"
  have "pte_refs m D p \<subseteq> ?R \<union> (\<lambda>(a, d, t). (cd, d, t)) ` ?R"
  proof
    fix r assume r: "r \<in> pte_refs m D p"
    obtain a d t where adt: "r = (a, d, t)" by (cases r)
    let ?n = "d * 1024 + t"
    have h: "a \<in> D" "d < UPDX" "t < 1024" "entry m a ?n \<noteq> 0" "frame_of (entry m a ?n) = p"
      using r by (simp_all add: adt pte_refs_entry)
    note e = forkedD(1)[OF f h(1) user_pages_join[OF h(2,3)]]
    show "r \<in> ?R \<union> (\<lambda>(a, d, t). (cd, d, t)) ` ?R"
    proof (cases "a = cd")
      case True
      then have n: "?n \<in> S" using e h(4) by (simp split: if_splits)
      then have "(pd, d, t) \<in> ?R" using True e h(2,3,5) pd S[of ?n] by (simp add: pte_refs_entry share_sel)
      then show ?thesis unfolding adt True by force
    next
      case False
      then have "(a, d, t) \<in> ?R" using e h S[of ?n] by (auto simp: pte_refs_entry share_sel split: if_splits)
      then show ?thesis by (simp add: adt)
    qed
  qed
  moreover have fR: "finite ?R" by (rule finite_refs(2)[OF fin])
  ultimately have "card (pte_refs m D p) \<le> card (?R \<union> (\<lambda>(a, d, t). (cd, d, t)) ` ?R)" by (intro card_mono) simp_all
  also have "\<dots> \<le> card ?R + card ((\<lambda>(a, d, t). (cd, d, t)) ` ?R)" by (rule card_Un_le)
  also have "\<dots> \<le> 2 * card ?R" using card_image_le[OF fR] by simp
  finally show ?thesis .
qed

text \<open>The pages the environments had before are still in use.\<close>

lemma forked_in_use:
  assumes f: "forked s m D pd cd S T" and c: "counted m D x K L ps" and empty: "\<And>n. n < user_pages \<Longrightarrow> entry s cd n = 0"
    and r: "pte_refs s D g \<noteq> {}"
  shows "data_frame m D g" and "g \<notin> set ps"
proof -
  obtain a d t where h: "a \<in> D" "d < UPDX" "t < 1024" "entry s a (d * 1024 + t) \<noteq> 0" "frame_of (entry s a (d * 1024 + t)) = g"
    using r pte_refs_entry[of _ _ _ s D g] by (metis equals0I prod_cases3)
  note n = user_pages_join[OF h(2,3)]
  have "a \<noteq> cd" using h(4) empty[OF n] by auto
  then have "entry m a (d * 1024 + t) \<noteq> 0" "frame_of (entry m a (d * 1024 + t)) = g"
    using forkedD(1)[OF f h(1) n] h(4,5) by (auto simp: share_sel)
  then show "data_frame m D g" "g \<notin> set ps" using entry_account(1,2)[OF c h(1) n] by simp_all
qed

lemma forked_step:
  assumes f: "forked s m D pd cd S T" and c: "counted m D x K L ps" and empty: "\<And>n. n < user_pages \<Longrightarrow> entry s cd n = 0"
    and ne: "pd \<noteq> cd" and pd: "pd \<in> D" and n: "n < user_pages" "entry s pd n \<noteq> 0"
    and r: "remaps m m' D ps a n (share (entry s pd n))"
  shows "a = cd \<Longrightarrow> forked s m' D pd cd (insert n S) T" and "a = pd \<Longrightarrow> forked s m' D pd cd S (insert n T)"
proof -
  note e = remapsD(2)[OF r] and f1 = forkedD(1)[OF f]
  have up: "phys m' b i = phys s b i" if "b \<in> D" "UPDX \<le> i" for b i
    using remapsD(3)[OF r that] forkedD(2)[OF f that] by simp
  have op: "open_tables m' b" if "b \<in> D" "open_tables s b" for b
    using remapsD(4)[OF r that(1)] forkedD(3)[OF f that] by blast
  have fr: "phys m' g = phys s g" if "pte_refs s D g \<noteq> {}" for g
    using remapsD(7)[OF r forked_in_use[OF f c empty that]] forkedD(6)[OF f that] by simp
  have "n div 1024 \<in> tables s pd" using n user_pages_split[OF n(1)] by (simp add: entry_def tables_def split: if_splits)
  then have tb: "tables s b \<subseteq> tables m' b \<and> tables m' b \<subseteq> tables s b \<union> (if b = cd then tables s pd else {})"
    if "b \<in> D" "a = cd \<or> a = pd" for b
    using remapsD(5,6)[OF r that(1)] forkedD(4,5)[OF f that(1)] that(2) ne by (auto split: if_splits)
  show "forked s m' D pd cd (insert n S) T" if "a = cd"
    unfolding forked_def using that up op fr tb by (auto simp: e f1)
  show "forked s m' D pd cd S (insert n T)" if "a = pd"
    unfolding forked_def using that ne up op fr tb by (auto simp: e f1)
qed

section \<open>The loop of \<^verbatim>\<open>fork\<close>\<close>

definition page_va :: "nat \<Rightarrow> u32" where
  "page_va n = push_bit PGSHIFT (word_of_nat n)"

lemma page_va:
  assumes "n < user_pages"
  shows "page_no (page_va n) = n" and "\<not> bad_va (page_va n)" and "unat (PDX (page_va n)) = n div 1024"
proof -
  have lt: "n < 977920" using assms by (simp add: user_pages_def UPDX_def)
  then have u: "unat (page_va n) = n * 4096"
    by (simp add: page_va_def PGSHIFT_def push_bit_eq_mult unat_word_ariths unat_of_nat)
  then show n: "page_no (page_va n) = n" by (simp add: page_no_def unat_PGNUM)
  show "\<not> bad_va (page_va n)"
    using lt by (simp add: bad_va_def not_le word_less_nat_alt word_unat_eq_iff unat_mod u memlayout_defs mmu_consts)
  show "unat (PDX (page_va n)) = n div 1024" using page_no_split(1)[of "page_va n"] n by simp
qed

text \<open>A fork of the current environment into the one called \<open>b\<close>, whose address space is new.\<close>

definition forking :: "(nat \<rightharpoonup> nat \<Rightarrow> u32) \<Rightarrow> kst \<Rightarrow> u32 \<Rightarrow> nat \<Rightarrow> nat set \<Rightarrow> nat list \<Rightarrow> bool" where
  "forking K k b cd L ps \<longleftrightarrow> accounted K k L ps \<and> target k 0 (cr3 k) \<and> target k b cd \<and> cr3 k \<noteq> cd
     \<and> self_mapped (mem k) (cr3 k) \<and> open_tables (mem k) (cr3 k) \<and> tables (mem k) cd = {}
     \<and> refs_below 32767 k \<and> card (tables (mem k) (cr3 k)) + 2 < length ps"

definition fork_state :: "(nat \<rightharpoonup> nat \<Rightarrow> u32) \<Rightarrow> kst \<Rightarrow> nat \<Rightarrow> nat set \<Rightarrow> nat list \<Rightarrow> nat set \<Rightarrow> nat set \<Rightarrow> kst \<Rightarrow> bool" where
  "fork_state K k cd L ps S T k' \<longleftrightarrow> k' = k\<lparr>mem := mem k'\<rparr> \<and> forked (mem k) (mem k') (dirs k) (cr3 k) cd S T
     \<and> (\<exists>ps'. accounted K k' L ps' \<and> length ps \<le> length ps' + card (tables (mem k') cd))"

lemma forkingD:
  assumes "forking K k b cd L ps"
  shows "accounted K k L ps" and "target k 0 (cr3 k)" and "target k b cd" and "cr3 k \<noteq> cd"
    and "self_mapped (mem k) (cr3 k)" and "open_tables (mem k) (cr3 k)" and "tables (mem k) cd = {}"
    and "refs_below 32767 k" and "card (tables (mem k) (cr3 k)) + 2 < length ps"
    and "n < user_pages \<Longrightarrow> entry (mem k) cd n = 0"
    and "cr3 k \<in> dirs k" and "cd \<in> dirs k" and "open_tables (mem k) cd"
proof -
  show "accounted K k L ps" "target k 0 (cr3 k)" "target k b cd" "cr3 k \<noteq> cd"
    "self_mapped (mem k) (cr3 k)" "open_tables (mem k) (cr3 k)" and t: "tables (mem k) cd = {}"
    and "refs_below 32767 k" "card (tables (mem k) (cr3 k)) + 2 < length ps"
    using assms by (simp_all add: forking_def)
  then show "cr3 k \<in> dirs k" "cd \<in> dirs k" using target_dir by blast+
  show "n < user_pages \<Longrightarrow> entry (mem k) cd n = 0" using t user_pages_split[of n] by (auto simp: tables_def entry_def)
  show "open_tables (mem k) cd" using t by (auto simp: tables_def open_tables_def)
qed

lemma fork_state_refl:
  assumes "forking K k b cd L ps"
  shows "fork_state K k cd L ps {} {} k"
  using forkingD[OF assms] forked_refl[of "mem k" cd "dirs k" "cr3 k"] by (auto simp: fork_state_def)

text \<open>What a state of the fork keeps of the first one.\<close>

lemma fork_stateD:
  assumes f: "forking K k b cd L ps" and s: "fork_state K k cd L ps S T k'"
  shows "k' = k\<lparr>mem := mem k'\<rparr>" and "forked (mem k) (mem k') (dirs k) (cr3 k) cd S T"
    and "cr3 k' = cr3 k" and "dirs k' = dirs k" and "envs k' = envs k" and "curenv k' = curenv k"
    and "target k' e d = target k e d"
    and "self_mapped (mem k') (cr3 k)" and "open_tables (mem k') (cr3 k)" and "open_tables (mem k') cd"
    and "tables (mem k') (cr3 k) = tables (mem k) (cr3 k)" and "tables (mem k') cd \<subseteq> tables (mem k) (cr3 k)"
proof -
  note d = forkingD[OF f]
  show k': "k' = k\<lparr>mem := mem k'\<rparr>" and fk: "forked (mem k) (mem k') (dirs k) (cr3 k) cd S T"
    using s by (simp_all add: fork_state_def)
  show "cr3 k' = cr3 k" "dirs k' = dirs k" "envs k' = envs k" "target k' e d = target k e d" "curenv k' = curenv k"
    by (subst k', simp)+
  have "UPDX \<le> unat (PDX UVPT)" by (simp add: unat_PDX UPDX_def memlayout_defs mmu_consts)
  then show "self_mapped (mem k') (cr3 k)" using d(5) forkedD(2)[OF fk d(11)] by (simp add: self_mapped_def)
  show "open_tables (mem k') (cr3 k)" "open_tables (mem k') cd"
    using forkedD(3)[OF fk] d(6,11-13) by blast+
  show "tables (mem k') (cr3 k) = tables (mem k) (cr3 k)"
    using forkedD(4,5)[OF fk d(11)] d(4) by auto
  show "tables (mem k') cd \<subseteq> tables (mem k) (cr3 k)" using forkedD(5)[OF fk d(12)] d(7) by simp
qed

text \<open>One mapping of the fork: the page at entry \<open>n\<close> of the parent, into child or parent.\<close>

lemma fork_map:
  assumes f: "forking K k b cd L ps" and s: "fork_state K k cd L ps S T k'"
    and ST: "\<And>i. i \<in> S \<union> T \<Longrightarrow> entry (mem k) (cr3 k) i \<noteq> 0"
    and n: "n < user_pages" "n \<notin> T" "entry (mem k) (cr3 k) n \<noteq> 0"
    and a: "a = b \<and> d = cd \<and> S' = insert n S \<and> T' = T \<or> a = 0 \<and> d = cr3 k \<and> S' = S \<and> T' = insert n T"
  shows "\<exists>k''. u_page_map k' 0 (page_va n) a (page_va n) (dup_perm (entry (mem k) (cr3 k) n)) = Inr (Return 0, k'')
    \<and> fork_state K k cd L ps S' T' k''"
proof -
  let ?e = "entry (mem k) (cr3 k) n"
  note h = forkingD[OF f] and g = fork_stateD[OF f s]
  note va = page_va[OF n(1)]
  obtain ps' where c: "accounted K k' L ps'" "length ps \<le> length ps' + card (tables (mem k') cd)"
    using s by (auto simp: fork_state_def)
  have e: "entry (mem k') (cr3 k) n = ?e"
    using forkedD(1)[OF g(2) h(11) n(1)] h(4) n(2) by simp
  have src: "target k' 0 (cr3 k)" and dst: "target k' a d" using h(2,3) a by (auto simp: g(7))
  have dt: "n div 1024 \<in> tables (mem k) (cr3 k)"
    using n(3) user_pages_split[OF n(1)] by (simp add: entry_def tables_def split: if_splits)
  have room: "n div 1024 \<in> tables (mem k') d \<or> ps' \<noteq> [] \<and> length ps \<le> length ps' + card (tables (mem k') cd)
      \<and> card (tables (mem k') cd) < card (tables (mem k) (cr3 k))"
  proof (cases "n div 1024 \<in> tables (mem k') d")
    case False
    then have "d = cd" using a dt g(11) by auto
    with False have "tables (mem k') cd \<subset> tables (mem k) (cr3 k)" using g(12) dt by auto
    then have "card (tables (mem k') cd) < card (tables (mem k) (cr3 k))" by (intro psubset_card_mono) simp_all
    then show ?thesis using c(2) h(9) by auto
  qed simp
  have dd: "cr3 k \<in> dirs k'" using h(11) g(4) by simp
  have nz: "entry (mem k') (cr3 k) n \<noteq> 0" using e n(3) by simp
  have df: "data_frame (mem k') (dirs k) (frame_of ?e)"
    using entry_account(1)[OF c(1) dd n(1) nz] e g(4) by simp
  have "held k' (frame_of ?e) = 0" using df g(4) by (simp add: data_frame_def held_def)
  then have "unat (pp_ref (mem k') (frame_of ?e)) = card (pte_refs (mem k') (dirs k) (frame_of ?e))"
    using frame_count[OF c(1)] df g(4) by simp
  also have "\<dots> \<le> 2 * card (pte_refs (mem k) (dirs k) (frame_of ?e))"
    by (rule forked_count[OF g(2) countedD(8)[OF h(1)] h(11) ST])
  also have "\<dots> \<le> 2 * unat (pp_ref (mem k) (frame_of ?e))"
    using countedD(4)[OF h(1), of "frame_of ?e"] entry_account(1)[OF h(1) h(11) n(1,3)] by (simp add: data_frame_def refs_def)
  also have "\<dots> < 65535" using h(8)[unfolded refs_below_def, rule_format, of "frame_of ?e"] by linarith
  finally have ref: "unat (pp_ref (mem k') (frame_of ?e)) < 65535" .
  obtain m qs where m: "u_page_map k' 0 (page_va n) a (page_va n) (dup_perm ?e) = Inr (Return 0, k'\<lparr>mem := m\<rparr>)"
    "accounted K (k'\<lparr>mem := m\<rparr>) L qs" "remaps (mem k') m (dirs k') ps' d n (share ?e)"
    "length ps' \<le> length qs + (if n div 1024 \<in> tables (mem k') d then 0 else 1)"
    using map_call[OF c(1) src dst va(2,2), unfolded va e, OF n(3) dup_perm_flags(1)[of ?e] disjI1[OF dup_perm_flags(2)] ref]
      room unfolding share_def[symmetric] by blast
  have r: "remaps (mem k') m (dirs k) ps' d n (share ?e)" using m(3) g(4) by simp
  have c': "counted (mem k') (dirs k) (held k') K L ps'" using c(1) g(4) by simp
  note st = forked_step[OF g(2) c' h(10) h(4) h(11) n(1,3) r]
  have fk: "forked (mem k) m (dirs k) (cr3 k) cd S' T'" using a st by auto
  have sub: "tables (mem k') cd \<subseteq> tables m cd" by (rule remapsD(5)[OF r h(12)])
  have "length ps \<le> length qs + card (tables m cd)"
  proof (cases "n div 1024 \<in> tables (mem k') d")
    case True
    then show ?thesis using c(2) m(4) card_mono[OF finite_tables sub] by simp
  next
    case False
    then have d: "d = cd" using a dt g(11) by auto
    have "entry m cd n \<noteq> 0" using remapsD(2)[OF r h(12) n(1)] d by (simp add: share_sel)
    then have "n div 1024 \<in> tables m cd" using user_pages_split[OF n(1)] by (simp add: entry_def tables_def split: if_splits)
    then have "tables (mem k') cd \<subset> tables m cd" using sub False d by auto
    then have "card (tables (mem k') cd) < card (tables m cd)" by (intro psubset_card_mono) simp_all
    then show ?thesis using c(2) m(4) False by simp
  qed
  moreover have "k'\<lparr>mem := m\<rparr> = k\<lparr>mem := m\<rparr>" by (subst g(1)) simp
  ultimately have "fork_state K k cd L ps S' T' (k'\<lparr>mem := m\<rparr>)"
    using m(2) fk by (auto simp: fork_state_def)
  with m(1) show ?thesis by blast
qed

lemma duppage_step:
  assumes f: "forking K k b cd L ps" and s: "fork_state K k cd L ps S T k'"
    and ST: "\<And>i. i \<in> S \<union> T \<Longrightarrow> entry (mem k) (cr3 k) i \<noteq> 0"
    and n: "n < user_pages" "n \<notin> T"
    and e: "entry (mem k) (cr3 k) n AND PTE_P \<noteq> 0" "entry (mem k) (cr3 k) n AND PTE_U \<noteq> 0"
  shows "\<exists>k''. duppage k' b (word_of_nat n) = Inr (Return (), k'')
    \<and> fork_state K k cd L ps (insert n S) (if cow (entry (mem k) (cr3 k) n) then insert n T else T) k''"
proof -
  let ?e = "entry (mem k) (cr3 k) n"
  have nz: "?e \<noteq> 0" using e by auto
  note h = forkingD[OF f] and g = fork_stateD[OF f s]
  have "entry (mem k') (cr3 k) n = ?e" using forkedD(1)[OF g(2) h(11) n(1)] h(4) n(2) by simp
  moreover have "n div 1024 \<in> tables (mem k) (cr3 k)"
    using nz user_pages_split[OF n(1)] by (simp add: entry_def tables_def split: if_splits)
  ultimately have u: "uvpt k' (word_of_nat n) = Inr ?e"
    using uvpt_entry[of k' n] g(3,8,9,11) n(1) by simp
  obtain k1 where k1: "u_page_map k' 0 (page_va n) b (page_va n) (dup_perm ?e) = Inr (Return 0, k1)"
    "fork_state K k cd L ps (insert n S) T k1"
    using fork_map[OF f s ST n nz, of b cd "insert n S" T] by blast
  show ?thesis
  proof (cases "cow ?e")
    case False
    then have "duppage k' b (word_of_nat n) = Inr (Return (), k1)"
      using e k1(1) by (simp add: duppage_def u page_va_def[symmetric] must_def dup_perm_def cow_def Let_def)
    then show ?thesis using k1(2) False by auto
  next
    case True
    have ST1: "\<And>i. i \<in> insert n S \<union> T \<Longrightarrow> entry (mem k) (cr3 k) i \<noteq> 0" using ST nz by auto
    obtain k2 where k2: "u_page_map k1 0 (page_va n) 0 (page_va n) (dup_perm ?e) = Inr (Return 0, k2)"
      "fork_state K k cd L ps (insert n S) (insert n T) k2"
      using fork_map[OF f k1(2) ST1 n nz, of 0 "cr3 k" "insert n S" "insert n T"] by blast
    have dp: "dup_perm ?e = io_flags ?e (PTE_U OR PTE_P) OR PTE_COW" using True by (simp add: dup_perm_def)
    have "duppage k' b (word_of_nat n) = Inr (Return (), k2)"
      using e k1(1) k2(1) True[unfolded cow_def]
      by (simp add: duppage_def u page_va_def[symmetric] must_def dp Let_def)
    then show ?thesis using k2(2) True by auto
  qed
qed

lemma for_pages_inv:
  assumes "\<And>p k. p < N \<Longrightarrow> I p k \<Longrightarrow> \<exists>k'. body k (word_of_nat p) = Inr (Return (), k') \<and> I (Suc p) k'"
    and "I p k" and "p + n = N"
  shows "\<exists>k'. for_pages body n k (word_of_nat p) = Inr (Return (), k') \<and> I N k'"
  using assms(2,3)
proof (induction n arbitrary: p k)
  case (Suc n)
  then obtain k1 where k1: "body k (word_of_nat p) = Inr (Return (), k1)" "I (Suc p) k1"
    using assms(1)[of p k] by auto
  have "word_of_nat p + 1 = (word_of_nat (Suc p) :: u32)" by simp
  with Suc.IH[OF k1(2)] Suc.prems(2) k1(1) show ?case by (simp add: add.commute)
qed simp

lemma one_bit: "w AND 2 ^ n \<noteq> 0 \<Longrightarrow> w AND 2 ^ n = (2 ^ n :: 'a::len word)"
  unfolding and_exp_eq_0_iff_not_bit by (intro bit_word_eqI) (auto simp: bit_simps)

lemma access_bits: "w AND access False = access False \<longleftrightarrow> w AND PTE_P \<noteq> 0 \<and> w AND PTE_U \<noteq> 0"
proof
  have c: "PTE_P = 2 ^ 0" "PTE_U = 2 ^ 2" by (simp_all add: pte_bits)
  have d: "access False = PTE_P OR PTE_U" by (simp add: access_def)
  { assume h: "w AND PTE_P \<noteq> 0 \<and> w AND PTE_U \<noteq> 0"
    then have "w AND PTE_P = PTE_P" "w AND PTE_U = PTE_U" using one_bit[of w 0] one_bit[of w 2] unfolding c by simp_all
    then show "w AND access False = access False" unfolding d bit.conj_disj_distrib by simp }
  assume h: "w AND access False = access False"
  have "w AND PTE_P = (w AND access False) AND PTE_P" "w AND PTE_U = (w AND access False) AND PTE_U"
    by (simp_all add: and.assoc d pte_bits)
  then show "w AND PTE_P \<noteq> 0 \<and> w AND PTE_U \<noteq> 0" unfolding h by (simp add: d pte_bits)
qed

text \<open>The pages the loop has shared before page \<open>p\<close>: all the user's but the exception stack.\<close>

definition shared :: "kmem \<Rightarrow> nat \<Rightarrow> nat \<Rightarrow> nat set" where
  "shared s d p = {n. n < p \<and> n \<noteq> user_pages - 1 \<and> entry s d n AND PTE_P \<noteq> 0 \<and> entry s d n AND PTE_U \<noteq> 0}"

lemma shared_Suc:
  "shared s d (Suc p) = (if p \<noteq> user_pages - 1 \<and> entry s d p AND PTE_P \<noteq> 0 \<and> entry s d p AND PTE_U \<noteq> 0
     then insert p (shared s d p) else shared s d p)"
  by (auto simp: shared_def less_Suc_eq)

lemma xstack_page: "unat (drop_bit PGSHIFT UXSTACKTOP - 1) = user_pages - 1" "unat (drop_bit PGSHIFT UTOP) = user_pages"
  by (simp_all add: user_pages_def UPDX_def memlayout_defs mmu_consts)

lemma fork_page_step:
  assumes f: "forking K k b cd L ps"
    and s: "fork_state K k cd L ps (shared (mem k) (cr3 k) p) {n \<in> shared (mem k) (cr3 k) p. cow (entry (mem k) (cr3 k) n)} k'"
    and p: "p < user_pages"
  shows "\<exists>k''. fork_page b k' (word_of_nat p) = Inr (Return (), k'')
    \<and> fork_state K k cd L ps (shared (mem k) (cr3 k) (Suc p))
        {n \<in> shared (mem k) (cr3 k) (Suc p). cow (entry (mem k) (cr3 k) n)} k''"
proof -
  let ?e = "entry (mem k) (cr3 k) p" and ?S = "shared (mem k) (cr3 k)"
  let ?T = "\<lambda>p. {n \<in> ?S p. cow (entry (mem k) (cr3 k) n)}"
  note h = forkingD[OF f] and g = fork_stateD[OF f s]
  have lt: "p < 977920" using p by (simp add: user_pages_def UPDX_def)
  have u: "unat (word_of_nat p :: u32) = p" using lt by (simp add: unat_of_nat)
  have last: "(word_of_nat p :: u32) = drop_bit PGSHIFT UXSTACKTOP - 1 \<longleftrightarrow> p = user_pages - 1"
    using xstack_page(1) by (simp add: word_unat_eq_iff u)
  show ?thesis
  proof (cases "p = user_pages - 1")
    case True
    then have "fork_page b k' (word_of_nat p) = Inr (Return (), k')"
      using last by (simp only: fork_page_def refl if_True simp_thms)
    moreover have "?S (Suc p) = ?S p" using True by (simp add: shared_Suc)
    ultimately show ?thesis using s by simp
  next
    case no: False
    have "unat (drop_bit 10 (word_of_nat p :: u32)) = p div 1024" by (simp add: drop_bit_eq_div unat_div u)
    then have dx: "drop_bit 10 (word_of_nat p :: u32) = word_of_nat (p div 1024)"
      using lt by (simp add: word_unat_eq_iff unat_of_nat)
    have "p div 1024 < 1024" using lt by simp
    then have pd: "uvpd k' (drop_bit 10 (word_of_nat p)) = Inr (pde_at (mem k') (cr3 k) (p div 1024))"
      using uvpd_entry[of k'] g(3,8) unfolding dx by simp
    note n = user_pages_split[OF p]
    show ?thesis
    proof (cases "p div 1024 \<in> tables (mem k) (cr3 k)")
      case False
      then have "pde_at (mem k') (cr3 k) (p div 1024) = 0" "?e = 0"
        using n g(11) by (auto simp: tables_def entry_def)
      then have "fork_page b k' (word_of_nat p) = Inr (Return (), k')" "?S (Suc p) = ?S p"
        by (simp_all add: fork_page_def last no pd shared_Suc)
      with s show ?thesis by simp
    next
      case True
      then have t: "p div 1024 \<in> tables (mem k') (cr3 k)" using g(11) by simp
      then have "pde_at (mem k') (cr3 k) (p div 1024) AND (PTE_P OR PTE_W OR PTE_U) = PTE_P OR PTE_W OR PTE_U"
        using g(9) by (simp add: open_tables_def tables_def)
      note op = access_open[OF this, of False]
      have open1: "pde_at (mem k') (cr3 k) (p div 1024) AND PTE_P \<noteq> 0" "pde_at (mem k') (cr3 k) (p div 1024) AND PTE_U \<noteq> 0"
        using access_bits op by blast+
      have pS: "p \<notin> ?S p" by (simp add: shared_def)
      then have "p \<notin> ?T p" by simp
      have "entry (mem k') (cr3 k) p = ?e" using forkedD(1)[OF g(2) h(11) p] h(4) pS by simp
      then have u: "uvpt k' (word_of_nat p) = Inr ?e" using uvpt_entry[of k' p] g(3,8,9) t p by simp
      show ?thesis
      proof (cases "?e AND PTE_P \<noteq> 0 \<and> ?e AND PTE_U \<noteq> 0")
        case False
        then have "fork_page b k' (word_of_nat p) = Inr (Return (), k')" "?S (Suc p) = ?S p"
          using u open1 by (auto simp: fork_page_def last no pd shared_Suc)
        with s show ?thesis by simp
      next
        case e: True
        have ST: "\<And>i. i \<in> ?S p \<union> ?T p \<Longrightarrow> entry (mem k) (cr3 k) i \<noteq> 0" by (auto simp: shared_def)
        obtain k'' where k'': "duppage k' b (word_of_nat p) = Inr (Return (), k'')"
          "fork_state K k cd L ps (insert p (?S p)) (if cow ?e then insert p (?T p) else ?T p) k''"
          using duppage_step[OF f s ST p \<open>p \<notin> ?T p\<close>] e by blast
        have "fork_page b k' (word_of_nat p) = Inr (Return (), k'')"
          using e u open1 k''(1) no by (simp add: fork_page_def last pd)
        moreover have "insert p (?S p) = ?S (Suc p)" using e no by (simp add: shared_Suc)
        moreover have "(if cow ?e then insert p (?T p) else ?T p) = ?T (Suc p)" using e no by (auto simp: shared_Suc)
        ultimately show ?thesis using k''(2) by auto
      qed
    qed
  qed
qed

lemma fork_loop:
  assumes f: "forking K k b cd L ps"
  shows "\<exists>k'. for_pages (fork_page b) (unat (drop_bit PGSHIFT UTOP)) k 0 = Inr (Return (), k')
    \<and> fork_state K k cd L ps (shared (mem k) (cr3 k) user_pages)
        {n \<in> shared (mem k) (cr3 k) user_pages. cow (entry (mem k) (cr3 k) n)} k'"
proof -
  have "shared (mem k) (cr3 k) 0 = {}" by (simp add: shared_def)
  then have "fork_state K k cd L ps (shared (mem k) (cr3 k) 0) {n \<in> shared (mem k) (cr3 k) 0. cow (entry (mem k) (cr3 k) n)} k"
    using fork_state_refl[OF f] by simp
  from for_pages_inv[where N = user_pages and p = 0 and n = user_pages
      and I = "\<lambda>p k'. fork_state K k cd L ps (shared (mem k) (cr3 k) p) {n \<in> shared (mem k) (cr3 k) p. cow (entry (mem k) (cr3 k) n)} k'",
      OF fork_page_step[OF f] this]
  show ?thesis by (simp add: xstack_page(2))
qed

end
