(* ===== verification/ForkProps.thy ===== *)
theory ForkProps
  imports CowFork SyscallProps
begin

unbundle bit_operations_syntax

text \<open>
  What a copy-on-write \<^verbatim>\<open>fork\<close> (\<^verbatim>\<open>lib/fork.c\<close>) leaves behind: \<^verbatim>\<open>sys_exofork\<close> makes an empty address space, the
  loop of \<open>CowFork\<close> fills it, and the parent's last calls give the child its exception stack, its page
  fault upcall and its status.
\<close>

section \<open>The end of \<^verbatim>\<open>fork\<close>\<close>

lemma walk_user:
  assumes c: "counted s D x K L ps" and dir: "dir \<in> D" and va: "va < UTOP"
  shows "(\<exists>q. pgdir_walk s dir va False = Inr (s, Some q) \<and> read_pte s q AND access False = access False)
     \<longleftrightarrow> entry s dir (page_no va) AND access False = access False"
proof (cases "pde_at s dir (unat (PDX va)) = 0")
  case True
  then show ?thesis by (simp add: walk_unmapped entry_def page_no_split) (simp add: access_def pte_bits)
next
  case False
  note h = shapeD(3)[OF countedD(1)[OF c] dir user_pdx[OF va] False]
  show ?thesis using False by (simp add: walk_mapped[OF False h] entry_def page_no_split pte_at_def read_pte_def)
qed

lemma user_mem_loop_passes:
  "\<forall>a\<in>set as. \<exists>q. pgdir_walk s d a False = Inr (s, Some q) \<and> read_pte s q AND (perm OR PTE_P) = perm OR PTE_P \<Longrightarrow>
     user_mem_loop s d lo perm as = Inr (s, 0)"
  by (induction as) auto

lemma page_steps_less:
  assumes "a \<in> set (page_steps (ROUNDDOWN lo PGSIZE) (ROUNDUP hi PGSIZE))"
  shows "a < ROUNDUP hi PGSIZE"
proof -
  let ?lo = "ROUNDDOWN lo PGSIZE" and ?hi = "ROUNDUP hi PGSIZE"
  obtain i where i: "a = ?lo + word_of_nat i * PGSIZE" "i < (unat ?hi - unat ?lo + 4095) div 4096"
    using assms by (auto simp: page_steps_def)
  have m: "unat ?lo = 4096 * (unat lo div 4096)" by (simp add: unat_ROUNDDOWN)
  have "ROUNDUP hi PGSIZE = ROUNDDOWN (hi + PGSIZE - 1) PGSIZE" by (simp add: ROUNDUP_def)
  then have h: "unat ?hi = 4096 * (unat (hi + PGSIZE - 1) div 4096)" by (simp add: unat_ROUNDDOWN)
  have b: "unat ?lo + i * 4096 < unat ?hi" using i(2) unfolding m h by auto
  then have "unat a = unat ?lo + i * 4096"
    using unat_u32_less[of ?hi] by (simp add: i(1) PGSIZE_def unat_word_ariths unat_of_nat)
  with b show ?thesis by (simp add: word_less_nat_alt)
qed

text \<open>A range that passed the check for the parent passes it for an environment with the same pages.\<close>

lemma check_transfers:
  assumes r: "user_mem_check s pd va PGSIZE (PTE_P OR PTE_U) = Inr (s1, 0)"
    and c: "counted s D x K L ps" "counted m D' x' K' L' ps'" and dirs: "pd \<in> D" "cd \<in> D'"
    and e: "\<And>n. n < user_pages \<Longrightarrow> entry s pd n AND access False = access False \<Longrightarrow> entry m cd n AND access False = access False"
  shows "user_mem_check m cd va PGSIZE (PTE_P OR PTE_U OR PTE_U) = Inr (m, 0)"
proof -
  let ?hi = "ROUNDUP (va + PGSIZE) PGSIZE" let ?as = "page_steps (ROUNDDOWN va PGSIZE) ?hi"
  have p: "PTE_P OR PTE_U = access False" "access False OR PTE_P = access False" "access False OR PTE_U = access False"
    by (simp_all add: access_def pte_bits)
  have hi: "\<not> ?hi > UTOP" and l: "user_mem_loop s pd va (access False) ?as = Inr (s1, 0)"
    using r by (auto simp: user_mem_check_def p(1) Let_def error_defs split: if_splits)
  have "\<exists>q. pgdir_walk m cd a False = Inr (m, Some q) \<and> read_pte m q AND (access False OR PTE_P) = access False OR PTE_P"
    if a: "a \<in> set ?as" for a
  proof -
    have lt: "a < UTOP" using page_steps_less[OF a] hi by simp
    have "entry s pd (page_no a) AND access False = access False"
      using user_mem_loop_0[OF l] a walk_user[OF c(1) dirs(1) lt] by (simp only: p)
    then have "entry m cd (page_no a) AND access False = access False" by (rule e[OF page_no_less[OF lt]])
    then show ?thesis using walk_user[OF c(2) dirs(2) lt] by (simp only: p)
  qed
  then have "user_mem_loop m cd va (access False) ?as = Inr (m, 0)" by (intro user_mem_loop_passes) blast
  then show ?thesis using hi by (simp add: user_mem_check_def Let_def p or.assoc[symmetric] del: or.assoc)
qed

text \<open>The calls with which the parent sets up the child: its exception stack, its handler, its status.\<close>

lemma xstack_va: "UXSTACKTOP - PGSIZE = page_va (user_pages - 1)" "user_pages - 1 < user_pages"
  by (simp_all add: page_va_def user_pages_def UPDX_def memlayout_defs mmu_consts)

lemma upcall_call:
  assumes "envid2env k b True = Inr (0, Some j)" and "env_pgdir (envs k j) = Some d"
    and "user_mem_check (mem k) d f PGSIZE (PTE_P OR PTE_U OR PTE_U) = Inr (mem k, 0)"
  shows "u_env_set_pgfault_upcall k b f = Inr (Return 0, upd_env k j (\<lambda>v. v\<lparr>env_pgfault_upcall := f\<rparr>))"
proof -
  have "user_mem_assert k j f PGSIZE (PTE_P OR PTE_U) = Inr (Return (), k)"
    using assms(2,3) by (simp add: user_mem_assert_def or.assoc)
  then show ?thesis using assms(1)
    by (simp add: u_env_set_pgfault_upcall_def usyscall_def syscall_def sys_numbers sys_env_set_pgfault_upcall_def Let_def)
qed

lemma status_call:
  assumes "envid2env k b True = Inr (0, Some j)"
  shows "u_env_set_status k b (status_code ENV_RUNNABLE) =
    Inr (Return 0, upd_env k j (\<lambda>v. v\<lparr>env_status := ENV_RUNNABLE\<rparr>))"
proof -
  have "sint (word_of_int (status_code ENV_RUNNABLE) :: u32) = status_code ENV_RUNNABLE" by simp
  then show ?thesis using assms
    by (simp add: u_env_set_status_def usyscall_def syscall_def sys_numbers sys_env_set_status_def status_of_def Let_def)
qed

lemma envid2env_upd:
  assumes "env_id (g (envs k i)) = env_id (envs k i)" "env_parent_id (g (envs k i)) = env_parent_id (envs k i)"
      "env_status (g (envs k i)) = env_status (envs k i)"
  shows "envid2env (upd_env k i g) = envid2env k"
proof (intro ext)
  have e: "env_id (envs (upd_env k i g) a) = env_id (envs k a)" "env_parent_id (envs (upd_env k i g) a) = env_parent_id (envs k a)"
    "env_status (envs (upd_env k i g) a) = env_status (envs k a)" for a
    using assms by (simp_all add: upd_env_def)
  have c: "curenv (upd_env k i g) = curenv k" by (simp add: curenv_def upd_env_def)
  show "envid2env (upd_env k i g) b p = envid2env k b p" for b p
    by (simp add: envid2env_def e c Let_def cong: if_cong)
qed

text \<open>What \<^verbatim>\<open>fork\<close> makes of the address spaces: \<open>m\<close> is the memory afterwards.\<close>

lemma forked_frames:
  assumes f: "forking K k b cd L ps"
    and s: "fork_state K k cd L ps (shared (mem k) (cr3 k) user_pages)
      {n \<in> shared (mem k) (cr3 k) user_pages. cow (entry (mem k) (cr3 k) n)} k1"
    and c: "accounted K k1 L qs"
    and r: "remaps (mem k1) m (dirs k) qs cd (user_pages - 1) v"
    and va: "va < UTOP" "page_no va \<noteq> user_pages - 1"
  shows "user_frame m cd va False = user_frame (mem k) (cr3 k) va False"
    and "user_frame m (cr3 k) va False = user_frame (mem k) (cr3 k) va False"
    and "user_frame m cd va True = None" and "user_frame m (cr3 k) va True = None"
    and "user_frame (mem k) (cr3 k) va True \<noteq> None \<Longrightarrow>
      entry m cd (page_no va) AND PTE_COW \<noteq> 0 \<and> entry m (cr3 k) (page_no va) AND PTE_COW \<noteq> 0"
    and "user_frame (mem k) (cr3 k) va False = Some g \<Longrightarrow> phys m g = phys (mem k) g"
proof -
  let ?n = "page_no va" and ?e = "entry (mem k) (cr3 k) (page_no va)"
  note h = forkingD[OF f] and g = fork_stateD[OF f s] and n = page_no_less[OF va(1)]
  have op: "open_tables m cd" "open_tables m (cr3 k)" using remapsD(4)[OF r] h(11,12) g(9,10) by blast+
  have S: "?n \<in> shared (mem k) (cr3 k) user_pages \<longleftrightarrow> ?e AND access False = access False"
    using n va(2) by (auto simp: shared_def access_bits)
  have child: "entry m cd ?n = (if ?e AND access False = access False then share ?e else 0)"
    using remapsD(2)[OF r h(12) n] forkedD(1)[OF g(2) h(12) n] va(2) S by simp
  have parent: "entry m (cr3 k) ?n = (if ?e AND access False = access False \<and> cow ?e then share ?e else ?e)"
    using remapsD(2)[OF r h(11) n] forkedD(1)[OF g(2) h(11) n] h(4) S by auto
  have T: "w AND access True = access True \<longleftrightarrow> w AND access False = access False \<and> w AND PTE_W \<noteq> 0" for w
  proof
    have d: "access True = access False OR PTE_W" "access False AND PTE_W = 0" by (simp_all add: access_def pte_bits)
    { assume w: "w AND access False = access False \<and> w AND PTE_W \<noteq> 0"
      then have "w AND PTE_W = PTE_W" using W_bit[of w] by (simp add: and.commute)
      with w show "w AND access True = access True" by (simp only: d(1) bit.conj_disj_distrib) }
    assume w: "w AND access True = access True"
    have "w AND access False = (w AND access True) AND access False" "w AND PTE_W = (w AND access True) AND PTE_W"
      by (simp_all add: and.assoc access_def pte_bits)
    then show "w AND access False = access False \<and> w AND PTE_W \<noteq> 0"
      unfolding w by (simp add: access_def pte_bits)
  qed
  have cw: "?e AND PTE_W \<noteq> 0 \<Longrightarrow> cow ?e" by (simp add: cow_def)
  note u = user_frame_entry[OF op(1) va(1)] user_frame_entry[OF op(2) va(1)] user_frame_entry[OF h(6) va(1)]
  have a0: "(0 :: u32) \<noteq> access w" for w by (cases w) (simp_all add: access_def pte_bits)
  show "user_frame m cd va False = user_frame (mem k) (cr3 k) va False"
    "user_frame m (cr3 k) va False = user_frame (mem k) (cr3 k) va False"
    by (simp_all add: u child parent share_sel a0)
  show "user_frame m cd va True = None" "user_frame m (cr3 k) va True = None"
    using cw by (auto simp: u child parent T share_sel a0)
  show "user_frame (mem k) (cr3 k) va True \<noteq> None \<Longrightarrow>
      entry m cd ?n AND PTE_COW \<noteq> 0 \<and> entry m (cr3 k) ?n AND PTE_COW \<noteq> 0"
    using cw by (auto simp: u child parent T share_sel split: if_splits)
  assume "user_frame (mem k) (cr3 k) va False = Some g"
  then have e: "?e AND access False = access False" "frame_of ?e = g" by (simp_all add: u split: if_splits)
  then have "?e \<noteq> 0" using a0 by auto
  then have "pte_refs (mem k) (dirs k) g \<noteq> {}" using entry_referenced[OF h(11) n, of "mem k"] e(2) by simp
  moreover have "counted (mem k1) (dirs k) (held k1) K L qs" using c g(4) by simp
  ultimately show "phys m g = phys (mem k) g"
    using remapsD(7)[OF r forked_in_use[OF g(2) _ h(10)]] forkedD(6)[OF g(2)] by simp
qed

text \<open>The rest of the loop: what happens to the child and to the others.\<close>

lemma fork_from_copies:
  assumes vm: "vm_ok K k" and f: "forking K k (word_of_int envid) cd L ps" and pos: "0 < envid"
    and j: "envid2env k (word_of_int envid) True = Inr (0, Some j)" "env_pgdir (envs k j) = Some cd"
    and up: "user_mem_check (mem k) (cr3 k) (env_pgfault_upcall (envs k thisenv)) PGSIZE (PTE_P OR PTE_U) = Inr (s1, 0)"
  shows "\<exists>k' m k1 qs p. fork_from thisenv envid k = Inr (Return (envid, thisenv), k') \<and> vm_ok K k' \<and> mem k' = m
    \<and> env_status (envs k' j) = ENV_RUNNABLE
    \<and> fork_state K k cd L ps (shared (mem k) (cr3 k) user_pages)
        {n \<in> shared (mem k) (cr3 k) user_pages. cow (entry (mem k) (cr3 k) n)} k1
    \<and> accounted K k1 L (p # qs) \<and> phys m p = (\<lambda>_. 0)
    \<and> remaps (mem k1) m (dirs k) (p # qs) cd (user_pages - 1) (page2pa p OR (PTE_P OR PTE_U OR PTE_W))"
proof -
  let ?b = "word_of_int envid :: u32" and ?f = "env_pgfault_upcall (envs k thisenv)"
  note h = forkingD[OF f]
  from fork_loop[OF f] obtain k1 where k1: "for_pages (fork_page ?b) (unat (drop_bit PGSHIFT UTOP)) k 0 = Inr (Return (), k1)"
    and s: "fork_state K k cd L ps (shared (mem k) (cr3 k) user_pages)
        {n \<in> shared (mem k) (cr3 k) user_pages. cow (entry (mem k) (cr3 k) n)} k1" by blast
  note g = fork_stateD[OF f s]
  obtain ps' where c: "accounted K k1 L ps'" "length ps \<le> length ps' + card (tables (mem k1) cd)"
    using s by (auto simp: fork_state_def)
  have "card (tables (mem k1) cd) \<le> card (tables (mem k) (cr3 k))" using g(12) by (intro card_mono) simp_all
  with c(2) h(9) have len: "2 < length ps'" by linarith
  then obtain p qs where "ps' = p # qs" by (cases ps') simp_all
  with len have ps': "ps' = p # qs" "qs \<noteq> []" by auto
  have t1: "target k1 ?b cd" using h(3) g(7) by simp
  note va = page_va[OF xstack_va(2)]
  have perm: "(PTE_U OR PTE_P OR PTE_W) AND NOT PTE_SYSCALL = 0" by (simp add: pte_bits)
  obtain m qs' where m: "u_page_alloc k1 ?b (UXSTACKTOP - PGSIZE) (PTE_U OR PTE_P OR PTE_W) = Inr (Return 0, k1\<lparr>mem := m\<rparr>)"
    "accounted K (k1\<lparr>mem := m\<rparr>) L qs'" "phys m p = (\<lambda>_. 0)"
    "remaps (mem k1) m (dirs k1) (p # qs) cd (user_pages - 1)
       (page2pa p OR ((PTE_U OR PTE_P OR PTE_W) OR PTE_U OR PTE_P) OR PTE_P)"
    using alloc_call[OF c(1)[unfolded ps'(1)] t1 va(2) perm] ps'(2) unfolding xstack_va(1) va(1) by blast
  have v: "page2pa p OR ((PTE_U OR PTE_P OR PTE_W) OR PTE_U OR PTE_P) OR PTE_P = page2pa p OR (PTE_P OR PTE_U OR PTE_W)"
    by (simp add: pte_bits or.assoc)
  note r = m(4)[unfolded v g(4)]
  let ?k2 = "k1\<lparr>mem := m\<rparr>"
  have cm: "counted m (dirs k) (held ?k2) K L qs'" using m(2) g(4) by simp
  have k2: "?k2 = k\<lparr>mem := m\<rparr>" by (subst g(1)) simp
  have vm2: "vm_ok K ?k2" unfolding k2 by (rule vm_ok_mem[OF vm]) (use cm g(4) in \<open>simp add: k2 held_def dirs_def\<close>)
  have e2: "envid2env ?k2 ?b True = Inr (0, Some j)" "env_pgdir (envs ?k2 j) = Some cd" using j by (simp_all add: k2)
  have acc: "entry m cd n AND access False = access False"
    if n: "n < user_pages" "entry (mem k) (cr3 k) n AND access False = access False" for n
  proof (cases "n = user_pages - 1")
    case True
    then have "entry m cd n = page2pa p OR (PTE_P OR PTE_U OR PTE_W)" using remapsD(2)[OF r h(12) n(1)] by simp
    then show ?thesis by (simp only:) (intro bit_word_eqI, auto simp: access_def bit_simps)
  next
    case False
    then have "n \<in> shared (mem k) (cr3 k) user_pages" using n by (simp add: shared_def access_bits)
    then show ?thesis
      using remapsD(2)[OF r h(12) n(1)] forkedD(1)[OF g(2) h(12) n(1)] False by (simp add: share_sel)
  qed
  have "user_mem_check m cd ?f PGSIZE (PTE_P OR PTE_U OR PTE_U) = Inr (m, 0)"
    using check_transfers[OF up h(1) cm h(11,12) acc] by blast
  then have k3: "u_env_set_pgfault_upcall ?k2 ?b ?f = Inr (Return 0, upd_env ?k2 j (\<lambda>v. v\<lparr>env_pgfault_upcall := ?f\<rparr>))"
    using upcall_call[OF e2, of ?f] by simp
  let ?k3 = "upd_env ?k2 j (\<lambda>v. v\<lparr>env_pgfault_upcall := ?f\<rparr>)"
  have "envid2env ?k3 ?b True = Inr (0, Some j)" using e2(1) by (subst envid2env_upd) simp_all
  note k4 = status_call[OF this]
  let ?k4 = "upd_env ?k3 j (\<lambda>v. v\<lparr>env_status := ENV_RUNNABLE\<rparr>)"
  have "fork_from thisenv envid k = Inr (Return (envid, thisenv), ?k4)"
    using pos k1 m(1) k3 k4 by (simp add: fork_from_def must_def g(5))
  moreover have "vm_ok K ?k4" by (intro vm_ok_env vm2) simp_all
  moreover have "mem ?k4 = m" "env_status (envs ?k4 j) = ENV_RUNNABLE" by (simp_all add: upd_env_def)
  ultimately show ?thesis using s c(1) m(3) r unfolding ps'(1) by blast
qed

section \<open>The new environment\<close>

text \<open>\<^verbatim>\<open>sys_exofork\<close> gives the child an empty address space, ready for the loop.\<close>

lemma exofork_forks:
  assumes vm: "vm_ok K k0" and c: "accounted K k0 L ps" and cur: "curenv k0 = Some i" "env_pgdir (envs k0 i) = Some (cr3 k0)"
    and sm: "self_mapped (mem k0) (cr3 k0)" and op: "open_tables (mem k0) (cr3 k0)" and ref: "refs_below 32767 k0"
    and room: "card (tables (mem k0) (cr3 k0)) + 3 < length ps" and slot: "env_free_list k0 = Some j" "j < NENV"
  shows "\<exists>k cd r. u_exofork k0 = Inr (Return r, k) \<and> 0 < r \<and> vm_ok K k \<and> forking K k (word_of_int r) cd L (tl ps)
    \<and> envid2env k (word_of_int r) True = Inr (0, Some j) \<and> env_pgdir (envs k j) = Some cd \<and> cr3 k = cr3 k0
    \<and> dirs k = insert cd (dirs k0) \<and> cd \<notin> dirs k0 \<and> env_pgfault_upcall (envs k i) = env_pgfault_upcall (envs k0 i)
    \<and> j \<noteq> i \<and> npages (mem k) = npages (mem k0) \<and> (\<forall>d\<in>dirs k0. same_space (mem k0) (mem k) d \<and> phys (mem k) d = phys (mem k0) d)
    \<and> (\<forall>f. pte_refs (mem k0) (dirs k0) f \<noteq> {} \<longrightarrow> phys (mem k) f = phys (mem k0) f)"
proof -
  obtain page es where K: "K (kern_pgdir k0) = Some page" "\<forall>d<UPDX. page d = 0" and es: "free_envs k0 es"
    using vm by (auto simp: vm_ok_def)
  have "ps \<noteq> []" using room by auto
  then obtain p m ps' where s: "env_setup_vm k0 j = Inr (0, upd_env (k0\<lparr>mem := m\<rparr>) j (\<lambda>v. v\<lparr>env_pgdir := Some p\<rparr>))"
    and p: "p \<notin> dirs k0" and cm: "counted m (insert p (dirs k0)) ((held k0)(p := 1)) K L ps'" and ps: "ps = p # ps'"
    and np: "npages m = npages (mem k0)" and rf: "pp_ref m = (pp_ref (mem k0))(p := 1)"
    and ph: "phys m = (phys (mem k0))(p := page(unat (PDX UVPT) := page2pa p OR PTE_P OR PTE_U))"
    using env_setup_vm_account[OF c K, of j] by blast
  obtain js where es': "es = j # js" using es slot(1) by (cases es) (auto simp: free_envs_def)
  then have fj: "env_pgdir (envs k0 j) = None" using es by (simp add: free_envs_def)
  then have ij: "j \<noteq> i" using cur(2) by auto
  let ?par = "env_id (envs k0 i)" let ?id = "next_env_id (env_id (envs k0 j)) j"
  define k1 where "k1 = (upd_env (upd_env (k0\<lparr>mem := m\<rparr>) j (\<lambda>v. v\<lparr>env_pgdir := Some p\<rparr>)) j (fresh_env ?par j))
    \<lparr>env_free_list := env_link (envs k0 j)\<rparr>"
  have a: "env_alloc k0 ?par = Inr (0, Some j, k1)"
    using s slot(1) by (simp add: env_alloc_def k1_def Let_def) (simp add: upd_env_def fresh_env_def)
  note vm1 = env_alloc_ok[OF vm a]
  define k where "k = upd_env k1 j (\<lambda>v. v\<lparr>env_status := ENV_NOT_RUNNABLE,
      env_tf := (env_tf (envs k1 i))\<lparr>tf_regs := (tf_regs (env_tf (envs k1 i)))\<lparr>reg_eax := 0\<rparr>\<rparr>,
      env_tickets := env_tickets (envs k1 i)\<rparr>)"
  have id: "env_id (envs k j) = ?id" by (simp add: k_def k1_def upd_env_def fresh_env_def)
  have e: "u_exofork k0 = Inr (Return (sint ?id), k)"
    using a cur(1) id by (simp add: u_exofork_def syscall_def sys_numbers sys_exofork_def Let_def k_def[symmetric])
  note idp = next_env_id_props[OF slot(2)[unfolded NENV_def], of "env_id (envs k0 j)"]
  have b: "word_of_int (sint ?id) = ?id" by simp
  have nz: "?id \<noteq> 0" using idp(2) by auto
  have vmk: "vm_ok K k" unfolding k_def by (intro vm_ok_env vm1) simp_all
  have sel: "mem k = m" "cr3 k = cr3 k0" "curenv k = Some i" "env_pgdir (envs k j) = Some p"
    "env_pgdir (envs k e') = (if e' = j then Some p else env_pgdir (envs k0 e'))" for e'
    using cur(1) by (simp_all add: k_def k1_def upd_env_def fresh_env_def curenv_def)
  have eid: "envid2env k ?id True = Inr (0, Some j)"
    using nz idp(1) ij by (simp add: envid2env_def id sel(3) Let_def) (simp add: k_def k1_def upd_env_def fresh_env_def)
  have d: "dirs k = insert p (dirs k0)"
  proof (intro set_eqI iffI)
    fix x assume "x \<in> dirs k"
    then obtain e' where "env_pgdir (envs k e') = Some x" by (auto simp: dirs_def)
    then show "x \<in> insert p (dirs k0)" using sel(5)[of e'] by (auto split: if_splits)
  next
    fix x assume "x \<in> insert p (dirs k0)"
    then consider "x = p" | e' where "env_pgdir (envs k0 e') = Some x" by (auto simp: dirs_def)
    then show "x \<in> dirs k"
    proof cases
      case 1
      then show ?thesis using dirsI[OF sel(4)] by simp
    next
      case 2
      then have "e' \<noteq> j" using fj by auto
      with 2 show ?thesis using dirsI[of k e' x] sel(5)[of e'] by simp
    qed
  qed
  have hd: "held k = (held k0)(p := 1)" by (auto simp: held_def d)
  have pd: "cr3 k0 \<in> dirs k0" using cur(2) by auto
  have m1: "p \<in> set ps" using ps by simp
  note fe = free_frame_entries[OF c m1 ph]
  have uv: "unat (PDX UVPT) = 957" by (simp add: unat_PDX memlayout_defs mmu_consts)
  have tp: "tables m p = {}" using K(2) by (auto simp: tables_def pde_at_def ph uv UPDX_def)
  have same: "phys m d' = phys (mem k0) d'" if "d' \<in> dirs k0" for d' by (rule fe(1)[OF that])
  have t: "target k 0 (cr3 k)" using sel(3) sel(5)[of i] cur(2) ij by (simp add: target_def envid2env_def sel(2))
  have t2: "target k ?id p" using eid sel(4) by (simp add: target_def)
  have ref': "refs_below 32767 k" using ref by (simp add: refs_below_def sel(1) rf)
  have fk: "forking K k ?id p L ps'"
    unfolding forking_def
    using cm t t2 pd p sm op tp ref' room ps pdes_cong[OF same[OF pd]] same[OF pd]
    by (auto simp: sel(1,2) d hd self_mapped_def)
  have sp: "same_space (mem k0) m d'" if d': "d' \<in> dirs k0" for d'
    unfolding same_space_def
  proof (intro allI impI conjI)
    fix x t assume x: "x < UPDX"
    show px: "pde_at m d' x = pde_at (mem k0) d' x" using same[OF d'] by (simp add: pde_at_def)
    assume "pde_at (mem k0) d' x \<noteq> 0"
    then have "(d', x) \<in> pde_refs (mem k0) (dirs k0) (frame_of (pde_at (mem k0) d' x))" using d' x by (simp add: pde_refs_def)
    then have "frame_of (pde_at (mem k0) d' x) \<noteq> p" using free_unreferenced(1)[OF c m1] by auto
    then show "pte_at m d' x t = pte_at (mem k0) d' x t" by (simp add: pte_at_def px) (simp add: ph)
  qed
  have fr: "phys m f = phys (mem k0) f" if "pte_refs (mem k0) (dirs k0) f \<noteq> {}" for f
    using that free_unreferenced(2)[OF c m1] by (auto simp: ph)
  have up: "env_pgfault_upcall (envs k i) = env_pgfault_upcall (envs k0 i)" using ij by (simp add: k_def k1_def upd_env_def)
  show ?thesis
    using e idp(2) vmk fk eid sel(1,2,4) d p ij np sp same fr up ps
    by (intro exI[of _ k] exI[of _ p] exI[of _ "sint ?id"]) (simp add: b)
qed

section \<open>The whole of \<^verbatim>\<open>fork\<close>\<close>

lemma same_view:
  assumes "open_tables s d" and "open_tables s' d" and "\<And>n. n < user_pages \<Longrightarrow> entry s' d n = entry s d n" and va: "va < UTOP"
  shows "user_frame s' d va w = user_frame s d va w"
  using assms(3)[OF page_no_less[OF va]] by (simp add: user_frame_entry[OF assms(1) va] user_frame_entry[OF assms(2) va])

lemma frame_used:
  assumes op: "open_tables s d" and d: "d \<in> D" and va: "va < UTOP" and f: "user_frame s d va w = Some f"
  shows "pte_refs s D f \<noteq> {}"
proof -
  have e: "entry s d (page_no va) AND access w = access w" "frame_of (entry s d (page_no va)) = f"
    using f by (simp_all add: user_frame_entry[OF op va] split: if_splits)
  have "access w \<noteq> 0" by (cases w) (simp_all add: access_def pte_bits)
  with e(1) have "entry s d (page_no va) \<noteq> 0" by auto
  then show ?thesis using entry_referenced[OF d page_no_less[OF va], of s] e(2) by simp
qed

lemma xstack_no: "page_no (UXSTACKTOP - PGSIZE) = user_pages - 1" "UXSTACKTOP - PGSIZE < UTOP"
  unfolding xstack_va(1) by (rule page_va(1)[OF xstack_va(2)], rule good_va_user[OF page_va(2)[OF xstack_va(2)]])

text \<open>The child's exception stack is a page nobody had.\<close>

lemma child_stack:
  assumes f: "forking K k b cd L ps" and s: "fork_state K k cd L ps S T k1" and c: "accounted K k1 L (p # qs)"
    and r: "remaps (mem k1) m (dirs k) (p # qs) cd (user_pages - 1) (page2pa p OR (PTE_P OR PTE_U OR PTE_W))"
  shows "user_frame m cd (UXSTACKTOP - PGSIZE) True = Some p" and "pte_refs (mem k) (dirs k) p = {}"
proof -
  note h = forkingD[OF f] and g = fork_stateD[OF f s]
  have "entry m cd (user_pages - 1) = page2pa p OR (PTE_P OR PTE_U OR PTE_W)"
    using remapsD(2)[OF r h(12) xstack_va(2)] by simp
  moreover have "(page2pa p OR (PTE_P OR PTE_U OR PTE_W)) AND access True = access True"
    by (intro bit_word_eqI) (auto simp: access_def bit_simps)
  moreover have "p < 2 ^ 20" "flags_ok (PTE_P OR PTE_U OR PTE_W)"
    using countedD(2)[OF c] by (auto simp: page_repr_def flags_ok_or)
  moreover have "open_tables m cd" by (rule remapsD(4)[OF r h(12) g(10)])
  ultimately show "user_frame m cd (UXSTACKTOP - PGSIZE) True = Some p"
    using user_frame_entry[OF _ xstack_no(2), of m cd True] frame_of_entry[of p "PTE_P OR PTE_U OR PTE_W"]
    by (simp add: xstack_no(1))
  have "counted (mem k1) (dirs k) (held k1) K L (p # qs)" using c g(4) by simp
  then show "pte_refs (mem k) (dirs k) p = {}" using forked_in_use(2)[OF g(2) _ h(10), of _ K L "p # qs" p] by auto
qed

lemma same_entries_refs:
  assumes "\<And>d n. d \<in> D \<Longrightarrow> n < user_pages \<Longrightarrow> entry s' d n = entry s d n" and "D \<subseteq> D'"
  shows "pte_refs s D p \<subseteq> pte_refs s' D' p"
proof
  fix t assume t: "t \<in> pte_refs s D p"
  obtain a d e where ade: "t = (a, d, e)" by (cases t)
  with t assms(2) show "t \<in> pte_refs s' D' p" using assms(1)[OF _ user_pages_join, of a d e] by (auto simp: pte_refs_entry)
qed

text \<open>C5: \<^verbatim>\<open>fork\<close> succeeds when an environment slot is free, memory for the child's page tables is there and
  the upcall of the parent is mapped, and it shares every page of the parent below \<^verbatim>\<open>UTOP\<close>, the exception
  stack apart, copy-on-write: at each address the child reads the frame the parent read, its
  contents are those of before, neither of the two can write it any more, and where the parent could
  write, both entries carry \<^verbatim>\<open>PTE_COW\<close>. The child has an exception stack of its own, empty and
  writable, is runnable, and no other address space has changed. The page counts have room for
  doubling, and \<open>k\<close> is the state in which
  \<^verbatim>\<open>set_pgfault_handler\<close> has installed the handler. The calls of \<^verbatim>\<open>fork\<close> follow each other without the parent's own writes
  to its stack in between: in the program such a write, after the loop has passed the stack, faults, and the handler
  gives the parent a private copy that is writable again.\<close>

theorem fork_shares_copy_on_write:
  assumes "set_pgfault_handler upcall k0 old handler = Inr (Return handler, k)"
    and "vm_ok K k" and "accounted K k L ps" and "curenv k = Some i" and "env_pgdir (envs k i) = Some (cr3 k)"
    and "self_mapped (mem k) (cr3 k)" and "open_tables (mem k) (cr3 k)" and "refs_below 32767 k"
    and "card (tables (mem k) (cr3 k)) + 3 < length ps" and "env_free_list k = Some j" and "j < NENV"
    and "user_mem_check (mem k) (cr3 k) (env_pgfault_upcall (envs k i)) PGSIZE (PTE_P OR PTE_U) = Inr (s, 0)"
  shows "\<exists>r k' cd p. fork upcall handler old i k0 = Inr (Return ((r, i), handler), k') \<and> 0 < r \<and> vm_ok K k'
    \<and> env_status (envs k' j) = ENV_RUNNABLE \<and> cd \<notin> dirs k
    \<and> (\<forall>va<UTOP. PGNUM va \<noteq> PGNUM (UXSTACKTOP - PGSIZE) \<longrightarrow>
         user_frame (mem k') cd va False = user_frame (mem k) (cr3 k) va False
         \<and> user_frame (mem k') (cr3 k) va False = user_frame (mem k) (cr3 k) va False
         \<and> user_frame (mem k') cd va True = None \<and> user_frame (mem k') (cr3 k) va True = None
         \<and> (user_frame (mem k) (cr3 k) va True \<noteq> None \<longrightarrow>
              entry (mem k') cd (page_no va) AND PTE_COW \<noteq> 0 \<and> entry (mem k') (cr3 k) (page_no va) AND PTE_COW \<noteq> 0)
         \<and> (\<forall>f. user_frame (mem k) (cr3 k) va False = Some f \<longrightarrow> phys (mem k') f = phys (mem k) f))
    \<and> user_frame (mem k') cd (UXSTACKTOP - PGSIZE) True = Some p \<and> pte_refs (mem k) (dirs k) p = {} \<and> phys (mem k') p = (\<lambda>_. 0)
    \<and> (\<forall>d\<in>dirs k - {cr3 k}. \<forall>n<user_pages. entry (mem k') d n = entry (mem k) d n)"
proof -
  note cc = assms(3)
  have pd: "cr3 k \<in> dirs k" using assms(5) by auto
  obtain k1 cd r where x: "u_exofork k = Inr (Return r, k1)" "0 < r" "vm_ok K k1" "forking K k1 (word_of_int r) cd L (tl ps)"
    "envid2env k1 (word_of_int r) True = Inr (0, Some j)" "env_pgdir (envs k1 j) = Some cd" "cr3 k1 = cr3 k"
    "dirs k1 = insert cd (dirs k)" "cd \<notin> dirs k" "env_pgfault_upcall (envs k1 i) = env_pgfault_upcall (envs k i)"
    "npages (mem k1) = npages (mem k)"
    and same: "\<forall>d\<in>dirs k. same_space (mem k) (mem k1) d \<and> phys (mem k1) d = phys (mem k) d"
    and cont: "\<forall>f. pte_refs (mem k) (dirs k) f \<noteq> {} \<longrightarrow> phys (mem k1) f = phys (mem k) f"
    using exofork_forks[OF assms(2-11)] by blast
  note h = forkingD[OF x(4)]
  have ent: "entry (mem k1) d n = entry (mem k) d n" if "d \<in> dirs k" "n < user_pages" for d n
    using same_space_entries[OF _ that(2)] same that(1) by blast
  have "user_mem_check (mem k1) (cr3 k) (env_pgfault_upcall (envs k i)) PGSIZE (PTE_P OR PTE_U OR PTE_U) = Inr (mem k1, 0)"
    by (rule check_transfers[OF assms(12) cc h(1) pd]) (use h(11) x(7) ent[OF pd] in simp_all)
  then have up: "user_mem_check (mem k1) (cr3 k1) (env_pgfault_upcall (envs k1 i)) PGSIZE (PTE_P OR PTE_U) = Inr (mem k1, 0)"
    by (simp add: x(7,10))
  from fork_from_copies[OF x(3,4,2,5,6) up] obtain k' k2 qs p where
    r: "fork_from i r k1 = Inr (Return (r, i), k')" "vm_ok K k'" "env_status (envs k' j) = ENV_RUNNABLE"
    and st: "fork_state K k1 cd L (tl ps) (shared (mem k1) (cr3 k1) user_pages)
        {n \<in> shared (mem k1) (cr3 k1) user_pages. cow (entry (mem k1) (cr3 k1) n)} k2"
    and c2: "accounted K k2 L (p # qs)" and p0: "phys (mem k') p = (\<lambda>_. 0)"
    and rm: "remaps (mem k2) (mem k') (dirs k1) (p # qs) cd (user_pages - 1) (page2pa p OR (PTE_P OR PTE_U OR PTE_W))"
    by blast
  note g = fork_stateD[OF x(4) st]
  have call: "fork upcall handler old i k0 = Inr (Return ((r, i), handler), k')"
    using assms(1) x(1) r(1) by (simp add: fork_def)
  have parent: "user_frame (mem k1) (cr3 k1) va w = user_frame (mem k) (cr3 k) va w" if "va < UTOP" for va w
    using same_view[OF assms(7) h(6)[unfolded x(7)] ent[OF pd] that] x(7) by simp
  have pages: "user_frame (mem k') cd va False = user_frame (mem k) (cr3 k) va False
         \<and> user_frame (mem k') (cr3 k) va False = user_frame (mem k) (cr3 k) va False
         \<and> user_frame (mem k') cd va True = None \<and> user_frame (mem k') (cr3 k) va True = None
         \<and> (user_frame (mem k) (cr3 k) va True \<noteq> None \<longrightarrow>
              entry (mem k') cd (page_no va) AND PTE_COW \<noteq> 0 \<and> entry (mem k') (cr3 k) (page_no va) AND PTE_COW \<noteq> 0)
         \<and> (\<forall>f. user_frame (mem k) (cr3 k) va False = Some f \<longrightarrow> phys (mem k') f = phys (mem k) f)"
    if va: "va < UTOP" "PGNUM va \<noteq> PGNUM (UXSTACKTOP - PGSIZE)" for va
  proof -
    have "page_no va \<noteq> user_pages - 1" using va(2) xstack_no(1) unfolding page_no_def by (metis word_unat_eq_iff)
    note ff = forked_frames[OF x(4) st c2 rm va(1) this, unfolded x(7) parent[OF va(1), unfolded x(7)]]
    have "phys (mem k') f = phys (mem k) f" if "user_frame (mem k) (cr3 k) va False = Some f" for f
      using ff(6)[OF that] cont frame_used[OF assms(7) pd va(1) that] by simp
    with ff(1-5) show ?thesis by blast
  qed
  note cs = child_stack[OF x(4) st c2 rm]
  have fresh: "pte_refs (mem k) (dirs k) p = {}" using same_entries_refs[where D = "dirs k" and D' = "dirs k1" and p = p, OF ent] cs(2) x(8) by blast
  have others: "entry (mem k') d n = entry (mem k) d n" if d: "d \<in> dirs k - {cr3 k}" and n: "n < user_pages" for d n
  proof -
    have "d \<in> dirs k1" "d \<noteq> cd" using d x(8,9) by auto
    then show ?thesis using remapsD(2)[OF rm _ n, of d] forkedD(1)[OF g(2) _ n, of d] ent[OF _ n, of d] d x(7) by simp
  qed
  show ?thesis
    using call x(2,9) r(2,3) pages cs(1) fresh p0 others
    by (intro exI[of _ r] exI[of _ k'] exI[of _ cd] exI[of _ p]) blast
qed

text \<open>The example: environment 0 has a writable page at \<open>0x800000\<close>, frame 5 through the table in frame 4, and
  its handler there; the kernel's directory is frame 3, the frames 6 to 10 are free.\<close>

definition demo_cow :: kst where
  "demo_cow = demo_kst\<lparr>mem := demo_mem\<lparr>npages := 11, pp_ref := (\<lambda>p. if p = 1 \<or> p = 4 \<or> p = 5 then 1 else 0),
       pp_link := (\<lambda>p. if 6 \<le> p \<and> p < 10 then Some (p + 1) else None), page_free_list := Some 6,
       phys := (\<lambda>f i. if f = 1 \<and> i = 2 then 0x4007 else if f = 1 \<and> i = 957 then 0x1005
         else if f = 4 \<and> i = 0 then 0x5007 else 0)\<rparr>,
     envs := (\<lambda>i. if i = 0 then zero_env\<lparr>env_id := 4096, env_status := ENV_RUNNING, env_tickets := 5,
         env_pgdir := Some 1, env_pgfault_upcall := 0x800000\<rparr> else zero_env),
     cr3 := 1, cpu_env := (\<lambda>c. if c = 0 then Some 0 else None)\<rparr>"

lemma demo_cow_sel:
  "npages (mem demo_cow) = 11" "curenv demo_cow = Some 0" "cr3 demo_cow = 1"
  "env_pgdir (envs demo_cow e) = (if e = 0 then Some 1 else None)" "dirs demo_cow = {1}"
  "env_free_list demo_cow = Some 1" "env_pgfault_upcall (envs demo_cow 0) = 0x800000"
proof -
  show e: "env_pgdir (envs demo_cow e) = (if e = 0 then Some 1 else None)" for e by (simp add: demo_cow_def zero_env_def)
  show "dirs demo_cow = {1}" using e by (auto simp: dirs_def split: if_splits)
qed (simp_all add: demo_cow_def demo_kst_def curenv_def)

lemma demo_cow_tables:
  "pde_at (mem demo_cow) 1 d = (if d = 2 then 0x4007 else if d = 957 then 0x1005 else 0)"
  "tables (mem demo_cow) 1 = {2}" "pte_at (mem demo_cow) 1 2 t = (if t = 0 then 0x5007 else 0)"
  "frame_of 0x4007 = 4" "frame_of 0x5007 = 5"
proof -
  show d: "pde_at (mem demo_cow) 1 d = (if d = 2 then 0x4007 else if d = 957 then 0x1005 else 0)" for d
    by (simp add: pde_at_def demo_cow_def)
  then show "tables (mem demo_cow) 1 = {2}" by (auto simp: tables_def UPDX_def)
  show f: "frame_of 0x4007 = 4" "frame_of 0x5007 = 5" by (simp_all add: frame_of_unat)
  show "pte_at (mem demo_cow) 1 2 t = (if t = 0 then 0x5007 else 0)" for t
    by (simp only: pte_at_def d refl if_True f) (simp add: demo_cow_def)
qed

lemma demo_cow_refs:
  "pde_refs (mem demo_cow) {1} p = (if p = 4 then {(1, 2)} else {})"
  "pte_refs (mem demo_cow) {1} p = (if p = 5 then {(1, 2, 0)} else {})"
  using demo_cow_tables
  by (auto simp: pde_refs_def pte_refs_def UPDX_def split: if_splits)

lemma demo_cow_counted:
  "accounted [3 \<mapsto> (\<lambda>_. 0)] demo_cow {0, 2, 3} [6, 7, 8, 9, 10]" "vm_ok [3 \<mapsto> (\<lambda>_. 0)] demo_cow"
proof -
  let ?m = "mem demo_cow"
  note d = demo_cow_sel(5)
  have pde: "i = 2" if "i < UPDX" "pde_at ?m 1 i \<noteq> 0" for i
    using that demo_cow_tables(2) by (auto simp: tables_def)
  have P: "(0x4007 :: u32) AND PTE_P \<noteq> 0" "(0x4007 :: u32) AND PTE_PS = 0" "(0x5007 :: u32) AND PTE_P \<noteq> 0"
    by (simp_all add: pte_bits)
  have "shape ?m {1}"
    unfolding shape_def
  proof (intro conjI ballI allI impI)
    show "finite {1}" "{1} \<subseteq> {..<npages ?m}" by (simp_all add: demo_cow_sel)
  next
    fix a i t assume "a \<in> {1}" "i < UPDX" "t < 1024" and nz: "pde_at ?m a i \<noteq> 0 \<and> pte_at ?m a i t \<noteq> 0"
    then have "a = 1" "i = 2" using pde by auto
    then have "pte_at ?m a i t = 0x5007" using nz demo_cow_tables(3)[of t] by (simp split: if_splits)
    then show "pte_at ?m a i t AND PTE_P \<noteq> 0" "data_frame ?m {1} (frame_of (pte_at ?m a i t))"
      using P by (simp_all add: demo_cow_tables(5) data_frame_def demo_cow_refs demo_cow_sel del: One_nat_def)
  next
    fix a i assume "a \<in> {1}" "i < UPDX" "pde_at ?m a i \<noteq> 0"
    then have "a = 1" "i = 2" using pde by auto
    then have "pde_at ?m a i = 0x4007" using demo_cow_tables(1) by simp
    then show "pde_ok ?m (pde_at ?m a i)" "frame_of (pde_at ?m a i) \<notin> {1}"
      using P by (simp_all add: pde_ok_def demo_cow_tables(4) demo_cow_sel)
  next
    fix a i a' i' assume "a \<in> {1}" "i < UPDX" "a' \<in> {1}" "i' < UPDX"
      "pde_at ?m a i \<noteq> 0 \<and> pde_at ?m a' i' \<noteq> 0 \<and> frame_of (pde_at ?m a i) = frame_of (pde_at ?m a' i')"
    then show "a = a'" "i = i'" using pde by auto
  qed
  moreover have "page_repr ?m [6, 7, 8, 9, 10]" by (simp add: page_repr_def demo_cow_def)
  moreover have "kept ?m [3 \<mapsto> (\<lambda>_. 0)] [6, 7, 8, 9, 10]" by (auto simp: kept_def demo_cow_def split: if_splits)
  moreover have "unat (pp_ref ?m p) = refs ?m {1} p + held demo_cow p" for p
    unfolding held_def d refs_def demo_cow_refs by (simp add: demo_cow_def)
  moreover have "pp_link ?m p = None" if "p \<notin> set [6, 7, 8, 9, 10]" for p using that by (auto simp: demo_cow_def)
  moreover have "p \<in> set [6, 7, 8, 9, 10] \<union> {0, 2, 3}" if "p < npages ?m" "pp_ref ?m p = 0" for p
  proof -
    have "p < 11" "p \<noteq> 1" "p \<noteq> 4" "p \<noteq> 5" using that by (auto simp: demo_cow_def split: if_splits)
    then show ?thesis by simp arith
  qed
  ultimately show c: "accounted [3 \<mapsto> (\<lambda>_. 0)] demo_cow {0, 2, 3} [6, 7, 8, 9, 10]"
    unfolding counted_def d by (auto simp: held_def d)
  have "free_envs demo_cow [1]" by (simp add: free_envs_def demo_cow_def demo_kst_def zero_env_def)
  moreover have "env_ipc_dstva (envs demo_cow e) < UTOP" for e
    by (simp add: demo_cow_def zero_env_def memlayout_defs mmu_consts)
  moreover have "kern_pgdir demo_cow = 3" by (simp add: demo_cow_def demo_kst_def)
  ultimately show "vm_ok [3 \<mapsto> (\<lambda>_. 0)] demo_cow"
    using c unfolding vm_ok_def by (auto simp: demo_cow_sel split: if_splits)
qed

lemma demo_cow_open: "open_tables (mem demo_cow) 1" "self_mapped (mem demo_cow) 1" "refs_below 32767 demo_cow"
proof -
  have only: "pde_at (mem demo_cow) 1 i = 0x4007" if "i < UPDX" "pde_at (mem demo_cow) 1 i \<noteq> 0" for i
    using that by (auto simp: demo_cow_tables(1) UPDX_def simp del: One_nat_def split: if_splits)
  show "open_tables (mem demo_cow) 1"
    unfolding open_tables_def
  proof (intro allI impI)
    fix i assume "i < UPDX" "pde_at (mem demo_cow) 1 i \<noteq> 0"
    then have "pde_at (mem demo_cow) 1 i = 0x4007" by (rule only)
    then show "pde_at (mem demo_cow) 1 i AND (PTE_P OR PTE_W OR PTE_U) = PTE_P OR PTE_W OR PTE_U"
      by (simp only:) (simp add: pte_bits)
  qed
  have "unat (PDX UVPT) = 957" by (simp add: unat_PDX memlayout_defs mmu_consts)
  then show "self_mapped (mem demo_cow) 1"
    using demo_cow_tables(1)[of 957] by (simp add: self_mapped_def pde_at_def page2pa_def PGSHIFT_def pte_bits)
  show "refs_below 32767 demo_cow" by (simp add: refs_below_def demo_cow_def)
qed

text \<open>The parent writes at \<open>0x800000\<close> before the fork and cannot afterwards; both read frame 5.\<close>

lemma fork_shares_copy_on_write_witness:
  "user_frame (mem demo_cow) 1 0x800000 True = Some 5 \<and>
   (\<exists>r k' cd. fork 0x800020 0x800040 0x800040 0 demo_cow = Inr (Return ((r, 0), 0x800040), k') \<and> 0 < r
     \<and> user_frame (mem k') cd 0x800000 False = Some 5 \<and> user_frame (mem k') 1 0x800000 False = Some 5
     \<and> user_frame (mem k') cd 0x800000 True = None \<and> user_frame (mem k') 1 0x800000 True = None)"
proof -
  have va: "(0x800000 :: u32) < UTOP" "PGNUM (0x800000 :: u32) \<noteq> PGNUM (UXSTACKTOP - PGSIZE)"
    by (simp_all add: PGNUM_def memlayout_defs mmu_consts)
  have e: "entry (mem demo_cow) 1 (page_no 0x800000) = 0x5007"
    using demo_cow_tables(3)[of 0] by (simp add: entry_def page_no_def unat_PGNUM demo_cow_tables(1) del: One_nat_def)
  have uf: "user_frame (mem demo_cow) 1 0x800000 w = Some 5" for w
    unfolding user_frame_entry[OF demo_cow_open(1) va(1)] e demo_cow_tables(5) by (cases w) (simp_all add: access_def pte_bits)
  have s: "set_pgfault_handler 0x800020 demo_cow 0x800040 0x800040 = Inr (Return 0x800040, demo_cow)"
    by (simp add: set_pgfault_handler_def)
  have w: "\<exists>q. pgdir_walk (mem demo_cow) 1 0x800000 False = Inr (mem demo_cow, Some q)
      \<and> read_pte (mem demo_cow) q AND access False = access False"
    by (rule iffD2[OF walk_user[OF demo_cow_counted(1) _ va(1)]]) (simp add: demo_cow_sel, unfold e, simp add: access_def pte_bits)
  have "page_steps (ROUNDDOWN 0x800000 PGSIZE) (ROUNDUP (0x800000 + PGSIZE) PGSIZE) = [0x800000]"
    by (simp add: page_steps_def ROUNDUP_def ROUNDDOWN_def PGSIZE_def)
  moreover have "\<not> ROUNDUP (0x800000 + PGSIZE) PGSIZE > UTOP" by (simp add: ROUNDUP_def ROUNDDOWN_def memlayout_defs mmu_consts)
  moreover have "PTE_P OR PTE_U = access False" "access False OR PTE_P = access False" by (simp_all add: access_def pte_bits)
  ultimately have up: "user_mem_check (mem demo_cow) (cr3 demo_cow) (env_pgfault_upcall (envs demo_cow 0)) PGSIZE (PTE_P OR PTE_U)
      = Inr (mem demo_cow, 0)"
    using w unfolding user_mem_check_def demo_cow_sel Let_def by (auto simp del: not_less)
  have len: "card (tables (mem demo_cow) (cr3 demo_cow)) + 3 < length [6, 7, 8, 9, 10 :: nat]"
    unfolding demo_cow_sel demo_cow_tables(2) by simp
  have pg: "env_pgdir (envs demo_cow 0) = Some (cr3 demo_cow)" by (simp add: demo_cow_sel)
  have j: "1 < NENV" by (simp add: NENV_def)
  note open3 = demo_cow_open[folded demo_cow_sel(3)]
  from fork_shares_copy_on_write[OF s demo_cow_counted(2,1) demo_cow_sel(2) pg open3(2,1,3) len demo_cow_sel(6) j up]
  show ?thesis
  proof (elim exE conjE, goal_cases)
    case (1 r k' cd p)
    note pages = 1(6)[rule_format, OF va, unfolded demo_cow_sel uf]
    have "user_frame (mem k') cd 0x800000 False = Some 5 \<and> user_frame (mem k') 1 0x800000 False = Some 5
      \<and> user_frame (mem k') cd 0x800000 True = None \<and> user_frame (mem k') 1 0x800000 True = None"
      using pages by blast
    with 1(1,2) uf show ?case by blast
  qed
qed

end
