(* ===== verification/CowFault.thy ===== *)
theory CowFault
  imports ForkProps
begin

unbundle bit_operations_syntax

text \<open>
  The page fault handler of \<^verbatim>\<open>lib/fork.c\<close>: the copy through \<^verbatim>\<open>PFTEMP\<close> word by word, and the three system
  calls that put the copy in the place of the shared page.
\<close>

lemma page_va_word:
  assumes "n < user_pages" and "i < 1024"
  shows "page_no (page_va n + 4 * word_of_nat i) = n" and "unat (PGOFF (page_va n + 4 * word_of_nat i)) div 4 = i"
    and "page_va n + 4 * word_of_nat i < UTOP"
proof -
  have lt: "n < 977920" using assms(1) by (simp add: user_pages_def UPDX_def)
  then have u: "unat (page_va n + 4 * word_of_nat i) = n * 4096 + 4 * i"
    using assms(2) by (simp add: page_va_def PGSHIFT_def push_bit_eq_mult unat_word_ariths unat_of_nat)
  have q: "(n * 4096 + 4 * i) div 4096 = n" by (rule div_nat_eqI) (use assms(2) in simp_all)
  have r: "(n * 4096 + 4 * i) mod 4096 = 4 * i" by (rule mod_nat_eqI) (use assms(2) in simp_all)
  show "page_no (page_va n + 4 * word_of_nat i) = n" by (simp add: page_no_def unat_PGNUM u q)
  show "unat (PGOFF (page_va n + 4 * word_of_nat i)) div 4 = i" by (simp only: unat_PGOFF u r)
  show "page_va n + 4 * word_of_nat i < UTOP"
    using lt assms(2) by (simp add: word_less_nat_alt u memlayout_defs mmu_consts)
qed

lemma user_frame_word:
  assumes "open_tables s d" and "n < user_pages" and "i < 1024"
  shows "user_frame s d (page_va n + 4 * word_of_nat i) w = user_frame s d (page_va n) w"
proof -
  have "page_va n < UTOP" by (rule good_va_user[OF page_va(2)[OF assms(2)]])
  then show ?thesis
    by (simp add: user_frame_entry[OF assms(1)] page_va_word[OF assms(2,3)] page_va(1)[OF assms(2)])
qed

definition copied :: "(nat \<Rightarrow> nat \<Rightarrow> u32) \<Rightarrow> nat \<Rightarrow> nat \<Rightarrow> nat \<Rightarrow> nat \<Rightarrow> nat \<Rightarrow> u32" where
  "copied ph p f i = ph(p := (\<lambda>j. if j < i then ph f j else ph p j))"

lemma user_memmove_copies:
  assumes c: "accounted K k L ps" and d: "cr3 k \<in> dirs k" and op: "open_tables (mem k) (cr3 k)"
    and n: "n < user_pages" "t < user_pages"
    and p: "user_frame (mem k) (cr3 k) (page_va t) True = Some p"
    and f: "user_frame (mem k) (cr3 k) (page_va n) False = Some f" and ne: "p \<noteq> f"
  shows "user_memmove k (page_va t) (page_va n) 1024 = Inr (k\<lparr>mem := (mem k)\<lparr>phys := copied (phys (mem k)) p f 1024\<rparr>\<rparr>)"
proof -
  let ?s = "\<lambda>i. (mem k)\<lparr>phys := copied (phys (mem k)) p f i\<rparr>"
  have dp: "data_frame (mem k) (dirs k) p" "K p = None"
  proof -
    have va: "page_va t < UTOP" by (rule good_va_user[OF page_va(2)[OF n(2)]])
    have e: "entry (mem k) (cr3 k) t AND access True = access True" "frame_of (entry (mem k) (cr3 k) t) = p"
      using p by (simp_all add: user_frame_entry[OF op va] page_va(1)[OF n(2)] split: if_splits)
    then have "entry (mem k) (cr3 k) t \<noteq> 0" by (auto simp: access_def pte_bits)
    with entry_account(1,3)[OF c d n(2)] e(2) show "data_frame (mem k) (dirs k) p" "K p = None" by simp_all
  qed
  have view: "user_frame (?s i) (cr3 k) va w = user_frame (mem k) (cr3 k) va w" "open_tables (?s i) (cr3 k)" if "va < UTOP" for i va w
  proof -
    have ph: "phys (?s i) = (phys (mem k))(p := (\<lambda>j. if j < i then phys (mem k) f j else phys (mem k) p j))" by (simp add: copied_def)
    note w = write_frame[OF c dp ph]
    show o: "open_tables (?s i) (cr3 k)" using op pdes_cong(1)[OF w(4)[OF _ _ _ _ d]] by simp
    show "user_frame (?s i) (cr3 k) va w = user_frame (mem k) (cr3 k) va w"
      by (rule same_view[OF op o same_space_entries[OF w(2)[OF _ _ _ _ d]] that]) simp_all
  qed
  have "user_memmove (k\<lparr>mem := ?s i\<rparr>) (page_va t + 4 * word_of_nat i) (page_va n + 4 * word_of_nat i) j = Inr (k\<lparr>mem := ?s 1024\<rparr>)"
    if "i + j = 1024" for i j
    using that
  proof (induction j arbitrary: i)
    case (Suc j)
    then have i: "i < 1024" by simp
    let ?k = "k\<lparr>mem := ?s i\<rparr>"
    have base: "page_va t + 4 * word_of_nat i < UTOP" "page_va n + 4 * word_of_nat i < UTOP"
      using page_va_word(3)[OF _ i] n by blast+
    have ld: "user_load ?k (page_va n + 4 * word_of_nat i) = Inr (phys (mem k) f i)"
      using f ne by (simp add: user_load_def view(1)[OF base(2)] user_frame_word[OF op n(1) i] page_va_word(2)[OF n(1) i]) (simp add: copied_def)
    have "copied (phys (mem k)) p f (Suc i) = set_cell (copied (phys (mem k)) p f i) p i (phys (mem k) f i)"
      using ne by (auto simp: copied_def set_cell_app fun_eq_iff less_Suc_eq)
    then have st: "user_store ?k (page_va t + 4 * word_of_nat i) (phys (mem k) f i) = Inr (k\<lparr>mem := ?s (Suc i)\<rparr>)"
      using p by (simp add: user_store_def view(1)[OF base(1)] user_frame_word[OF op n(2) i] page_va_word(2)[OF n(2) i])
    have a: "page_va x + 4 * word_of_nat i + 4 = page_va x + 4 * word_of_nat (Suc i)" for x by (simp add: algebra_simps)
    show ?case using Suc.IH[of "Suc i"] Suc.prems by (simp only: user_memmove.simps ld st chain_Inr a)
  qed simp
  from this[of 0 1024] have "user_memmove (k\<lparr>mem := ?s 0\<rparr>) (page_va t) (page_va n) 1024 = Inr (k\<lparr>mem := ?s 1024\<rparr>)" by simp
  moreover have "copied (phys (mem k)) p f 0 = phys (mem k)" by (simp add: copied_def)
  ultimately show ?thesis by simp
qed

lemma PFTEMP_page: "PFTEMP = page_va 2047" "2047 < user_pages"
  by (simp_all add: page_va_def user_pages_def UPDX_def memlayout_defs mmu_consts)

lemma ROUNDDOWN_page: "va < UTOP \<Longrightarrow> ROUNDDOWN va PGSIZE = page_va (page_no va)"
proof -
  assume "va < UTOP"
  from page_va_word[OF page_no_less[OF this], of 0] have n: "page_no va < 977920"
    using page_no_less[OF \<open>va < UTOP\<close>] by (simp add: user_pages_def UPDX_def)
  then have "unat (page_va (page_no va)) = page_no va * 4096"
    by (simp add: page_va_def PGSHIFT_def push_bit_eq_mult unat_word_ariths unat_of_nat)
  moreover have "unat (ROUNDDOWN va PGSIZE) = unat va div 4096 * 4096" by (simp add: unat_ROUNDDOWN)
  ultimately show ?thesis by (simp add: word_unat_eq_iff page_no_def unat_PGNUM)
qed

lemma perm_PUW: "page2pa p OR (PTE_P OR PTE_U OR (PTE_P OR PTE_U OR PTE_W)) OR PTE_P = page2pa p OR (PTE_P OR PTE_U OR PTE_W)"
  "page2pa p OR ((PTE_P OR PTE_U OR PTE_W) OR PTE_U OR PTE_P) OR PTE_P = page2pa p OR (PTE_P OR PTE_U OR PTE_W)"
  by (simp_all add: pte_bits or.assoc)

lemma entry_PUW:
  assumes "p < 2 ^ 20"
  shows "frame_of (page2pa p OR (PTE_P OR PTE_U OR PTE_W)) = p"
    and "(page2pa p OR (PTE_P OR PTE_U OR PTE_W)) AND access w = access w"
    and "page2pa p OR (PTE_P OR PTE_U OR PTE_W) \<noteq> 0" and "(page2pa p OR (PTE_P OR PTE_U OR PTE_W)) AND PTE_W \<noteq> 0"
proof -
  have f: "flags_ok (PTE_P OR PTE_U OR PTE_W)" by (simp add: flags_ok_or)
  show "frame_of (page2pa p OR (PTE_P OR PTE_U OR PTE_W)) = p" by (rule frame_of_entry[OF assms f])
  show "(page2pa p OR (PTE_P OR PTE_U OR PTE_W)) AND access w = access w"
    by (intro bit_word_eqI) (auto simp: access_def bit_simps)
  have "(PTE_P OR PTE_U OR PTE_W) AND PTE_P \<noteq> 0" by (simp add: pte_bits)
  then show "page2pa p OR (PTE_P OR PTE_U OR PTE_W) \<noteq> 0" by (rule page2pa_or_nz)
  have "page2pa p AND PTE_W = 0" by (rule page2pa_and_flag) simp
  then show "(page2pa p OR (PTE_P OR PTE_U OR PTE_W)) AND PTE_W \<noteq> 0"
    by (simp add: bit.conj_disj_distrib2) (simp add: pte_bits)
qed

lemma entry_table: "n < user_pages \<Longrightarrow> entry s d n \<noteq> 0 \<Longrightarrow> n div 1024 \<in> tables s d"
  using user_pages_split[of n] by (simp add: entry_def tables_def split: if_splits)

text \<open>A page that has just come from the free list has one reference.\<close>

lemma new_page_count:
  assumes c: "counted s D x K L ps" and p: "p \<in> set ps" and r: "remaps s m D qs d t v" and d: "d \<in> D" "t < user_pages"
  shows "card (pte_refs m D p) \<le> 1"
proof -
  have "pte_refs m D p \<subseteq> {(d, t div 1024, t mod 1024)}"
  proof
    fix y assume y: "y \<in> pte_refs m D p"
    obtain a i j where aij: "y = (a, i, j)" by (cases y)
    have h: "a \<in> D" "i < UPDX" "j < 1024" using y by (simp_all add: aij pte_refs_entry)
    note e = remapsD(2)[OF r h(1) user_pages_join[OF h(2,3)]]
    have "a = d \<and> i * 1024 + j = t"
    proof (rule ccontr)
      assume no: "\<not> (a = d \<and> i * 1024 + j = t)"
      have "entry m a (i * 1024 + j) = entry s a (i * 1024 + j)" using e unfolding if_not_P[OF no] .
      then have "y \<in> pte_refs s D p" using y by (simp add: aij pte_refs_entry)
      then show False using free_unreferenced(2)[OF c p] by simp
    qed
    moreover have "(i * 1024 + j) div 1024 = i" "(i * 1024 + j) mod 1024 = j" using h(3) by simp_all
    ultimately show "y \<in> {(d, t div 1024, t mod 1024)}" by (auto simp: aij)
  qed
  then show ?thesis using card_mono[of "{(d, t div 1024, t mod 1024)}"] by fastforce
qed

text \<open>The four steps of the handler: a new page at \<^verbatim>\<open>PFTEMP\<close>, the copy, the new page in the old one's place,
  and \<^verbatim>\<open>PFTEMP\<close> cleared.\<close>

lemma pgfault_copy_steps:
  assumes c: "accounted K k L (p # q # ps)" and t: "target k 0 (cr3 k)" and op: "open_tables (mem k) (cr3 k)"
    and n: "n < user_pages" "n \<noteq> 2047" "ROUNDDOWN va PGSIZE = page_va n"
    and e: "entry (mem k) (cr3 k) n AND access False = access False"
  defines "f \<equiv> frame_of (entry (mem k) (cr3 k) n)" and "v \<equiv> page2pa p OR (PTE_P OR PTE_U OR PTE_W)"
  shows "\<exists>m1 m2 m3 m4 ps1 ps3 ps4. pgfault_copy k va = Inr (Return (), k\<lparr>mem := m4\<rparr>)
    \<and> remaps (mem k) m1 (dirs k) (p # q # ps) (cr3 k) 2047 v \<and> counted m1 (dirs k) (held k) K L ps1
    \<and> m2 = m1\<lparr>phys := copied (phys m1) p f 1024\<rparr> \<and> counted m2 (dirs k) (held k) K L ps1
    \<and> remaps m2 m3 (dirs k) ps1 (cr3 k) n v \<and> counted m3 (dirs k) (held k) K L ps3
    \<and> remaps m3 m4 (dirs k) ps3 (cr3 k) 2047 0 \<and> counted m4 (dirs k) (held k) K L ps4"
proof -
  let ?D = "dirs k" and ?d = "cr3 k"
  have dD: "?d \<in> ?D" by (rule target_dir[OF t])
  have nz: "entry (mem k) ?d n \<noteq> 0" using e by (auto simp: access_def pte_bits)
  note PF = page_va[OF PFTEMP_page(2), folded PFTEMP_page(1)] and pn = page_va[OF n(1)]
  have perm: "(PTE_P OR PTE_U OR PTE_W) AND NOT PTE_SYSCALL = 0" "flags_ok (PTE_P OR PTE_U OR PTE_W)"
    by (simp add: pte_bits, simp add: flags_ok_or)
  obtain m1 ps1 where 1: "u_page_alloc k 0 PFTEMP (PTE_P OR PTE_U OR PTE_W) = Inr (Return 0, k\<lparr>mem := m1\<rparr>)"
    "accounted K (k\<lparr>mem := m1\<rparr>) L ps1" "remaps (mem k) m1 ?D (p # q # ps) ?d 2047 v"
    using alloc_call[OF c t PF(2) perm(1)] unfolding PF(1) perm_PUW v_def by blast
  have c1: "counted m1 ?D (held k) K L ps1" using 1(2) by simp
  have p: "p \<in> set (p # q # ps)" by simp
  have p20: "p < 2 ^ 20" using countedD(2)[OF c] by (auto simp: page_repr_def)
  note v = entry_PUW[OF p20, folded v_def]
  have fne: "p \<noteq> f" using entry_account(2)[OF c dD n(1) nz] by (auto simp: f_def)
  have op1: "open_tables m1 ?d" by (rule remapsD(4)[OF 1(3) dD op])
  have e1: "entry m1 ?d 2047 = v" "entry m1 ?d n = entry (mem k) ?d n"
    using remapsD(2)[OF 1(3) dD] PFTEMP_page(2) n(1,2) by simp_all
  have lt: "page_va 2047 < UTOP" "page_va n < UTOP" using good_va_user page_va(2) PFTEMP_page(2) n(1) by blast+
  have u1: "user_frame m1 ?d (page_va 2047) True = Some p" "user_frame m1 ?d (page_va n) False = Some f"
    using e v(1,2) by (simp_all add: user_frame_entry[OF op1] lt page_va(1) PFTEMP_page(2) n(1) e1 f_def)
  let ?m2 = "m1\<lparr>phys := copied (phys m1) p f 1024\<rparr>"
  have 2: "user_memmove (k\<lparr>mem := m1\<rparr>) PFTEMP (page_va n) 1024 = Inr (k\<lparr>mem := ?m2\<rparr>)"
    using user_memmove_copies[OF 1(2), of n 2047 p f] dD op1 n(1) PFTEMP_page u1 fne by simp
  have d1: "data_frame m1 ?D p" "K p = None"
    using entry_account(1,3)[OF c1 dD PFTEMP_page(2)] e1(1) v(1,3) by simp_all
  have "phys ?m2 = (phys m1)(p := (\<lambda>j. if j < 1024 then phys m1 f j else phys m1 p j))" by (simp add: copied_def)
  note w = write_frame[OF c1 d1 this, simplified]
  have e2: "entry ?m2 a i = entry m1 a i" if "a \<in> ?D" "i < user_pages" for a i
    by (rule same_space_entries[OF w(2)[OF that(1)] that(2)])
  have t2: "tables ?m2 ?d = tables m1 ?d" by (rule pdes_cong(2)) (use w(4)[OF dD] in simp)
  have 3: "accounted K (k\<lparr>mem := ?m2\<rparr>) L ps1" using w(1) by simp
  have tk: "target (k\<lparr>mem := ?m2\<rparr>) 0 ?d" using t by simp
  have r: "remaps (mem k) m1 ?D (p # q # ps) ?d 2047 v" by (rule 1(3))
  have "pte_refs ?m2 ?D p = pte_refs m1 ?D p" using e2 user_pages_join by (auto simp: pte_refs_entry)
  then have "card (pte_refs ?m2 ?D p) \<le> 1" using new_page_count[OF c p r dD PFTEMP_page(2)] by simp
  moreover have "held k p = 0" using d1(1) by (simp add: held_def data_frame_def)
  ultimately have ref: "unat (pp_ref ?m2 p) < 65535" using frame_count[OF w(1), of p] d1(1) w(3) by simp
  have nt: "n div 1024 \<in> tables ?m2 ?d" using remapsD(5)[OF 1(3) dD] entry_table[OF n(1) nz] t2 by blast
  have ev: "entry ?m2 ?d (page_no PFTEMP) = v" using e2[OF dD PFTEMP_page(2)] e1(1) PF(1) by simp
  obtain m3 ps3 where 4: "u_page_map (k\<lparr>mem := ?m2\<rparr>) 0 PFTEMP 0 (page_va n) (PTE_P OR PTE_U OR PTE_W) = Inr (Return 0, k\<lparr>mem := m3\<rparr>)"
    "counted m3 ?D (held k) K L ps3" "remaps ?m2 m3 ?D ps1 ?d n v"
    using map_call[OF 3 tk tk PF(2) pn(2) _ perm(2)] ev v(1,3,4) ref nt pn(1,3) perm_PUW(1)[of p, folded v_def] by auto
  have t3: "target (k\<lparr>mem := m3\<rparr>) 0 ?d" and a3: "accounted K (k\<lparr>mem := m3\<rparr>) L ps3" using t 4(2) by simp_all
  have "2047 div 1024 \<in> tables m1 ?d" using entry_table[OF PFTEMP_page(2)] e1(1) v(3) by simp
  then have pt: "unat (PDX PFTEMP) \<in> tables (mem (k\<lparr>mem := m3\<rparr>)) ?d"
    using remapsD(5)[OF 4(3) dD] t2 PF(3) by auto
  obtain m4 ps4 where 5: "u_page_unmap (k\<lparr>mem := m3\<rparr>) 0 PFTEMP = Inr (Return 0, k\<lparr>mem := m4\<rparr>)"
    "counted m4 ?D (held k) K L ps4" "remaps m3 m4 ?D ps3 ?d 2047 0"
    using unmap_call[OF a3 t3 PF(2) pt] PF(1) by auto
  have "pgfault_copy k va = Inr (Return (), k\<lparr>mem := m4\<rparr>)"
    using 1(1) 2 4(1) 5(1) by (simp add: pgfault_copy_def must_def n(3) Let_def)
  with 1(3) c1 w(1) 4(2,3) 5(2,3) show ?thesis by blast
qed

text \<open>What stays mapped keeps its contents over one update of an entry.\<close>

lemma remaps_contents:
  assumes r: "remaps s m D ps d n v" and c: "counted s D x K L ps" and a: "a \<in> D" "i < user_pages" "entry s a i \<noteq> 0"
  shows "phys m (frame_of (entry s a i)) = phys s (frame_of (entry s a i))"
  using remapsD(7)[OF r] entry_account(1,2)[OF c a] by simp

text \<open>The four steps together: entries and contents.\<close>

lemma pgfault_copy_effect:
  assumes c: "counted s D x K L (p # ps)" and d: "d \<in> D" and n: "n < user_pages" "n \<noteq> 2047" "entry s d n \<noteq> 0"
    and v: "frame_of v = p" "v \<noteq> 0"
    and r1: "remaps s m1 D (p # ps) d 2047 v" and c1: "counted m1 D x K L ps1"
    and m2: "m2 = m1\<lparr>phys := copied (phys m1) p (frame_of (entry s d n)) 1024\<rparr>" and c2: "counted m2 D x K L ps1"
    and r3: "remaps m2 m3 D ps1 d n v" and c3: "counted m3 D x K L ps3" and r4: "remaps m3 m4 D ps3 d 2047 0"
  shows "a \<in> D \<Longrightarrow> i < user_pages \<Longrightarrow>
      entry m4 a i = (if a = d \<and> i = n then v else if a = d \<and> i = 2047 then 0 else entry s a i)"
    and "a \<in> D \<Longrightarrow> i < user_pages \<Longrightarrow> (a, i) \<notin> {(d, n), (d, 2047)} \<Longrightarrow> entry s a i \<noteq> 0 \<Longrightarrow>
      phys m4 (frame_of (entry s a i)) = phys s (frame_of (entry s a i))"
    and "j < 1024 \<Longrightarrow> phys m4 p j = phys s (frame_of (entry s d n)) j"
    and "open_tables s d \<Longrightarrow> open_tables m4 d"
proof -
  note pf = PFTEMP_page(2)
  have e1: "entry m1 a i = (if a = d \<and> i = 2047 then v else entry s a i)" if "a \<in> D" "i < user_pages" for a i
    by (rule remapsD(2)[OF r1 that])
  have nz1: "entry m1 d 2047 \<noteq> 0" "frame_of (entry m1 d 2047) = p" using e1[OF d pf] v by simp_all
  have dp: "data_frame m1 D p" "K p = None" using entry_account(1,3)[OF c1 d pf nz1(1)] nz1(2) by simp_all
  have "phys m2 = (phys m1)(p := (\<lambda>j. if j < 1024 then phys m1 (frame_of (entry s d n)) j else phys m1 p j))"
    by (simp add: m2 copied_def)
  note w = write_frame(2)[OF c1 dp this] and ph2 = this
  have e2: "entry m2 a i = entry m1 a i" if "a \<in> D" "i < user_pages" for a i
    by (rule same_space_entries[OF w[OF _ _ _ _ that(1)] that(2)]) (simp_all add: m2)
  have e3: "entry m3 a i = (if a = d \<and> i = n then v else if a = d \<and> i = 2047 then v else entry s a i)"
    if "a \<in> D" "i < user_pages" for a i using e2[OF that] e1[OF that] by (auto simp: remapsD(2)[OF r3 that])
  show "entry m4 a i = (if a = d \<and> i = n then v else if a = d \<and> i = 2047 then 0 else entry s a i)"
    if "a \<in> D" "i < user_pages" for a i using n(2) e3[OF that] by (auto simp: remapsD(2)[OF r4 that])
  show "phys m4 (frame_of (entry s a i)) = phys s (frame_of (entry s a i))"
    if h: "a \<in> D" "i < user_pages" "(a, i) \<notin> {(d, n), (d, 2047)}" "entry s a i \<noteq> 0"
  proof -
    have "frame_of (entry s a i) \<noteq> p" using entry_account(2)[OF c h(1,2,4)] by auto
    moreover have "entry m2 a i = entry s a i" "entry m3 a i = entry s a i"
      using h(3) by (auto simp: e3[OF h(1,2)] e2[OF h(1,2)] e1[OF h(1,2)])
    ultimately show ?thesis
      using remaps_contents[OF r4 c3 h(1,2)] remaps_contents[OF r3 c2 h(1,2)] remaps_contents[OF r1 c h(1,2,4)] h(4)
      by (simp add: ph2)
  qed
  have "phys m2 d = phys m1 d" by (rule write_frame(4)[OF c1 dp ph2 _ _ _ _ d]) (simp_all add: m2)
  then show "open_tables s d \<Longrightarrow> open_tables m4 d"
    using remapsD(4)[OF r1 d] remapsD(4)[OF r3 d] remapsD(4)[OF r4 d] pdes_cong(1) by blast
  assume j: "j < 1024"
  have "entry m2 d 2047 = v" "entry m3 d n = v" using e2[OF d pf] e1[OF d pf] e3[OF d n(1)] by simp_all
  then have "phys m4 p = phys m2 p"
    using remaps_contents[OF r4 c3 d n(1)] remaps_contents[OF r3 c2 d pf] v by simp
  then show "phys m4 p j = phys s (frame_of (entry s d n)) j"
    using j remaps_contents[OF r1 c d n(1,3)] by (simp add: ph2)
qed

text \<open>C6: A fault at a page the environment can read, as a write to a copy-on-write page is, gives it a
  private copy. The comment in \<^verbatim>\<open>pgfault\<close> wants a panic for a fault that is not a write or a page that is not
  copy-on-write; its test joins the two conditions by a bitwise and and never fires
  (\<open>pgfault_check_never_fires\<close>, a finding), so that this holds for every fault at a readable page, copy-on-write or not.
  With two free pages the handler returns, the page is mapped writable to a frame that no address space referred to before,
  with the contents of the page at the fault, \<^verbatim>\<open>PFTEMP\<close> is unmapped again, and every other entry of every
  address space, the other side of the fork included, is as before and reads as before.\<close>

theorem pgfault_private_copy:
  assumes "vm_ok K k" and "accounted K k L (p # q # ps)" and "curenv k = Some i" and "env_pgdir (envs k i) = Some (cr3 k)"
    and "self_mapped (mem k) (cr3 k)" and "open_tables (mem k) (cr3 k)"
    and "va < UTOP" and "PGNUM va \<noteq> PGNUM PFTEMP" and "user_frame (mem k) (cr3 k) va False = Some f"
  shows "\<exists>k'. pgfault k va err = Inr (Return (), k') \<and> vm_ok K k'
    \<and> user_frame (mem k') (cr3 k) va True = Some p \<and> pte_refs (mem k) (dirs k) p = {}
    \<and> (\<forall>j<1024. phys (mem k') p j = phys (mem k) f j) \<and> entry (mem k') (cr3 k) (page_no PFTEMP) = 0
    \<and> (\<forall>d\<in>dirs k. \<forall>m<user_pages. (d, m) \<notin> {(cr3 k, page_no va), (cr3 k, page_no PFTEMP)} \<longrightarrow>
         entry (mem k') d m = entry (mem k) d m
         \<and> (entry (mem k) d m \<noteq> 0 \<longrightarrow> phys (mem k') (frame_of (entry (mem k) d m)) = phys (mem k) (frame_of (entry (mem k) d m))))"
proof -
  let ?D = "dirs k" and ?d = "cr3 k" and ?n = "page_no va"
  have t: "target k 0 ?d" using assms(3,4) by (simp add: target_def envid2env_def)
  have dD: "?d \<in> ?D" by (rule target_dir[OF t])
  have n: "?n < user_pages" "ROUNDDOWN va PGSIZE = page_va ?n" using page_no_less ROUNDDOWN_page assms(7) by simp_all
  have pf: "page_no PFTEMP = 2047" using page_va(1)[OF PFTEMP_page(2)] by (simp add: PFTEMP_page(1))
  then have ne: "?n \<noteq> 2047" using assms(8) unfolding page_no_def by (metis word_unat_eq_iff)
  have e: "entry (mem k) ?d ?n AND access False = access False" "frame_of (entry (mem k) ?d ?n) = f"
    using assms(9) by (simp_all add: user_frame_entry[OF assms(6,7)] split: if_splits)
  then have nz: "entry (mem k) ?d ?n \<noteq> 0" by (auto simp: access_def pte_bits)
  let ?v = "page2pa p OR (PTE_P OR PTE_U OR PTE_W)"
  obtain m1 m2 m3 m4 ps1 ps3 ps4 where k': "pgfault_copy k va = Inr (Return (), k\<lparr>mem := m4\<rparr>)"
    and r1: "remaps (mem k) m1 ?D (p # q # ps) ?d 2047 ?v" and c1: "counted m1 ?D (held k) K L ps1"
    and m2: "m2 = m1\<lparr>phys := copied (phys m1) p f 1024\<rparr>" and c2: "counted m2 ?D (held k) K L ps1"
    and r3: "remaps m2 m3 ?D ps1 ?d ?n ?v" and c3: "counted m3 ?D (held k) K L ps3"
    and r4: "remaps m3 m4 ?D ps3 ?d 2047 0" and c4: "counted m4 ?D (held k) K L ps4"
    using pgfault_copy_steps[OF assms(2) t assms(6) n(1) ne n(2) e(1)] unfolding e(2) by blast
  have "uvpt k (word_of_nat ?n) = Inr (entry (mem k) ?d ?n)"
    by (rule uvpt_entry[OF assms(5) n(1) assms(6) entry_table[OF n(1) nz]])
  then have "uvpt k (drop_bit PGSHIFT va) = Inr (entry (mem k) ?d ?n)"
    by (simp add: page_no_def PGNUM_def PGSHIFT_def PTXSHIFT_def)
  moreover have "(err AND FEC_WR) AND (if b then 1 else 0) = 0" for b
    by (simp add: FEC_WR_def and.assoc)
  ultimately have call: "pgfault k va err = Inr (Return (), k\<lparr>mem := m4\<rparr>)" using k' by (simp add: pgfault_def)
  have p: "p \<in> set (p # q # ps)" "p < 2 ^ 20" using countedD(2)[OF assms(2)] by (auto simp: page_repr_def)
  note v = entry_PUW[OF p(2)]
  note ef = pgfault_copy_effect[OF assms(2) dD n(1) ne nz v(1,3) r1 c1 m2[folded e(2)] c2 r3 c3 r4, unfolded e(2)]
  have "user_frame m4 ?d va True = Some p"
    using ef(1)[OF dD n(1)] v(1,2) by (simp add: user_frame_entry[OF ef(4)[OF assms(6)] assms(7)])
  moreover have "entry m4 ?d (page_no PFTEMP) = 0" using ef(1)[OF dD PFTEMP_page(2)] ne by (simp add: pf)
  moreover have "vm_ok K (k\<lparr>mem := m4\<rparr>)" by (rule vm_ok_mem[OF assms(1) c4])
  moreover have "entry m4 d m = entry (mem k) d m"
    if "d \<in> ?D" "m < user_pages" "(d, m) \<notin> {(?d, ?n), (?d, page_no PFTEMP)}" for d m
    using that by (auto simp: ef(1) pf)
  ultimately show ?thesis
    using call free_unreferenced(2)[OF assms(2) p(1)] ef(2,3) unfolding pf by (intro exI[of _ "k\<lparr>mem := m4\<rparr>"]) simp
qed

lemma pgfault_private_copy_witness:
  "\<exists>k'. pgfault demo_cow 0x800010 (FEC_U OR FEC_WR OR FEC_PR) = Inr (Return (), k')
     \<and> user_frame (mem k') 1 0x800010 True = Some 6 \<and> (\<forall>j<1024. phys (mem k') 6 j = phys (mem demo_cow) 5 j)"
proof -
  have va: "(0x800010 :: u32) < UTOP" "PGNUM (0x800010 :: u32) \<noteq> PGNUM PFTEMP"
    by (simp_all add: PGNUM_def memlayout_defs mmu_consts)
  have e: "entry (mem demo_cow) 1 (page_no 0x800010) = 0x5007"
    using demo_cow_tables(3)[of 0] by (simp add: entry_def page_no_def unat_PGNUM demo_cow_tables(1) del: One_nat_def)
  have uf: "user_frame (mem demo_cow) 1 0x800010 False = Some 5"
    unfolding user_frame_entry[OF demo_cow_open(1) va(1)] e demo_cow_tables(5) by (simp add: access_def pte_bits)
  have pg: "env_pgdir (envs demo_cow 0) = Some (cr3 demo_cow)" by (simp add: demo_cow_sel)
  note open3 = demo_cow_open[folded demo_cow_sel(3)]
  from pgfault_private_copy[OF demo_cow_counted(2,1) demo_cow_sel(2) pg open3(2,1) va, unfolded demo_cow_sel, OF uf]
  show ?thesis by blast
qed

end
