(* ===== verification/DumbFork.thy ===== *)
theory DumbFork
  imports CowFault
begin

unbundle bit_operations_syntax

text \<open>
  The fork that copies: \<^verbatim>\<open>user/dumbfork.c\<close>. Every page of the program goes to the child through a window
  at \<^verbatim>\<open>UTEMP\<close> of the parent; the child's page is a frame of its own with the parent's contents.
\<close>

section \<open>The program\<close>

definition dumb_duppage :: "u32 \<Rightarrow> kst \<Rightarrow> u32 \<Rightarrow> fault + (unit ctl \<times> kst)" where
  "dumb_duppage dstenv k addr =
     must (u_page_alloc k dstenv addr (PTE_P OR PTE_U OR PTE_W)) (\<lambda>k1.
     must (u_page_map k1 dstenv addr 0 UTEMP (PTE_P OR PTE_U OR PTE_W)) (\<lambda>k2.
     chain (user_memmove k2 UTEMP addr 1024) (\<lambda>k3.
     must (u_page_unmap k3 0 UTEMP) (\<lambda>k4. Inr (Return (), k4)))))"

text \<open>\<open>end_addr\<close> is the end of the program, \<open>sp\<close> the address of the local variable \<^verbatim>\<open>addr\<close>. The loop visits the
  addresses from \<^verbatim>\<open>UTEXT\<close> on that are below the end.\<close>

fun dumb_pages :: "u32 \<Rightarrow> u32 \<Rightarrow> nat \<Rightarrow> kst \<Rightarrow> u32 \<Rightarrow> fault + (unit ctl \<times> kst)" where
  "dumb_pages envid end_addr 0 k addr = (if addr < end_addr then Inl Endless else Inr (Return (), k))"
| "dumb_pages envid end_addr (Suc n) k addr =
     (if addr < end_addr then bindc (dumb_duppage envid k addr) (\<lambda>_ k1. dumb_pages envid end_addr n k1 (addr + PGSIZE))
      else Inr (Return (), k))"

definition dumbfork_from :: "u32 \<Rightarrow> u32 \<Rightarrow> nat \<Rightarrow> int \<Rightarrow> kst \<Rightarrow> fault + ((int \<times> nat) ctl \<times> kst)" where
  "dumbfork_from end_addr sp thisenv envid k =
     (if envid < 0 then upanic k
      else if envid = 0 then child_branch k
      else bindc (dumb_pages (word_of_int envid) end_addr (2 ^ 20) k UTEXT) (\<lambda>_ k1.
        bindc (dumb_duppage (word_of_int envid) k1 (ROUNDDOWN sp PGSIZE)) (\<lambda>_ k2.
        must (u_env_set_status k2 (word_of_int envid) (status_code ENV_RUNNABLE)) (\<lambda>k3.
          Inr (Return (envid, thisenv), k3)))))"

definition dumbfork :: "u32 \<Rightarrow> u32 \<Rightarrow> nat \<Rightarrow> kst \<Rightarrow> fault + ((int \<times> nat) ctl \<times> kst)" where
  "dumbfork end_addr sp thisenv k = bindc (u_exofork k) (dumbfork_from end_addr sp thisenv)"

section \<open>One page\<close>

lemma UTEMP_page: "UTEMP = page_va 1024" "1024 < user_pages"
  by (simp_all add: page_va_def user_pages_def UPDX_def memlayout_defs mmu_consts)

lemma dumb_duppage_steps:
  assumes c: "accounted K k L (p # q # r # ps)" and t: "target k 0 (cr3 k)" and b: "target k b cd" and ne: "cd \<noteq> cr3 k"
    and op: "open_tables (mem k) (cr3 k)" and n: "n < user_pages" "n \<noteq> 1024"
    and e: "entry (mem k) (cr3 k) n AND access False = access False"
  defines "f \<equiv> frame_of (entry (mem k) (cr3 k) n)" and "v \<equiv> page2pa p OR (PTE_P OR PTE_U OR PTE_W)"
  shows "\<exists>m1 m2 m3 m4 ps1 ps2 ps4. dumb_duppage b k (page_va n) = Inr (Return (), k\<lparr>mem := m4\<rparr>)
    \<and> remaps (mem k) m1 (dirs k) (p # q # r # ps) cd n v \<and> counted m1 (dirs k) (held k) K L ps1
    \<and> remaps m1 m2 (dirs k) ps1 (cr3 k) 1024 v \<and> counted m2 (dirs k) (held k) K L ps2
    \<and> m3 = m2\<lparr>phys := copied (phys m2) p f 1024\<rparr> \<and> counted m3 (dirs k) (held k) K L ps2
    \<and> remaps m3 m4 (dirs k) ps2 (cr3 k) 1024 0 \<and> counted m4 (dirs k) (held k) K L ps4 \<and> length ps \<le> length ps4"
proof -
  let ?D = "dirs k" and ?d = "cr3 k"
  have dD: "?d \<in> ?D" "cd \<in> ?D" using target_dir[OF t] target_dir[OF b] .
  have nz: "entry (mem k) ?d n \<noteq> 0" using e by (auto simp: access_def pte_bits)
  note UT = page_va[OF UTEMP_page(2), folded UTEMP_page(1)] and pn = page_va[OF n(1)]
  have perm: "(PTE_P OR PTE_U OR PTE_W) AND NOT PTE_SYSCALL = 0" "flags_ok (PTE_P OR PTE_U OR PTE_W)"
    by (simp add: pte_bits, simp add: flags_ok_or)
  obtain m1 ps1 where 1: "u_page_alloc k b (page_va n) (PTE_P OR PTE_U OR PTE_W) = Inr (Return 0, k\<lparr>mem := m1\<rparr>)"
    "accounted K (k\<lparr>mem := m1\<rparr>) L ps1" "remaps (mem k) m1 ?D (p # q # r # ps) cd n v" "length (q # r # ps) \<le> length ps1 + 1"
    using alloc_call[OF c b pn(2) perm(1)] unfolding pn(1) perm_PUW v_def by (force split: if_splits)
  have c1: "counted m1 ?D (held k) K L ps1" using 1(2) by simp
  have ps1: "ps1 \<noteq> []" using 1(4) by auto
  have p: "p \<in> set (p # q # r # ps)" by simp
  have p20: "p < 2 ^ 20" using countedD(2)[OF c] by (auto simp: page_repr_def)
  note v = entry_PUW[OF p20, folded v_def]
  have fne: "p \<noteq> f" using entry_account(2)[OF c dD(1) n(1) nz] by (auto simp: f_def)
  have e1: "entry m1 cd n = v" "entry m1 ?d n = entry (mem k) ?d n"
    using remapsD(2)[OF 1(3)] dD ne n(1) by simp_all
  have "card (pte_refs m1 ?D p) \<le> 1" by (rule new_page_count[OF c p 1(3) dD(2) n(1)])
  moreover have d1: "data_frame m1 ?D p" "K p = None"
    using entry_account(1,3)[OF c1 dD(2) n(1)] e1(1) v(1,3) by simp_all
  moreover have "held k p = 0" using d1(1) by (simp add: held_def data_frame_def)
  ultimately have ref: "unat (pp_ref m1 p) < 65535" using frame_count[OF c1, of p] by simp
  have t1: "target (k\<lparr>mem := m1\<rparr>) b cd" "target (k\<lparr>mem := m1\<rparr>) 0 ?d" using t b by simp_all
  obtain m2 ps2 where 2: "u_page_map (k\<lparr>mem := m1\<rparr>) b (page_va n) 0 UTEMP (PTE_P OR PTE_U OR PTE_W) = Inr (Return 0, k\<lparr>mem := m2\<rparr>)"
    "counted m2 ?D (held k) K L ps2" "remaps m1 m2 ?D ps1 ?d 1024 v" "length ps1 \<le> length ps2 + 1"
    using map_call[OF 1(2) t1 pn(2) UT(2) _ perm(2)] e1(1) v(1,3,4) ref ps1 pn(1) UT(1) perm_PUW(1)[of p, folded v_def]
    by (auto split: if_splits)
  have op2: "open_tables m2 ?d" by (rule remapsD(4)[OF 2(3) dD(1) remapsD(4)[OF 1(3) dD(1) op]])
  have e2: "entry m2 ?d 1024 = v" "entry m2 ?d n = entry (mem k) ?d n"
    using remapsD(2)[OF 2(3) dD(1)] UTEMP_page(2) n e1(2) by simp_all
  have lt: "page_va 1024 < UTOP" "page_va n < UTOP" using good_va_user page_va(2) UTEMP_page(2) n(1) by blast+
  have u2: "user_frame m2 ?d (page_va 1024) True = Some p" "user_frame m2 ?d (page_va n) False = Some f"
    using e v(1,2) by (simp_all add: user_frame_entry[OF op2] lt page_va(1) UTEMP_page(2) n(1) e2 f_def)
  let ?m3 = "m2\<lparr>phys := copied (phys m2) p f 1024\<rparr>"
  have a2: "accounted K (k\<lparr>mem := m2\<rparr>) L ps2" using 2(2) by simp
  have 3: "user_memmove (k\<lparr>mem := m2\<rparr>) UTEMP (page_va n) 1024 = Inr (k\<lparr>mem := ?m3\<rparr>)"
    using user_memmove_copies[OF a2, of n 1024 p f] dD(1) op2 n(1) UTEMP_page u2 fne by simp
  have d2: "data_frame m2 ?D p" "K p = None"
    using entry_account(1,3)[OF 2(2) dD(1) UTEMP_page(2)] e2(1) v(1,3) by simp_all
  have "phys ?m3 = (phys m2)(p := (\<lambda>j. if j < 1024 then phys m2 f j else phys m2 p j))" by (simp add: copied_def)
  note w = write_frame[OF 2(2) d2 this, simplified]
  have t3: "target (k\<lparr>mem := ?m3\<rparr>) 0 ?d" and a3: "accounted K (k\<lparr>mem := ?m3\<rparr>) L ps2" using t w(1) by simp_all
  have "tables ?m3 ?d = tables m2 ?d" by (rule pdes_cong(2)) (use w(4)[OF dD(1)] in simp)
  then have pt: "unat (PDX UTEMP) \<in> tables (mem (k\<lparr>mem := ?m3\<rparr>)) ?d"
    using entry_table[OF UTEMP_page(2), of m2 ?d] e2(1) v(3) UT(3) by simp
  obtain m4 ps4 where 4: "u_page_unmap (k\<lparr>mem := ?m3\<rparr>) 0 UTEMP = Inr (Return 0, k\<lparr>mem := m4\<rparr>)"
    "counted m4 ?D (held k) K L ps4" "remaps ?m3 m4 ?D ps2 ?d 1024 0"
    "length ps2 \<le> length ps4"
    using unmap_call[OF a3 t3 UT(2) pt] UT(1) by auto
  have "dumb_duppage b k (page_va n) = Inr (Return (), k\<lparr>mem := m4\<rparr>)"
    using 1(1) 2(1) 3 4(1) by (simp add: dumb_duppage_def must_def)
  moreover have "length ps \<le> length ps4" using 1(4) 2(4) 4(4) by simp
  ultimately show ?thesis using 1(3) c1 2(2,3) w(1) 4(2,3) by blast
qed

text \<open>The four steps together.\<close>

lemma dumb_duppage_effect:
  assumes c: "counted s D x K L (p # ps)" and d: "d \<in> D" "cd \<in> D" "cd \<noteq> d"
    and n: "n < user_pages" "n \<noteq> 1024" "entry s d n \<noteq> 0" and v: "frame_of v = p" "v \<noteq> 0"
    and r1: "remaps s m1 D (p # ps) cd n v" and c1: "counted m1 D x K L ps1"
    and r2: "remaps m1 m2 D ps1 d 1024 v" and c2: "counted m2 D x K L ps2"
    and m3: "m3 = m2\<lparr>phys := copied (phys m2) p (frame_of (entry s d n)) 1024\<rparr>" and c3: "counted m3 D x K L ps2"
    and r4: "remaps m3 m4 D ps2 d 1024 0"
  shows "a \<in> D \<Longrightarrow> i < user_pages \<Longrightarrow>
      entry m4 a i = (if a = cd \<and> i = n then v else if a = d \<and> i = 1024 then 0 else entry s a i)"
    and "a \<in> D \<Longrightarrow> i < user_pages \<Longrightarrow> (a, i) \<notin> {(cd, n), (d, 1024)} \<Longrightarrow> entry s a i \<noteq> 0 \<Longrightarrow>
      phys m4 (frame_of (entry s a i)) = phys s (frame_of (entry s a i))"
    and "j < 1024 \<Longrightarrow> phys m4 p j = phys s (frame_of (entry s d n)) j"
    and "a \<in> D \<Longrightarrow> open_tables s a \<Longrightarrow> open_tables m4 a"
proof -
  note ut = UTEMP_page(2)
  have e1: "entry m1 a i = (if a = cd \<and> i = n then v else entry s a i)" if "a \<in> D" "i < user_pages" for a i
    by (rule remapsD(2)[OF r1 that])
  have e2: "entry m2 a i = (if a = cd \<and> i = n then v else if a = d \<and> i = 1024 then v else entry s a i)"
    if "a \<in> D" "i < user_pages" for a i using remapsD(2)[OF r2 that] e1[OF that] d(3) by (auto split: if_splits)
  have nz2: "entry m2 d 1024 = v" using e2[OF d(1) ut] by simp
  have dp: "data_frame m2 D p" "K p = None" using entry_account(1,3)[OF c2 d(1) ut] nz2 v by simp_all
  have ph3: "phys m3 = (phys m2)(p := (\<lambda>j. if j < 1024 then phys m2 (frame_of (entry s d n)) j else phys m2 p j))"
    by (simp add: m3 copied_def)
  note w = write_frame(2)[OF c2 dp ph3] and ph = write_frame(4)[OF c2 dp ph3]
  have e3: "entry m3 a i = entry m2 a i" if "a \<in> D" "i < user_pages" for a i
    by (rule same_space_entries[OF w[OF _ _ _ _ that(1)] that(2)]) (simp_all add: m3)
  show "entry m4 a i = (if a = cd \<and> i = n then v else if a = d \<and> i = 1024 then 0 else entry s a i)"
    if "a \<in> D" "i < user_pages" for a i using d(3) e2[OF that] e3[OF that] by (auto simp: remapsD(2)[OF r4 that])
  show "phys m4 (frame_of (entry s a i)) = phys s (frame_of (entry s a i))"
    if h: "a \<in> D" "i < user_pages" "(a, i) \<notin> {(cd, n), (d, 1024)}" "entry s a i \<noteq> 0"
  proof -
    have "frame_of (entry s a i) \<noteq> p" using entry_account(2)[OF c h(1,2,4)] by auto
    moreover have "entry m1 a i = entry s a i" "entry m2 a i = entry s a i" "entry m3 a i = entry s a i"
      using h(3) by (auto simp: e1[OF h(1,2)] e2[OF h(1,2)] e3[OF h(1,2)])
    ultimately show ?thesis
      using remaps_contents[OF r4 c3 h(1,2)] remaps_contents[OF r2 c1 h(1,2)] remaps_contents[OF r1 c h(1,2,4)] h(4)
      by (simp add: ph3)
  qed
  have "open_tables m3 a = open_tables m2 a" if a: "a \<in> D" for a
    by (rule pdes_cong(1)) (rule ph[OF _ _ _ _ a], simp_all add: m3)
  then show "open_tables m4 a" if a: "a \<in> D" "open_tables s a" for a
    using remapsD(4)[OF r4 a(1)] remapsD(4)[OF r2 a(1)] remapsD(4)[OF r1 a] a(1) by blast
  assume j: "j < 1024"
  have nn: "(d, n) \<notin> {(cd, n), (d, 1024)}" using d(3) n(2) by simp
  have "entry m3 cd n = v" using e3[OF d(2) n(1)] e2[OF d(2) n(1)] by simp
  then have "phys m4 p = phys m3 p" using remaps_contents[OF r4 c3 d(2) n(1)] v by simp
  moreover have "entry m1 d n = entry s d n" using e1[OF d(1) n(1)] d(3) by simp
  then have "phys m2 (frame_of (entry s d n)) = phys s (frame_of (entry s d n))"
    using remaps_contents[OF r2 c1 d(1) n(1)] remaps_contents[OF r1 c d(1) n(1,3)] n(3) by simp
  ultimately show "phys m4 p j = phys s (frame_of (entry s d n)) j" using j by (simp add: ph3)
qed

section \<open>All the pages\<close>

text \<open>A page of the child that is a copy, in a frame nothing else refers to.\<close>

definition own_copy :: "kmem \<Rightarrow> kmem \<Rightarrow> nat set \<Rightarrow> nat \<Rightarrow> nat \<Rightarrow> nat \<Rightarrow> bool" where
  "own_copy s m D pd cd n \<longleftrightarrow>
     entry m cd n AND access True = access True
     \<and> (\<forall>j<1024. phys m (frame_of (entry m cd n)) j = phys s (frame_of (entry s pd n)) j)
     \<and> (\<forall>d\<in>D. \<forall>i<user_pages. entry m d i \<noteq> 0 \<longrightarrow> frame_of (entry m d i) = frame_of (entry m cd n) \<longrightarrow> d = cd \<and> i = n)"

text \<open>The pages of \<open>S\<close> have been copied; nothing else has changed.\<close>

definition copied_to :: "kmem \<Rightarrow> kmem \<Rightarrow> nat set \<Rightarrow> nat \<Rightarrow> nat \<Rightarrow> nat set \<Rightarrow> bool" where
  "copied_to s m D pd cd S \<longleftrightarrow>
     open_tables m pd \<and> open_tables m cd
     \<and> (\<forall>d\<in>D - {cd}. \<forall>i<user_pages. entry m d i = entry s d i
          \<and> (entry s d i \<noteq> 0 \<longrightarrow> phys m (frame_of (entry s d i)) = phys s (frame_of (entry s d i))))
     \<and> (\<forall>i<user_pages. i \<notin> S \<longrightarrow> entry m cd i = 0) \<and> (\<forall>n\<in>S. own_copy s m D pd cd n)"

lemma copied_toD:
  assumes "copied_to s m D pd cd S"
  shows "open_tables m pd" "open_tables m cd" "d \<in> D \<Longrightarrow> d \<noteq> cd \<Longrightarrow> i < user_pages \<Longrightarrow> entry m d i = entry s d i"
    "d \<in> D \<Longrightarrow> d \<noteq> cd \<Longrightarrow> i < user_pages \<Longrightarrow> entry s d i \<noteq> 0 \<Longrightarrow>
       phys m (frame_of (entry s d i)) = phys s (frame_of (entry s d i))"
    "i < user_pages \<Longrightarrow> i \<notin> S \<Longrightarrow> entry m cd i = 0" "n \<in> S \<Longrightarrow> own_copy s m D pd cd n"
  using assms by (auto simp: copied_to_def)

lemma entry_access_nz: "e AND access w = access w \<Longrightarrow> e \<noteq> 0"
  by (cases w) (auto simp: access_def pte_bits)

lemma dumb_page_step:
  assumes b: "target k b cd" "target k 0 (cr3 k)" and ne: "cd \<noteq> cr3 k"
    and k': "k' = k\<lparr>mem := m\<rparr>" "copied_to (mem k) m (dirs k) (cr3 k) cd S" "S \<subseteq> {..<user_pages}"
    and c: "accounted K k' L ps" "3 \<le> length ps"
    and ut: "entry (mem k) (cr3 k) 1024 = 0" and n: "n < user_pages" "n \<noteq> 1024"
    and e: "entry (mem k) (cr3 k) n AND access False = access False"
  shows "\<exists>m4 ps4. dumb_duppage b k' (page_va n) = Inr (Return (), k\<lparr>mem := m4\<rparr>)
    \<and> copied_to (mem k) m4 (dirs k) (cr3 k) cd (insert n S) \<and> accounted K (k\<lparr>mem := m4\<rparr>) L ps4 \<and> length ps \<le> length ps4 + 3"
proof -
  let ?D = "dirs k" and ?d = "cr3 k" and ?s = "mem k"
  obtain p q r qs where ps: "ps = p # q # r # qs" using c(2) by (metis Suc_le_length_iff numeral_3_eq_3)
  have dD: "?d \<in> ?D" "cd \<in> ?D" using target_dir b by blast+
  note i = copied_toD[OF k'(2)]
  have en: "entry m ?d n = entry ?s ?d n" using i(3)[OF dD(1) ne[symmetric] n(1)] .
  have nz: "entry m ?d n \<noteq> 0" unfolding en by (rule entry_access_nz[OF e])
  let ?v = "page2pa p OR (PTE_P OR PTE_U OR PTE_W)" and ?f = "frame_of (entry m ?d n)"
  have cm: "counted m ?D (held k) K L (p # q # r # qs)" using c(1) unfolding k'(1) ps by simp
  have ck: "accounted K k' L (p # q # r # qs)" using c(1) unfolding ps .
  have h: "target k' 0 (cr3 k')" "target k' b cd" "cd \<noteq> cr3 k'" "open_tables (mem k') (cr3 k')"
    "entry (mem k') (cr3 k') n AND access False = access False"
    using b ne i(1) e en unfolding k'(1) by simp_all
  obtain m1 m2 m3 m4 ps1 ps2 ps4 where call: "dumb_duppage b k' (page_va n) = Inr (Return (), k'\<lparr>mem := m4\<rparr>)"
    and r1: "remaps m m1 ?D (p # q # r # qs) cd n ?v" and c1: "counted m1 ?D (held k) K L ps1"
    and r2: "remaps m1 m2 ?D ps1 ?d 1024 ?v" and c2: "counted m2 ?D (held k) K L ps2"
    and m3: "m3 = m2\<lparr>phys := copied (phys m2) p ?f 1024\<rparr>" and c3: "counted m3 ?D (held k) K L ps2"
    and r4: "remaps m3 m4 ?D ps2 ?d 1024 0" and c4: "counted m4 ?D (held k) K L ps4" and len: "length qs \<le> length ps4"
    using dumb_duppage_steps[OF ck h(1-4) n h(5)] unfolding k'(1) by auto
  have p: "p \<in> set (p # q # r # qs)" "p < 2 ^ 20" using countedD(2)[OF cm] by (auto simp: page_repr_def)
  note v = entry_PUW[OF p(2)]
  note ef = dumb_duppage_effect[OF cm dD ne n nz v(1,3) r1 c1 r2 c2 m3 c3 r4]
  have fp: "frame_of (entry m d j) \<noteq> p" if "d \<in> ?D" "j < user_pages" "entry m d j \<noteq> 0" for d j
    using entry_account(2)[OF cm that] by auto
  have e4: "entry m4 d j = (if d = cd \<and> j = n then ?v else entry m d j)" if "d \<in> ?D" "j < user_pages" for d j
    using ef(1)[OF that] i(3)[OF dD(1) ne[symmetric] UTEMP_page(2)] ut ne by auto
  have p4: "phys m4 (frame_of (entry m d j)) = phys m (frame_of (entry m d j))"
    if h: "d \<in> ?D" "j < user_pages" "entry m d j \<noteq> 0" "\<not> (d = cd \<and> j = n)" for d j
    using ef(2)[OF h(1,2) _ h(3)] h(4) i(3)[OF dD(1) ne[symmetric] UTEMP_page(2)] ut h(3) by auto
  have "own_copy ?s m4 ?D ?d cd a" if a: "a \<in> insert n S" for a
  proof (cases "a = n")
    case True
    have "entry m4 cd n = ?v" using e4[OF dD(2) n(1)] by simp
    moreover have "phys m4 p j = phys ?s (frame_of (entry ?s ?d n)) j" if "j < 1024" for j
      using ef(3)[OF that] i(4)[OF dD(1) ne[symmetric] n(1)] nz unfolding en by simp
    moreover have "d = cd \<and> j = n" if "d \<in> ?D" "j < user_pages" "entry m4 d j \<noteq> 0" "frame_of (entry m4 d j) = p" for d j
      using that fp[OF that(1,2)] by (auto simp: e4[OF that(1,2)] split: if_splits)
    ultimately show ?thesis using v(1,2) True unfolding own_copy_def by auto
  next
    case False
    then have a: "a \<in> S" "a < user_pages" using a k'(3) by auto
    have o: "own_copy ?s m ?D ?d cd a" by (rule i(6)[OF a(1)])
    then have nza: "entry m cd a \<noteq> 0" unfolding own_copy_def using entry_access_nz by blast
    have ea: "entry m4 cd a = entry m cd a" using e4[OF dD(2) a(2)] False by simp
    have "phys m4 (frame_of (entry m cd a)) = phys m (frame_of (entry m cd a))"
      using p4[OF dD(2) a(2) nza] False by simp
    moreover have "d = cd \<and> j = a"
      if h: "d \<in> ?D" "j < user_pages" "entry m4 d j \<noteq> 0" "frame_of (entry m4 d j) = frame_of (entry m cd a)" for d j
    proof (cases "d = cd \<and> j = n")
      case True
      then have "frame_of (entry m cd a) = p" using e4[OF h(1,2)] h(4) v(1) by simp
      then show ?thesis using fp[OF dD(2) a(2) nza] by simp
    next
      case False
      have "entry m4 d j = entry m d j" using e4[OF h(1,2)] unfolding if_not_P[OF False] .
      then show ?thesis using o h unfolding own_copy_def by auto
    qed
    ultimately show ?thesis using o unfolding own_copy_def ea by auto
  qed
  moreover have "entry m4 d j = entry ?s d j \<and> (entry ?s d j \<noteq> 0 \<longrightarrow> phys m4 (frame_of (entry ?s d j)) = phys ?s (frame_of (entry ?s d j)))"
    if h: "d \<in> ?D" "d \<noteq> cd" "j < user_pages" for d j
    using e4[OF h(1,3)] p4[OF h(1,3)] i(3,4)[OF h] h(2) by auto
  moreover have "entry m4 cd j = 0" if "j < user_pages" "j \<notin> insert n S" for j
    using e4[OF dD(2) that(1)] i(5)[OF that(1)] that(2) by simp
  moreover have "open_tables m4 ?d" "open_tables m4 cd" using ef(4) dD i(1,2) by blast+
  ultimately have "copied_to ?s m4 ?D ?d cd (insert n S)" unfolding copied_to_def by blast
  moreover have "accounted K (k\<lparr>mem := m4\<rparr>) L ps4" using c4 by simp
  ultimately show ?thesis using call len unfolding k'(1) ps by auto
qed

lemma page_va_unat: "n \<le> user_pages \<Longrightarrow> unat (page_va n) = n * 4096"
  by (simp add: page_va_def user_pages_def UPDX_def PGSHIFT_def push_bit_eq_mult unat_word_ariths unat_of_nat)

lemma page_va_Suc: "page_va n + PGSIZE = page_va (Suc n)"
  by (simp add: page_va_def PGSHIFT_def PGSIZE_def push_bit_eq_mult algebra_simps)

text \<open>The number of pages the loop copies, and the first page behind them.\<close>

definition text_end :: "u32 \<Rightarrow> nat" where "text_end end_addr = (unat end_addr + 4095) div 4096"

lemma below_text_end: "n \<le> user_pages \<Longrightarrow> page_va n < end_addr \<longleftrightarrow> n < text_end end_addr"
  by (simp add: word_less_nat_alt page_va_unat text_end_def) linarith

lemma dumb_pages_copy:
  assumes b: "target k b cd" "target k 0 (cr3 k)" and ne: "cd \<noteq> cr3 k"
    and ut: "entry (mem k) (cr3 k) 1024 = 0" and N: "text_end end_addr \<le> user_pages"
    and e: "\<And>n. 2048 \<le> n \<Longrightarrow> n < text_end end_addr \<Longrightarrow> entry (mem k) (cr3 k) n AND access False = access False"
  shows "copied_to (mem k) m (dirs k) (cr3 k) cd {2048..<a} \<Longrightarrow> accounted K (k\<lparr>mem := m\<rparr>) L ps \<Longrightarrow>
      3 * (text_end end_addr - a) \<le> length ps \<Longrightarrow> text_end end_addr - a \<le> fuel \<Longrightarrow> 2048 \<le> a \<Longrightarrow> a \<le> user_pages \<Longrightarrow>
    \<exists>m4 ps4. dumb_pages b end_addr fuel (k\<lparr>mem := m\<rparr>) (page_va a) = Inr (Return (), k\<lparr>mem := m4\<rparr>)
      \<and> copied_to (mem k) m4 (dirs k) (cr3 k) cd {2048..<max a (text_end end_addr)} \<and> accounted K (k\<lparr>mem := m4\<rparr>) L ps4
      \<and> length ps \<le> length ps4 + 3 * (text_end end_addr - a)"
proof (induction fuel arbitrary: m a ps)
  case 0
  then have "\<not> page_va a < end_addr" "max a (text_end end_addr) = a" using below_text_end[of a end_addr] by auto
  with 0 show ?case by auto
next
  case (Suc fuel)
  show ?case
  proof (cases "a < text_end end_addr")
    case False
    then have "\<not> page_va a < end_addr" "max a (text_end end_addr) = a" using below_text_end[of a end_addr] Suc.prems(6) by auto
    with Suc.prems show ?thesis by auto
  next
    case True
    then have lt: "page_va a < end_addr" and a: "a < user_pages" "a \<noteq> 1024" "{2048..<a} \<subseteq> {..<user_pages}" "3 \<le> length ps"
      using below_text_end[of a end_addr] Suc.prems(3,5,6) N by auto
    obtain m1 ps1 where 1: "dumb_duppage b (k\<lparr>mem := m\<rparr>) (page_va a) = Inr (Return (), k\<lparr>mem := m1\<rparr>)"
      "copied_to (mem k) m1 (dirs k) (cr3 k) cd (insert a {2048..<a})" "accounted K (k\<lparr>mem := m1\<rparr>) L ps1"
      "length ps \<le> length ps1 + 3"
      using dumb_page_step[OF b ne refl Suc.prems(1) a(3) Suc.prems(2) a(4) ut a(1,2) e[OF Suc.prems(5) True]] by blast
    have "insert a {2048..<a} = {2048..<Suc a}" using Suc.prems(5) by auto
    note c1 = 1(2)[unfolded this]
    have "max (Suc a) (text_end end_addr) = max a (text_end end_addr)" using True by simp
    with Suc.IH[OF c1 1(3)] Suc.prems(3-5) True a(1) 1(4) obtain m4 ps4 where
      2: "dumb_pages b end_addr fuel (k\<lparr>mem := m1\<rparr>) (page_va (Suc a)) = Inr (Return (), k\<lparr>mem := m4\<rparr>)"
      "copied_to (mem k) m4 (dirs k) (cr3 k) cd {2048..<max a (text_end end_addr)}" "accounted K (k\<lparr>mem := m4\<rparr>) L ps4"
      "length ps1 \<le> length ps4 + 3 * (text_end end_addr - Suc a)" by fastforce
    have "length ps \<le> length ps4 + 3 * (text_end end_addr - a)" using 1(4) 2(4) True by linarith
    with 1(1) 2(1-3) lt show ?thesis by (intro exI[of _ m4] exI[of _ ps4]) (simp add: page_va_Suc)
  qed
qed

section \<open>The whole fork\<close>

lemma copied_to_refl:
  assumes "forking K k b cd L ps"
  shows "copied_to (mem k) (mem k) (dirs k) (cr3 k) cd {}"
  using forkingD[OF assms] by (simp add: copied_to_def)

lemma own_copy_refs:
  assumes "own_copy s m D pd cd n" and "cd \<in> D" and "n < user_pages"
  shows "pte_refs m D (frame_of (entry m cd n)) = {(cd, n div 1024, n mod 1024)}"
proof -
  have nz: "entry m cd n \<noteq> 0" using assms(1) entry_access_nz unfolding own_copy_def by blast
  have "(d, i, t) \<in> pte_refs m D (frame_of (entry m cd n)) \<longleftrightarrow> (d, i, t) = (cd, n div 1024, n mod 1024)" for d i t
  proof
    assume "(d, i, t) \<in> pte_refs m D (frame_of (entry m cd n))"
    then have h: "d \<in> D" "i < UPDX" "t < 1024" "entry m d (i * 1024 + t) \<noteq> 0"
      "frame_of (entry m d (i * 1024 + t)) = frame_of (entry m cd n)" by (simp_all add: pte_refs_entry)
    then have "d = cd" "i * 1024 + t = n" using assms(1) user_pages_join[OF h(2,3)] unfolding own_copy_def by auto
    moreover from this(2) have "n div 1024 = i" "n mod 1024 = t" using h(3) by auto
    ultimately show "(d, i, t) = (cd, n div 1024, n mod 1024)" by simp
  next
    assume "(d, i, t) = (cd, n div 1024, n mod 1024)"
    then show "(d, i, t) \<in> pte_refs m D (frame_of (entry m cd n))"
      using assms(2) nz user_pages_split[OF assms(3)] by (simp add: pte_refs_entry)
  qed
  then show ?thesis by auto
qed

text \<open>The pages \<^verbatim>\<open>dumbfork\<close> copies: those of the program and that of the stack.\<close>

definition dumb_page :: "u32 \<Rightarrow> u32 \<Rightarrow> nat \<Rightarrow> bool" where
  "dumb_page end_addr sp n \<longleftrightarrow> UTEXT \<le> page_va n \<and> page_va n < end_addr \<or> n = page_no sp"

lemma dumb_page_iff:
  "n < user_pages \<Longrightarrow> dumb_page end_addr sp n \<longleftrightarrow> n \<in> insert (page_no sp) {2048..<max 2048 (text_end end_addr)}"
proof -
  assume n: "n < user_pages"
  have "UTEXT \<le> page_va n \<longleftrightarrow> 2048 \<le> n"
    using n by (simp add: word_le_nat_alt page_va_unat UTEXT_def PTSIZE_def)
  then show ?thesis using n below_text_end[of n end_addr] by (auto simp: dumb_page_def)
qed

lemma dumbfork_from_copies:
  assumes vm: "vm_ok K k" and f: "forking K k (word_of_int envid) cd L ps" and pos: "0 < envid"
    and j: "envid2env k (word_of_int envid) True = Inr (0, Some j)" "env_pgdir (envs k j) = Some cd"
    and ut: "entry (mem k) (cr3 k) (page_no UTEMP) = 0" and N: "end_addr \<le> UTOP" "sp < UTOP" "page_no sp \<noteq> page_no UTEMP"
    and e: "\<And>n. n < user_pages \<Longrightarrow> dumb_page end_addr sp n \<Longrightarrow> entry (mem k) (cr3 k) n AND access False = access False"
    and room: "3 * (text_end end_addr - 2048) + 3 \<le> length ps"
  shows "\<exists>m. dumbfork_from end_addr sp thisenv envid k =
      Inr (Return (envid, thisenv), upd_env (k\<lparr>mem := m\<rparr>) j (\<lambda>v. v\<lparr>env_status := ENV_RUNNABLE\<rparr>))
    \<and> vm_ok K (k\<lparr>mem := m\<rparr>) \<and> copied_to (mem k) m (dirs k) (cr3 k) cd {n. n < user_pages \<and> dumb_page end_addr sp n}"
proof -
  let ?b = "word_of_int envid :: u32" and ?N = "text_end end_addr" and ?sn = "page_no sp"
  note h = forkingD[OF f]
  have u: "page_no UTEMP = 1024" using page_va(1)[OF UTEMP_page(2)] by (simp add: UTEMP_page(1))
  note ut' = ut[unfolded u] and ne = h(4)[symmetric]
  have "unat end_addr \<le> user_pages * 4096"
    using N(1) by (simp add: word_le_nat_alt user_pages_def UPDX_def memlayout_defs mmu_consts)
  then have Nu: "?N \<le> user_pages" unfolding text_end_def by linarith
  have U: "UTEXT = page_va 2048" "(2048::nat) \<le> user_pages"
    by (simp_all add: page_va_def user_pages_def UPDX_def memlayout_defs mmu_consts)
  have e1: "entry (mem k) (cr3 k) n AND access False = access False" if "2048 \<le> n" "n < ?N" for n
    using that Nu by (intro e) (auto simp: dumb_page_iff)
  have kk: "k\<lparr>mem := mem k\<rparr> = k" by simp
  have c0: "copied_to (mem k) (mem k) (dirs k) (cr3 k) cd {2048..<2048}" using copied_to_refl[OF f] by simp
  have "?N - 2048 \<le> 2 ^ 20" using Nu by (simp add: user_pages_def UPDX_def)
  with dumb_pages_copy[OF h(3,2) ne ut' Nu e1 c0, unfolded kk, OF _ _ h(1)] room U obtain m1 ps1 where
    1: "dumb_pages ?b end_addr (2 ^ 20) k UTEXT = Inr (Return (), k\<lparr>mem := m1\<rparr>)"
      "copied_to (mem k) m1 (dirs k) (cr3 k) cd {2048..<max 2048 ?N}" "accounted K (k\<lparr>mem := m1\<rparr>) L ps1"
      "length ps \<le> length ps1 + 3 * (?N - 2048)" unfolding U(1) by fastforce
  have sn: "?sn < user_pages" "?sn \<noteq> 1024" "ROUNDDOWN sp PGSIZE = page_va ?sn"
    using page_no_less[OF N(2)] N(3) ROUNDDOWN_page[OF N(2)] by (simp_all add: u)
  have "3 \<le> length ps1" using 1(4) room by linarith
  moreover have "{2048..<max 2048 ?N} \<subseteq> {..<user_pages}" using Nu U(2) by auto
  moreover have "entry (mem k) (cr3 k) ?sn AND access False = access False" using sn(1) by (intro e) (simp_all add: dumb_page_def)
  ultimately obtain m2 ps2 where 2: "dumb_duppage ?b (k\<lparr>mem := m1\<rparr>) (page_va ?sn) = Inr (Return (), k\<lparr>mem := m2\<rparr>)"
    "copied_to (mem k) m2 (dirs k) (cr3 k) cd (insert ?sn {2048..<max 2048 ?N})" "accounted K (k\<lparr>mem := m2\<rparr>) L ps2"
    using dumb_page_step[OF h(3,2) ne refl 1(2) _ 1(3) _ ut' sn(1,2)] by blast
  have "insert ?sn {2048..<max 2048 ?N} = {n. n < user_pages \<and> dumb_page end_addr sp n}"
    using Nu U(2) sn(1) by (auto simp: dumb_page_iff less_max_iff_disj)
  note c2 = 2(2)[unfolded this]
  have j2: "envid2env (k\<lparr>mem := m2\<rparr>) ?b True = Inr (0, Some j)" using j(1) by simp
  have "dumbfork_from end_addr sp thisenv envid k =
      Inr (Return (envid, thisenv), upd_env (k\<lparr>mem := m2\<rparr>) j (\<lambda>v. v\<lparr>env_status := ENV_RUNNABLE\<rparr>))"
    using pos 1(1) 2(1) status_call[OF j2] by (simp add: dumbfork_from_def must_def sn(3))
  moreover have "vm_ok K (k\<lparr>mem := m2\<rparr>)" by (rule vm_ok_mem[OF vm]) (use 2(3) in simp)
  ultimately show ?thesis using c2 by blast
qed

text \<open>C7: \<^verbatim>\<open>dumbfork\<close>, run in an accounted kernel with enough free frames by an environment that can read
  its program and its stack, returns the child's id and leaves the child runnable. Every page of the
  program and the stack's page is in the child at the same address, writable, in a frame that the
  child's entry alone refers to, with the parent's contents; the child has nothing else. The parent and
  every other environment have the entries they had, with the contents they had. (The page at
  \<^verbatim>\<open>UTEMP\<close> is taken to be unmapped before the call, as it is in a program that does not use it.)\<close>

theorem dumbfork_copies:
  assumes "vm_ok K k" and "accounted K k L ps" and "curenv k = Some i" and "env_pgdir (envs k i) = Some (cr3 k)"
    and "self_mapped (mem k) (cr3 k)" and "open_tables (mem k) (cr3 k)" and "refs_below 32767 k"
    and "card (tables (mem k) (cr3 k)) + 3 < length ps" and "env_free_list k = Some j" and "j < NENV"
    and "end_addr \<le> UTOP" and "sp < UTOP" and "page_no sp \<noteq> page_no UTEMP"
    and "entry (mem k) (cr3 k) (page_no UTEMP) = 0"
    and "\<forall>n<user_pages. dumb_page end_addr sp n \<longrightarrow> user_frame (mem k) (cr3 k) (page_va n) False \<noteq> None"
    and "3 * (text_end end_addr - 2048) + 4 \<le> length ps"
  shows "\<exists>r k' cd. dumbfork end_addr sp i k = Inr (Return (r, i), k') \<and> 0 < r \<and> vm_ok K k'
    \<and> env_status (envs k' j) = ENV_RUNNABLE \<and> env_pgdir (envs k' j) = Some cd \<and> cd \<notin> dirs k
    \<and> (\<forall>n<user_pages. if dumb_page end_addr sp n
         then (\<exists>p f. user_frame (mem k) (cr3 k) (page_va n) False = Some f \<and> user_frame (mem k') cd (page_va n) True = Some p
                \<and> pte_refs (mem k') (dirs k') p = {(cd, n div 1024, n mod 1024)}
                \<and> (\<forall>j<1024. phys (mem k') p j = phys (mem k) f j))
         else user_frame (mem k') cd (page_va n) False = None)
    \<and> (\<forall>d\<in>dirs k. \<forall>n<user_pages. entry (mem k') d n = entry (mem k) d n
         \<and> (entry (mem k) d n \<noteq> 0 \<longrightarrow> phys (mem k') (frame_of (entry (mem k) d n)) = phys (mem k) (frame_of (entry (mem k) d n))))"
proof -
  let ?s = "mem k" and ?d = "cr3 k"
  have pd: "?d \<in> dirs k" using assms(4) by auto
  obtain k1 cd r where x: "u_exofork k = Inr (Return r, k1)" "0 < r" "vm_ok K k1" "forking K k1 (word_of_int r) cd L (tl ps)"
    "envid2env k1 (word_of_int r) True = Inr (0, Some j)" "env_pgdir (envs k1 j) = Some cd" "cr3 k1 = cr3 k"
    "dirs k1 = insert cd (dirs k)" "cd \<notin> dirs k"
    and same: "\<forall>d\<in>dirs k. same_space (mem k) (mem k1) d \<and> phys (mem k1) d = phys (mem k) d"
    and cont: "\<forall>f. pte_refs (mem k) (dirs k) f \<noteq> {} \<longrightarrow> phys (mem k1) f = phys (mem k) f"
    using exofork_forks[OF assms(1-10)] by blast
  have ent: "entry (mem k1) d n = entry ?s d n" if "d \<in> dirs k" "n < user_pages" for d n
    using same_space_entries[OF _ that(2)] same that(1) by blast
  have con: "phys (mem k1) (frame_of (entry ?s d n)) = phys ?s (frame_of (entry ?s d n))"
    if "d \<in> dirs k" "n < user_pages" "entry ?s d n \<noteq> 0" for d n
    using cont entry_referenced[OF that] by blast
  have lt: "page_va n < UTOP" if "n < user_pages" for n by (rule good_va_user[OF page_va(2)[OF that]])
  have rd: "user_frame ?s ?d (page_va n) False = Some (frame_of (entry ?s ?d n))" "entry ?s ?d n AND access False = access False"
    if "n < user_pages" "dumb_page end_addr sp n" for n
  proof -
    have "user_frame ?s ?d (page_va n) False \<noteq> None" using assms(15) that by blast
    then show "user_frame ?s ?d (page_va n) False = Some (frame_of (entry ?s ?d n))" "entry ?s ?d n AND access False = access False"
      by (simp_all add: user_frame_entry[OF assms(6) lt[OF that(1)]] page_va(1)[OF that(1)] split: if_splits)
  qed
  have ut: "entry (mem k1) (cr3 k1) (page_no UTEMP) = 0"
    using ent[OF pd] assms(14) page_va(1)[OF UTEMP_page(2)] UTEMP_page x(7) by simp
  have e1: "entry (mem k1) (cr3 k1) n AND access False = access False" if "n < user_pages" "dumb_page end_addr sp n" for n
    using rd(2)[OF that] ent[OF pd that(1)] x(7) by simp
  have room: "3 * (text_end end_addr - 2048) + 3 \<le> length (tl ps)" using assms(16) by simp
  obtain m where m: "dumbfork_from end_addr sp i r k1 =
      Inr (Return (r, i), upd_env (k1\<lparr>mem := m\<rparr>) j (\<lambda>v. v\<lparr>env_status := ENV_RUNNABLE\<rparr>))"
    "vm_ok K (k1\<lparr>mem := m\<rparr>)" and c: "copied_to (mem k1) m (dirs k1) ?d cd {n. n < user_pages \<and> dumb_page end_addr sp n}"
    using dumbfork_from_copies[OF x(3,4,2,5,6) ut assms(11-13) e1 room] unfolding x(7) by blast
  let ?k' = "upd_env (k1\<lparr>mem := m\<rparr>) j (\<lambda>v. v\<lparr>env_status := ENV_RUNNABLE\<rparr>)"
  note c' = copied_toD[OF c]
  have m': "mem ?k' = m" by (simp add: upd_env_def)
  have dk: "dirs ?k' = dirs k1" by (auto simp: dirs_def upd_env_def)
  have cdD: "cd \<in> dirs k1" by (simp add: x(8))
  have pages: "if dumb_page end_addr sp n
         then (\<exists>p f. user_frame ?s ?d (page_va n) False = Some f \<and> user_frame m cd (page_va n) True = Some p
                \<and> pte_refs m (dirs k1) p = {(cd, n div 1024, n mod 1024)} \<and> (\<forall>j<1024. phys m p j = phys ?s f j))
         else user_frame m cd (page_va n) False = None" if n: "n < user_pages" for n
  proof (cases "dumb_page end_addr sp n")
    case True
    then have o: "own_copy (mem k1) m (dirs k1) ?d cd n" using c'(6) n by blast
    have "user_frame m cd (page_va n) True = Some (frame_of (entry m cd n))"
      using o by (simp add: user_frame_entry[OF c'(2) lt[OF n]] page_va(1)[OF n] own_copy_def)
    moreover have "phys m (frame_of (entry m cd n)) j = phys ?s (frame_of (entry ?s ?d n)) j" if "j < 1024" for j
      using o that con[OF pd n entry_access_nz[OF rd(2)[OF n True]]] ent[OF pd n] by (simp add: own_copy_def)
    ultimately show ?thesis using True rd(1)[OF n True] own_copy_refs[OF o cdD n] by auto
  next
    case False
    then have "entry m cd n = 0" using c'(5)[OF n] by blast
    then show ?thesis using False entry_access_nz[of 0 False]
      by (auto simp: user_frame_entry[OF c'(2) lt[OF n]] page_va(1)[OF n])
  qed
  have rest: "entry m d n = entry ?s d n
       \<and> (entry ?s d n \<noteq> 0 \<longrightarrow> phys m (frame_of (entry ?s d n)) = phys ?s (frame_of (entry ?s d n)))"
    if h: "d \<in> dirs k" "n < user_pages" for d n
  proof -
    have g: "d \<in> dirs k1" "d \<noteq> cd" using h(1) x(8,9) by auto
    show ?thesis using c'(3,4)[OF g h(2)] ent[OF h] con[OF h] by auto
  qed
  have "dumbfork end_addr sp i k = Inr (Return (r, i), ?k')" using x(1) m(1) by (simp add: dumbfork_def)
  moreover have "vm_ok K ?k'" by (intro vm_ok_env m(2)) simp_all
  moreover have "env_status (envs ?k' j) = ENV_RUNNABLE" "env_pgdir (envs ?k' j) = Some cd" using x(6) by (simp_all add: upd_env_def)
  ultimately show ?thesis using x(2,9) pages rest
    by (intro exI[of _ r] exI[of _ ?k'] exI[of _ cd]) (simp add: m' dk)
qed

lemma dumbfork_copies_witness:
  "\<exists>r k' cd p. dumbfork UTEXT 0x800010 0 demo_cow = Inr (Return (r, 0), k') \<and> 0 < r
     \<and> user_frame (mem k') cd 0x800000 True = Some p \<and> (\<forall>j<1024. phys (mem k') p j = phys (mem demo_cow) 5 j)"
proof -
  have pn: "page_no 0x800010 = 2048" "page_va 2048 = 0x800000" "(2048 :: nat) < user_pages"
    by (simp_all add: page_no_def unat_PGNUM page_va_def user_pages_def UPDX_def PGSHIFT_def)
  have u: "page_no UTEMP = 1024" using page_va(1)[OF UTEMP_page(2)] by (simp add: UTEMP_page(1))
  have va: "UTEXT \<le> UTOP" "(0x800010 :: u32) < UTOP" "page_no 0x800010 \<noteq> page_no UTEMP" "(0x800000 :: u32) < UTOP"
    unfolding pn(1) u by (simp_all add: memlayout_defs mmu_consts)
  have e: "entry (mem demo_cow) 1 2048 = 0x5007"
    using demo_cow_tables(3)[of 0] by (simp add: entry_def demo_cow_tables(1) del: One_nat_def)
  have uf: "user_frame (mem demo_cow) 1 0x800000 False = Some 5"
    unfolding user_frame_entry[OF demo_cow_open(1) va(4)] page_va(1)[OF pn(3), unfolded pn(2)] e demo_cow_tables(5)
    by (simp add: access_def pte_bits)
  have ut: "entry (mem demo_cow) (cr3 demo_cow) (page_no UTEMP) = 0"
    unfolding u demo_cow_sel by (simp add: entry_def demo_cow_tables(1) del: One_nat_def)
  have dp: "dumb_page UTEXT 0x800010 n \<longleftrightarrow> n = 2048" for n by (auto simp: dumb_page_def pn(1))
  have rd: "\<forall>n<user_pages. dumb_page UTEXT 0x800010 n \<longrightarrow> user_frame (mem demo_cow) (cr3 demo_cow) (page_va n) False \<noteq> None"
    by (simp add: dp pn(2) demo_cow_sel uf del: One_nat_def)
  have len: "card (tables (mem demo_cow) (cr3 demo_cow)) + 3 < length [6, 7, 8, 9, 10 :: nat]"
    "3 * (text_end UTEXT - 2048) + 4 \<le> length [6, 7, 8, 9, 10 :: nat]"
    unfolding demo_cow_sel demo_cow_tables(2) by (simp_all add: text_end_def UTEXT_def PTSIZE_def)
  have pg: "env_pgdir (envs demo_cow 0) = Some (cr3 demo_cow)" by (simp add: demo_cow_sel)
  have j: "1 < NENV" by (simp add: NENV_def)
  note open3 = demo_cow_open[folded demo_cow_sel(3)]
  from dumbfork_copies[OF demo_cow_counted(2,1) demo_cow_sel(2) pg open3(2,1,3) len(1) demo_cow_sel(6) j va(1-3) ut rd len(2)]
  show ?thesis
  proof (elim exE conjE, goal_cases)
    case (1 r k' cd)
    from 1(7)[rule_format, OF pn(3)] obtain p f where "user_frame (mem demo_cow) 1 0x800000 False = Some f"
      "user_frame (mem k') cd 0x800000 True = Some p" "\<forall>j<1024. phys (mem k') p j = phys (mem demo_cow) f j"
      by (auto simp: dp pn(2) demo_cow_sel)
    with 1(1,2) uf show ?case by (intro exI[of _ r] exI[of _ k'] exI[of _ cd] exI[of _ p]) simp
  qed
qed

end
