(* ===== verification/ForkLab.thy ===== *)
theory ForkLab
  imports Prelude "HOL-Library.Signed_Division"
begin

text \<open>
  The programs of the directory \<^verbatim>\<open>fork\<close>: \<^verbatim>\<open>primes.c\<close>, a chain of filter processes joined by pipes,
  and \<^verbatim>\<open>xargs.c\<close>. A pipe is the list of the values that its writer sends before it closes the
  pipe; each of the processes reads its input to the end, so the list is all that the reader
  sees. Which calls of the system succeed is a parameter.
\<close>

section \<open>Primes (\<^verbatim>\<open>primes.c\<close>)\<close>

text \<open>
  Standard output is line buffered on a terminal. Otherwise a line stays in the memory of the process, in a buffer of
  \<open>buf_size\<close> bytes (the block size of the file or pipe, 4096 for a pipe), until the buffer is full and more is printed,
  or the process exits; a child inherits what its parent has not written yet. The buffer holds more than a line.
\<close>

record filter_sys =
  tty :: bool
  buf_size :: nat
  can_pipe :: "nat \<Rightarrow> bool"
  can_fork :: "nat \<Rightarrow> bool"

datatype filter_error = BadUsage | PipeError nat | ForkError nat | DivByZero

text \<open>\<^verbatim>\<open>printf ("primo %d\n", v)\<close>.\<close>

fun digits10 :: "nat \<Rightarrow> string" where
  "digits10 n = (if n < 10 then [char_of (48 + n)] else digits10 (n div 10) @ [char_of (48 + n mod 10)])"

declare digits10.simps [simp del]

definition primo_line :: "int \<Rightarrow> string" where
  "primo_line v = ''primo '' @ (if v < 0 then CHR ''-'' # digits10 (nat (- v)) else digits10 (nat v)) @ [CHR 0x0A]"

text \<open>What is written at once, and what stays in the buffer: a full block goes out when there is more than the buffer
  holds.\<close>

definition print_line :: "filter_sys \<Rightarrow> string \<Rightarrow> int \<Rightarrow> string \<times> string" where
  "print_line os pending v =
     (let s = pending @ primo_line v in
      if tty os then (s, [])
      else if length s \<le> buf_size os then ([], s)
      else (take (buf_size os) s, drop (buf_size os) s))"

text \<open>The loop that passes on the values that the prime does not divide.\<close>

fun pass_on :: "int \<Rightarrow> int list \<Rightarrow> filter_error + int list" where
  "pass_on p [] = Inr []"
| "pass_on p (v # vs) =
     (if p = 0 then Inl DivByZero
      else chain (pass_on p vs) (\<lambda>r. Inr (if v smod p \<noteq> 0 then v # r else r)))"

lemma smod_int_eq: "0 < p \<Longrightarrow> 0 \<le> v \<Longrightarrow> (v :: int) smod p = v mod p"
  by (cases "v = 0") (simp_all add: signed_modulo_int_def)

lemma pass_on_eq: "p > 0 \<Longrightarrow> \<forall>v\<in>set vs. v \<ge> 0 \<Longrightarrow> pass_on p vs = Inr (filter (\<lambda>v. \<not> p dvd v) vs)"
  by (induction vs) (auto simp: smod_int_eq dvd_eq_mod_eq_0)

lemma pass_on_shorter: "pass_on p vs = Inr r \<Longrightarrow> length r \<le> length vs"
  by (induction vs arbitrary: r) (auto simp: chain_eq_Inr split: if_splits intro: le_SucI)

text \<open>
  What the process at depth \<open>d\<close> and its descendants write until it has exited. The parent prints
  before it forks, and it waits for its child before it exits and writes what is still pending.
\<close>

function filtrar_numero :: "filter_sys \<Rightarrow> nat \<Rightarrow> string \<Rightarrow> int list \<Rightarrow> filter_error + string" where
  "filtrar_numero os d pending [] = Inr pending"
| "filtrar_numero os d pending (valor_recibido # vs) =
     (let (out, pending1) = print_line os pending valor_recibido in
      if \<not> can_pipe os d then Inl (PipeError d)
      else if \<not> can_fork os d then Inl (ForkError d)
      else chain (pass_on valor_recibido vs) (\<lambda>nuevo_filtro.
           chain (filtrar_numero os (Suc d) pending1 nuevo_filtro) (\<lambda>child.
             Inr (out @ child @ pending1))))"
  by pat_completeness auto
termination by (relation "measure (\<lambda>(_, _, _, vs). length vs)") (auto dest: pass_on_shorter)

text \<open>\<^verbatim>\<open>main\<close> after \<^verbatim>\<open>n = atoi (argv[1])\<close>.\<close>

definition primes_main :: "filter_sys \<Rightarrow> nat \<Rightarrow> int \<Rightarrow> filter_error + string" where
  "primes_main os argc n =
     (if argc \<noteq> 2 then Inl BadUsage
      else if \<not> can_pipe os 0 then Inl (PipeError 0)
      else if \<not> can_fork os 0 then Inl (ForkError 0)
      else filtrar_numero os 1 [] [2..n])"

section \<open>The sieve\<close>

definition is_prime :: "int \<Rightarrow> bool" where
  "is_prime p \<longleftrightarrow> 1 < p \<and> (\<forall>d\<in>{2..<p}. \<not> d dvd p)"

function sieve :: "int list \<Rightarrow> int list" where
  "sieve [] = []"
| "sieve (p # vs) = p # sieve (filter (\<lambda>v. \<not> p dvd v) vs)"
  by pat_completeness auto
termination by (relation "measure length") (auto simp: le_imp_less_Suc)

definition survivors :: "int \<Rightarrow> int \<Rightarrow> int list" where
  "survivors m n = filter (\<lambda>v. \<forall>d\<in>{2..<m}. \<not> d dvd v) [m..n]"

lemma survivors_step_prime:
  assumes "m \<le> n" and "is_prime m"
  obtains rest where "survivors m n = m # rest" and "filter (\<lambda>v. \<not> m dvd v) rest = survivors (m + 1) n"
proof
  have "{2..<m + 1} = insert m {2..<m}" using assms(2) by (auto simp: is_prime_def)
  then show "filter (\<lambda>v. \<not> m dvd v) (filter (\<lambda>v. \<forall>d\<in>{2..<m}. \<not> d dvd v) [m + 1..n]) = survivors (m + 1) n"
    by (auto simp: survivors_def intro!: filter_cong)
qed (use assms in \<open>simp add: survivors_def is_prime_def upto_rec1[of m n]\<close>)

lemma survivors_step_composite:
  assumes "m \<le> n" and "2 \<le> m" and "\<not> is_prime m"
  shows "survivors m n = survivors (m + 1) n"
proof -
  obtain d where d: "d \<in> {2..<m}" "d dvd m" using assms by (auto simp: is_prime_def)
  have "(\<forall>e\<in>{2..<m}. \<not> e dvd v) \<longleftrightarrow> (\<forall>e\<in>{2..<m + 1}. \<not> e dvd v)" for v
  proof
    assume a: "\<forall>e\<in>{2..<m}. \<not> e dvd v"
    show "\<forall>e\<in>{2..<m + 1}. \<not> e dvd v"
    proof
      fix e assume "e \<in> {2..<m + 1}"
      then consider "e \<in> {2..<m}" | "e = m" by force
      then show "\<not> e dvd v" using a d dvd_trans by cases blast+
    qed
  qed auto
  moreover have "\<not> (\<forall>e\<in>{2..<m}. \<not> e dvd m)" using d by blast
  ultimately show ?thesis using assms(1) by (simp add: survivors_def upto_rec1[of m n])
qed

lemma sieve_survivors: "2 \<le> m \<Longrightarrow> sieve (survivors m n) = filter is_prime [m..n]"
proof (induction "nat (n + 1 - m)" arbitrary: m)
  case 0
  then show ?case by (simp add: survivors_def)
next
  case (Suc k)
  have le: "m \<le> n" and k: "k = nat (n + 1 - (m + 1))" using Suc(2) by auto
  note IH = Suc(1)[OF k]
  have r: "filter is_prime [m..n] = (if is_prime m then m # filter is_prime [m + 1..n] else filter is_prime [m + 1..n])"
    using le by (simp add: upto_rec1)
  show ?case
  proof (cases "is_prime m")
    case True
    then have "sieve (survivors m n) = m # sieve (survivors (m + 1) n)"
      using survivors_step_prime[OF le] by (metis sieve.simps(2))
    then show ?thesis using IH Suc.prems True r by simp
  next
    case False
    then show ?thesis using IH Suc.prems r survivors_step_composite[OF le Suc.prems False] by simp
  qed
qed

lemma sieve_upto: "sieve [2..n] = filter is_prime [2..n]"
  using sieve_survivors[of 2 n] by (simp add: survivors_def)

section \<open>What the chain of processes prints\<close>

definition all_calls :: "filter_sys \<Rightarrow> bool" where
  "all_calls os \<longleftrightarrow> (\<forall>d. can_pipe os d \<and> can_fork os d)"

text \<open>The lines written when every stage keeps them until it exits: the last process writes
  all lines, then each stage the ones up to its own.\<close>

fun unwind :: "int list \<Rightarrow> int list \<Rightarrow> int list" where
  "unwind pending [] = pending"
| "unwind pending (p # ps) = unwind (pending @ [p]) ps @ pending @ [p]"

definition primo_lines :: "int list \<Rightarrow> string" where
  "primo_lines vs = concat (map primo_line vs)"

lemma primo_lines_simps [simp]:
  "primo_lines [] = []" "primo_lines (v # vs) = primo_line v @ primo_lines vs"
  "primo_lines (us @ vs) = primo_lines us @ primo_lines vs"
  by (simp_all add: primo_lines_def)

lemma filtrar_numero_eq:
  assumes "all_calls os" and "\<forall>v\<in>set vs. 0 < v" and "tty os \<Longrightarrow> pending = []"
    and "\<not> tty os \<Longrightarrow> length (primo_lines (pending @ sieve vs)) \<le> buf_size os"
  shows "filtrar_numero os d (primo_lines pending) vs =
     Inr (primo_lines (if tty os then sieve vs else unwind pending (sieve vs)))"
  using assms(2-4)
proof (induction "length vs" arbitrary: vs d pending rule: less_induct)
  case less
  show ?case
  proof (cases vs)
    case Nil
    then show ?thesis using less.prems(2) by simp
  next
    case (Cons p rest)
    let ?next = "filter (\<lambda>v. \<not> p dvd v) rest"
    have "pass_on p rest = Inr ?next" using less.prems Cons by (intro pass_on_eq) (auto intro: less_imp_le)
    moreover have "length ?next < length vs" using Cons by (simp add: le_imp_less_Suc)
    note IH = less.hyps[OF this]
    have pos: "\<forall>v\<in>set ?next. 0 < v" using less.prems(1) Cons by simp
    show ?thesis
    proof (cases "tty os")
      case True
      with IH[OF pos, of "[]" "Suc d"] less.prems(2) calculation show ?thesis
        using assms(1) by (simp add: Cons all_calls_def print_line_def)
    next
      case False
      with IH[OF pos, of "pending @ [p]" "Suc d"] less.prems(3) calculation show ?thesis
        using assms(1) by (simp add: Cons all_calls_def print_line_def)
    qed
  qed
qed

lemma unwind_count:
  "count_list (unwind pending ps) x =
     count_list pending x * Suc (length ps) + (\<Sum>i<length ps. if ps ! i = x then Suc (length ps - i) else 0)"
proof (induction ps arbitrary: pending)
  case (Cons p ps)
  show ?case by (simp add: Cons sum.lessThan_Suc_shift del: sum.lessThan_Suc cong: if_cong)
qed simp

text \<open>C29: With \<^verbatim>\<open>n\<close> as its argument and every pipe and fork successful, \<^verbatim>\<open>primes\<close> prints on a terminal
  exactly the primes from 2 to \<open>n\<close>, each in one line and in order. When the output goes to a file or a
  pipe and the lines of all primes together fit in the buffer of standard output, each process also writes what it
  inherited from its ancestors: the output is made of whole lines, and that of the \<open>i\<close>-th of \<open>k\<close> primes
  (from 0) comes \<open>k - i + 1\<close> times. For longer outputs, where a full buffer is written before the exit, nothing is
  claimed.\<close>

theorem primes_prints_primes:
  assumes "all_calls os" and "tty os \<or> length (primo_lines (filter is_prime [2..n])) \<le> buf_size os"
  shows "\<exists>vs. primes_main os 2 n = Inr (primo_lines vs) \<and> (let ps = filter is_prime [2..n] in
     if tty os then vs = ps
     else set vs \<subseteq> set ps \<and> (\<forall>i<length ps. count_list vs (ps ! i) = length ps - i + 1))"
proof -
  let ?ps = "filter is_prime [2..n]"
  have "primes_main os 2 n = Inr (primo_lines (if tty os then ?ps else unwind [] ?ps))"
    using assms filtrar_numero_eq[OF assms(1), of "[2..n]" "[]" 1]
    by (auto simp: primes_main_def all_calls_def sieve_upto)
  moreover have "count_list (unwind [] ?ps) (?ps ! i) = length ?ps - i + 1" if "i < length ?ps" for i
  proof -
    have "distinct ?ps" by simp
    then have "(\<Sum>j<length ?ps. if ?ps ! j = ?ps ! i then Suc (length ?ps - j) else 0) =
        (\<Sum>j<length ?ps. if j = i then Suc (length ?ps - j) else 0)"
      using that by (intro sum.cong) (auto simp: nth_eq_iff_index_eq)
    also have "\<dots> = Suc (length ?ps - i)" using that by simp
    finally show ?thesis by (simp add: unwind_count)
  qed
  moreover have "set (unwind pending ps) \<subseteq> set pending \<union> set ps" for pending ps
    by (induction pending ps rule: unwind.induct) auto
  from this[of "[]" ?ps] have "set (unwind [] ?ps) \<subseteq> set ?ps" by simp
  ultimately show ?thesis unfolding Let_def
    by (intro exI[of _ "if tty os then ?ps else unwind [] ?ps"]) simp
qed

lemma primes_prints_primes_witness:
  "\<exists>vs. primes_main \<lparr>tty = False, buf_size = 4096, can_pipe = \<lambda>_. True, can_fork = \<lambda>_. True\<rparr> 2 12 = Inr (primo_lines vs)
     \<and> count_list vs 2 = 6 \<and> count_list vs 11 = 2"
proof -
  let ?os = "\<lparr>tty = False, buf_size = 4096, can_pipe = \<lambda>_. True, can_fork = \<lambda>_. True\<rparr>"
  have ps: "filter is_prime [2..12] = [2, 3, 5, 7, 11]" by code_simp
  have "length (primo_lines [2, 3, 5, 7, 11]) \<le> 4096" by (simp add: primo_line_def digits10.simps)
  then have "\<exists>vs. primes_main ?os 2 12 = Inr (primo_lines vs) \<and> set vs \<subseteq> set [2, 3, 5, 7, 11]
      \<and> (\<forall>i<length [2, 3, 5, 7, 11 :: int]. count_list vs ([2, 3, 5, 7, 11] ! i) = length [2, 3, 5, 7, 11 :: int] - i + 1)"
    using primes_prints_primes[of ?os 12] unfolding ps Let_def by (simp add: all_calls_def)
  then obtain vs where "primes_main ?os 2 12 = Inr (primo_lines vs)"
    "\<forall>i<length [2, 3, 5, 7, 11 :: int]. count_list vs ([2, 3, 5, 7, 11] ! i) = length [2, 3, 5, 7, 11 :: int] - i + 1" by blast
  moreover from this(2)[rule_format, of 0] this(2)[rule_format, of 4] have "count_list vs 2 = 6" "count_list vs 11 = 2" by simp_all
  ultimately show ?thesis by blast
qed

section \<open>\<^verbatim>\<open>xargs\<close> (\<^verbatim>\<open>xargs.c\<close>)\<close>

text \<open>\<^verbatim>\<open>getline\<close>: the line up to the newline and the rest of the input; None at the end of the
  input. The code cuts the newline off and \<^verbatim>\<open>strdup\<close> copies up to the first zero byte.\<close>

definition next_ruta :: "char list \<Rightarrow> (string \<times> char list) option" where
  "next_ruta inp =
     (if inp = [] then None
      else let l = takeWhile (\<lambda>c. c \<noteq> CHR 0x0A) inp in Some (cstr l, drop (Suc (length l)) inp))"

lemma next_ruta_shorter: "next_ruta inp = Some (l, rest) \<Longrightarrow> length rest < length inp"
  by (auto simp: next_ruta_def Let_def split: if_splits)

text \<open>The inner loop: at most \<open>n\<close> lines, what is left, and whether the end of the input was seen.\<close>

fun read_rutas :: "nat \<Rightarrow> char list \<Rightarrow> string list \<times> char list \<times> bool" where
  "read_rutas 0 inp = ([], inp, False)"
| "read_rutas (Suc n) inp =
     (case next_ruta inp of
        None \<Rightarrow> ([], inp, True)
      | Some (l, rest) \<Rightarrow> let (ls, rest', terminado) = read_rutas n rest in (l # ls, rest', terminado))"

definition NARGS :: nat where "NARGS = 4"

lemma read_rutas_shorter:
  "read_rutas n inp = (ls, rest, e) \<Longrightarrow> length rest \<le> length inp \<and> (ls \<noteq> [] \<longrightarrow> length rest < length inp)"
  by (induction n inp arbitrary: ls rest e rule: read_rutas.induct)
     (fastforce split: option.splits prod.splits dest: next_ruta_shorter)+

text \<open>The argument vectors of the programs that are run, in order; a fork that fails ends the
  loop with the error.\<close>

function xargs_loop :: "(nat \<Rightarrow> bool) \<Rightarrow> nat \<Rightarrow> string \<Rightarrow> char list \<Rightarrow> string list list \<times> int" where
  "xargs_loop fork_ok k prog inp =
     (let (ls, rest, terminado) = read_rutas NARGS inp in
      if ls = [] then ([], 0)
      else if \<not> fork_ok k then ([], -1)
      else if terminado then ([prog # ls], 0)
      else let (runs, code) = xargs_loop fork_ok (Suc k) prog rest in ((prog # ls) # runs, code))"
  by pat_completeness auto
termination
  by (relation "measure (\<lambda>(_, _, _, inp). length inp)") (auto dest: read_rutas_shorter[OF sym])

declare xargs_loop.simps [simp del]

definition xargs_main :: "(nat \<Rightarrow> bool) \<Rightarrow> string list \<Rightarrow> char list \<Rightarrow> string list list \<times> int" where
  "xargs_main fork_ok argv inp =
     (if length argv \<noteq> 2 then ([], -1) else xargs_loop fork_ok 0 (argv ! 1) inp)"

text \<open>All lines of the input.\<close>

function rutas :: "char list \<Rightarrow> string list" where
  "rutas inp = (case next_ruta inp of None \<Rightarrow> [] | Some (l, rest) \<Rightarrow> l # rutas rest)"
  by pat_completeness auto
termination by (relation "measure length") (auto dest: next_ruta_shorter)

declare rutas.simps [simp del]

lemma read_rutas_eq:
  "read_rutas n inp = (ls, rest, e) \<Longrightarrow> rutas inp = ls @ rutas rest \<and> length ls \<le> n
     \<and> (e \<longleftrightarrow> length ls < n) \<and> (e \<longrightarrow> rutas rest = [])"
proof (induction n inp arbitrary: ls rest e rule: read_rutas.induct)
  case (2 n inp)
  show ?case
  proof (cases "next_ruta inp")
    case None
    then have "rutas inp = []" by (simp add: rutas.simps)
    with None "2.prems" show ?thesis by simp
  next
    case (Some q)
    obtain l r where q: "q = (l, r)" by (cases q)
    have "rutas inp = l # rutas r" using Some q by (subst rutas.simps) simp
    moreover obtain ls' e' rest' where "read_rutas n r = (ls', rest', e')" by (metis prod_cases3)
    ultimately show ?thesis using "2.prems" "2.IH"[OF Some] Some q by auto
  qed
qed simp

text \<open>\<^verbatim>\<open>xargs\<close> hands every line of its input to the program exactly once and in order, in batches
  of four; only the last batch can be shorter, and none is empty.\<close>

theorem xargs_batches:
  assumes "\<And>k. fork_ok k"
  shows "\<exists>batches. xargs_main fork_ok [a, prog] inp = (map (Cons prog) batches, 0)
     \<and> concat batches = rutas inp \<and> (\<forall>b\<in>set batches. b \<noteq> [] \<and> length b \<le> 4)
     \<and> (\<forall>b\<in>set (butlast batches). length b = 4)"
proof -
  have "\<exists>batches. xargs_loop fork_ok k prog inp = (map (Cons prog) batches, 0)
     \<and> concat batches = rutas inp \<and> (\<forall>b\<in>set batches. b \<noteq> [] \<and> length b \<le> 4)
     \<and> (\<forall>b\<in>set (butlast batches). length b = 4)" for k
  proof (induction "length inp" arbitrary: inp k rule: less_induct)
    case less
    obtain ls rest e where r: "read_rutas NARGS inp = (ls, rest, e)" by (metis prod_cases3)
    note q = read_rutas_eq[OF r] and s = read_rutas_shorter[OF r]
    consider "ls = []" | "ls \<noteq> []" "e" | "ls \<noteq> []" "\<not> e" by blast
    then show ?case
    proof cases
      case 1
      then have "rutas inp = []" using q by (simp add: NARGS_def)
      with 1 r show ?thesis by (intro exI[of _ "[]"]) (simp add: xargs_loop.simps)
    next
      case 2
      with r q assms show ?thesis by (intro exI[of _ "[ls]"]) (auto simp: xargs_loop.simps NARGS_def)
    next
      case 3
      then obtain bs where bs: "xargs_loop fork_ok (Suc k) prog rest = (map (Cons prog) bs, 0)"
        "concat bs = rutas rest" "\<forall>b\<in>set bs. b \<noteq> [] \<and> length b \<le> 4" "\<forall>b\<in>set (butlast bs). length b = 4"
        using less s by blast
      have "length ls = 4" using 3 q by (auto simp: NARGS_def)
      with 3 r bs q assms show ?thesis
        by (intro exI[of _ "ls # bs"]) (auto simp: xargs_loop.simps[of fork_ok k])
    qed
  qed
  then show ?thesis by (simp add: xargs_main_def)
qed

lemma xargs_batches_witness:
  "\<exists>batches. xargs_main (\<lambda>_. True) [''xargs'', ''echo''] (''a'' @ [CHR 0x0A] @ ''b'') = (map (Cons ''echo'') batches, 0)
     \<and> concat batches = rutas (''a'' @ [CHR 0x0A] @ ''b'')"
  using xargs_batches[of "\<lambda>_. True" "''xargs''" "''echo''" "''a'' @ [CHR 0x0A] @ ''b''"] by blast

end
