(* ===== verification/UserProgs.thy ===== *)
theory UserProgs
  imports Kprintf Ulib ForkLab
begin

unbundle bit_operations_syntax

text \<open>
  The start and the end of a user program (\<^verbatim>\<open>lib/libmain.c\<close>, \<^verbatim>\<open>lib/exit.c\<close>), the remaining system call
  stubs and \<^verbatim>\<open>lib/console.c\<close>, and three of the programs under \<^verbatim>\<open>user/\<close> that talk to each other: the chain of
  processes that sieves the primes, the tree of forks and the two that pass a counter. What a message is and that it
  arrives is the subject of \<^verbatim>\<open>Ulib\<close>; here a process is what it does with each message it gets.
\<close>

section \<open>Stubs, start and end\<close>

definition u_cputs :: "kst \<Rightarrow> u32 \<Rightarrow> u32 \<Rightarrow> sysret" where
  "u_cputs k s len = usyscall k SYS_cputs False s len 0 0 0"

text \<open>The user's \<^verbatim>\<open>cputchar\<close>: the local variable \<^verbatim>\<open>c\<close>, at \<open>sp\<close> on the stack, gets the character.\<close>

definition u_cputchar :: "kst \<Rightarrow> u32 \<Rightarrow> u32 \<Rightarrow> sysret" where
  "u_cputchar k sp ch =
     (if user_frame (mem k) (cr3 k) sp True = None then Inl OutOfBounds
      else chain (store_bytes_at (mem k) (cr3 k) sp [ucast ch]) (\<lambda>m. u_cputs (k\<lparr>mem := m\<rparr>) sp 1))"

text \<open>\<open>getc\<close> is what the console has for the call.\<close>

definition u_cgetc :: "int \<Rightarrow> kst \<Rightarrow> sysret" where
  "u_cgetc getc k = syscall getc k SYS_cgetc 0 0 0 0 0"

definition u_env_destroy :: "kst \<Rightarrow> u32 \<Rightarrow> sysret" where
  "u_env_destroy k envid = usyscall k SYS_env_destroy True envid 0 0 0 0"

definition u_env_set_priority :: "kst \<Rightarrow> sysret" where
  "u_env_set_priority k = usyscall k SYS_env_set_priority False 0 0 0 0 0"

definition u_env_get_priority :: "kst \<Rightarrow> sysret" where
  "u_env_get_priority k = usyscall k SYS_env_get_priority False 0 0 0 0 0"

definition u_exit :: "kst \<Rightarrow> sysret" where "u_exit k = u_env_destroy k 0"

text \<open>\<open>umain\<close> is the program, with the index of \<^verbatim>\<open>thisenv\<close> and the program's name for \<^verbatim>\<open>panic\<close>;
  \<open>thisenv\<close> the value it had before.\<close>

definition libmain ::
    "(nat \<Rightarrow> string \<Rightarrow> kst \<Rightarrow> fault + (unit ctl \<times> kst)) \<Rightarrow> nat \<Rightarrow> string list \<Rightarrow> kst \<Rightarrow> sysret" where
  "libmain umain thisenv argv k =
     bindc (u_getenvid k) (\<lambda>id k1.
       let this = (if id \<ge> 0 then ENVX (word_of_int id) else thisenv);
           binaryname = (case argv of [] \<Rightarrow> ''<unknown>'' | a # _ \<Rightarrow> a) in
       bindc (umain this binaryname k1) (\<lambda>_ k2. u_exit k2))"

text \<open>The user's \<^verbatim>\<open>getchar\<close>: it yields while the console has nothing. The list is what the console answers
  call by call, \<open>others\<close> what the other environments do meanwhile; with the list used up it still waits.\<close>

fun u_getchar :: "(kst \<Rightarrow> kst) \<Rightarrow> int list \<Rightarrow> kst \<Rightarrow> sysret" where
  "u_getchar others [] k = Inr (SpinWait, k)"
| "u_getchar others (c # cs) k =
     bindc (u_cgetc c k) (\<lambda>r k1.
       if r \<noteq> 0 then Inr (Return r, k1)
       else (case u_yield k1 of Inl e \<Rightarrow> Inl e | Inr (_, k2) \<Rightarrow> u_getchar others cs (others k2)))"

lemma u_getchar_first:
  "u_getchar others (c # cs) k = Inr (Return r, k') \<Longrightarrow> c \<noteq> 0 \<Longrightarrow> r = c \<and> k' = k"
  by (simp add: u_cgetc_def syscall_def sys_numbers sys_cgetc_def Let_def)

text \<open>A program that returns from its main function ends its own environment.\<close>

lemma u_exit_destroys:
  assumes "curenv k = Some i"
  shows "u_exit k = bindc (env_destroy k i) (\<lambda>_ k1. Inr (Return 0, k1))"
proof -
  have e: "envid2env k 0 True = Inr (0, Some i)" using assms by (simp add: envid2env_def)
  have "u_exit k = bindc (bindc (env_destroy k i) (\<lambda>_ k1. ret 0 k1)) (\<lambda>r k1. if True \<and> r > 0 then upanic k1 else ret r k1)"
    unfolding u_exit_def u_env_destroy_def usyscall_def syscall_def
    by (simp add: sys_numbers sys_env_destroy_def e Let_def)
  also have "\<dots> = bindc (env_destroy k i) (\<lambda>_ k1. Inr (Return 0, k1))"
    unfolding bindc_def by (cases "env_destroy k i") (auto split: ctl.split)
  finally show ?thesis .
qed

section \<open>\<^verbatim>\<open>user/primes.c\<close>\<close>

text \<open>
  The chain of processes, each filter by the prime it holds, in the order of the chain; behind the last filter
  a process waits for its first message. A number goes down the chain until a filter drops it or
  the waiting process takes it: that one prints it and forks the next one to wait. All numbers are positive, where
  the remainder of C is \<^verbatim>\<open>mod\<close>.
\<close>

fun deliver :: "int list \<Rightarrow> int \<Rightarrow> int list" where
  "deliver [] i = [i]"
| "deliver (p # ps) i = p # (if i mod p \<noteq> 0 then deliver ps i else ps)"

text \<open>\<open>slots\<close> environments can exist for the chain. The process that cannot fork panics, which stops the
  system; what it holds has been printed. The numbers printed are those the chain holds.\<close>

fun feed :: "nat \<Rightarrow> int list \<Rightarrow> int list \<Rightarrow> int list" where
  "feed slots ps [] = ps"
| "feed slots ps (i # is) =
     (let ps1 = deliver ps i in
      if length ps < length ps1 \<and> length ps1 = slots then ps1 else feed slots ps1 is)"

definition primes_umain :: "nat \<Rightarrow> int \<Rightarrow> int list" where
  "primes_umain slots n = (if slots = 0 then [] else feed slots [] [2..n])"

lemma deliver_eq: "deliver ps i = (if \<forall>p\<in>set ps. i mod p \<noteq> 0 then ps @ [i] else ps)"
  by (induction ps) auto

lemma foldl_deliver_Cons:
  "foldl deliver (p # ps) xs = p # foldl deliver ps (filter (\<lambda>i. i mod p \<noteq> 0) xs)"
  by (induction xs arbitrary: ps) simp_all

lemma foldl_deliver_sieve: "foldl deliver [] xs = sieve xs"
proof (induction xs rule: sieve.induct)
  case (2 p vs)
  then show ?case by (simp add: foldl_deliver_Cons dvd_eq_mod_eq_0)
qed simp

lemma foldl_deliver_prefix: "\<exists>qs. foldl deliver ps xs = ps @ qs"
proof (induction xs arbitrary: ps)
  case (Cons i xs)
  have "\<exists>q. deliver ps i = ps @ q" by (auto simp: deliver_eq)
  then obtain q where "deliver ps i = ps @ q" by blast
  with Cons.IH[of "ps @ q"] show ?case by auto
qed simp

lemma feed_takes: "length ps < slots \<Longrightarrow> feed slots ps xs = take slots (foldl deliver ps xs)"
proof (induction xs arbitrary: ps)
  case (Cons i xs)
  show ?case
  proof (cases "length ps < length (deliver ps i) \<and> length (deliver ps i) = slots")
    case True
    obtain qs where "foldl deliver (deliver ps i) xs = deliver ps i @ qs" using foldl_deliver_prefix by blast
    with True show ?thesis by simp
  next
    case False
    then have "length (deliver ps i) < slots" using Cons.prems by (auto simp: deliver_eq split: if_splits)
    from Cons.IH[OF this] show ?thesis by (simp only: feed.simps Let_def if_not_P[OF False] foldl.simps)
  qed
qed simp

text \<open>The chain prints the primes in order, each once and nothing else, as far as the environments last: with
  \<open>slots\<close> of them it stops, in the panic of the process that cannot fork, after the first \<open>slots\<close>
  primes.\<close>

theorem primes_umain_prints: "primes_umain slots n = take slots (filter is_prime [2..n])"
  by (cases slots) (simp_all add: primes_umain_def feed_takes foldl_deliver_sieve sieve_upto)

section \<open>\<^verbatim>\<open>user/forktree.c\<close>\<close>

definition DEPTH :: nat where "DEPTH = 3"

text \<open>The name for a child, built by \<^verbatim>\<open>snprintf\<close> in an array of \<^verbatim>\<open>DEPTH + 1\<close> bytes.\<close>

definition child_name :: "string \<Rightarrow> char \<Rightarrow> fault + string" where
  "child_name cur branch =
     chain (snprintf (Some (replicate (DEPTH + 1) NUL)) (int (DEPTH + 1)) ''%s%c''
              [Text cur, Val (word_of_nat (of_char branch))]) (\<lambda>(_, nxt).
       case nxt of None \<Rightarrow> Inl NullDeref | Some b \<Rightarrow> Inr (cstr b))"

text \<open>The names that the processes print, a process before its children; \<open>forks\<close> tells for which names the fork
  succeeds, and a failed one is not noticed. The first argument bounds the recursion.\<close>

fun forktree :: "nat \<Rightarrow> (string \<Rightarrow> bool) \<Rightarrow> string \<Rightarrow> fault + string list"
  and forkchild :: "nat \<Rightarrow> (string \<Rightarrow> bool) \<Rightarrow> string \<Rightarrow> char \<Rightarrow> fault + string list" where
  "forktree 0 forks cur = Inl Endless"
| "forktree (Suc d) forks cur =
     chain (forkchild d forks cur CHR ''0'') (\<lambda>a. chain (forkchild d forks cur CHR ''1'') (\<lambda>b. Inr (cur # a @ b)))"
| "forkchild d forks cur branch =
     (if length cur \<ge> DEPTH then Inr []
      else chain (child_name cur branch) (\<lambda>nxt. if forks nxt then forktree d forks nxt else Inr []))"

definition forktree_umain :: "(string \<Rightarrow> bool) \<Rightarrow> fault + string list" where
  "forktree_umain forks = forktree (DEPTH + 1) forks []"

definition binary :: "string \<Rightarrow> bool" where "binary s \<longleftrightarrow> set s \<subseteq> {CHR ''0'', CHR ''1''}"

lemma child_name_appends:
  assumes "length cur < DEPTH" and "binary cur" and "c \<in> {CHR ''0'', CHR ''1''}"
  shows "child_name cur c = Inr (cur @ [c])"
proof -
  have n: "NUL \<notin> set (cur @ [c])" using assms(2,3) by (auto simp: binary_def)
  have "char_of (unat (word_of_nat (of_char d) :: u32)) = d" if "d \<in> set ''01''" for d
  proof -
    have "list_all (\<lambda>d. char_of (unat (word_of_nat (of_char d) :: u32)) = d) ''01''" by code_simp
    then show ?thesis using that by auto
  qed
  then have "char_of (unat (word_of_nat (of_char c) :: u32)) = c" using assms(3) by simp
  then have f: "vprintfmt (arg_text [Text cur, Val (word_of_nat (of_char c))]) ''%s%c''
      (arg_slots [Text cur, Val (word_of_nat (of_char c))]) = Inr (cur @ [c])"
    by (simp add: arg_slots_def arg_text_def conversion.simps is_digit_def print_string_def no_flags_def Let_def)
  have "take 3 (cur @ [c]) = cur @ [c]" using assms(1) by (simp add: DEPTH_def)
  then have "snprintf (Some (replicate (DEPTH + 1) NUL)) (int (DEPTH + 1)) ''%s%c'' [Text cur, Val (word_of_nat (of_char c))]
      = Inr (int (length cur + 1), Some ((cur @ [c]) @ NUL # drop (Suc (length (cur @ [c]))) (replicate 4 NUL)))"
    using vsnprintf_truncates[OF f, of 4 "replicate 4 NUL"] assms(1)
    by (simp add: snprintf_def DEPTH_def min_def)
  moreover have "cstr ((cur @ [c]) @ NUL # rest) = cur @ [c]" for rest
  proof -
    have "takeWhile (\<lambda>x. x \<noteq> NUL) ((cur @ [c]) @ NUL # rest) = (cur @ [c]) @ takeWhile (\<lambda>x. x \<noteq> NUL) (NUL # rest)"
      by (rule takeWhile_append2) (use n in auto)
    then show ?thesis unfolding cstr_def by simp
  qed
  ultimately show ?thesis by (simp add: child_name_def)
qed

text \<open>The names below \<open>cur\<close>: those all of whose forks succeeded.\<close>

definition below :: "(string \<Rightarrow> bool) \<Rightarrow> string \<Rightarrow> string set" where
  "below forks cur = {cur @ t | t. length (cur @ t) \<le> DEPTH \<and> binary t
     \<and> (\<forall>k. length cur < k \<and> k \<le> length (cur @ t) \<longrightarrow> forks (take k (cur @ t)))}"

lemma below_child: "s \<in> below forks (cur @ [c]) \<Longrightarrow> take (Suc (length cur)) s = cur @ [c]"
  by (auto simp: below_def)

lemma below_split:
  assumes "length cur < DEPTH"
  shows "below forks cur = insert cur ((if forks (cur @ ''0'') then below forks (cur @ ''0'') else {})
     \<union> (if forks (cur @ ''1'') then below forks (cur @ ''1'') else {}))" (is "?L = ?R")
proof
  show "?L \<subseteq> ?R"
  proof
    fix s assume "s \<in> ?L"
    then obtain t where t: "s = cur @ t" "length (cur @ t) \<le> DEPTH" "binary t"
      "\<forall>k. length cur < k \<and> k \<le> length (cur @ t) \<longrightarrow> forks (take k (cur @ t))" by (auto simp: below_def)
    show "s \<in> ?R"
    proof (cases t)
      case (Cons b t')
      have f: "forks (cur @ [b])" using t(4)[rule_format, of "Suc (length cur)"] Cons by simp
      have "s \<in> below forks (cur @ [b])"
        using t Cons unfolding below_def by (intro CollectI exI[of _ t']) (auto simp: binary_def)
      moreover have "b = CHR ''0'' \<or> b = CHR ''1''" using t(3) Cons by (simp add: binary_def)
      ultimately show ?thesis using f by auto
    qed (use t(1) in simp)
  qed
  have "s \<in> ?L" if c: "s \<in> below forks (cur @ [c])" "forks (cur @ [c])" "c \<in> {CHR ''0'', CHR ''1''}" for s c
  proof -
    obtain t where t: "s = (cur @ [c]) @ t" "length ((cur @ [c]) @ t) \<le> DEPTH" "binary t"
      "\<forall>k. length (cur @ [c]) < k \<and> k \<le> length ((cur @ [c]) @ t) \<longrightarrow> forks (take k ((cur @ [c]) @ t))"
      using c(1) by (auto simp: below_def)
    have "forks (take k (cur @ c # t))" if "length cur < k" "k \<le> length (cur @ c # t)" for k
    proof (cases "k = Suc (length cur)")
      case False
      then show ?thesis using t(4)[rule_format, of k] that by simp
    qed (use c(2) in simp)
    then show ?thesis using t c(3) unfolding below_def
      by (intro CollectI exI[of _ "c # t"]) (auto simp: binary_def)
  qed
  moreover have "cur \<in> ?L" using assms by (auto simp: below_def binary_def)
  ultimately show "?R \<subseteq> ?L" by (auto split: if_splits)
qed

lemma forktree_below:
  "length cur + d = DEPTH + 1 \<Longrightarrow> binary cur \<Longrightarrow> length cur \<le> DEPTH \<Longrightarrow>
     \<exists>ns. forktree d forks cur = Inr ns \<and> distinct ns \<and> set ns = below forks cur"
proof (induction d arbitrary: cur)
  case (Suc d)
  show ?case
  proof (cases "length cur < DEPTH")
    case False
    then have "length cur = DEPTH" using Suc.prems(3) by simp
    then show ?thesis by (auto simp: below_def binary_def)
  next
    case True
    have child: "\<exists>ns. forkchild d forks cur c = Inr ns \<and> distinct ns
        \<and> set ns = (if forks (cur @ [c]) then below forks (cur @ [c]) else {})" if c: "c \<in> {CHR ''0'', CHR ''1''}" for c
    proof (cases "forks (cur @ [c])")
      case f: True
      have "binary (cur @ [c])" using Suc.prems(2) c by (auto simp: binary_def)
      with Suc.IH[of "cur @ [c]"] Suc.prems(1) True obtain ns where
        "forktree d forks (cur @ [c]) = Inr ns" "distinct ns" "set ns = below forks (cur @ [c])" by auto
      then show ?thesis using f True child_name_appends[OF True Suc.prems(2) c] by simp
    next
      case False
      then show ?thesis using True child_name_appends[OF True Suc.prems(2) c] by simp
    qed
    from child[of "CHR ''0''"] child[of "CHR ''1''"] obtain a b where
      a: "forkchild d forks cur CHR ''0'' = Inr a" "distinct a" "set a = (if forks (cur @ ''0'') then below forks (cur @ ''0'') else {})"
      and b: "forkchild d forks cur CHR ''1'' = Inr b" "distinct b" "set b = (if forks (cur @ ''1'') then below forks (cur @ ''1'') else {})"
      by auto
    have ne: "cur \<notin> below forks (cur @ [c])" for c by (auto simp: below_def)
    have "s \<notin> below forks (cur @ ''1'')" if "s \<in> below forks (cur @ ''0'')" for s
      using below_child[OF that] below_child[of s forks cur "CHR ''1''"] by auto
    then have "set a \<inter> set b = {}" unfolding a(3) b(3) by auto
    moreover have "cur \<notin> set a" "cur \<notin> set b" unfolding a(3) b(3) using ne by auto
    ultimately have "distinct (cur # a @ b)" using a(2) b(2) by simp
    moreover have "set (cur # a @ b) = below forks cur" using below_split[OF True, of forks] a(3) b(3) by simp
    ultimately show ?thesis using a(1) b(1) by simp
  qed
qed simp

text \<open>The tree of forks: every process prints its name once, and the names are exactly the binary strings of
  at most \<^verbatim>\<open>DEPTH\<close> digits all of whose forks succeeded; no name is cut by the array it is built in.\<close>

theorem forktree_names:
  "\<exists>ns. forktree_umain forks = Inr ns \<and> distinct ns
     \<and> set ns = {s. length s \<le> DEPTH \<and> binary s \<and> (\<forall>k. 0 < k \<and> k \<le> length s \<longrightarrow> forks (take k s))}"
  using forktree_below[of "[]" "DEPTH + 1" forks] by (simp add: forktree_umain_def below_def binary_def)

section \<open>\<^verbatim>\<open>user/pingpong.c\<close>\<close>

text \<open>What a side does with a message: the value it sends back, if any, and whether it goes on.\<close>

definition pingpong_turn :: "u32 \<Rightarrow> u32 option \<times> bool" where
  "pingpong_turn i = (if i = 10 then (None, False) else (Some (i + 1), i + 1 \<noteq> 10))"

text \<open>The exchange from a message to side \<open>s\<close> on: the messages with their receivers, and the sides that have
  returned. A message to a side that has returned is never received.\<close>

fun exchange :: "nat \<Rightarrow> bool \<Rightarrow> u32 \<Rightarrow> bool set \<Rightarrow> fault + ((bool \<times> u32) list \<times> bool set)" where
  "exchange 0 s i done_sides = Inl Endless"
| "exchange (Suc n) s i done_sides =
     (if s \<in> done_sides then Inl Endless
      else case pingpong_turn i of (sent, goes_on) \<Rightarrow>
        let done1 = (if goes_on then done_sides else insert s done_sides) in
        case sent of None \<Rightarrow> Inr ([(s, i)], done1)
        | Some v \<Rightarrow> chain (exchange n (\<not> s) v done1) (\<lambda>(ms, d). Inr ((s, i) # ms, d)))"

lemma pingpong_counts:
  "exchange 11 False 0 {} = Inr (map (\<lambda>i. (odd i, word_of_nat i)) [0..<11], {False, True})"
  by code_simp

end
