(* ===== verification/UserTests.thy ===== *)
theory UserTests
  imports DumbFork UserProgs
begin

unbundle bit_operations_syntax

text \<open>
  Programs of \<^verbatim>\<open>user/\<close> that test one service of the kernel: \<^verbatim>\<open>faultregs.c\<close> compares the registers around a page
  fault (its loads and stores of registers, in assembly, are given as two sets of values), \<^verbatim>\<open>alloczero.c\<close> that new pages
  are zero, \<^verbatim>\<open>priorities.c\<close> gives up tickets. The first two are shown to pass on the model of the kernel.
\<close>

text \<open>A string padded on the right.\<close>

definition sjust :: "nat \<Rightarrow> string \<Rightarrow> string" where
  "sjust n s = s @ replicate (n - length s) CHR '' ''"

section \<open>\<^verbatim>\<open>user/faultregs.c\<close>\<close>

record regs =
  r_regs :: pushregs
  r_eip :: u32
  r_eflags :: u32
  r_esp :: u32

text \<open>The registers compared: all of those saved but \<^verbatim>\<open>oesp\<close>.\<close>

definition check_fields :: "(string \<times> (regs \<Rightarrow> u32)) list" where
  "check_fields =
     [(''edi'', \<lambda>r. reg_edi (r_regs r)), (''esi'', \<lambda>r. reg_esi (r_regs r)), (''ebp'', \<lambda>r. reg_ebp (r_regs r)),
      (''ebx'', \<lambda>r. reg_ebx (r_regs r)), (''edx'', \<lambda>r. reg_edx (r_regs r)), (''ecx'', \<lambda>r. reg_ecx (r_regs r)),
      (''eax'', \<lambda>r. reg_eax (r_regs r)), (''eip'', r_eip), (''eflags'', r_eflags), (''esp'', r_esp)]"

definition verdict_call :: "bool \<Rightarrow> string \<times> arg list" where
  "verdict_call ok = (if ok then ''OK'' @ NL else ''MISMATCH'' @ NL, [])"

text \<open>The fold keeps the calls of \<^verbatim>\<open>cprintf\<close> and \<^verbatim>\<open>mismatch\<close>.\<close>

definition check_field ::
    "regs \<Rightarrow> regs \<Rightarrow> string \<times> (regs \<Rightarrow> u32) \<Rightarrow> (string \<times> arg list) list \<times> bool \<Rightarrow> (string \<times> arg list) list \<times> bool" where
  "check_field a b f st =
     (case (f, st) of ((name, field), (calls, mismatch)) \<Rightarrow>
       (calls @ [(''%-6s %08x %08x '', [Text name, Val (field a), Val (field b)]), verdict_call (field a = field b)],
        mismatch \<or> field a \<noteq> field b))"

definition check_regs :: "regs \<Rightarrow> string \<Rightarrow> regs \<Rightarrow> string \<Rightarrow> string \<Rightarrow> (string \<times> arg list) list" where
  "check_regs a an b bn testname =
     (case fold (check_field a b) check_fields
             ([(''%-6s %-8s %-8s'' @ NL, [Text [], Text an, Text bn])], False) of
        (calls, mismatch) \<Rightarrow> calls @ [(''Registers %s '', [Text testname]), verdict_call (\<not> mismatch)])"

text \<open>The handler: the calls it makes, and \<^verbatim>\<open>during\<close>.\<close>

definition regs_of_utf :: "utrapframe \<Rightarrow> regs" where
  "regs_of_utf utf = \<lparr>r_regs = utf_regs utf, r_eip = utf_eip utf, r_eflags = utf_eflags utf AND NOT FL_RF, r_esp = utf_esp utf\<rparr>"

definition faultregs_pgfault ::
    "regs \<Rightarrow> utrapframe \<Rightarrow> kst \<Rightarrow> fault + (((string \<times> arg list) list \<times> regs) ctl \<times> kst)" where
  "faultregs_pgfault before utf k =
     (if utf_fault_va utf \<noteq> UTEMP then upanic k
      else let during = regs_of_utf utf;
               calls = check_regs before ''before'' during ''during'' ''in UTrapframe'' in
        must (u_page_alloc k 0 UTEMP (PTE_U OR PTE_P OR PTE_W)) (\<lambda>k1. Inr (Return (calls, during), k1)))"

lemma conv_left6:
  "a \<noteq> 0 \<Longrightarrow> conversion str after no_flags (CHR ''-'' # CHR ''6'' # CHR ''s'' # fmt) (a # ap) = Inr (sjust 6 (str a), fmt, ap)"
  by (simp add: conversion_simps print_string_def Let_def sjust_def nat_diff_distrib' of_nat_diff_if)

lemma conv_left8:
  "a \<noteq> 0 \<Longrightarrow> conversion str after no_flags (CHR ''-'' # CHR ''8'' # CHR ''s'' # fmt) (a # ap) = Inr (sjust 8 (str a), fmt, ap)"
  by (simp add: conversion_simps print_string_def Let_def sjust_def)

definition verdict :: "bool \<Rightarrow> string" where
  "verdict ok = (if ok then ''OK'' else ''MISMATCH'') @ NL"

definition field_line :: "regs \<Rightarrow> regs \<Rightarrow> string \<times> (regs \<Rightarrow> u32) \<Rightarrow> string" where
  "field_line a b f = sjust 6 (fst f) @ '' '' @ hex08 (snd f a) @ '' '' @ hex08 (snd f b) @ '' '' @ verdict (snd f a = snd f b)"

definition same_regs :: "regs \<Rightarrow> regs \<Rightarrow> bool" where
  "same_regs a b \<longleftrightarrow> (\<forall>f\<in>set check_fields. snd f a = snd f b)"

lemma format_verdict: "format_call (verdict_call ok) = Inr (verdict ok)"
  by (simp add: verdict_call_def verdict_def call_simps)

lemma format_field:
  "format_call (''%-6s %08x %08x '', [Text name, Val a, Val b]) = Inr (sjust 6 name @ '' '' @ hex08 a @ '' '' @ hex08 b @ '' '')"
  by (simp add: call_simps conv_left6)

lemma fold_check_fields:
  "format_all calls = Inr out \<Longrightarrow> \<exists>calls'. fold (check_field a b) fs (calls, mis) = (calls', mis \<or> (\<exists>f\<in>set fs. snd f a \<noteq> snd f b))
     \<and> format_all calls' = Inr (out @ concat (map (field_line a b) fs))"
proof (induction fs arbitrary: calls mis out)
  case (Cons f fs)
  obtain name field where f: "f = (name, field)" by (cases f)
  let ?calls = "calls @ [(''%-6s %08x %08x '', [Text name, Val (field a), Val (field b)]), verdict_call (field a = field b)]"
  have "format_all ?calls = Inr (out @ field_line a b f)"
    using Cons.prems by (simp add: format_all_append format_field format_verdict field_line_def f)
  from Cons.IH[OF this, of "mis \<or> field a \<noteq> field b"] show ?case by (auto simp: check_field_def f)
qed simp

text \<open>The check prints a line for every register with its two values, and its last line says that all agree exactly when
  they do.\<close>

theorem check_regs_verdict:
  "format_all (check_regs a an b bn testname) = Inr
     (sjust 6 [] @ '' '' @ sjust 8 an @ '' '' @ sjust 8 bn @ NL @ concat (map (field_line a b) check_fields)
      @ ''Registers '' @ testname @ '' '' @ verdict (same_regs a b))"
proof -
  have "format_all [(''%-6s %-8s %-8s'' @ NL, [Text [], Text an, Text bn])] =
      Inr (sjust 6 [] @ '' '' @ sjust 8 an @ '' '' @ sjust 8 bn @ NL)"
    by (simp add: call_simps conv_left6 conv_left8)
  from fold_check_fields[OF this, of a b check_fields False] obtain calls where
    1: "fold (check_field a b) check_fields ([(''%-6s %-8s %-8s'' @ NL, [Text [], Text an, Text bn])], False)
      = (calls, \<not> same_regs a b)"
    and 2: "format_all calls = Inr ((sjust 6 [] @ '' '' @ sjust 8 an @ '' '' @ sjust 8 bn @ NL) @ concat (map (field_line a b) check_fields))"
    by (auto simp: same_regs_def)
  have "format_call (''Registers %s '', [Text testname]) = Inr (''Registers '' @ testname @ '' '')" by (simp add: call_simps)
  then show ?thesis unfolding check_regs_def 1 by (simp add: format_all_append 2 format_verdict)
qed

text \<open>The end of the program: \<open>w\<close> is the word at \<^verbatim>\<open>UTEMP\<close>, \<open>after\<close> the registers saved behind the fault.\<close>

definition faultregs_end :: "regs \<Rightarrow> regs \<Rightarrow> u32 \<Rightarrow> (string \<times> arg list) list" where
  "faultregs_end before after w =
     (if w \<noteq> 42 then [(''EIP after page-fault MISMATCH'' @ NL, [])] else [])
     @ check_regs before ''before'' (after\<lparr>r_eip := r_eip before\<rparr>) ''after'' ''after page-fault''"

section \<open>\<^verbatim>\<open>user/alloczero.c\<close>\<close>

text \<open>A half word at an address that is a multiple of four.\<close>

definition user_store16 :: "kst \<Rightarrow> u32 \<Rightarrow> u16 \<Rightarrow> fault + kst" where
  "user_store16 k va v = chain (user_load k va) (\<lambda>w. user_store k va ((w AND 0xFFFF0000) OR ucast v))"

definition user_load16 :: "kst \<Rightarrow> u32 \<Rightarrow> fault + u16" where
  "user_load16 k va = chain (user_load k va) (\<lambda>w. Inr (ucast w))"

definition alloczero_write :: "kst \<Rightarrow> u32 \<Rightarrow> u16 \<Rightarrow> fault + (unit ctl \<times> kst)" where
  "alloczero_write k addr value =
     must (u_page_alloc k 0 addr (PTE_P OR PTE_U OR PTE_W)) (\<lambda>k1.
     chain (user_store16 k1 addr value) (\<lambda>k2.
     must (u_page_unmap k2 0 addr) (\<lambda>k3. Inr (Return (), k3))))"

definition alloczero_check :: "kst \<Rightarrow> u32 \<Rightarrow> fault + (unit ctl \<times> kst)" where
  "alloczero_check k addr =
     must (u_page_alloc k 0 addr (PTE_P OR PTE_U)) (\<lambda>k1.
     chain (user_load16 k1 addr) (\<lambda>v.
     if v \<noteq> 0 then upanic k1
     else must (u_page_unmap k1 0 addr) (\<lambda>k2. Inr (Return (), k2))))"

text \<open>The result is what is printed.\<close>

definition alloczero_umain :: "kst \<Rightarrow> fault + (string ctl \<times> kst)" where
  "alloczero_umain k =
     bindc (alloczero_write k UTEMP 0x7508) (\<lambda>_ k1.
     bindc (alloczero_check k1 UTEMP) (\<lambda>_ k2.
       Inr (Return (''The allocated memory is initialized to zero'' @ NL), k2)))"

lemma entry_PU:
  assumes "p < 2 ^ 20"
  shows "frame_of (page2pa p OR ((PTE_P OR PTE_U) OR PTE_U OR PTE_P) OR PTE_P) = p"
    and "(page2pa p OR ((PTE_P OR PTE_U) OR PTE_U OR PTE_P) OR PTE_P) AND access False = access False"
proof -
  have e: "page2pa p OR ((PTE_P OR PTE_U) OR PTE_U OR PTE_P) OR PTE_P = page2pa p OR (PTE_P OR PTE_U)"
    by (intro bit_word_eqI) (auto simp: bit_simps)
  have f: "flags_ok (PTE_P OR PTE_U)" by (simp add: flags_ok_or)
  show "frame_of (page2pa p OR ((PTE_P OR PTE_U) OR PTE_U OR PTE_P) OR PTE_P) = p"
    unfolding e by (rule frame_of_entry[OF assms f])
  show "(page2pa p OR ((PTE_P OR PTE_U) OR PTE_U OR PTE_P) OR PTE_P) AND access False = access False"
    by (intro bit_word_eqI) (auto simp: access_def bit_simps)
qed

text \<open>A page with a given content at an address of the current environment, and one taken away again.\<close>

lemma fresh_page_at:
  assumes c: "accounted K k L ps" "2 \<le> length ps" and t: "target k 0 (cr3 k)" and op: "open_tables (mem k) (cr3 k)"
    and n: "n < user_pages" and perm: "perm AND NOT PTE_SYSCALL = 0"
  obtains p m ps' where "p < 2 ^ 20" and "p \<in> set ps"
    and "u_page_alloc k 0 (page_va n) perm = Inr (Return 0, k\<lparr>mem := m\<rparr>)"
    and "accounted K (k\<lparr>mem := m\<rparr>) L ps'" and "remaps (mem k) m (dirs k) ps (cr3 k) n (page2pa p OR (perm OR PTE_U OR PTE_P) OR PTE_P)"
    and "phys m p = (\<lambda>_. 0)" and "length ps \<le> length ps' + 2"
    and "unat (PDX (page_va n)) \<in> tables (mem k) (cr3 k) \<Longrightarrow> length ps \<le> length ps' + 1"
proof -
  obtain p q qs where ps: "ps = p # q # qs" using c(2) by (metis Suc_le_length_iff numeral_2_eq_2)
  note c' = c(1)[unfolded ps]
  have p: "p < 2 ^ 20" using countedD(2)[OF c'] by (auto simp: page_repr_def)
  note v = page_va[OF n]
  obtain m ps' where m: "u_page_alloc k 0 (page_va n) perm = Inr (Return 0, k\<lparr>mem := m\<rparr>)" "accounted K (k\<lparr>mem := m\<rparr>) L ps'"
    "remaps (mem k) m (dirs k) (p # q # qs) (cr3 k) n (page2pa p OR (perm OR PTE_U OR PTE_P) OR PTE_P)" "phys m p = (\<lambda>_. 0)"
    "length (q # qs) \<le> length ps' + (if unat (PDX (page_va n)) \<in> tables (mem k) (cr3 k) then 0 else 1)"
    using alloc_call[OF c' t v(2) perm] unfolding v(1) by blast
  show ?thesis by (rule that[OF p _ m(1,2) _ m(4)]) (use m(3,5) ps in \<open>auto split: if_splits\<close>)
qed

lemma unmap_page_at:
  assumes c: "accounted K (k\<lparr>mem := m\<rparr>) L ps" and t: "target k 0 (cr3 k)" and n: "n < user_pages" "entry m (cr3 k) n \<noteq> 0"
  obtains m' ps' where "u_page_unmap (k\<lparr>mem := m\<rparr>) 0 (page_va n) = Inr (Return 0, k\<lparr>mem := m'\<rparr>)"
    and "accounted K (k\<lparr>mem := m'\<rparr>) L ps'" and "remaps m m' (dirs k) ps (cr3 k) n 0" and "length ps \<le> length ps'"
proof -
  have "unat (PDX (page_va n)) \<in> tables (mem (k\<lparr>mem := m\<rparr>)) (cr3 k)" using entry_table[OF n] page_va(3)[OF n(1)] by simp
  from unmap_call[OF c _ page_va(2)[OF n(1)] this] t that show ?thesis by (auto simp: page_va(1)[OF n(1)])
qed

text \<open>Only the entry of the page has changed, and it is empty.\<close>

definition unmapped_page :: "kmem \<Rightarrow> kmem \<Rightarrow> nat set \<Rightarrow> nat \<Rightarrow> nat \<Rightarrow> bool" where
  "unmapped_page s m D d n \<longleftrightarrow> (\<forall>a\<in>D. \<forall>i<user_pages. entry m a i = (if a = d \<and> i = n then 0 else entry s a i))"

lemma alloczero_write_effect:
  assumes c: "accounted K k L ps" "2 \<le> length ps" and t: "target k 0 (cr3 k)" and op: "open_tables (mem k) (cr3 k)"
    and n: "n < user_pages"
  obtains m ps' where "alloczero_write k (page_va n) x = Inr (Return (), k\<lparr>mem := m\<rparr>)" and "accounted K (k\<lparr>mem := m\<rparr>) L ps'"
    and "open_tables m (cr3 k)" and "unmapped_page (mem k) m (dirs k) (cr3 k) n" and "length ps \<le> length ps' + 2"
proof -
  let ?D = "dirs k" and ?d = "cr3 k"
  have dD: "?d \<in> ?D" by (rule target_dir[OF t])
  have perm: "(PTE_P OR PTE_U OR PTE_W) AND NOT PTE_SYSCALL = 0" by (simp add: pte_bits)
  obtain p m1 ps1 where p: "p < 2 ^ 20" "p \<in> set ps"
    and 1: "u_page_alloc k 0 (page_va n) (PTE_P OR PTE_U OR PTE_W) = Inr (Return 0, k\<lparr>mem := m1\<rparr>)"
      "accounted K (k\<lparr>mem := m1\<rparr>) L ps1" "remaps (mem k) m1 ?D ps ?d n (page2pa p OR (PTE_P OR PTE_U OR PTE_W))" "length ps \<le> length ps1 + 2"
    using fresh_page_at[OF c t op n perm] unfolding perm_PUW by blast
  let ?v = "page2pa p OR (PTE_P OR PTE_U OR PTE_W)"
  note v = entry_PUW[OF p(1)]
  have op1: "open_tables m1 ?d" by (rule remapsD(4)[OF 1(3) dD op])
  have e1: "entry m1 ?d n = ?v" using remapsD(2)[OF 1(3) dD n] by simp
  have c1: "counted m1 ?D (held k) K L ps1" using 1(2) by simp
  have lt: "page_va n < UTOP" using good_va_user page_va(2)[OF n] by blast
  have u1: "user_frame m1 ?d (page_va n) w = Some p" for w
    using v(1,2) by (simp add: user_frame_entry[OF op1 lt] page_va(1)[OF n] e1)
  let ?j = "unat (PGOFF (page_va n)) div 4"
  let ?w = "(phys m1 p ?j AND 0xFFFF0000) OR ucast x" let ?m2 = "m1\<lparr>phys := set_cell (phys m1) p ?j ?w\<rparr>"
  have 2: "user_store16 (k\<lparr>mem := m1\<rparr>) (page_va n) x = Inr (k\<lparr>mem := ?m2\<rparr>)"
    using u1 by (simp add: user_store16_def user_load_def user_store_def)
  have d1: "data_frame m1 ?D p" "K p = None" using entry_account(1,3)[OF c1 dD n] e1 v(1,3) by simp_all
  have "phys ?m2 = (phys m1)(p := (phys m1 p)(?j := ?w))" by (simp add: set_cell_def)
  note w = write_frame[OF c1 d1 this, simplified]
  have e2: "entry ?m2 a i = entry m1 a i" if "a \<in> ?D" "i < user_pages" for a i
    by (rule same_space_entries[OF w(2)[OF that(1)] that(2)])
  have a2: "accounted K (k\<lparr>mem := ?m2\<rparr>) L ps1" using w(1) by simp
  have "entry ?m2 ?d n \<noteq> 0" using e2[OF dD n] e1 v(3) by simp
  from unmap_page_at[OF a2 t n this] obtain m3 ps3 where
    3: "u_page_unmap (k\<lparr>mem := ?m2\<rparr>) 0 (page_va n) = Inr (Return 0, k\<lparr>mem := m3\<rparr>)" "accounted K (k\<lparr>mem := m3\<rparr>) L ps3"
      "remaps ?m2 m3 ?D ps1 ?d n 0" "length ps1 \<le> length ps3" .
  have "open_tables ?m2 ?d = open_tables m1 ?d" by (rule pdes_cong(1)) (use w(4)[OF dD] in simp)
  then have "open_tables m3 ?d" using remapsD(4)[OF 3(3) dD] op1 by blast
  moreover have "unmapped_page (mem k) m3 ?D ?d n"
    unfolding unmapped_page_def using e2 by (auto simp: remapsD(2)[OF 3(3)] remapsD(2)[OF 1(3)])
  ultimately show ?thesis using 1(1,4) 2 3(1,2,4) by (intro that[of m3 ps3]) (simp_all add: alloczero_write_def must_def)
qed

lemma alloczero_check_effect:
  assumes c: "accounted K k L ps" "2 \<le> length ps" and t: "target k 0 (cr3 k)" and op: "open_tables (mem k) (cr3 k)"
    and n: "n < user_pages"
  obtains m ps' where "alloczero_check k (page_va n) = Inr (Return (), k\<lparr>mem := m\<rparr>)" and "accounted K (k\<lparr>mem := m\<rparr>) L ps'"
    and "unmapped_page (mem k) m (dirs k) (cr3 k) n"
proof -
  let ?D = "dirs k" and ?d = "cr3 k"
  have dD: "?d \<in> ?D" by (rule target_dir[OF t])
  have perm: "(PTE_P OR PTE_U) AND NOT PTE_SYSCALL = 0" by (simp add: pte_bits)
  obtain p m1 ps1 where p: "p < 2 ^ 20" "p \<in> set ps"
    and 1: "u_page_alloc k 0 (page_va n) (PTE_P OR PTE_U) = Inr (Return 0, k\<lparr>mem := m1\<rparr>)" "accounted K (k\<lparr>mem := m1\<rparr>) L ps1"
      "remaps (mem k) m1 ?D ps ?d n (page2pa p OR ((PTE_P OR PTE_U) OR PTE_U OR PTE_P) OR PTE_P)" "phys m1 p = (\<lambda>_. 0)"
    using fresh_page_at[OF c t op n perm] by blast
  note v = entry_PU[OF p(1)]
  have e1: "entry m1 ?d n = page2pa p OR ((PTE_P OR PTE_U) OR PTE_U OR PTE_P) OR PTE_P" using remapsD(2)[OF 1(3) dD n] by simp
  have lt: "page_va n < UTOP" using good_va_user page_va(2)[OF n] by blast
  have "user_frame m1 ?d (page_va n) False = Some p"
    unfolding user_frame_entry[OF remapsD(4)[OF 1(3) dD op] lt] page_va(1)[OF n] e1 v if_P[OF refl] ..
  then have 2: "user_load16 (k\<lparr>mem := m1\<rparr>) (page_va n) = Inr 0" using 1(4) by (simp add: user_load16_def user_load_def)
  have "entry m1 ?d n \<noteq> 0" using v(2) unfolding e1[symmetric] by (auto simp: access_def pte_bits)
  from unmap_page_at[OF 1(2) t n this] obtain m3 ps3 where
    3: "u_page_unmap (k\<lparr>mem := m1\<rparr>) 0 (page_va n) = Inr (Return 0, k\<lparr>mem := m3\<rparr>)" "accounted K (k\<lparr>mem := m3\<rparr>) L ps3"
      "remaps m1 m3 ?D ps1 ?d n 0" .
  have "unmapped_page (mem k) m3 ?D ?d n"
    unfolding unmapped_page_def by (auto simp: remapsD(2)[OF 3(3)] remapsD(2)[OF 1(3)])
  then show ?thesis using 1(1) 2 3(1,2) by (intro that[of m3 ps3]) (simp_all add: alloczero_check_def must_def)
qed

text \<open>The program passes: with the frames it needs, in an accounted kernel, the second page it gets is zero although it may be
  the one it has just written; afterwards the account holds, \<^verbatim>\<open>UTEMP\<close> is unmapped and every other mapping of every
  environment is as before.\<close>

theorem alloczero_passes:
  assumes "accounted K k L ps" and "4 \<le> length ps" and "target k 0 (cr3 k)" and "open_tables (mem k) (cr3 k)"
  shows "\<exists>m ps'. alloczero_umain k = Inr (Return (''The allocated memory is initialized to zero'' @ NL), k\<lparr>mem := m\<rparr>)
    \<and> accounted K (k\<lparr>mem := m\<rparr>) L ps' \<and> unmapped_page (mem k) m (dirs k) (cr3 k) (page_no UTEMP)"
proof -
  have u: "page_no UTEMP = 1024" using page_va(1)[OF UTEMP_page(2)] UTEMP_page(1) by simp
  have two: "2 \<le> length ps" using assms(2) by simp
  obtain m1 ps1 where 1: "alloczero_write k (page_va 1024) 0x7508 = Inr (Return (), k\<lparr>mem := m1\<rparr>)" "accounted K (k\<lparr>mem := m1\<rparr>) L ps1"
    "open_tables m1 (cr3 k)" "unmapped_page (mem k) m1 (dirs k) (cr3 k) 1024" "length ps \<le> length ps1 + 2"
    using alloczero_write_effect[OF assms(1) two assms(3,4) UTEMP_page(2)] .
  let ?k = "k\<lparr>mem := m1\<rparr>"
  have h: "2 \<le> length ps1" "target ?k 0 (cr3 ?k)" "open_tables (mem ?k) (cr3 ?k)" using 1(3,5) assms(2,3) by simp_all
  obtain m2 ps2 where 2: "alloczero_check ?k (page_va 1024) = Inr (Return (), ?k\<lparr>mem := m2\<rparr>)" "accounted K (?k\<lparr>mem := m2\<rparr>) L ps2"
    "unmapped_page (mem ?k) m2 (dirs ?k) (cr3 ?k) 1024"
    using alloczero_check_effect[OF 1(2) h UTEMP_page(2)] .
  have "unmapped_page (mem k) m2 (dirs k) (cr3 k) 1024" using 1(4) 2(3) by (auto simp: unmapped_page_def)
  with 1(1) 2(1,2) show ?thesis unfolding u by (intro exI[of _ m2] exI[of _ ps2]) (simp add: alloczero_umain_def UTEMP_page(1))
qed

text \<open>The handler of \<^verbatim>\<open>faultregs.c\<close> on a fault at \<^verbatim>\<open>UTEMP\<close>: it reports that all registers agree exactly when those in the
  frame are the ones before, and maps a zeroed, writable page where the access faulted.\<close>

theorem faultregs_pgfault_maps:
  assumes "accounted K k L ps" and "2 \<le> length ps" and "target k 0 (cr3 k)" and "open_tables (mem k) (cr3 k)"
    and "utf_fault_va utf = UTEMP"
  shows "\<exists>m ps' f calls. faultregs_pgfault before utf k = Inr (Return (calls, regs_of_utf utf), k\<lparr>mem := m\<rparr>)
    \<and> calls = check_regs before ''before'' (regs_of_utf utf) ''during'' ''in UTrapframe''
    \<and> accounted K (k\<lparr>mem := m\<rparr>) L ps'
    \<and> user_frame m (cr3 k) UTEMP True = Some f \<and> phys m f = (\<lambda>_. 0)"
proof -
  note n = UTEMP_page(2) and dD = target_dir[OF assms(3)]
  have perm: "(PTE_U OR PTE_P OR PTE_W) AND NOT PTE_SYSCALL = 0" by (simp add: pte_bits)
  have pw: "PTE_U OR PTE_P OR PTE_W = PTE_P OR PTE_U OR PTE_W" by (simp add: pte_bits)
  obtain p m ps1 where p: "p < 2 ^ 20" "p \<in> set ps"
    and 1: "u_page_alloc k 0 UTEMP (PTE_U OR PTE_P OR PTE_W) = Inr (Return 0, k\<lparr>mem := m\<rparr>)"
      "accounted K (k\<lparr>mem := m\<rparr>) L ps1" "remaps (mem k) m (dirs k) ps (cr3 k) 1024 (page2pa p OR (PTE_P OR PTE_U OR PTE_W))"
      "phys m p = (\<lambda>_. 0)"
    using fresh_page_at[OF assms(1-4) n perm] unfolding pw perm_PUW UTEMP_page(1)[symmetric] by blast
  have e: "entry m (cr3 k) 1024 = page2pa p OR (PTE_P OR PTE_U OR PTE_W)" using remapsD(2)[OF 1(3) dD n] by simp
  have lt: "page_va 1024 < UTOP" using good_va_user page_va(2)[OF n] by blast
  have "user_frame m (cr3 k) UTEMP True = Some p"
    unfolding UTEMP_page(1) using entry_PUW(1,2)[OF p(1)]
    by (simp add: user_frame_entry[OF remapsD(4)[OF 1(3) dD assms(4)] lt] page_va(1)[OF n] e)
  moreover have "faultregs_pgfault before utf k =
      Inr (Return (check_regs before ''before'' (regs_of_utf utf) ''during'' ''in UTrapframe'', regs_of_utf utf), k\<lparr>mem := m\<rparr>)"
    using assms(5) 1(1) by (simp add: faultregs_pgfault_def must_def Let_def)
  ultimately show ?thesis using 1(2,4) by blast
qed

section \<open>\<^verbatim>\<open>user/priorities.c\<close>\<close>

fun lower_priority :: "nat \<Rightarrow> kst \<Rightarrow> fault + (unit ctl \<times> kst)" where
  "lower_priority 0 k = Inr (Return (), k)"
| "lower_priority (Suc n) k = bindc (u_env_set_priority k) (\<lambda>_ k1. lower_priority n k1)"

text \<open>The arguments that the messages share: \<open>this\<close> is the index of \<^verbatim>\<open>thisenv\<close>.\<close>

definition env_arg :: "nat \<Rightarrow> kst \<Rightarrow> arg" where "env_arg this k = Val (env_id (envs k this))"
definition cpu_arg :: "nat \<Rightarrow> kst \<Rightarrow> arg" where "cpu_arg this k = Val (word_of_nat (env_cpunum (envs k this)))"
definition tickets_arg :: "nat \<Rightarrow> kst \<Rightarrow> arg" where "tickets_arg this k = Val (word_of_int (env_tickets (envs k this)))"

text \<open>\<open>others i\<close> is what the other environments do during the \<open>i\<close>-th yield.\<close>

fun priorities_rounds ::
    "(nat \<Rightarrow> kst \<Rightarrow> kst) \<Rightarrow> nat \<Rightarrow> nat \<Rightarrow> nat \<Rightarrow> kst \<Rightarrow> fault + ((string \<times> arg list) list ctl \<times> kst)" where
  "priorities_rounds others this 0 i k = Inr (Return [], k)"
| "priorities_rounds others this (Suc n) i k =
     chain (u_yield k) (\<lambda>(_, k1).
       let k2 = others i k1 in
       bindc (priorities_rounds others this n (i + 1) k2) (\<lambda>cs k3. Inr (Return (
         (''Back in environment %08x, iteration %d, cpu %d, and %d tickets'' @ NL,
            [env_arg this k2, Val (word_of_nat i), cpu_arg this k2, tickets_arg this k2]) # cs), k3)))"

definition priorities_umain :: "(nat \<Rightarrow> kst \<Rightarrow> kst) \<Rightarrow> nat \<Rightarrow> kst \<Rightarrow> fault + ((string \<times> arg list) list ctl \<times> kst)" where
  "priorities_umain others this k =
     (let hello = (''Hello, I am environment %08x, cpu %d'' @ NL @ '' with %d tickets'' @ NL,
                   [env_arg this k, cpu_arg this k, tickets_arg this k]);
          lowered = (\<lambda>k1. (''I am environment %08x and i lost tickets, now i have %d tickets'' @ NL,
                          [env_arg this k1, tickets_arg this k1])) in
      bindc (if env_id (envs k this) = 4096
             then bindc (lower_priority 40 k) (\<lambda>_ k1. Inr (Return [hello, lowered k1], k1))
             else Inr (Return [hello], k)) (\<lambda>cs k1.
      bindc (priorities_rounds others this 30 0 k1) (\<lambda>ds k2. Inr (Return (
        cs @ ds @ [(''All done in environment %08x, cpu %d, %d tickets'' @ NL,
                    [env_arg this k2, cpu_arg this k2, tickets_arg this k2])]), k2))))"

text \<open>An environment that gives up tickets keeps the last two, whatever it asks for.\<close>

definition tickets_after :: "nat \<Rightarrow> int \<Rightarrow> int" where
  "tickets_after n t = (if t > 2 then max 2 (t - int n) else t)"

lemma set_priority_drops:
  assumes "curenv k = Some c"
  shows "curenv (upd_env k c f) = Some c" and "\<exists>r. u_env_set_priority k = Inr (Return r, upd_env k c drop_ticket)"
proof -
  show c: "curenv (upd_env k c f) = Some c" for f using assms by (simp add: curenv_def upd_env_def)
  show "\<exists>r. u_env_set_priority k = Inr (Return r, upd_env k c drop_ticket)"
    using assms c by (simp add: u_env_set_priority_def usyscall_def syscall_def sys_numbers sys_env_set_priority_def
      sys_env_get_priority_def Let_def)
qed

lemma tickets_after_Suc:
  "(drop_ticket v)\<lparr>env_tickets := tickets_after n (env_tickets (drop_ticket v))\<rparr>
    = v\<lparr>env_tickets := tickets_after (Suc n) (env_tickets v)\<rparr>"
  by (cases v) (auto simp: drop_ticket_def tickets_after_def max_def)

theorem lower_priority_keeps_two:
  "curenv k = Some c \<Longrightarrow> lower_priority n k =
     Inr (Return (), upd_env k c (\<lambda>v. v\<lparr>env_tickets := tickets_after n (env_tickets v)\<rparr>))"
proof (induction n arbitrary: k)
  case 0
  then show ?case by (simp add: tickets_after_def upd_env_def)
next
  case (Suc n)
  obtain r where r: "u_env_set_priority k = Inr (Return r, upd_env k c drop_ticket)"
    using set_priority_drops(2)[OF Suc.prems] by blast
  from Suc.IH[OF set_priority_drops(1)[OF Suc.prems, of drop_ticket]] r show ?case
    by (simp add: upd_env_def tickets_after_Suc)
qed

end
