(* ===== verification/ShellParse.thy ===== *)
theory ShellParse
  imports Prelude
begin

text \<open>
  The command line of the shell: \<^verbatim>\<open>types.h\<close>, \<^verbatim>\<open>defs.h\<close>, \<^verbatim>\<open>utils.c\<close>, \<^verbatim>\<open>createcmd.c\<close>, \<^verbatim>\<open>freecmd.c\<close> and
  \<^verbatim>\<open>parsing.c\<close>. A buffer is the list of its characters from the pointer on to the end of its
  array, a string inside it ends at the first zero byte. Reads and writes outside an array and
  uses of a null command are faults.
\<close>

section \<open>Data (\<^verbatim>\<open>defs.h\<close>, \<^verbatim>\<open>types.h\<close>)\<close>

definition END_LINE :: char where "END_LINE = CHR 0x0A"
definition SPACE :: char where "SPACE = CHR 0x20"
definition BUFLEN :: nat where "BUFLEN = 1024"
definition PRMTLEN :: nat where "PRMTLEN = 1024"
definition MAXARGS :: nat where "MAXARGS = 20"
definition ARGSIZE :: nat where "ARGSIZE = 1024"
definition FNAMESIZE :: nat where "FNAMESIZE = 1024"
definition EXIT_SHELL :: int where "EXIT_SHELL = 1"

datatype cmd_type = EXEC | BACK | REDIR | PIPE

text \<open>The arrays \<^verbatim>\<open>argv\<close> and \<^verbatim>\<open>eargv\<close> as the lists of their entries before the null pointer;
  \<^verbatim>\<open>argc\<close> and \<^verbatim>\<open>eargc\<close> are their lengths.\<close>

record execcmd =
  ec_type :: cmd_type
  ec_pid :: int
  ec_scmd :: string
  argv :: "string list"
  eargv :: "string list"
  out_file :: string
  in_file :: string
  err_file :: string

text \<open>A command: \<^verbatim>\<open>execcmd\<close>, \<^verbatim>\<open>backcmd\<close> with its process and text, \<^verbatim>\<open>pipecmd\<close>, whose parts can be null.\<close>

datatype cmd =
    Simple execcmd
  | Back int string execcmd
  | Pipe int string "cmd option" "cmd option"

fun cmd_type_of :: "cmd \<Rightarrow> cmd_type" where
  "cmd_type_of (Simple e) = ec_type e"
| "cmd_type_of (Back _ _ _) = BACK"
| "cmd_type_of (Pipe _ _ _ _) = PIPE"

fun scmd :: "cmd \<Rightarrow> string" where
  "scmd (Simple e) = ec_scmd e"
| "scmd (Back _ s _) = s"
| "scmd (Pipe _ s _ _) = s"

fun set_pid :: "int \<Rightarrow> cmd \<Rightarrow> cmd" where
  "set_pid p (Simple e) = Simple (e\<lparr>ec_pid := p\<rparr>)"
| "set_pid p (Back _ s e) = Back p s e"
| "set_pid p (Pipe _ s l r) = Pipe p s l r"

section \<open>Helpers (\<^verbatim>\<open>utils.c\<close>)\<close>

text \<open>
  \<^verbatim>\<open>split_line\<close>: the string before the splitter (or the whole string), and the rest of the
  buffer from the first character after it that is not a space. Both scans run off the buffer
  when they find nothing to stop at.
\<close>

definition split_line :: "char list \<Rightarrow> char \<Rightarrow> fault + (string \<times> char list)" where
  "split_line buf splitter =
     (let i = length (takeWhile (\<lambda>c. c \<noteq> splitter \<and> c \<noteq> NUL) buf) in
      if i \<ge> length buf then Inl OutOfBounds
      else let rest = dropWhile (\<lambda>c. c = SPACE) (drop (Suc i) buf) in
           if rest = [] then Inl OutOfBounds else Inr (take i buf, rest))"

lemma split_line_shorter: "split_line buf c = Inr (l, r) \<Longrightarrow> length r < length buf"
  by (auto simp: split_line_def Let_def split: if_splits intro: le_less_trans[OF length_dropWhile_le])

definition block_contains :: "string \<Rightarrow> char \<Rightarrow> int" where
  "block_contains s c = (case index_of c s of None \<Rightarrow> -1 | Some i \<Rightarrow> int i)"

section \<open>Construction (\<^verbatim>\<open>createcmd.c\<close>) and release (\<^verbatim>\<open>freecmd.c\<close>)\<close>

definition exec_cmd_create :: "string \<Rightarrow> fault + execcmd" where
  "exec_cmd_create buf_cmd =
     (if length buf_cmd < BUFLEN
      then Inr \<lparr>ec_type = EXEC, ec_pid = 0, ec_scmd = buf_cmd, argv = [], eargv = [],
                out_file = [], in_file = [], err_file = []\<rparr>
      else Inl OutOfBounds)"

definition back_cmd_create :: "execcmd \<Rightarrow> cmd" where
  "back_cmd_create c = Back 0 (ec_scmd c) c"

definition pipe_cmd_create :: "cmd option \<Rightarrow> cmd option \<Rightarrow> cmd option" where
  "pipe_cmd_create left right =
     (case right of None \<Rightarrow> left | Some _ \<Rightarrow> Some (Pipe 0 [] left right))"

text \<open>\<^verbatim>\<open>free_command\<close> reads the type of every command of the tree: a null part is followed.\<close>

fun free_command :: "cmd \<Rightarrow> fault + unit" where
  "free_command (Simple e) = Inr ()"
| "free_command (Back _ _ e) = Inr ()"
| "free_command (Pipe _ _ l r) =
     chain (case l of None \<Rightarrow> Inl NullDeref | Some c \<Rightarrow> free_command c) (\<lambda>_.
       case r of None \<Rightarrow> Inl NullDeref | Some c \<Rightarrow> free_command c)"

section \<open>Parsing (\<^verbatim>\<open>parsing.c\<close>)\<close>

definition get_token :: "string \<Rightarrow> nat \<Rightarrow> fault + string" where
  "get_token buf idx =
     (let t = takeWhile (\<lambda>c. c \<noteq> SPACE) (drop idx buf) in
      if length t < ARGSIZE then Inr t else Inl OutOfBounds)"

lemma get_token_nonempty:
  "get_token buf idx = Inr t \<Longrightarrow> idx < length buf \<Longrightarrow> \<not> idx + length t < length buf \<Longrightarrow> t \<noteq> []"
  by (auto simp: get_token_def Let_def)

text \<open>The result tells whether the token was a redirection.\<close>

definition parse_redir_flow :: "execcmd \<Rightarrow> string \<Rightarrow> execcmd \<times> bool" where
  "parse_redir_flow c arg =
     (let outIdx = block_contains arg CHR ''>'' in
      if outIdx \<ge> 0 then
        ((if outIdx = 0 then c\<lparr>out_file := drop 1 arg\<rparr>
          else if outIdx = 1 then c\<lparr>err_file := drop 2 arg\<rparr> else c)\<lparr>ec_type := REDIR\<rparr>, True)
      else if block_contains arg CHR ''<'' \<ge> 0 then
        (c\<lparr>in_file := drop 1 arg, ec_type := REDIR\<rparr>, True)
      else (c, False))"

definition parse_environ_var :: "execcmd \<Rightarrow> string \<Rightarrow> fault + (execcmd \<times> bool)" where
  "parse_environ_var c arg =
     (if block_contains arg CHR ''='' > 0 \<and> block_contains arg CHR ''-'' < 0 then
        if length (eargv c) < MAXARGS then Inr (c\<lparr>eargv := eargv c @ [arg]\<rparr>, True) else Inl OutOfBounds
      else Inr (c, False))"

text \<open>Decimal digits, for \<^verbatim>\<open>sprintf(arg, "%d", status)\<close>.\<close>

fun dec_digits :: "nat \<Rightarrow> string" where
  "dec_digits n = (if n < 10 then [char_of (48 + n)] else dec_digits (n div 10) @ [char_of (48 + n mod 10)])"

definition show_int :: "int \<Rightarrow> string" where
  "show_int i = (if i < 0 then CHR ''-'' # dec_digits (nat (- i)) else dec_digits (nat i))"

definition expand_environ_var :: "(string \<Rightarrow> string option) \<Rightarrow> int \<Rightarrow> string \<Rightarrow> string" where
  "expand_environ_var getenv status arg =
     (if arg = [] \<or> hd arg \<noteq> CHR ''$'' \<or> length arg = 1 then arg
      else if arg ! 1 = CHR ''?'' then show_int status
      else case getenv (drop 1 arg) of None \<Rightarrow> [] | Some v \<Rightarrow> v)"

text \<open>One token of the loop of \<^verbatim>\<open>parse_exec\<close>.\<close>

definition parse_token ::
    "(string \<Rightarrow> string option) \<Rightarrow> int \<Rightarrow> execcmd \<Rightarrow> string \<Rightarrow> fault + execcmd" where
  "parse_token getenv status c tok =
     (let (c1, redir) = parse_redir_flow c tok in
      if redir then Inr c1
      else chain (parse_environ_var c1 tok) (\<lambda>(c2, envvar).
        if envvar then Inr c2
        else let t = expand_environ_var getenv status tok in
          if t = [] then Inr c2
          else if length (argv c2) < MAXARGS then Inr (c2\<lparr>argv := argv c2 @ [t]\<rparr>) else Inl OutOfBounds))"

text \<open>The loop: a token, then past the space after it.\<close>

function parse_exec_loop ::
    "(string \<Rightarrow> string option) \<Rightarrow> int \<Rightarrow> string \<Rightarrow> nat \<Rightarrow> execcmd \<Rightarrow> fault + execcmd" where
  "parse_exec_loop getenv status buf idx c =
     (if idx \<ge> length buf then Inr c
      else chain (get_token buf idx) (\<lambda>tok.
        let i1 = idx + length tok;
            i2 = (if i1 < length buf then i1 + 1 else i1) in
        chain (parse_token getenv status c tok) (\<lambda>c1. parse_exec_loop getenv status buf i2 c1)))"
  by pat_completeness auto
termination by (relation "measure (\<lambda>(_, _, buf, idx, _). length buf - idx)") (auto simp: get_token_nonempty)

declare parse_exec_loop.simps [simp del]

definition parse_exec :: "(string \<Rightarrow> string option) \<Rightarrow> int \<Rightarrow> string \<Rightarrow> fault + execcmd" where
  "parse_exec getenv status buf_cmd =
     chain (exec_cmd_create buf_cmd) (\<lambda>c.
     chain (parse_exec_loop getenv status buf_cmd 0 c) (\<lambda>c1.
       if length (argv c1) < MAXARGS then Inr c1 else Inl OutOfBounds))"

definition parse_back :: "(string \<Rightarrow> string option) \<Rightarrow> int \<Rightarrow> string \<Rightarrow> fault + cmd" where
  "parse_back getenv status buf_cmd =
     chain (parse_exec getenv status (takeWhile (\<lambda>c. c \<noteq> CHR ''&'') buf_cmd)) (\<lambda>e. Inr (back_cmd_create e))"

text \<open>
  \<open>before\<close> is the character in front of the string when it lies in the same array: the code
  reads it when \<^verbatim>\<open>&\<close> is the first character.
\<close>

definition parse_cmd ::
    "(string \<Rightarrow> string option) \<Rightarrow> int \<Rightarrow> char option \<Rightarrow> string \<Rightarrow> fault + cmd option" where
  "parse_cmd getenv status before buf_cmd =
     (if buf_cmd = [] then Inr None
      else chain
        (case index_of CHR ''&'' buf_cmd of
           None \<Rightarrow> Inr False
         | Some 0 \<Rightarrow> (case before of None \<Rightarrow> Inl OutOfBounds | Some c \<Rightarrow> Inr (c \<noteq> CHR ''>''))
         | Some (Suc i) \<Rightarrow> Inr (buf_cmd ! i \<noteq> CHR ''>''))
        (\<lambda>back. if back then chain (parse_back getenv status buf_cmd) (\<lambda>c. Inr (Some c))
                else chain (parse_exec getenv status buf_cmd) (\<lambda>e. Inr (Some (Simple e)))))"

text \<open>
  \<^verbatim>\<open>parse_line\<close>: the right part first, recursively while it holds another \<^verbatim>\<open>|\<close>. In front of
  the right part stands the zero byte written over the bar, or a skipped space.
\<close>

function parse_line ::
    "(string \<Rightarrow> string option) \<Rightarrow> int \<Rightarrow> char option \<Rightarrow> char list \<Rightarrow> fault + cmd option" where
  "parse_line getenv status before buf =
     (case split_line buf CHR ''|'' of
        Inl e \<Rightarrow> Inl e
      | Inr (left, rest) \<Rightarrow>
          chain (if block_contains (cstr rest) CHR ''|'' \<noteq> -1
                 then parse_line getenv status (Some SPACE) rest
                 else parse_cmd getenv status (Some SPACE) (cstr rest)) (\<lambda>r.
          chain (parse_cmd getenv status before left) (\<lambda>l. Inr (pipe_cmd_create l r))))"
  by pat_completeness auto
termination by (relation "measure (\<lambda>(_, _, _, buf). length buf)") (auto simp: split_line_shorter)

declare parse_line.simps [simp del]

end
