(* ===== verification/ShellExec.thy ===== *)
theory ShellExec
  imports ShellParse "HOL-Library.Word"
begin

unbundle bit_operations_syntax

text \<open>
  Running commands: \<^verbatim>\<open>exec.c\<close>, \<^verbatim>\<open>builtin.c\<close>, \<^verbatim>\<open>printstatus.c\<close>, \<^verbatim>\<open>readline.c\<close>, \<^verbatim>\<open>runcmd.c\<close> and \<^verbatim>\<open>sh.c\<close>. A process
  is its environment and its table of open descriptors; \<^verbatim>\<open>exec_cmd\<close> never returns, so its
  result is the tree of processes it turns into. The operating system is a parameter: which
  opens, pipes, forks and program starts succeed, and where a change of directory leads.
\<close>

section \<open>Processes\<close>

datatype open_mode = RdOnly | CreatTruncRdWr

text \<open>What a descriptor refers to: an inherited stream, a file, or an end of the pipe that the
  process at a place of the tree made.\<close>

datatype chan = Inherited nat | FileAt string open_mode | PipeRead "nat list" | PipeWrite "nat list"

record proc =
  penv :: "string \<Rightarrow> string option"
  fds :: "nat \<Rightarrow> chan option"

record osys =
  open_ok :: "string \<Rightarrow> open_mode \<Rightarrow> bool"
  exec_ok :: "string \<Rightarrow> bool"
  pipe_ok :: "nat list \<Rightarrow> bool"
  fork_ok :: "nat list \<Rightarrow> nat \<Rightarrow> bool"

text \<open>What becomes of a process: a program started with its arguments, an exit with a code, or
  a pipe process with its descriptors while it waits, the numbers of the children it waits for, in order (0 is the left
  one), and the two children; it then exits with 0, which also gives back its copy of the command.\<close>

datatype ptree =
    Started "string list" proc
  | Exited int
  | Piped proc "nat list" ptree ptree
  | ForkFailed ptree int

text \<open>Descriptors are handed out from the lowest free one; \<open>n\<close> bounds the search, as the table
  of the system bounds it.\<close>

definition lowest_free :: "(nat \<Rightarrow> chan option) \<Rightarrow> nat" where
  "lowest_free t = (case scan (\<lambda>_. True) (\<lambda>i. t i = None) [0..<1024] of Some i \<Rightarrow> i | None \<Rightarrow> 1024)"

definition open_fd :: "proc \<Rightarrow> chan \<Rightarrow> nat \<times> proc" where
  "open_fd p c = (let i = lowest_free (fds p) in (i, p\<lparr>fds := (fds p)(i \<mapsto> c)\<rparr>))"

definition dup2 :: "proc \<Rightarrow> nat \<Rightarrow> nat \<Rightarrow> proc" where
  "dup2 p a b = (case fds p a of None \<Rightarrow> p | Some c \<Rightarrow> p\<lparr>fds := (fds p)(b \<mapsto> c)\<rparr>)"

definition close_fd :: "proc \<Rightarrow> nat \<Rightarrow> proc" where
  "close_fd p a = p\<lparr>fds := (fds p)(a := None)\<rparr>"

section \<open>Environment variables (\<^verbatim>\<open>exec.c\<close>)\<close>

text \<open>The scan for \<^verbatim>\<open>=\<close> has no other bound; every string in \<^verbatim>\<open>eargv\<close> has one.\<close>

definition get_environ_key :: "string \<Rightarrow> fault + string" where
  "get_environ_key arg =
     (case index_of CHR ''='' arg of None \<Rightarrow> Inl OutOfBounds | Some i \<Rightarrow> Inr (take i arg))"

definition get_environ_value :: "string \<Rightarrow> int \<Rightarrow> string" where
  "get_environ_value arg idx = drop (nat (idx + 1)) arg"

fun set_environ_vars :: "proc \<Rightarrow> string list \<Rightarrow> fault + proc" where
  "set_environ_vars p [] = Inr p"
| "set_environ_vars p (a # as) =
     chain (get_environ_key a) (\<lambda>clave.
       let valor = get_environ_value a (block_contains a CHR ''='') in
       set_environ_vars (p\<lparr>penv := (penv p)(clave \<mapsto> valor)\<rparr>) as)"

section \<open>Execution\<close>

text \<open>\<^verbatim>\<open>open_redir_fd\<close>: the process exits when the file cannot be opened.\<close>

definition open_redir_fd :: "osys \<Rightarrow> proc \<Rightarrow> string \<Rightarrow> open_mode \<Rightarrow> ptree + (nat \<times> proc)" where
  "open_redir_fd os p name flags =
     (if open_ok os name flags then Inr (open_fd p (FileAt name flags)) else Inl (Exited (-1)))"

text \<open>Open the file, put it in place of a standard stream, close the extra descriptor.\<close>

definition redirect :: "osys \<Rightarrow> proc \<Rightarrow> string \<Rightarrow> open_mode \<Rightarrow> nat \<Rightarrow> ptree + proc" where
  "redirect os p name flags target =
     (if name = [] then Inr p
      else chain (open_redir_fd os p name flags) (\<lambda>(fd, p1). Inr (close_fd (dup2 p1 fd target) fd)))"

definition redirect_err :: "osys \<Rightarrow> proc \<Rightarrow> string \<Rightarrow> ptree + proc" where
  "redirect_err os p name =
     (if name = ''&1'' then Inr (dup2 p 1 2) else redirect os p name CreatTruncRdWr 2)"

definition execvp :: "osys \<Rightarrow> proc \<Rightarrow> string list \<Rightarrow> ptree" where
  "execvp os p args =
     (case args of [] \<Rightarrow> Exited (-1) | a # _ \<Rightarrow> if exec_ok os a then Started args p else Exited (-1))"

definition exec_simple :: "osys \<Rightarrow> proc \<Rightarrow> execcmd \<Rightarrow> fault + ptree" where
  "exec_simple os p e =
     chain (set_environ_vars p (eargv e)) (\<lambda>p1. Inr (execvp os p1 (argv e)))"

definition exec_redir :: "osys \<Rightarrow> proc \<Rightarrow> execcmd \<Rightarrow> fault + ptree" where
  "exec_redir os p r =
     chain (set_environ_vars p (eargv r)) (\<lambda>p1. Inr
       (case chain (redirect os p1 (out_file r) CreatTruncRdWr 1) (\<lambda>p2.
             chain (redirect os p2 (in_file r) RdOnly 0) (\<lambda>p3.
             redirect_err os p3 (err_file r))) of
          Inl t \<Rightarrow> t
        | Inr p4 \<Rightarrow> execvp os p4 (argv r)))"

text \<open>\<open>at\<close> is the place of the process in the tree; its pipe is named after it.\<close>

fun exec_cmd :: "osys \<Rightarrow> nat list \<Rightarrow> proc \<Rightarrow> cmd option \<Rightarrow> fault + ptree" where
  "exec_cmd os at p None = Inl NullDeref"
| "exec_cmd os at p (Some (Simple e)) =
     (if ec_type e = REDIR then exec_redir os p e else exec_simple os p e)"
| "exec_cmd os at p (Some (Back _ _ e)) = exec_simple os p e"
| "exec_cmd os at p (Some (Pipe _ _ l r)) =
     (if \<not> pipe_ok os at then Inr (Exited (-1))
      else
        let (rd, p1) = open_fd p (PipeRead at);
            (wr, p2) = open_fd p1 (PipeWrite at) in
        if \<not> fork_ok os at 0 then Inr (Exited (-1))
        else chain (exec_cmd os (at @ [0]) (close_fd (close_fd (dup2 p2 wr 1) wr) rd) l) (\<lambda>tl.
          if \<not> fork_ok os at 1 then Inr (ForkFailed tl (-1))
          else chain (exec_cmd os (at @ [1]) (close_fd (close_fd (dup2 p2 rd 0) wr) rd) r) (\<lambda>tr.
            Inr (Piped (close_fd (close_fd p2 wr) rd) [0, 1] tl tr))))"

section \<open>The status of a child (\<^verbatim>\<open>printstatus.c\<close>)\<close>

definition WTERMSIG :: "int \<Rightarrow> int" where "WTERMSIG s = s AND 0x7f"
definition WEXITSTATUS :: "int \<Rightarrow> int" where "WEXITSTATUS s = drop_bit 8 (s AND 0xff00)"
definition WIFEXITED :: "int \<Rightarrow> bool" where "WIFEXITED s \<longleftrightarrow> WTERMSIG s = 0"
definition WIFSIGNALED :: "int \<Rightarrow> bool" where
  "WIFSIGNALED s \<longleftrightarrow> 0 < WTERMSIG s \<and> WTERMSIG s < 0x7f"

definition print_status_info :: "int \<Rightarrow> cmd \<Rightarrow> int" where
  "print_status_info status c =
     (if scmd c = [] \<or> cmd_type_of c = PIPE then status
      else if WIFEXITED status then WEXITSTATUS status
      else if WIFSIGNALED status then - WTERMSIG status
      else if WTERMSIG status \<noteq> 0 then - WEXITSTATUS status
      else status)"

section \<open>Built-in commands (\<^verbatim>\<open>builtin.c\<close>)\<close>

text \<open>The shell: prompt, directory, last status and environment. \<open>chdir dir target\<close> is the new
  directory, None when the change fails.\<close>

record shell =
  prompt :: string
  cwd :: string
  status :: int
  sh_env :: "string \<Rightarrow> string option"

type_synonym chdir_fn = "string \<Rightarrow> string \<Rightarrow> string option"

text \<open>\<^verbatim>\<open>snprintf (prompt, sizeof prompt, "(%s)", s)\<close>.\<close>

definition prompt_of :: "string \<Rightarrow> string" where
  "prompt_of s = take (PRMTLEN - 1) (CHR ''('' # s @ '')'')"

text \<open>A built-in answers whether it ran (with the new shell) or ends the process.\<close>

datatype builtin = Ran bool shell | Ends int

definition exit_shell :: "string \<Rightarrow> bool" where
  "exit_shell c \<longleftrightarrow> c = ''exit''"

definition history :: "string \<Rightarrow> bool" where
  "history c = False"

definition pwd :: "string \<Rightarrow> bool" where
  "pwd c \<longleftrightarrow> c = ''pwd''"

definition cd :: "chdir_fn \<Rightarrow> shell \<Rightarrow> string \<Rightarrow> fault + builtin" where
  "cd chdir sh c =
     (if take 2 c \<noteq> ''cd'' then Inr (Ran False sh)
      else if length c = 2 \<or> (c ! 2 = SPACE \<and> length c = 4) then
        (case sh_env sh ''HOME'' of
           None \<Rightarrow> Inr (Ends (-1))
         | Some home \<Rightarrow>
             (case chdir (cwd sh) home of
                None \<Rightarrow> Inr (Ends (-1))
              | Some d \<Rightarrow> Inr (Ran True (sh\<lparr>cwd := d, prompt := prompt_of home\<rparr>))))
      else if c ! 2 = SPACE \<and> length c > 4 then
        chain (split_line (c @ [NUL]) SPACE) (\<lambda>(izq, der).
          case chdir (cwd sh) (cstr der) of
            None \<Rightarrow> Inr (Ran False sh)
          | Some d \<Rightarrow> if length d < 1024 then Inr (Ran True (sh\<lparr>cwd := d, prompt := prompt_of d\<rparr>))
                      else Inr (Ends (-1)))
      else Inr (Ran False sh))"

section \<open>One command (\<^verbatim>\<open>runcmd.c\<close>)\<close>

text \<open>\<open>child\<close> is the process tree the fork makes, \<open>wstatus\<close> what \<^verbatim>\<open>waitpid\<close> stores, \<open>pid\<close> the child.\<close>

datatype run_result =
    Continue shell
  | ExitShell shell
  | ShellEnds int
  | Spawned shell cmd ptree

definition shell_proc :: "shell \<Rightarrow> proc" where
  "shell_proc sh = \<lparr>penv = sh_env sh, fds = (\<lambda>i. if i < 3 then Some (Inherited i) else None)\<rparr>"

definition spawn :: "osys \<Rightarrow> int \<Rightarrow> int \<Rightarrow> shell \<Rightarrow> cmd \<Rightarrow> fault + run_result" where
  "spawn os pid wstatus sh parsed =
     chain (exec_cmd os [] (shell_proc sh) (Some parsed)) (\<lambda>child.
       let parsed1 = set_pid pid parsed;
           sh1 = (if cmd_type_of parsed1 = BACK then sh
                  else sh\<lparr>status := print_status_info wstatus parsed1\<rparr>) in
       chain (free_command parsed1) (\<lambda>_. Inr (Spawned sh1 parsed1 child)))"

definition run_cmd ::
    "osys \<Rightarrow> chdir_fn \<Rightarrow> int \<Rightarrow> int \<Rightarrow> shell \<Rightarrow> char list \<Rightarrow> fault + run_result" where
  "run_cmd os chdir pid wstatus sh buf =
     (let c = cstr buf in
      if c = [] then Inr (Continue sh)
      else if history c then Inr (Continue sh)
      else chain (cd chdir sh c) (\<lambda>b.
        case b of
          Ends code \<Rightarrow> Inr (ShellEnds code)
        | Ran True sh1 \<Rightarrow> Inr (Continue sh1)
        | Ran False sh1 \<Rightarrow>
            if exit_shell c then Inr (ExitShell sh1)
            else if pwd c then Inr (Continue sh1)
            else chain (parse_line (sh_env sh1) (status sh1) None buf) (\<lambda>parsed.
              case parsed of
                None \<Rightarrow> Inl NullDeref
              | Some p \<Rightarrow> spawn os pid wstatus sh1 p)))"

section \<open>Reading lines (\<^verbatim>\<open>readline.c\<close>) and the main loop (\<^verbatim>\<open>sh.c\<close>)\<close>

text \<open>The input as the characters before its end; the line with the rest, None at the end of the
  input. A line that does not fit in the buffer is written past its end.\<close>

definition read_line :: "string \<Rightarrow> fault + (char list \<times> string) option" where
  "read_line inp =
     (let l = takeWhile (\<lambda>c. c \<noteq> END_LINE) inp; rest = drop (length l) inp in
      if rest = [] then (if length l \<le> BUFLEN then Inr None else Inl OutOfBounds)
      else if length l < BUFLEN then Inr (Some (l @ replicate (BUFLEN - length l) NUL, tl rest))
      else Inl OutOfBounds)"

definition init_shell :: "chdir_fn \<Rightarrow> shell \<Rightarrow> shell" where
  "init_shell chdir sh =
     (case sh_env sh ''HOME'' of
        None \<Rightarrow> sh
      | Some home \<Rightarrow> (case chdir (cwd sh) home of
                        None \<Rightarrow> sh | Some d \<Rightarrow> sh\<lparr>cwd := d, prompt := prompt_of home\<rparr>))"

text \<open>The loop over at most \<open>n\<close> lines; \<open>waits k\<close> is the outcome of the \<open>k\<close>-th child. The end of the
  input and \<^verbatim>\<open>exit\<close> return; the result keeps the process trees in order.\<close>

fun run_shell ::
    "osys \<Rightarrow> chdir_fn \<Rightarrow> (nat \<Rightarrow> int \<times> int) \<Rightarrow> nat \<Rightarrow> shell \<Rightarrow> string \<Rightarrow> fault + (shell \<times> ptree list) option" where
  "run_shell os chdir waits 0 sh inp = Inr None"
| "run_shell os chdir waits (Suc n) sh inp =
     chain (read_line inp) (\<lambda>l.
       case l of
         None \<Rightarrow> Inr (Some (sh, []))
       | Some (buf, rest) \<Rightarrow>
           chain (run_cmd os chdir (fst (waits n)) (snd (waits n)) sh buf) (\<lambda>r.
             case r of
               ExitShell sh1 \<Rightarrow> Inr (Some (sh1, []))
             | ShellEnds _ \<Rightarrow> Inr (Some (sh, []))
             | Continue sh1 \<Rightarrow> run_shell os chdir waits n sh1 rest
             | Spawned sh1 _ t \<Rightarrow>
                 chain (run_shell os chdir waits n sh1 rest) (\<lambda>res.
                   Inr (map_option (\<lambda>(s, ts). (s, t # ts)) res))))"

end
