(* ===== verification/ShellProps.thy ===== *)
theory ShellProps
  imports ShellExec
begin

text \<open>
  Properties of the shell: a line with bars parses to the pipeline of its stages and runs with
  every stage connected to its neighbours and nothing else, the environment assignments of a
  command, how a redirection is read from the place of its sign, and the inputs that go wrong.
\<close>

section \<open>Pipelines\<close>

fun pipeline :: "execcmd list \<Rightarrow> cmd option" where
  "pipeline [] = None"
| "pipeline [e] = Some (Simple e)"
| "pipeline (e # es) = Some (Pipe 0 [] (Some (Simple e)) (pipeline es))"

fun stages :: "ptree \<Rightarrow> (string list \<times> (nat \<Rightarrow> chan option)) list" where
  "stages (Started a p) = [(a, fds p)]"
| "stages (Exited _) = []"
| "stages (Piped _ _ l r) = stages l @ stages r"
| "stages (ForkFailed l _) = stages l"

text \<open>All processes with their descriptors, those that only wait included, and the commands that must have ended
  before the process itself ends.\<close>

fun alive :: "ptree \<Rightarrow> (nat \<Rightarrow> chan option) list" where
  "alive (Started _ p) = [fds p]"
| "alive (Exited _) = []"
| "alive (Piped p _ l r) = fds p # alive l @ alive r"
| "alive (ForkFailed l _) = alive l"

fun awaited :: "ptree \<Rightarrow> (string list \<times> (nat \<Rightarrow> chan option)) list" where
  "awaited (Started a p) = [(a, fds p)]"
| "awaited (Exited _) = []"
| "awaited (Piped _ ws l r) = (if 0 \<in> set ws then awaited l else []) @ (if 1 \<in> set ws then awaited r else [])"
| "awaited (ForkFailed _ _) = []"

text \<open>The processes that hold a channel.\<close>

definition holders :: "chan \<Rightarrow> (nat \<Rightarrow> chan option) list \<Rightarrow> (nat \<Rightarrow> chan option) list" where
  "holders c fs = filter (\<lambda>f. c \<in> ran f) fs"

text \<open>The descriptors of a process with the three standard streams and nothing else.\<close>

definition std_fds :: "chan \<Rightarrow> chan \<Rightarrow> nat \<Rightarrow> chan option" where
  "std_fds i o' = (\<lambda>n. if n = 0 then Some i else if n = 1 then Some o' else if n = 2 then Some (Inherited 2) else None)"

lemma lowest_free_eq:
  assumes "t n = None" and "\<And>i. i < n \<Longrightarrow> t i \<noteq> None" and "n < 1024"
  shows "lowest_free t = n"
proof -
  from scan_hit_upt[of 0 n 1024 "\<lambda>i. t i = None" "\<lambda>_. True"] assms(1,3)
  obtain i where i: "scan (\<lambda>_. True) (\<lambda>i. t i = None) [0..<1024] = Some i" "i \<le> n" by auto
  from scan_first[OF i(1)] assms(2)[of i] i(2) have "i = n" by fastforce
  with i(1) show ?thesis by (simp add: lowest_free_def)
qed

lemma pipe_fds:
  assumes "fds p = std_fds i o'"
  shows "open_fd p a = (3, p\<lparr>fds := (fds p)(3 \<mapsto> a)\<rparr>)"
    and "open_fd (p\<lparr>fds := (fds p)(3 \<mapsto> a)\<rparr>) b = (4, p\<lparr>fds := (fds p)(3 \<mapsto> a, 4 \<mapsto> b)\<rparr>)"
proof -
  have "lowest_free (fds p) = 3"
    by (rule lowest_free_eq) (auto simp: assms std_fds_def numeral_eq_Suc less_Suc_eq)
  then show "open_fd p a = (3, p\<lparr>fds := (fds p)(3 \<mapsto> a)\<rparr>)" by (simp add: open_fd_def)
  have "lowest_free ((fds p)(3 \<mapsto> a)) = 4"
    by (rule lowest_free_eq) (auto simp: assms std_fds_def numeral_eq_Suc less_Suc_eq)
  then show "open_fd (p\<lparr>fds := (fds p)(3 \<mapsto> a)\<rparr>) b = (4, p\<lparr>fds := (fds p)(3 \<mapsto> a, 4 \<mapsto> b)\<rparr>)"
    by (simp add: open_fd_def)
qed

text \<open>The stages of a pipeline from place \<open>at\<close>, reading from \<open>i\<close>.\<close>

fun wired :: "nat list \<Rightarrow> chan \<Rightarrow> execcmd list \<Rightarrow> (string list \<times> (nat \<Rightarrow> chan option)) list" where
  "wired at i [] = []"
| "wired at i [e] = [(argv e, std_fds i (Inherited 1))]"
| "wired at i (e # es) = (argv e, std_fds i (PipeWrite at)) # wired (at @ [1]) (PipeRead at) es"

text \<open>All processes of such a pipeline: before each stage but the last, the process that has made its pipe.\<close>

fun wired_alive :: "nat list \<Rightarrow> chan \<Rightarrow> execcmd list \<Rightarrow> (nat \<Rightarrow> chan option) list" where
  "wired_alive at i [] = []"
| "wired_alive at i [e] = [std_fds i (Inherited 1)]"
| "wired_alive at i (e # es) =
     std_fds i (Inherited 1) # std_fds i (PipeWrite at) # wired_alive (at @ [1]) (PipeRead at) es"

definition plain :: "osys \<Rightarrow> execcmd \<Rightarrow> bool" where
  "plain os e \<longleftrightarrow> ec_type e \<noteq> REDIR \<and> eargv e = [] \<and> argv e \<noteq> [] \<and> exec_ok os (hd (argv e))"

lemma exec_plain:
  "plain os e \<Longrightarrow> exec_cmd os at p (Some (Simple e)) = Inr (Started (argv e) p)"
  by (cases "argv e") (simp_all add: plain_def exec_simple_def execvp_def)

lemma exec_pipeline:
  assumes "es \<noteq> []" and "\<forall>e\<in>set es. plain os e" and "\<And>a. pipe_ok os a" and "\<And>a n. fork_ok os a n"
    and "fds p = std_fds i (Inherited 1)"
  shows "\<exists>t. exec_cmd os at p (pipeline es) = Inr t \<and> stages t = wired at i es
    \<and> awaited t = wired at i es \<and> alive t = wired_alive at i es"
  using assms
proof (induction es arbitrary: at p i rule: pipeline.induct)
  case 1
  then show ?case by simp
next
  case (2 e)
  then have "exec_cmd os at p (pipeline [e]) = Inr (Started (argv e) p)" by (simp add: exec_plain del: exec_cmd.simps)
  with "2.prems"(5) show ?case by (intro exI[of _ "Started (argv e) p"]) simp
next
  case (3 e e' es)
  let ?p2 = "p\<lparr>fds := (fds p)(3 \<mapsto> PipeRead at, 4 \<mapsto> PipeWrite at)\<rparr>"
  let ?l = "close_fd (close_fd (dup2 ?p2 4 1) 4) 3"
  let ?r = "close_fd (close_fd (dup2 ?p2 3 0) 4) 3"
  have l: "fds ?l = std_fds i (PipeWrite at)"
    by (simp add: close_fd_def dup2_def "3.prems"(5)) (auto simp: std_fds_def)
  have r: "fds ?r = std_fds (PipeRead at) (Inherited 1)"
    by (simp add: close_fd_def dup2_def "3.prems"(5)) (auto simp: std_fds_def)
  obtain tr where tr: "exec_cmd os (at @ [1]) ?r (pipeline (e' # es)) = Inr tr"
    "stages tr = wired (at @ [1]) (PipeRead at) (e' # es)" "awaited tr = wired (at @ [1]) (PipeRead at) (e' # es)"
    "alive tr = wired_alive (at @ [1]) (PipeRead at) (e' # es)"
    using "3.IH"[of ?r "PipeRead at" "at @ [1]"] "3.prems" r by auto
  let ?p = "close_fd (close_fd ?p2 4) 3"
  have p: "fds ?p = std_fds i (Inherited 1)"
    by (simp add: close_fd_def "3.prems"(5)) (auto simp: std_fds_def)
  have "exec_cmd os at p (pipeline (e # e' # es)) = Inr (Piped ?p [0, 1] (Started (argv e) ?l) tr)"
    using "3.prems"(2-4) tr(1)
    by (simp add: pipe_fds[OF "3.prems"(5)] exec_plain del: fun_upd_apply exec_cmd.simps(2))
  then show ?case using tr(2-4) l p by simp
qed

section \<open>Parsing pipelines\<close>

definition stage_text :: "string \<Rightarrow> bool" where
  "stage_text s \<longleftrightarrow> s \<noteq> [] \<and> hd s \<noteq> SPACE \<and> CHR ''|'' \<notin> set s \<and> CHR ''&'' \<notin> set s \<and> NUL \<notin> set s"

fun joined :: "string list \<Rightarrow> string" where
  "joined [] = []"
| "joined [s] = s"
| "joined (s # ss) = s @ CHR ''|'' # joined ss"

lemma split_line_bar:
  assumes "CHR ''|'' \<notin> set s" and "NUL \<notin> set s" and "r \<noteq> []" and "hd r \<noteq> SPACE"
  shows "split_line (s @ CHR ''|'' # r) CHR ''|'' = Inr (s, r)"
proof -
  have t: "takeWhile (\<lambda>c. c \<noteq> CHR ''|'' \<and> c \<noteq> NUL) (s @ CHR ''|'' # r) = s"
    using assms(1,2) by (subst takeWhile_append2) auto
  have "dropWhile (\<lambda>c. c = SPACE) r = r" using assms(3,4) by (cases r) auto
  then show ?thesis using assms(3) by (simp add: split_line_def t Let_def)
qed

lemma split_line_end:
  assumes "CHR ''|'' \<notin> set s" and "NUL \<notin> set s"
  shows "split_line (s @ NUL # NUL # z) CHR ''|'' = Inr (s, NUL # z)"
proof -
  have t: "takeWhile (\<lambda>c. c \<noteq> CHR ''|'' \<and> c \<noteq> NUL) (s @ NUL # NUL # z) = s"
    using assms by (subst takeWhile_append2) auto
  show ?thesis by (simp add: split_line_def t Let_def SPACE_def)
qed

lemma block_contains_none: "block_contains s c = -1 \<longleftrightarrow> c \<notin> set s"
  by (auto simp: block_contains_def index_of_None split: option.splits) (metis index_of_None option.distinct(1))

lemma parse_cmd_stage:
  assumes "stage_text s" and "parse_exec g st s = Inr e"
  shows "parse_cmd g st b s = Inr (Some (Simple e))"
proof -
  have "index_of CHR ''&'' s = None" using assms(1) by (simp add: index_of_None stage_text_def)
  then show ?thesis using assms by (simp add: parse_cmd_def stage_text_def)
qed

lemma joined_start: "\<forall>s\<in>set ss. stage_text s \<Longrightarrow> ss \<noteq> [] \<Longrightarrow> joined ss \<noteq> [] \<and> hd (joined ss) \<noteq> SPACE \<and> NUL \<notin> set (joined ss)"
  by (induction ss rule: joined.induct) (auto simp: stage_text_def)

lemma joined_bar: "\<forall>s\<in>set ss. stage_text s \<Longrightarrow> CHR ''|'' \<in> set (joined ss) \<longleftrightarrow> 2 \<le> length ss"
  by (induction ss rule: joined.induct) (auto simp: stage_text_def)

text \<open>C18: A line made of stages between bars (each stage without \<^verbatim>\<open>|\<close>, \<^verbatim>\<open>&\<close> and a leading space)
  parses to the right-nested pipeline of its stages in order, each parsed on its own; with one
  stage it is the plain command. The rest of the line buffer is zero, as \<^verbatim>\<open>read_line\<close> leaves it.\<close>

theorem parse_line_pipeline:
  assumes "ss \<noteq> []" and "\<forall>s\<in>set ss. stage_text s"
    and "list_all2 (\<lambda>s e. parse_exec g st s = Inr e) ss es"
  shows "parse_line g st b (joined ss @ NUL # NUL # z) = Inr (pipeline es)"
  using assms
proof (induction ss arbitrary: es b rule: joined.induct)
  case 1
  then show ?case by simp
next
  case (2 s)
  then obtain e where e: "es = [e]" "parse_exec g st s = Inr e" "stage_text s"
    by (auto simp: list_all2_Cons1)
  then have "split_line (s @ NUL # NUL # z) CHR ''|'' = Inr (s, NUL # z)"
    by (intro split_line_end) (simp_all add: stage_text_def)
  moreover have "block_contains [] CHR ''|'' = -1" by (simp add: block_contains_none)
  moreover have "parse_cmd g st c [] = Inr None" for c by (simp add: parse_cmd_def)
  ultimately show ?case using e parse_cmd_stage[OF e(3,2)]
    by (subst parse_line.simps) (simp add: pipe_cmd_create_def)
next
  case (3 s s' ss)
  let ?rest = "joined (s' # ss) @ NUL # NUL # z"
  from "3.prems"(3) obtain e e' es' where es: "es = e # e' # es'" "parse_exec g st s = Inr e"
    "list_all2 (\<lambda>s e. parse_exec g st s = Inr e) (s' # ss) (e' # es')"
    by (auto simp: list_all2_Cons1)
  have st: "stage_text s" "\<forall>s\<in>set (s' # ss). stage_text s" using "3.prems"(2) by auto
  note j = joined_start[OF st(2)]
  have sp: "split_line (joined (s # s' # ss) @ NUL # NUL # z) CHR ''|'' = Inr (s, ?rest)"
    using split_line_bar[of s ?rest] st(1) j by (simp add: stage_text_def)
  have c: "cstr ?rest = joined (s' # ss)" using j by (simp add: cstr_append_NUL)
  have r: "(if block_contains (cstr ?rest) CHR ''|'' \<noteq> -1 then parse_line g st (Some SPACE) ?rest
      else parse_cmd g st (Some SPACE) (cstr ?rest)) = Inr (pipeline (e' # es'))"
  proof (cases ss)
    case Nil
    have "stage_text s'" using st(2) by simp
    then have "block_contains (cstr ?rest) CHR ''|'' = -1"
      unfolding c block_contains_none using Nil by (simp add: stage_text_def)
    moreover have "es' = []" "parse_exec g st s' = Inr e'" using es(3) Nil by auto
    ultimately show ?thesis using parse_cmd_stage[OF \<open>stage_text s'\<close>, of g st e'] c Nil by simp
  next
    case (Cons s'' ss')
    have "block_contains (cstr ?rest) CHR ''|'' \<noteq> -1"
      unfolding c block_contains_none using joined_bar[OF st(2)] Cons by simp
    then show ?thesis using "3.IH"[OF _ st(2) es(3)] by simp
  qed
  show ?case
    by (subst parse_line.simps) (simp only: sp sum.case prod.case r chain_Inr parse_cmd_stage[OF st(1) es(2)],
        simp add: pipe_cmd_create_def es(1) split: option.split, cases es', simp_all)
qed

text \<open>Two stages of the examples.\<close>

definition demo_exec :: "string \<Rightarrow> string list \<Rightarrow> execcmd" where
  "demo_exec s args = \<lparr>ec_type = EXEC, ec_pid = 0, ec_scmd = s, argv = args, eargv = [],
     out_file = [], in_file = [], err_file = []\<rparr>"

lemma parse_line_pipeline_witness:
  "parse_line (\<lambda>_. None) 0 None (''ls -l|wc'' @ [NUL, NUL]) =
     Inr (pipeline [demo_exec ''ls -l'' [''ls'', ''-l''], demo_exec ''wc'' [''wc'']])"
proof -
  have 1: "parse_exec (\<lambda>_. None) 0 ''ls -l'' = Inr (demo_exec ''ls -l'' [''ls'', ''-l''])" by code_simp
  have 2: "parse_exec (\<lambda>_. None) 0 ''wc'' = Inr (demo_exec ''wc'' [''wc''])" by code_simp
  have "\<forall>s\<in>set [''ls -l'', ''wc'']. stage_text s" by (simp add: stage_text_def SPACE_def)
  moreover have "list_all2 (\<lambda>s e. parse_exec (\<lambda>_. None) 0 s = Inr e) [''ls -l'', ''wc'']
      [demo_exec ''ls -l'' [''ls'', ''-l''], demo_exec ''wc'' [''wc'']]" using 1 2 by simp
  ultimately have "parse_line (\<lambda>_. None) 0 None (joined [''ls -l'', ''wc''] @ NUL # NUL # []) =
     Inr (pipeline [demo_exec ''ls -l'' [''ls'', ''-l''], demo_exec ''wc'' [''wc'']])"
    by (intro parse_line_pipeline) simp_all
  then show ?thesis by simp
qed

lemma wired_nth:
  "k < length es \<Longrightarrow> length (wired at i es) = length es \<and> wired at i es ! k = (argv (es ! k),
     std_fds (if k = 0 then i else PipeRead (at @ replicate (k - 1) 1))
             (if Suc k = length es then Inherited 1 else PipeWrite (at @ replicate k 1)))"
proof (induction at i es arbitrary: k rule: wired.induct)
  case (3 at i e e' es)
  have l: "length (wired (at @ [1]) (PipeRead at) (e' # es)) = length (e' # es)"
    using "3.IH"[of 0] by simp
  show ?case
  proof (cases k)
    case 0
    then show ?thesis using l by simp
  next
    case (Suc j)
    have "wired (at @ [1]) (PipeRead at) (e' # es) ! j = (argv ((e' # es) ! j),
       std_fds (if j = 0 then PipeRead at else PipeRead ((at @ [1]) @ replicate (j - 1) 1))
               (if Suc j = length (e' # es) then Inherited 1 else PipeWrite ((at @ [1]) @ replicate j 1)))"
      using "3.IH"[of j] "3.prems" Suc by simp
    then show ?thesis using l Suc by (cases j) simp_all
  qed
qed simp_all

lemma ran_std_fds: "ran (std_fds i o') = {i, o', Inherited 2}"
proof -
  have "std_fds i o' 0 = Some i" "std_fds i o' 1 = Some o'" "std_fds i o' 2 = Some (Inherited 2)" by (simp_all add: std_fds_def)
  then have "{i, o', Inherited 2} \<subseteq> ran (std_fds i o')" by (blast intro: ranI)
  moreover have "ran (std_fds i o') \<subseteq> {i, o', Inherited 2}" by (auto simp: ran_def std_fds_def split: if_splits)
  ultimately show ?thesis by (rule equalityI[rotated])
qed

text \<open>The places of the pipes that the processes from \<open>at\<close> on write, and who writes each.\<close>

lemma wired_alive_writes:
  "f \<in> set (wired_alive at i es) \<Longrightarrow> PipeWrite a \<in> ran f \<Longrightarrow> i \<noteq> PipeWrite a \<Longrightarrow> \<exists>m. a = at @ replicate m 1"
proof (induction at i es rule: wired_alive.induct)
  case (3 at i e e' es)
  show ?case
  proof (cases "f \<in> set (wired_alive (at @ [1]) (PipeRead at) (e' # es))")
    case True
    with "3.IH" "3.prems"(2) obtain m where "a = (at @ [1]) @ replicate m 1" by auto
    then show ?thesis by (intro exI[of _ "Suc m"]) simp
  next
    case False
    with "3.prems" have "a = at" by (auto simp: ran_std_fds)
    then show ?thesis by (intro exI[of _ 0]) simp
  qed
qed (auto simp: ran_std_fds)

lemma wired_one_writer:
  "Suc k < length es \<Longrightarrow> \<forall>a. i \<noteq> PipeWrite a \<Longrightarrow>
     holders (PipeWrite (at @ replicate k 1)) (wired_alive at i es) = [snd (wired at i es ! k)]"
proof (induction at i es arbitrary: k rule: wired_alive.induct)
  case (3 at i e e' es)
  show ?case
  proof (cases k)
    case 0
    have "holders (PipeWrite at) (wired_alive (at @ [1]) (PipeRead at) (e' # es)) = []"
      unfolding holders_def filter_empty_conv using wired_alive_writes[of _ "at @ [1]" "PipeRead at" "e' # es" at] by auto
    moreover have "PipeWrite at \<noteq> i" using "3.prems"(2) by blast
    ultimately show ?thesis using 0 by (simp add: holders_def ran_std_fds)
  next
    case (Suc j)
    moreover have "PipeWrite (at @ 1 # replicate j 1) \<noteq> i" using "3.prems"(2) by blast
    ultimately show ?thesis using "3.IH"[of j] "3.prems" by (simp add: holders_def ran_std_fds)
  qed
qed simp_all

text \<open>C30: Running the pipeline of plain commands from the shell starts every command once, in
  order, and connects them: the first reads the shell's input, the last writes its output, and
  command \<open>k\<close> writes the pipe that command \<open>k + 1\<close> reads. No command holds any other descriptor than
  its three standard ones. Of all processes, those that made a pipe and wait included, the only one that holds the writing
  end of the pipe of command \<open>k\<close> is that command, so that command \<open>k + 1\<close> sees the end of its input
  when it ends; and the process that the shell waits for waits for every command.\<close>

theorem pipeline_wired:
  assumes "es \<noteq> []" and "\<forall>e\<in>set es. plain os e" and "\<And>a. pipe_ok os a" and "\<And>a n. fork_ok os a n"
  shows "\<exists>t. exec_cmd os [] (shell_proc sh) (pipeline es) = Inr t \<and> length (stages t) = length es
     \<and> (\<forall>k<length es. fst (stages t ! k) = argv (es ! k)
        \<and> snd (stages t ! k) 0 = Some (if k = 0 then Inherited 0 else PipeRead (replicate (k - 1) 1))
        \<and> snd (stages t ! k) 1 = Some (if Suc k = length es then Inherited 1 else PipeWrite (replicate k 1))
        \<and> snd (stages t ! k) 2 = Some (Inherited 2) \<and> (\<forall>n\<ge>3. snd (stages t ! k) n = None))
     \<and> (\<forall>k. Suc k < length es \<longrightarrow> holders (PipeWrite (replicate k 1)) (alive t) = [snd (stages t ! k)])
     \<and> awaited t = stages t"
proof -
  have "fds (shell_proc sh) = std_fds (Inherited 0) (Inherited 1)"
    by (auto simp: shell_proc_def std_fds_def)
  from exec_pipeline[OF assms this, of "[]"] obtain t where
    t: "exec_cmd os [] (shell_proc sh) (pipeline es) = Inr t" "stages t = wired [] (Inherited 0) es"
      "awaited t = stages t" "alive t = wired_alive [] (Inherited 0) es" by auto
  have "length (stages t) = length es"
    using wired_nth[of 0 es "[]" "Inherited 0"] assms(1) t(2) by simp
  moreover have "holders (PipeWrite (replicate k 1)) (alive t) = [snd (stages t ! k)]" if "Suc k < length es" for k
    using wired_one_writer[OF that, of "Inherited 0" "[]"] t(2,4) by simp
  ultimately show ?thesis using t(1-3)
    by (intro exI[of _ t]) (auto simp: wired_nth std_fds_def)
qed

lemma pipeline_wired_witness:
  "\<exists>t. exec_cmd \<lparr>open_ok = (\<lambda>_ _. True), exec_ok = (\<lambda>_. True), pipe_ok = (\<lambda>_. True), fork_ok = (\<lambda>_ _. True)\<rparr> []
       (shell_proc \<lparr>prompt = [], cwd = ''/'', status = 0, sh_env = (\<lambda>_. None)\<rparr>)
       (pipeline [demo_exec ''a'' [''a''], demo_exec ''b'' [''b''], demo_exec ''c'' [''c'']]) = Inr t
     \<and> snd (stages t ! 1) 0 = Some (PipeRead []) \<and> holders (PipeWrite [1]) (alive t) = [snd (stages t ! 1)]"
proof -
  let ?os = "\<lparr>open_ok = (\<lambda>_ _. True), exec_ok = (\<lambda>_. True), pipe_ok = (\<lambda>_. True), fork_ok = (\<lambda>_ _. True)\<rparr>"
  let ?es = "[demo_exec ''a'' [''a''], demo_exec ''b'' [''b''], demo_exec ''c'' [''c'']]"
  have "\<forall>e\<in>set ?es. plain ?os e" by (simp add: plain_def demo_exec_def)
  from pipeline_wired[of ?es ?os "\<lparr>prompt = [], cwd = ''/'', status = 0, sh_env = (\<lambda>_. None)\<rparr>", OF _ this]
  obtain t where t: "exec_cmd ?os [] (shell_proc \<lparr>prompt = [], cwd = ''/'', status = 0, sh_env = (\<lambda>_. None)\<rparr>) (pipeline ?es) = Inr t"
    "\<forall>k<length ?es. snd (stages t ! k) 0 = Some (if k = 0 then Inherited 0 else PipeRead (replicate (k - 1) 1))"
    "\<forall>k. Suc k < length ?es \<longrightarrow> holders (PipeWrite (replicate k 1)) (alive t) = [snd (stages t ! k)]"
    by auto
  from t(2)[rule_format, of 1] t(3)[rule_format, of 1] t(1) show ?thesis by (intro exI[of _ t]) simp
qed

section \<open>Redirections and assignments\<close>

lemma index_of_append: "c \<notin> set a \<Longrightarrow> index_of c (a @ c # b) = Some (length a)"
  by (induction a) auto

text \<open>Where the first \<^verbatim>\<open>>\<close> of a token stands decides everything: in front, the rest names the
  output file; second, whatever the first character is, the rest names the error file; anywhere
  later the token disappears without a redirection and without becoming an argument.\<close>

theorem redirection_by_place:
  assumes "CHR ''>'' \<notin> set a"
  shows "parse_token g st c (a @ CHR ''>'' # f) = Inr
     (if a = [] then c\<lparr>out_file := f, ec_type := REDIR\<rparr>
      else if length a = 1 then c\<lparr>err_file := f, ec_type := REDIR\<rparr>
      else c\<lparr>ec_type := REDIR\<rparr>)"
proof -
  have b: "block_contains (a @ CHR ''>'' # f) CHR ''>'' = int (length a)"
    using assms by (simp add: block_contains_def index_of_append)
  consider "a = []" | x where "a = [x]" | "2 \<le> length a"
    by (cases a; cases "tl a") auto
  then show ?thesis
    by cases (use b in \<open>auto simp: parse_token_def parse_redir_flow_def Let_def\<close>)
qed

lemma redirection_by_place_witness:
  "parse_token (\<lambda>_. None) 0 (demo_exec ''ls'' [''ls'']) ''log>out'' =
     Inr ((demo_exec ''ls'' [''ls''])\<lparr>ec_type := REDIR\<rparr>)"
  using redirection_by_place[of "''log''" "\<lambda>_. None" 0 "demo_exec ''ls'' [''ls'']" "''out''"] by simp

text \<open>An assignment \<open>KEY=VALUE\<close> in front of a command reaches the environment of the program,
  with everything after the first \<^verbatim>\<open>=\<close> as the value; but a \<^verbatim>\<open>-\<close> anywhere in it, also in the value,
  makes it an argument of the program instead, where the comment speaks of the key only.\<close>

theorem assignment_tokens:
  assumes "key \<noteq> []" and "CHR ''='' \<notin> set key" and "tok = key @ CHR ''='' # val"
    and "CHR ''>'' \<notin> set tok" and "CHR ''<'' \<notin> set tok" and "hd key \<noteq> CHR ''$''"
    and "length (eargv c) < MAXARGS" and "length (argv c) < MAXARGS"
  shows "if CHR ''-'' \<in> set tok
     then parse_token g st c tok = Inr (c\<lparr>argv := argv c @ [tok]\<rparr>)
     else parse_token g st c tok = Inr (c\<lparr>eargv := eargv c @ [tok]\<rparr>)
        \<and> set_environ_vars p [tok] = Inr (p\<lparr>penv := (penv p)(key \<mapsto> val)\<rparr>)"
proof -
  have i: "index_of CHR ''='' tok = Some (length key)" using assms(2,3) by (simp add: index_of_append)
  have b: "block_contains tok CHR ''='' = int (length key)" by (simp add: block_contains_def i)
  have n: "block_contains tok CHR ''>'' = -1" "block_contains tok CHR ''<'' = -1"
    using assms(4,5) by (simp_all add: block_contains_none)
  have d: "block_contains tok CHR ''-'' < 0 \<longleftrightarrow> CHR ''-'' \<notin> set tok"
    using block_contains_none[of tok "CHR ''-''"] by (auto simp: block_contains_def split: option.splits)
  have "nat (int (length key) + 1) = Suc (length key)" by simp
  then have e: "set_environ_vars p [tok] = Inr (p\<lparr>penv := (penv p)(key \<mapsto> val)\<rparr>)"
    using i by (simp add: get_environ_key_def get_environ_value_def b) (simp add: assms(3))
  have t: "tok \<noteq> []" "hd tok = hd key" using assms(1,3) by simp_all
  show ?thesis
    using assms(1,6-8) b n d e t
    by (auto simp: parse_token_def parse_redir_flow_def parse_environ_var_def expand_environ_var_def Let_def)
qed

lemma assignment_tokens_witness:
  "parse_token (\<lambda>_. None) 0 (demo_exec ''p'' []) ''A=x-y'' = Inr (demo_exec ''p'' [''A=x-y''])"
  using assignment_tokens[of "''A''" "''A=x-y''" "''x-y''" "demo_exec ''p'' []" "\<lambda>_. None" 0]
  by (simp add: demo_exec_def MAXARGS_def)

section \<open>Lines that go wrong\<close>

text \<open>\<^verbatim>\<open>cd\<close> followed by a directory of one letter, as in \<^verbatim>\<open>cd /\<close>, goes to the home directory
  instead: the test for a lone space looks at the length 4 and not at the fourth character.\<close>

theorem cd_one_letter_goes_home:
  "cd chdir sh (''cd '' @ [x]) = cd chdir sh ''cd''"
  by (simp add: cd_def SPACE_def)

text \<open>A line that begins with a bar makes a pipeline without its first command; the shell
  follows the null pointer when it releases it (and the child when it runs it).\<close>

theorem leading_bar_crashes:
  assumes "stage_text s" and "parse_exec (sh_env sh) (status sh) s = Inr e"
    and "pipe_ok os []" and "fork_ok os [] 0"
  shows "parse_line (sh_env sh) (status sh) None (CHR ''|'' # s @ NUL # NUL # z) = Inr (Some (Pipe 0 [] None (Some (Simple e))))
     \<and> run_cmd os chdir pid w sh (CHR ''|'' # s @ NUL # NUL # z) = Inl NullDeref"
proof -
  have s: "NUL \<notin> set s" "CHR ''|'' \<notin> set s" "s \<noteq> []" "hd s \<noteq> SPACE" using assms(1) by (auto simp: stage_text_def)
  have sp: "split_line (CHR ''|'' # s @ NUL # NUL # z) CHR ''|'' = Inr ([], s @ NUL # NUL # z)"
    using split_line_bar[of "[]" "s @ NUL # NUL # z"] s(3,4) by simp
  have c: "cstr (s @ NUL # NUL # z) = s" using s(1) by (simp add: cstr_append_NUL)
  have b: "block_contains s CHR ''|'' = -1" using s(2) by (simp add: block_contains_none)
  have e: "parse_cmd g st before [] = Inr None" for g st before by (simp add: parse_cmd_def)
  have p: "parse_line (sh_env sh) (status sh) None (CHR ''|'' # s @ NUL # NUL # z) = Inr (Some (Pipe 0 [] None (Some (Simple e))))"
    by (subst parse_line.simps) (simp add: sp c b e parse_cmd_stage[OF assms(1,2)] pipe_cmd_create_def)
  have "cstr (CHR ''|'' # s @ NUL # NUL # z) = CHR ''|'' # s" using c by (simp add: cstr_Cons)
  then have "run_cmd os chdir pid w sh (CHR ''|'' # s @ NUL # NUL # z) = Inl NullDeref"
    using p assms(3,4)
    by (simp add: run_cmd_def cd_def history_def exit_shell_def pwd_def spawn_def open_fd_def Let_def)
  with p show ?thesis by simp
qed

lemma leading_bar_crashes_witness:
  "run_cmd \<lparr>open_ok = (\<lambda>_ _. True), exec_ok = (\<lambda>_. True), pipe_ok = (\<lambda>_. True), fork_ok = (\<lambda>_ _. True)\<rparr>
     (\<lambda>_ _. None) 7 0 \<lparr>prompt = [], cwd = ''/'', status = 0, sh_env = (\<lambda>_. None)\<rparr> (''|wc'' @ [NUL, NUL]) = Inl NullDeref"
proof -
  let ?sh = "\<lparr>prompt = [], cwd = ''/'', status = 0, sh_env = (\<lambda>_. None)\<rparr>"
  have "parse_exec (sh_env ?sh) (status ?sh) ''wc'' = Inr (demo_exec ''wc'' [''wc''])" by code_simp
  moreover have "stage_text ''wc''" by (simp add: stage_text_def SPACE_def)
  ultimately show ?thesis
    using leading_bar_crashes[of "''wc''" ?sh "demo_exec ''wc'' [''wc'']"
        "\<lparr>open_ok = (\<lambda>_ _. True), exec_ok = (\<lambda>_. True), pipe_ok = (\<lambda>_. True), fork_ok = (\<lambda>_ _. True)\<rparr>" "[]"]
    by simp
qed

section \<open>The shape of parsed commands\<close>

text \<open>What the code that runs and frees a command relies on: arguments that are not empty and leave
  room for the null pointer, assignments of the form \<^verbatim>\<open>KEY=...\<close>, and pipes that lean to the right,
  with a simple or background command on their left.\<close>

definition exec_wf :: "execcmd \<Rightarrow> bool" where
  "exec_wf e \<longleftrightarrow> ec_type e \<in> {EXEC, REDIR} \<and> length (ec_scmd e) < BUFLEN
     \<and> (\<forall>a\<in>set (argv e). a \<noteq> []) \<and> length (argv e) \<le> MAXARGS
     \<and> (\<forall>a\<in>set (eargv e). a \<noteq> [] \<and> hd a \<noteq> CHR ''='' \<and> CHR ''='' \<in> set a) \<and> length (eargv e) \<le> MAXARGS"

fun leaf_wf :: "cmd \<Rightarrow> bool" where
  "leaf_wf (Simple e) \<longleftrightarrow> exec_wf e \<and> length (argv e) < MAXARGS"
| "leaf_wf (Back p s e) \<longleftrightarrow> p = 0 \<and> s = ec_scmd e \<and> exec_wf e \<and> length (argv e) < MAXARGS"
| "leaf_wf (Pipe _ _ _ _) \<longleftrightarrow> False"

fun cmd_wf :: "cmd \<Rightarrow> bool" where
  "cmd_wf (Pipe p s l r) \<longleftrightarrow>
     p = 0 \<and> s = [] \<and> (case l of None \<Rightarrow> True | Some c \<Rightarrow> leaf_wf c)
     \<and> (case r of None \<Rightarrow> False | Some c \<Rightarrow> cmd_wf c)"
| "cmd_wf c \<longleftrightarrow> leaf_wf c"

lemma leaf_cmd: "leaf_wf c \<Longrightarrow> cmd_wf c"
  by (cases c) simp_all

lemma redir_wf: "exec_wf c \<Longrightarrow> exec_wf (fst (parse_redir_flow c arg))"
  by (auto simp: parse_redir_flow_def exec_wf_def Let_def)

lemma environ_wf:
  assumes "exec_wf c" and "parse_environ_var c arg = Inr (c', b)"
  shows "exec_wf c'"
proof (cases "block_contains arg CHR ''='' > 0 \<and> block_contains arg CHR ''-'' < 0")
  case True
  then obtain i where i: "index_of CHR ''='' arg = Some (Suc i)"
    by (cases "index_of CHR ''='' arg"; cases "the (index_of CHR ''='' arg)") (auto simp: block_contains_def)
  then have "Suc i < length arg" "arg ! Suc i = CHR ''=''" "CHR ''='' \<notin> set (take (Suc i) arg)"
    by (simp_all add: index_of_Some)
  then have "arg \<noteq> []" "CHR ''='' \<in> set arg" "hd arg \<noteq> CHR ''=''"
    by (cases arg; force simp: in_set_conv_nth)+
  with True assms show ?thesis by (auto simp: parse_environ_var_def exec_wf_def split: if_splits)
qed (use assms in \<open>auto simp: parse_environ_var_def\<close>)

lemma token_wf:
  assumes "exec_wf c" and "parse_token g st c tok = Inr c'"
  shows "exec_wf c'"
proof -
  obtain c1 redir where r: "parse_redir_flow c tok = (c1, redir)" by (cases "parse_redir_flow c tok")
  have c1: "exec_wf c1" using redir_wf[OF assms(1), of tok] r by simp
  show ?thesis
  proof (cases redir)
    case True
    with assms(2) r c1 show ?thesis by (simp add: parse_token_def)
  next
    case False
    with assms(2) r obtain c2 b where e: "parse_environ_var c1 tok = Inr (c2, b)"
      and c': "(if b then Inr c2 else let t = expand_environ_var g st tok in
          if t = [] then Inr c2 else if length (argv c2) < MAXARGS then Inr (c2\<lparr>argv := argv c2 @ [t]\<rparr>)
          else Inl OutOfBounds) = Inr c'"
      by (auto simp: parse_token_def chain_eq_Inr)
    from environ_wf[OF c1 e] c' show ?thesis by (auto simp: exec_wf_def Let_def split: if_splits)
  qed
qed

lemma exec_loop_wf: "exec_wf c \<Longrightarrow> parse_exec_loop g st buf idx c = Inr c' \<Longrightarrow> exec_wf c'"
proof (induction g st buf idx c rule: parse_exec_loop.induct)
  case (1 g st buf idx c)
  show ?case
  proof (cases "length buf \<le> idx")
    case True
    with 1(3) have "c' = c" by (subst (asm) parse_exec_loop.simps) simp
    with 1(2) show ?thesis by simp
  next
    case False
    from 1(3) obtain tok i2 c1 where t: "get_token buf idx = Inr tok"
      and i2: "i2 = (if idx + length tok < length buf then idx + length tok + 1 else idx + length tok)"
      and c1: "parse_token g st c tok = Inr c1" and r: "parse_exec_loop g st buf i2 c1 = Inr c'"
      using False unfolding parse_exec_loop.simps[of g st buf idx c] by (auto simp: chain_eq_Inr Let_def)
    show ?thesis by (rule 1(1)[OF False t refl i2 c1 token_wf[OF 1(2) c1] r])
  qed
qed

lemma exec_cmd_create_wf: "exec_cmd_create s = Inr c \<Longrightarrow> exec_wf c"
  by (auto simp: exec_cmd_create_def exec_wf_def split: if_splits)

lemma parse_exec_wf: "parse_exec g st s = Inr e \<Longrightarrow> exec_wf e \<and> length (argv e) < MAXARGS"
  unfolding parse_exec_def
  by (auto simp: chain_eq_Inr split: if_splits dest!: exec_cmd_create_wf intro: exec_loop_wf)

lemma parse_cmd_wf: "parse_cmd g st b s = Inr (Some c) \<Longrightarrow> leaf_wf c"
  by (auto simp: parse_cmd_def parse_back_def back_cmd_create_def chain_eq_Inr dest: parse_exec_wf split: if_splits)

text \<open>C19: Every line that the parser accepts gives a command of that shape, whatever its characters:
  arguments and assignments that
  fit their arrays (a line with more of them is not accepted by the model; the code writes past the arrays), and pipes that lean to the right and whose right
  part is never null.\<close>

theorem parse_line_wf:
  assumes "parse_line g st b buf = Inr (Some c)"
  shows "cmd_wf c"
  using assms
proof (induction g st b buf arbitrary: c rule: parse_line.induct)
  case (1 g st b buf)
  from 1(2) obtain left rest r l where sp: "split_line buf CHR ''|'' = Inr (left, rest)"
    and r: "(if block_contains (cstr rest) CHR ''|'' \<noteq> -1 then parse_line g st (Some SPACE) rest
       else parse_cmd g st (Some SPACE) (cstr rest)) = Inr r"
    and l: "parse_cmd g st b left = Inr l" and c: "pipe_cmd_create l r = Some c"
    unfolding parse_line.simps[of g st b buf] by (auto simp: chain_eq_Inr split: sum.splits)
  have "cmd_wf d" if "r = Some d" for d
    using 1(1)[OF sp refl] r that leaf_cmd parse_cmd_wf by (auto split: if_splits)
  moreover have "leaf_wf d" if "l = Some d" for d using parse_cmd_wf l that by blast
  ultimately show ?case
    using c leaf_cmd by (auto simp: pipe_cmd_create_def split: option.splits)
qed

lemma parse_line_wf_witness:
  "\<exists>c. parse_line (\<lambda>_. None) 0 None (''A=1 ls >o | wc &'' @ [NUL, NUL]) = Inr (Some c) \<and> cmd_wf c"
proof -
  have "(case parse_line (\<lambda>_. None) 0 None (''A=1 ls >o | wc &'' @ [NUL, NUL]) of
      Inr (Some _) \<Rightarrow> True | _ \<Rightarrow> False)"
    by code_simp
  then obtain c where c: "parse_line (\<lambda>_. None) 0 None (''A=1 ls >o | wc &'' @ [NUL, NUL]) = Inr (Some c)"
    by (auto split: sum.splits option.splits)
  from parse_line_wf[OF c] c show ?thesis by blast
qed

end
