(* ===== verification/ShellSignals.thy ===== *)
theory ShellSignals
  imports ShellExec
begin

text \<open>
  The shell's children and its handler of \<^verbatim>\<open>SIGCHLD\<close> (\<^verbatim>\<open>sh.c\<close>), beside the wait for the foreground command in
  \<^verbatim>\<open>runcmd.c\<close>. The handler collects every terminated child of the shell's process group; a
  foreground child leaves that group before it runs its command, so that its status is left to \<^verbatim>\<open>run_cmd\<close>. The
  two run in any order: the signal may come at any moment, and the interrupted wait is restarted
  (\<^verbatim>\<open>SA_RESTART\<close>). A child that is killed from outside before its \<^verbatim>\<open>setpgid\<close> is not considered.
\<close>

section \<open>The handler\<close>

text \<open>A child as the system knows it: a zombie is one that has terminated, with its status.\<close>

record child =
  c_pid :: int
  c_group :: int
  c_back :: bool
  c_status :: "int option"

text \<open>The children that the first argument of \<^verbatim>\<open>waitpid\<close> stands for: 0 for those of the caller's group \<open>g\<close>, -1 for
  all, otherwise one child or those of one group.\<close>

definition waited_for :: "int \<Rightarrow> int \<Rightarrow> child \<Rightarrow> bool" where
  "waited_for who g c \<longleftrightarrow>
     (if who = 0 then c_group c = g else if who = -1 then True
      else if who > 0 then c_pid c = who else c_group c = - who)"

definition zombie_of :: "int \<Rightarrow> int \<Rightarrow> child \<Rightarrow> bool" where
  "zombie_of who g c \<longleftrightarrow> waited_for who g c \<and> c_status c \<noteq> None"

text \<open>\<^verbatim>\<open>waitpid(who, &status, WNOHANG)\<close>: some terminated child among those, if there is one.\<close>

fun waitpid_nohang :: "int \<Rightarrow> int \<Rightarrow> child list \<Rightarrow> (child \<times> child list) option" where
  "waitpid_nohang who g [] = None"
| "waitpid_nohang who g (c # cs) =
     (if zombie_of who g c then Some (c, cs)
      else map_option (\<lambda>(d, ds). (d, c # ds)) (waitpid_nohang who g cs))"

lemma waitpid_nohang_length: "waitpid_nohang who g cs = Some (c, ds) \<Longrightarrow> length ds < length cs"
  by (induction cs arbitrary: ds) (fastforce split: if_splits)+

text \<open>The loop of the handler: the children whose end it reports, and those that are left.\<close>

function reap :: "int \<Rightarrow> child list \<Rightarrow> child list \<times> child list" where
  "reap g cs =
     (case waitpid_nohang 0 g cs of
        None \<Rightarrow> ([], cs)
      | Some (c, ds) \<Rightarrow> (case reap g ds of (done, left) \<Rightarrow> (c # done, left)))"
  by pat_completeness auto
termination by (relation "measure (\<lambda>(g, cs). length cs)") (auto dest: waitpid_nohang_length)

declare reap.simps [simp del]

definition SIGCHLD :: int where "SIGCHLD = 17"

text \<open>The state: the shell's group, its children, the foreground child it waits for, the status that the
  last wait stored, and the children reported, in order.\<close>

record jobs =
  group :: int
  children :: "child list"
  waiting :: "int option"
  last_status :: int
  reported :: "child list"

definition sigchld_handler :: "int \<Rightarrow> jobs \<Rightarrow> jobs" where
  "sigchld_handler signum st =
     (if signum \<noteq> SIGCHLD then st
      else case reap (group st) (children st) of (done, left) \<Rightarrow>
        st\<lparr>children := left, reported := reported st @ done\<rparr>)"

lemma waitpid_nohang_eq:
  "waitpid_nohang who g cs = (case dropWhile (\<lambda>c. \<not> zombie_of who g c) cs of
     [] \<Rightarrow> None | c # ds \<Rightarrow> Some (c, takeWhile (\<lambda>c. \<not> zombie_of who g c) cs @ ds))"
proof (induction cs)
  case (Cons a cs)
  then show ?case by (cases "zombie_of who g a"; cases "dropWhile (\<lambda>c. \<not> zombie_of who g c) cs") (simp_all del: dropWhile_eq_Nil_conv)
qed simp

text \<open>The handler reports all terminated children of the group, in order, and leaves the others.\<close>

lemma reap_eq: "reap g cs = (filter (zombie_of 0 g) cs, filter (\<lambda>c. \<not> zombie_of 0 g c) cs)"
proof (induction g cs rule: reap.induct)
  case (1 g cs)
  let ?nz = "\<lambda>c. \<not> zombie_of 0 g c"
  show ?case
  proof (cases "dropWhile ?nz cs")
    case Nil
    then have "\<forall>c\<in>set cs. ?nz c" by (simp add: dropWhile_eq_Nil_conv)
    then have "filter (zombie_of 0 g) cs = []" "filter ?nz cs = cs" by (auto simp: filter_empty_conv)
    moreover have "waitpid_nohang 0 g cs = None" unfolding waitpid_nohang_eq Nil by simp
    ultimately show ?thesis by (simp add: reap.simps[of g cs])
  next
    case (Cons c ds)
    let ?t = "takeWhile ?nz cs"
    have cs: "cs = ?t @ c # ds" using Cons takeWhile_dropWhile_id[of ?nz cs] by simp
    have c: "zombie_of 0 g c" using hd_dropWhile[of ?nz cs] Cons by auto
    have t: "filter (zombie_of 0 g) ?t = []" "filter ?nz ?t = ?t"
      by (auto simp: filter_empty_conv filter_id_conv dest: set_takeWhileD)
    have w: "waitpid_nohang 0 g cs = Some (c, ?t @ ds)" using Cons by (simp add: waitpid_nohang_eq)
    from 1[OF w refl] have "reap g (?t @ ds) = (filter (zombie_of 0 g) ds, ?t @ filter ?nz ds)" by (simp add: t)
    then have "reap g cs = (c # filter (zombie_of 0 g) ds, ?t @ filter ?nz ds)" using w by (simp add: reap.simps[of g cs])
    moreover have "filter (zombie_of 0 g) cs = c # filter (zombie_of 0 g) ds" "filter ?nz cs = ?t @ filter ?nz ds"
      by (subst cs, simp add: t c)+
    ultimately show ?thesis by simp
  qed
qed

lemma sigchld_handler_eq:
  "sigchld_handler SIGCHLD st = st\<lparr>children := filter (\<lambda>c. \<not> zombie_of 0 (group st) c) (children st),
     reported := reported st @ filter (zombie_of 0 (group st)) (children st)\<rparr>"
  by (simp add: sigchld_handler_def reap_eq)

section \<open>The shell and its children, in any order\<close>

text \<open>
  One step: the shell starts a child (and waits for it when it is a foreground one), a foreground child
  enters a group of its own, a child terminates (a foreground one only after that), the signal arrives,
  or the wait for the foreground child returns with its status.
\<close>

inductive shell_step :: "jobs \<Rightarrow> jobs \<Rightarrow> bool" where
  fork_child: "waiting st = None \<Longrightarrow> pid \<noteq> group st \<Longrightarrow> pid \<notin> c_pid ` set (children st) \<Longrightarrow>
    shell_step st (st\<lparr>children := \<lparr>c_pid = pid, c_group = group st, c_back = bg, c_status = None\<rparr> # children st,
      waiting := (if bg then None else Some pid)\<rparr>)"
| setpgid: "children st = cs @ c # ds \<Longrightarrow> \<not> c_back c \<Longrightarrow> c_status c = None \<Longrightarrow>
    shell_step st (st\<lparr>children := cs @ c\<lparr>c_group := c_pid c\<rparr> # ds\<rparr>)"
| terminate: "children st = cs @ c # ds \<Longrightarrow> c_back c \<or> c_group c = c_pid c \<Longrightarrow> c_status c = None \<Longrightarrow>
    shell_step st (st\<lparr>children := cs @ c\<lparr>c_status := Some s\<rparr> # ds\<rparr>)"
| signal: "shell_step st (sigchld_handler SIGCHLD st)"
| waitpid: "waiting st = Some (c_pid c) \<Longrightarrow> children st = cs @ c # ds \<Longrightarrow> c_status c = Some s \<Longrightarrow>
    shell_step st (st\<lparr>children := cs @ ds, waiting := None, last_status := s\<rparr>)"

inductive shell_reach :: "jobs \<Rightarrow> jobs \<Rightarrow> bool" for st0 where
  start: "shell_reach st0 st0"
| next_step: "shell_reach st0 st \<Longrightarrow> shell_step st st1 \<Longrightarrow> shell_reach st0 st1"

text \<open>A foreground child that has terminated is in its own group; the one waited for is there; the handler has
  only reported background children.\<close>

definition jobs_ok :: "jobs \<Rightarrow> bool" where
  "jobs_ok st \<longleftrightarrow>
     distinct (map c_pid (children st)) \<and> group st \<notin> c_pid ` set (children st)
     \<and> (\<forall>c\<in>set (children st). \<not> c_back c \<longrightarrow> c_status c \<noteq> None \<longrightarrow> c_group c = c_pid c)
     \<and> (\<forall>c\<in>set (children st). \<not> c_back c \<longrightarrow> waiting st = Some (c_pid c))
     \<and> (\<forall>p. waiting st = Some p \<longrightarrow> (\<exists>c\<in>set (children st). c_pid c = p \<and> \<not> c_back c))
     \<and> (\<forall>c\<in>set (reported st). c_back c \<and> c_status c \<noteq> None)"

lemma jobs_ok_step: "shell_step st st1 \<Longrightarrow> jobs_ok st \<Longrightarrow> jobs_ok st1"
proof (induction rule: shell_step.induct)
  case (fork_child st pid bg)
  then show ?case by (auto simp: jobs_ok_def)
next
  case (setpgid st cs c ds)
  then show ?case unfolding jobs_ok_def by (auto simp: image_Un)
next
  case (terminate st cs c ds s)
  then show ?case unfolding jobs_ok_def by (auto simp: image_Un)
next
  case (signal st)
  have fg: "\<not> zombie_of 0 (group st) c" if "c \<in> set (children st)" "\<not> c_back c" for c
    using signal that by (force simp: jobs_ok_def zombie_of_def waited_for_def)
  let ?left = "filter (\<lambda>c. \<not> zombie_of 0 (group st) c) (children st)"
  have "distinct (map c_pid ?left)" using signal by (simp add: jobs_ok_def distinct_map_filter)
  moreover have "group st \<notin> c_pid ` set ?left" using signal by (auto simp: jobs_ok_def)
  moreover have "\<exists>c\<in>set ?left. c_pid c = p \<and> \<not> c_back c" if "waiting st = Some p" for p
    using signal that fg unfolding jobs_ok_def by fastforce
  moreover have "c_back c \<and> c_status c \<noteq> None" if "c \<in> set (filter (zombie_of 0 (group st)) (children st))" for c
    using fg[of c] that by (cases "c_back c") (auto simp: zombie_of_def waited_for_def)
  ultimately show ?case using signal unfolding jobs_ok_def sigchld_handler_eq by auto
next
  case (waitpid st c cs ds s)
  then show ?case unfolding jobs_ok_def by (auto simp: image_Un)
qed

lemma jobs_ok_reach: "shell_reach st0 st \<Longrightarrow> jobs_ok st0 \<Longrightarrow> jobs_ok st"
  by (induction rule: shell_reach.induct) (auto intro: jobs_ok_step)

text \<open>C20: Whatever the order of events, the handler never takes the status of the foreground command: from
  the shell's start on, while \<^verbatim>\<open>run_cmd\<close> waits, the child it waits for is among the children, and once it has
  terminated with a status the wait can return, leaving that status as the last one; and only
  background children are reported as ended by the handler.\<close>

theorem foreground_status_kept:
  assumes "shell_reach st0 st" and "children st0 = []" and "waiting st0 = None" and "reported st0 = []"
  shows "(\<forall>p. waiting st = Some p \<longrightarrow> (\<exists>c\<in>set (children st). c_pid c = p
           \<and> (\<forall>s. c_status c = Some s \<longrightarrow> (\<exists>st1. shell_step st st1 \<and> waiting st1 = None \<and> last_status st1 = s))))
     \<and> (\<forall>c\<in>set (reported st). c_back c)"
proof -
  have ok: "jobs_ok st" by (rule jobs_ok_reach[OF assms(1)]) (simp add: jobs_ok_def assms)
  have "\<exists>st1. shell_step st st1 \<and> waiting st1 = None \<and> last_status st1 = s"
    if "waiting st = Some (c_pid c)" "c \<in> set (children st)" "c_status c = Some s" for c s
  proof -
    from that(2) obtain cs ds where cs: "children st = cs @ c # ds" by (meson split_list)
    have "shell_step st (st\<lparr>children := cs @ ds, waiting := None, last_status := s\<rparr>)"
      by (rule shell_step.waitpid[OF that(1) cs that(3)])
    then show ?thesis by force
  qed
  then show ?thesis using ok unfolding jobs_ok_def by blast
qed

text \<open>An example run: the shell starts a background child and a foreground one, both end, the signal comes first.\<close>

definition demo_jobs :: jobs where
  "demo_jobs = \<lparr>group = 100, children = [], waiting = None, last_status = 0, reported = []\<rparr>"

lemma demo_jobs_run:
  "shell_reach demo_jobs \<lparr>group = 100, children = [\<lparr>c_pid = 102, c_group = 102, c_back = False, c_status = Some 256\<rparr>],
     waiting = Some 102, last_status = 0, reported = [\<lparr>c_pid = 101, c_group = 100, c_back = True, c_status = Some 0\<rparr>]\<rparr>"
proof -
  let ?b = "\<lambda>s. \<lparr>c_pid = 101, c_group = 100, c_back = True, c_status = s\<rparr>"
  let ?f = "\<lambda>g s. \<lparr>c_pid = 102, c_group = g, c_back = False, c_status = s\<rparr>"
  have "shell_step demo_jobs (demo_jobs\<lparr>children := [?b None]\<rparr>)"
    using shell_step.fork_child[of demo_jobs 101 True] by (simp add: demo_jobs_def)
  with start have 1: "shell_reach demo_jobs (demo_jobs\<lparr>children := [?b None]\<rparr>)" by (rule next_step)
  have "shell_step (demo_jobs\<lparr>children := [?b None]\<rparr>) (demo_jobs\<lparr>children := [?f 100 None, ?b None], waiting := Some 102\<rparr>)"
    using shell_step.fork_child[of "demo_jobs\<lparr>children := [?b None]\<rparr>" 102 False] by (simp add: demo_jobs_def)
  with 1 have 2: "shell_reach demo_jobs (demo_jobs\<lparr>children := [?f 100 None, ?b None], waiting := Some 102\<rparr>)" by (rule next_step)
  have "shell_step (demo_jobs\<lparr>children := [?f 100 None, ?b None], waiting := Some 102\<rparr>)
      (demo_jobs\<lparr>children := [?f 102 None, ?b None], waiting := Some 102\<rparr>)"
    using shell_step.setpgid[of "demo_jobs\<lparr>children := [?f 100 None, ?b None], waiting := Some 102\<rparr>" "[]"] by (simp add: demo_jobs_def)
  with 2 have 3: "shell_reach demo_jobs (demo_jobs\<lparr>children := [?f 102 None, ?b None], waiting := Some 102\<rparr>)" by (rule next_step)
  have "shell_step (demo_jobs\<lparr>children := [?f 102 None, ?b None], waiting := Some 102\<rparr>)
      (demo_jobs\<lparr>children := [?f 102 (Some 256), ?b None], waiting := Some 102\<rparr>)"
    using shell_step.terminate[of "demo_jobs\<lparr>children := [?f 102 None, ?b None], waiting := Some 102\<rparr>" "[]" "?f 102 None" "[?b None]" 256]
    by (simp add: demo_jobs_def)
  with 3 have 4: "shell_reach demo_jobs (demo_jobs\<lparr>children := [?f 102 (Some 256), ?b None], waiting := Some 102\<rparr>)" by (rule next_step)
  have "shell_step (demo_jobs\<lparr>children := [?f 102 (Some 256), ?b None], waiting := Some 102\<rparr>)
      (demo_jobs\<lparr>children := [?f 102 (Some 256), ?b (Some 0)], waiting := Some 102\<rparr>)"
    using shell_step.terminate[of "demo_jobs\<lparr>children := [?f 102 (Some 256), ?b None], waiting := Some 102\<rparr>" "[?f 102 (Some 256)]" "?b None" "[]" 0]
    by (simp add: demo_jobs_def)
  with 4 have 5: "shell_reach demo_jobs (demo_jobs\<lparr>children := [?f 102 (Some 256), ?b (Some 0)], waiting := Some 102\<rparr>)" by (rule next_step)
  from next_step[OF 5 shell_step.signal] show ?thesis
    unfolding sigchld_handler_eq by (simp add: demo_jobs_def zombie_of_def waited_for_def)
qed

lemma foreground_status_kept_witness:
  "\<exists>st. shell_reach demo_jobs st \<and> waiting st = Some 102 \<and> (\<forall>c\<in>set (reported st). c_back c)
     \<and> (\<exists>st1. shell_step st st1 \<and> waiting st1 = None \<and> last_status st1 = 256)"
  using foreground_status_kept[OF demo_jobs_run] demo_jobs_run by (fastforce simp: demo_jobs_def)

section \<open>The program\<close>

text \<open>\<^verbatim>\<open>main\<close>: the prompt and the directory, then the lines.\<close>

definition sh_main ::
    "osys \<Rightarrow> chdir_fn \<Rightarrow> (nat \<Rightarrow> int \<times> int) \<Rightarrow> nat \<Rightarrow> shell \<Rightarrow> string \<Rightarrow> fault + (int \<times> shell \<times> ptree list) option" where
  "sh_main os chdir waits n sh inp =
     chain (run_shell os chdir waits n (init_shell chdir sh) inp) (\<lambda>r.
       Inr (map_option (\<lambda>(sh1, ts). (0, sh1, ts)) r))"

end
