(* ===== verification/FindLab.thy ===== *)
theory FindLab
  imports Prelude
begin

text \<open>
  Two more programs of the fork exercise: \<^verbatim>\<open>challenges/find.c\<close>, which walks a directory tree, and
  \<^verbatim>\<open>challenges/ps0.c\<close>, which lists the processes. A directory is the list of its entries in the order
  in which \<^verbatim>\<open>readdir\<close> delivers them.
\<close>

section \<open>Searching names\<close>

fun starts_with :: "string \<Rightarrow> string \<Rightarrow> bool" where
  "starts_with s [] \<longleftrightarrow> True"
| "starts_with [] (c # cs) \<longleftrightarrow> False"
| "starts_with (x # xs) (c # cs) \<longleftrightarrow> x = c \<and> starts_with xs cs"

text \<open>\<^verbatim>\<open>strstr\<close> and \<^verbatim>\<open>strcasestr\<close>: the rest of the string from the first occurrence on.\<close>

fun strstr :: "string \<Rightarrow> string \<Rightarrow> string option" where
  "strstr s sub =
     (if starts_with s sub then Some s else case s of [] \<Rightarrow> None | _ # xs \<Rightarrow> strstr xs sub)"

declare strstr.simps [simp del]

definition to_lower :: "char \<Rightarrow> char" where
  "to_lower c = (let n = of_char c in if 65 \<le> n \<and> n \<le> (90 :: nat) then char_of (n + 32) else c)"

definition strcasestr :: "string \<Rightarrow> string \<Rightarrow> string option" where
  "strcasestr s sub =
     map_option (\<lambda>r. drop (length s - length r) s) (strstr (map to_lower s) (map to_lower sub))"

definition caso_sensitivo :: "string \<Rightarrow> string \<Rightarrow> string option" where
  "caso_sensitivo cadena subcadena = strstr cadena subcadena"

definition caso_insensitivo :: "string \<Rightarrow> string \<Rightarrow> string option" where
  "caso_insensitivo cadena subcadena = strcasestr cadena subcadena"

section \<open>Walking the tree\<close>

text \<open>A directory whose entries cannot be read is None.\<close>

datatype entry = Regular string | Directory string "entry list option" | OtherType string

fun d_name :: "entry \<Rightarrow> string" where
  "d_name (Regular n) = n"
| "d_name (Directory n _) = n"
| "d_name (OtherType n) = n"

definition PATH_MAX :: nat where "PATH_MAX = 4096"

text \<open>\<^verbatim>\<open>snprintf\<close> of a path and a name into an array of \<^verbatim>\<open>PATH_MAX\<close> bytes.\<close>

definition join_path :: "string \<Rightarrow> string \<Rightarrow> string" where
  "join_path ruta n = take (PATH_MAX - 1) (ruta @ ''/'' @ n)"

definition dots :: "string set" where
  "dots = {''.'', ''..''}"

text \<open>What is printed, and whether the program goes on: it exits at a directory that it cannot open.\<close>

type_synonym printed_lines = "string list \<times> bool"

definition and_then :: "printed_lines \<Rightarrow> printed_lines \<Rightarrow> printed_lines" where
  "and_then a b = (if snd a then (fst a @ fst b, snd b) else a)"

fun leer_directorio :: "(string \<Rightarrow> bool) \<Rightarrow> string \<Rightarrow> entry list \<Rightarrow> printed_lines" where
  "leer_directorio found ruta [] = ([], True)"
| "leer_directorio found ruta (Regular n # es) =
     and_then (if n \<notin> dots \<and> found n then [join_path ruta n] else [], True) (leer_directorio found ruta es)"
| "leer_directorio found ruta (OtherType n # es) = leer_directorio found ruta es"
| "leer_directorio found ruta (Directory n sub # es) =
     (if n \<in> dots then leer_directorio found ruta es
      else let nueva = join_path ruta n in
        and_then (if found n then [nueva] else [], True)
          (and_then (case sub of None \<Rightarrow> ([''Error al abrir el archivo''], False)
                     | Some ds \<Rightarrow> leer_directorio found nueva ds)
             (leer_directorio found ruta es)))"

text \<open>The loop of \<^verbatim>\<open>main\<close> over the current directory, whose paths are the names themselves.\<close>

fun find_top :: "(string \<Rightarrow> bool) \<Rightarrow> entry list \<Rightarrow> printed_lines" where
  "find_top found [] = ([], True)"
| "find_top found (Regular n # es) =
     and_then (if n \<notin> dots \<and> found n then [n] else [], True) (find_top found es)"
| "find_top found (OtherType n # es) = find_top found es"
| "find_top found (Directory n sub # es) =
     (if n \<in> dots then find_top found es
      else and_then (if found n then [n] else [], True)
          (and_then (case sub of None \<Rightarrow> ([''Error al abrir el archivo''], False)
                     | Some ds \<Rightarrow> leer_directorio found n ds)
             (find_top found es)))"

text \<open>\<open>args\<close> are the arguments behind the name of the program; the directory is None when it cannot
  be opened.\<close>

definition find_main :: "string list \<Rightarrow> entry list option \<Rightarrow> printed_lines" where
  "find_main args cwd =
     (case args of
        [] \<Rightarrow> ([''No se proporcionaron argumentos''], False)
      | a # rest \<Rightarrow>
          let (found, argumento) =
                (if length args + 1 > 3 \<and> a = ''-i'' then (caso_insensitivo, hd rest) else (caso_sensitivo, a)) in
          (case cwd of
             None \<Rightarrow> ([''Error con opendir''], False)
           | Some es \<Rightarrow> find_top (\<lambda>n. found n argumento \<noteq> None) es))"

section \<open>The processes (\<^verbatim>\<open>ps0.c\<close>)\<close>

text \<open>An entry of \<^verbatim>\<open>/proc\<close>: its name, whether it is a directory, and the first line of its file
  \<^verbatim>\<open>comm\<close>: None when the file cannot be opened, \<open>Some None\<close> when nothing can be read.\<close>

type_synonym proc_entry = "string \<times> bool \<times> string option option"

definition c_isdigit :: "char \<Rightarrow> bool" where
  "c_isdigit c \<longleftrightarrow> (let n = of_char c in 48 \<le> n \<and> n \<le> (57 :: nat))"

text \<open>Without a line \<^verbatim>\<open>nombre_proceso\<close> ends without a value, which its caller prints.\<close>

definition nombre_proceso :: "string option option \<Rightarrow> fault + string" where
  "nombre_proceso ruta =
     (case ruta of None \<Rightarrow> Inl NullDeref | Some None \<Rightarrow> Inl Uninit | Some (Some line) \<Rightarrow> Inr line)"

fun ps_main :: "proc_entry list \<Rightarrow> fault + string list" where
  "ps_main [] = Inr []"
| "ps_main ((n, dir, comm) # es) =
     (if dir \<and> n \<noteq> [] \<and> c_isdigit (hd n) then
        chain (nombre_proceso comm) (\<lambda>comando. chain (ps_main es) (\<lambda>r. Inr ((n @ '' '' @ comando) # r)))
      else ps_main es)"

section \<open>What find prints\<close>

text \<open>The files and directories of a tree as lists of names, each directory in front of its entries.\<close>

fun all_paths :: "entry list \<Rightarrow> string list list" where
  "all_paths [] = []"
| "all_paths (Regular n # es) = [n] # all_paths es"
| "all_paths (OtherType n # es) = all_paths es"
| "all_paths (Directory n sub # es) =
     [n] # map (Cons n) (case sub of None \<Rightarrow> [] | Some ds \<Rightarrow> all_paths ds) @ all_paths es"

text \<open>Names other than the dots, and every directory readable.\<close>

fun plain_tree :: "entry list \<Rightarrow> bool" where
  "plain_tree [] \<longleftrightarrow> True"
| "plain_tree (Regular n # es) \<longleftrightarrow> n \<notin> dots \<and> plain_tree es"
| "plain_tree (OtherType n # es) \<longleftrightarrow> plain_tree es"
| "plain_tree (Directory n sub # es) \<longleftrightarrow>
     n \<notin> dots \<and> (case sub of None \<Rightarrow> False | Some ds \<Rightarrow> plain_tree ds) \<and> plain_tree es"

fun path_text :: "string list \<Rightarrow> string" where
  "path_text [] = []"
| "path_text [n] = n"
| "path_text (n # ns) = n @ ''/'' @ path_text ns"

lemma path_text_Cons: "ns \<noteq> [] \<Longrightarrow> path_text (n # ns) = n @ ''/'' @ path_text ns"
  by (cases ns) simp_all

lemma all_paths_ne: "p \<in> set (all_paths es) \<Longrightarrow> p \<noteq> []"
  by (induction es rule: all_paths.induct) (auto split: option.splits)

lemma join_path_short: "length (ruta @ ''/'' @ n) < PATH_MAX \<Longrightarrow> join_path ruta n = ruta @ ''/'' @ n"
  by (simp add: join_path_def PATH_MAX_def)

lemma leer_directorio_prints:
  "plain_tree es \<Longrightarrow> \<forall>p\<in>set (all_paths es). length (ruta @ ''/'' @ path_text p) < PATH_MAX \<Longrightarrow>
   leer_directorio found ruta es =
     (map (\<lambda>p. ruta @ ''/'' @ path_text p) (filter (\<lambda>p. found (last p)) (all_paths es)), True)"
proof (induction found ruta es rule: leer_directorio.induct)
  case (4 found ruta n sub es)
  from 4(4) obtain ds where ds: "sub = Some ds" and n: "n \<notin> dots" and p: "plain_tree ds" "plain_tree es"
    by (auto split: option.splits)
  have j: "join_path ruta n = ruta @ ''/'' @ n" using 4(5) by (intro join_path_short) simp
  have ne: "\<forall>q\<in>set (all_paths ds). q \<noteq> []" using all_paths_ne by blast
  have short: "\<forall>q\<in>set (all_paths ds). length ((ruta @ ''/'' @ n) @ ''/'' @ path_text q) < PATH_MAX"
  proof
    fix q
    assume q: "q \<in> set (all_paths ds)"
    then have "n # q \<in> set (all_paths (Directory n sub # es))" by (simp add: ds)
    with 4(5) have "length (ruta @ ''/'' @ path_text (n # q)) < PATH_MAX" by blast
    with q ne show "length ((ruta @ ''/'' @ n) @ ''/'' @ path_text q) < PATH_MAX"
      by (simp add: path_text_Cons)
  qed
  have "leer_directorio found (ruta @ ''/'' @ n) ds =
      (map (\<lambda>q. (ruta @ ''/'' @ n) @ ''/'' @ path_text q) (filter (\<lambda>q. found (last q)) (all_paths ds)), True)"
    by (rule 4(2)[OF n j[symmetric] ds p(1) short])
  moreover have "leer_directorio found ruta es =
      (map (\<lambda>p. ruta @ ''/'' @ path_text p) (filter (\<lambda>p. found (last p)) (all_paths es)), True)"
    using 4(3)[OF n j[symmetric] p(2)] 4(5) by simp
  moreover have "map (\<lambda>p. ruta @ ''/'' @ path_text p) (filter (\<lambda>p. found (last p)) (map (Cons n) (all_paths ds)))
      = map (\<lambda>q. (ruta @ ''/'' @ n) @ ''/'' @ path_text q) (filter (\<lambda>q. found (last q)) (all_paths ds))"
    using ne by (auto simp: filter_map path_text_Cons comp_def intro!: map_cong filter_cong)
  ultimately show ?case using n ds j by (simp add: and_then_def Let_def)
qed (auto simp: and_then_def join_path_short)

lemma find_top_prints:
  "plain_tree es \<Longrightarrow> \<forall>p\<in>set (all_paths es). length (path_text p) < PATH_MAX \<Longrightarrow>
   find_top found es = (map path_text (filter (\<lambda>p. found (last p)) (all_paths es)), True)"
proof (induction found es rule: find_top.induct)
  case (4 found n sub es)
  then obtain ds where ds: "sub = Some ds" and n: "n \<notin> dots" and p: "plain_tree ds" "plain_tree es"
    by (auto split: option.splits)
  have ne: "\<forall>q\<in>set (all_paths ds). q \<noteq> []" using all_paths_ne by blast
  have "\<forall>q\<in>set (all_paths ds). length (n @ ''/'' @ path_text q) < PATH_MAX"
  proof
    fix q
    assume q: "q \<in> set (all_paths ds)"
    then have "n # q \<in> set (all_paths (Directory n sub # es))" by (simp add: ds)
    with 4 have "length (path_text (n # q)) < PATH_MAX" by blast
    with q ne show "length (n @ ''/'' @ path_text q) < PATH_MAX" by (simp add: path_text_Cons)
  qed
  from leer_directorio_prints[OF p(1) this, of found] have "leer_directorio found n ds =
      (map (\<lambda>q. n @ ''/'' @ path_text q) (filter (\<lambda>q. found (last q)) (all_paths ds)), True)" .
  moreover have "find_top found es = (map path_text (filter (\<lambda>p. found (last p)) (all_paths es)), True)"
    using 4 n p(2) by simp
  moreover have "map path_text (filter (\<lambda>p. found (last p)) (map (Cons n) (all_paths ds)))
      = map (\<lambda>q. n @ ''/'' @ path_text q) (filter (\<lambda>q. found (last q)) (all_paths ds))"
    using ne by (auto simp: filter_map path_text_Cons comp_def intro!: map_cong filter_cong)
  ultimately show ?case using n ds by (simp add: and_then_def)
qed (auto simp: and_then_def)

text \<open>A text occurs in a name.\<close>

definition occurs :: "string \<Rightarrow> string \<Rightarrow> bool" where
  "occurs sub s \<longleftrightarrow> (\<exists>a b. s = a @ sub @ b)"

lemma starts_with_iff: "starts_with s sub \<longleftrightarrow> (\<exists>b. s = sub @ b)"
  by (induction s sub rule: starts_with.induct) auto

lemma strstr_iff: "strstr s sub \<noteq> None \<longleftrightarrow> occurs sub s"
proof (induction s)
  case Nil
  show ?case by (subst strstr.simps) (simp add: starts_with_iff occurs_def)
next
  case (Cons x xs)
  have "occurs sub (x # xs) \<longleftrightarrow> starts_with (x # xs) sub \<or> occurs sub xs"
    unfolding occurs_def starts_with_iff by (metis append_Cons append_Nil neq_Nil_conv list.inject)
  with Cons show ?case by (subst strstr.simps) simp
qed

text \<open>C17: \<^verbatim>\<open>find\<close> prints exactly the paths of the files and directories whose own name contains the
  argument, each directory in front of what is in it, as long as every directory can be opened and
  no path is longer than \<^verbatim>\<open>PATH_MAX\<close> allows.\<close>

theorem find_prints_matches:
  assumes "plain_tree es" and "\<forall>p\<in>set (all_paths es). length (path_text p) < PATH_MAX"
  shows "find_main [arg] (Some es) =
    (map path_text (filter (\<lambda>p. occurs arg (last p)) (all_paths es)), True)"
  using find_top_prints[OF assms, of "\<lambda>n. caso_sensitivo n arg \<noteq> None"]
  by (simp add: find_main_def caso_sensitivo_def strstr_iff del: not_None_eq)

definition demo_tree :: "entry list" where
  "demo_tree = [Regular ''main.c'', Directory ''src'' (Some [Regular ''util.c'', Directory ''main'' (Some [])])]"

lemma find_prints_matches_witness:
  "find_main [''main''] (Some demo_tree) = ([''main.c'', ''src/main''], True)"
proof -
  have "plain_tree demo_tree" and "\<forall>p\<in>set (all_paths demo_tree). length (path_text p) < PATH_MAX"
    by code_simp+
  from find_prints_matches[OF this, of "''main''"]
  have "find_main [''main''] (Some demo_tree) =
      (map path_text (filter (\<lambda>p. strstr (last p) ''main'' \<noteq> None) (all_paths demo_tree)), True)"
    by (simp only: strstr_iff)
  moreover have "map path_text (filter (\<lambda>p. strstr (last p) ''main'' \<noteq> None) (all_paths demo_tree))
      = [''main.c'', ''src/main'']"
    by code_simp
  ultimately show ?thesis by simp
qed

text \<open>With two arguments the flag is not one: the text searched for is \<^verbatim>\<open>-i\<close> itself.\<close>

lemma find_flag_ignored: "find_main [''-i'', arg] cwd = find_main [''-i''] cwd"
  by (simp add: find_main_def)

end
