(* ===== verification/CopyLab.thy ===== *)
theory CopyLab
  imports Prelude
begin

text \<open>
  \<^verbatim>\<open>fork/challenges/cp1.c\<close>: a copy of a file through two mappings. The length of the second mapping is never
  set; it is an argument here, so that the theorems say for which values the program copies. What the
  system allows is an argument too. A name is a file of its own: two names linked to one file are not considered.
\<close>

section \<open>Files and mappings\<close>

type_synonym files = "string \<Rightarrow> u8 list option"

record cp_os =
  may_open :: "string \<Rightarrow> bool"
  may_create :: "string \<Rightarrow> bool"
  may_truncate :: "string \<Rightarrow> nat \<Rightarrow> bool"
  may_map :: "nat \<Rightarrow> bool"

definition PAGE :: nat where "PAGE = 4096"

definition page_round :: "nat \<Rightarrow> nat" where
  "page_round n = (n + PAGE - 1) div PAGE * PAGE"

text \<open>\<^verbatim>\<open>open\<close> with \<^verbatim>\<open>O_RDWR\<close>, and with \<^verbatim>\<open>O_CREAT\<close> too; None is the answer -1.\<close>

definition open_rdwr :: "cp_os \<Rightarrow> string \<Rightarrow> files \<Rightarrow> u8 list option" where
  "open_rdwr os path fs = (if may_open os path then fs path else None)"

definition open_creat :: "cp_os \<Rightarrow> string \<Rightarrow> files \<Rightarrow> files option" where
  "open_creat os path fs =
     (case fs path of
        Some _ \<Rightarrow> if may_open os path then Some fs else None
      | None \<Rightarrow> if may_create os path then Some (fs(path \<mapsto> [])) else None)"

text \<open>\<^verbatim>\<open>ftruncate\<close> cuts the file or fills it with zeros; one that fails leaves it.\<close>

definition ftruncate :: "cp_os \<Rightarrow> string \<Rightarrow> nat \<Rightarrow> files \<Rightarrow> files" where
  "ftruncate os path n fs =
     (case fs path of
        Some b \<Rightarrow> if may_truncate os path n then fs(path \<mapsto> take n b @ replicate (n - length b) 0) else fs
      | None \<Rightarrow> fs)"

text \<open>\<^verbatim>\<open>mmap\<close> refuses a length of zero.\<close>

definition mmap_fails :: "cp_os \<Rightarrow> nat \<Rightarrow> bool" where
  "mmap_fails os len \<longleftrightarrow> len = 0 \<or> \<not> may_map os len"

text \<open>\<^verbatim>\<open>memcpy\<close> of \<open>src\<close> into a shared mapping of \<open>len\<close> bytes of a file: whole pages are mapped, those
  beyond the end of the file cannot be written, and what is written behind the end in its last page is lost.\<close>

definition copy_to_mapping :: "u8 list \<Rightarrow> nat \<Rightarrow> u8 list \<Rightarrow> fault + u8 list" where
  "copy_to_mapping src len b =
     (if page_round len < length src \<or> page_round (length b) < length src then Inl OutOfBounds
      else Inr (take (length b) (src @ drop (length src) b)))"

section \<open>The program\<close>

text \<open>The exit status, the message and the files; \<open>g\<close> is what \<^verbatim>\<open>stat_destino.st_size\<close> holds.\<close>

definition cp1_main :: "cp_os \<Rightarrow> u64 \<Rightarrow> string list \<Rightarrow> files \<Rightarrow> fault + (int \<times> string \<times> files)" where
  "cp1_main os g argv fs =
     (if length argv \<noteq> 3 then Inr (-1, ''Error en el input'', fs)
      else case open_rdwr os (argv ! 1) fs of
        None \<Rightarrow> Inr (-1, ''Error al leer el archivo'', fs)
      | Some b \<Rightarrow>
        if mmap_fails os (length b) then Inr (-1, ''Fallo en mmap'', fs)
        else case open_creat os (argv ! 2) fs of
          None \<Rightarrow> Inr (-1, ''Error al crear el archivo destino'', fs)
        | Some fs1 \<Rightarrow>
          let fs2 = ftruncate os (argv ! 2) (length b) fs1 in
          if mmap_fails os (unat g) then Inr (-1, ''Fallo en mmap'', fs2)
          else case (fs2 (argv ! 1), fs2 (argv ! 2)) of
            (Some src, Some dst) \<Rightarrow>
              chain (copy_to_mapping src (unat g) dst) (\<lambda>new. Inr (0, [], fs2(argv ! 2 \<mapsto> new)))
          | _ \<Rightarrow> Inl NullDeref)"

lemma page_round_ge: "n \<le> page_round n"
proof -
  have "(n + PAGE - 1) div PAGE * PAGE + (n + PAGE - 1) mod PAGE = n + PAGE - 1" by simp
  moreover have "(n + PAGE - 1) mod PAGE \<le> PAGE - 1" by (simp add: PAGE_def mod_less_eq_dividend flip: less_Suc_eq_le)
  ultimately show ?thesis by (simp add: page_round_def PAGE_def)
qed

lemma page_round_mono: "n \<le> m \<Longrightarrow> page_round n \<le> page_round m"
  unfolding page_round_def by (intro mult_le_mono1 div_le_mono) simp

lemma open_creatD: "open_creat os d fs = Some fs1 \<Longrightarrow> (\<exists>b. fs1 = fs(d \<mapsto> b)) \<and> (fs d \<noteq> None \<longrightarrow> fs1 = fs)"
  by (force simp: open_creat_def split: option.splits if_splits)

text \<open>The files before the copying itself: only the target has changed, to the length of the source, and
  a source that is its own target has kept its bytes.\<close>

lemma truncated_files:
  assumes "fs s = Some b" and "open_creat os d fs = Some fs1" and "may_truncate os d (length b)"
  obtains c where "ftruncate os d (length b) fs1 = fs(d \<mapsto> c)" and "length c = length b" and "s = d \<longrightarrow> c = b"
proof -
  obtain b0 where b0: "fs1 = fs(d \<mapsto> b0)" "fs d \<noteq> None \<longrightarrow> fs1 = fs" using open_creatD[OF assms(2)] by blast
  have "ftruncate os d (length b) fs1 = fs(d \<mapsto> take (length b) b0 @ replicate (length b - length b0) 0)"
    using assms(3) b0(1) by (simp add: ftruncate_def)
  moreover have "s = d \<longrightarrow> b0 = b" using b0 assms(1) by (metis fun_upd_same option.inject option.simps(3))
  ultimately show ?thesis by (intro that[of "take (length b) b0 @ replicate (length b - length b0) 0"]) auto
qed

text \<open>With an uninitialised length that covers the source in whole pages, the copy is made: the target holds the
  bytes of the source, every other file is as before, and the program answers 0.\<close>

theorem cp1_copies:
  assumes "fs s = Some b" and "b \<noteq> []" and "may_open os s" and "open_creat os d fs \<noteq> None"
    and "may_truncate os d (length b)" and "may_map os (length b)"
    and "may_map os (unat g)" and "g \<noteq> 0" and "length b \<le> page_round (unat g)"
  shows "cp1_main os g [p, s, d] fs = Inr (0, [], fs(d \<mapsto> b))"
proof -
  obtain fs1 where 1: "open_creat os d fs = Some fs1" using assms(4) by blast
  obtain c where c: "ftruncate os d (length b) fs1 = fs(d \<mapsto> c)" "length c = length b" "s = d \<longrightarrow> c = b"
    using truncated_files[OF assms(1) 1 assms(5)] .
  have "(fs(d \<mapsto> c)) s = Some b" using assms(1) c(3) by simp
  then show ?thesis using assms 1 c page_round_ge[of "length b"]
    by (simp add: cp1_main_def open_rdwr_def mmap_fails_def copy_to_mapping_def unat_eq_zero numeral_2_eq_2)
qed

text \<open>The program never claims a copy that it has not made, as long as the target could be given its length: after the
  answer 0 the target holds the source. It can only answer 0 when the source is not empty and the
  uninitialised length is not zero and covers the source.\<close>

theorem cp1_success_copied:
  assumes "cp1_main os g argv fs = Inr (0, out, fs')" and "\<forall>f n. may_truncate os f n"
  shows "\<exists>p s d b. argv = [p, s, d] \<and> fs s = Some b \<and> b \<noteq> [] \<and> fs' = fs(d \<mapsto> b)
    \<and> g \<noteq> 0 \<and> length b \<le> page_round (unat g)"
proof -
  have "length argv = 3" using assms(1) by (auto simp: cp1_main_def split: if_splits)
  then obtain p s d where argv: "argv = [p, s, d]" by (auto simp: length_Suc_conv numeral_3_eq_3)
  note r = assms(1)[unfolded argv cp1_main_def, simplified]
  obtain b where b: "open_rdwr os s fs = Some b" "\<not> mmap_fails os (length b)" using r by (auto split: option.splits if_splits)
  obtain fs1 where 1: "open_creat os d fs = Some fs1" using r b by (auto split: option.splits)
  have s: "fs s = Some b" using b(1) by (simp add: open_rdwr_def split: if_splits)
  obtain c where c: "ftruncate os d (length b) fs1 = fs(d \<mapsto> c)" "length c = length b" "s = d \<longrightarrow> c = b"
    using truncated_files[OF s 1] assms(2) by blast
  have g: "\<not> mmap_fails os (unat g)" using r b 1 by (auto simp: Let_def numeral_2_eq_2)
  have cs: "(fs(d \<mapsto> c)) s = Some b" using s c(3) by simp
  have "chain (copy_to_mapping b (unat g) c) (\<lambda>new. Inr (0, [], fs(d \<mapsto> c, d \<mapsto> new))) = (Inr (0, out, fs') :: fault + (int \<times> string \<times> files))"
    using r b 1 g cs by (simp add: Let_def c(1) numeral_2_eq_2)
  then have "fs' = fs(d \<mapsto> b)" "length b \<le> page_round (unat g)"
    using c(2) by (auto simp: copy_to_mapping_def split: if_splits)
  then show ?thesis using argv s b(2) g by (auto simp: mmap_fails_def unat_eq_zero)
qed

text \<open>An empty file is never copied: the first mapping has length zero, and the target is not even created.\<close>

theorem cp1_empty_source:
  assumes "fs s = Some []" and "may_open os s"
  shows "cp1_main os g [p, s, d] fs = Inr (-1, ''Fallo en mmap'', fs)"
  using assms by (simp add: cp1_main_def open_rdwr_def mmap_fails_def)

text \<open>With an uninitialised length of zero the target is left full of zeros, or with the beginning of what it held, and
  the answer is -1.\<close>

theorem cp1_zero_length:
  assumes "fs s = Some b" and "b \<noteq> []" and "s \<noteq> d" and "may_open os s" and "open_creat os d fs \<noteq> None"
    and "may_truncate os d (length b)" and "may_map os (length b)"
  shows "cp1_main os 0 [p, s, d] fs = Inr (-1, ''Fallo en mmap'',
    fs(d \<mapsto> (let old = case_option [] id (fs d) in take (length b) old @ replicate (length b - length old) 0)))"
proof -
  obtain fs1 where 1: "open_creat os d fs = Some fs1" using assms(5) by blast
  have "fs1 = fs(d \<mapsto> case_option [] id (fs d))"
    using 1 by (auto simp: open_creat_def split: option.splits if_splits)
  then show ?thesis using assms 1
    by (simp add: cp1_main_def open_rdwr_def mmap_fails_def ftruncate_def numeral_2_eq_2 Let_def)
qed

text \<open>The answer 0 of a truncation that failed: only as much of the source as the target had room for.\<close>

lemma cp1_truncation_unchecked:
  "cp1_main \<lparr>may_open = \<lambda>_. True, may_create = \<lambda>_. True, may_truncate = \<lambda>_ _. False, may_map = \<lambda>_. True\<rparr> 5
     [[], ''a'', ''b''] [''a'' \<mapsto> [1, 2, 3, 4, 5], ''b'' \<mapsto> [9, 9]]
   = Inr (0, [], [''a'' \<mapsto> [1, 2, 3, 4, 5], ''b'' \<mapsto> [1, 2]])"
  by (auto simp: cp1_main_def open_rdwr_def mmap_fails_def open_creat_def ftruncate_def copy_to_mapping_def
      page_round_def PAGE_def Let_def)

end
