(* ===== verification/Spec2Isabelle.thy ===== *)
theory Spec2Isabelle
  imports FisopfsSpec Kdebug Init Segments Kprintf Entrypgdir KlibC Monitor Persistence PmapProps KernelMem SyscallProps UlibProps DumbFork UserProgs UserTests ConsoleProps Printfmt
    ShellProps ShellSignals ForkLab FindLab CopyLab
begin

text \<open>
  \<^bold>\<open>The repository.\<close> Four programs of an operating systems course, in C: a file system in user space
  (\<^verbatim>\<open>fisopfs\<close>), a shell (\<^verbatim>\<open>shell\<close>), a teaching kernel for x86 with its user library (\<^verbatim>\<open>sched\<close>), and a
  set of programs on processes and pipes (\<^verbatim>\<open>fork\<close>). They share no code; what the theories share is
  the prelude.

  \<^bold>\<open>How the code is translated.\<close> A struct is a record with the field names of the source, an array
  of fixed length a list or a function from indices, an integer of the machine a word of its width,
  so that sums wrap as in C; C's \<^verbatim>\<open>int\<close> is \<^verbatim>\<open>int\<close> where no bound is at stake. A write or a read
  outside an array, the dereference of a null pointer, the use of an uninitialised value, a failed
  assertion and a kernel panic are values of the type of faults of \<^verbatim>\<open>Prelude\<close>; \<^verbatim>\<open>chain\<close> threads them.
  In the kernel a function that does not return (it runs an environment, halts or stays in the
  monitor) answers a control value of the datatype of \<^verbatim>\<open>Env\<close>, threaded by \<^verbatim>\<open>bindc\<close>. What the
  operating system, the hardware or the firmware decides is an argument.

  \<^bold>\<open>fisopfs.\<close>
  \<^verbatim>\<open>Fisopfs\<close>: \<^verbatim>\<open>fisopfs.c\<close> and \<^verbatim>\<open>structs.h\<close>. The state is the table of 20 by 20 cells, column 0 of a row a
  directory and the others its files; one function per callback, and \<^verbatim>\<open>fs_call\<close>, the callbacks as
  requests. \<^verbatim>\<open>FisopfsProps\<close>: the invariant (\<^verbatim>\<open>fs_inv\<close>: cells well formed and no holes; a path
  can stand twice, since \<^verbatim>\<open>mkdir\<close> does not look for it) over every history of requests, what each request does,
  writing and reading back.
  \<^verbatim>\<open>FisopfsSpec\<close>: the abstract file system, a map from paths to directories and texts, and the
  simulation between the two through the locale \<^verbatim>\<open>simulation\<close> of the prelude, for histories that make no
  directory over an entry: in these no path stands twice (\<^verbatim>\<open>unique_paths\<close>, part of \<^verbatim>\<open>sim_inv\<close>). The requests are all
  callbacks of the table between \<^verbatim>\<open>init\<close> and \<^verbatim>\<open>destroy\<close> except \<^verbatim>\<open>flush\<close>, those that only read included; the replies are
  what FUSE gets back.
  \<^verbatim>\<open>Persistence\<close>: \<^verbatim>\<open>persistence.c\<close> and \<^verbatim>\<open>argumentos.c\<close>; the table as bytes on the disk and back.

  \<^bold>\<open>shell.\<close>
  \<^verbatim>\<open>ShellParse\<close>: from a line to a command tree (\<^verbatim>\<open>parsing.c\<close>, \<^verbatim>\<open>createcmd.c\<close>, \<^verbatim>\<open>freecmd.c\<close>, \<^verbatim>\<open>utils.c\<close>).
  \<^verbatim>\<open>ShellExec\<close>: from a command to the tree of processes it becomes, with their descriptors
  (\<^verbatim>\<open>exec.c\<close>), the built-ins and the main loop. \<^verbatim>\<open>ShellSignals\<close>: the handler in \<^verbatim>\<open>sh.c\<close> that collects
  ended children, against the wait of \<^verbatim>\<open>run_cmd\<close>, as a step relation. \<^verbatim>\<open>ShellProps\<close>: pipelines are parsed and wired as written,
  the trees are well formed, assignments in front of a command.

  \<^bold>\<open>The kernel.\<close> In the order in which one part uses another:
  \<^verbatim>\<open>Klib\<close> and \<^verbatim>\<open>KlibC\<close> (\<^verbatim>\<open>lib/string.c\<close>, with both variants of its memory blocks), \<^verbatim>\<open>Printfmt\<close> (\<^verbatim>\<open>lib/printfmt.c\<close>, \<^verbatim>\<open>lib/printf.c\<close>),
  \<^verbatim>\<open>Mmu\<close> (\<^verbatim>\<open>inc/mmu.h\<close>, \<^verbatim>\<open>inc/memlayout.h\<close>), \<^verbatim>\<open>Pmap\<close> (\<^verbatim>\<open>kern/pmap.c\<close>: physical memory as words of frames, the
  list of free pages, page directories and tables as the processor reads them) with \<^verbatim>\<open>PmapProps\<close>
  (one address space: mapping, unmapping, checks of user memory, the free list after \<^verbatim>\<open>page_init\<close>),
  \<^verbatim>\<open>PmapCheck\<close> (the self-tests that \<^verbatim>\<open>mem_init\<close> runs, as programs whose assertions are panics; those of the
  allocator pass), \<^verbatim>\<open>PmapBoot\<close> (\<^verbatim>\<open>boot_map_region\<close> and the static mappings; \<^verbatim>\<open>kspace\<close> describes the kernel's
  directory by the entry of each page), \<^verbatim>\<open>PmapSelf\<close> (the self-tests of the page tables pass, computed by
  rewriting over two families of states), \<^verbatim>\<open>PmapInit\<close> (\<^verbatim>\<open>mem_init\<close> returns on a machine with enough memory),
  \<^verbatim>\<open>Entrypgdir\<close> (\<^verbatim>\<open>kern/entrypgdir.c\<close>),
  \<^verbatim>\<open>Spinlock\<close> (\<^verbatim>\<open>kern/spinlock.c\<close>: several processors as a step relation over the exchange),
  \<^verbatim>\<open>Segments\<close> (the descriptors and task states of \<^verbatim>\<open>inc/mmu.h\<close>, the table of \<^verbatim>\<open>kern/env.c\<close> and the two set-ups of a
  processor, over which every processor gets a task state and a kernel stack of its own),
  \<^verbatim>\<open>Env\<close> (\<^verbatim>\<open>kern/env.c\<close>; the state of the kernel, \<^verbatim>\<open>kst\<close>), \<^verbatim>\<open>Sched\<close> (\<^verbatim>\<open>kern/sched.c\<close>) with \<^verbatim>\<open>SchedProps\<close>,
  \<^verbatim>\<open>Syscall\<close> (\<^verbatim>\<open>kern/syscall.c\<close>) with \<^verbatim>\<open>SyscallProps\<close>, \<^verbatim>\<open>Trap\<close> (\<^verbatim>\<open>kern/trap.c\<close>) and \<^verbatim>\<open>KernelInv\<close>, the invariant
  of every sequence of traps on every processor: there is always an environment to schedule or the
  processor halts, tickets stay positive, the lock is held where it must be.
  \<^verbatim>\<open>PageRefs\<close> and \<^verbatim>\<open>KernelMem\<close> join memory and environments: in every address space of every environment
  the reference count of a page is the number of entries that map it, the free pages are those with
  count zero, and no page is both; the system calls keep this account, a mapping made in one
  environment is not seen by another, and \<^verbatim>\<open>env_free\<close> gives every page back.
  \<^verbatim>\<open>Ulib\<close> and \<^verbatim>\<open>UlibProps\<close> (\<^verbatim>\<open>lib/syscall.c\<close>, \<^verbatim>\<open>lib/fork.c\<close>, \<^verbatim>\<open>lib/ipc.c\<close>, \<^verbatim>\<open>lib/pgfault.c\<close>) are the user's
  side: the functions call the system calls of \<^verbatim>\<open>Syscall\<close> on the same state. \<^verbatim>\<open>AddressSpace\<close> reads the tables
  below \<^verbatim>\<open>UTOP\<close> as one array of entries, which \<^verbatim>\<open>page_insert\<close> and \<^verbatim>\<open>page_remove\<close> update at one index;
  over it \<^verbatim>\<open>CowFork\<close> follows the loop of \<^verbatim>\<open>fork\<close> page by page, \<^verbatim>\<open>ForkProps\<close> states what \<^verbatim>\<open>fork\<close> leaves behind and
  \<^verbatim>\<open>CowFault\<close> that the fault handler gives a private copy; \<^verbatim>\<open>DumbFork\<close> follows \<^verbatim>\<open>user/dumbfork.c\<close>, whose child gets
  a copy of every page. \<^verbatim>\<open>UserProgs\<close> has the start and end of a program (\<^verbatim>\<open>lib/libmain.c\<close>, \<^verbatim>\<open>lib/exit.c\<close>) and
  three programs of processes that exchange messages (\<^verbatim>\<open>user/primes.c\<close>, \<^verbatim>\<open>user/forktree.c\<close>, \<^verbatim>\<open>user/pingpong.c\<close>),
  as what each does with the messages it gets; \<^verbatim>\<open>UserTests\<close> has three that test one service (\<^verbatim>\<open>user/faultregs.c\<close>,
  \<^verbatim>\<open>user/alloczero.c\<close>, \<^verbatim>\<open>user/priorities.c\<close>). What the parent's own stack does during the
  loop (its writes fault and are handled) is not interleaved with it.
  \<^verbatim>\<open>Console\<close> and \<^verbatim>\<open>ConsoleProps\<close> (\<^verbatim>\<open>kern/console.c\<close>), \<^verbatim>\<open>Monitor\<close> (\<^verbatim>\<open>lib/readline.c\<close>, \<^verbatim>\<open>kern/monitor.c\<close>),
  \<^verbatim>\<open>Kprintf\<close> (\<^verbatim>\<open>kern/printf.c\<close> on the console, the dump of a trap frame, panics and warnings as the text they print),
  \<^verbatim>\<open>Kdebug\<close> (\<^verbatim>\<open>kern/kdebug.c\<close>: the search in the symbol table), \<^verbatim>\<open>Mpconfig\<close> (\<^verbatim>\<open>kern/mpconfig.c\<close>), \<^verbatim>\<open>Devices\<close>
  (\<^verbatim>\<open>kern/picirq.c\<close>, \<^verbatim>\<open>kern/kclock.c\<close>, \<^verbatim>\<open>kern/lapic.c\<close>: the writes to the devices in order) and \<^verbatim>\<open>Init\<close>
  (\<^verbatim>\<open>kern/init.c\<close>), which composes them: the state after the start satisfies the invariant of \<^verbatim>\<open>KernelInv\<close>.

  \<^bold>\<open>fork.\<close> \<^verbatim>\<open>ForkLab\<close>: \<^verbatim>\<open>primes.c\<close> and \<^verbatim>\<open>xargs.c\<close>; the output of \<^verbatim>\<open>primes\<close> is stated for as many lines as the
  buffer of \<^verbatim>\<open>stdio\<close> holds, whose size is an argument. \<^verbatim>\<open>FindLab\<close>: \<^verbatim>\<open>find.c\<close> and \<^verbatim>\<open>ps0.c\<close>. \<^verbatim>\<open>CopyLab\<close>: \<^verbatim>\<open>cp1.c\<close>, whose
  effect depends on a length that it never sets; the length is an argument.

  \<^bold>\<open>Interfaces.\<close> The locales are stated where a client relies on a contract: the simulation of an
  abstract machine, a state kept good by every step, the queue behind the console's ring, the free
  list of pages. Each is interpreted on the definitions of the model, and the properties rest on
  the interpreted facts.

  \<^bold>\<open>Loops and bounds.\<close> A loop over an array is a recursion on its length. A loop whose end is not
  evident is a \<^verbatim>\<open>function\<close> with its measure (the search of \<^verbatim>\<open>Kdebug\<close> ends by a lexicographic order,
  since an exact match makes it search again for the next address), or a partial function into
  the option type (\<^verbatim>\<open>cons_intr\<close>, \<^verbatim>\<open>ipc_send\<close>, the monitor), with theorems that it returns. The number of
  pages that the loops of \<^verbatim>\<open>lib/fork.c\<close> visit is the source's constant.

  \<^bold>\<open>Not modelled.\<close> Assembly and inline assembly, apart from the instructions whose effect a caller needs;
  the large-page variant of \<^verbatim>\<open>pmap.c\<close>, which the build does not select; the busy waits on device status;
  the other user test programs, which
  make one system call or one fault each, and the graders. Four simplifications of the kernel's memory: every frame can be
  accessed from the start, while before \<^verbatim>\<open>mem_init\<close> loads its directory the one of \<^verbatim>\<open>entrypgdir.c\<close> maps only 4 MB;
  the kernel's writes to user pages do not look at the write bit of the entry, which the processor checks as \<^verbatim>\<open>CR0_WP\<close> is
  set; \<^verbatim>\<open>sys_cputs\<close> reads the bytes it is asked to print, while \<^verbatim>\<open>printfmt.c\<close> also looks at the one behind
  them and prints a text of its own for a null pointer; and the blocks of \<^verbatim>\<open>lib/string.c\<close> do not wrap around the end of memory. In the shell, more words than
  \<^verbatim>\<open>argv\<close> has room for are a fault of the model; the code has no check. C's undefined behaviour beyond the faults above (alignment, overflow of \<^verbatim>\<open>int\<close>) and the
  failure of allocation in user programs are not modelled either.
\<close>

end
